(* ===== verification/Go_Prelude.thy ===== *)
theory Go_Prelude
  imports
    "HOL-Library.Word" "HOL-Library.Code_Target_Numeral"
    "HOL-Library.Char_ord"
    "HOL-Library.List_Lexorder"
begin

text \<open>
  What every theory of the development shares.

  \<^item> Go strings are byte sequences: \<open>string\<close> is a list of 8-bit characters, \<open>byte\<close> reads
    one as a number, and the order on strings is the bytewise lexicographic one of
    \<^verbatim>\<open>strings.Compare\<close>.
  \<^item> The functions of the Go packages \<^verbatim>\<open>strings\<close> and \<^verbatim>\<open>slices\<close> the source calls, on bytes.
    \<^verbatim>\<open>strings.ToLower\<close> and \<^verbatim>\<open>strings.TrimSpace\<close> follow the Unicode tables for text outside
    ASCII; those tables are data of the Go release, so the non-ASCII half of \<open>toLower\<close> is
    an argument.
  \<^item> Fallible calls return \<open>'e + 'a\<close>, \<open>Inl\<close> for the error.
  \<^item> Generic lemmas on lists, sums and words, and the collections of rewrite rules the
    component proofs use.
\<close>

named_theorems go_defs \<open>definitions of small helpers, unfolded together\<close>
named_theorems res_splits \<open>case splits for results\<close>

section \<open>Bytes and strings\<close>

type_synonym bytes = string

abbreviation byte :: "char \<Rightarrow> nat" where
  "byte c \<equiv> of_char c"

definition isDigit :: "char \<Rightarrow> bool" where
  "isDigit c \<longleftrightarrow> 48 \<le> byte c \<and> byte c \<le> 57"

definition isLower :: "char \<Rightarrow> bool" where
  "isLower c \<longleftrightarrow> 97 \<le> byte c \<and> byte c \<le> 122"

definition isUpper :: "char \<Rightarrow> bool" where
  "isUpper c \<longleftrightarrow> 65 \<le> byte c \<and> byte c \<le> 90"

definition asciiLower :: "char \<Rightarrow> char" where
  "asciiLower c = (if isUpper c then char_of (byte c + 32) else c)"

definition isASCII :: "string \<Rightarrow> bool" where
  "isASCII s \<longleftrightarrow> (\<forall>c\<in>set s. byte c < 128)"

text \<open>
  \<^verbatim>\<open>strings.ToLower\<close>: the ASCII case maps A-Z; any other string goes through the Unicode
  mapping \<open>u\<close>.
\<close>

definition toLower :: "(string \<Rightarrow> string) \<Rightarrow> string \<Rightarrow> string" where
  "toLower u s = (if isASCII s then map asciiLower s else u s)"

text \<open>
  \<^verbatim>\<open>strings.EqualFold(s, w)\<close> for an ASCII word \<open>w\<close>. Under Unicode simple folding the only
  runes outside ASCII that fold to an ASCII letter are U+017F (to s, bytes C5 BF) and
  U+212A (to k, bytes E2 84 AA), so the comparison needs no table.
\<close>

fun equalFold :: "string \<Rightarrow> string \<Rightarrow> bool" where
  "equalFold [] w = (w = [])"
| "equalFold (c # s) [] = False"
| "equalFold (c # s) (w # ws) =
     (if byte c < 128 then asciiLower c = asciiLower w \<and> equalFold s ws
      else if byte c = 0xC5 then
        (case s of [] \<Rightarrow> False
         | c2 # s' \<Rightarrow> byte c2 = 0xBF \<and> asciiLower w = CHR ''s'' \<and> equalFold s' ws)
      else if byte c = 0xE2 then
        (case s of c2 # c3 # s' \<Rightarrow>
            byte c2 = 0x84 \<and> byte c3 = 0xAA \<and> asciiLower w = CHR ''k'' \<and> equalFold s' ws
         | _ \<Rightarrow> False)
      else False)"

definition hasPrefix :: "string \<Rightarrow> string \<Rightarrow> bool" where
  "hasPrefix s p \<longleftrightarrow> take (length p) s = p"

definition cutPrefix :: "string \<Rightarrow> string \<Rightarrow> string option" where
  "cutPrefix s p = (if hasPrefix s p then Some (drop (length p) s) else None)"

text \<open>\<^verbatim>\<open>strings.Split(s, sep)\<close> for a one-byte separator: never empty.\<close>

fun splitOn :: "char \<Rightarrow> string \<Rightarrow> string list" where
  "splitOn d [] = [[]]"
| "splitOn d (c # s) =
     (if c = d then [] # splitOn d s
      else (case splitOn d s of [] \<Rightarrow> [[c]] | seg # segs \<Rightarrow> (c # seg) # segs))"

fun joinWith :: "char \<Rightarrow> string list \<Rightarrow> string" where
  "joinWith d [] = []"
| "joinWith d [s] = s"
| "joinWith d (s # t # ss) = s @ d # joinWith d (t # ss)"

text \<open>\<^verbatim>\<open>strings.Cut(s, sep)\<close> for a one-byte separator.\<close>

fun cutAt :: "char \<Rightarrow> string \<Rightarrow> (string \<times> string) option" where
  "cutAt d [] = None"
| "cutAt d (c # s) =
     (if c = d then Some ([], s)
      else map_option (\<lambda>(a, b). (c # a, b)) (cutAt d s))"

text \<open>The ASCII white space of \<^verbatim>\<open>strings.TrimSpace\<close>: tab, newline, VT, FF, CR and blank.\<close>

definition asciiSpace :: "char \<Rightarrow> bool" where
  "asciiSpace c \<longleftrightarrow> byte c = 32 \<or> (9 \<le> byte c \<and> byte c \<le> 13)"

text \<open>
  \<^verbatim>\<open>strings.TrimSpace\<close>. A string whose ends are ASCII is trimmed byte by byte; the Unicode
  spaces beyond ASCII are again an argument, applied where the trimmed string starts or
  ends outside ASCII.
\<close>

definition trimASCII :: "string \<Rightarrow> string" where
  "trimASCII s = rev (dropWhile asciiSpace (rev (dropWhile asciiSpace s)))"

definition trimSpace :: "(string \<Rightarrow> string) \<Rightarrow> string \<Rightarrow> string" where
  "trimSpace u s =
     (let t = trimASCII s in
      if t = [] \<or> (byte (hd t) < 128 \<and> byte (last t) < 128) then t else u t)"

section \<open>UTF-8\<close>

text \<open>
  The length in bytes of the first rune of a non-empty string, as Go's decoder has it: a
  byte that starts no valid sequence is a rune (the replacement character) of its own.
\<close>

definition contByte :: "nat \<Rightarrow> nat \<Rightarrow> string \<Rightarrow> nat \<Rightarrow> bool" where
  "contByte lo hi s i \<longleftrightarrow> i < length s \<and> lo \<le> byte (s ! i) \<and> byte (s ! i) \<le> hi"

definition runeLen :: "string \<Rightarrow> nat" where
  "runeLen s =
     (case s of [] \<Rightarrow> 0
      | c # _ \<Rightarrow>
          let b = byte c;
              cont = contByte 0x80 0xBF s
          in if 0xC2 \<le> b \<and> b \<le> 0xDF \<and> cont 1 then 2
             else if b = 0xE0 \<and> contByte 0xA0 0xBF s 1 \<and> cont 2 then 3
             else if (0xE1 \<le> b \<and> b \<le> 0xEC \<or> 0xEE \<le> b \<and> b \<le> 0xEF) \<and> cont 1 \<and> cont 2 then 3
             else if b = 0xED \<and> contByte 0x80 0x9F s 1 \<and> cont 2 then 3
             else if b = 0xF0 \<and> contByte 0x90 0xBF s 1 \<and> cont 2 \<and> cont 3 then 4
             else if 0xF1 \<le> b \<and> b \<le> 0xF3 \<and> cont 1 \<and> cont 2 \<and> cont 3 then 4
             else if b = 0xF4 \<and> contByte 0x80 0x8F s 1 \<and> cont 2 \<and> cont 3 then 4
             else 1)"

lemma runeLen_pos: "s \<noteq> [] \<Longrightarrow> 0 < runeLen s"
  by (auto simp: runeLen_def Let_def split: list.splits)

text \<open>\<^verbatim>\<open>[]rune(s)\<close>, each rune as its bytes.\<close>

function runes :: "string \<Rightarrow> string list" where
  "runes s = (if s = [] then [] else take (runeLen s) s # runes (drop (runeLen s) s))"
  by pat_completeness auto
termination
  by (relation "measure length") (auto simp: runeLen_pos)

declare runes.simps [simp del]

lemma concat_runes [simp]: "concat (runes s) = s"
  by (induction s rule: runes.induct) (subst runes.simps, auto)

text \<open>The code point of a rune given as its bytes; \<^verbatim>\<open>utf8.RuneError\<close> for an invalid byte.\<close>

definition runeValue :: "string \<Rightarrow> nat" where
  "runeValue r =
     (case map (of_char :: char \<Rightarrow> nat) r of
        [a] \<Rightarrow> if a < 0x80 then a else 0xFFFD
      | [a, b] \<Rightarrow> (a mod 0x20) * 0x40 + b mod 0x40
      | [a, b, c] \<Rightarrow> (a mod 0x10) * 0x1000 + (b mod 0x40) * 0x40 + c mod 0x40
      | [a, b, c, d] \<Rightarrow> (a mod 0x8) * 0x40000 + (b mod 0x40) * 0x1000 + (c mod 0x40) * 0x40 + d mod 0x40
      | _ \<Rightarrow> 0xFFFD)"

text \<open>\<^verbatim>\<open>utf8.ValidString\<close>: no byte stands alone outside ASCII.\<close>

definition validUTF8 :: "string \<Rightarrow> bool" where
  "validUTF8 s = list_all (\<lambda>r. case r of [c] \<Rightarrow> byte c < 128 | _ \<Rightarrow> True) (runes s)"

text \<open>A byte below 128 is never part of a longer rune.\<close>

definition tailBytes :: "string \<Rightarrow> nat \<Rightarrow> bool" where
  "tailBytes s n \<longleftrightarrow> (\<forall>i<n. contByte 0x80 0xBF s (Suc i))"

lemma tailBytes_0 [simp]: "tailBytes s 0"
  by (simp add: tailBytes_def)

lemma tailBytes_Suc: "tailBytes s (Suc n) \<longleftrightarrow> tailBytes s n \<and> contByte 0x80 0xBF s (Suc n)"
  by (auto simp: tailBytes_def less_Suc_eq)

lemma contByte_mono: "contByte lo hi s i \<Longrightarrow> 0x80 \<le> lo \<Longrightarrow> hi \<le> 0xBF \<Longrightarrow> contByte 0x80 0xBF s i"
  by (auto simp: contByte_def)

lemma if_weaken: "(c \<Longrightarrow> Q a) \<Longrightarrow> Q b \<Longrightarrow> Q (if c then a else b)"
  by simp

lemma runeLen_cases:
  fixes c cs
  defines "s \<equiv> c # cs"
  shows "runeLen s = 1 \<or> 0x80 \<le> byte c \<and> tailBytes s (runeLen s - 1)"
  unfolding runeLen_def Let_def s_def list.case
  by (intro if_weaken [where Q = "\<lambda>n. n = 1 \<or> 0x80 \<le> byte c \<and> tailBytes (c # cs) (n - 1)"])
     (auto simp: numeral_eq_Suc tailBytes_Suc dest: contByte_mono [simplified numeral_eq_Suc])

lemma rune_bytes:
  assumes "s \<noteq> []"
  shows "runeLen s = 1 \<or> list_all (\<lambda>c. 128 \<le> byte c) (take (runeLen s) s)"
proof -
  obtain c cs where s: "s = c # cs" using assms by (cases s) auto
  have "128 \<le> byte (s ! i)" if "0x80 \<le> byte c" "tailBytes s (runeLen s - 1)" "i < runeLen s" for i
    using that by (cases i) (auto simp: s tailBytes_def contByte_def)
  then show ?thesis using runeLen_cases [of c cs] by (auto simp: s list_all_length)
qed

lemma runes_Cons: "\<exists>r rs. runes (c # s) = (c # r) # rs"
  using runeLen_pos [of "c # s"] by (subst runes.simps) (cases "runeLen (c # s)", auto)

lemma runes_Cons_ascii: "byte c < 128 \<Longrightarrow> runes (c # s) = [c] # runes s"
  using runeLen_cases [of c s] by (subst runes.simps) auto

lemma ascii_rune: "c \<in> set s \<Longrightarrow> byte c < 128 \<Longrightarrow> [c] \<in> set (runes s)"
proof (induction s rule: runes.induct)
  case (1 s)
  then have ne: "s \<noteq> []" by auto
  show ?case
  proof (cases "c \<in> set (take (runeLen s) s)")
    case True
    then have "runeLen s = 1" using rune_bytes [OF ne] 1(3) by (auto simp: list_all_iff)
    with True ne have "take (runeLen s) s = [c]" by (cases s) auto
    with ne show ?thesis by (subst runes.simps) simp
  next
    case False
    with 1(2) have "c \<in> set (drop (runeLen s) s)" by (metis append_take_drop_id in_set_conv_decomp set_append UnE)
    with 1 ne show ?thesis by (subst runes.simps) simp
  qed
qed

section \<open>Results\<close>

type_synonym ('e, 'a) res = "'e + 'a"

definition bindR :: "('e, 'a) res \<Rightarrow> ('a \<Rightarrow> ('e, 'b) res) \<Rightarrow> ('e, 'b) res" where
  "bindR r f = (case r of Inl e \<Rightarrow> Inl e | Inr x \<Rightarrow> f x)"

definition isOk :: "('e, 'a) res \<Rightarrow> bool" where
  "isOk r = (case r of Inl _ \<Rightarrow> False | Inr _ \<Rightarrow> True)"

lemma bindR_simps [simp]:
  "bindR (Inl e) f = Inl e"
  "bindR (Inr x) f = f x"
  by (simp_all add: bindR_def)

lemma bindR_Inr_iff [simp]:
  "bindR r f = Inr y \<longleftrightarrow> (\<exists>x. r = Inr x \<and> f x = Inr y)"
  by (cases r) auto

lemma bindR_Inl_iff [simp]:
  "bindR r f = Inl e \<longleftrightarrow> r = Inl e \<or> (\<exists>x. r = Inr x \<and> f x = Inl e)"
  by (cases r) auto

lemma isOk_simps [simp]: "\<not> isOk (Inl e)" "isOk (Inr x)"
  by (simp_all add: isOk_def)

lemma isOk_iff: "isOk r \<longleftrightarrow> (\<exists>x. r = Inr x)"
  by (cases r) auto

declare sum.splits [res_splits]

text \<open>
  Correctness of a fallible computation: an error satisfies \<open>B\<close>, a result satisfies \<open>Q\<close>. The
  rules below let a proof follow the early returns of the source.
\<close>

definition ensures :: "('e \<Rightarrow> bool) \<Rightarrow> ('e, 'a) res \<Rightarrow> ('a \<Rightarrow> bool) \<Rightarrow> bool" where
  "ensures B r Q = (case r of Inl e \<Rightarrow> B e | Inr x \<Rightarrow> Q x)"

lemma ensures_simps [simp]:
  "ensures B (Inl e) Q = B e"
  "ensures B (Inr x) Q = Q x"
  by (simp_all add: ensures_def)

lemma ensures_bind:
  "ensures B r P \<Longrightarrow> (\<And>x. r = Inr x \<Longrightarrow> P x \<Longrightarrow> ensures B (f x) Q) \<Longrightarrow> ensures B (bindR r f) Q"
  by (cases r) auto

lemma ensures_if:
  "(c \<Longrightarrow> ensures B r Q) \<Longrightarrow> (\<not> c \<Longrightarrow> ensures B r' Q) \<Longrightarrow> ensures B (if c then r else r') Q"
  by simp

lemma ensures_mono:
  "ensures B r P \<Longrightarrow> (\<And>x. P x \<Longrightarrow> Q x) \<Longrightarrow> ensures B r Q"
  by (cases r) auto

lemma ensures_InrD: "ensures B r Q \<Longrightarrow> r = Inr x \<Longrightarrow> Q x"
  by simp

lemma ensures_InlD: "ensures B r Q \<Longrightarrow> r = Inl e \<Longrightarrow> B e"
  by simp

section \<open>Lemmas on strings\<close>

lemma hasPrefix_iff: "hasPrefix s p \<longleftrightarrow> (\<exists>t. s = p @ t)"
  unfolding hasPrefix_def by (metis append_eq_conv_conj append_take_drop_id)

lemma hasPrefix_append [simp]: "hasPrefix (p @ t) p"
  by (simp add: hasPrefix_def)

lemma cutPrefix_Some_iff [simp]: "cutPrefix s p = Some t \<longleftrightarrow> s = p @ t"
  by (auto simp: cutPrefix_def hasPrefix_iff hasPrefix_def)

lemma cutPrefix_None_iff [simp]: "cutPrefix s p = None \<longleftrightarrow> \<not> hasPrefix s p"
  by (simp add: cutPrefix_def)

lemma splitOn_not_Nil [simp]: "splitOn d s \<noteq> []"
  by (induction s) (auto split: list.splits)

lemma joinWith_Cons_head: "ss \<noteq> [] \<Longrightarrow> joinWith d ((c # s) # ss') = c # joinWith d (s # ss')"
  by (cases ss') auto

lemma joinWith_Cons: "ss \<noteq> [] \<Longrightarrow> joinWith d (s # ss) = s @ d # joinWith d ss"
  by (cases ss) auto

lemma joinWith_splitOn [simp]: "joinWith d (splitOn d s) = s"
proof (induction s)
  case (Cons c s)
  obtain seg segs where "splitOn d s = seg # segs"
    using splitOn_not_Nil by (meson neq_Nil_conv)
  then show ?case using Cons by (cases segs) (auto simp: joinWith_Cons)
qed simp

lemma splitOn_no_sep: "seg \<in> set (splitOn d s) \<Longrightarrow> d \<notin> set seg"
proof (induction s arbitrary: seg)
  case (Cons c s)
  obtain hd tl where "splitOn d s = hd # tl"
    using splitOn_not_Nil by (meson neq_Nil_conv)
  then show ?case using Cons by (auto split: if_splits)
qed simp

lemma splitOn_id: "d \<notin> set s \<Longrightarrow> splitOn d s = [s]"
  by (induction s) auto

lemma splitOn_append: "d \<notin> set s \<Longrightarrow> splitOn d (s @ d # t) = s # splitOn d t"
  by (induction s) auto

lemma splitOn_joinWith:
  "ss \<noteq> [] \<Longrightarrow> \<forall>s\<in>set ss. d \<notin> set s \<Longrightarrow> splitOn d (joinWith d ss) = ss"
  by (induction d ss rule: joinWith.induct) (auto simp: splitOn_id splitOn_append)

lemma splitOn_append_sep: "splitOn d (s @ d # t) = splitOn d s @ splitOn d t"
proof (induction s)
  case (Cons c s)
  obtain seg segs where "splitOn d s = seg # segs"
    using splitOn_not_Nil by (meson neq_Nil_conv)
  then show ?case using Cons by auto
qed simp

lemma joinWith_append:
  "xs \<noteq> [] \<Longrightarrow> ys \<noteq> [] \<Longrightarrow> joinWith d (xs @ ys) = joinWith d xs @ d # joinWith d ys"
  by (induction d xs rule: joinWith.induct) (auto simp: joinWith_Cons)

text \<open>Joining a proper prefix of the segments of \<open>s\<close> gives a prefix of \<open>s\<close> that ends before a separator.\<close>

lemma join_take_splitOn:
  "(\<exists>i<length (splitOn d s). p = joinWith d (take (i + 1) (splitOn d s)))
     \<longleftrightarrow> p = s \<or> hasPrefix s (p @ [d])"
proof
  assume "\<exists>i<length (splitOn d s). p = joinWith d (take (i + 1) (splitOn d s))"
  then obtain i where i: "i < length (splitOn d s)" "p = joinWith d (take (i + 1) (splitOn d s))"
    by blast
  show "p = s \<or> hasPrefix s (p @ [d])"
  proof (cases "i + 1 = length (splitOn d s)")
    case False
    let ?a = "take (i + 1) (splitOn d s)" and ?b = "drop (i + 1) (splitOn d s)"
    have "s = joinWith d (?a @ ?b)" by simp
    also have "\<dots> = p @ d # joinWith d ?b"
      using False i by (subst joinWith_append) auto
    finally show ?thesis by (metis append_Cons append_Nil append_assoc hasPrefix_append)
  qed (use i in simp)
next
  assume "p = s \<or> hasPrefix s (p @ [d])"
  then show "\<exists>i<length (splitOn d s). p = joinWith d (take (i + 1) (splitOn d s))"
  proof
    assume "p = s"
    then show ?thesis
      by (intro exI [of _ "length (splitOn d s) - 1"]) (simp add: Suc_diff_le Suc_leI)
  next
    assume "hasPrefix s (p @ [d])"
    then obtain t where s: "s = p @ d # t" by (auto simp: hasPrefix_iff)
    then show ?thesis
      by (intro exI [of _ "length (splitOn d p) - 1"])
         (simp add: splitOn_append_sep Suc_diff_le Suc_leI trans_less_add1)
  qed
qed

lemma cutAt_Some: "cutAt d s = Some (a, b) \<longleftrightarrow> s = a @ d # b \<and> d \<notin> set a"
proof (induction s arbitrary: a)
  case (Cons c s)
  show ?case
  proof (cases "c = d")
    case True
    then show ?thesis by (cases a) auto
  next
    case False
    then show ?thesis using Cons by (cases a) auto
  qed
qed simp

section \<open>Lemmas on lists\<close>

lemma find_SomeD: "find P xs = Some x \<Longrightarrow> x \<in> set xs \<and> P x"
  by (auto simp: find_Some_iff)

lemma find_NoneD: "find P xs = None \<Longrightarrow> x \<in> set xs \<Longrightarrow> \<not> P x"
  by (auto simp: find_None_iff)

lemma sorted_insort_key_stable: "sorted (map f (sort_key f xs))"
  by simp

lemma sum_list_replicate_le: "(\<And>x. x \<in> set xs \<Longrightarrow> f x \<le> (k::nat)) \<Longrightarrow> sum_list (map f xs) \<le> k * length xs"
  by (induction xs) (auto simp: add_mono)

end
