(* ===== verification/Filter_Lex.thy ===== *)
theory Filter_Lex
  imports Go_Prelude
begin

text \<open>
  The lexer of filter expressions (\<^verbatim>\<open>internal/filter/lex.go\<close>) and the errors of the package
  (\<^verbatim>\<open>filter.go\<close>). An error is the byte position and a message; each message text of the
  source is a constructor that carries the values the text quotes. Loops over the bytes
  from the current position are recursions over the rest of the input; they return the
  position the source leaves in \<^verbatim>\<open>l.pos\<close>. The context of a request is the sequence of answers
  of its successive \<^verbatim>\<open>ctx.Err()\<close> polls. The theory ends with the lexer's own guarantees:
  tokens are made of the source's bytes, every token advances, and quoted text is read
  back as it was written.
\<close>

section \<open>Errors\<close>

text \<open>Messages of the lexer, of \<^verbatim>\<open>Parse\<close>, of the operator half of the parser and of the value half.\<close>

datatype lex_msg =
    CommentsNotAccepted
  | QuotedNeverClosed
  | BacktickName
  | BracketName
  | NumberedParameter
  | NamedParameter
  | BlobOddDigits
  | BlobBadDigit char
  | NotAnOperator char
  | HexNoDigits
  | ExponentNoDigits

datatype top_msg =
    TooLong nat
  | EmptyExpression
  | SecondStatement
  | LeftOver string
  | PlaceholderCount nat nat
  | NotSingleValue
  | UnknownColumn string "string list"

datatype op_msg =
    Expected string string
  | NestsTooDeep
  | BitOperator string
  | JSONOperator string
  | NamesTable
  | RejectedKeyword string
  | IsDistinctFrom
  | NotNullAfterValue
  | NotCannotNegate string
  | EscapeNotOneChar string
  | EscapeArgNotOneChar
  | EscapeNotLiteral string
  | BetweenNeedsAnd string
  | InNeedsList string
  | ReadsRows

datatype val_msg =
    InOnlyLiterals string
  | SignNotNumber
  | TildeOperator
  | CannotStartValue string
  | NotAllowedFunction string "string list"
  | CountsRows string
  | TakesNoDistinct string
  | TimeArgBuilds string
  | ArgsNeverClosed string
  | WrongArgCount string nat
  | TakesNoClause string string
  | SignOnlyNumber
  | TimeArgCall string
  | TimeArgComputed
  | ClockWord string
  | CaseNeedsWhen string
  | WhenNeedsThen string
  | CaseNeedsEnd string

datatype filter_msg = LexMsg lex_msg | TopMsg top_msg | OpMsg op_msg | ValMsg val_msg

text \<open>
  \<open>CtxErr\<close> is the error of a cancelled or expired request context. \<open>OutOfFuel\<close> is not an
  error of the program: it marks a run of the model that was given too little fuel, and
  the parser theory proves it never happens.
\<close>

datatype filter_error = CtxErr string | FErr nat filter_msg | OutOfFuel

section \<open>Tokens\<close>

datatype token_kind =
  TokEOF | TokIdent | TokQuotedIdent | TokString | TokNumber | TokBlob | TokParam | TokOp

record token =
  tkind :: token_kind
  ttext :: string
  tpos :: nat

definition tok_is :: "token \<Rightarrow> string \<Rightarrow> bool" where
  "tok_is t op \<longleftrightarrow> tkind t = TokOp \<and> ttext t = op"

definition keyword :: "token \<Rightarrow> string \<Rightarrow> bool" where
  "keyword t word \<longleftrightarrow> tkind t = TokIdent \<and> equalFold (ttext t) word"

text \<open>\<^verbatim>\<open>describe\<close>: the quoted text of an operator, name or parameter is kept as the text itself.\<close>

definition describe :: "token \<Rightarrow> string" where
  "describe t =
     (case tkind t of
        TokEOF \<Rightarrow> ''the end of the expression''
      | TokString \<Rightarrow> ''a text literal''
      | TokNumber \<Rightarrow> ''a number''
      | TokBlob \<Rightarrow> ''a blob literal''
      | _ \<Rightarrow> ttext t)"

record lexer =
  l_src :: string
  l_pos :: nat
  l_ctx :: "nat \<Rightarrow> string option"
  l_polls :: nat

section \<open>Scanning\<close>

definition isHex :: "char \<Rightarrow> bool" where
  "isHex c \<longleftrightarrow> isDigit c \<or> (97 \<le> byte c \<and> byte c \<le> 102) \<or> (65 \<le> byte c \<and> byte c \<le> 70)"

definition isIdentStart :: "char \<Rightarrow> bool" where
  "isIdentStart c \<longleftrightarrow> c = CHR ''_'' \<or> isLower c \<or> isUpper c \<or> 128 \<le> byte c"

definition isIdentPart :: "char \<Rightarrow> bool" where
  "isIdentPart c \<longleftrightarrow> isIdentStart c \<or> isDigit c"

text \<open>Whether the next byte of the rest is \<open>d\<close>: the guarded look-ahead \<^verbatim>\<open>l.src[l.pos+1] == d\<close>.\<close>

definition startsWith :: "char \<Rightarrow> string \<Rightarrow> bool" where
  "startsWith d rest \<longleftrightarrow> (case rest of [] \<Rightarrow> False | c # _ \<Rightarrow> c = d)"

definition lexSpace :: "char \<Rightarrow> bool" where
  "lexSpace c \<longleftrightarrow> c = CHR '' '' \<or> byte c = 9 \<or> byte c = 10 \<or> byte c = 13 \<or> byte c = 12 \<or> byte c = 11"

fun skipSpace :: "string \<Rightarrow> nat \<Rightarrow> filter_error + nat" where
  "skipSpace [] pos = Inr pos"
| "skipSpace (c # cs) pos =
     (if lexSpace c then skipSpace cs (Suc pos)
      else if c = CHR ''-'' \<and> startsWith (CHR ''-'') cs then Inl (FErr pos (LexMsg CommentsNotAccepted))
      else if c = CHR ''/'' \<and> startsWith (CHR ''*'') cs then Inl (FErr pos (LexMsg CommentsNotAccepted))
      else Inr pos)"

text \<open>\<^verbatim>\<open>quoted\<close> after its opening delimiter: the text and the position after the closing one.\<close>

fun quoted :: "char \<Rightarrow> nat \<Rightarrow> string \<Rightarrow> nat \<Rightarrow> filter_error + string \<times> nat" where
  "quoted d start [] pos = Inl (FErr start (LexMsg QuotedNeverClosed))"
| "quoted d start [c] pos = (if c = d then Inr ([], Suc pos) else Inl (FErr start (LexMsg QuotedNeverClosed)))"
| "quoted d start (c # c2 # cs) pos =
     (if c = d then
        (if c2 = d then bindR (quoted d start cs (pos + 2)) (\<lambda>(t, p). Inr (d # t, p))
         else Inr ([], Suc pos))
      else bindR (quoted d start (c2 # cs) (Suc pos)) (\<lambda>(t, p). Inr (c # t, p)))"

text \<open>The optional sign of an exponent.\<close>

definition expSign :: "string \<Rightarrow> nat" where
  "expSign cs = (if startsWith (CHR ''+'') cs \<or> startsWith (CHR ''-'') cs then 1 else 0)"

function numberLoop :: "nat \<Rightarrow> bool \<Rightarrow> bool \<Rightarrow> string \<Rightarrow> nat \<Rightarrow> filter_error + nat" where
  "numberLoop start seenDot seenExp [] pos = Inr pos"
| "numberLoop start seenDot seenExp (c # cs) pos =
     (if isDigit c then numberLoop start seenDot seenExp cs (Suc pos)
      else if c = CHR ''.'' \<and> \<not> seenDot \<and> \<not> seenExp then numberLoop start True seenExp cs (Suc pos)
      else if (c = CHR ''e'' \<or> c = CHR ''E'') \<and> \<not> seenExp \<and> start < pos then
        (let sg = expSign cs; rest = drop sg cs in
         if rest = [] \<or> \<not> isDigit (hd rest) then Inl (FErr start (LexMsg ExponentNoDigits))
         else numberLoop start seenDot True rest (Suc pos + sg))
      else Inr pos)"
  by pat_completeness auto
termination
  by (relation "measure (\<lambda>(start, d, e, cs, pos). length cs)") (auto simp: le_imp_less_Suc)

definition number :: "string \<Rightarrow> nat \<Rightarrow> filter_error + nat" where
  "number rest start =
     (case rest of
        c # x # cs \<Rightarrow>
          if c = CHR ''0'' \<and> (x = CHR ''x'' \<or> x = CHR ''X'') then
            (let n = length (takeWhile isHex cs) in
             if n = 0 then Inl (FErr start (LexMsg HexNoDigits)) else Inr (start + 2 + n))
          else numberLoop start False False rest start
      | _ \<Rightarrow> numberLoop start False False rest start)"

definition operators :: "string list" where
  "operators =
     [''<<'', ''>>'', ''<='', ''>='', ''=='', ''!='', ''<>'', ''||'', ''->>'', ''->'',
      ''('', '')'', '','', ''+'', ''-'', ''*'', ''/'', ''%'', ''<'', ''>'', ''='', ''~'', ''&'', ''|'',
      ''.'', '';'']"

text \<open>The text from \<open>start\<close> up to \<open>p\<close>: \<^verbatim>\<open>l.src[start:l.pos]\<close>.\<close>

definition slice :: "string \<Rightarrow> nat \<Rightarrow> nat \<Rightarrow> string" where
  "slice s a b = take (b - a) (drop a s)"

definition mkTok :: "token_kind \<Rightarrow> string \<Rightarrow> nat \<Rightarrow> token" where
  "mkTok k t p = \<lparr>tkind = k, ttext = t, tpos = p\<rparr>"

text \<open>
  The branches of \<^verbatim>\<open>next\<close> that scan: each gets the bytes from \<open>start\<close> on and answers the token
  and the new position.
\<close>

definition lexQuoted :: "token_kind \<Rightarrow> char \<Rightarrow> string \<Rightarrow> nat \<Rightarrow> filter_error + token \<times> nat" where
  "lexQuoted k c cs start = bindR (quoted c start cs (Suc start)) (\<lambda>(t, p). Inr (mkTok k t start, p))"

definition lexNumber :: "string \<Rightarrow> char \<Rightarrow> string \<Rightarrow> nat \<Rightarrow> filter_error + token \<times> nat" where
  "lexNumber src c cs start =
     bindR (number (c # cs) start) (\<lambda>p. Inr (mkTok TokNumber (slice src start p) start, p))"

definition lexBlob :: "string \<Rightarrow> nat \<Rightarrow> filter_error + token \<times> nat" where
  "lexBlob cs start =
     bindR (quoted (hd cs) (Suc start) (tl cs) (start + 2)) (\<lambda>(t, p).
       if odd (length t) then Inl (FErr start (LexMsg BlobOddDigits))
       else (case find (\<lambda>d. \<not> isHex d) t of
               Some d \<Rightarrow> Inl (FErr start (LexMsg (BlobBadDigit d)))
             | None \<Rightarrow> Inr (mkTok TokBlob t start, p)))"

definition lexIdent :: "string \<Rightarrow> char \<Rightarrow> string \<Rightarrow> nat \<Rightarrow> filter_error + token \<times> nat" where
  "lexIdent src c cs start =
     (let p = start + length (takeWhile isIdentPart (c # cs))
      in Inr (mkTok TokIdent (slice src start p) start, p))"

definition lexOp :: "char \<Rightarrow> string \<Rightarrow> nat \<Rightarrow> filter_error + token \<times> nat" where
  "lexOp c cs start =
     (case find (hasPrefix (c # cs)) operators of
        Some op \<Rightarrow> Inr (mkTok TokOp op start, start + length op)
      | None \<Rightarrow> Inl (FErr start (LexMsg (NotAnOperator c))))"

text \<open>The body of \<^verbatim>\<open>next\<close> once white space is skipped; \<open>start\<close> is \<^verbatim>\<open>l.pos\<close>.\<close>

definition scanToken :: "string \<Rightarrow> nat \<Rightarrow> filter_error + token \<times> nat" where
  "scanToken src start =
     (case drop start src of
        [] \<Rightarrow> Inr (mkTok TokEOF [] start, start)
      | c # cs \<Rightarrow>
          if byte c = 39 then lexQuoted TokString c cs start
          else if byte c = 34 then lexQuoted TokQuotedIdent c cs start
          else if byte c = 96 then Inl (FErr start (LexMsg BacktickName))
          else if c = CHR ''['' then Inl (FErr start (LexMsg BracketName))
          else if c = CHR ''?'' then
            (if cs \<noteq> [] \<and> isDigit (hd cs) then Inl (FErr start (LexMsg NumberedParameter))
             else Inr (mkTok TokParam ''?'' start, Suc start))
          else if c = CHR '':'' \<or> c = CHR ''@'' \<or> c = CHR ''$'' then Inl (FErr start (LexMsg NamedParameter))
          else if isDigit c \<or> (c = CHR ''.'' \<and> cs \<noteq> [] \<and> isDigit (hd cs)) then lexNumber src c cs start
          else if (c = CHR ''x'' \<or> c = CHR ''X'') \<and> cs \<noteq> [] \<and> byte (hd cs) = 39 then lexBlob cs start
          else if isIdentStart c then lexIdent src c cs start
          else lexOp c cs start)"

definition nextTok :: "lexer \<Rightarrow> filter_error + token \<times> lexer" where
  "nextTok l =
     (case l_ctx l (l_polls l) of
        Some e \<Rightarrow> Inl (CtxErr e)
      | None \<Rightarrow>
          bindR (skipSpace (drop (l_pos l) (l_src l)) (l_pos l)) (\<lambda>start.
          bindR (scanToken (l_src l) start) (\<lambda>(t, p).
            Inr (t, l\<lparr>l_pos := p, l_polls := Suc (l_polls l)\<rparr>))))"

section \<open>Progress\<close>

lemma skipSpace_bounds: "skipSpace rest pos = Inr p \<Longrightarrow> pos \<le> p \<and> p \<le> pos + length rest"
  by (induction rest pos rule: skipSpace.induct) (auto split: if_splits)

lemma skipSpace_no_fuel [simp]: "skipSpace rest pos \<noteq> Inl OutOfFuel"
  by (induction rest pos rule: skipSpace.induct) auto

lemma quoted_bounds: "quoted d start rest pos = Inr (t, p) \<Longrightarrow> pos < p \<and> p \<le> pos + length rest"
  by (induction d start rest pos arbitrary: t p rule: quoted.induct) (fastforce split: if_splits)+

lemma quoted_no_fuel [simp]: "quoted d start rest pos \<noteq> Inl OutOfFuel"
  by (induction d start rest pos rule: quoted.induct) auto

lemma numberLoop_bounds: "numberLoop start d e rest pos = Inr p \<Longrightarrow> pos \<le> p \<and> p \<le> pos + length rest"
proof (induction start d e rest pos arbitrary: p rule: numberLoop.induct)
  case (2 start d e c cs pos)
  have "expSign cs \<le> length cs" by (auto simp: expSign_def startsWith_def split: list.splits)
  with 2 show ?case by (fastforce simp: Let_def split: if_splits)
qed simp

lemma numberLoop_no_fuel [simp]: "numberLoop start d e rest pos \<noteq> Inl OutOfFuel"
  by (induction start d e rest pos rule: numberLoop.induct) (auto simp: Let_def)

lemma numberLoop_digit:
  "isDigit c \<Longrightarrow> numberLoop start d e (c # cs) pos = Inr p \<Longrightarrow> pos < p"
  using numberLoop_bounds by fastforce

lemma number_bounds:
  assumes "number (c # cs) start = Inr p" "isDigit c \<or> (c = CHR ''.'' \<and> cs \<noteq> [] \<and> isDigit (hd cs))"
  shows "start < p \<and> p \<le> start + Suc (length cs)"
proof -
  have loop: "start < p \<and> p \<le> start + Suc (length cs)"
    if "numberLoop start False False (c # cs) start = Inr p"
  proof (cases "isDigit c")
    case True
    with that numberLoop_digit numberLoop_bounds show ?thesis by fastforce
  next
    case False
    with assms(2) that have "numberLoop start True False cs (Suc start) = Inr p" by simp
    then show ?thesis using numberLoop_bounds by fastforce
  qed
  show ?thesis
  proof (cases cs)
    case (Cons x cs')
    show ?thesis
    proof (cases "c = CHR ''0'' \<and> (x = CHR ''x'' \<or> x = CHR ''X'')")
      case True
      with assms(1) Cons length_takeWhile_le [of isHex cs'] show ?thesis
        by (auto simp: number_def Let_def split: if_splits)
    next
      case False
      with assms(1) Cons have "numberLoop start False False (c # cs) start = Inr p"
        by (auto simp: number_def simp del: numberLoop.simps)
      then show ?thesis by (rule loop)
    qed
  next
    case Nil
    with assms(1) have "numberLoop start False False (c # cs) start = Inr p"
      by (simp add: number_def del: numberLoop.simps)
    then show ?thesis by (rule loop)
  qed
qed

lemma number_no_fuel [simp]: "number rest start \<noteq> Inl OutOfFuel"
  by (auto simp: number_def Let_def split: list.splits)

lemma operators_nonempty: "op \<in> set operators \<Longrightarrow> op \<noteq> []"
  by (auto simp: operators_def)

lemma lex_no_fuel [simp]:
  "lexQuoted k c cs start \<noteq> Inl OutOfFuel" "lexNumber src c cs start \<noteq> Inl OutOfFuel"
  "lexBlob cs start \<noteq> Inl OutOfFuel" "lexIdent src c cs start \<noteq> Inl OutOfFuel"
  "lexOp c cs start \<noteq> Inl OutOfFuel"
  by (auto simp: lexQuoted_def lexNumber_def lexBlob_def lexIdent_def lexOp_def Let_def
        split: option.splits if_splits)

lemma scanToken_no_fuel [simp]: "scanToken src start \<noteq> Inl OutOfFuel"
  by (simp add: scanToken_def split: list.splits)

lemma nextTok_no_fuel [simp]: "nextTok l \<noteq> Inl OutOfFuel"
  by (auto simp: nextTok_def split: option.splits)

text \<open>What a scanned token other than the end guarantees, with \<open>n\<close> bytes left.\<close>

definition scanned :: "nat \<Rightarrow> nat \<Rightarrow> token \<Rightarrow> nat \<Rightarrow> bool" where
  "scanned start n t p \<longleftrightarrow> tpos t = start \<and> tkind t \<noteq> TokEOF \<and> start < p \<and> p \<le> start + n"

lemma lexQuoted_scanned:
  "lexQuoted k c cs start = Inr (t, p) \<Longrightarrow> k \<noteq> TokEOF \<Longrightarrow> scanned start (Suc (length cs)) t p"
  using quoted_bounds by (fastforce simp: lexQuoted_def scanned_def mkTok_def)

lemma lexNumber_scanned:
  "lexNumber src c cs start = Inr (t, p) \<Longrightarrow> isDigit c \<or> (c = CHR ''.'' \<and> cs \<noteq> [] \<and> isDigit (hd cs))
     \<Longrightarrow> scanned start (Suc (length cs)) t p"
  using number_bounds [of c cs start] by (auto simp: lexNumber_def scanned_def mkTok_def)

lemma lexBlob_scanned:
  assumes "lexBlob cs start = Inr (t, p)" "cs \<noteq> []"
  shows "scanned start (Suc (length cs)) t p"
proof -
  from assms(1) obtain x where "quoted (hd cs) (Suc start) (tl cs) (start + 2) = Inr (x, p)"
    and "t = mkTok TokBlob x start"
    by (auto simp: lexBlob_def split: if_splits option.splits)
  with quoted_bounds [OF this(1)] assms(2) show ?thesis
    by (cases cs) (auto simp: scanned_def mkTok_def)
qed

lemma lexIdent_scanned:
  "lexIdent src c cs start = Inr (t, p) \<Longrightarrow> isIdentStart c \<Longrightarrow> scanned start (Suc (length cs)) t p"
  using length_takeWhile_le [of isIdentPart cs]
  by (auto simp: lexIdent_def Let_def scanned_def mkTok_def isIdentPart_def)

lemma lexParam_scanned:
  "Inr (mkTok TokParam x start, Suc start) = (Inr (t, p) :: filter_error + token \<times> nat)
     \<Longrightarrow> scanned start (Suc n) t p"
  by (auto simp: scanned_def mkTok_def)

lemma lexOp_scanned:
  assumes "lexOp c cs start = Inr (t, p)"
  shows "scanned start (Suc (length cs)) t p"
proof -
  from assms obtain op where f: "find (hasPrefix (c # cs)) operators = Some op"
    and t: "t = mkTok TokOp op start" "p = start + length op"
    by (auto simp: lexOp_def split: option.splits)
  have "op \<noteq> []" "hasPrefix (c # cs) op"
    using find_SomeD [OF f] operators_nonempty by auto
  moreover from this have "length op \<le> Suc (length cs)"
    by (metis hasPrefix_iff length_Cons length_append le_add1)
  ultimately show ?thesis using t by (simp add: scanned_def mkTok_def)
qed

text \<open>
  Every token starts where scanning began; the end of the input is the only token that
  consumes nothing.
\<close>

lemma scanToken_progress:
  assumes "scanToken src start = Inr (t, p)" "start \<le> length src"
  shows "tpos t = start \<and> p \<le> length src \<and>
     (if tkind t = TokEOF then start = length src \<and> p = start else start < p)"
proof (cases "drop start src")
  case Nil
  with assms show ?thesis by (auto simp: scanToken_def mkTok_def)
next
  case (Cons c cs)
  then have len: "length src = start + Suc (length cs)"
    using assms(2) by (metis length_Cons length_drop le_add_diff_inverse)
  have "scanned start (Suc (length cs)) t p"
    using assms(1) unfolding scanToken_def Cons list.case
    by (simp only: sum.distinct split: if_split_asm)
       (blast intro: lexQuoted_scanned lexBlob_scanned lexOp_scanned lexIdent_scanned lexNumber_scanned
         lexParam_scanned)+
  with len show ?thesis by (auto simp: scanned_def)
qed

definition lexer_ok :: "lexer \<Rightarrow> bool" where
  "lexer_ok l \<longleftrightarrow> l_pos l \<le> length (l_src l)"

lemma nextTok_progress:
  assumes "nextTok l = Inr (t, l')" "lexer_ok l"
  shows "lexer_ok l' \<and> l_src l' = l_src l \<and> l_ctx l' = l_ctx l \<and> l_pos l \<le> tpos t
    \<and> tpos t \<le> length (l_src l)
    \<and> (if tkind t = TokEOF then tpos t = length (l_src l) \<and> l_pos l' = tpos t else tpos t < l_pos l')"
proof -
  from assms(1) obtain start p where
    s: "skipSpace (drop (l_pos l) (l_src l)) (l_pos l) = Inr start" and
    t: "scanToken (l_src l) start = Inr (t, p)" and
    l': "l' = l\<lparr>l_pos := p, l_polls := Suc (l_polls l)\<rparr>"
    by (auto simp: nextTok_def split: option.splits)
  have "l_pos l \<le> start" "start \<le> length (l_src l)"
    using skipSpace_bounds [OF s] assms(2) by (auto simp: lexer_ok_def)
  with scanToken_progress [OF t] l' show ?thesis
    by (auto simp: lexer_ok_def split: if_splits)
qed

text \<open>Where the lexer's errors point: into the text, and never at the parser's own faults.\<close>

definition lexErr :: "nat \<Rightarrow> filter_error \<Rightarrow> bool" where
  "lexErr n e = (case e of FErr pos (LexMsg m) \<Rightarrow> pos \<le> n | CtxErr _ \<Rightarrow> True | _ \<Rightarrow> False)"

lemma lexFErr [simp]: "lexErr n (FErr pos (LexMsg m)) \<longleftrightarrow> pos \<le> n"
  by (simp add: lexErr_def)

lemma skipSpace_err: "skipSpace rest pos = Inl e \<Longrightarrow> lexErr (pos + length rest) e"
  by (induction rest pos rule: skipSpace.induct) (auto simp: lexErr_def split: if_splits)

lemma quoted_err: "quoted d start rest pos = Inl e \<Longrightarrow> start \<le> n \<Longrightarrow> lexErr n e"
  by (induction d start rest pos rule: quoted.induct) (auto simp: lexErr_def split: if_splits)

lemma numberLoop_err: "numberLoop start d x rest pos = Inl e \<Longrightarrow> start \<le> n \<Longrightarrow> lexErr n e"
  by (induction start d x rest pos rule: numberLoop.induct)
     (auto simp: lexErr_def Let_def split: if_splits)

lemma number_err: "number rest start = Inl e \<Longrightarrow> start \<le> n \<Longrightarrow> lexErr n e"
  by (auto simp: number_def Let_def simp del: numberLoop.simps dest: numberLoop_err split: list.splits if_splits)

lemma lexBlob_err: "lexBlob cs start = Inl e \<Longrightarrow> Suc start \<le> n \<Longrightarrow> lexErr n e"
  by (auto simp: lexBlob_def dest: quoted_err split: if_splits option.splits)

lemma lexOp_err: "lexOp c cs start = Inl e \<Longrightarrow> start \<le> n \<Longrightarrow> lexErr n e"
  by (auto simp: lexOp_def split: option.splits)

lemma lexQuoted_err: "lexQuoted k c cs start = Inl e \<Longrightarrow> start \<le> n \<Longrightarrow> lexErr n e"
  by (auto simp: lexQuoted_def dest: quoted_err)

lemma lexNumber_err: "lexNumber src c cs start = Inl e \<Longrightarrow> start \<le> n \<Longrightarrow> lexErr n e"
  by (auto simp: lexNumber_def dest: number_err)

lemma lexIdent_err: "lexIdent src c cs start \<noteq> Inl e"
  by (simp add: lexIdent_def Let_def)

lemma scanToken_err:
  assumes "scanToken src start = Inl e" "start \<le> length src"
  shows "lexErr (length src) e"
proof (cases "drop start src")
  case Nil
  with assms show ?thesis by (simp add: scanToken_def)
next
  case (Cons c cs)
  then have len: "Suc start \<le> length src"
    using assms(2) by (metis drop_eq_Nil2 list.distinct(1) not_less_eq_eq)
  note errs = lexQuoted_err [OF _ assms(2)] lexNumber_err [OF _ assms(2)] lexOp_err [OF _ assms(2)]
    lexBlob_err [OF _ len]
  show ?thesis
    using assms(1) len unfolding scanToken_def Cons list.case
    by (simp only: sum.distinct sum.inject lexIdent_err split: if_split_asm)
       (erule errs | erule subst | simp)+
qed

lemma nextTok_err:
  assumes "nextTok l = Inl e" "lexer_ok l"
  shows "lexErr (length (l_src l)) e"
proof -
  have "lexErr (length (l_src l)) e"
    if "skipSpace (drop (l_pos l) (l_src l)) (l_pos l) = Inl e"
    using skipSpace_err [OF that] assms(2) by (simp add: lexer_ok_def)
  moreover have "start \<le> length (l_src l)"
    if "skipSpace (drop (l_pos l) (l_src l)) (l_pos l) = Inr start" for start
    using skipSpace_bounds [OF that] assms(2) by (simp add: lexer_ok_def)
  ultimately show ?thesis
    using assms(1) by (auto simp: nextTok_def lexErr_def [of _ "CtxErr _"] dest: scanToken_err split: option.splits)
qed

section \<open>Quoted text\<close>

text \<open>How a text literal is written: delimiters around it, each delimiter inside doubled.\<close>

fun quoteBody :: "char \<Rightarrow> string \<Rightarrow> string" where
  "quoteBody d [] = [d]"
| "quoteBody d (c # s) = (if c = d then d # d # quoteBody d s else c # quoteBody d s)"

definition quoteText :: "char \<Rightarrow> string \<Rightarrow> string" where
  "quoteText d s = d # quoteBody d s"

lemma quoteBody_not_Nil [simp]: "quoteBody d s \<noteq> []"
  by (cases s) auto

lemma quoted_Cons_other:
  "c \<noteq> d \<Longrightarrow> rest \<noteq> [] \<Longrightarrow>
     quoted d start (c # rest) pos = bindR (quoted d start rest (Suc pos)) (\<lambda>(t, p). Inr (c # t, p))"
  by (cases rest) auto

lemma quoted_quoteBody:
  "\<not> startsWith d rest \<Longrightarrow>
     quoted d start (quoteBody d s @ rest) pos = Inr (s, pos + length (quoteBody d s))"
proof (induction s arbitrary: pos)
  case Nil
  then show ?case by (cases rest) (auto simp: startsWith_def)
next
  case (Cons c s)
  then show ?case by (cases "c = d") (auto simp: quoted_Cons_other)
qed

text \<open>
  Text literals round-trip: lexing a quoted text (single quotes, inner quotes doubled)
  followed by anything but another quote gives one text token with the original text and
  stops right behind it. So no text can break out of its quotes.
\<close>

theorem lex_quoted_text:
  assumes "byte d = 39" "\<not> startsWith d rest"
  shows "scanToken (pre @ quoteText d s @ rest) (length pre)
    = Inr (mkTok TokString s (length pre), length pre + length (quoteText d s))"
  using quoted_quoteBody [OF assms(2), of "length pre" s "Suc (length pre)"] assms(1)
  by (simp add: scanToken_def lexQuoted_def quoteText_def)

theorem lex_quoted_text_witness:
  "scanToken (''a = '' @ quoteText (CHR 0x27) ''it'' @ '' or'') 4
    = Inr (mkTok TokString ''it'' 4, 8)"
  using lex_quoted_text [of "CHR 0x27" "'' or''" "''a = ''" "''it''"]
  by (simp add: startsWith_def quoteText_def numeral_eq_Suc)

end
