(* ===== verification/Filter_Parse.thy ===== *)
theory Filter_Parse
  imports Filter_Lex
begin

text \<open>
  The parser of filter expressions (\<^verbatim>\<open>internal/filter/parse.go\<close>, \<^verbatim>\<open>ast.go\<close>, \<^verbatim>\<open>filter.go\<close>): the
  tree, the parser's state and one definition per method. A method that parses a
  sub-expression takes the parser for it, \<open>E\<close>, as an argument, and \<open>expression\<close> ties the knot
  with a fuel argument; the loops of the source count down a fuel of their own, large
  enough for every input. \<open>Filter_Sound\<close> proves that neither runs out. The stack of the
  source grows at its end, as the slice does.
\<close>

section \<open>The tree\<close>

datatype lit_kind =
  LiteralString | LiteralNumber | LiteralBlob | LiteralNull | LiteralTrue | LiteralFalse

datatype node =
    Literal lit_kind string
  | Param nat
  | Column string
  | Call string "node list"
  | Binary string node node
  | Unary string node
  | Paren node
  | Is bool node node
  | In bool node "node list"
  | Like bool node node "node option"
  | Between bool node node node
  | Case "node option" "(node \<times> node) list" "node option"

section \<open>Tables\<close>

definition allowedFunctions :: "(string \<times> nat \<times> nat option) list" where
  "allowedFunctions =
     [(''abs'', 1, Some 1), (''round'', 1, Some 2), (''length'', 1, Some 1), (''lower'', 1, Some 1),
      (''upper'', 1, Some 1), (''substr'', 2, Some 3), (''trim'', 1, Some 2), (''ltrim'', 1, Some 2),
      (''rtrim'', 1, Some 2), (''replace'', 3, Some 3), (''instr'', 2, Some 2), (''coalesce'', 2, None),
      (''ifnull'', 2, Some 2), (''nullif'', 2, Some 2), (''iif'', 3, Some 3), (''date'', 1, None),
      (''time'', 1, None), (''datetime'', 1, None), (''julianday'', 1, None), (''strftime'', 2, None)]"

definition timeFunctions :: "string list" where
  "timeFunctions = [''date'', ''time'', ''datetime'', ''julianday'', ''strftime'']"

definition rejectedTimeWords :: "string list" where
  "rejectedTimeWords = [''now'', ''localtime'', ''utc'']"

definition rejectedKeywords :: "string list" where
  "rejectedKeywords =
     [''select'', ''from'', ''join'', ''exists'', ''union'', ''with'', ''values'', ''cast'', ''raise'',
      ''collate'', ''glob'', ''regexp'', ''match'', ''isnull'', ''notnull'', ''current_timestamp'',
      ''current_date'', ''current_time'']"

definition infixWords :: "string list" where
  "infixWords =
     [''and'', ''or'', ''is'', ''in'', ''like'', ''between'', ''then'', ''else'', ''end'', ''when'',
      ''escape'', ''distinct'']"

definition MaxNestingDepth :: nat where "MaxNestingDepth = 1000"
definition MaxFilterLength :: nat where "MaxFilterLength = 65536"

definition precedenceLowest :: nat where "precedenceLowest = 0"
definition precedenceOr :: nat where "precedenceOr = 1"
definition precedenceAnd :: nat where "precedenceAnd = 2"
definition precedenceNot :: nat where "precedenceNot = 3"
definition precedenceEquality :: nat where "precedenceEquality = 4"
definition precedenceRelational :: nat where "precedenceRelational = 5"
definition precedenceAdditive :: nat where "precedenceAdditive = 6"
definition precedenceMultiplicative :: nat where "precedenceMultiplicative = 7"
definition precedenceConcat :: nat where "precedenceConcat = 8"
definition precedenceUnary :: nat where "precedenceUnary = 9"

lemmas precedence_defs = precedenceLowest_def precedenceOr_def precedenceAnd_def precedenceNot_def
  precedenceEquality_def precedenceRelational_def precedenceAdditive_def
  precedenceMultiplicative_def precedenceConcat_def precedenceUnary_def

text \<open>\<^verbatim>\<open>sortStrings\<close>: insertion sort by swaps; the sorted part is kept reversed.\<close>

fun sinkDown :: "string \<Rightarrow> string list \<Rightarrow> string list" where
  "sinkDown x [] = [x]"
| "sinkDown x (y # ys) = (if x < y then y # sinkDown x ys else x # y # ys)"

definition sortStrings :: "string list \<Rightarrow> string list" where
  "sortStrings xs = rev (foldl (\<lambda>acc x. sinkDown x acc) [] xs)"

definition functionList :: "string list" where
  "functionList = sortStrings (map fst allowedFunctions)"

section \<open>The parser's state\<close>

text \<open>An argument bound to a placeholder: only whether it is text, and which, matters here.\<close>

datatype arg = ArgString string | ArgOther

record pstate =
  lex :: lexer
  tok :: token
  columns :: "string list"
  args :: "arg list"
  params :: nat
  timeDepth :: nat
  depth :: nat
  stack :: "node list"
  ulower :: "string \<Rightarrow> string"
  utrim :: "string \<Rightarrow> string"

type_synonym presult = "filter_error + pstate"

definition fail_at :: "nat \<Rightarrow> filter_msg \<Rightarrow> presult" where
  "fail_at pos m = Inl (FErr pos m)"

definition advance :: "pstate \<Rightarrow> presult" where
  "advance p = bindR (nextTok (lex p)) (\<lambda>(t, l). Inr (p\<lparr>lex := l, tok := t\<rparr>))"

definition at_op :: "pstate \<Rightarrow> string \<Rightarrow> bool" where
  "at_op p op = tok_is (tok p) op"

definition at_kw :: "pstate \<Rightarrow> string \<Rightarrow> bool" where
  "at_kw p word = keyword (tok p) word"

definition word_of :: "pstate \<Rightarrow> string" where
  "word_of p = toLower (ulower p) (ttext (tok p))"

definition expect :: "string \<Rightarrow> string \<Rightarrow> pstate \<Rightarrow> presult" where
  "expect op what p =
     (if \<not> at_op p op then fail_at (tpos (tok p)) (OpMsg (Expected what (describe (tok p)))) else advance p)"

definition push :: "node \<Rightarrow> pstate \<Rightarrow> pstate" where
  "push n p = p\<lparr>stack := stack p @ [n]\<rparr>"

definition takeN :: "nat \<Rightarrow> pstate \<Rightarrow> node list \<times> pstate" where
  "takeN n p =
     (if n = 0 \<or> length (stack p) < n then ([], p)
      else (drop (length (stack p) - n) (stack p), p\<lparr>stack := take (length (stack p) - n) (stack p)\<rparr>))"

definition takeFrom :: "nat \<Rightarrow> pstate \<Rightarrow> node list \<times> pstate" where
  "takeFrom mark p =
     (if length (stack p) < mark then ([], p)
      else (drop mark (stack p), p\<lparr>stack := take mark (stack p)\<rparr>))"

definition pop :: "pstate \<Rightarrow> node option \<times> pstate" where
  "pop p = (case takeN 1 p of ([n], q) \<Rightarrow> (Some n, q) | (_, q) \<Rightarrow> (None, q))"

text \<open>The three ways the source folds the top of the stack into a node, guards included.\<close>

definition fold1 :: "(node \<Rightarrow> node) \<Rightarrow> pstate \<Rightarrow> pstate" where
  "fold1 f p = (case pop p of (Some n, q) \<Rightarrow> push (f n) q | (None, q) \<Rightarrow> q)"

definition fold2 :: "(node \<Rightarrow> node \<Rightarrow> node) \<Rightarrow> pstate \<Rightarrow> pstate" where
  "fold2 f p = (case takeN 2 p of ([a, b], q) \<Rightarrow> push (f a b) q | (_, q) \<Rightarrow> q)"

definition fold3 :: "(node \<Rightarrow> node \<Rightarrow> node \<Rightarrow> node) \<Rightarrow> pstate \<Rightarrow> pstate" where
  "fold3 f p = (case takeN 3 p of ([a, b, c], q) \<Rightarrow> push (f a b c) q | (_, q) \<Rightarrow> q)"

section \<open>Literals and columns\<close>

definition rejectClockWord :: "pstate \<Rightarrow> string \<Rightarrow> nat \<Rightarrow> filter_error + unit" where
  "rejectClockWord p text pos =
     (let word = toLower (ulower p) (trimSpace (utrim p) text) in
      if word \<in> set rejectedTimeWords then Inl (FErr pos (ValMsg (ClockWord word))) else Inr ())"

definition literalKindOf :: "(string \<Rightarrow> string) \<Rightarrow> token \<Rightarrow> lit_kind" where
  "literalKindOf u t =
     (case tkind t of
        TokNumber \<Rightarrow> LiteralNumber
      | TokBlob \<Rightarrow> LiteralBlob
      | TokIdent \<Rightarrow>
          (let w = toLower u (ttext t) in
           if w = ''null'' then LiteralNull
           else if w = ''true'' then LiteralTrue
           else if w = ''false'' then LiteralFalse
           else LiteralString)
      | _ \<Rightarrow> LiteralString)"

text \<open>The check of \<^verbatim>\<open>consumeLiteral\<close> inside a date or time function.\<close>

definition clockCheck :: "pstate \<Rightarrow> filter_error + unit" where
  "clockCheck p =
     (if timeDepth p = 0 then Inr ()
      else case tkind (tok p) of
          TokString \<Rightarrow> rejectClockWord p (ttext (tok p)) (tpos (tok p))
        | TokParam \<Rightarrow>
            (if params p < length (args p) then
               (case args p ! params p of
                  ArgString text \<Rightarrow> rejectClockWord p text (tpos (tok p))
                | ArgOther \<Rightarrow> Inr ())
             else Inr ())
        | _ \<Rightarrow> Inr ())"

definition consumeLiteral :: "pstate \<Rightarrow> presult" where
  "consumeLiteral p =
     bindR (clockCheck p) (\<lambda>_.
       if tkind (tok p) = TokParam then advance ((push (Param (params p)) p)\<lparr>params := Suc (params p)\<rparr>)
       else advance (push (Literal (literalKindOf (ulower p) (tok p)) (ttext (tok p))) p))"

definition literalToken :: "pstate \<Rightarrow> bool" where
  "literalToken p =
     (case tkind (tok p) of
        TokString \<Rightarrow> True | TokNumber \<Rightarrow> True | TokBlob \<Rightarrow> True | TokParam \<Rightarrow> True
      | TokIdent \<Rightarrow> word_of p \<in> {''null'', ''true'', ''false''}
      | _ \<Rightarrow> False)"

text \<open>The names an unknown column is compared with: sorted, the first twelve and an ellipsis.\<close>

definition knownColumns :: "string list \<Rightarrow> string list" where
  "knownColumns cols =
     (let known = sort (remdups cols) in
      if 12 < length known then take 12 known @ [[CHR 0xE2, CHR 0x80, CHR 0xA6]] else known)"

definition namedColumn :: "string \<Rightarrow> nat \<Rightarrow> pstate \<Rightarrow> presult" where
  "namedColumn name pos p =
     (if at_op p ''.'' then fail_at pos (OpMsg NamesTable)
      else if toLower (ulower p) name \<notin> set (columns p) then
        fail_at pos (TopMsg (UnknownColumn name (knownColumns (columns p))))
      else Inr (push (Column (toLower (ulower p) name)) p))"

definition column :: "string \<Rightarrow> nat \<Rightarrow> pstate \<Rightarrow> presult" where
  "column name pos p = bindR (advance p) (namedColumn name pos)"

section \<open>Function calls\<close>

text \<open>Fuel for the loops of one method: more than any of them can use on this input.\<close>

definition loopFuel :: "pstate \<Rightarrow> nat" where
  "loopFuel p = 2 * length (l_src (lex p)) + 4"

definition isTime :: "string \<Rightarrow> bool" where
  "isTime name \<longleftrightarrow> name \<in> set timeFunctions"

definition signed_fold :: "string \<Rightarrow> pstate \<Rightarrow> pstate" where
  "signed_fold sign p = (if sign \<noteq> [] then fold1 (Unary sign) p else p)"

text \<open>The optional sign of \<^verbatim>\<open>timeArgument\<close>: the sign and the state after it.\<close>

definition timeSign :: "pstate \<Rightarrow> filter_error + string \<times> pstate" where
  "timeSign p =
     (if at_op p ''-'' \<or> at_op p ''+'' then
        bindR (advance p) (\<lambda>q.
          if tkind (tok q) \<noteq> TokNumber then Inl (FErr (tpos (tok q)) (ValMsg SignOnlyNumber))
          else Inr (ttext (tok p), q))
      else Inr ([], p))"

text \<open>\<^verbatim>\<open>call\<close> after its argument list, with the number of arguments and the mark below them.\<close>

definition callFinish :: "string \<Rightarrow> nat \<Rightarrow> nat \<times> nat option \<Rightarrow> nat \<Rightarrow> nat \<Rightarrow> pstate \<Rightarrow> presult" where
  "callFinish name pos limits mark count p =
     bindR (advance p) (\<lambda>q.
       if count < fst limits \<or> (case snd limits of Some m \<Rightarrow> m < count | None \<Rightarrow> False) then
         fail_at pos (ValMsg (WrongArgCount name count))
       else if at_kw q ''filter'' \<or> at_kw q ''over'' then
         fail_at (tpos (tok q)) (ValMsg (TakesNoClause name (word_of q)))
       else (case takeFrom mark q of (as, q2) \<Rightarrow>
              Inr ((push (Call name as) q2)\<lparr>timeDepth := (if isTime name then timeDepth q2 - 1 else timeDepth q2)\<rparr>)))"

fun timeArgument :: "(nat \<Rightarrow> pstate \<Rightarrow> presult) \<Rightarrow> nat \<Rightarrow> pstate \<Rightarrow> presult"
and callArgs :: "(nat \<Rightarrow> pstate \<Rightarrow> presult) \<Rightarrow> nat \<Rightarrow> string \<Rightarrow> nat \<Rightarrow> pstate \<Rightarrow> filter_error + nat \<times> pstate"
and pcall :: "(nat \<Rightarrow> pstate \<Rightarrow> presult) \<Rightarrow> nat \<Rightarrow> string \<Rightarrow> nat \<Rightarrow> pstate \<Rightarrow> presult" where
  "timeArgument E 0 p = Inl OutOfFuel"
| "timeArgument E (Suc k) p0 =
     bindR (timeSign p0) (\<lambda>(sign, p).
       case tkind (tok p) of
         TokString \<Rightarrow> bindR (consumeLiteral p) (\<lambda>q. Inr (signed_fold sign q))
       | TokNumber \<Rightarrow> bindR (consumeLiteral p) (\<lambda>q. Inr (signed_fold sign q))
       | TokParam \<Rightarrow> bindR (consumeLiteral p) (\<lambda>q. Inr (signed_fold sign q))
       | TokQuotedIdent \<Rightarrow> column (ttext (tok p)) (tpos (tok p)) p
       | TokIdent \<Rightarrow>
           (if word_of p = ''null'' then advance (push (Literal LiteralNull (ttext (tok p))) p)
            else if word_of p \<in> set rejectedKeywords then
              fail_at (tpos (tok p)) (OpMsg (RejectedKeyword (word_of p)))
            else if word_of p = ''case'' \<or> word_of p \<in> set infixWords then
              fail_at (tpos (tok p)) (ValMsg (TimeArgBuilds (describe (tok p))))
            else
              bindR (advance p) (\<lambda>q.
                if \<not> at_op q ''('' then namedColumn (ttext (tok p)) (tpos (tok p)) q
                else if \<not> isTime (word_of p) then
                  fail_at (tpos (tok p)) (ValMsg (TimeArgCall (word_of p)))
                else pcall E k (word_of p) (tpos (tok p)) q))
       | _ \<Rightarrow> fail_at (tpos (tok p)) (ValMsg TimeArgComputed))"
| "callArgs E 0 name count p = Inl OutOfFuel"
| "callArgs E (Suc k) name count p =
     (if at_op p '')'' then Inr (count, p)
      else
        bindR (if 0 < count then expect '','' ''a comma between arguments'' p else Inr p) (\<lambda>q.
        bindR (if isTime name then timeArgument E k q else E precedenceLowest q) (\<lambda>r.
          if isTime name \<and> \<not> at_op r '','' \<and> \<not> at_op r '')'' then
            Inl (FErr (tpos (tok r)) (ValMsg (TimeArgBuilds (describe (tok r)))))
          else if tkind (tok r) = TokEOF then
            Inl (FErr (tpos (tok r)) (ValMsg (ArgsNeverClosed name)))
          else callArgs E k name (Suc count) r)))"
| "pcall E 0 name pos p = Inl OutOfFuel"
| "pcall E (Suc k) name pos p =
     (case map_of allowedFunctions name of
        None \<Rightarrow> fail_at pos (ValMsg (NotAllowedFunction name functionList))
      | Some limits \<Rightarrow>
          bindR (advance p) (\<lambda>q.
            if at_op q ''*'' then fail_at (tpos (tok q)) (ValMsg (CountsRows name))
            else if at_kw q ''distinct'' then fail_at (tpos (tok q)) (ValMsg (TakesNoDistinct name))
            else
              bindR (callArgs E k name 0
                       (q\<lparr>timeDepth := (if isTime name then Suc (timeDepth q) else timeDepth q)\<rparr>))
                    (\<lambda>(count, r). callFinish name pos limits (length (stack q)) count r)))"

section \<open>Case expressions\<close>

definition pushCase :: "node option \<Rightarrow> (node \<times> node) list \<Rightarrow> node option \<Rightarrow> pstate \<Rightarrow> presult" where
  "pushCase operand branches els p =
     (if \<not> at_kw p ''end'' then fail_at (tpos (tok p)) (ValMsg (CaseNeedsEnd (describe (tok p))))
      else bindR (advance p) (\<lambda>q. Inr (push (Case operand branches els) q)))"

fun whenLoop :: "(nat \<Rightarrow> pstate \<Rightarrow> presult) \<Rightarrow> nat \<Rightarrow> (node \<times> node) list \<Rightarrow> pstate
    \<Rightarrow> filter_error + (node \<times> node) list \<times> pstate" where
  "whenLoop E 0 branches p = Inl OutOfFuel"
| "whenLoop E (Suc k) branches p =
     (if \<not> at_kw p ''when'' then Inr (branches, p)
      else
        bindR (advance p) (\<lambda>p1.
        bindR (E precedenceLowest p1) (\<lambda>p2.
          if \<not> at_kw p2 ''then'' then Inl (FErr (tpos (tok p2)) (ValMsg (WhenNeedsThen (describe (tok p2)))))
          else
            bindR (advance p2) (\<lambda>p3.
            bindR (E precedenceLowest p3) (\<lambda>p4.
              case takeN 2 p4 of
                ([a, b], p5) \<Rightarrow> whenLoop E k (branches @ [(a, b)]) p5
              | (_, p5) \<Rightarrow> whenLoop E k branches p5)))))"

definition caseOperand :: "(nat \<Rightarrow> pstate \<Rightarrow> presult) \<Rightarrow> pstate \<Rightarrow> filter_error + node option \<times> pstate" where
  "caseOperand E p =
     (if at_kw p ''when'' then Inr (None, p)
      else bindR (E precedenceLowest p) (\<lambda>q. Inr (pop q)))"

definition caseElse :: "(nat \<Rightarrow> pstate \<Rightarrow> presult) \<Rightarrow> pstate \<Rightarrow> filter_error + node option \<times> pstate" where
  "caseElse E p =
     (if at_kw p ''else'' then bindR (advance p) (\<lambda>q. bindR (E precedenceLowest q) (\<lambda>r. Inr (pop r)))
      else Inr (None, p))"

definition caseExpression :: "(nat \<Rightarrow> pstate \<Rightarrow> presult) \<Rightarrow> pstate \<Rightarrow> presult" where
  "caseExpression E p =
     bindR (advance p) (\<lambda>p1.
     bindR (caseOperand E p1) (\<lambda>(operand, p2).
       if \<not> at_kw p2 ''when'' then fail_at (tpos (tok p2)) (ValMsg (CaseNeedsWhen (describe (tok p2))))
       else
         bindR (whenLoop E (loopFuel p2) [] p2) (\<lambda>(branches, p3).
         bindR (caseElse E p3) (\<lambda>(els, p4). pushCase operand branches els p4))))"

section \<open>Prefix positions\<close>

definition parseIdentifier :: "(nat \<Rightarrow> pstate \<Rightarrow> presult) \<Rightarrow> pstate \<Rightarrow> presult" where
  "parseIdentifier E p =
     (let word = word_of p; name = ttext (tok p); pos = tpos (tok p) in
      if word \<in> set rejectedKeywords then fail_at pos (OpMsg (RejectedKeyword word))
      else if word \<in> {''null'', ''true'', ''false''} then
        advance (push (Literal (literalKindOf (ulower p) (tok p)) name) p)
      else if word = ''case'' then caseExpression E p
      else if word \<in> set infixWords then fail_at pos (ValMsg (CannotStartValue (describe (tok p))))
      else
        bindR (advance p) (\<lambda>q.
          if at_op q ''('' then pcall E (loopFuel q) word pos q else namedColumn name pos q))"

definition parenthesised :: "(nat \<Rightarrow> pstate \<Rightarrow> presult) \<Rightarrow> pstate \<Rightarrow> presult" where
  "parenthesised E p =
     bindR (advance p) (\<lambda>q.
       if at_kw q ''select'' then fail_at (tpos (tok q)) (OpMsg ReadsRows)
       else
         bindR (E precedenceLowest q) (\<lambda>r.
         bindR (expect '')'' ''a closing parenthesis'' r) (\<lambda>r2. Inr (fold1 Paren r2))))"

definition prefix :: "(nat \<Rightarrow> pstate \<Rightarrow> presult) \<Rightarrow> pstate \<Rightarrow> presult" where
  "prefix E p =
     (if at_op p ''-'' \<or> at_op p ''+'' then
        bindR (advance p) (\<lambda>q. bindR (E precedenceUnary q) (\<lambda>r. Inr (fold1 (Unary (ttext (tok p))) r)))
      else if at_op p ''~'' then fail_at (tpos (tok p)) (ValMsg TildeOperator)
      else if at_op p ''('' then parenthesised E p
      else if at_kw p ''not'' then
        bindR (advance p) (\<lambda>q. bindR (E precedenceNot q) (\<lambda>r. Inr (fold1 (Unary ''not'') r)))
      else if at_kw p ''case'' then caseExpression E p
      else case tkind (tok p) of
          TokParam \<Rightarrow> consumeLiteral p
        | TokString \<Rightarrow> consumeLiteral p
        | TokNumber \<Rightarrow> consumeLiteral p
        | TokBlob \<Rightarrow> consumeLiteral p
        | TokQuotedIdent \<Rightarrow> column (ttext (tok p)) (tpos (tok p)) p
        | TokIdent \<Rightarrow> parseIdentifier E p
        | _ \<Rightarrow> fail_at (tpos (tok p)) (ValMsg (CannotStartValue (describe (tok p)))))"

section \<open>Infix operators\<close>

definition binary :: "(nat \<Rightarrow> pstate \<Rightarrow> presult) \<Rightarrow> nat \<Rightarrow> pstate \<Rightarrow> presult" where
  "binary E prec p =
     bindR (advance p) (\<lambda>q. bindR (E prec q) (\<lambda>r. Inr (fold2 (Binary (word_of p)) r)))"

definition isOperator :: "(nat \<Rightarrow> pstate \<Rightarrow> presult) \<Rightarrow> nat \<Rightarrow> pstate \<Rightarrow> presult" where
  "isOperator E prec p =
     bindR (advance p) (\<lambda>q.
     bindR (if at_kw q ''not'' then advance q else Inr q) (\<lambda>r.
       if at_kw r ''distinct'' then fail_at (tpos (tok r)) (OpMsg IsDistinctFrom)
       else bindR (E prec r) (\<lambda>r2. Inr (fold2 (Is (at_kw q ''not'')) r2))))"

text \<open>The check of the escape of a \<^verbatim>\<open>like\<close>: exactly one character.\<close>

definition escapeCheck :: "pstate \<Rightarrow> filter_error + unit" where
  "escapeCheck p =
     (case tkind (tok p) of
        TokString \<Rightarrow>
          (if length (runes (ttext (tok p))) \<noteq> 1
           then Inl (FErr (tpos (tok p)) (OpMsg (EscapeNotOneChar (ttext (tok p))))) else Inr ())
      | TokParam \<Rightarrow>
          (if params p < length (args p) then
             (case args p ! params p of
                ArgString text \<Rightarrow>
                  (if length (runes text) \<noteq> 1 then Inl (FErr (tpos (tok p)) (OpMsg EscapeArgNotOneChar)) else Inr ())
              | ArgOther \<Rightarrow> Inl (FErr (tpos (tok p)) (OpMsg EscapeArgNotOneChar)))
           else Inr ())
      | _ \<Rightarrow> Inl (FErr (tpos (tok p)) (OpMsg (EscapeNotLiteral (describe (tok p))))))"

definition likeNegated :: "(nat \<Rightarrow> pstate \<Rightarrow> presult) \<Rightarrow> nat \<Rightarrow> bool \<Rightarrow> pstate \<Rightarrow> presult" where
  "likeNegated E prec negated p =
     bindR (advance p) (\<lambda>q.
     bindR (E prec q) (\<lambda>r.
       if at_kw r ''escape'' then
         bindR (advance r) (\<lambda>r2.
         bindR (escapeCheck r2) (\<lambda>_.
         bindR (consumeLiteral r2) (\<lambda>r3. Inr (fold3 (\<lambda>a b c. Like negated a b (Some c)) r3))))
       else Inr (fold2 (\<lambda>a b. Like negated a b None) r)))"

definition betweenNegated :: "(nat \<Rightarrow> pstate \<Rightarrow> presult) \<Rightarrow> nat \<Rightarrow> bool \<Rightarrow> pstate \<Rightarrow> presult" where
  "betweenNegated E prec negated p =
     bindR (advance p) (\<lambda>q.
     bindR (E precedenceAnd q) (\<lambda>r.
       if \<not> at_kw r ''and'' then fail_at (tpos (tok r)) (OpMsg (BetweenNeedsAnd (describe (tok r))))
       else
         bindR (advance r) (\<lambda>r2.
         bindR (E precedenceAnd r2) (\<lambda>r3. Inr (fold3 (Between negated) r3)))))"

definition listValue :: "pstate \<Rightarrow> presult" where
  "listValue p =
     (let sgn = at_op p ''-'' \<or> at_op p ''+''; sign = (if sgn then ttext (tok p) else []) in
      bindR (if sgn then advance p else Inr p) (\<lambda>q.
        if \<not> literalToken q then fail_at (tpos (tok q)) (ValMsg (InOnlyLiterals (describe (tok q))))
        else if sgn \<and> tkind (tok q) \<noteq> TokNumber then fail_at (tpos (tok q)) (ValMsg SignNotNumber)
        else bindR (consumeLiteral q) (\<lambda>r. Inr (signed_fold sign r))))"

fun listLoop :: "nat \<Rightarrow> pstate \<Rightarrow> presult" where
  "listLoop 0 p = Inl OutOfFuel"
| "listLoop (Suc k) p =
     (if at_kw p ''select'' then fail_at (tpos (tok p)) (OpMsg ReadsRows)
      else bindR (listValue p) (\<lambda>q. if at_op q '','' then bindR (advance q) (listLoop k) else Inr q))"

definition inListNegated :: "nat \<Rightarrow> bool \<Rightarrow> pstate \<Rightarrow> presult" where
  "inListNegated prec negated p =
     bindR (advance p) (\<lambda>q.
       if \<not> at_op q ''('' then fail_at (tpos (tok q)) (OpMsg (InNeedsList (describe (tok q))))
       else
         bindR (advance q) (\<lambda>r.
           if at_op r '')'' then bindR (advance r) (\<lambda>r2. Inr (fold1 (\<lambda>l. In negated l []) r2))
           else
             bindR (listLoop (loopFuel r) r) (\<lambda>r2.
             bindR (expect '')'' ''a closing parenthesis after the list of values'' r2) (\<lambda>r3.
               case takeFrom (length (stack r)) r3 of (list, r4) \<Rightarrow> Inr (fold1 (\<lambda>l. In negated l list) r4)))))"

definition negatedOperator :: "(nat \<Rightarrow> pstate \<Rightarrow> presult) \<Rightarrow> nat \<Rightarrow> pstate \<Rightarrow> presult" where
  "negatedOperator E prec p =
     bindR (advance p) (\<lambda>q.
       if at_kw q ''in'' then inListNegated prec True q
       else if at_kw q ''like'' then likeNegated E prec True q
       else if at_kw q ''between'' then betweenNegated E prec True q
       else if at_kw q ''null'' then fail_at (tpos (tok p)) (OpMsg NotNullAfterValue)
       else fail_at (tpos (tok p)) (OpMsg (NotCannotNegate (describe (tok q)))))"

datatype consumer = KBinary | KIs | KIn | KLike | KBetween | KNegated

definition peekOperator :: "pstate \<Rightarrow> filter_error + (nat \<times> consumer) option" where
  "peekOperator p =
     (let t = tok p; x = ttext t in
      if tkind t = TokOp then
        (if x \<in> {''='', ''=='', ''!='', ''<>''} then Inr (Some (precedenceEquality, KBinary))
         else if x \<in> {''<'', ''<='', ''>'', ''>=''} then Inr (Some (precedenceRelational, KBinary))
         else if x \<in> {''+'', ''-''} then Inr (Some (precedenceAdditive, KBinary))
         else if x \<in> {''*'', ''/'', ''%''} then Inr (Some (precedenceMultiplicative, KBinary))
         else if x = ''||'' then Inr (Some (precedenceConcat, KBinary))
         else if x \<in> {''&'', ''|'', ''<<'', ''>>''} then Inl (FErr (tpos t) (OpMsg (BitOperator x)))
         else if x \<in> {''->'', ''->>''} then Inl (FErr (tpos t) (OpMsg (JSONOperator x)))
         else if x = ''.'' then Inl (FErr (tpos t) (OpMsg NamesTable))
         else Inr None)
      else if tkind t \<noteq> TokIdent then Inr None
      else
        let word = word_of p in
        if word \<in> set rejectedKeywords then Inl (FErr (tpos t) (OpMsg (RejectedKeyword word)))
        else if word = ''or'' then Inr (Some (precedenceOr, KBinary))
        else if word = ''and'' then Inr (Some (precedenceAnd, KBinary))
        else if word = ''is'' then Inr (Some (precedenceEquality, KIs))
        else if word = ''in'' then Inr (Some (precedenceEquality, KIn))
        else if word = ''like'' then Inr (Some (precedenceEquality, KLike))
        else if word = ''between'' then Inr (Some (precedenceEquality, KBetween))
        else if word = ''not'' then Inr (Some (precedenceEquality, KNegated))
        else Inr None)"

definition consume :: "(nat \<Rightarrow> pstate \<Rightarrow> presult) \<Rightarrow> consumer \<Rightarrow> nat \<Rightarrow> pstate \<Rightarrow> presult" where
  "consume E k prec p =
     (case k of
        KBinary \<Rightarrow> binary E prec p
      | KIs \<Rightarrow> isOperator E prec p
      | KIn \<Rightarrow> inListNegated prec False p
      | KLike \<Rightarrow> likeNegated E prec False p
      | KBetween \<Rightarrow> betweenNegated E prec False p
      | KNegated \<Rightarrow> negatedOperator E prec p)"

fun infixLoop :: "(nat \<Rightarrow> pstate \<Rightarrow> presult) \<Rightarrow> nat \<Rightarrow> nat \<Rightarrow> pstate \<Rightarrow> presult" where
  "infixLoop E 0 minPrec p = Inl OutOfFuel"
| "infixLoop E (Suc k) minPrec p =
     bindR (peekOperator p) (\<lambda>op.
       case op of
         None \<Rightarrow> Inr p
       | Some (prec, c) \<Rightarrow>
           (if prec \<le> minPrec then Inr p
            else bindR (consume E c prec p) (\<lambda>q. infixLoop E k minPrec q)))"

section \<open>Expressions\<close>

fun expression :: "nat \<Rightarrow> nat \<Rightarrow> pstate \<Rightarrow> presult" where
  "expression 0 minPrec p = Inl OutOfFuel"
| "expression (Suc n) minPrec p0 =
     (let p = p0\<lparr>depth := Suc (depth p0)\<rparr> in
      if MaxNestingDepth < depth p then fail_at (tpos (tok p)) (OpMsg NestsTooDeep)
      else
        bindR (prefix (expression n) p) (\<lambda>q.
        bindR (infixLoop (expression n) (loopFuel q) minPrec q) (\<lambda>r.
          Inr (r\<lparr>depth := depth r - 1\<rparr>))))"

record options =
  o_ctx :: "nat \<Rightarrow> string option"
  o_columns :: "string list"
  o_args :: "arg list"
  o_lower :: "string \<Rightarrow> string"
  o_trim :: "string \<Rightarrow> string"

definition initState :: "string \<Rightarrow> options \<Rightarrow> pstate" where
  "initState expr opts =
     \<lparr>lex = \<lparr>l_src = expr, l_pos = 0, l_ctx = o_ctx opts, l_polls = 1\<rparr>,
      tok = mkTok TokEOF [] 0,
      columns = map (toLower (o_lower opts)) (o_columns opts),
      args = o_args opts, params = 0, timeDepth = 0, depth = 0, stack = [],
      ulower = o_lower opts, utrim = o_trim opts\<rparr>"

definition Parse :: "string \<Rightarrow> options \<Rightarrow> filter_error + node" where
  "Parse expr opts =
     (case o_ctx opts 0 of
        Some e \<Rightarrow> Inl (CtxErr e)
      | None \<Rightarrow>
          if MaxFilterLength < length expr then Inl (FErr 0 (TopMsg (TooLong (length expr))))
          else
            bindR (advance (initState expr opts)) (\<lambda>p.
              if tkind (tok p) = TokEOF then Inl (FErr 0 (TopMsg EmptyExpression))
              else
                bindR (expression (Suc (length expr)) precedenceLowest p) (\<lambda>q.
                  if tkind (tok q) \<noteq> TokEOF then
                    (if at_op q '';'' then Inl (FErr (tpos (tok q)) (TopMsg SecondStatement))
                     else Inl (FErr (tpos (tok q)) (TopMsg (LeftOver (describe (tok q))))))
                  else if params q \<noteq> length (o_args opts) then
                    Inl (FErr 0 (TopMsg (PlaceholderCount (params q) (length (o_args opts)))))
                  else (case stack q of [n] \<Rightarrow> Inr n | _ \<Rightarrow> Inl (FErr 0 (TopMsg NotSingleValue))))))"

definition Validate :: "string \<Rightarrow> options \<Rightarrow> filter_error + unit" where
  "Validate expr opts = bindR (Parse expr opts) (\<lambda>_. Inr ())"

end
