(* ===== verification/Filter_Sound.thy ===== *)
theory Filter_Sound
  imports Filter_Parse
begin

text \<open>
  What an accepted filter promises, and that the parser always answers. \<open>node_ok\<close> describes
  the trees a backend may be handed; \<open>moved\<close> is the contract of the parser's methods: they
  only read on, push the nodes they parsed and number the placeholders in order. The
  locale \<open>expr_parser\<close> states the contract of the recursive call; every method is proved
  against it once, and \<open>expression\<close> is shown to satisfy it at every amount of fuel.
\<close>

section \<open>Safe trees\<close>

definition clockWord :: "(string \<Rightarrow> string) \<Rightarrow> (string \<Rightarrow> string) \<Rightarrow> string \<Rightarrow> bool" where
  "clockWord u t text \<longleftrightarrow> toLower u (trimSpace t text) \<in> set rejectedTimeWords"

definition binaryOps :: "string list" where
  "binaryOps = [''='', ''=='', ''!='', ''<>'', ''<'', ''<='', ''>'', ''>='', ''+'', ''-'', ''*'', ''/'', ''%'',
     ''||'', ''and'', ''or'']"

text \<open>A literal, a placeholder, or a signed number: what the list of an \<^verbatim>\<open>in\<close> may hold.\<close>

fun listItem :: "node \<Rightarrow> bool" where
  "listItem (Literal k s) = True"
| "listItem (Param i) = True"
| "listItem (Unary op (Literal k s)) = ((op = ''-'' \<or> op = ''+'') \<and> k = LiteralNumber)"
| "listItem _ = False"

text \<open>What a date or time function may be given: never the clock, never a computed value.\<close>

fun timeArg :: "arg list \<Rightarrow> (string \<Rightarrow> string) \<Rightarrow> (string \<Rightarrow> string) \<Rightarrow> node \<Rightarrow> bool" where
  "timeArg as u t (Literal k s) =
     (k = LiteralNumber \<or> k = LiteralNull \<or> k = LiteralString \<and> \<not> clockWord u t s)"
| "timeArg as u t (Param i) =
     (if i < length as then (case as ! i of ArgString s \<Rightarrow> \<not> clockWord u t s | ArgOther \<Rightarrow> True) else True)"
| "timeArg as u t (Column c) = True"
| "timeArg as u t (Call f xs) = isTime f"
| "timeArg as u t (Unary op (Literal k s)) = ((op = ''-'' \<or> op = ''+'') \<and> k = LiteralNumber)"
| "timeArg as u t _ = False"

fun escapeArg :: "arg list \<Rightarrow> node \<Rightarrow> bool" where
  "escapeArg as (Literal k s) = (k = LiteralString \<and> length (runes s) = 1)"
| "escapeArg as (Param i) =
     (if i < length as then (case as ! i of ArgString s \<Rightarrow> length (runes s) = 1 | ArgOther \<Rightarrow> False) else True)"
| "escapeArg as _ = False"

definition arity_ok :: "string \<Rightarrow> nat \<Rightarrow> bool" where
  "arity_ok f n =
     (case map_of allowedFunctions f of
        None \<Rightarrow> False
      | Some (lo, hi) \<Rightarrow> lo \<le> n \<and> (case hi of None \<Rightarrow> True | Some m \<Rightarrow> n \<le> m))"

fun node_ok :: "string list \<Rightarrow> arg list \<Rightarrow> (string \<Rightarrow> string) \<Rightarrow> (string \<Rightarrow> string) \<Rightarrow> node \<Rightarrow> bool" where
  "node_ok cols as u t (Literal k s) = True"
| "node_ok cols as u t (Param i) = True"
| "node_ok cols as u t (Column c) = (c \<in> set cols)"
| "node_ok cols as u t (Call f xs) =
     (arity_ok f (length xs) \<and> list_all (node_ok cols as u t) xs \<and> (isTime f \<longrightarrow> list_all (timeArg as u t) xs))"
| "node_ok cols as u t (Binary op l r) = (op \<in> set binaryOps \<and> node_ok cols as u t l \<and> node_ok cols as u t r)"
| "node_ok cols as u t (Unary op x) = ((op = ''-'' \<or> op = ''+'' \<or> op = ''not'') \<and> node_ok cols as u t x)"
| "node_ok cols as u t (Paren x) = node_ok cols as u t x"
| "node_ok cols as u t (Is n l r) = (node_ok cols as u t l \<and> node_ok cols as u t r)"
| "node_ok cols as u t (In n l xs) = (node_ok cols as u t l \<and> list_all listItem xs)"
| "node_ok cols as u t (Like n l r e) =
     (node_ok cols as u t l \<and> node_ok cols as u t r \<and> (case e of None \<Rightarrow> True | Some x \<Rightarrow> escapeArg as x))"
| "node_ok cols as u t (Between n x l h) =
     (node_ok cols as u t x \<and> node_ok cols as u t l \<and> node_ok cols as u t h)"
| "node_ok cols as u t (Case x bs e) =
     ((case x of None \<Rightarrow> True | Some y \<Rightarrow> node_ok cols as u t y)
      \<and> bs \<noteq> [] \<and> list_all (\<lambda>b. node_ok cols as u t (fst b) \<and> node_ok cols as u t (snd b)) bs
      \<and> (case e of None \<Rightarrow> True | Some y \<Rightarrow> node_ok cols as u t y))"

text \<open>The placeholders of a tree from left to right.\<close>

fun params_of :: "node \<Rightarrow> nat list" where
  "params_of (Literal k s) = []"
| "params_of (Param i) = [i]"
| "params_of (Column c) = []"
| "params_of (Call f xs) = concat (map params_of xs)"
| "params_of (Binary op l r) = params_of l @ params_of r"
| "params_of (Unary op x) = params_of x"
| "params_of (Paren x) = params_of x"
| "params_of (Is n l r) = params_of l @ params_of r"
| "params_of (In n l xs) = params_of l @ concat (map params_of xs)"
| "params_of (Like n l r e) = params_of l @ params_of r @ (case e of None \<Rightarrow> [] | Some x \<Rightarrow> params_of x)"
| "params_of (Between n x l h) = params_of x @ params_of l @ params_of h"
| "params_of (Case x bs e) =
     (case x of None \<Rightarrow> [] | Some y \<Rightarrow> params_of y)
     @ concat (map (\<lambda>b. params_of (fst b) @ params_of (snd b)) bs)
     @ (case e of None \<Rightarrow> [] | Some y \<Rightarrow> params_of y)"

section \<open>The contract of the parser's methods\<close>

text \<open>The errors a parse may end with: never a lack of fuel, never outside the text.\<close>

fun err_ok :: "nat \<Rightarrow> filter_error \<Rightarrow> bool" where
  "err_ok n (CtxErr e) = True"
| "err_ok n (FErr pos m) = (pos \<le> n \<and> m \<noteq> TopMsg NotSingleValue)"
| "err_ok n OutOfFuel = False"

abbreviation srcLen :: "pstate \<Rightarrow> nat" where
  "srcLen p \<equiv> length (l_src (lex p))"

definition remaining :: "pstate \<Rightarrow> nat" where
  "remaining p = srcLen p - tpos (tok p)"

definition pinv :: "pstate \<Rightarrow> bool" where
  "pinv p \<longleftrightarrow> lexer_ok (lex p) \<and> tpos (tok p) \<le> l_pos (lex p)
     \<and> (tkind (tok p) \<noteq> TokEOF \<longrightarrow> tpos (tok p) < l_pos (lex p))"

abbreviation okFor :: "pstate \<Rightarrow> node \<Rightarrow> bool" where
  "okFor p \<equiv> node_ok (columns p) (args p) (ulower p) (utrim p)"

definition same_env :: "pstate \<Rightarrow> pstate \<Rightarrow> bool" where
  "same_env p q \<longleftrightarrow> l_src (lex q) = l_src (lex p) \<and> columns q = columns p \<and> args q = args p
     \<and> ulower q = ulower p \<and> utrim q = utrim p \<and> timeDepth q = timeDepth p \<and> depth q = depth p"

definition moved :: "pstate \<Rightarrow> pstate \<Rightarrow> node list \<Rightarrow> bool" where
  "moved p q nds \<longleftrightarrow> same_env p q \<and> pinv q \<and> remaining q \<le> remaining p
     \<and> stack q = stack p @ nds \<and> params p \<le> params q
     \<and> list_all (okFor p) nds \<and> concat (map params_of nds) = [params p..<params q]"

lemma moved_refl: "pinv p \<Longrightarrow> moved p p []"
  by (simp add: moved_def same_env_def)

lemma moved_trans: "moved p q as \<Longrightarrow> moved q r bs \<Longrightarrow> moved p r (as @ bs)"
  by (auto simp: moved_def same_env_def upt_add_eq_append [symmetric] le_Suc_ex
        dest!: le_Suc_ex)

lemma moved_env:
  "moved p q nds \<Longrightarrow> l_src (lex q) = l_src (lex p)"
  "moved p q nds \<Longrightarrow> columns q = columns p"
  "moved p q nds \<Longrightarrow> args q = args p"
  "moved p q nds \<Longrightarrow> ulower q = ulower p"
  "moved p q nds \<Longrightarrow> utrim q = utrim p"
  "moved p q nds \<Longrightarrow> timeDepth q = timeDepth p"
  "moved p q nds \<Longrightarrow> depth q = depth p"
  "moved p q nds \<Longrightarrow> pinv q"
  "moved p q nds \<Longrightarrow> remaining q \<le> remaining p"
  "moved p q nds \<Longrightarrow> stack q = stack p @ nds"
  "moved p q nds \<Longrightarrow> list_all (okFor p) nds"
  by (simp_all add: moved_def same_env_def)

lemma tpos_le: "pinv p \<Longrightarrow> tpos (tok p) \<le> srcLen p"
  by (auto simp: pinv_def lexer_ok_def)

lemma lexErr_ok: "lexErr n e \<Longrightarrow> err_ok n e"
  by (cases e) (auto simp: lexErr_def split: filter_msg.splits)

lemma advance_ensures:
  assumes "pinv p"
  shows "ensures (err_ok (srcLen p)) (advance p)
    (\<lambda>q. moved p q [] \<and> (tkind (tok p) \<noteq> TokEOF \<longrightarrow> remaining q < remaining p))"
proof (cases "nextTok (lex p)")
  case (Inl e)
  with assms nextTok_err lexErr_ok show ?thesis by (auto simp: advance_def pinv_def)
next
  case (Inr r)
  obtain t l where r: "r = (t, l)" by (cases r)
  with Inr assms have "nextTok (lex p) = Inr (t, l)" "lexer_ok (lex p)" by (auto simp: pinv_def)
  from nextTok_progress [OF this] assms Inr r show ?thesis
    by (auto simp: advance_def pinv_def moved_def same_env_def remaining_def split: if_splits)
qed

lemma advance_tok:
  assumes "pinv p" "tkind (tok p) \<noteq> TokEOF"
  shows "ensures (err_ok (srcLen p)) (advance p) (\<lambda>q. moved p q [] \<and> remaining q < remaining p)"
  using advance_ensures [OF assms(1)] assms(2) by (auto elim: ensures_mono)

lemma at_not_eof [simp]:
  "at_op p op \<Longrightarrow> tkind (tok p) \<noteq> TokEOF"
  "at_kw p w \<Longrightarrow> tkind (tok p) \<noteq> TokEOF"
  by (auto simp: at_op_def at_kw_def tok_is_def keyword_def)

section \<open>Pushing and folding nodes\<close>

lemma state_keeps [simp]:
  "remaining (q\<lparr>stack := s\<rparr>) = remaining q" "remaining (q\<lparr>timeDepth := d\<rparr>) = remaining q"
  "remaining (q\<lparr>depth := d\<rparr>) = remaining q" "remaining (q\<lparr>params := i\<rparr>) = remaining q"
  "pinv (q\<lparr>stack := s\<rparr>) = pinv q" "pinv (q\<lparr>timeDepth := d\<rparr>) = pinv q"
  "pinv (q\<lparr>depth := d\<rparr>) = pinv q" "pinv (q\<lparr>params := i\<rparr>) = pinv q"
  by (simp_all add: remaining_def pinv_def)

lemma push_keeps [simp]:
  "tok (push n q) = tok q" "lex (push n q) = lex q" "remaining (push n q) = remaining q"
  "pinv (push n q) = pinv q" "params (push n q) = params q" "stack (push n q) = stack q @ [n]"
  "same_env p (push n q) = same_env p q"
  by (simp_all add: push_def same_env_def)

lemma push_moved:
  "moved p q nds \<Longrightarrow> okFor p n \<Longrightarrow> params_of n = [] \<Longrightarrow> moved p (push n q) (nds @ [n])"
  by (auto simp: moved_def same_env_def push_def)

lemma push_param:
  "moved p q nds \<Longrightarrow> moved p ((push (Param (params q)) q)\<lparr>params := Suc (params q)\<rparr>) (nds @ [Param (params q)])"
  by (auto simp: moved_def same_env_def push_def)

lemma takeN_moved:
  assumes "moved p q nds" "length nds = Suc n"
  shows "takeN (Suc n) q = (nds, q\<lparr>stack := stack p\<rparr>)"
  using assms by (simp add: takeN_def moved_def)

text \<open>Replacing the nodes just pushed by one node built of them.\<close>

lemma refold:
  assumes "moved p q nds" "okFor p n" "params_of n = concat (map params_of nds)"
  shows "moved p (push n (q\<lparr>stack := stack p\<rparr>)) [n]"
  using assms by (auto simp: moved_def same_env_def push_def)

lemma fold1_moved:
  assumes "moved p q [a]" "okFor p (f a)" "params_of (f a) = params_of a"
  shows "moved p (fold1 f q) [f a] \<and> tok (fold1 f q) = tok q \<and> remaining (fold1 f q) = remaining q"
  using takeN_moved [OF assms(1), of 0] refold [OF assms(1,2)] assms(3)
  by (simp add: fold1_def pop_def One_nat_def)

lemma fold2_moved:
  assumes "moved p q [a, b]" "okFor p (f a b)" "params_of (f a b) = params_of a @ params_of b"
  shows "moved p (fold2 f q) [f a b] \<and> tok (fold2 f q) = tok q \<and> remaining (fold2 f q) = remaining q"
  using takeN_moved [OF assms(1), of 1] refold [OF assms(1,2)] assms(3)
  by (simp add: fold2_def numeral_2_eq_2)

lemma fold3_moved:
  assumes "moved p q [a, b, c]" "okFor p (f a b c)"
    "params_of (f a b c) = params_of a @ params_of b @ params_of c"
  shows "moved p (fold3 f q) [f a b c] \<and> tok (fold3 f q) = tok q \<and> remaining (fold3 f q) = remaining q"
  using takeN_moved [OF assms(1), of 2] refold [OF assms(1,2)] assms(3)
  by (simp add: fold3_def numeral_3_eq_3 numeral_2_eq_2)

lemma moved_ok: "moved p q nds \<Longrightarrow> n \<in> set nds \<Longrightarrow> okFor p n"
  by (auto simp: moved_def list_all_iff)

section \<open>Values that need no recursion\<close>

lemma rejectClockWord_ensures:
  "pos \<le> n \<Longrightarrow> ensures (err_ok n) (rejectClockWord p text pos) (\<lambda>_. \<not> clockWord (ulower p) (utrim p) text)"
  by (simp add: rejectClockWord_def clockWord_def Let_def)

lemma fail_at_ensures:
  "pinv p \<Longrightarrow> m \<noteq> TopMsg NotSingleValue \<Longrightarrow> srcLen p = n \<Longrightarrow>
     ensures (err_ok n) (fail_at (tpos (tok p)) m) Q"
  using tpos_le [of p] by (simp add: fail_at_def)

text \<open>The node a literal token becomes.\<close>

definition literalNode :: "pstate \<Rightarrow> node" where
  "literalNode p =
     (if tkind (tok p) = TokParam then Param (params p)
      else Literal (literalKindOf (ulower p) (tok p)) (ttext (tok p)))"

lemma literalNode_ok [simp]: "node_ok cols as u t (literalNode p)" "listItem (literalNode p)"
  by (simp_all add: literalNode_def)

lemma clockCheck_ensures:
  assumes "pinv p" "srcLen p = n"
  shows "ensures (err_ok n) (clockCheck p)
    (\<lambda>_. 0 < timeDepth p \<longrightarrow> tkind (tok p) \<in> {TokString, TokNumber, TokParam}
          \<longrightarrow> timeArg (args p) (ulower p) (utrim p) (literalNode p))"
  using rejectClockWord_ensures [of "tpos (tok p)" n p] tpos_le [OF assms(1)] assms(2)
  by (auto simp: clockCheck_def literalNode_def literalKindOf_def intro: ensures_mono
        split: token_kind.splits arg.splits)

lemma consumeLiteral_ensures:
  assumes "pinv p" "tkind (tok p) \<noteq> TokEOF"
  shows "ensures (err_ok (srcLen p)) (consumeLiteral p)
    (\<lambda>q. moved p q [literalNode p] \<and> remaining q < remaining p
       \<and> (0 < timeDepth p \<longrightarrow> tkind (tok p) \<in> {TokString, TokNumber, TokParam}
            \<longrightarrow> timeArg (args p) (ulower p) (utrim p) (literalNode p)))"
proof -
  have step: "ensures (err_ok (srcLen p)) (advance r) (\<lambda>q. moved p q [n] \<and> remaining q < remaining p)"
    if "moved p r [n]" "tok r = tok p" for r n
  proof -
    have r: "pinv r" "srcLen r = srcLen p" "remaining r \<le> remaining p" using that moved_env by metis+
    show ?thesis
      using advance_tok [OF r(1)] assms(2) that r moved_trans [OF that(1)] by (auto elim!: ensures_mono)
  qed
  show ?thesis
    unfolding consumeLiteral_def
    using push_moved [OF moved_refl [OF assms(1)]] push_param [OF moved_refl [OF assms(1)]]
    by (intro ensures_bind [OF clockCheck_ensures [OF assms(1) refl]] ensures_if)
       (auto intro!: step [THEN ensures_mono] simp: literalNode_def)
qed

text \<open>The same facts relative to the state \<open>p0\<close> a method started in.\<close>

lemma moved_srcLen: "moved p0 p nds \<Longrightarrow> srcLen p = srcLen p0"
  by (simp add: moved_env(1))

lemma tpos_from: "moved p0 p nds \<Longrightarrow> tpos (tok p) \<le> srcLen p0"
  using tpos_le [of p] by (simp add: moved_env moved_srcLen)

lemma fail_from:
  "moved p0 p nds \<Longrightarrow> m \<noteq> TopMsg NotSingleValue \<Longrightarrow> ensures (err_ok (srcLen p0)) (fail_at (tpos (tok p)) m) Q"
  using fail_at_ensures moved_srcLen moved_env(8) by blast

lemma err_from:
  "moved p0 p nds \<Longrightarrow> m \<noteq> TopMsg NotSingleValue \<Longrightarrow> err_ok (srcLen p0) (FErr (tpos (tok p)) m)"
  using fail_from [of p0 p nds m "\<lambda>_. True"] by (simp add: fail_at_def)

lemma advance_from:
  assumes "moved p0 p nds" "tkind (tok p) \<noteq> TokEOF"
  shows "ensures (err_ok (srcLen p0)) (advance p) (\<lambda>q. moved p0 q nds \<and> remaining q < remaining p)"
  using advance_tok [OF moved_env(8) [OF assms(1)] assms(2)] moved_srcLen [OF assms(1)]
    moved_trans [OF assms(1), of _ "[]"]
  by (auto elim!: ensures_mono)

lemma expect_from:
  assumes "moved p0 p nds"
  shows "ensures (err_ok (srcLen p0)) (expect op what p) (\<lambda>q. moved p0 q nds \<and> remaining q < remaining p)"
  unfolding expect_def
  by (intro ensures_if) (simp_all add: fail_from [OF assms] advance_from [OF assms])

lemma literal_from:
  assumes "moved p0 p nds" "tkind (tok p) \<noteq> TokEOF"
  shows "ensures (err_ok (srcLen p0)) (consumeLiteral p)
    (\<lambda>q. moved p0 q (nds @ [literalNode p]) \<and> remaining q < remaining p
       \<and> (0 < timeDepth p0 \<longrightarrow> tkind (tok p) \<in> {TokString, TokNumber, TokParam}
            \<longrightarrow> timeArg (args p0) (ulower p0) (utrim p0) (literalNode p)))"
proof -
  have env: "timeDepth p = timeDepth p0" "args p = args p0" "ulower p = ulower p0" "utrim p = utrim p0"
    using moved_env [OF assms(1)] by simp_all
  show ?thesis
    using consumeLiteral_ensures [OF moved_env(8) [OF assms(1)] assms(2)]
    unfolding moved_srcLen [OF assms(1)] env
    by (rule ensures_mono) (auto dest: moved_trans [OF assms(1)])
qed

lemma word_from:
  assumes "moved p0 p nds" "tkind (tok p) \<noteq> TokEOF"
  shows "ensures (err_ok (srcLen p0)) (advance (push (Literal k s) p))
    (\<lambda>q. moved p0 q (nds @ [Literal k s]) \<and> remaining q < remaining p)"
  using advance_from [OF push_moved [OF assms(1)], of "Literal k s"] assms(2) by simp

lemma namedColumn_from:
  assumes "moved p0 p nds" "pos \<le> srcLen p0"
  shows "ensures (err_ok (srcLen p0)) (namedColumn name pos p)
    (\<lambda>q. \<exists>c. moved p0 q (nds @ [Column c]) \<and> remaining q = remaining p \<and> tok q = tok p)"
proof -
  have "columns p = columns p0" using moved_env [OF assms(1)] by simp
  then show ?thesis
    using push_moved [OF assms(1), of "Column (toLower (ulower p) name)"] assms(2)
    by (auto simp: namedColumn_def fail_at_def)
qed

lemma column_from:
  assumes "moved p0 p nds" "tkind (tok p) \<noteq> TokEOF"
  shows "ensures (err_ok (srcLen p0)) (column name (tpos (tok p)) p)
    (\<lambda>q. \<exists>c. moved p0 q (nds @ [Column c]) \<and> remaining q < remaining p)"
proof -
  have pos: "tpos (tok p) \<le> srcLen p0"
    using tpos_le [OF moved_env(8) [OF assms(1)]] moved_srcLen [OF assms(1)] by simp
  show ?thesis
    unfolding column_def
    by (rule ensures_bind [OF advance_from [OF assms]])
       (auto intro!: namedColumn_from [OF _ pos, THEN ensures_mono])
qed

text \<open>A sign in front of a number, as the list of an \<^verbatim>\<open>in\<close> and a time function take it.\<close>

lemma signed_fold_from:
  assumes "moved p0 q (nds @ [n])" "sign = [] \<or> (sign = ''-'' \<or> sign = ''+'') \<and> n = Literal LiteralNumber s"
  shows "\<exists>n'. moved p0 (signed_fold sign q) (nds @ [n']) \<and> remaining (signed_fold sign q) = remaining q
    \<and> tok (signed_fold sign q) = tok q
    \<and> (if sign = [] then n' = n else n' = Unary sign n)"
proof (cases "sign = []")
  case True
  with assms show ?thesis by (simp add: signed_fold_def)
next
  case False
  have env: "same_env p0 q" "stack q = (stack p0 @ nds) @ [n]" using assms(1) by (auto simp: moved_def)
  have q: "fold1 (Unary sign) q = push (Unary sign n) (q\<lparr>stack := stack p0 @ nds\<rparr>)"
    using env(2) by (simp add: fold1_def pop_def takeN_def)
  have "okFor p0 n" using moved_ok [OF assms(1), of n] by simp
  with False assms env show ?thesis
    unfolding signed_fold_def q by (auto simp: moved_def same_env_def push_def)
qed

lemma literalToken_not_eof: "literalToken p \<Longrightarrow> tkind (tok p) \<noteq> TokEOF"
  by (auto simp: literalToken_def)

lemma sign_cases: "at_op p ''-'' \<or> at_op p ''+'' \<Longrightarrow> ttext (tok p) = ''-'' \<or> ttext (tok p) = ''+''"
  by (auto simp: at_op_def tok_is_def)

lemma literalNode_number:
  "tkind (tok p) = TokNumber \<Longrightarrow> literalNode p = Literal LiteralNumber (ttext (tok p))"
  by (simp add: literalNode_def literalKindOf_def)

lemma signedLiteral_from:
  assumes "moved p0 p nds" "tkind (tok p) \<noteq> TokEOF"
    and "sign = [] \<or> (sign = ''-'' \<or> sign = ''+'') \<and> tkind (tok p) = TokNumber"
  shows "ensures (err_ok (srcLen p0)) (bindR (consumeLiteral p) (\<lambda>q. Inr (signed_fold sign q)))
    (\<lambda>q. \<exists>n. moved p0 q (nds @ [n]) \<and> remaining q < remaining p \<and> listItem n
       \<and> (0 < timeDepth p0 \<longrightarrow> tkind (tok p) \<in> {TokString, TokNumber, TokParam}
            \<longrightarrow> timeArg (args p0) (ulower p0) (utrim p0) n))"
proof (rule ensures_bind [OF literal_from [OF assms(1,2)]])
  fix q
  assume q: "moved p0 q (nds @ [literalNode p]) \<and> remaining q < remaining p
       \<and> (0 < timeDepth p0 \<longrightarrow> tkind (tok p) \<in> {TokString, TokNumber, TokParam}
            \<longrightarrow> timeArg (args p0) (ulower p0) (utrim p0) (literalNode p))"
  have "sign = [] \<or> (sign = ''-'' \<or> sign = ''+'') \<and> literalNode p = Literal LiteralNumber (ttext (tok p))"
    using assms(3) literalNode_number by auto
  from signed_fold_from [OF conjunct1 [OF q] this] obtain n where
    n: "moved p0 (signed_fold sign q) (nds @ [n])" "remaining (signed_fold sign q) = remaining q"
    and n': "if sign = [] then n = literalNode p else n = Unary sign (literalNode p)" by auto
  have "listItem n \<and> (0 < timeDepth p0 \<longrightarrow> tkind (tok p) \<in> {TokString, TokNumber, TokParam}
            \<longrightarrow> timeArg (args p0) (ulower p0) (utrim p0) n)"
    using n' q assms(3) literalNode_number [of p] by (cases "sign = []") auto
  with n q show "ensures (err_ok (srcLen p0)) (Inr (signed_fold sign q))
    (\<lambda>q. \<exists>n. moved p0 q (nds @ [n]) \<and> remaining q < remaining p \<and> listItem n
       \<and> (0 < timeDepth p0 \<longrightarrow> tkind (tok p) \<in> {TokString, TokNumber, TokParam}
            \<longrightarrow> timeArg (args p0) (ulower p0) (utrim p0) n))"
    by auto
qed

lemma listValue_from:
  assumes "moved p0 p nds"
  shows "ensures (err_ok (srcLen p0)) (listValue p)
    (\<lambda>q. \<exists>n. moved p0 q (nds @ [n]) \<and> remaining q < remaining p \<and> listItem n)"
proof -
  let ?sgn = "at_op p ''-'' \<or> at_op p ''+''"
  have adv: "ensures (err_ok (srcLen p0)) (if ?sgn then advance p else Inr p)
      (\<lambda>q. moved p0 q nds \<and> remaining q \<le> remaining p)"
    using advance_from [OF assms] assms by (auto intro: ensures_if elim!: ensures_mono)
  show ?thesis
    unfolding listValue_def Let_def
  proof (rule ensures_bind [OF adv], intro ensures_if)
    fix q
    assume q: "moved p0 q nds \<and> remaining q \<le> remaining p"
    then have m: "moved p0 q nds" and le: "remaining q \<le> remaining p" by auto
    show "ensures (err_ok (srcLen p0)) (fail_at (tpos (tok q)) (ValMsg x)) Q" for x Q
      by (rule fail_from [OF m]) simp
    then show "ensures (err_ok (srcLen p0)) (fail_at (tpos (tok q)) (ValMsg x)) Q" for x Q .
    assume "\<not> \<not> literalToken q" "\<not> (?sgn \<and> tkind (tok q) \<noteq> TokNumber)"
    then show "ensures (err_ok (srcLen p0))
        (bindR (consumeLiteral q) (\<lambda>r. Inr (signed_fold (if ?sgn then ttext (tok p) else []) r)))
        (\<lambda>q. \<exists>n. moved p0 q (nds @ [n]) \<and> remaining q < remaining p \<and> listItem n)"
      using le literalToken_not_eof [of q] sign_cases [of p]
      by (auto intro!: signedLiteral_from [OF m, THEN ensures_mono] split: if_splits)
  qed
qed

lemma listLoop_from:
  assumes "moved p0 p nds" "remaining p < k" "list_all listItem nds"
  shows "ensures (err_ok (srcLen p0)) (listLoop k p)
    (\<lambda>q. \<exists>nds. moved p0 q nds \<and> remaining q < remaining p \<and> list_all listItem nds)"
  using assms
proof (induction k arbitrary: p nds)
  case (Suc k)
  show ?case
    unfolding listLoop.simps
  proof (intro ensures_if ensures_bind [OF listValue_from [OF Suc.prems(1)]])
    show "ensures (err_ok (srcLen p0)) (fail_at (tpos (tok p)) (OpMsg ReadsRows)) Q" for Q
      by (rule fail_from [OF Suc.prems(1)]) simp
  next
    fix q
    assume "\<exists>n. moved p0 q (nds @ [n]) \<and> remaining q < remaining p \<and> listItem n"
    then obtain n where q: "moved p0 q (nds @ [n])" "remaining q < remaining p" "listItem n" by auto
    then show "ensures (err_ok (srcLen p0)) (Inr q)
        (\<lambda>q. \<exists>nds. moved p0 q nds \<and> remaining q < remaining p \<and> list_all listItem nds)"
      using Suc.prems(3) by (auto intro!: exI [of _ "nds @ [n]"])
    assume "at_op q '',''"
    then have eofq: "tkind (tok q) \<noteq> TokEOF" by simp
    show "ensures (err_ok (srcLen p0)) (bindR (advance q) (listLoop k))
        (\<lambda>q. \<exists>nds. moved p0 q nds \<and> remaining q < remaining p \<and> list_all listItem nds)"
    proof (rule ensures_bind [OF advance_from [OF q(1) eofq]])
      fix r
      assume "moved p0 r (nds @ [n]) \<and> remaining r < remaining q"
      with q Suc.prems Suc.IH [of r "nds @ [n]"]
      show "ensures (err_ok (srcLen p0)) (listLoop k r)
          (\<lambda>q. \<exists>nds. moved p0 q nds \<and> remaining q < remaining p \<and> list_all listItem nds)"
        by (auto elim!: ensures_mono intro: less_trans)
    qed
  qed
qed simp

lemma escapeCheck_ensures:
  assumes "moved p0 p nds"
  shows "ensures (err_ok (srcLen p0)) (escapeCheck p)
    (\<lambda>_. tkind (tok p) \<noteq> TokEOF \<and> escapeArg (args p0) (literalNode p))"
proof -
  have "args p = args p0" using moved_env [OF assms] by simp
  with tpos_from [OF assms] show ?thesis
    by (auto simp: escapeCheck_def literalNode_def literalKindOf_def split: token_kind.splits arg.splits)
qed

lemma binaryOps_lower:
  "s \<in> {''='', ''=='', ''!='', ''<>''} \<Longrightarrow> toLower u s \<in> set binaryOps"
  "s \<in> {''<'', ''<='', ''>'', ''>=''} \<Longrightarrow> toLower u s \<in> set binaryOps"
  "s \<in> {''+'', ''-''} \<Longrightarrow> toLower u s \<in> set binaryOps"
  "s \<in> {''*'', ''/'', ''%''} \<Longrightarrow> toLower u s \<in> set binaryOps"
  "s = ''||'' \<Longrightarrow> toLower u s \<in> set binaryOps"
  by (auto simp: toLower_def isASCII_def asciiLower_def isUpper_def binaryOps_def)

text \<open>What the parser knows when it has seen an operator.\<close>

lemma peekOperator_ensures:
  assumes "moved p0 p nds"
  shows "ensures (err_ok (srcLen p0)) (peekOperator p)
    (\<lambda>op. case op of None \<Rightarrow> True
      | Some (prec, c) \<Rightarrow> tkind (tok p) \<noteq> TokEOF \<and> (c = KBinary \<longrightarrow> word_of p \<in> set binaryOps))"
proof -
  have words: "''and'' \<in> set binaryOps" "''or'' \<in> set binaryOps" by (simp_all add: binaryOps_def)
  show ?thesis
    unfolding peekOperator_def Let_def
    using tpos_from [OF assms] binaryOps_lower [of "ttext (tok p)" "ulower p", folded word_of_def] words
    by (intro ensures_if) (simp_all only: ensures_simps err_ok.simps option.case prod.case, simp_all del: insert_iff)
qed

section \<open>Function calls\<close>

lemma lift_from:
  assumes "ensures (err_ok (srcLen p)) r (\<lambda>q. \<exists>n. moved p q [n] \<and> R q n)" "moved p0 p nds"
  shows "ensures (err_ok (srcLen p0)) r (\<lambda>q. \<exists>n. moved p0 q (nds @ [n]) \<and> R q n)"
  using assms moved_srcLen [OF assms(2)] moved_trans [OF assms(2), of _ "[_]"]
  by (fastforce elim!: ensures_mono)

text \<open>A call's arguments are parsed with the time depth raised by \<open>timeDepth\<close> for a time function.\<close>

definition argState :: "string \<Rightarrow> pstate \<Rightarrow> pstate" where
  "argState name q = q\<lparr>timeDepth := (if isTime name then Suc (timeDepth q) else timeDepth q)\<rparr>"

lemma argState_keeps [simp]:
  "pinv (argState name q) = pinv q" "remaining (argState name q) = remaining q"
  "lex (argState name q) = lex q" "tok (argState name q) = tok q"
  "args (argState name q) = args q" "ulower (argState name q) = ulower q" "utrim (argState name q) = utrim q"
  by (simp_all add: argState_def)

definition timeArgs :: "pstate \<Rightarrow> string \<Rightarrow> node list \<Rightarrow> bool" where
  "timeArgs p name as \<longleftrightarrow> (isTime name \<longrightarrow> list_all (timeArg (args p) (ulower p) (utrim p)) as)"

lemma callNode_moved:
  assumes "moved (argState name q) r as" "okFor q (Call name as)"
  shows "moved q ((push (Call name as) (r\<lparr>stack := stack q\<rparr>))
      \<lparr>timeDepth := (if isTime name then timeDepth r - 1 else timeDepth r)\<rparr>) [Call name as]"
  using assms by (auto simp: moved_def same_env_def argState_def push_def)

lemma callFinish_ensures:
  assumes "moved (argState name q) r as" "at_op r '')''" "pos \<le> srcLen q"
    and "map_of allowedFunctions name = Some limits" "timeArgs q name as"
  shows "ensures (err_ok (srcLen q)) (callFinish name pos limits (length (stack q)) (length as) r)
    (\<lambda>s. moved q s [Call name as] \<and> remaining s < remaining r)"
proof -
  have adv: "ensures (err_ok (srcLen q)) (advance r)
      (\<lambda>s. moved (argState name q) s as \<and> remaining s < remaining r)"
    using advance_from [OF assms(1)] assms(2) by simp
  show ?thesis
    unfolding callFinish_def
  proof (rule ensures_bind [OF adv], intro ensures_if)
    fix s
    assume s: "moved (argState name q) s as \<and> remaining s < remaining r"
    then have m: "moved (argState name q) s as" by simp
    show "ensures (err_ok (srcLen q)) (fail_at pos (ValMsg x)) Q" for x Q
      using assms(3) by (simp add: fail_at_def)
    show "ensures (err_ok (srcLen q)) (fail_at (tpos (tok s)) (ValMsg x)) Q" for x Q
      using fail_from [OF m] by simp
    assume arity: "\<not> (length as < fst limits \<or> (case snd limits of None \<Rightarrow> False | Some m \<Rightarrow> m < length as))"
    have "okFor q (Call name as)"
      using arity assms(4,5) moved_env(11) [OF m]
      by (auto simp: arity_ok_def timeArgs_def argState_def split: prod.splits option.splits)
    moreover have "stack s = stack q @ as" using moved_env(10) [OF m] by (simp add: argState_def)
    ultimately show "ensures (err_ok (srcLen q)) (case takeFrom (length (stack q)) s of (as, q2) \<Rightarrow>
              Inr ((push (Call name as) q2)
                \<lparr>timeDepth := (if isTime name then timeDepth q2 - 1 else timeDepth q2)\<rparr>))
       (\<lambda>s. moved q s [Call name as] \<and> remaining s < remaining r)"
      using callNode_moved [OF m] s by (cases "isTime name") (simp_all add: takeFrom_def)
  qed
qed

lemma timeSign_ensures:
  assumes "moved p0 p nds"
  shows "ensures (err_ok (srcLen p0)) (timeSign p)
    (\<lambda>(sign, q). moved p0 q nds \<and> remaining q \<le> remaining p
       \<and> (sign = [] \<or> (sign = ''-'' \<or> sign = ''+'') \<and> tkind (tok q) = TokNumber))"
  unfolding timeSign_def
  using assms
  by (intro ensures_if ensures_bind [OF advance_from [OF assms]])
     (use sign_cases [of p] in \<open>auto intro: tpos_from\<close>)

section \<open>Nodes held off the stack\<close>

text \<open>
  \<^verbatim>\<open>caseExpression\<close> takes its parts off the stack and keeps them in variables; \<open>held\<close> is \<open>moved\<close>
  with those nodes in hand instead of on the stack.
\<close>

definition held :: "pstate \<Rightarrow> pstate \<Rightarrow> node list \<Rightarrow> bool" where
  "held p q nds \<longleftrightarrow> same_env p q \<and> pinv q \<and> remaining q \<le> remaining p \<and> stack q = stack p
     \<and> params p \<le> params q \<and> list_all (okFor p) nds \<and> concat (map params_of nds) = [params p..<params q]"

lemma held_refl: "pinv p \<Longrightarrow> held p p []"
  by (simp add: held_def same_env_def)

lemma held_pinv: "held p q nds \<Longrightarrow> pinv q"
  by (simp add: held_def)

lemma held_srcLen: "held p q nds \<Longrightarrow> srcLen q = srcLen p"
  by (simp add: held_def same_env_def)

lemma held_take:
  assumes "held p q nds" "moved q r ms"
  shows "held p (r\<lparr>stack := stack q\<rparr>) (nds @ ms)"
  using assms by (auto simp: held_def moved_def same_env_def upt_add_eq_append [symmetric] dest!: le_Suc_ex)

lemma held_step: "held p q nds \<Longrightarrow> moved q r [] \<Longrightarrow> held p r nds"
  using held_take [of p q nds r "[]"] moved_env(10) [of q r "[]"] by (metis append_Nil2 pstate.surjective pstate.update_convs(8))

lemma held_push:
  assumes "held p q nds" "okFor p n" "params_of n = concat (map params_of nds)"
  shows "moved p (push n q) [n]"
  using assms by (auto simp: moved_def held_def same_env_def push_def)

lemma pop_moved: "moved q r [n] \<Longrightarrow> pop r = (Some n, r\<lparr>stack := stack q\<rparr>)"
  using takeN_moved [of q r "[n]" 0] by (simp add: pop_def One_nat_def)

section \<open>The interface of the recursive call\<close>

locale expr_parser =
  fixes E :: "nat \<Rightarrow> pstate \<Rightarrow> presult" and bound :: nat
  assumes E_contract: "pinv p \<Longrightarrow> remaining p < bound \<Longrightarrow>
    ensures (err_ok (srcLen p)) (E m p) (\<lambda>q. \<exists>n. moved p q [n] \<and> remaining q < remaining p)"
begin

lemma E_from:
  assumes "moved p0 p nds" "remaining p < bound"
  shows "ensures (err_ok (srcLen p0)) (E m p) (\<lambda>q. \<exists>n. moved p0 q (nds @ [n]) \<and> remaining q < remaining p)"
  by (rule lift_from [OF E_contract [OF moved_env(8) [OF assms(1)] assms(2)] assms(1)])

definition time_spec :: "nat \<Rightarrow> bool" where
  "time_spec k \<longleftrightarrow> (\<forall>p. pinv p \<longrightarrow> remaining p < bound \<longrightarrow> 2 * remaining p + 1 \<le> k \<longrightarrow> 0 < timeDepth p \<longrightarrow>
     ensures (err_ok (srcLen p)) (timeArgument E k p)
       (\<lambda>q. \<exists>n. moved p q [n] \<and> (remaining q < remaining p \<and> timeArg (args p) (ulower p) (utrim p) n)))"

definition args_spec :: "nat \<Rightarrow> bool" where
  "args_spec k \<longleftrightarrow> (\<forall>p q name as. moved p q as \<longrightarrow> remaining q < bound \<longrightarrow> 2 * remaining q + 2 \<le> k \<longrightarrow>
     (isTime name \<longrightarrow> 0 < timeDepth p) \<longrightarrow> timeArgs p name as \<longrightarrow>
     ensures (err_ok (srcLen p)) (callArgs E k name (length as) q)
       (\<lambda>(c, r). \<exists>as. moved p r as \<and> c = length as \<and> timeArgs p name as \<and> at_op r '')'' \<and> remaining r \<le> remaining q))"

definition call_spec :: "nat \<Rightarrow> bool" where
  "call_spec k \<longleftrightarrow> (\<forall>p name pos. pinv p \<longrightarrow> remaining p \<le> bound \<longrightarrow> at_op p ''('' \<longrightarrow> 2 * remaining p + 1 \<le> k \<longrightarrow>
     pos \<le> srcLen p \<longrightarrow>
     ensures (err_ok (srcLen p)) (pcall E k name pos p)
       (\<lambda>q. \<exists>n. moved p q [n] \<and> (remaining q < remaining p \<and> (\<exists>as. n = Call name as))))"

lemma time_specD:
  "time_spec k \<Longrightarrow> pinv p \<Longrightarrow> remaining p < bound \<Longrightarrow> 2 * remaining p + 1 \<le> k \<Longrightarrow> 0 < timeDepth p \<Longrightarrow>
     ensures (err_ok (srcLen p)) (timeArgument E k p)
       (\<lambda>q. \<exists>n. moved p q [n] \<and> (remaining q < remaining p \<and> timeArg (args p) (ulower p) (utrim p) n))"
  by (simp add: time_spec_def)

lemma args_specD:
  "args_spec k \<Longrightarrow> moved p q as \<Longrightarrow> remaining q < bound \<Longrightarrow> 2 * remaining q + 2 \<le> k \<Longrightarrow>
     (isTime name \<Longrightarrow> 0 < timeDepth p) \<Longrightarrow> timeArgs p name as \<Longrightarrow>
     ensures (err_ok (srcLen p)) (callArgs E k name (length as) q)
       (\<lambda>(c, r). \<exists>as. moved p r as \<and> c = length as \<and> timeArgs p name as \<and> at_op r '')'' \<and> remaining r \<le> remaining q)"
  by (simp add: args_spec_def)

lemma call_specD:
  "call_spec k \<Longrightarrow> pinv p \<Longrightarrow> remaining p \<le> bound \<Longrightarrow> at_op p ''('' \<Longrightarrow> 2 * remaining p + 1 \<le> k \<Longrightarrow>
     pos \<le> srcLen p \<Longrightarrow>
     ensures (err_ok (srcLen p)) (pcall E k name pos p)
       (\<lambda>q. \<exists>n. moved p q [n] \<and> (remaining q < remaining p \<and> (\<exists>as. n = Call name as)))"
  by (simp add: call_spec_def)

lemma pcall_step:
  assumes "args_spec k"
  shows "call_spec (Suc k)"
  unfolding call_spec_def
proof (intro allI impI)
  fix p name pos
  assume p: "pinv p" "remaining p \<le> bound" "at_op p ''(''" "2 * remaining p + 1 \<le> Suc k" "pos \<le> srcLen p"
  show "ensures (err_ok (srcLen p)) (pcall E (Suc k) name pos p)
       (\<lambda>q. \<exists>n. moved p q [n] \<and> (remaining q < remaining p \<and> (\<exists>as. n = Call name as)))" (is "?G (pcall E (Suc k) name pos p)")
  proof (cases "map_of allowedFunctions name")
    case None
    with p(5) show ?thesis by (simp add: fail_at_def)
  next
    case (Some limits)
    have adv: "ensures (err_ok (srcLen p)) (advance p) (\<lambda>q. moved p q [] \<and> remaining q < remaining p)"
      using advance_tok [OF p(1)] p(3) by simp
    show ?thesis
      unfolding pcall.simps Some option.case
    proof (rule ensures_bind [OF adv], intro ensures_if)
      fix q
      assume "moved p q [] \<and> remaining q < remaining p"
      then have q: "moved p q []" "remaining q < remaining p" by auto
      show "?G (fail_at (tpos (tok q)) (ValMsg x))" for x using fail_from [OF q(1)] by simp
      then show "?G (fail_at (tpos (tok q)) (ValMsg x))" for x .
      have len: "srcLen q = srcLen p" using moved_srcLen [OF q(1)] .
      have "moved (argState name q) (argState name q) []"
        using moved_env(8) [OF q(1)] by (simp add: moved_refl)
      from args_specD [OF assms this, of name] q p(2,4) len
      have "ensures (err_ok (srcLen p)) (callArgs E k name 0 (argState name q))
         (\<lambda>(c, r). \<exists>as. moved (argState name q) r as \<and> c = length as \<and> timeArgs q name as \<and> at_op r '')''
            \<and> remaining r \<le> remaining q)"
        by (simp add: timeArgs_def) (simp add: argState_def)
      then show "?G (bindR (callArgs E k name 0
             (q\<lparr>timeDepth := if isTime name then Suc (timeDepth q) else timeDepth q\<rparr>))
           (\<lambda>(count, r). callFinish name pos limits (length (stack q)) count r))"
        unfolding argState_def [symmetric]
      proof (rule ensures_bind)
        fix cr
        assume "case cr of (c, r) \<Rightarrow> \<exists>as. moved (argState name q) r as \<and> c = length as
          \<and> timeArgs q name as \<and> at_op r '')'' \<and> remaining r \<le> remaining q"
        then obtain r as where cr: "cr = (length as, r)" "moved (argState name q) r as"
          "timeArgs q name as" "at_op r '')''" "remaining r \<le> remaining q" by auto
        have "ensures (err_ok (srcLen p)) (callFinish name pos limits (length (stack q)) (length as) r)
            (\<lambda>s. moved q s [Call name as] \<and> remaining s < remaining r)"
          using callFinish_ensures [OF cr(2,4) _ Some cr(3)] p(5) len by simp
        then show "?G (case cr of (count, r) \<Rightarrow> callFinish name pos limits (length (stack q)) count r)"
          using cr(1,5) q moved_trans [OF q(1), of _ "[_]"] by (fastforce elim!: ensures_mono)
      qed
    qed
  qed
qed

lemma callArgs_step:
  assumes "time_spec k" "args_spec k"
  shows "args_spec (Suc k)"
  unfolding args_spec_def
proof (intro allI impI)
  fix p q name as
  assume p: "moved p q as" "remaining q < bound" "2 * remaining q + 2 \<le> Suc k"
    "isTime name \<longrightarrow> 0 < timeDepth p" "timeArgs p name as"
  let ?Q = "\<lambda>(c, r). \<exists>as. moved p r as \<and> c = length as \<and> timeArgs p name as \<and> at_op r '')'' \<and> remaining r \<le> remaining q"
  have comma: "ensures (err_ok (srcLen p)) (if 0 < length as then expect '','' ''a comma between arguments'' q else Inr q)
      (\<lambda>r. moved p r as \<and> remaining r \<le> remaining q)"
    using p(1) by (auto intro!: expect_from [OF p(1), THEN ensures_mono])
  have arg: "ensures (err_ok (srcLen p)) (if isTime name then timeArgument E k r else E precedenceLowest r)
      (\<lambda>s. \<exists>n. moved p s (as @ [n]) \<and> remaining s < remaining r \<and> timeArgs p name (as @ [n]))"
    if r: "moved p r as" "remaining r \<le> remaining q" for r
  proof (cases "isTime name")
    case True
    have "timeDepth r = timeDepth p" using moved_env [OF r(1)] by simp
    then have "ensures (err_ok (srcLen r)) (timeArgument E k r)
       (\<lambda>q. \<exists>n. moved r q [n] \<and> (remaining q < remaining r \<and> timeArg (args p) (ulower p) (utrim p) n))"
      using time_specD [OF assms(1) moved_env(8) [OF r(1)]] p r True moved_env(3-5) [OF r(1)] by simp
    from lift_from [OF this r(1)] True p(5) show ?thesis
      by (auto simp: timeArgs_def elim!: ensures_mono)
  next
    case False
    with E_from [OF r(1)] r(2) p(2) show ?thesis by (auto simp: timeArgs_def elim!: ensures_mono)
  qed
  show "ensures (err_ok (srcLen p)) (callArgs E (Suc k) name (length as) q) ?Q"
    unfolding callArgs.simps
  proof (intro ensures_if ensures_bind [OF comma])
    show "ensures (err_ok (srcLen p)) (Inr (length as, q)) ?Q" if "at_op q '')''" using p that by auto
  next
    fix r
    assume "moved p r as \<and> remaining r \<le> remaining q"
    then have r: "moved p r as" "remaining r \<le> remaining q" by auto
    show "ensures (err_ok (srcLen p)) (bindR (if isTime name then timeArgument E k r else E precedenceLowest r)
       (\<lambda>r. if isTime name \<and> \<not> at_op r '','' \<and> \<not> at_op r '')'' then
            Inl (FErr (tpos (tok r)) (ValMsg (TimeArgBuilds (describe (tok r)))))
          else if tkind (tok r) = TokEOF then
            Inl (FErr (tpos (tok r)) (ValMsg (ArgsNeverClosed name)))
          else callArgs E k name (Suc (length as)) r)) ?Q"
    proof (intro ensures_bind [OF arg [OF r]] ensures_if)
      fix s
      assume "\<exists>n. moved p s (as @ [n]) \<and> remaining s < remaining r \<and> timeArgs p name (as @ [n])"
      then obtain n where s: "moved p s (as @ [n])" "remaining s < remaining r" "timeArgs p name (as @ [n])"
        by auto
      show "ensures (err_ok (srcLen p)) (Inl (FErr (tpos (tok s)) (ValMsg x))) ?Q" for x
        using tpos_from [OF s(1)] by simp
      then show "ensures (err_ok (srcLen p)) (Inl (FErr (tpos (tok s)) (ValMsg x))) ?Q" for x .
      show "ensures (err_ok (srcLen p)) (callArgs E k name (Suc (length as)) s) ?Q"
        using args_specD [OF assms(2) s(1) _ _ _ s(3)] s(2) r(2) p(2-4)
        by (fastforce elim!: ensures_mono)
    qed
  qed
qed

lemma call_from:
  assumes "call_spec k" "moved p0 p nds" "remaining p \<le> bound" "at_op p ''(''" "2 * remaining p + 1 \<le> k"
    and "pos \<le> srcLen p0"
  shows "ensures (err_ok (srcLen p0)) (pcall E k name pos p)
    (\<lambda>q. \<exists>n. moved p0 q (nds @ [n]) \<and> (remaining q < remaining p \<and> (\<exists>as. n = Call name as)))"
  by (rule lift_from [OF call_specD [OF assms(1) moved_env(8) [OF assms(2)] assms(3-5)] assms(2)])
     (simp add: assms(6) moved_srcLen [OF assms(2)])

lemma timeArgument_step:
  assumes "call_spec k"
  shows "time_spec (Suc k)"
  unfolding time_spec_def
proof (intro allI impI)
  fix p
  assume p: "pinv p" "remaining p < bound" "2 * remaining p + 1 \<le> Suc k" "0 < timeDepth p"
  let ?T = "timeArg (args p) (ulower p) (utrim p)"
  let ?G = "\<lambda>r. ensures (err_ok (srcLen p)) r (\<lambda>q. \<exists>n. moved p q [n] \<and> (remaining q < remaining p \<and> ?T n))"
  have name: "?G (bindR (advance q) (\<lambda>r.
      if \<not> at_op r ''('' then namedColumn (ttext (tok q)) (tpos (tok q)) r
      else if \<not> isTime w then fail_at (tpos (tok q)) (ValMsg (TimeArgCall w))
      else pcall E k w (tpos (tok q)) r))"
    if q: "moved p q []" "remaining q \<le> remaining p" "tkind (tok q) \<noteq> TokEOF" for q w
  proof (intro ensures_bind [OF advance_from [OF q(1,3)]] ensures_if)
    fix r
    assume "moved p r [] \<and> remaining r < remaining q"
    then have r: "moved p r []" "remaining r < remaining p" using q(2) by auto
    show "?G (namedColumn (ttext (tok q)) (tpos (tok q)) r)"
      using namedColumn_from [OF r(1) tpos_from [OF q(1)]] r(2) by (fastforce elim!: ensures_mono)
    show "?G (fail_at (tpos (tok q)) (ValMsg (TimeArgCall w)))" using fail_from [OF q(1)] by simp
    assume "\<not> \<not> at_op r ''(''" "\<not> \<not> isTime w"
    then show "?G (pcall E k w (tpos (tok q)) r)"
      using r p(2,3) by (auto intro!: call_from [OF assms r(1) _ _ _ tpos_from [OF q(1)], THEN ensures_mono])
  qed
  show "?G (timeArgument E (Suc k) p)"
    unfolding timeArgument.simps
  proof (rule ensures_bind [OF timeSign_ensures [OF moved_refl [OF p(1)]]])
    fix x
    assume "case x of (sign, q) \<Rightarrow> moved p q [] \<and> remaining q \<le> remaining p
       \<and> (sign = [] \<or> (sign = ''-'' \<or> sign = ''+'') \<and> tkind (tok q) = TokNumber)"
    then obtain sign q where x: "x = (sign, q)" and q: "moved p q []" "remaining q \<le> remaining p"
      and sign: "sign = [] \<or> (sign = ''-'' \<or> sign = ''+'') \<and> tkind (tok q) = TokNumber" by (cases x) auto
    have lit: "?G (bindR (consumeLiteral q) (\<lambda>r. Inr (signed_fold sign r)))"
      if "tkind (tok q) \<in> {TokString, TokNumber, TokParam}"
      using signedLiteral_from [OF q(1) _ sign] that p(4) q(2) by (fastforce elim!: ensures_mono)
    have col: "?G (column (ttext (tok q)) (tpos (tok q)) q)" if "tkind (tok q) \<noteq> TokEOF"
      using column_from [OF q(1) that] q(2) by (fastforce elim!: ensures_mono)
    have null: "?G (advance (push (Literal LiteralNull s) q))" if "tkind (tok q) \<noteq> TokEOF" for s
      using word_from [OF q(1) that, of LiteralNull s] q(2) by (fastforce elim!: ensures_mono)
    have fail: "?G (fail_at (tpos (tok q)) (ValMsg m))" "?G (fail_at (tpos (tok q)) (OpMsg m'))" for m m'
      using fail_from [OF q(1)] by simp_all
    show "?G (case x of (sign, p) \<Rightarrow> case tkind (tok p) of
         TokString \<Rightarrow> bindR (consumeLiteral p) (\<lambda>q. Inr (signed_fold sign q))
       | TokNumber \<Rightarrow> bindR (consumeLiteral p) (\<lambda>q. Inr (signed_fold sign q))
       | TokParam \<Rightarrow> bindR (consumeLiteral p) (\<lambda>q. Inr (signed_fold sign q))
       | TokQuotedIdent \<Rightarrow> column (ttext (tok p)) (tpos (tok p)) p
       | TokIdent \<Rightarrow>
           (if word_of p = ''null'' then advance (push (Literal LiteralNull (ttext (tok p))) p)
            else if word_of p \<in> set rejectedKeywords then
              fail_at (tpos (tok p)) (OpMsg (RejectedKeyword (word_of p)))
            else if word_of p = ''case'' \<or> word_of p \<in> set infixWords then
              fail_at (tpos (tok p)) (ValMsg (TimeArgBuilds (describe (tok p))))
            else
              bindR (advance p) (\<lambda>q.
                if \<not> at_op q ''('' then namedColumn (ttext (tok p)) (tpos (tok p)) q
                else if \<not> isTime (word_of p) then
                  fail_at (tpos (tok p)) (ValMsg (TimeArgCall (word_of p)))
                else pcall E k (word_of p) (tpos (tok p)) q))
       | _ \<Rightarrow> fail_at (tpos (tok p)) (ValMsg TimeArgComputed))"
      unfolding x prod.case
      by (cases "tkind (tok q)") (simp_all only: token_kind.case, use lit col null fail name [OF q] in simp_all)
  qed
qed

lemma call_specs: "time_spec k \<and> args_spec k \<and> call_spec k"
proof (induction k)
  case 0
  then show ?case by (simp add: time_spec_def args_spec_def call_spec_def)
next
  case (Suc k)
  then show ?case using timeArgument_step callArgs_step pcall_step by simp
qed

lemma caseOperand_held:
  assumes "held p q nds" "remaining q < bound"
  shows "ensures (err_ok (srcLen p)) (caseOperand E q)
    (\<lambda>(x, r). held p r (nds @ (case x of None \<Rightarrow> [] | Some y \<Rightarrow> [y])) \<and> remaining r \<le> remaining q)"
  unfolding caseOperand_def held_srcLen [OF assms(1), symmetric]
  by (intro ensures_if ensures_bind [OF E_contract [OF held_pinv [OF assms(1)] assms(2)]])
     (use assms(1) held_take [OF assms(1)] pop_moved in \<open>auto split: prod.splits\<close>)

lemma caseElse_held:
  assumes "held p q nds" "remaining q < bound"
  shows "ensures (err_ok (srcLen p)) (caseElse E q)
    (\<lambda>(x, r). held p r (nds @ (case x of None \<Rightarrow> [] | Some y \<Rightarrow> [y])) \<and> remaining r \<le> remaining q)"
  unfolding caseElse_def held_srcLen [OF assms(1), symmetric]
proof (intro ensures_if)
  have m: "moved q q []" using moved_refl held_pinv assms(1) by blast
  assume "at_kw q ''else''"
  then have eofq: "tkind (tok q) \<noteq> TokEOF" by simp
  show "ensures (err_ok (srcLen q)) (bindR (advance q) (\<lambda>q. bindR (E precedenceLowest q) (\<lambda>r. Inr (pop r))))
    (\<lambda>(x, r). held p r (nds @ (case x of None \<Rightarrow> [] | Some y \<Rightarrow> [y])) \<and> remaining r \<le> remaining q)"
  proof (rule ensures_bind [OF advance_from [OF m eofq]], rule ensures_bind [OF E_from])
    fix r
    assume "moved q r [] \<and> remaining r < remaining q"
    with assms(2) show "moved q r []" "remaining r < bound" by auto
    fix s
    assume "\<exists>n. moved q s ([] @ [n]) \<and> remaining s < remaining r"
    then obtain n where "moved q s [n]" by auto
    then show "ensures (err_ok (srcLen q)) (Inr (pop s))
      (\<lambda>(x, r). held p r (nds @ (case x of None \<Rightarrow> [] | Some y \<Rightarrow> [y])) \<and> remaining r \<le> remaining q)"
      using held_take [OF assms(1)] pop_moved moved_env(9) by auto
  qed
qed (use assms(1) in auto)

abbreviation branchNodes :: "(node \<times> node) list \<Rightarrow> node list" where
  "branchNodes bs \<equiv> concat (map (\<lambda>b. [fst b, snd b]) bs)"

lemma whenLoop_held:
  assumes "held p q (nds @ branchNodes bs)" "remaining q < bound" "remaining q < k"
  shows "ensures (err_ok (srcLen p)) (whenLoop E k bs q)
    (\<lambda>(bs', r). held p r (nds @ branchNodes bs') \<and> remaining r \<le> remaining q
       \<and> (bs \<noteq> [] \<or> at_kw q ''when'' \<longrightarrow> bs' \<noteq> []))"
  using assms
proof (induction k arbitrary: q bs)
  case (Suc k)
  let ?Q = "\<lambda>(bs', r). held p r (nds @ branchNodes bs') \<and> remaining r \<le> remaining q
       \<and> (bs \<noteq> [] \<or> at_kw q ''when'' \<longrightarrow> bs' \<noteq> [])"
  have len: "srcLen p = srcLen q" using held_srcLen Suc.prems(1) by simp
  have m: "moved q q []" using moved_refl held_pinv Suc.prems(1) by blast
  show ?case
    unfolding whenLoop.simps
  proof (intro ensures_if)
    show "ensures (err_ok (srcLen p)) (Inr (bs, q)) ?Q" if "\<not> at_kw q ''when''" using Suc.prems that by auto
    assume "\<not> \<not> at_kw q ''when''"
    then have eofq: "tkind (tok q) \<noteq> TokEOF" by simp
    show "ensures (err_ok (srcLen p)) (bindR (advance q) (\<lambda>p1.
        bindR (E precedenceLowest p1) (\<lambda>p2.
          if \<not> at_kw p2 ''then'' then Inl (FErr (tpos (tok p2)) (ValMsg (WhenNeedsThen (describe (tok p2)))))
          else
            bindR (advance p2) (\<lambda>p3.
            bindR (E precedenceLowest p3) (\<lambda>p4.
              case takeN 2 p4 of
                ([a, b], p5) \<Rightarrow> whenLoop E k (bs @ [(a, b)]) p5
              | (_, p5) \<Rightarrow> whenLoop E k bs p5))))) ?Q"
      unfolding len
    proof (rule ensures_bind [OF advance_from [OF m eofq]], intro ensures_bind [OF E_from] ensures_if)
      fix p1
      assume "moved q p1 [] \<and> remaining p1 < remaining q"
      with Suc.prems(2) show p1: "moved q p1 []" "remaining p1 < bound" by auto
      fix p2
      assume "\<exists>n. moved q p2 ([] @ [n]) \<and> remaining p2 < remaining p1"
      with \<open>moved q p1 [] \<and> remaining p1 < remaining q\<close> obtain a where
        p2: "moved q p2 [a]" "remaining p2 < remaining q" by auto
      show "ensures (err_ok (srcLen q)) (Inl (FErr (tpos (tok p2)) (ValMsg x))) ?Q" for x
        using tpos_from [OF p2(1)] by simp
      assume "\<not> \<not> at_kw p2 ''then''"
      then have eofp2: "tkind (tok p2) \<noteq> TokEOF" by simp
      show "ensures (err_ok (srcLen q)) (bindR (advance p2) (\<lambda>p3.
            bindR (E precedenceLowest p3) (\<lambda>p4.
              case takeN 2 p4 of
                ([a, b], p5) \<Rightarrow> whenLoop E k (bs @ [(a, b)]) p5
              | (_, p5) \<Rightarrow> whenLoop E k bs p5))) ?Q"
      proof (rule ensures_bind [OF advance_from [OF p2(1) eofp2]], intro ensures_bind [OF E_from])
        fix p3
        assume p3: "moved q p3 [a] \<and> remaining p3 < remaining p2"
        with p2 Suc.prems(2) show "moved q p3 [a]" "remaining p3 < bound" by auto
        fix p4
        assume "\<exists>n. moved q p4 ([a] @ [n]) \<and> remaining p4 < remaining p3"
        with p2 p3 obtain b where p4: "moved q p4 [a, b]" "remaining p4 < remaining q" by auto
        have take: "takeN 2 p4 = ([a, b], p4\<lparr>stack := stack q\<rparr>)"
          using takeN_moved [OF p4(1), of 1] by (simp add: numeral_2_eq_2)
        have "held p (p4\<lparr>stack := stack q\<rparr>) (nds @ branchNodes (bs @ [(a, b)]))"
          using held_take [OF Suc.prems(1) p4(1)] by simp
        from Suc.IH [OF this] p4(2) Suc.prems(2,3)
        show "ensures (err_ok (srcLen q)) (case takeN 2 p4 of
                ([a, b], p5) \<Rightarrow> whenLoop E k (bs @ [(a, b)]) p5
              | (_, p5) \<Rightarrow> whenLoop E k bs p5) ?Q"
          unfolding take len by (auto elim!: ensures_mono)
      qed
    qed
  qed
qed simp

abbreviation yields :: "pstate \<Rightarrow> presult \<Rightarrow> bool" where
  "yields p r \<equiv> ensures (err_ok (srcLen p)) r (\<lambda>q. \<exists>n. moved p q [n] \<and> remaining q < remaining p)"

lemma fold1_yields:
  "moved p q [n] \<Longrightarrow> remaining q < remaining p \<Longrightarrow> okFor p (f n) \<Longrightarrow> params_of (f n) = params_of n
     \<Longrightarrow> yields p (Inr (fold1 f q))"
  using fold1_moved [of p q n f] by auto

lemma loopFuel_enough: "srcLen q = n \<Longrightarrow> remaining q \<le> n \<and> 2 * remaining q + 4 \<le> loopFuel q"
  by (auto simp: remaining_def loopFuel_def)

lemma branch_params:
  "concat (map params_of (branchNodes bs)) = concat (map (\<lambda>b. params_of (fst b) @ params_of (snd b)) bs)"
  by (induction bs) auto

lemma case_node:
  assumes "held p q ((case x of None \<Rightarrow> [] | Some y \<Rightarrow> [y]) @ branchNodes bs
      @ (case e of None \<Rightarrow> [] | Some y \<Rightarrow> [y]))"
    and "bs \<noteq> []" "remaining q < remaining p"
  shows "yields p (pushCase x bs e q)"
proof -
  let ?nds = "(case x of None \<Rightarrow> [] | Some y \<Rightarrow> [y]) @ branchNodes bs @ (case e of None \<Rightarrow> [] | Some y \<Rightarrow> [y])"
  have m: "moved q q []" using moved_refl held_pinv assms(1) by blast
  have ok: "list_all (okFor p) ?nds" using assms(1) by (simp add: held_def)
  then have "okFor p (Case x bs e)"
    using assms(2) by (auto simp: list_all_iff split: option.splits)
  moreover have "params_of (Case x bs e) = concat (map params_of ?nds)"
    by (simp add: branch_params split: option.splits)
  ultimately have push: "moved p (push (Case x bs e) r) [Case x bs e]" if "moved q r []" for r
    using held_push [OF held_step [OF assms(1) that]] by blast
  show ?thesis
    unfolding pushCase_def held_srcLen [OF assms(1), symmetric]
    using fail_from [OF m] assms(3) push
    by (intro ensures_if ensures_bind [OF advance_from [OF m]]) fastforce+
qed

lemma caseExpression_yields:
  assumes "pinv p" "remaining p \<le> bound" "tkind (tok p) \<noteq> TokEOF"
  shows "yields p (caseExpression E p)"
  unfolding caseExpression_def
proof (rule ensures_bind [OF advance_tok [OF assms(1,3)]])
  fix p1
  assume p1: "moved p p1 [] \<and> remaining p1 < remaining p"
  then have h1: "held p p1 []" "remaining p1 < bound"
    using held_step [OF held_refl [OF assms(1)]] assms(2) by auto
  show "yields p (bindR (caseOperand E p1) (\<lambda>(operand, p2).
       if \<not> at_kw p2 ''when'' then fail_at (tpos (tok p2)) (ValMsg (CaseNeedsWhen (describe (tok p2))))
       else
         bindR (whenLoop E (loopFuel p2) [] p2) (\<lambda>(branches, p3).
         bindR (caseElse E p3) (\<lambda>(els, p4). pushCase operand branches els p4))))"
  proof (rule ensures_bind [OF caseOperand_held [OF h1]], clarify, intro ensures_if)
    fix x :: "node option" and p2
    assume le2: "remaining p2 \<le> remaining p1"
    let ?x = "case x of None \<Rightarrow> [] | Some y \<Rightarrow> [y]"
    assume "held p p2 ([] @ ?x)"
    then have h2: "held p p2 (?x @ branchNodes [])" by simp
    show "yields p (fail_at (tpos (tok p2)) (ValMsg m))" for m
      using fail_at_ensures [OF held_pinv [OF h2] _ held_srcLen [OF h2]] by simp
    assume whn: "\<not> \<not> at_kw p2 ''when''"
    have k2: "remaining p2 < bound" "remaining p2 < loopFuel p2"
      using le2 h1(2) loopFuel_enough [of p2] by auto
    show "yields p (bindR (whenLoop E (loopFuel p2) [] p2) (\<lambda>(branches, p3).
         bindR (caseElse E p3) (\<lambda>(els, p4). pushCase x branches els p4)))"
    proof (rule ensures_bind [OF whenLoop_held [OF h2 k2]], clarify)
      fix bs p3
      assume h3: "held p p3 (?x @ branchNodes bs)" "remaining p3 \<le> remaining p2"
        and "[] \<noteq> [] \<or> at_kw p2 ''when'' \<longrightarrow> bs \<noteq> []"
      then have bs: "bs \<noteq> []" using whn by simp
      have "remaining p3 < bound" using h3(2) k2 by simp
      from caseElse_held [OF h3(1) this]
      show "yields p (bindR (caseElse E p3) (\<lambda>(els, p4). pushCase x bs els p4))"
        by (rule ensures_bind) (use case_node [OF _ bs] h3(2) le2 p1 in auto)
    qed
  qed
qed

lemma sign_yields:
  assumes "pinv p" "remaining p \<le> bound" "tkind (tok p) \<noteq> TokEOF" "op = ''-'' \<or> op = ''+'' \<or> op = ''not''"
  shows "yields p (bindR (advance p) (\<lambda>q. bindR (E m q) (\<lambda>r. Inr (fold1 (Unary op) r))))"
proof (rule ensures_bind [OF advance_tok [OF assms(1,3)]], rule ensures_bind [OF E_from])
  fix q
  assume q: "moved p q [] \<and> remaining q < remaining p"
  then show "moved p q []" "remaining q < bound" using assms(2) by auto
  fix r
  assume "\<exists>n. moved p r ([] @ [n]) \<and> remaining r < remaining q"
  with q obtain n where "moved p r [n]" "remaining r < remaining p" by auto
  then show "yields p (Inr (fold1 (Unary op) r))"
    using assms(4) moved_ok [of p r "[n]" n] by (intro fold1_yields) auto
qed

lemma parenthesised_yields:
  assumes "pinv p" "remaining p \<le> bound" "tkind (tok p) \<noteq> TokEOF"
  shows "yields p (parenthesised E p)"
  unfolding parenthesised_def
proof (rule ensures_bind [OF advance_tok [OF assms(1,3)]], intro ensures_if ensures_bind [OF E_from])
  fix q
  assume q: "moved p q [] \<and> remaining q < remaining p"
  then show m: "moved p q []" and "remaining q < bound" using assms(2) by auto
  show "yields p (fail_at (tpos (tok q)) (OpMsg x))" for x using fail_from [OF m] by simp
  fix r
  assume "\<exists>n. moved p r ([] @ [n]) \<and> remaining r < remaining q"
  with q obtain n where r: "moved p r [n]" "remaining r < remaining p" by auto
  show "yields p (bindR (expect '')'' ''a closing parenthesis'' r) (\<lambda>r2. Inr (fold1 Paren r2)))"
    by (rule ensures_bind [OF expect_from [OF r(1)]], rule fold1_yields [of _ _ n])
       (use r moved_ok [of p _ "[n]" n] in auto)
qed

lemma parseIdentifier_yields:
  assumes "pinv p" "remaining p \<le> bound" "tkind (tok p) \<noteq> TokEOF"
  shows "yields p (parseIdentifier E p)"
  unfolding parseIdentifier_def Let_def
proof (intro ensures_if)
  have m: "moved p p []" using moved_refl [OF assms(1)] .
  show "yields p (fail_at (tpos (tok p)) (OpMsg x))" for x using fail_from [OF m] by simp
  show "yields p (fail_at (tpos (tok p)) (ValMsg x))" for x using fail_from [OF m] by simp
  show "yields p (caseExpression E p)" by (rule caseExpression_yields [OF assms])
  show "yields p (advance (push (Literal (literalKindOf (ulower p) (tok p)) (ttext (tok p))) p))"
    using word_from [OF m assms(3)] by (fastforce elim!: ensures_mono)
  show "yields p (bindR (advance p) (\<lambda>q. if at_op q ''('' then pcall E (loopFuel q) (word_of p) (tpos (tok p)) q
      else namedColumn (ttext (tok p)) (tpos (tok p)) q))"
  proof (rule ensures_bind [OF advance_tok [OF assms(1,3)]], intro ensures_if)
    fix q
    assume "moved p q [] \<and> remaining q < remaining p"
    then have q: "moved p q []" "remaining q < remaining p" by auto
    show "yields p (namedColumn (ttext (tok p)) (tpos (tok p)) q)"
      using namedColumn_from [OF q(1) tpos_le [OF assms(1)]] q(2) by (fastforce elim!: ensures_mono)
    assume "at_op q ''(''"
    then show "yields p (pcall E (loopFuel q) (word_of p) (tpos (tok p)) q)"
      using call_specs loopFuel_enough [of q] q assms(2)
      by (auto intro!: call_from [OF _ q(1) _ _ _ tpos_le [OF assms(1)], THEN ensures_mono])
  qed
qed

lemma prefix_yields:
  assumes "pinv p" "remaining p \<le> bound"
  shows "yields p (prefix E p)"
proof -
  have m: "moved p p []" using moved_refl [OF assms(1)] .
  have fail: "yields p (fail_at (tpos (tok p)) (ValMsg x))" for x using fail_from [OF m] by simp
  have lit: "yields p (consumeLiteral p)" if "tkind (tok p) \<noteq> TokEOF"
    using literal_from [OF m that] by (fastforce elim!: ensures_mono)
  have col: "yields p (column (ttext (tok p)) (tpos (tok p)) p)" if "tkind (tok p) \<noteq> TokEOF"
    using column_from [OF m that] by (fastforce elim!: ensures_mono)
  show ?thesis
    unfolding prefix_def
    using sign_yields [OF assms] sign_cases [of p] caseExpression_yields [OF assms]
      parenthesised_yields [OF assms] parseIdentifier_yields [OF assms] fail lit col
    by (intro ensures_if) (auto split: token_kind.split)
qed

abbreviation combines :: "pstate \<Rightarrow> pstate \<Rightarrow> presult \<Rightarrow> bool" where
  "combines p q r \<equiv> ensures (err_ok (srcLen p)) r (\<lambda>s. \<exists>n. moved p s [n] \<and> remaining s < remaining q)"

lemma fold2_combines:
  "moved p r [a, b] \<Longrightarrow> remaining r < remaining q \<Longrightarrow> okFor p (f a b)
     \<Longrightarrow> params_of (f a b) = params_of a @ params_of b \<Longrightarrow> combines p q (Inr (fold2 f r))"
  using fold2_moved [of p r a b f] by auto

lemma fold3_combines:
  "moved p r [a, b, c] \<Longrightarrow> remaining r < remaining q \<Longrightarrow> okFor p (f a b c)
     \<Longrightarrow> params_of (f a b c) = params_of a @ params_of b @ params_of c \<Longrightarrow> combines p q (Inr (fold3 f r))"
  using fold3_moved [of p r a b c f] by auto

lemma binary_combines:
  assumes "moved p q [l]" "remaining q \<le> bound" "tkind (tok q) \<noteq> TokEOF" "word_of q \<in> set binaryOps"
  shows "combines p q (binary E prec q)"
  unfolding binary_def
proof (rule ensures_bind [OF advance_from [OF assms(1,3)]], rule ensures_bind [OF E_from])
  fix r
  assume r: "moved p r [l] \<and> remaining r < remaining q"
  then show "moved p r [l]" "remaining r < bound" using assms(2) by auto
  fix s
  assume "\<exists>n. moved p s ([l] @ [n]) \<and> remaining s < remaining r"
  with r obtain n where "moved p s [l, n]" "remaining s < remaining q" by auto
  then show "combines p q (Inr (fold2 (Binary (word_of q)) s))"
    using assms(4) moved_ok [of p s "[l, n]"] by (intro fold2_combines) auto
qed

lemma isOperator_combines:
  assumes "moved p q [l]" "remaining q \<le> bound" "tkind (tok q) \<noteq> TokEOF"
  shows "combines p q (isOperator E prec q)"
  unfolding isOperator_def
proof (rule ensures_bind [OF advance_from [OF assms(1,3)]])
  fix r
  assume r: "moved p r [l] \<and> remaining r < remaining q"
  then have "ensures (err_ok (srcLen p)) (if at_kw r ''not'' then advance r else Inr r)
      (\<lambda>s. moved p s [l] \<and> remaining s < remaining q)"
    by (auto intro!: advance_from [THEN ensures_mono])
  then show "combines p q (bindR (if at_kw r ''not'' then advance r else Inr r) (\<lambda>s.
       if at_kw s ''distinct'' then fail_at (tpos (tok s)) (OpMsg IsDistinctFrom)
       else bindR (E prec s) (\<lambda>s2. Inr (fold2 (Is (at_kw r ''not'')) s2))))"
  proof (rule ensures_bind, intro ensures_if)
    fix s
    assume s: "moved p s [l] \<and> remaining s < remaining q"
    then have m: "moved p s [l]" "remaining s < bound" using assms(2) by auto
    show "combines p q (fail_at (tpos (tok s)) (OpMsg x))" for x using fail_from [OF m(1)] by simp
    show "combines p q (bindR (E prec s) (\<lambda>s2. Inr (fold2 (Is (at_kw r ''not'')) s2)))"
    proof (rule ensures_bind [OF E_from [OF m]])
      fix u
      assume "\<exists>n. moved p u ([l] @ [n]) \<and> remaining u < remaining s"
      with s obtain n where "moved p u [l, n]" "remaining u < remaining q" by auto
      then show "combines p q (Inr (fold2 (Is (at_kw r ''not'')) u))"
        using moved_ok [of p u "[l, n]"] by (intro fold2_combines) auto
    qed
  qed
qed

lemma betweenNegated_combines:
  assumes "moved p q [l]" "remaining q \<le> bound" "tkind (tok q) \<noteq> TokEOF"
  shows "combines p q (betweenNegated E prec neg q)"
  unfolding betweenNegated_def
proof (rule ensures_bind [OF advance_from [OF assms(1,3)]], intro ensures_bind [OF E_from] ensures_if)
  fix r
  assume r: "moved p r [l] \<and> remaining r < remaining q"
  then show "moved p r [l]" "remaining r < bound" using assms(2) by auto
  fix s
  assume "\<exists>n. moved p s ([l] @ [n]) \<and> remaining s < remaining r"
  with r obtain a where s: "moved p s [l, a]" "remaining s < remaining q" by auto
  show "combines p q (fail_at (tpos (tok s)) (OpMsg x))" for x using fail_from [OF s(1)] by simp
  assume "\<not> \<not> at_kw s ''and''"
  then have eof: "tkind (tok s) \<noteq> TokEOF" by simp
  show "combines p q (bindR (advance s) (\<lambda>r2. bindR (E precedenceAnd r2) (\<lambda>r3. Inr (fold3 (Between neg) r3))))"
  proof (rule ensures_bind [OF advance_from [OF s(1) eof]], rule ensures_bind [OF E_from])
    fix u
    assume u: "moved p u [l, a] \<and> remaining u < remaining s"
    then show "moved p u [l, a]" "remaining u < bound" using assms(2) s(2) by auto
    fix v
    assume "\<exists>n. moved p v ([l, a] @ [n]) \<and> remaining v < remaining u"
    with u s obtain b where "moved p v [l, a, b]" "remaining v < remaining q" by auto
    then show "combines p q (Inr (fold3 (Between neg) v))"
      using moved_ok [of p v "[l, a, b]"] by (intro fold3_combines) auto
  qed
qed

lemma likeNegated_combines:
  assumes "moved p q [l]" "remaining q \<le> bound" "tkind (tok q) \<noteq> TokEOF"
  shows "combines p q (likeNegated E prec neg q)"
  unfolding likeNegated_def
proof (rule ensures_bind [OF advance_from [OF assms(1,3)]], intro ensures_bind [OF E_from] ensures_if)
  fix r
  assume r: "moved p r [l] \<and> remaining r < remaining q"
  then show "moved p r [l]" "remaining r < bound" using assms(2) by auto
  fix s
  assume "\<exists>n. moved p s ([l] @ [n]) \<and> remaining s < remaining r"
  with r obtain a where s: "moved p s [l, a]" "remaining s < remaining q" by auto
  show "combines p q (Inr (fold2 (\<lambda>a b. Like neg a b None) s))"
    using s moved_ok [of p s "[l, a]"] by (intro fold2_combines) auto
  assume "at_kw s ''escape''"
  then have eof: "tkind (tok s) \<noteq> TokEOF" by simp
  show "combines p q (bindR (advance s) (\<lambda>r2. bindR (escapeCheck r2) (\<lambda>_.
      bindR (consumeLiteral r2) (\<lambda>r3. Inr (fold3 (\<lambda>a b c. Like neg a b (Some c)) r3)))))"
  proof (rule ensures_bind [OF advance_from [OF s(1) eof]])
    fix u
    assume u: "moved p u [l, a] \<and> remaining u < remaining s"
    show "combines p q (bindR (escapeCheck u) (\<lambda>_.
      bindR (consumeLiteral u) (\<lambda>r3. Inr (fold3 (\<lambda>a b c. Like neg a b (Some c)) r3))))"
    proof (rule ensures_bind [OF escapeCheck_ensures [OF conjunct1 [OF u]]], rule ensures_bind [OF literal_from])
      show "moved p u [l, a]" using u by simp
      assume e: "tkind (tok u) \<noteq> TokEOF \<and> escapeArg (args p) (literalNode u)"
      then show "tkind (tok u) \<noteq> TokEOF" by simp
      fix v
      assume "moved p v ([l, a] @ [literalNode u]) \<and> remaining v < remaining u
        \<and> (0 < timeDepth p \<longrightarrow> tkind (tok u) \<in> {TokString, TokNumber, TokParam}
            \<longrightarrow> timeArg (args p) (ulower p) (utrim p) (literalNode u))"
      then have "moved p v [l, a, literalNode u]" "remaining v < remaining q" using u s(2) by auto
      then show "combines p q (Inr (fold3 (\<lambda>a b c. Like neg a b (Some c)) v))"
        using e moved_ok [of p v "[l, a, literalNode u]"] by (intro fold3_combines) auto
    qed
  qed
qed

lemma inList_fold:
  assumes "moved p q [l]" "moved q r nds" "list_all listItem nds" "remaining r < n"
  shows "ensures B (case takeFrom (length (stack q)) r of (list, s) \<Rightarrow> Inr (fold1 (\<lambda>x. In neg x list) s))
    (\<lambda>s. \<exists>n'. moved p s [n'] \<and> remaining s < n)"
proof -
  have m: "moved p r (l # nds)" using moved_trans [OF assms(1,2)] by simp
  have st: "stack q = stack p @ [l]" "stack r = stack q @ nds" using assms(1,2) moved_env(10) by blast+
  then have "takeFrom (length (stack q)) r = (nds, r\<lparr>stack := stack p @ [l]\<rparr>)" by (simp add: takeFrom_def)
  moreover have "fold1 f (r\<lparr>stack := stack p @ [l]\<rparr>) = push (f l) (r\<lparr>stack := stack p\<rparr>)" for f
    by (simp add: fold1_def pop_def takeN_def)
  moreover have "moved p (push (In neg l nds) (r\<lparr>stack := stack p\<rparr>)) [In neg l nds]"
    using refold [OF m] assms(3) moved_ok [OF m, of l] by simp
  ultimately show ?thesis using assms(4) by auto
qed

lemma inListNegated_combines:
  assumes "moved p q [l]" "remaining q \<le> bound" "tkind (tok q) \<noteq> TokEOF"
  shows "combines p q (inListNegated prec neg q)"
  unfolding inListNegated_def
proof (rule ensures_bind [OF advance_from [OF assms(1,3)]], intro ensures_if)
  fix r
  assume r: "moved p r [l] \<and> remaining r < remaining q"
  show "combines p q (fail_at (tpos (tok r)) (OpMsg x))" for x using fail_from [OF conjunct1 [OF r]] by simp
  assume "\<not> \<not> at_op r ''(''"
  then have eof: "tkind (tok r) \<noteq> TokEOF" by simp
  show "combines p q (bindR (advance r) (\<lambda>r. if at_op r '')'' then bindR (advance r) (\<lambda>r2. Inr (fold1 (\<lambda>l. In neg l []) r2))
           else
             bindR (listLoop (loopFuel r) r) (\<lambda>r2.
             bindR (expect '')'' ''a closing parenthesis after the list of values'' r2) (\<lambda>r3.
               case takeFrom (length (stack r)) r3 of (list, r4) \<Rightarrow> Inr (fold1 (\<lambda>l. In neg l list) r4)))))"
  proof (rule ensures_bind [OF advance_from [OF conjunct1 [OF r] eof]], intro ensures_if)
    fix s
    assume "moved p s [l] \<and> remaining s < remaining r"
    then have s: "moved p s [l]" "remaining s < remaining q" using r by auto
    then have ms: "moved s s []" using moved_refl moved_env(8) by blast
    show "combines p q (bindR (advance s) (\<lambda>r2. Inr (fold1 (\<lambda>l. In neg l []) r2)))" if "at_op s '')''"
    proof (rule ensures_bind [OF advance_from [OF s(1)]])
      show "tkind (tok s) \<noteq> TokEOF" using that by simp
      fix u
      assume "moved p u [l] \<and> remaining u < remaining s"
      then show "combines p q (Inr (fold1 (\<lambda>l. In neg l []) u))"
        using fold1_moved [of p u l "\<lambda>l. In neg l []"] moved_ok [of p u "[l]" l] s(2) by auto
    qed
    have len: "srcLen p = srcLen s" using moved_srcLen [OF s(1)] by simp
    have fuel: "remaining s < loopFuel s" using loopFuel_enough [of s] by simp
    show "combines p q (bindR (listLoop (loopFuel s) s) (\<lambda>r2.
             bindR (expect '')'' ''a closing parenthesis after the list of values'' r2) (\<lambda>r3.
               case takeFrom (length (stack s)) r3 of (list, r4) \<Rightarrow> Inr (fold1 (\<lambda>l. In neg l list) r4))))"
      unfolding len
    proof (rule ensures_bind [OF listLoop_from [OF ms fuel]])
      fix u
      assume "\<exists>nds. moved s u nds \<and> remaining u < remaining s \<and> list_all listItem nds"
      then obtain nds where u: "moved s u nds" "remaining u < remaining s" "list_all listItem nds" by auto
      show "ensures (err_ok (srcLen s)) (bindR (expect '')'' ''a closing parenthesis after the list of values'' u) (\<lambda>r3.
               case takeFrom (length (stack s)) r3 of (list, r4) \<Rightarrow> Inr (fold1 (\<lambda>l. In neg l list) r4)))
             (\<lambda>s. \<exists>n. moved p s [n] \<and> remaining s < remaining q)"
        by (rule ensures_bind [OF expect_from [OF u(1)]], rule inList_fold [OF s(1) _ u(3)])
           (use u(2) s(2) in auto)
    qed simp
  qed
qed

lemma negatedOperator_combines:
  assumes "moved p q [l]" "remaining q \<le> bound" "tkind (tok q) \<noteq> TokEOF"
  shows "combines p q (negatedOperator E prec q)"
  unfolding negatedOperator_def
proof (rule ensures_bind [OF advance_from [OF assms(1,3)]], intro ensures_if)
  fix r
  assume "moved p r [l] \<and> remaining r < remaining q"
  then have r: "moved p r [l]" "remaining r \<le> bound" "remaining r < remaining q" using assms(2) by auto
  have up: "combines p q x" if "combines p r x" for x
    using that r(3) by (auto elim!: ensures_mono)
  show "combines p q (inListNegated prec True r)" if "at_kw r ''in''"
    using up [OF inListNegated_combines [OF r(1,2)]] that by simp
  show "combines p q (likeNegated E prec True r)" if "at_kw r ''like''"
    using up [OF likeNegated_combines [OF r(1,2)]] that by simp
  show "combines p q (betweenNegated E prec True r)" if "at_kw r ''between''"
    using up [OF betweenNegated_combines [OF r(1,2)]] that by simp
  show "combines p q (fail_at (tpos (tok q)) (OpMsg x))" for x using fail_from [OF assms(1)] by simp
  then show "combines p q (fail_at (tpos (tok q)) (OpMsg x))" for x .
qed

lemma consume_combines:
  assumes "moved p q [l]" "remaining q \<le> bound" "tkind (tok q) \<noteq> TokEOF"
    and "c = KBinary \<longrightarrow> word_of q \<in> set binaryOps"
  shows "combines p q (consume E c prec q)"
  using binary_combines [OF assms(1-3)] isOperator_combines [OF assms(1-3)]
    inListNegated_combines [OF assms(1-3)] likeNegated_combines [OF assms(1-3)]
    betweenNegated_combines [OF assms(1-3)] negatedOperator_combines [OF assms(1-3)] assms(4)
  by (cases c) (simp_all add: consume_def)

lemma infixLoop_ensures:
  assumes "moved p q [l]" "remaining q \<le> bound" "remaining q < k"
  shows "ensures (err_ok (srcLen p)) (infixLoop E k minPrec q) (\<lambda>s. \<exists>n. moved p s [n] \<and> remaining s \<le> remaining q)"
  using assms
proof (induction k arbitrary: q l)
  case (Suc k)
  show ?case
    unfolding infixLoop.simps
  proof (rule ensures_bind [OF peekOperator_ensures [OF Suc.prems(1)]])
    fix op :: "(nat \<times> consumer) option"
    assume op: "case op of None \<Rightarrow> True
      | Some (prec, c) \<Rightarrow> tkind (tok q) \<noteq> TokEOF \<and> (c = KBinary \<longrightarrow> word_of q \<in> set binaryOps)"
    show "ensures (err_ok (srcLen p)) (case op of None \<Rightarrow> Inr q
       | Some (prec, c) \<Rightarrow> (if prec \<le> minPrec then Inr q
            else bindR (consume E c prec q) (\<lambda>q. infixLoop E k minPrec q)))
       (\<lambda>s. \<exists>n. moved p s [n] \<and> remaining s \<le> remaining q)"
    proof (cases op)
      case (Some pc)
      obtain prec c where pc: "pc = (prec, c)" by (cases pc)
      with op Some have c: "tkind (tok q) \<noteq> TokEOF" "c = KBinary \<longrightarrow> word_of q \<in> set binaryOps" by auto
      have "ensures (err_ok (srcLen p)) (bindR (consume E c prec q) (\<lambda>q. infixLoop E k minPrec q))
        (\<lambda>s. \<exists>n. moved p s [n] \<and> remaining s \<le> remaining q)"
      proof (rule ensures_bind [OF consume_combines [OF Suc.prems(1,2) c]])
        fix s
        assume "\<exists>n. moved p s [n] \<and> remaining s < remaining q"
        then obtain n where "moved p s [n]" "remaining s < remaining q" by auto
        with Suc.IH [of s n] Suc.prems(2,3)
        show "ensures (err_ok (srcLen p)) (infixLoop E k minPrec s) (\<lambda>s. \<exists>n. moved p s [n] \<and> remaining s \<le> remaining q)"
          by (auto elim!: ensures_mono)
      qed
      with Some pc Suc.prems(1) show ?thesis by auto
    qed (use Suc.prems(1) in auto)
  qed
qed simp

lemma moved_depth:
  "moved (p\<lparr>depth := Suc (depth p)\<rparr>) q nds \<Longrightarrow> moved p (q\<lparr>depth := depth q - 1\<rparr>) nds"
  by (auto simp: moved_def same_env_def)

text \<open>One round of \<^verbatim>\<open>expression\<close>: a prefix and the operators behind it, with one more byte to read.\<close>

lemma expression_round:
  assumes "pinv p" "remaining p \<le> bound"
  shows "yields p (bindR (prefix E (p\<lparr>depth := Suc (depth p)\<rparr>)) (\<lambda>q.
     bindR (infixLoop E (loopFuel q) m q) (\<lambda>r. Inr (r\<lparr>depth := depth r - 1\<rparr>))))"
proof -
  let ?p = "p\<lparr>depth := Suc (depth p)\<rparr>"
  have p: "pinv ?p" "remaining ?p \<le> bound" using assms by simp_all
  have "ensures (err_ok (srcLen ?p)) (bindR (prefix E ?p) (\<lambda>q.
     bindR (infixLoop E (loopFuel q) m q) (\<lambda>r. Inr (r\<lparr>depth := depth r - 1\<rparr>))))
     (\<lambda>q. \<exists>n. moved p q [n] \<and> remaining q < remaining p)"
  proof (rule ensures_bind [OF prefix_yields [OF p]])
    fix q
    assume "\<exists>n. moved ?p q [n] \<and> remaining q < remaining ?p"
    then obtain n where q: "moved ?p q [n]" "remaining q < remaining p" by auto
    have k: "remaining q \<le> bound" "remaining q < loopFuel q" using q(2) assms(2) loopFuel_enough [of q] by auto
    show "ensures (err_ok (srcLen ?p)) (bindR (infixLoop E (loopFuel q) m q) (\<lambda>r. Inr (r\<lparr>depth := depth r - 1\<rparr>)))
      (\<lambda>q. \<exists>n. moved p q [n] \<and> remaining q < remaining p)"
      by (rule ensures_bind [OF infixLoop_ensures [OF q(1) k]]) (use q(2) moved_depth in fastforce)
  qed
  then show ?thesis by simp
qed

end

section \<open>The interface holds of the parser itself\<close>

lemma expression_contract: "expr_parser (expression n) n"
proof (induction n)
  case 0
  show ?case by unfold_locales simp
next
  case (Suc n)
  show ?case
  proof unfold_locales
    fix p m
    assume p: "pinv p" "remaining p < Suc n"
    then have le: "remaining p \<le> n" by simp
    show "ensures (err_ok (srcLen p)) (expression (Suc n) m p) (\<lambda>q. \<exists>n. moved p q [n] \<and> remaining q < remaining p)"
      using expr_parser.expression_round [OF Suc.IH p(1) le, of m] fail_from [OF moved_refl [OF p(1)]]
      by (simp add: Let_def)
  qed
qed

interpretation parser: expr_parser "expression n" n for n
  by (rule expression_contract)

text \<open>\<^verbatim>\<open>Parse\<close> as a whole: every error is a real one, every accepted filter is safe.\<close>

lemma Parse_ensures:
  "ensures (err_ok (length expr)) (Parse expr opts)
    (\<lambda>n. node_ok (map (toLower (o_lower opts)) (o_columns opts)) (o_args opts) (o_lower opts) (o_trim opts) n
       \<and> params_of n = [0..<length (o_args opts)])"
proof -
  let ?p = "initState expr opts"
  let ?Q = "\<lambda>n. node_ok (columns ?p) (args ?p) (ulower ?p) (utrim ?p) n \<and> params_of n = [0..<length (o_args opts)]"
  have p: "pinv ?p" "srcLen ?p = length expr"
    by (simp_all add: initState_def pinv_def lexer_ok_def mkTok_def)
  have run: "ensures (err_ok (length expr)) (expression (Suc (length expr)) precedenceLowest q)
      (\<lambda>r. \<exists>n. moved ?p r [n])" if "moved ?p q []" for q
  proof -
    have "remaining q < Suc (length expr)" using moved_env(9) [OF that] p(2) by (simp add: remaining_def)
    from parser.E_from [OF that this, of precedenceLowest] show ?thesis unfolding p(2) by (rule ensures_mono) auto
  qed
  have "ensures (err_ok (length expr)) (Parse expr opts) ?Q"
  proof (cases "o_ctx opts 0")
    case None
    show ?thesis
      unfolding Parse_def None option.case
    proof (rule ensures_if, simp, rule ensures_bind [OF advance_ensures [OF p(1), unfolded p(2)]],
        rule ensures_if, simp, rule ensures_bind [OF run], blast)
      fix q
      assume "\<exists>n. moved ?p q [n]"
      then obtain n where q: "moved ?p q [n]" by auto
      from moved_env(10) [OF q] have st: "stack q = [n]" by (simp add: initState_def)
      have "params_of n = [0..<params q]" "okFor ?p n"
        using q by (auto simp: moved_def initState_def)
      then show "ensures (err_ok (length expr)) (if tkind (tok q) \<noteq> TokEOF then
            (if at_op q '';'' then Inl (FErr (tpos (tok q)) (TopMsg SecondStatement))
             else Inl (FErr (tpos (tok q)) (TopMsg (LeftOver (describe (tok q))))))
          else if params q \<noteq> length (o_args opts) then
            Inl (FErr 0 (TopMsg (PlaceholderCount (params q) (length (o_args opts)))))
          else (case stack q of [n] \<Rightarrow> Inr n | _ \<Rightarrow> Inl (FErr 0 (TopMsg NotSingleValue)))) ?Q"
        using tpos_from [OF q] p(2) st by (intro ensures_if) auto
    qed
  qed (simp add: Parse_def)
  then show ?thesis by (simp add: initState_def)
qed

section \<open>Properties of Parse\<close>

text \<open>
  C36. The parser always answers: whatever the text and the options, \<^verbatim>\<open>Parse\<close> returns a tree, the
  error of the request's context, or an error whose position lies within the text. The
  model's fuel never runs out, and the parser's stack always ends with exactly one node, so
  the source's last check ("did not parse to a single value") cannot fail.
\<close>

theorem Parse_answers:
  "(\<exists>n. Parse expr opts = Inr n) \<or> (\<exists>e. Parse expr opts = Inl (CtxErr e)) \<or>
   (\<exists>pos m. Parse expr opts = Inl (FErr pos m) \<and> pos \<le> length expr \<and> m \<noteq> TopMsg NotSingleValue)"
proof (cases "Parse expr opts")
  case (Inl e)
  then have "err_ok (length expr) e" using ensures_InlD [OF Parse_ensures] by blast
  with Inl show ?thesis by (cases e) auto
qed simp

text \<open>
  C4. An accepted filter is safe to hand to a backend: it names only the table's columns,
  calls only the allowed functions with an allowed number of arguments, uses only the
  operators of the language, gives \<^verbatim>\<open>in\<close> only literals, gives \<^verbatim>\<open>like\<close> a one-character escape, and
  never feeds a date or time function a word that reads the server's clock or time zone -
  neither written out nor bound as an argument - nor a computed value.
\<close>

theorem Parse_safe:
  assumes "Parse expr opts = Inr n"
  shows "node_ok (map (toLower (o_lower opts)) (o_columns opts)) (o_args opts) (o_lower opts) (o_trim opts) n"
  using ensures_InrD [OF Parse_ensures assms] by blast

definition sampleOptions :: options where
  "sampleOptions = \<lparr>o_ctx = (\<lambda>_. None), o_columns = [''a'', ''B''], o_args = [ArgString ''x''], o_lower = id, o_trim = id\<rparr>"

definition sampleTree :: node where
  "sampleTree = Binary ''or'' (Is True (Call ''date'' [Column ''a'', Param 0]) (Literal LiteralNull ''null''))
     (In False (Column ''b'') [Literal LiteralNumber ''1''])"

lemma sample_parses: "Parse ''date(A, ?) is not null or b in (1)'' sampleOptions = Inr sampleTree"
  by code_simp

theorem Parse_safe_witness:
  "Parse ''date(A, ?) is not null or b in (1)'' sampleOptions = Inr sampleTree
   \<and> node_ok (map (toLower (o_lower sampleOptions)) (o_columns sampleOptions)) (o_args sampleOptions)
       (o_lower sampleOptions) (o_trim sampleOptions) sampleTree"
  using Parse_safe [OF sample_parses] sample_parses by simp

text \<open>
  Placeholders are numbered in the order they are written and match the bound arguments
  exactly: the placeholders of an accepted tree, read from left to right, are 0, 1, ... up to
  the number of arguments, so binding them in order gives each its own value.
\<close>

theorem Parse_placeholders:
  assumes "Parse expr opts = Inr n"
  shows "params_of n = [0..<length (o_args opts)]"
  using ensures_InrD [OF Parse_ensures assms] by blast

theorem Parse_placeholders_witness:
  "params_of sampleTree = [0..<length (o_args sampleOptions)]"
  using Parse_placeholders [OF sample_parses] .

end
