(* ===== verification/Schema_Names.thy ===== *)
theory Schema_Names
  imports Go_Prelude
begin

text \<open>
  Names of tables and fields (\<^verbatim>\<open>internal/schema/schema.go\<close>, \<^verbatim>\<open>keywords.go\<close>, \<^verbatim>\<open>engine_keywords.go\<close>):
  the keyword tables, the identifier rules with their errors, the suggestions those errors
  carry, and the two functions that invent a name, \<^verbatim>\<open>cleanName\<close> and \<^verbatim>\<open>freeName\<close>. The theory shows
  that both always invent a valid one.
\<close>

section \<open>Tables of names\<close>

definition sqlKeywords :: "string list" where
  "sqlKeywords =
     [''abort'', ''action'', ''add'', ''after'', ''all'', ''alter'', ''always'', ''analyze'',
      ''and'', ''as'', ''asc'', ''attach'', ''autoincrement'', ''before'', ''begin'', ''between'',
      ''by'', ''cascade'', ''case'', ''cast'', ''check'', ''collate'', ''column'', ''commit'',
      ''conflict'', ''constraint'', ''create'', ''cross'', ''current'', ''current_date'',
      ''current_time'', ''current_timestamp'', ''database'', ''default'', ''deferrable'',
      ''deferred'', ''delete'', ''desc'', ''detach'', ''distinct'', ''do'', ''drop'', ''each'',
      ''else'', ''end'', ''escape'', ''except'', ''exclude'', ''exclusive'', ''exists'',
      ''explain'', ''fail'', ''filter'', ''first'', ''following'', ''for'', ''foreign'', ''from'',
      ''full'', ''generated'', ''glob'', ''group'', ''groups'', ''having'', ''if'', ''ignore'',
      ''immediate'', ''in'', ''index'', ''indexed'', ''initially'', ''inner'', ''insert'',
      ''instead'', ''intersect'', ''into'', ''is'', ''isnull'', ''join'', ''key'', ''last'',
      ''left'', ''like'', ''limit'', ''match'', ''materialized'', ''natural'', ''no'', ''not'',
      ''nothing'', ''notnull'', ''null'', ''nulls'', ''of'', ''offset'', ''on'', ''or'', ''order'',
      ''others'', ''outer'', ''over'', ''partition'', ''plan'', ''pragma'', ''preceding'',
      ''primary'', ''query'', ''raise'', ''range'', ''recursive'', ''references'', ''regexp'',
      ''reindex'', ''release'', ''rename'', ''replace'', ''restrict'', ''returning'', ''right'',
      ''rollback'', ''row'', ''rows'', ''savepoint'', ''select'', ''set'', ''table'', ''temp'',
      ''temporary'', ''then'', ''ties'', ''to'', ''transaction'', ''trigger'', ''unbounded'',
      ''union'', ''unique'', ''update'', ''using'', ''vacuum'', ''values'', ''view'', ''virtual'',
      ''when'', ''where'', ''window'', ''with'', ''without'']"

definition postgresqlKeywords :: "string list" where
  "postgresqlKeywords =
     [''analyse'', ''any'', ''array'', ''asymmetric'', ''authorization'', ''binary'', ''both'',
      ''collation'', ''concurrently'', ''current_catalog'', ''current_role'', ''current_schema'',
      ''current_user'', ''false'', ''fetch'', ''freeze'', ''grant'', ''ilike'', ''lateral'',
      ''leading'', ''localtime'', ''localtimestamp'', ''only'', ''overlaps'', ''placing'',
      ''session_user'', ''similar'', ''some'', ''symmetric'', ''system_user'', ''tablesample'',
      ''trailing'', ''true'', ''user'', ''variadic'', ''verbose'']"

definition duckdbKeywords :: "string list" where
  "duckdbKeywords =
     [''analyse'', ''anti'', ''any'', ''array'', ''asof'', ''asymmetric'', ''at'',
      ''authorization'', ''binary'', ''both'', ''collation'', ''concurrently'', ''describe'',
      ''false'', ''fetch'', ''freeze'', ''ilike'', ''lambda'', ''lateral'', ''leading'', ''only'',
      ''overlaps'', ''pivot'', ''pivot_longer'', ''pivot_wider'', ''placing'', ''positional'',
      ''qualify'', ''semi'', ''show'', ''similar'', ''some'', ''summarize'', ''symmetric'',
      ''tablesample'', ''trailing'', ''true'', ''unpack'', ''unpivot'', ''variadic'', ''verbose'']"

text \<open>\<^verbatim>\<open>engineKeywords[dialect]\<close>; a missing key of a Go map reads as the empty map.\<close>

definition engineKeywords :: "string \<Rightarrow> string list" where
  "engineKeywords dialect =
     (if dialect = ''postgresql'' then postgresqlKeywords
      else if dialect = ''duckdb'' then duckdbKeywords
      else [])"

definition reserved :: "string list" where
  "reserved = [''id'', ''created_at'', ''_embedding'', ''_score'', ''_rank'', ''rowid'']"

definition reservedSuggestions :: "(string \<times> string) list" where
  "reservedSuggestions =
     [(''id'', ''record_id''), (''created_at'', ''created_time''), (''_embedding'', ''embedding''),
      (''_score'', ''score''), (''_rank'', ''rank''), (''rowid'', ''record_id'')]"

text \<open>What \<^verbatim>\<open>init\<close> puts into \<^verbatim>\<open>forbidden\<close>.\<close>

definition forbidden :: "string list" where
  "forbidden = reserved @ sqlKeywords"

definition ReservedFieldNames :: "string list" where
  "ReservedFieldNames = [''id'', ''created_at'', ''_embedding'', ''_score'', ''_rank'', ''rowid'']"

definition ReservedTableNames :: "string list" where
  "ReservedTableNames = [''id'', ''created_at'', ''rowid'', ''dbstat'']"

section \<open>Identifiers\<close>

definition identChar :: "char \<Rightarrow> bool" where
  "identChar c \<longleftrightarrow> isLower c \<or> isDigit c \<or> c = CHR ''_''"

text \<open>The pattern \<^verbatim>\<open>^[a-z][a-z0-9_]{0,63}$\<close>.\<close>

definition identRe :: "string \<Rightarrow> bool" where
  "identRe s = (case s of [] \<Rightarrow> False | c # cs \<Rightarrow> isLower c \<and> list_all identChar cs \<and> length cs \<le> 63)"

definition ValidIdent :: "string \<Rightarrow> bool" where
  "ValidIdent s \<longleftrightarrow> identRe s \<and> s \<notin> set forbidden"

definition ValidIdentSyntax :: "string \<Rightarrow> bool" where
  "ValidIdentSyntax s = identRe s"

definition SuggestIdent :: "string \<Rightarrow> string" where
  "SuggestIdent name =
     (if ValidIdent name then name
      else case map_of reservedSuggestions name of
          Some s \<Rightarrow>
            if ValidIdent s then s
            else (case find ValidIdent [''my_'' @ name, name @ ''_field''] of
                    Some cand \<Rightarrow> cand | None \<Rightarrow> ''a different name'')
        | None \<Rightarrow>
            (case find ValidIdent [''my_'' @ name, name @ ''_field''] of
               Some cand \<Rightarrow> cand | None \<Rightarrow> ''a different name''))"

datatype name_error =
    InvalidIdent string string
  | ReservedIdent string string string
  | KeywordIdent string string string
  | EngineKeyword string string string string
  | TableHasFTS string
  | TableSqlitePrefix string
  | TablePragmaPrefix string
  | TableDbstat string

definition ValidateIdent :: "string \<Rightarrow> string \<Rightarrow> name_error + unit" where
  "ValidateIdent name what =
     (if \<not> identRe name then Inl (InvalidIdent what name)
      else if name \<in> set reserved then Inl (ReservedIdent what name (SuggestIdent name))
      else if name \<in> set sqlKeywords then Inl (KeywordIdent what name (SuggestIdent name))
      else Inr ())"

text \<open>\<^verbatim>\<open>strings.Contains\<close>.\<close>

fun containsStr :: "string \<Rightarrow> string \<Rightarrow> bool" where
  "containsStr [] sub = (sub = [])"
| "containsStr (c # cs) sub = (hasPrefix (c # cs) sub \<or> containsStr cs sub)"

definition ValidateTableName :: "string \<Rightarrow> name_error + unit" where
  "ValidateTableName name =
     bindR (ValidateIdent name ''table name'') (\<lambda>_.
       if containsStr name ''__fts'' then Inl (TableHasFTS name)
       else if hasPrefix name ''sqlite_'' then Inl (TableSqlitePrefix name)
       else if hasPrefix name ''pragma_'' then Inl (TablePragmaPrefix name)
       else if name = ''dbstat'' then Inl (TableDbstat name)
       else Inr ())"

definition ValidTableName :: "string \<Rightarrow> bool" where
  "ValidTableName s = isOk (ValidateTableName s)"

definition ValidateEngineIdent :: "string \<Rightarrow> string \<Rightarrow> string \<Rightarrow> name_error + unit" where
  "ValidateEngineIdent dialect name what =
     (let words = engineKeywords dialect in
      if name \<notin> set words then Inr ()
      else
        Inl (EngineKeyword what name dialect
          (case find (\<lambda>cand. ValidIdent cand \<and> cand \<notin> set words) [''my_'' @ name, name @ ''_field''] of
             Some cand \<Rightarrow> cand | None \<Rightarrow> ''a different name'')))"

section \<open>Invented names\<close>

text \<open>
  One rune of the lower-cased name: a rune of the accepted ASCII range stays, any other
  becomes an underscore.
\<close>

definition cleanRune :: "string \<Rightarrow> char" where
  "cleanRune r = (case r of [c] \<Rightarrow> if identChar c then c else CHR ''_'' | _ \<Rightarrow> CHR ''_'')"

definition cleanName :: "(string \<Rightarrow> string) \<Rightarrow> string \<Rightarrow> string" where
  "cleanName u raw =
     (let rs = take 64 (map cleanRune (runes (toLower u raw))) in
      if rs = [] then ''x''
      else
        let rs2 = (if \<not> isLower (hd rs) then take 64 (CHR ''x'' # rs) else rs) in
        if rs2 \<in> set forbidden then
          (if length rs2 < 64 then rs2 @ ''_'' else rs2[length rs2 - 1 := CHR ''_''])
        else rs2)"

text \<open>\<^verbatim>\<open>fmt.Sprintf("%d", n)\<close>.\<close>

fun showNat :: "nat \<Rightarrow> string" where
  "showNat n = (if n < 10 then [char_of (48 + n)] else showNat (n div 10) @ [char_of (48 + n mod 10)])"

definition freeCandidate :: "string \<Rightarrow> nat \<Rightarrow> string" where
  "freeCandidate desired n =
     (let suffix = CHR ''_'' # showNat n;
          stem = (if 64 < length desired + length suffix then take (64 - length suffix) desired else desired)
      in stem @ suffix)"

text \<open>
  The unbounded loop of \<^verbatim>\<open>freeName\<close> as a partial function: \<open>None\<close> would be a loop that never
  returns.
\<close>

partial_function (option) freeNameFrom :: "string \<Rightarrow> string list \<Rightarrow> nat \<Rightarrow> string option" where
  "freeNameFrom desired taken n =
     (let candidate = freeCandidate desired n in
      if candidate \<notin> set taken \<and> ValidIdent candidate then Some candidate
      else freeNameFrom desired taken (Suc n))"

definition freeName :: "string \<Rightarrow> string list \<Rightarrow> string option" where
  "freeName desired taken = freeNameFrom desired taken 2"

section \<open>Facts about the tables\<close>

lemma forbidden_words:
  "list_all (\<lambda>w. w \<noteq> [] \<and> last w \<noteq> CHR ''_'' \<and> \<not> isDigit (last w) \<and> length w < 64) forbidden"
  by code_simp

lemma forbidden_last:
  assumes "w \<in> set forbidden"
  shows "w \<noteq> []" "last w \<noteq> CHR ''_''" "\<not> isDigit (last w)" "length w < 64"
  using assms forbidden_words by (auto simp: list_all_iff)

lemma identRe_iff:
  "identRe s \<longleftrightarrow> s \<noteq> [] \<and> isLower (hd s) \<and> list_all identChar s \<and> length s \<le> 64"
  by (cases s) (auto simp: identRe_def identChar_def)

lemma ValidateIdent_ok: "ValidateIdent name what = Inr () \<longleftrightarrow> ValidIdent name"
  by (auto simp: ValidateIdent_def ValidIdent_def forbidden_def)

section \<open>Cleaned names are valid\<close>

lemma identChar_cleanRune [simp]: "identChar (cleanRune r)"
  by (auto simp: cleanRune_def identChar_def split: list.splits)

lemma identChar_x [simp]: "identChar (CHR ''x'')" "isLower (CHR ''x'')" "identChar (CHR ''_'')"
  by (simp_all add: identChar_def isLower_def)

lemma cleanName_shape:
  assumes "identRe s"
  shows "ValidIdent (if s \<in> set forbidden then (if length s < 64 then s @ ''_'' else s[length s - 1 := CHR ''_'']) else s)"
proof (cases "s \<in> set forbidden")
  case True
  then have "length s < 64" by (rule forbidden_last)
  moreover have "s @ ''_'' \<notin> set forbidden" using forbidden_last(2) [of "s @ ''_''"] by auto
  ultimately show ?thesis using assms True by (auto simp: ValidIdent_def identRe_iff)
qed (simp add: assms ValidIdent_def)

lemma cleanName_accepted: "ValidateIdent (cleanName u raw) what = Inr ()"
proof -
  let ?rs = "take 64 (map cleanRune (runes (toLower u raw)))"
  have chars: "list_all identChar ?rs" by (auto simp: list_all_iff dest!: in_set_takeD)
  have "ValidIdent (cleanName u raw)"
  proof (cases "?rs = []")
    case True
    have "ValidIdent ''x''" by code_simp
    with True show ?thesis by (simp add: cleanName_def)
  next
    case False
    define rs2 where "rs2 = (if \<not> isLower (hd ?rs) then take 64 (CHR ''x'' # ?rs) else ?rs)"
    have "list_all identChar (take 64 (CHR ''x'' # ?rs))"
      using chars by (auto simp: list_all_iff dest!: in_set_takeD)
    then have "identRe rs2" using False chars by (simp add: rs2_def identRe_iff)
    from cleanName_shape [OF this] show ?thesis
      unfolding cleanName_def Let_def if_not_P [OF False] rs2_def [symmetric] .
  qed
  then show ?thesis by (simp add: ValidateIdent_ok)
qed

text \<open>
  Whatever a sample's key looks like, the field name \<^verbatim>\<open>cleanName\<close> derives from it is one that
  \<^verbatim>\<open>ValidateIdent\<close> accepts: lower case, at most 64 bytes, not reserved and not a keyword.
\<close>

lemma cleanName_valid: "ValidateIdent (cleanName u raw) what = Inr ()"
  by (rule cleanName_accepted)

section \<open>Free names exist\<close>

definition digitValue :: "char \<Rightarrow> nat" where
  "digitValue c = byte c - 48"

definition readNat :: "string \<Rightarrow> nat" where
  "readNat s = foldl (\<lambda>n c. 10 * n + digitValue c) 0 s"

lemma digit_char: "d < 10 \<Longrightarrow> digitValue (char_of (48 + d)) = d \<and> isDigit (char_of (48 + d))"
  by (simp add: digitValue_def isDigit_def)

lemma readNat_showNat [simp]: "readNat (showNat n) = n"
proof (induction n rule: showNat.induct)
  case (1 n)
  show ?case
  proof (cases "n < 10")
    case True
    then show ?thesis using digit_char [of n] by (subst showNat.simps) (simp add: readNat_def)
  next
    case False
    have "readNat (showNat n) = 10 * readNat (showNat (n div 10)) + digitValue (char_of (48 + n mod 10))"
      using False by (subst showNat.simps) (simp add: readNat_def)
    then show ?thesis using 1 [OF False] digit_char [of "n mod 10"] by simp
  qed
qed

declare showNat.simps [simp del]

lemma showNat_digits: "list_all isDigit (showNat n) \<and> showNat n \<noteq> []"
proof (induction n rule: showNat.induct)
  case (1 n)
  then show ?case using digit_char by (subst (1 2) showNat.simps) (auto simp: digit_char)
qed

lemma showNat_length: "n < 10 ^ k \<Longrightarrow> 0 < k \<Longrightarrow> length (showNat n) \<le> k"
proof (induction k arbitrary: n)
  case (Suc k)
  show ?case
  proof (cases "n < 10")
    case True
    then show ?thesis by (subst showNat.simps) simp
  next
    case False
    have "n div 10 < 10 ^ k" using Suc.prems(1) by (simp add: less_mult_imp_div_less mult.commute)
    moreover have "0 < k" using False Suc.prems(1) by (cases k) auto
    ultimately show ?thesis using Suc.IH [of "n div 10"] False by (subst showNat.simps) simp
  qed
qed simp

lemma suffix_unique:
  assumes "a @ CHR ''_'' # x = b @ CHR ''_'' # y" "list_all isDigit x" "list_all isDigit y"
  shows "x = y"
proof -
  have no: "CHR ''_'' \<notin> set x" "CHR ''_'' \<notin> set y"
    using assms(2,3) by (auto simp: list_all_iff isDigit_def)
  have "takeWhile (\<lambda>c. c \<noteq> CHR ''_'') (rev z @ CHR ''_'' # w) = rev z" if "CHR ''_'' \<notin> set z" for z w
    using that by (subst takeWhile_append2) auto
  with no have "takeWhile (\<lambda>c. c \<noteq> CHR ''_'') (rev x @ CHR ''_'' # rev a) = rev x"
    "takeWhile (\<lambda>c. c \<noteq> CHR ''_'') (rev y @ CHR ''_'' # rev b) = rev y" by blast+
  moreover have "rev x @ CHR ''_'' # rev a = rev y @ CHR ''_'' # rev b"
    using arg_cong [OF assms(1), of rev] by simp
  ultimately show ?thesis by (metis rev_rev_ident)
qed

lemma freeCandidate_inj: "freeCandidate d m = freeCandidate d n \<Longrightarrow> m = n"
proof -
  assume eq: "freeCandidate d m = freeCandidate d n"
  have "\<exists>stem. freeCandidate d k = stem @ CHR ''_'' # showNat k" for k
    by (simp add: freeCandidate_def Let_def)
  with eq have "showNat m = showNat n" using suffix_unique showNat_digits by metis
  then show "m = n" using readNat_showNat by metis
qed

lemma freeCandidate_valid:
  assumes "identRe d" "length (showNat n) \<le> 62"
  shows "ValidIdent (freeCandidate d n)"
proof -
  let ?s = "CHR ''_'' # showNat n"
  define stem where "stem = (if 64 < length d + length ?s then take (64 - length ?s) d else d)"
  have c: "freeCandidate d n = stem @ ?s" by (simp add: freeCandidate_def Let_def stem_def)
  have "stem \<noteq> []" "hd stem = hd d" "list_all identChar stem" "length stem + length ?s \<le> 64"
    using assms by (auto simp: stem_def identRe_iff list_all_iff dest: in_set_takeD)
  moreover have "list_all identChar ?s"
    using showNat_digits [of n] by (auto simp: list_all_iff identChar_def)
  ultimately have "identRe (stem @ ?s)" using assms(1) by (simp add: identRe_iff)
  moreover have "stem @ ?s \<notin> set forbidden"
    using forbidden_last(3) [of "stem @ ?s"] showNat_digits [of n] by (auto simp: list_all_iff)
  ultimately show ?thesis by (simp add: c ValidIdent_def)
qed

lemma freeNameFrom_finds:
  assumes "freeCandidate d m \<notin> set taken \<and> ValidIdent (freeCandidate d m)" "n \<le> m"
  shows "\<exists>c k. freeNameFrom d taken n = Some c \<and> c = freeCandidate d k \<and> c \<notin> set taken \<and> ValidIdent c"
  using assms(2)
proof (induction "m - n" arbitrary: n)
  case 0
  then show ?case using assms(1) by (subst freeNameFrom.simps) (auto simp: Let_def)
next
  case (Suc k)
  then have "\<exists>c k. freeNameFrom d taken (Suc n) = Some c \<and> c = freeCandidate d k \<and> c \<notin> set taken \<and> ValidIdent c"
    by simp
  then show ?case by (subst freeNameFrom.simps) (auto simp: Let_def)
qed

lemma freeCandidate_last: "isDigit (last (freeCandidate d n))"
proof -
  have "last (freeCandidate d n) = last (showNat n)" using showNat_digits [of n] by (simp add: freeCandidate_def Let_def)
  then show ?thesis using showNat_digits [of n] last_in_set [of "showNat n"] by (simp add: list_all_iff)
qed

lemma freeName_finds:
  assumes "identRe desired" "length taken < 10 ^ 60"
  shows "\<exists>c. freeName desired taken = Some c \<and> c \<notin> set taken \<and> ValidIdent c \<and> isDigit (last c)"
proof -
  let ?N = "{2..2 + length taken}"
  have inj: "inj_on (freeCandidate desired) ?N" using freeCandidate_inj by (auto simp: inj_on_def)
  have "card (set taken) < card (freeCandidate desired ` ?N)"
    using card_image [OF inj] card_length [of taken] by simp
  then have "\<not> freeCandidate desired ` ?N \<subseteq> set taken"
    using card_mono [of "set taken"] by (meson List.finite_set leD)
  then obtain m where m: "m \<in> ?N" "freeCandidate desired m \<notin> set taken" by blast
  have "length (showNat m) \<le> 62"
    by (rule showNat_length) (use m(1) assms(2) in auto)
  with freeCandidate_valid [OF assms(1)] m freeNameFrom_finds [of desired m taken 2] obtain c k where
    "freeName desired taken = Some c" "c = freeCandidate desired k" "c \<notin> set taken" "ValidIdent c"
    by (auto simp: freeName_def)
  with freeCandidate_last [of desired k] show ?thesis by blast
qed

text \<open>
  \<^verbatim>\<open>freeName\<close> always returns: for any well-formed wanted name and any set of taken names
  (fewer than 10^60, so that a counter fits into a name) its unbounded loop finds a name
  that is not taken and that \<^verbatim>\<open>ValidateIdent\<close> accepts.
\<close>

theorem freeName_total:
  assumes "identRe desired" "length taken < 10 ^ 60"
  shows "\<exists>c. freeName desired taken = Some c \<and> c \<notin> set taken \<and> ValidIdent c"
  using freeName_finds [OF assms] by blast

theorem freeName_total_witness:
  "\<exists>c. freeName ''name'' [''name_2'', ''name''] = Some c \<and> c \<notin> set [''name_2'', ''name''] \<and> ValidIdent c"
  by (rule freeName_total) (simp_all add: identRe_def isLower_def identChar_def)

end
