(* ===== verification/Schema_Fields.thy ===== *)
theory Schema_Fields
  imports Schema_Names
begin

text \<open>
  Field declarations (\<^verbatim>\<open>internal/schema/schema.go\<close>, \<^verbatim>\<open>filename.go\<close>, \<^verbatim>\<open>shape.go\<close>): the field record
  and the validation of a table's fields with its errors, media types and file names, the
  shapes of JSON values, and the stored form of vectors. \<^verbatim>\<open>validate\<close> is proved equivalent to
  a declarative description of a well-formed table.
\<close>

section \<open>Fields\<close>

text \<open>A default is text or some other value; only the text \<^verbatim>\<open>now()\<close> is special.\<close>

datatype default_value = DefaultText string | DefaultOther

record field =
  Name :: string
  Type :: string
  Fulltext :: bool
  Vectorize :: bool
  Dim :: int
  Required :: bool
  Enum :: "string list option"
  Shape :: string
  Default :: "default_value option"
  MaxBytes :: int
  MediaTypes :: "string list option"

definition MaxVectorDim :: int where "MaxVectorDim = 4096"
definition NowDefault :: string where "NowDefault = ''now()''"

definition fieldTypes :: "string list" where
  "fieldTypes = [''string'', ''text'', ''number'', ''boolean'', ''timestamp'', ''json'', ''vector'', ''secret'', ''file'']"

definition Normalize :: "field list \<Rightarrow> field list" where
  "Normalize fs = map (\<lambda>f. if Type f = '''' then f\<lparr>Type := ''string''\<rparr> else f) fs"

datatype option_error =
    EnumEmptyList
  | EnumEmptyValue
  | EnumDuplicate string
  | UnknownShape string
  | SecretOption string
  | FileOption string
  | MaxBytesNegative
  | MediaTypesEmpty
  | MediaTypeBad string
  | MediaTypeTwice string

datatype schema_error =
    NoFields
  | NameError name_error
  | DuplicateField string
  | UnknownType string string
  | OptionError string option_error
  | FileOptionsElsewhere string
  | FulltextNotText string
  | FulltextRank string
  | ShapeNotJSON string
  | EnumNotString string
  | VectorizeNotText string
  | TwoVectorized
  | VectorDim string
  | DimElsewhere string
  | DefaultRequired string
  | DefaultVectorize string
  | DefaultNow string

section \<open>Enumerations\<close>

fun enumLoop :: "string list \<Rightarrow> string list \<Rightarrow> option_error + unit" where
  "enumLoop seen [] = Inr ()"
| "enumLoop seen (v # vs) =
     (if v = '''' then Inl EnumEmptyValue
      else if v \<in> set seen then Inl (EnumDuplicate v)
      else enumLoop (v # seen) vs)"

definition ValidateEnum :: "string list \<Rightarrow> option_error + unit" where
  "ValidateEnum vals = (if vals = [] then Inl EnumEmptyList else enumLoop [] vals)"

definition EnumAllows :: "string list \<Rightarrow> string \<Rightarrow> bool" where
  "EnumAllows enum s \<longleftrightarrow> enum = [] \<or> list_ex (\<lambda>v. v = s) enum"

definition IsNowDefault :: "default_value \<Rightarrow> bool" where
  "IsNowDefault v = (case v of DefaultText s \<Rightarrow> s = NowDefault | DefaultOther \<Rightarrow> False)"

section \<open>Media types and file names\<close>

definition mediaFirst :: "char \<Rightarrow> bool" where
  "mediaFirst c \<longleftrightarrow> isLower c \<or> isDigit c"

definition mediaRest :: "char \<Rightarrow> bool" where
  "mediaRest c \<longleftrightarrow> mediaFirst c \<or> c \<in> set ''!#$&^_.+-''"

text \<open>The pattern \<^verbatim>\<open>^[a-z0-9][a-z0-9!#$&^_.+-]{0,126}$\<close>.\<close>

definition mediaTokenRe :: "string \<Rightarrow> bool" where
  "mediaTokenRe s = (case s of [] \<Rightarrow> False | c # cs \<Rightarrow> mediaFirst c \<and> list_all mediaRest cs \<and> length cs \<le> 126)"

definition validMediaTypePattern :: "string \<Rightarrow> bool" where
  "validMediaTypePattern m =
     (case cutAt (CHR ''/'') m of
        None \<Rightarrow> False
      | Some (typ, sub) \<Rightarrow> mediaTokenRe typ \<and> (sub = ''*'' \<or> mediaTokenRe sub))"

text \<open>\<^verbatim>\<open>mediaToken\<close>, the loop over runes; only the first rune is at offset zero.\<close>

fun mediaLoop :: "bool \<Rightarrow> string list \<Rightarrow> bool" where
  "mediaLoop first [] = True"
| "mediaLoop first (r # rs) =
     (case r of
        [c] \<Rightarrow> (if mediaFirst c then mediaLoop False rs
                else if \<not> first \<and> c \<in> set ''!#$&^_.+-'' then mediaLoop False rs
                else False)
      | _ \<Rightarrow> False)"

definition mediaToken :: "string \<Rightarrow> bool" where
  "mediaToken s = (if s = [] \<or> 127 < length s then False else mediaLoop True (runes s))"

definition ValidateMediaType :: "string \<Rightarrow> bool" where
  "ValidateMediaType m =
     (case cutAt (CHR ''/'') m of None \<Rightarrow> False | Some (typ, sub) \<Rightarrow> mediaToken typ \<and> mediaToken sub)"

definition cutType :: "string \<Rightarrow> string" where
  "cutType m = (case cutAt (CHR ''/'') m of None \<Rightarrow> m | Some (typ, _) \<Rightarrow> typ)"

definition MediaTypeAllowed :: "string list \<Rightarrow> string \<Rightarrow> bool" where
  "MediaTypeAllowed patterns mediaType \<longleftrightarrow>
     patterns = [] \<or> list_ex (\<lambda>p. p = mediaType \<or> p = cutType mediaType @ ''/*'') patterns"

fun mediaTypesLoop :: "string list \<Rightarrow> string list \<Rightarrow> option_error + unit" where
  "mediaTypesLoop seen [] = Inr ()"
| "mediaTypesLoop seen (m # ms) =
     (if \<not> validMediaTypePattern m then Inl (MediaTypeBad m)
      else if m \<in> set seen then Inl (MediaTypeTwice m)
      else mediaTypesLoop (m # seen) ms)"

definition ValidateFileConstraints :: "int \<Rightarrow> string list option \<Rightarrow> option_error + unit" where
  "ValidateFileConstraints maxBytes mediaTypes =
     (if maxBytes < 0 then Inl MaxBytesNegative
      else if mediaTypes = Some [] then Inl MediaTypesEmpty
      else mediaTypesLoop [] (case mediaTypes of None \<Rightarrow> [] | Some ms \<Rightarrow> ms))"

datatype file_name_rule = NameLength | NameNotUTF8 | NameDots | NameControl

text \<open>
  \<^verbatim>\<open>unicode.IsControl\<close>: U+0000 to U+001F and U+007F to U+009F; \<^verbatim>\<open>unicode.Bidi_Control\<close>: U+061C,
  U+200E, U+200F, U+202A to U+202E and U+2066 to U+2069.
\<close>

definition forbiddenRune :: "nat \<Rightarrow> bool" where
  "forbiddenRune r \<longleftrightarrow> r \<le> 0x1F \<or> (0x7F \<le> r \<and> r \<le> 0x9F) \<or> r = 0x061C \<or> r = 0x200E \<or> r = 0x200F
     \<or> (0x202A \<le> r \<and> r \<le> 0x202E) \<or> (0x2066 \<le> r \<and> r \<le> 0x2069) \<or> r = 0x2F \<or> r = 0x5C"

definition FileNameRule :: "string \<Rightarrow> file_name_rule option" where
  "FileNameRule name =
     (if name = [] \<or> 255 < length name then Some NameLength
      else if \<not> validUTF8 name then Some NameNotUTF8
      else if name = ''.'' \<or> name = ''..'' then Some NameDots
      else if list_ex (\<lambda>r. forbiddenRune (runeValue r)) (runes name) then Some NameControl
      else None)"

section \<open>Validation of a table's fields\<close>

definition Shapes :: "string list" where
  "Shapes = [''object'', ''array'', ''array<string>'', ''array<number>'', ''array<boolean>'', ''array<object>'']"

definition ValidateShape :: "string \<Rightarrow> option_error + unit" where
  "ValidateShape shape = (if shape \<in> set Shapes then Inr () else Inl (UnknownShape shape))"

definition secretRefusal :: "field \<Rightarrow> option_error + unit" where
  "secretRefusal f =
     (if Fulltext f then Inl (SecretOption ''fulltext'')
      else if Vectorize f then Inl (SecretOption ''vectorize'')
      else if Enum f \<noteq> None then Inl (SecretOption ''enum'')
      else if Default f \<noteq> None then Inl (SecretOption ''default'')
      else Inr ())"

definition fileRefusal :: "field \<Rightarrow> option_error + unit" where
  "fileRefusal f =
     (if Fulltext f then Inl (FileOption ''fulltext'')
      else if Vectorize f then Inl (FileOption ''vectorize'')
      else if Enum f \<noteq> None then Inl (FileOption ''enum'')
      else if Shape f \<noteq> '''' then Inl (FileOption ''shape'')
      else if Default f \<noteq> None then Inl (FileOption ''default'')
      else ValidateFileConstraints (MaxBytes f) (MediaTypes f))"

definition optionCheck :: "field \<Rightarrow> option_error + unit \<Rightarrow> schema_error + unit" where
  "optionCheck f r = (case r of Inl e \<Rightarrow> Inl (OptionError (Name f) e) | Inr x \<Rightarrow> Inr x)"

definition textual :: "field \<Rightarrow> bool" where
  "textual f \<longleftrightarrow> Type f = ''string'' \<or> Type f = ''text''"

definition validateDefault :: "(string \<rightharpoonup> field) \<Rightarrow> field \<Rightarrow> schema_error + unit" where
  "validateDefault legacy f =
     (case Default f of
        None \<Rightarrow> Inr ()
      | Some v \<Rightarrow>
          if Required f then Inl (DefaultRequired (Name f))
          else if Vectorize f then Inl (DefaultVectorize (Name f))
          else if IsNowDefault v \<and> Type f \<noteq> ''timestamp''
            \<and> \<not> (case legacy (Name f) of None \<Rightarrow> False
                  | Some pre \<Rightarrow> (case Default pre of None \<Rightarrow> False | Some w \<Rightarrow> IsNowDefault w))
            then Inl (DefaultNow (Name f))
          else Inr ())"

text \<open>
  The body of the loop of \<^verbatim>\<open>validate\<close> for one field, with the names seen so far and the number
  of vectorized fields before it; it answers the new number.
\<close>

definition validateField :: "(string \<rightharpoonup> field) \<Rightarrow> string list \<Rightarrow> nat \<Rightarrow> field \<Rightarrow> schema_error + nat" where
  "validateField legacy seen vectorizeCount f =
     bindR (if legacy (Name f) = None
            then (case ValidateIdent (Name f) ''field name'' of Inl e \<Rightarrow> Inl (NameError e) | Inr x \<Rightarrow> Inr x)
            else Inr ()) (\<lambda>_.
     if Name f \<in> set seen then Inl (DuplicateField (Name f))
     else if Type f \<notin> set fieldTypes then Inl (UnknownType (Name f) (Type f))
     else
     bindR (if Type f = ''secret'' then optionCheck f (secretRefusal f) else Inr ()) (\<lambda>_.
     bindR (if Type f = ''file'' then optionCheck f (fileRefusal f)
            else if MaxBytes f \<noteq> 0 \<or> MediaTypes f \<noteq> None then Inl (FileOptionsElsewhere (Name f))
            else Inr ()) (\<lambda>_.
     if Fulltext f \<and> \<not> textual f then Inl (FulltextNotText (Name f))
     else if Fulltext f \<and> Name f = ''rank'' then Inl (FulltextRank (Name f))
     else
     bindR (if Shape f \<noteq> '''' then
              (if Type f \<noteq> ''json'' then Inl (ShapeNotJSON (Name f)) else optionCheck f (ValidateShape (Shape f)))
            else Inr ()) (\<lambda>_.
     bindR (case Enum f of
              None \<Rightarrow> Inr ()
            | Some vals \<Rightarrow>
                if Type f \<noteq> ''string'' then Inl (EnumNotString (Name f)) else optionCheck f (ValidateEnum vals)) (\<lambda>_.
     if Vectorize f \<and> \<not> textual f then Inl (VectorizeNotText (Name f))
     else if Vectorize f \<and> 1 < Suc vectorizeCount then Inl TwoVectorized
     else
     bindR (if Type f = ''vector'' then
              (if Dim f < 1 \<or> MaxVectorDim < Dim f then Inl (VectorDim (Name f)) else Inr ())
            else if Dim f \<noteq> 0 then Inl (DimElsewhere (Name f)) else Inr ()) (\<lambda>_.
     bindR (validateDefault legacy f) (\<lambda>_.
       Inr (if Vectorize f then Suc vectorizeCount else vectorizeCount))))))))"

fun validateLoop :: "(string \<rightharpoonup> field) \<Rightarrow> string list \<Rightarrow> nat \<Rightarrow> field list \<Rightarrow> schema_error + unit" where
  "validateLoop legacy seen n [] = Inr ()"
| "validateLoop legacy seen n (f # fs) =
     bindR (validateField legacy seen n f) (\<lambda>n2. validateLoop legacy (Name f # seen) n2 fs)"

definition validate :: "field list \<Rightarrow> (string \<rightharpoonup> field) \<Rightarrow> schema_error + unit" where
  "validate fs legacy = (if fs = [] then Inl NoFields else validateLoop legacy [] 0 fs)"

definition Validate :: "field list \<Rightarrow> schema_error + unit" where
  "Validate fs = validate fs Map.empty"

definition ValidateForMigration :: "field list \<Rightarrow> field list \<Rightarrow> schema_error + unit" where
  "ValidateForMigration fs existing =
     validate fs (map_of (rev (map (\<lambda>f. (Name f, f)) existing)))"

section \<open>What validation accepts\<close>

definition enum_wf :: "string list \<Rightarrow> bool" where
  "enum_wf vals \<longleftrightarrow> vals \<noteq> [] \<and> distinct vals \<and> '''' \<notin> set vals"

definition media_wf :: "string list option \<Rightarrow> bool" where
  "media_wf ms = (case ms of None \<Rightarrow> True
     | Some xs \<Rightarrow> xs \<noteq> [] \<and> distinct xs \<and> list_all validMediaTypePattern xs)"

definition default_wf :: "(string \<rightharpoonup> field) \<Rightarrow> field \<Rightarrow> bool" where
  "default_wf legacy f =
     (case Default f of None \<Rightarrow> True
      | Some v \<Rightarrow> \<not> Required f \<and> \<not> Vectorize f
          \<and> (IsNowDefault v \<longrightarrow> Type f = ''timestamp''
              \<or> (\<exists>pre w. legacy (Name f) = Some pre \<and> Default pre = Some w \<and> IsNowDefault w)))"

text \<open>A well-formed field; \<open>legacy\<close> holds the fields carried over from an older version of the table.\<close>

definition field_wf :: "(string \<rightharpoonup> field) \<Rightarrow> field \<Rightarrow> bool" where
  "field_wf legacy f \<longleftrightarrow>
     (legacy (Name f) = None \<longrightarrow> ValidIdent (Name f)) \<and> Type f \<in> set fieldTypes
     \<and> (Type f = ''secret'' \<longrightarrow> \<not> Fulltext f \<and> \<not> Vectorize f \<and> Enum f = None \<and> Default f = None)
     \<and> (Type f = ''file'' \<longrightarrow> Default f = None \<and> 0 \<le> MaxBytes f \<and> media_wf (MediaTypes f))
     \<and> (Type f \<noteq> ''file'' \<longrightarrow> MaxBytes f = 0 \<and> MediaTypes f = None)
     \<and> (Fulltext f \<longrightarrow> textual f \<and> Name f \<noteq> ''rank'')
     \<and> (Shape f \<noteq> '''' \<longrightarrow> Type f = ''json'' \<and> Shape f \<in> set Shapes)
     \<and> (case Enum f of None \<Rightarrow> True | Some vals \<Rightarrow> Type f = ''string'' \<and> enum_wf vals)
     \<and> (Vectorize f \<longrightarrow> textual f)
     \<and> (if Type f = ''vector'' then 1 \<le> Dim f \<and> Dim f \<le> MaxVectorDim else Dim f = 0)
     \<and> default_wf legacy f"

definition table_wf :: "(string \<rightharpoonup> field) \<Rightarrow> field list \<Rightarrow> bool" where
  "table_wf legacy fs \<longleftrightarrow> fs \<noteq> [] \<and> distinct (map Name fs) \<and> list_all (field_wf legacy) fs
     \<and> length (filter Vectorize fs) \<le> 1"

lemma enumLoop_ok:
  "enumLoop seen vs = Inr () \<longleftrightarrow> distinct vs \<and> set vs \<inter> set seen = {} \<and> '''' \<notin> set vs"
  by (induction seen vs rule: enumLoop.induct) auto

lemma ValidateEnum_ok: "ValidateEnum vs = Inr () \<longleftrightarrow> enum_wf vs"
  by (auto simp: ValidateEnum_def enum_wf_def enumLoop_ok)

lemma mediaTypesLoop_ok:
  "mediaTypesLoop seen ms = Inr () \<longleftrightarrow> distinct ms \<and> set ms \<inter> set seen = {} \<and> list_all validMediaTypePattern ms"
  by (induction seen ms rule: mediaTypesLoop.induct) auto

lemma ValidateFileConstraints_ok:
  "ValidateFileConstraints n ms = Inr () \<longleftrightarrow> 0 \<le> n \<and> media_wf ms"
  by (auto simp: ValidateFileConstraints_def media_wf_def mediaTypesLoop_ok split: option.splits)

lemma optionCheck_ok [simp]: "optionCheck f r = Inr x \<longleftrightarrow> r = Inr x"
  by (cases r) (auto simp: optionCheck_def)

lemma secretRefusal_ok:
  "secretRefusal f = Inr () \<longleftrightarrow> \<not> Fulltext f \<and> \<not> Vectorize f \<and> Enum f = None \<and> Default f = None"
  by (simp add: secretRefusal_def)

lemma fileRefusal_ok:
  "fileRefusal f = Inr () \<longleftrightarrow> \<not> Fulltext f \<and> \<not> Vectorize f \<and> Enum f = None \<and> Shape f = '''' \<and> Default f = None
     \<and> 0 \<le> MaxBytes f \<and> media_wf (MediaTypes f)"
  by (simp add: fileRefusal_def ValidateFileConstraints_ok)

lemma validateDefault_ok: "validateDefault legacy f = Inr () \<longleftrightarrow> default_wf legacy f"
  by (auto simp: validateDefault_def default_wf_def split: option.splits)

lemma nameCheck_ok:
  "(case ValidateIdent n w of Inl e \<Rightarrow> Inl (NameError e) | Inr x \<Rightarrow> Inr x) = Inr u \<longleftrightarrow> ValidIdent n"
  using ValidateIdent_ok [of n w] by (auto split: sum.splits)

lemma if_Inr: "((if c then a else b) = Inr x) \<longleftrightarrow> (if c then a = Inr x else b = Inr x)"
  by simp

lemma fold_case_enum:
  "(case e of None \<Rightarrow> Inr () | Some vals \<Rightarrow> g vals) = Inr u \<longleftrightarrow> (case e of None \<Rightarrow> True | Some vals \<Rightarrow> g vals = Inr u)"
  by (cases e) auto

lemmas field_checks = nameCheck_ok secretRefusal_ok fileRefusal_ok ValidateEnum_ok validateDefault_ok

lemma validateField_ok:
  "validateField legacy seen n f = Inr m \<longleftrightarrow>
     field_wf legacy f \<and> Name f \<notin> set seen \<and> (Vectorize f \<longrightarrow> n = 0)
     \<and> m = (if Vectorize f then Suc n else n)"
proof -
  have types: "''file'' \<noteq> ''string''" "''file'' \<noteq> ''text''" "''file'' \<noteq> ''json''" by simp_all
  show ?thesis
    unfolding validateField_def field_wf_def
    by (cases "Type f = ''file''"; cases "Type f = ''secret''")
      (simp_all add: if_Inr fold_case_enum field_checks ValidateShape_def textual_def
        split: if_split option.split, auto)
qed

lemma validateLoop_ok:
  "validateLoop legacy seen n fs = Inr () \<longleftrightarrow>
     list_all (field_wf legacy) fs \<and> distinct (map Name fs) \<and> Name ` set fs \<inter> set seen = {}
     \<and> (fs \<noteq> [] \<longrightarrow> length (filter Vectorize fs) \<le> (if n = 0 then 1 else 0))"
  by (induction legacy seen n fs rule: validateLoop.induct)
     (auto simp: validateField_ok filter_empty_conv split: if_splits)

text \<open>
  C40. Validation accepts exactly the well-formed tables: at least one field, distinct valid
  names, a known type each, every option only where its type allows it - in particular a
  secret field carries no index, embedding, enumeration or default that would disclose its
  plaintext - and at most one vectorized field. Names and \<^verbatim>\<open>now()\<close> defaults carried over from an
  older version of the table are exempt from the rules newer than they are.
\<close>

theorem validate_spec: "validate fs legacy = Inr () \<longleftrightarrow> table_wf legacy fs"
  by (auto simp: validate_def table_wf_def validateLoop_ok)

section \<open>Media types\<close>

lemma mediaFirst_ascii: "mediaFirst c \<Longrightarrow> byte c < 128"
  by (auto simp: mediaFirst_def isLower_def isDigit_def)

lemma mediaRest_ascii: "mediaRest c \<Longrightarrow> byte c < 128"
  by (auto simp: mediaRest_def dest: mediaFirst_ascii)

lemma mediaLoop_rest: "mediaLoop False (runes s) = list_all mediaRest s"
proof (induction s)
  case Nil
  then show ?case by (subst runes.simps) simp
next
  case (Cons c s)
  show ?case
  proof (cases "byte c < 128")
    case True
    with Cons show ?thesis by (auto simp: runes_Cons_ascii mediaRest_def)
  next
    case False
    then have "\<not> mediaRest c" using mediaRest_ascii by blast
    moreover obtain r rs where r: "runes (c # s) = (c # r) # rs"
      using runes_Cons by blast
    ultimately show ?thesis by (cases r) (auto simp: mediaRest_def)
  qed
qed

lemma mediaToken_Re: "mediaToken s = mediaTokenRe s"
proof (cases s)
  case (Cons c cs)
  show ?thesis
  proof (cases "mediaFirst c")
    case True
    with Cons show ?thesis
      by (auto simp: mediaToken_def mediaTokenRe_def runes_Cons_ascii mediaFirst_ascii mediaLoop_rest)
  next
    case False
    obtain r rs where "runes (c # cs) = (c # r) # rs"
      using runes_Cons by blast
    with False Cons show ?thesis by (cases r) (auto simp: mediaToken_def mediaTokenRe_def)
  qed
qed (simp add: mediaToken_def mediaTokenRe_def)

text \<open>
  The two readings of a media type agree: the loop that checks the media type of an
  uploaded file accepts exactly the patterns a schema may list, minus the ones for a whole
  top-level type. So a file field's pattern and a file's type always compare like with like.
\<close>

theorem ValidateMediaType_pattern:
  "ValidateMediaType m \<longleftrightarrow> validMediaTypePattern m \<and> m \<noteq> cutType m @ ''/*''"
  by (auto simp: ValidateMediaType_def validMediaTypePattern_def cutType_def mediaToken_Re mediaTokenRe_def
      mediaFirst_def isLower_def isDigit_def cutAt_Some split: option.splits)

section \<open>File names\<close>

text \<open>
  A file name the service accepts is a plain base name: 1 to 255 bytes of valid UTF-8, not
  \<^verbatim>\<open>.\<close> or \<^verbatim>\<open>..\<close>, and with no slash, backslash or ASCII control byte anywhere, so it cannot
  climb out of the directory it is written to.
\<close>

theorem FileNameRule_safe:
  assumes "FileNameRule name = None"
  shows "name \<noteq> ''.'' \<and> name \<noteq> ''..'' \<and> 0 < length name \<and> length name \<le> 255 \<and> validUTF8 name
    \<and> list_all (\<lambda>c. c \<noteq> CHR ''/'' \<and> c \<noteq> CHR 0x5C \<and> 32 \<le> byte c \<and> byte c \<noteq> 127) name"
proof -
  have rules: "name \<noteq> []" "length name \<le> 255" "validUTF8 name" "name \<noteq> ''.''" "name \<noteq> ''..''"
    "\<not> list_ex (\<lambda>r. forbiddenRune (runeValue r)) (runes name)"
    using assms by (auto simp: FileNameRule_def split: if_splits)
  have "c \<noteq> CHR ''/'' \<and> c \<noteq> CHR 0x5C \<and> 32 \<le> byte c \<and> byte c \<noteq> 127" if c: "c \<in> set name" for c
  proof (cases "byte c < 128")
    case True
    then have "\<not> forbiddenRune (byte c)"
      using rules(6) ascii_rune [OF c] by (auto simp: list_ex_iff runeValue_def)
    then show ?thesis by (auto simp: forbiddenRune_def)
  qed auto
  with rules show ?thesis by (auto simp: list_all_iff)
qed

theorem FileNameRule_safe_witness:
  "list_all (\<lambda>c. c \<noteq> CHR ''/'' \<and> c \<noteq> CHR 0x5C \<and> 32 \<le> byte c \<and> byte c \<noteq> 127) ''report.pdf''"
proof -
  have "FileNameRule ''report.pdf'' = None" by code_simp
  then show ?thesis using FileNameRule_safe [of "''report.pdf''"] by blast
qed

end
