(* ===== verification/Schema_Values.thy ===== *)
theory Schema_Values
  imports Schema_Fields
begin

text \<open>
  Stored values (\<^verbatim>\<open>internal/schema/schema.go\<close>, \<^verbatim>\<open>shape.go\<close>): the byte form of vectors, JSON values
  and the declared shape of a JSON field, and the selections of fields a table schema offers.
  A \<^verbatim>\<open>float32\<close> is its 32 bits, which \<^verbatim>\<open>math.Float32bits\<close> and \<^verbatim>\<open>Float32frombits\<close> convert without
  loss.
\<close>

section \<open>Vectors\<close>

type_synonym float32 = "32 word"

text \<open>\<^verbatim>\<open>binary.LittleEndian.PutUint32\<close> and \<^verbatim>\<open>Uint32\<close>.\<close>

definition putUint32 :: "float32 \<Rightarrow> string" where
  "putUint32 w =
     [char_of (unat w mod 256), char_of (unat w div 256 mod 256),
      char_of (unat w div 65536 mod 256), char_of (unat w div 16777216 mod 256)]"

definition uint32 :: "char \<Rightarrow> char \<Rightarrow> char \<Rightarrow> char \<Rightarrow> float32" where
  "uint32 a b c d = word_of_nat (byte a + 256 * byte b + 65536 * byte c + 16777216 * byte d)"

fun EncodeVector :: "float32 list \<Rightarrow> string" where
  "EncodeVector [] = []"
| "EncodeVector (x # v) = putUint32 x @ EncodeVector v"

fun decodeLoop :: "string \<Rightarrow> float32 list" where
  "decodeLoop (a # b # c # d # rest) = uint32 a b c d # decodeLoop rest"
| "decodeLoop _ = []"

definition DecodeVector :: "string \<Rightarrow> nat + float32 list" where
  "DecodeVector b = (if length b mod 4 \<noteq> 0 then Inl (length b) else Inr (decodeLoop b))"

lemma of_char_lt [simp]: "(of_char c :: nat) < 256"
  by (metis nat_of_char_less_256)

text \<open>Base 256: the shifts of the source are iterated divisions.\<close>

lemma div_bytes: "(n::nat) div 65536 = n div 256 div 256" "n div 16777216 = n div 256 div 256 div 256"
  by (simp_all add: div_mult2_eq [symmetric])

lemma digits256:
  assumes "a < 256" "b < 256" "c < 256" "(d::nat) < 256"
  defines "n \<equiv> a + 256 * b + 65536 * c + 16777216 * d"
  shows "n < 4294967296" "n mod 256 = a" "n div 256 mod 256 = b" "n div 256 div 256 mod 256 = c"
    "n div 256 div 256 div 256 mod 256 = d"
proof -
  show "n < 4294967296" using assms by linarith
  have n: "n = a + 256 * (b + 256 * (c + 256 * d))" by (simp add: n_def)
  have d1: "n div 256 = b + 256 * (c + 256 * d)" using assms(1) by (simp add: n)
  have d2: "n div 256 div 256 = c + 256 * d" using assms(2) by (simp add: d1)
  show "n mod 256 = a" unfolding n using assms(1) by (simp only: mod_mult_self2 mod_less)
  show "n div 256 mod 256 = b" unfolding d1 using assms(2) by (simp only: mod_mult_self2 mod_less)
  show "n div 256 div 256 mod 256 = c" using assms(3) by (simp add: d2)
  show "n div 256 div 256 div 256 mod 256 = d" using assms(3,4) by (simp add: d2)
qed

lemma undigits256:
  assumes "(n::nat) < 4294967296"
  shows "n mod 256 + 256 * (n div 256 mod 256) + 65536 * (n div 256 div 256 mod 256)
    + 16777216 * (n div 256 div 256 div 256 mod 256) = n"
proof -
  have "n div 256 div 256 div 256 < 256" using assms by (simp add: div_mult2_eq [symmetric] less_mult_imp_div_less)
  then have "n div 256 div 256 div 256 mod 256 = n div 256 div 256 div 256" by simp
  then show ?thesis
    using div_mult_mod_eq [of n 256] div_mult_mod_eq [of "n div 256" 256]
      div_mult_mod_eq [of "n div 256 div 256" 256] by linarith
qed

lemma putUint32_uint32: "putUint32 (uint32 a b c d) = [a, b, c, d]"
proof -
  let ?n = "byte a + 256 * byte b + 65536 * byte c + 16777216 * byte d"
  note ds = digits256 [of "byte a" "byte b" "byte c" "byte d", simplified]
  have "unat (uint32 a b c d) = ?n" using ds(1) unfolding uint32_def unat_of_nat by (simp del: of_nat_add)
  then show ?thesis by (simp add: putUint32_def div_bytes ds del: div_mult2_eq)
qed

lemma uint32_putUint32:
  "uint32 (char_of (unat w mod 256)) (char_of (unat w div 256 mod 256))
     (char_of (unat w div 65536 mod 256)) (char_of (unat w div 16777216 mod 256)) = w"
proof -
  have "unat w < 4294967296" using unsigned_less [of w] by simp
  from undigits256 [OF this] show ?thesis
    unfolding uint32_def div_bytes of_char_of by (simp add: mod_mod_trivial)
qed

lemma decodeLoop_EncodeVector: "decodeLoop (EncodeVector v) = v"
  by (induction v) (simp_all only: EncodeVector.simps putUint32_def append.simps decodeLoop.simps uint32_putUint32)

lemma EncodeVector_length: "length (EncodeVector v) = 4 * length v"
  by (induction v) (simp_all add: putUint32_def)

lemma EncodeVector_decodeLoop: "4 dvd length b \<Longrightarrow> EncodeVector (decodeLoop b) = b"
proof (induction b rule: decodeLoop.induct)
  case (1 a b c d rest)
  have "length (a # b # c # d # rest) = length rest + 4" by simp
  then have "4 dvd length rest" using 1(2) by (metis dvd_add_triv_right_iff)
  with 1 show ?case by (simp add: putUint32_uint32)
qed (auto dest: dvd_imp_le)

text \<open>
  Vectors survive storage bit for bit: decoding an encoded vector gives it back, and a blob
  decodes exactly when it is the encoding of the vector it decodes to - so no two vectors
  share a stored form and no stored form is read as anything but what was written.
\<close>

theorem DecodeVector_spec: "DecodeVector b = Inr v \<longleftrightarrow> b = EncodeVector v"
  by (auto simp: DecodeVector_def mod_eq_0_iff_dvd EncodeVector_decodeLoop decodeLoop_EncodeVector
      EncodeVector_length)

section \<open>JSON values and shapes\<close>

datatype json =
    JNull
  | JBool bool
  | JNumber string
  | JString string
  | JArray "json list"
  | JObject "(string \<times> json) list"

definition shapeElements :: "(string \<times> string) list" where
  "shapeElements =
     [(''array<string>'', ''string''), (''array<number>'', ''number''),
      (''array<boolean>'', ''boolean''), (''array<object>'', ''object'')]"

fun shapeKind :: "json \<Rightarrow> string" where
  "shapeKind JNull = ''null''"
| "shapeKind (JObject m) = ''object''"
| "shapeKind (JArray xs) = ''array''"
| "shapeKind (JString s) = ''string''"
| "shapeKind (JBool b) = ''boolean''"
| "shapeKind (JNumber n) = ''number''"

definition article :: "string \<Rightarrow> string" where
  "article kind =
     (if kind = ''null'' then ''null''
      else if kind = ''object'' \<or> kind = ''array'' then ''an '' @ kind
      else ''a '' @ kind)"

text \<open>What is wrong with a value: the article of its kind, or the first bad element and its index.\<close>

datatype mismatch = Got string | GotItem string nat

fun shapeItems :: "string \<Rightarrow> nat \<Rightarrow> json list \<Rightarrow> mismatch option" where
  "shapeItems want i [] = None"
| "shapeItems want i (x # xs) =
     (if shapeKind x \<noteq> want then Some (GotItem (article (shapeKind x)) i) else shapeItems want (Suc i) xs)"

definition shapeMismatch :: "string \<Rightarrow> json \<Rightarrow> mismatch option" where
  "shapeMismatch shape v =
     (if shape = ''object'' then
        (if shapeKind v = ''object'' then None else Some (Got (article (shapeKind v))))
      else
        (case v of
           JArray items \<Rightarrow>
             (case map_of shapeElements shape of
                None \<Rightarrow> None
              | Some want \<Rightarrow> shapeItems want 0 items)
         | _ \<Rightarrow> Some (Got (article (shapeKind v)))))"

datatype shape_error = NotJSON string | WrongShape string mismatch

text \<open>
  \<^verbatim>\<open>ShapeViolation\<close>: \<open>decode\<close> is \<^verbatim>\<open>encoding/json\<close>'s decoder with \<^verbatim>\<open>UseNumber\<close>, applied to the raw
  bytes; only its answer matters here.
\<close>

definition ShapeViolation :: "(string \<Rightarrow> string + json) \<Rightarrow> string \<Rightarrow> string \<Rightarrow> shape_error + unit" where
  "ShapeViolation decode shape raw =
     (if shape = '''' then Inr ()
      else case decode raw of
          Inl e \<Rightarrow> Inl (NotJSON e)
        | Inr v \<Rightarrow>
            if v = JNull then Inr ()
            else (case shapeMismatch shape v of None \<Rightarrow> Inr () | Some m \<Rightarrow> Inl (WrongShape shape m)))"

text \<open>What a shape means.\<close>

fun has_shape :: "string \<Rightarrow> json \<Rightarrow> bool" where
  "has_shape shape (JObject m) = (shape = ''object'')"
| "has_shape shape (JArray xs) =
     (shape = ''array'' \<or> shape = ''array<string>'' \<and> list_all (\<lambda>x. \<exists>s. x = JString s) xs
      \<or> shape = ''array<number>'' \<and> list_all (\<lambda>x. \<exists>s. x = JNumber s) xs
      \<or> shape = ''array<boolean>'' \<and> list_all (\<lambda>x. \<exists>b. x = JBool b) xs
      \<or> shape = ''array<object>'' \<and> list_all (\<lambda>x. \<exists>m. x = JObject m) xs)"
| "has_shape shape _ = False"

lemma shapeItems_None: "shapeItems want i xs = None \<longleftrightarrow> list_all (\<lambda>x. shapeKind x = want) xs"
  by (induction want i xs rule: shapeItems.induct) auto

lemma shapeKind_eq:
  "shapeKind x = ''string'' \<longleftrightarrow> (\<exists>s. x = JString s)"
  "shapeKind x = ''number'' \<longleftrightarrow> (\<exists>s. x = JNumber s)"
  "shapeKind x = ''boolean'' \<longleftrightarrow> (\<exists>b. x = JBool b)"
  "shapeKind x = ''object'' \<longleftrightarrow> (\<exists>m. x = JObject m)"
  by (cases x; simp)+

lemma shapeMismatch_None:
  assumes "shape \<in> set Shapes"
  shows "shapeMismatch shape v = None \<longleftrightarrow> has_shape shape v"
  using assms
  by (cases v) (auto simp: shapeMismatch_def Shapes_def shapeElements_def shapeItems_None shapeKind_eq)

text \<open>
  A JSON field with a declared shape stores only values of that shape (or null): for every
  shape \<^verbatim>\<open>ValidateShape\<close> admits, \<^verbatim>\<open>ShapeViolation\<close> accepts a text exactly when it decodes to null or
  to a value with that shape, elements included.
\<close>

theorem ShapeViolation_spec:
  assumes "ValidateShape shape = Inr ()"
  shows "ShapeViolation decode shape raw = Inr () \<longleftrightarrow>
    (\<exists>v. decode raw = Inr v \<and> (v = JNull \<or> has_shape shape v))"
proof -
  have s: "shape \<in> set Shapes" using assms by (auto simp: ValidateShape_def split: if_splits)
  then have "shape \<noteq> ''''" by (auto simp: Shapes_def)
  then show ?thesis
    by (auto simp: ShapeViolation_def shapeMismatch_None [OF s, symmetric] split: sum.splits option.splits)
qed

theorem ShapeViolation_spec_witness:
  "ShapeViolation (\<lambda>raw. Inr (JArray [JString raw])) ''array<string>'' ''x'' = Inr ()"
proof -
  have "ValidateShape ''array<string>'' = Inr ()" by code_simp
  from ShapeViolation_spec [OF this, of "\<lambda>raw. Inr (JArray [JString raw])" "''x''"] show ?thesis by simp
qed

section \<open>Selections of fields\<close>

definition FileFields :: "field list \<Rightarrow> field list" where
  "FileFields fs = filter (\<lambda>f. Type f = ''file'') fs"

definition SecretFields :: "field list \<Rightarrow> field list" where
  "SecretFields fs = filter (\<lambda>f. Type f = ''secret'') fs"

definition FieldNamed :: "field list \<Rightarrow> string \<Rightarrow> field option" where
  "FieldNamed fs name = find (\<lambda>f. Name f = name) fs"

definition FTSFields :: "field list \<Rightarrow> field list" where
  "FTSFields fs = filter Fulltext fs"

definition VectorizeField :: "field list \<Rightarrow> field option" where
  "VectorizeField fs = find Vectorize fs"

definition VectorFields :: "field list \<Rightarrow> field list" where
  "VectorFields fs = filter (\<lambda>f. Type f = ''vector'') fs"

definition SQLType :: "field \<Rightarrow> string" where
  "SQLType f =
     (if Type f = ''number'' then ''NUMERIC''
      else if Type f = ''boolean'' then ''INTEGER''
      else if Type f = ''vector'' \<or> Type f = ''secret'' then ''BLOB''
      else ''TEXT'')"

text \<open>A validated table never indexes or embeds a secret: its secret fields are in no selection.\<close>

lemma secrets_not_selected:
  assumes "Validate fs = Inr ()"
  shows "set (SecretFields fs) \<inter> (set (FTSFields fs) \<union> set (VectorFields fs)) = {}"
    "VectorizeField fs = Some f \<Longrightarrow> f \<notin> set (SecretFields fs)"
proof -
  have wf: "field_wf Map.empty g" if "g \<in> set fs" for g
    using assms that by (auto simp: Validate_def validate_def validateLoop_ok list_all_iff split: if_splits)
  show "set (SecretFields fs) \<inter> (set (FTSFields fs) \<union> set (VectorFields fs)) = {}"
    using wf by (auto simp: SecretFields_def FTSFields_def VectorFields_def field_wf_def)
  show "VectorizeField fs = Some f \<Longrightarrow> f \<notin> set (SecretFields fs)"
    using wf find_SomeD by (fastforce simp: VectorizeField_def SecretFields_def field_wf_def)
qed

end
