(* ===== verification/Schema_Infer.thy ===== *)
theory Schema_Infer
  imports Schema_Values "HOL-Library.Product_Lexorder" "HOL-Library.Multiset"
begin

text \<open>
  Schema inference (\<^verbatim>\<open>InferSchemaIn\<close> and its helpers in \<^verbatim>\<open>internal/schema/schema.go\<close>): from sample
  records to field declarations, with the keys each field came from, the evidence and the
  warnings. A sample is an association list with one entry per key; a value is what the
  reflection helpers (\<^verbatim>\<open>isNilValue\<close>, \<^verbatim>\<open>goKind\<close>, \<^verbatim>\<open>underlyingString\<close>) see of it. The iteration order of Go
  maps never shows in the result, because the units are sorted by a total order before
  names are given out; the model iterates over the sorted keys. \<open>ts\<close> is \<^verbatim>\<open>LooksLikeTimestamp\<close>,
  which rests on \<^verbatim>\<open>time.Parse\<close>, and \<open>u\<close> the Unicode half of \<^verbatim>\<open>strings.ToLower\<close>. The theory ends with
  the proof that the inferred fields always pass validation.
\<close>

section \<open>Samples\<close>

datatype sample_value = SNil | SBool | SNumber | SString string | SObject | SArray | SOther

type_synonym sample = "(string \<times> sample_value) list"

definition isNilValue :: "sample_value \<Rightarrow> bool" where
  "isNilValue v \<longleftrightarrow> v = SNil"

definition jsonKind :: "sample_value \<Rightarrow> string" where
  "jsonKind v =
     (case v of
        SNil \<Rightarrow> ''other'' | SBool \<Rightarrow> ''boolean'' | SNumber \<Rightarrow> ''number'' | SString _ \<Rightarrow> ''string''
      | SObject \<Rightarrow> ''object'' | SArray \<Rightarrow> ''array'' | SOther \<Rightarrow> ''other'')"

definition underlyingString :: "sample_value \<Rightarrow> string option" where
  "underlyingString v = (case v of SString s \<Rightarrow> Some s | _ \<Rightarrow> None)"

text \<open>The table \<^verbatim>\<open>keys\<close>: per raw key the kinds of its values, how often it is present and how often null.\<close>

definition allKeys :: "sample list \<Rightarrow> string list" where
  "allKeys samples = sort (remdups (concat (map (map fst) samples)))"

definition valuesOf :: "sample list \<Rightarrow> string \<Rightarrow> sample_value list" where
  "valuesOf samples raw = concat (map (\<lambda>s. case map_of s raw of None \<Rightarrow> [] | Some v \<Rightarrow> [v]) samples)"

definition keyKinds :: "sample list \<Rightarrow> string \<Rightarrow> string list" where
  "keyKinds samples raw = map jsonKind (filter (\<lambda>v. \<not> isNilValue v) (valuesOf samples raw))"

definition keyPresent :: "sample list \<Rightarrow> string \<Rightarrow> nat" where
  "keyPresent samples raw = length (valuesOf samples raw)"

definition keyNulls :: "sample list \<Rightarrow> string \<Rightarrow> nat" where
  "keyNulls samples raw = length (filter isNilValue (valuesOf samples raw))"

section \<open>One field\<close>

definition zeroField :: field where
  "zeroField = \<lparr>Name = '''', Type = '''', Fulltext = False, Vectorize = False, Dim = 0, Required = False,
     Enum = None, Shape = '''', Default = None, MaxBytes = 0, MediaTypes = None\<rparr>"

definition allStringsMatch :: "sample list \<Rightarrow> (string \<Rightarrow> bool) \<Rightarrow> (string \<Rightarrow> bool) \<Rightarrow> bool" where
  "allStringsMatch samples match pred =
     list_all (list_all (\<lambda>(k, v).
       if \<not> match k \<or> isNilValue v then True
       else (case underlyingString v of None \<Rightarrow> False | Some str \<Rightarrow> pred str))) samples"

definition inferField :: "(string \<Rightarrow> bool) \<Rightarrow> sample list \<Rightarrow> string list \<Rightarrow> field" where
  "inferField ts samples raws =
     (let kinds = remdups (concat (map (keyKinds samples) raws));
          matches = (\<lambda>k. k \<in> set raws)
      in if 1 < length kinds then zeroField\<lparr>Type := ''json''\<rparr>
         else if ''boolean'' \<in> set kinds then zeroField\<lparr>Type := ''boolean''\<rparr>
         else if ''number'' \<in> set kinds then zeroField\<lparr>Type := ''number''\<rparr>
         else if ''string'' \<in> set kinds then
           (if allStringsMatch samples matches ts then zeroField\<lparr>Type := ''timestamp''\<rparr>
            else if allStringsMatch samples matches (\<lambda>s. 200 < length s \<or> CHR 0x0A \<in> set s)
            then zeroField\<lparr>Type := ''text'', Fulltext := True\<rparr>
            else zeroField\<lparr>Type := ''string''\<rparr>)
         else zeroField\<lparr>Type := ''json''\<rparr>)"

definition carriedTogether :: "sample list \<Rightarrow> string list \<Rightarrow> bool" where
  "carriedTogether samples raws =
     list_ex (\<lambda>s. 1 < length (filter (\<lambda>raw. map_of s raw \<noteq> None) raws)) samples"

section \<open>Units\<close>

record infer_unit =
  uBase :: string
  uDesired :: string
  uRaws :: "string list"
  uSplit :: bool
  uNatural :: bool
  uField :: field

definition baseName :: "(string \<Rightarrow> string) \<Rightarrow> string \<Rightarrow> string \<Rightarrow> string" where
  "baseName u dialect raw =
     (let base = cleanName u raw in if base \<in> set (engineKeywords dialect) then base @ ''_'' else base)"

text \<open>A unit with its field and the name it wants; a full-text field may not want \<^verbatim>\<open>rank\<close>.\<close>

definition mkUnit ::
    "(string \<Rightarrow> bool) \<Rightarrow> sample list \<Rightarrow> string \<Rightarrow> string list \<Rightarrow> bool \<Rightarrow> bool \<Rightarrow> infer_unit" where
  "mkUnit ts samples base raws split natural =
     (let f = inferField ts samples raws; clash = Fulltext f \<and> base = ''rank'' in
      \<lparr>uBase = base, uDesired = (if clash then ''rank_'' else base), uRaws = raws, uSplit = split,
       uNatural = (natural \<and> \<not> clash), uField = f\<rparr>)"

definition groupOf :: "(string \<Rightarrow> string) \<Rightarrow> string \<Rightarrow> sample list \<Rightarrow> string \<Rightarrow> string list" where
  "groupOf u dialect samples base = filter (\<lambda>raw. baseName u dialect raw = base) (allKeys samples)"

definition unitsOf ::
    "(string \<Rightarrow> bool) \<Rightarrow> (string \<Rightarrow> string) \<Rightarrow> string \<Rightarrow> sample list \<Rightarrow> string \<Rightarrow> infer_unit list" where
  "unitsOf ts u dialect samples base =
     (let raws = groupOf u dialect samples base in
      if 1 < length raws \<and> carriedTogether samples raws
      then map (\<lambda>raw. mkUnit ts samples base [raw] True (raw = base)) raws
      else [mkUnit ts samples base raws False (raws = [base])])"

definition unitOrder :: "infer_unit \<Rightarrow> string \<times> bool \<times> string" where
  "unitOrder x = (uDesired x, \<not> uNatural x, hd (uRaws x))"

definition inferUnits ::
    "(string \<Rightarrow> bool) \<Rightarrow> (string \<Rightarrow> string) \<Rightarrow> string \<Rightarrow> sample list \<Rightarrow> infer_unit list" where
  "inferUnits ts u dialect samples =
     sort_key unitOrder
       (concat (map (unitsOf ts u dialect samples) (remdups (map (baseName u dialect) (allKeys samples)))))"

section \<open>Names\<close>

text \<open>First every unit whose wanted name is still free takes it.\<close>

fun claimNames :: "infer_unit list \<Rightarrow> string list \<Rightarrow> (infer_unit \<times> string option) list \<times> string list" where
  "claimNames [] taken = ([], taken)"
| "claimNames (x # xs) taken =
     (if uDesired x \<in> set taken
      then (case claimNames xs taken of (r, t) \<Rightarrow> ((x, None) # r, t))
      else (case claimNames xs (uDesired x # taken) of (r, t) \<Rightarrow> ((x, Some (uDesired x)) # r, t)))"

text \<open>Then the others get a free one; \<open>None\<close> would be a search that never ends.\<close>

fun fillNames :: "(infer_unit \<times> string option) list \<Rightarrow> string list \<Rightarrow> (infer_unit \<times> string) list option" where
  "fillNames [] taken = Some []"
| "fillNames ((x, Some n) # xs) taken = map_option (\<lambda>r. (x, n) # r) (fillNames xs taken)"
| "fillNames ((x, None) # xs) taken =
     (case freeName (uDesired x) taken of
        None \<Rightarrow> None
      | Some n \<Rightarrow> map_option (\<lambda>r. (x, n) # r) (fillNames xs (n # taken)))"

definition nameUnits :: "infer_unit list \<Rightarrow> (infer_unit \<times> string) list option" where
  "nameUnits us = (case claimNames us [] of (r, taken) \<Rightarrow> fillNames r taken)"

section \<open>The result\<close>

record evidence =
  Present :: nat
  Nulls :: nat
  Types :: "string list"

definition evidenceFor :: "sample list \<Rightarrow> string list \<Rightarrow> evidence" where
  "evidenceFor samples raws =
     \<lparr>Present = sum_list (map (keyPresent samples) raws), Nulls = sum_list (map (keyNulls samples) raws),
      Types = sort (remdups (concat (map (keyKinds samples) raws)))\<rparr>"

text \<open>
  A warning carries what its text quotes; the pairs of \<open>SplitKeys\<close> stand for the list the text
  shows in the order of their quoted forms.
\<close>

datatype warning =
    SplitKeys "string list" string "(string \<times> string) list"
  | MergedKeys "string list" string string
  | RankRenamed string string
  | ReservedRenamed string string
  | KeywordRenamed string string
  | Sanitized string string

definition splitNamed :: "(infer_unit \<times> string) list \<Rightarrow> string \<Rightarrow> (string \<times> string) list" where
  "splitNamed named base =
     map (\<lambda>(x, n). (hd (uRaws x), n)) (filter (\<lambda>(x, n). uSplit x \<and> uBase x = base) named)"

definition renameWarning :: "(string \<Rightarrow> string) \<Rightarrow> string \<Rightarrow> infer_unit \<Rightarrow> string \<Rightarrow> warning" where
  "renameWarning u dialect x name =
     (let raw = hd (uRaws x); low = toLower u raw in
      if uDesired x = ''rank_'' \<and> low = ''rank'' then RankRenamed raw name
      else if low \<in> set reserved then ReservedRenamed raw name
      else if low \<in> set sqlKeywords \<or> cleanName u raw \<in> set (engineKeywords dialect) then KeywordRenamed raw name
      else Sanitized raw name)"

fun warningsFor ::
    "(string \<Rightarrow> string) \<Rightarrow> string \<Rightarrow> sample list \<Rightarrow> (infer_unit \<times> string) list \<Rightarrow> string list
       \<Rightarrow> (infer_unit \<times> string) list \<Rightarrow> warning list" where
  "warningsFor u dialect samples named reported [] = []"
| "warningsFor u dialect samples named reported ((x, name) # rest) =
     (if uSplit x then
        (if uBase x \<in> set reported then warningsFor u dialect samples named reported rest
         else SplitKeys (groupOf u dialect samples (uBase x)) (uBase x) (splitNamed named (uBase x))
              # warningsFor u dialect samples named (uBase x # reported) rest)
      else if 1 < length (uRaws x) then
        MergedKeys (uRaws x) (uBase x) name # warningsFor u dialect samples named reported rest
      else if hd (uRaws x) \<noteq> name then
        renameWarning u dialect x name # warningsFor u dialect samples named reported rest
      else warningsFor u dialect samples named reported rest)"

record inference =
  IFields :: "field list"
  Warnings :: "warning list"
  Provenance :: "(string \<times> string list) list"
  Evidence :: "(string \<times> evidence) list"

definition InferSchemaIn ::
    "(string \<Rightarrow> bool) \<Rightarrow> (string \<Rightarrow> string) \<Rightarrow> string \<Rightarrow> sample list \<Rightarrow> inference option" where
  "InferSchemaIn ts u dialect samples =
     map_option (\<lambda>named.
       \<lparr>IFields = sort_key Name (map (\<lambda>(x, n). (uField x)\<lparr>Name := n\<rparr>) named),
        Warnings = warningsFor u dialect samples named [] named,
        Provenance = map (\<lambda>(x, n). (n, uRaws x)) named,
        Evidence = map (\<lambda>(x, n). (n, evidenceFor samples (uRaws x))) named\<rparr>)
       (nameUnits (inferUnits ts u dialect samples))"

definition InferSchema :: "(string \<Rightarrow> bool) \<Rightarrow> (string \<Rightarrow> string) \<Rightarrow> sample list \<Rightarrow> inference option" where
  "InferSchema ts u samples = InferSchemaIn ts u '''' samples"

section \<open>Wanted names are valid\<close>

lemma engine_words:
  "list_all (\<lambda>w. w \<noteq> [] \<and> last w \<noteq> CHR ''_'' \<and> \<not> isDigit (last w) \<and> length w < 64) (postgresqlKeywords @ duckdbKeywords)"
  by code_simp

lemma engine_word:
  assumes "w \<in> set (engineKeywords dialect)"
  shows "w \<noteq> []" "last w \<noteq> CHR ''_''" "\<not> isDigit (last w)" "length w < 64"
  using assms engine_words by (auto simp: engineKeywords_def list_all_iff split: if_splits)

lemma ValidIdent_cleanName: "ValidIdent (cleanName u raw)"
  using ValidateIdent_ok cleanName_accepted by blast

lemma ValidIdent_append_underscore:
  "ValidIdent w \<Longrightarrow> length w < 64 \<Longrightarrow> ValidIdent (w @ ''_'')"
  using forbidden_last(2) [of "w @ ''_''"] by (auto simp: ValidIdent_def identRe_iff)

lemma baseName_ok:
  "ValidIdent (baseName u dialect raw)" "baseName u dialect raw \<notin> set (engineKeywords dialect)"
proof -
  show "ValidIdent (baseName u dialect raw)"
    using ValidIdent_append_underscore [OF ValidIdent_cleanName] engine_word(4) ValidIdent_cleanName
    by (simp add: baseName_def Let_def)
  show "baseName u dialect raw \<notin> set (engineKeywords dialect)"
    using engine_word(2) [of "cleanName u raw @ ''_''" dialect] by (auto simp: baseName_def Let_def)
qed

text \<open>An inferred field before it has a name.\<close>

definition plain_field :: "field \<Rightarrow> bool" where
  "plain_field f \<longleftrightarrow> Type f \<in> {''json'', ''boolean'', ''number'', ''timestamp'', ''text'', ''string''}
     \<and> (Fulltext f \<longrightarrow> Type f = ''text'') \<and> \<not> Vectorize f \<and> Dim f = 0 \<and> Enum f = None \<and> Shape f = ''''
     \<and> Default f = None \<and> MaxBytes f = 0 \<and> MediaTypes f = None"

lemma inferField_plain: "plain_field (inferField ts samples raws)"
  by (simp add: inferField_def Let_def plain_field_def zeroField_def)

lemma plain_field_wf:
  assumes "plain_field f" "ValidIdent n" "Fulltext f \<longrightarrow> n \<noteq> ''rank''"
  shows "field_wf Map.empty (f\<lparr>Name := n\<rparr>)"
  using assms by (auto simp: plain_field_def field_wf_def textual_def fieldTypes_def default_wf_def)

definition unit_ok :: "string \<Rightarrow> infer_unit \<Rightarrow> bool" where
  "unit_ok dialect x \<longleftrightarrow> ValidIdent (uDesired x) \<and> uDesired x \<notin> set (engineKeywords dialect)
     \<and> plain_field (uField x) \<and> (Fulltext (uField x) \<longrightarrow> uDesired x \<noteq> ''rank'')"

lemma rank_name: "ValidIdent ''rank_''" "''rank_'' \<notin> set (engineKeywords dialect)"
proof -
  show "ValidIdent ''rank_''" by code_simp
  show "''rank_'' \<notin> set (engineKeywords dialect)" using engine_word(2) [of "''rank_''" dialect] by auto
qed

lemma mkUnit_ok:
  "ValidIdent base \<Longrightarrow> base \<notin> set (engineKeywords dialect) \<Longrightarrow> unit_ok dialect (mkUnit ts samples base raws split natural)"
  using rank_name by (auto simp: unit_ok_def mkUnit_def Let_def inferField_plain)

lemma inferUnits_ok: "x \<in> set (inferUnits ts u dialect samples) \<Longrightarrow> unit_ok dialect x"
  by (auto simp: inferUnits_def unitsOf_def Let_def baseName_ok intro!: mkUnit_ok split: if_splits)

section \<open>No key is lost\<close>

lemma sum_groups: "distinct bs \<Longrightarrow> sum_list (map (\<lambda>b. length (filter (\<lambda>x. f x = b) xs)) bs) \<le> length xs"
proof (induction xs)
  case (Cons x xs)
  have "sum_list (map (\<lambda>b. length (filter (\<lambda>y. f y = b) (x # xs))) bs)
      = sum_list (map (\<lambda>b. if f x = b then 1 else 0) bs) + sum_list (map (\<lambda>b. length (filter (\<lambda>y. f y = b) xs)) bs)"
    by (induction bs) auto
  moreover have "sum_list (map (\<lambda>b. if f x = b then 1 else 0) bs) \<le> (1::nat)"
    using Cons.prems by (induction bs) (auto simp: sum_list_eq_0_iff)
  ultimately show ?case using Cons by simp
qed simp

lemma unitsOf_raws: "concat (map uRaws (unitsOf ts u dialect samples base)) = groupOf u dialect samples base"
  by (simp add: unitsOf_def Let_def mkUnit_def o_def concat_map_singleton)

lemma inferUnits_raws:
  "set (concat (map uRaws (inferUnits ts u dialect samples))) = set (allKeys samples)"
proof -
  have "set (concat (map uRaws (inferUnits ts u dialect samples)))
      = (\<Union>b\<in>set (map (baseName u dialect) (allKeys samples)). set (concat (map uRaws (unitsOf ts u dialect samples b))))"
    by (auto simp: inferUnits_def)
  then show ?thesis by (auto simp: unitsOf_raws groupOf_def)
qed

lemma inferUnits_length: "length (inferUnits ts u dialect samples) \<le> length (allKeys samples)"
proof -
  have "length (unitsOf ts u dialect samples b) \<le> length (groupOf u dialect samples b)"
    if "b \<in> set (map (baseName u dialect) (allKeys samples))" for b
  proof -
    have "groupOf u dialect samples b \<noteq> []" using that by (auto simp: groupOf_def filter_empty_conv)
    then show ?thesis by (auto simp: unitsOf_def Let_def Suc_le_eq)
  qed
  then have "length (inferUnits ts u dialect samples)
      \<le> sum_list (map (\<lambda>b. length (groupOf u dialect samples b)) (remdups (map (baseName u dialect) (allKeys samples))))"
    by (auto simp: inferUnits_def length_concat o_def intro!: sum_list_mono)
  also have "\<dots> \<le> length (allKeys samples)"
    unfolding groupOf_def by (rule sum_groups) simp
  finally show ?thesis .
qed

section \<open>Given names are valid and distinct\<close>

definition claimed :: "(infer_unit \<times> string option) list \<Rightarrow> string list" where
  "claimed r = concat (map (\<lambda>(x, n). case n of None \<Rightarrow> [] | Some m \<Rightarrow> [m]) r)"

lemma claimed_simps [simp]:
  "claimed [] = []" "claimed ((x, None) # r) = claimed r" "claimed ((x, Some n) # r) = n # claimed r"
  by (simp_all add: claimed_def)

lemma claimNames_spec:
  assumes "claimNames us taken = (r, t)"
  shows "map fst r = us \<and> list_all (\<lambda>(x, n). n = None \<or> n = Some (uDesired x)) r
    \<and> distinct (claimed r) \<and> set (claimed r) \<inter> set taken = {}
    \<and> set t = set taken \<union> set (claimed r) \<and> length t \<le> length taken + length us"
  using assms
proof (induction us taken arbitrary: r t rule: claimNames.induct)
  case (2 x xs taken)
  show ?case
  proof (cases "uDesired x \<in> set taken")
    case True
    obtain r' t' where r: "claimNames xs taken = (r', t')" by force
    from 2(1) [OF True r] 2(3) True r show ?thesis by auto
  next
    case False
    obtain r' t' where r: "claimNames xs (uDesired x # taken) = (r', t')" by force
    from 2(2) [OF False r] 2(3) False r show ?thesis by auto
  qed
qed auto

text \<open>A name given to a unit: the wanted one, or an invented one that ends in a digit.\<close>

definition given_name :: "infer_unit \<times> string \<Rightarrow> bool" where
  "given_name = (\<lambda>(x, n). n = uDesired x \<or> ValidIdent n \<and> isDigit (last n))"

lemma fillNames_spec:
  assumes "list_all (\<lambda>(x, n). n = None \<or> n = Some (uDesired x)) r" "list_all (unit_ok dialect) (map fst r)"
    and "distinct (claimed r)" "set (claimed r) \<subseteq> set taken" "length taken + length r < 10 ^ 60"
  shows "\<exists>named. fillNames r taken = Some named \<and> map fst named = map fst r \<and> list_all given_name named
    \<and> distinct (map snd named) \<and> set (map snd named) \<inter> set taken = set (claimed r)"
  using assms
proof (induction r taken rule: fillNames.induct)
  case (2 x n xs taken)
  then obtain named where "fillNames xs taken = Some named" "map fst named = map fst xs"
    "list_all given_name named" "distinct (map snd named)" "set (map snd named) \<inter> set taken = set (claimed xs)"
    by auto
  with 2(2,4,5) show ?case by (auto simp: given_name_def)
next
  case (3 x xs taken)
  have "identRe (uDesired x)" "length taken < 10 ^ 60" using 3(3,6) by (auto simp: unit_ok_def ValidIdent_def)
  from freeName_finds [OF this] obtain n where n: "freeName (uDesired x) taken = Some n" "n \<notin> set taken"
    "ValidIdent n" "isDigit (last n)" by auto
  have "set (claimed xs) \<subseteq> set (n # taken)" using 3(5) by auto
  with 3 n obtain named where "fillNames xs (n # taken) = Some named" "map fst named = map fst xs"
    "list_all given_name named" "distinct (map snd named)" "set (map snd named) \<inter> set (n # taken) = set (claimed xs)"
    by (auto simp del: list.set)
  with 3(5) n show ?case by (auto simp: given_name_def)
qed simp

lemma nameUnits_spec:
  assumes "list_all (unit_ok dialect) us" "length us + length us < 10 ^ 60"
  shows "\<exists>named. nameUnits us = Some named \<and> map fst named = us \<and> list_all given_name named \<and> distinct (map snd named)"
proof -
  obtain r t where rt: "claimNames us [] = (r, t)" by force
  note c = claimNames_spec [OF rt]
  have "length r = length us" using c by (metis length_map)
  with fillNames_spec [of r dialect t] c assms show ?thesis
    by (auto simp: nameUnits_def rt)
qed

lemma given_name_ok:
  assumes "given_name (x, n)" "unit_ok dialect x"
  shows "field_wf Map.empty ((uField x)\<lparr>Name := n\<rparr>)" "n \<notin> set (engineKeywords dialect)"
proof -
  have "n \<noteq> ''rank''" if "isDigit (last n)" using that by (auto simp: isDigit_def)
  then show "field_wf Map.empty ((uField x)\<lparr>Name := n\<rparr>)"
    using assms by (intro plain_field_wf) (auto simp: given_name_def unit_ok_def)
  show "n \<notin> set (engineKeywords dialect)"
    using assms engine_word(3) [of n dialect] by (auto simp: given_name_def unit_ok_def)
qed

text \<open>
  C39. Inference always ends, and what it proposes can be created as it stands: for every set of
  samples with at least one key, in every dialect, the inferred fields pass \<^verbatim>\<open>Validate\<close> - names
  valid and distinct, no full-text field called \<^verbatim>\<open>rank\<close> - and no name is a keyword of the
  engine the table will live in.
\<close>

theorem InferSchemaIn_validates:
  assumes "allKeys samples \<noteq> []" "length (allKeys samples) < 10 ^ 50"
  shows "\<exists>inf. InferSchemaIn ts u dialect samples = Some inf \<and> Validate (IFields inf) = Inr ()
    \<and> list_all (\<lambda>f. ValidateEngineIdent dialect (Name f) what = Inr ()) (IFields inf)"
proof -
  let ?us = "inferUnits ts u dialect samples"
  have us: "list_all (unit_ok dialect) ?us" using inferUnits_ok by (auto simp: list_all_iff)
  have "length ?us + length ?us < 10 ^ 60" using inferUnits_length [of ts u dialect samples] assms(2) by simp
  with nameUnits_spec [OF us] obtain named where
    named: "nameUnits ?us = Some named" "map fst named = ?us" "list_all given_name named" "distinct (map snd named)"
    by auto
  have "?us \<noteq> []" using inferUnits_raws [of ts u dialect samples] assms(1) by auto
  then have ne: "named \<noteq> []" using named(2) by auto
  let ?fs = "map (\<lambda>(x, n). (uField x)\<lparr>Name := n\<rparr>) named"
  have ok: "field_wf Map.empty f \<and> Name f \<notin> set (engineKeywords dialect) \<and> \<not> Vectorize f" if "f \<in> set ?fs" for f
  proof -
    obtain x n where xn: "(x, n) \<in> set named" "f = (uField x)\<lparr>Name := n\<rparr>" using \<open>f \<in> set ?fs\<close> by auto
    then have "unit_ok dialect x" using us named(2) by (metis (no_types) Ball_set image_eqI fst_conv list.set_map)
    then show ?thesis
      using given_name_ok [of x n dialect] xn named(3) by (auto simp: list_all_iff unit_ok_def plain_field_def)
  qed
  have names: "map Name ?fs = map snd named" by auto
  have "distinct (map Name (sort_key Name ?fs))"
    using named(4) names by (metis distinct_map distinct_sort set_sort)
  moreover have "filter Vectorize (sort_key Name ?fs) = []" using ok by (auto simp: filter_empty_conv)
  moreover have "sort_key Name ?fs \<noteq> []" using ne by (metis length_0_conv length_map length_sort)
  ultimately have "table_wf Map.empty (sort_key Name ?fs)"
    using ok by (auto simp: table_wf_def list_all_iff)
  then have "Validate (sort_key Name ?fs) = Inr ()"
    by (simp add: Validate_def validate_def table_wf_def validateLoop_ok)
  moreover have "list_all (\<lambda>f. ValidateEngineIdent dialect (Name f) what = Inr ()) (sort_key Name ?fs)"
    using ok by (auto simp: list_all_iff ValidateEngineIdent_def Let_def)
  ultimately show ?thesis using named(1) by (simp add: InferSchemaIn_def)
qed

definition sampleRecords :: "sample list" where
  "sampleRecords = [[(''Order'', SString ''x''), (''rank'', SNumber)], [(''order'', SNil)]]"

theorem InferSchemaIn_validates_witness:
  "\<exists>inf. InferSchemaIn (\<lambda>_. False) id ''duckdb'' sampleRecords = Some inf \<and> Validate (IFields inf) = Inr ()
    \<and> list_all (\<lambda>f. ValidateEngineIdent ''duckdb'' (Name f) ''field name'' = Inr ()) (IFields inf)"
proof -
  have "allKeys sampleRecords \<noteq> []" "length (allKeys sampleRecords) < 10 ^ 50" by code_simp+
  then show ?thesis by (rule InferSchemaIn_validates)
qed

section \<open>Provenance\<close>

lemma fillNames_units: "fillNames r taken = Some named \<Longrightarrow> map fst named = map fst r"
  by (induction r taken arbitrary: named rule: fillNames.induct) (auto split: option.splits)

lemma nameUnits_units: "nameUnits us = Some named \<Longrightarrow> map fst named = us"
  using claimNames_spec [of us "[]"] fillNames_units by (fastforce simp: nameUnits_def split: prod.splits)

lemma distinct_groups:
  "distinct bs \<Longrightarrow> distinct xs \<Longrightarrow> distinct (concat (map (\<lambda>b. filter (\<lambda>x. f x = b) xs) bs))"
  by (induction bs) auto

lemma concat_map_concat:
  "concat (map f (concat (map g xs))) = concat (map (\<lambda>x. concat (map f (g x))) xs)"
  by (induction xs) simp_all

lemma inferUnits_distinct: "distinct (concat (map uRaws (inferUnits ts u dialect samples)))"
proof -
  let ?bs = "remdups (map (baseName u dialect) (allKeys samples))"
  let ?xs = "concat (map (unitsOf ts u dialect samples) ?bs)"
  have "concat (map uRaws ?xs) = concat (map (\<lambda>b. concat (map uRaws (unitsOf ts u dialect samples b))) ?bs)"
    by (rule concat_map_concat)
  also have "\<dots> = concat (map (groupOf u dialect samples) ?bs)" by (simp add: unitsOf_raws)
  also have "distinct \<dots>"
    unfolding groupOf_def using distinct_groups [of ?bs "allKeys samples" "baseName u dialect"]
    by (simp add: allKeys_def)
  finally have "distinct (concat (map uRaws ?xs))" .
  moreover have "mset (concat (map uRaws (sort_key unitOrder ?xs))) = mset (concat (map uRaws ?xs))"
    by (simp add: mset_concat sum_mset_sum_list [symmetric])
  ultimately show ?thesis unfolding inferUnits_def by (metis mset_eq_imp_distinct_iff)
qed

text \<open>
  Every key of the samples ends up in exactly one field: the keys the fields report as
  their origin are, each once, the keys the samples carry. No key is dropped and none is
  counted twice.
\<close>

theorem Infer_provenance:
  assumes "InferSchemaIn ts u dialect samples = Some res"
  shows "distinct (concat (map snd (Provenance res)))
    \<and> set (concat (map snd (Provenance res))) = set (allKeys samples)"
proof -
  let ?us = "inferUnits ts u dialect samples"
  obtain named where n: "nameUnits ?us = Some named"
    and res: "Provenance res = map (\<lambda>(x, n). (n, uRaws x)) named"
    using assms by (auto simp: InferSchemaIn_def)
  have "map snd (Provenance res) = map uRaws (map fst named)" by (auto simp: res)
  then have "map snd (Provenance res) = map uRaws ?us" by (simp only: nameUnits_units [OF n])
  then show ?thesis using inferUnits_distinct inferUnits_raws by metis
qed

theorem Infer_provenance_witness:
  "\<exists>inf. InferSchemaIn (\<lambda>_. False) id '''' [[(''a'', SNumber)]] = Some inf
    \<and> set (concat (map snd (Provenance inf))) = set (allKeys [[(''a'', SNumber)]])"
proof -
  have "\<exists>inf. InferSchemaIn (\<lambda>_. False) id '''' [[(''a'', SNumber)]] = Some inf"
    by (simp add: InferSchemaIn_def nameUnits_def inferUnits_def unitsOf_def allKeys_def groupOf_def
        mkUnit_def Let_def carriedTogether_def unitOrder_def)
  then show ?thesis using Infer_provenance by blast
qed

end
