(* ===== verification/Graph_Read.thy ===== *)
theory Graph_Read
  imports Schema_Names
begin

text \<open>
  The graph read core (\<^verbatim>\<open>internal/graph/neighbors.go\<close>, \<^verbatim>\<open>traversal.go\<close>): one hop around a node, and
  breadth-first traversal for paths and subgraphs, with their limits. Storage is a parameter:
  a snapshot answers which references the request may see and which edges touch a node. A
  snapshot is one consistent view, so an answer depends only on the question; a call may
  fail instead. Time is a counter of the events a request observes: every poll of a context
  and every storage call takes the next number, and the world says what it answers. Loops
  over slices are recursions; the breadth-first loop carries fuel, which \<open>Graph_Props\<close> proves
  sufficient. \<^verbatim>\<open>slices.SortFunc\<close> is a sort by the compared key; it is not stable, but references of
  edges are unique, so no two elements compare equal.
\<close>

section \<open>References and edges\<close>

datatype ref = Ref (rTable: string) (rID: int)

definition compareRef :: "ref \<Rightarrow> ref \<Rightarrow> int" where
  "compareRef a b =
     (if rTable a < rTable b then -1
      else if rTable a > rTable b then 1
      else if rID a < rID b then -1
      else if rID a > rID b then 1
      else 0)"

text \<open>The order \<^verbatim>\<open>compareRef\<close> sorts by is a linear order on references.\<close>

instantiation ref :: linorder
begin

definition less_eq_ref :: "ref \<Rightarrow> ref \<Rightarrow> bool" where
  "a \<le> b \<longleftrightarrow> compareRef a b \<le> 0"

definition less_ref :: "ref \<Rightarrow> ref \<Rightarrow> bool" where
  "a < b \<longleftrightarrow> compareRef a b < 0"

instance
proof
  fix x y z :: ref
  show "(x < y) = (x \<le> y \<and> \<not> y \<le> x)" "x \<le> x" "x \<le> y \<or> y \<le> x"
    by (auto simp: less_eq_ref_def less_ref_def compareRef_def)
  show "x \<le> z" if "x \<le> y" "y \<le> z"
    using that by (auto simp: less_eq_ref_def compareRef_def split: if_splits)
  show "x = y" if "x \<le> y" "y \<le> x"
    using that by (cases x; cases y) (auto simp: less_eq_ref_def compareRef_def split: if_splits)
qed

end

record edge =
  ERef :: ref
  ESource :: ref
  ETarget :: ref
  EType :: string

record limits =
  LNodes :: int
  LEdges :: int
  LElapsed :: int

record query =
  QNode :: ref
  QDirection :: string
  QTypes :: "string list"
  QLimits :: limits

record gresult =
  RNodes :: "ref list"
  REdges :: "edge list"
  Truncated :: bool
  StopReason :: string

datatype graph_error = InvalidRequest string | ContextError string | StorageError string | NoFuel

section \<open>The world of a request\<close>

record snapshot =
  visible :: "ref \<Rightarrow> bool"
  adjacent :: "ref \<Rightarrow> string \<Rightarrow> int \<Rightarrow> edge list \<times> bool"

text \<open>
  What the n-th event answers: the error of the caller's context, of the context with the
  deadline, of the one \<^verbatim>\<open>Neighbors\<close> derives from it during a traversal, and the fault of a storage
  call.
\<close>

record world =
  ctxErr :: "nat \<Rightarrow> string option"
  workErr :: "nat \<Rightarrow> string option"
  innerErr :: "nat \<Rightarrow> string option"
  fault :: "nat \<Rightarrow> string option"

definition thirtySeconds :: int where
  "thirtySeconds = 30000000000"

section \<open>One hop\<close>

definition sortEdges :: "edge list \<Rightarrow> edge list" where
  "sortEdges es = sort_key ERef es"

definition finish ::
    "world \<Rightarrow> nat \<Rightarrow> string \<Rightarrow> ref list \<Rightarrow> edge list \<Rightarrow> (graph_error + gresult) \<times> nat" where
  "finish w n reason nodes edges =
     (case ctxErr w n of
        Some e \<Rightarrow> (Inl (ContextError e), Suc n)
      | None \<Rightarrow>
          let why = (if workErr w (Suc n) \<noteq> None then ''elapsed'' else reason) in
          (Inr \<lparr>RNodes = sort nodes, REdges = sortEdges edges, Truncated = (why \<noteq> ''complete''),
                StopReason = why\<rparr>, n + 2))"

definition failWith ::
    "world \<Rightarrow> nat \<Rightarrow> string \<Rightarrow> ref list \<Rightarrow> edge list \<Rightarrow> (graph_error + gresult) \<times> nat" where
  "failWith w n err nodes edges =
     (case ctxErr w n of
        Some e \<Rightarrow> (Inl (ContextError e), Suc n)
      | None \<Rightarrow>
          if workErr w (Suc n) \<noteq> None then finish w (n + 2) ''elapsed'' nodes edges
          else (Inl (StorageError err), n + 2))"

text \<open>The loop over the edge and its two ends: all visible, some not, or a fault.\<close>

fun allVisible :: "world \<Rightarrow> snapshot \<Rightarrow> nat \<Rightarrow> ref list \<Rightarrow> (string + bool) \<times> nat" where
  "allVisible w s n [] = (Inr True, n)"
| "allVisible w s n (r # rs) =
     (case fault w n of
        Some e \<Rightarrow> (Inl e, Suc n)
      | None \<Rightarrow> if \<not> visible s r then (Inr False, Suc n) else allVisible w s (Suc n) rs)"

definition wrongDirection :: "query \<Rightarrow> edge \<Rightarrow> bool" where
  "wrongDirection q e \<longleftrightarrow>
     (QDirection q = ''out'' \<and> ESource e \<noteq> QNode q) \<or> (QDirection q = ''in'' \<and> ETarget e \<noteq> QNode q)
     \<or> (ESource e \<noteq> QNode q \<and> ETarget e \<noteq> QNode q)"

definition wrongType :: "query \<Rightarrow> edge \<Rightarrow> bool" where
  "wrongType q e \<longleftrightarrow> QTypes q \<noteq> [] \<and> EType e \<notin> set (QTypes q)"

text \<open>Appending the ends of an edge to the nodes; the nodes are the keys of \<^verbatim>\<open>seen\<close>.\<close>

definition addEnds :: "ref list \<Rightarrow> edge \<Rightarrow> ref list" where
  "addEnds nodes e =
     (let one = (if ESource e \<in> set nodes then nodes else nodes @ [ESource e])
      in if ETarget e \<in> set one then one else one @ [ETarget e])"

definition needed :: "ref list \<Rightarrow> edge \<Rightarrow> nat" where
  "needed nodes e =
     (if ESource e \<notin> set nodes then 1 else 0)
     + (if ETarget e \<noteq> ESource e \<and> ETarget e \<notin> set nodes then 1 else 0)"

fun edgeLoop ::
    "world \<Rightarrow> snapshot \<Rightarrow> query \<Rightarrow> bool \<Rightarrow> nat \<Rightarrow> nat \<Rightarrow> ref list \<Rightarrow> edge list \<Rightarrow> edge list
       \<Rightarrow> (graph_error + gresult) \<times> nat" where
  "edgeLoop w s q further n i nodes acc [] =
     (if further then finish w n ''edges'' nodes acc else finish w n ''complete'' nodes acc)"
| "edgeLoop w s q further n i nodes acc (e # es) =
     (case workErr w n of
        Some err \<Rightarrow> failWith w (Suc n) err nodes acc
      | None \<Rightarrow>
          if int i = LEdges (QLimits q) then finish w (Suc n) ''edges'' nodes acc
          else if wrongDirection q e then edgeLoop w s q further (Suc n) (Suc i) nodes acc es
          else if wrongType q e then edgeLoop w s q further (Suc n) (Suc i) nodes acc es
          else
            (case allVisible w s (Suc n) [ERef e, ESource e, ETarget e] of
               (Inl err, n2) \<Rightarrow> failWith w n2 err nodes acc
             | (Inr False, n2) \<Rightarrow> edgeLoop w s q further n2 (Suc i) nodes acc es
             | (Inr True, n2) \<Rightarrow>
                 if LNodes (QLimits q) < int (length nodes + needed nodes e) then finish w n2 ''nodes'' nodes acc
                 else edgeLoop w s q further n2 (Suc i) (addEnds nodes e) (acc @ [e]) es))"

definition directions :: "string list" where
  "directions = [''out'', ''in'', ''both'']"

definition checkQuery :: "query \<Rightarrow> graph_error + unit" where
  "checkQuery q =
     (let l = QLimits q in
      if rID (QNode q) \<le> 0 \<or> \<not> isOk (ValidateTableName (rTable (QNode q))) \<or> QDirection q \<notin> set directions then
        Inl (InvalidRequest ''neighbors requires a node with a valid table and positive int64 id, and direction out, in or both'')
      else if LNodes l < 1 \<or> 1000 < LNodes l \<or> LEdges l < 1 \<or> 1000 < LEdges l \<or> LElapsed l \<le> 0 \<or> thirtySeconds < LElapsed l then
        Inl (InvalidRequest ''neighbors requires node/edge limits from 1 to 1000 and a positive elapsed limit at most 30 seconds'')
      else if 1000 < length (QTypes q) then
        Inl (InvalidRequest ''neighbors accepts at most 1000 relation types; reduce the filter'')
      else Inr ())"

text \<open>
  \<^verbatim>\<open>Neighbors\<close>, from event \<open>n\<close> on. \<open>opened\<close> is the fault of opening the snapshot. The third component
  of the answer is how many candidates the one \<^verbatim>\<open>Adjacent\<close> call returned, which \<^verbatim>\<open>traversalView\<close>
  counts.
\<close>

definition Neighbors ::
    "world \<Rightarrow> (nat \<Rightarrow> string option) \<Rightarrow> snapshot \<Rightarrow> nat \<Rightarrow> query \<Rightarrow> (graph_error + gresult) \<times> nat \<times> nat" where
  "Neighbors w opened s n q =
     (let plain = (\<lambda>(r, n2). (r, n2, 0)) in
      case checkQuery q of
        Inl e \<Rightarrow> (Inl e, n, 0)
      | Inr _ \<Rightarrow>
          (case ctxErr w n of
             Some e \<Rightarrow> (Inl (ContextError e), Suc n, 0)
           | None \<Rightarrow>
               (case opened (Suc n) of
                  Some err \<Rightarrow> plain (failWith w (n + 2) err [] [])
                | None \<Rightarrow>
                    (case fault w (n + 2) of
                       Some err \<Rightarrow> plain (failWith w (n + 3) err [] [])
                     | None \<Rightarrow>
                         if \<not> visible s (QNode q) then plain (finish w (n + 3) ''complete'' [] [])
                         else
                           (case fault w (n + 3) of
                              Some err \<Rightarrow> plain (failWith w (n + 4) err [QNode q] [])
                            | None \<Rightarrow>
                                (case adjacent s (QNode q) (QDirection q) (LEdges (QLimits q)) of
                                   (es, further) \<Rightarrow>
                                     (case edgeLoop w s q further (n + 4) 0 [QNode q] [] (sortEdges es) of
                                        (r, n2) \<Rightarrow> (r, n2, length es))))))))"

section \<open>Traversal\<close>

record tquery =
  TSeeds :: "ref list"
  TTarget :: "ref option"
  TDirection :: string
  TTypes :: "string list"
  TLimits :: limits
  TMaxHops :: int
  TMaxWork :: int

definition ValidateTraversalLimits :: "tquery \<Rightarrow> graph_error + unit" where
  "ValidateTraversalLimits q =
     (let l = TLimits q in
      if TMaxHops q < 1 \<or> 32 < TMaxHops q \<or> TMaxWork q < 1 \<or> 1000 < TMaxWork q
         \<or> LNodes l < 1 \<or> 1000 < LNodes l \<or> LEdges l < 1 \<or> 1000 < LEdges l
         \<or> LElapsed l \<le> 0 \<or> thirtySeconds < LElapsed l
         \<or> 1000 < length (TTypes q) \<or> TDirection q \<notin> set directions
      then Inl (InvalidRequest ''traversal requires max_hops 1 to 32, node/edge/work limits 1 to 1000, elapsed at most 30 seconds, at most 1000 relation types and direction out, in or both'')
      else Inr ())"

definition validRef :: "ref \<Rightarrow> bool" where
  "validRef r \<longleftrightarrow> 0 < rID r \<and> isOk (ValidateTableName (rTable r))"

definition checkTraversal :: "tquery \<Rightarrow> graph_error + unit" where
  "checkTraversal q =
     (if TSeeds q = [] \<or> 1000 < length (TSeeds q)
         \<or> (case TTarget q of None \<Rightarrow> False | Some t \<Rightarrow> length (TSeeds q) \<noteq> 1 \<or> \<not> validRef t)
      then Inl (InvalidRequest ''traversal requires 1 to 1000 valid seeds, or one source and a valid target'')
      else if \<not> list_all validRef (TSeeds q)
      then Inl (InvalidRequest ''traversal references require a valid table and positive int64 id'')
      else ValidateTraversalLimits q)"

text \<open>
  The variables of \<^verbatim>\<open>Traverse\<close>: \<open>depths\<close>, \<open>parents\<close> and \<open>vias\<close> are the Go maps as association lists
  (one entry per key), \<open>known\<close> the keys of \<^verbatim>\<open>edges\<close>, \<open>pending\<close> the part of \<^verbatim>\<open>queue\<close> from \<^verbatim>\<open>head\<close> on,
  \<open>examined\<close> the counter of \<^verbatim>\<open>traversalView\<close> and \<open>tick\<close> the event counter.
\<close>

record tstate =
  depths :: "(ref \<times> nat) list"
  parents :: "(ref \<times> ref) list"
  vias :: "(ref \<times> edge) list"
  known :: "ref list"
  pending :: "ref list"
  outNodes :: "ref list"
  outEdges :: "edge list"
  examined :: nat
  tick :: nat

definition tfinish :: "world \<Rightarrow> tquery \<Rightarrow> tstate \<Rightarrow> string \<Rightarrow> graph_error + gresult" where
  "tfinish w q st reason =
     (case ctxErr w (tick st) of
        Some e \<Rightarrow> Inl (ContextError e)
      | None \<Rightarrow>
          let why = (if workErr w (Suc (tick st)) \<noteq> None then ''elapsed'' else reason) in
          Inr (if TTarget q \<noteq> None
               then \<lparr>RNodes = [], REdges = [], Truncated = (why \<noteq> ''complete''), StopReason = why\<rparr>
               else \<lparr>RNodes = sort (outNodes st), REdges = sortEdges (outEdges st),
                     Truncated = (why \<noteq> ''complete''), StopReason = why\<rparr>))"

definition tfail :: "world \<Rightarrow> tquery \<Rightarrow> tstate \<Rightarrow> graph_error \<Rightarrow> graph_error + gresult" where
  "tfail w q st err =
     (case ctxErr w (tick st) of
        Some e \<Rightarrow> Inl (ContextError e)
      | None \<Rightarrow>
          if workErr w (Suc (tick st)) \<noteq> None then tfinish w q (st\<lparr>tick := tick st + 2\<rparr>) ''elapsed''
          else Inl err)"

text \<open>The walk of \<^verbatim>\<open>found\<close> from the target back to the source; \<open>None\<close> when it does not end.\<close>

fun walkBack :: "nat \<Rightarrow> tstate \<Rightarrow> ref \<Rightarrow> ref \<Rightarrow> (ref list \<times> edge list) option" where
  "walkBack fuel st seed node =
     (if node = seed then Some ([], [])
      else case fuel of
          0 \<Rightarrow> None
        | Suc k \<Rightarrow>
            (case (map_of (parents st) node, map_of (vias st) node) of
               (Some p, Some e) \<Rightarrow> map_option (\<lambda>(ns, es). (p # ns, e # es)) (walkBack k st seed p)
             | _ \<Rightarrow> None))"

definition found :: "world \<Rightarrow> tquery \<Rightarrow> tstate \<Rightarrow> ref \<Rightarrow> graph_error + gresult" where
  "found w q st target =
     (case walkBack (length (depths st)) st (hd (TSeeds q)) target of
        None \<Rightarrow> Inl NoFuel
      | Some (ns, es) \<Rightarrow>
          (case ctxErr w (tick st) of
             Some e \<Rightarrow> Inl (ContextError e)
           | None \<Rightarrow>
               if workErr w (Suc (tick st)) \<noteq> None then tfinish w q (st\<lparr>tick := tick st + 2\<rparr>) ''elapsed''
               else Inr \<lparr>RNodes = rev (target # ns), REdges = rev es, Truncated = False, StopReason = ''complete''\<rparr>))"

text \<open>
  The steps below answer \<open>Inl\<close> with the final result when the source returns, and \<open>Inr\<close> with the
  new state otherwise. First the loop over the seeds.
\<close>

fun seedLoop :: "world \<Rightarrow> snapshot \<Rightarrow> tquery \<Rightarrow> tstate \<Rightarrow> ref list \<Rightarrow> (graph_error + gresult) + tstate" where
  "seedLoop w s q st [] = Inr st"
| "seedLoop w s q st0 (r # rs) =
     (let st = st0\<lparr>tick := Suc (tick st0)\<rparr> in
      case fault w (tick st0) of
        Some err \<Rightarrow> Inl (tfail w q st (StorageError err))
      | None \<Rightarrow>
          if \<not> visible s r then seedLoop w s q st rs
          else if int (length (depths st)) = LNodes (TLimits q) then Inl (tfinish w q st ''nodes'')
          else
            let st2 = st\<lparr>depths := (r, 0) # depths st, outNodes := outNodes st @ [r], pending := pending st @ [r]\<rparr> in
            if TTarget q = Some r then Inl (found w q st2 r)
            else seedLoop w s q st2 rs)"

definition otherEnd :: "ref \<Rightarrow> edge \<Rightarrow> ref" where
  "otherEnd node e = (if ETarget e = node then ESource e else ETarget e)"

definition depthOf :: "tstate \<Rightarrow> ref \<Rightarrow> nat" where
  "depthOf st r = (case map_of (depths st) r of None \<Rightarrow> 0 | Some d \<Rightarrow> d)"

definition discover :: "tstate \<Rightarrow> ref \<Rightarrow> edge \<Rightarrow> ref \<Rightarrow> tstate" where
  "discover st node e other =
     (if other \<in> fst ` set (depths st) then st
      else st\<lparr>depths := (other, depthOf st node + 1) # depths st, parents := (other, node) # parents st,
              vias := (other, e) # vias st, pending := pending st @ [other], outNodes := outNodes st @ [other]\<rparr>)"

fun expandLoop :: "world \<Rightarrow> tquery \<Rightarrow> ref \<Rightarrow> tstate \<Rightarrow> edge list \<Rightarrow> (graph_error + gresult) + tstate" where
  "expandLoop w q node st [] = Inr st"
| "expandLoop w q node st (e # es) =
     (if ERef e \<in> set (known st) then expandLoop w q node st es
      else if int (length (known st)) = LEdges (TLimits q) then Inl (tfinish w q st ''edges'')
      else
        let other = otherEnd node e in
        if other \<notin> fst ` set (depths st) \<and> int (length (depths st)) = LNodes (TLimits q)
        then Inl (tfinish w q st ''nodes'')
        else
          let st2 = discover st node e other;
              st3 = st2\<lparr>known := ERef e # known st2, outEdges := outEdges st2 @ [e]\<rparr>
          in if TTarget q = Some other then Inl (found w q st3 other)
             else expandLoop w q node st3 es)"

definition hopQuery :: "tquery \<Rightarrow> tstate \<Rightarrow> ref \<Rightarrow> query" where
  "hopQuery q st node =
     \<lparr>QNode = node, QDirection = TDirection q, QTypes = TTypes q,
      QLimits = \<lparr>LNodes = 1000, LEdges = TMaxWork q - int (examined st), LElapsed = LElapsed (TLimits q)\<rparr>\<rparr>"

text \<open>The contexts and faults \<^verbatim>\<open>Neighbors\<close> sees inside a traversal: the traversal's deadline is its caller.\<close>

definition hopWorld :: "world \<Rightarrow> world" where
  "hopWorld w = w\<lparr>ctxErr := workErr w, workErr := innerErr w\<rparr>"

definition visitNode :: "world \<Rightarrow> snapshot \<Rightarrow> tquery \<Rightarrow> tstate \<Rightarrow> ref \<Rightarrow> (graph_error + gresult) + tstate" where
  "visitNode w s q st0 node =
     (let st = st0\<lparr>tick := Suc (tick st0)\<rparr> in
      if workErr w (tick st0) \<noteq> None then Inl (tfinish w q st ''elapsed'')
      else if int (depthOf st node) = TMaxHops q then Inl (tfinish w q st ''hops'')
      else if TMaxWork q \<le> int (examined st) then Inl (tfinish w q st ''work'')
      else
        (case Neighbors (hopWorld w) (\<lambda>_. None) s (tick st) (hopQuery q st node) of
           (r, n2, cnt) \<Rightarrow>
             let st2 = st\<lparr>tick := n2, examined := examined st + cnt\<rparr> in
             (case r of
                Inl err \<Rightarrow> Inl (tfail w q st2 err)
              | Inr nxt \<Rightarrow>
                  (case expandLoop w q node st2 (REdges nxt) of
                     Inl res \<Rightarrow> Inl res
                   | Inr st3 \<Rightarrow>
                       if Truncated nxt
                       then Inl (tfinish w q st3 (if StopReason nxt = ''edges'' then ''work'' else StopReason nxt))
                       else Inr st3))))"

fun bfsLoop :: "world \<Rightarrow> snapshot \<Rightarrow> tquery \<Rightarrow> nat \<Rightarrow> tstate \<Rightarrow> graph_error + gresult" where
  "bfsLoop w s q fuel st =
     (case pending st of
        [] \<Rightarrow> tfinish w q st ''complete''
      | node # rest \<Rightarrow>
          (case fuel of
             0 \<Rightarrow> Inl NoFuel
           | Suc k \<Rightarrow>
               (case visitNode w s q (st\<lparr>pending := rest\<rparr>) node of
                  Inl res \<Rightarrow> res
                | Inr st2 \<Rightarrow> bfsLoop w s q k st2)))"

definition startState :: "nat \<Rightarrow> tstate" where
  "startState n =
     \<lparr>depths = [], parents = [], vias = [], known = [], pending = [], outNodes = [], outEdges = [],
      examined = 0, tick = n\<rparr>"

text \<open>\<^verbatim>\<open>slices.Compact\<close> of the sorted seeds removes neighbouring equals, that is, all duplicates.\<close>

definition seedQueue :: "tquery \<Rightarrow> ref list" where
  "seedQueue q = remdups_adj (sort (TSeeds q))"

definition Traverse :: "world \<Rightarrow> (nat \<Rightarrow> string option) \<Rightarrow> snapshot \<Rightarrow> tquery \<Rightarrow> graph_error + gresult" where
  "Traverse w opened s q =
     (case checkTraversal q of
        Inl e \<Rightarrow> Inl e
      | Inr _ \<Rightarrow>
          (case ctxErr w 0 of
             Some e \<Rightarrow> Inl (ContextError e)
           | None \<Rightarrow>
               (case opened 1 of
                  Some err \<Rightarrow> tfail w q (startState 2) (StorageError err)
                | None \<Rightarrow>
                    let run = (\<lambda>n. case seedLoop w s q (startState n) (seedQueue q) of
                                     Inl res \<Rightarrow> res
                                   | Inr st \<Rightarrow> bfsLoop w s q (Suc (nat (LNodes (TLimits q)))) st)
                    in (case TTarget q of
                          None \<Rightarrow> run 2
                        | Some t \<Rightarrow>
                            (case fault w 2 of
                               Some err \<Rightarrow> tfail w q (startState 3) (StorageError err)
                             | None \<Rightarrow>
                                 if \<not> visible s t then tfinish w q (startState 3) ''complete'' else run 3)))))"

end
