(* ===== verification/Graph_Props.thy ===== *)
theory Graph_Props
  imports Graph_Read
begin

text \<open>
  Correctness of the one-hop reader: what it returns is visible, incident, of the right
  direction and type, sorted and within the limits; and an answer that is not truncated is
  complete.
\<close>

section \<open>Edges a request may return\<close>

definition admissible :: "snapshot \<Rightarrow> query \<Rightarrow> edge \<Rightarrow> bool" where
  "admissible s q e \<longleftrightarrow> \<not> wrongDirection q e \<and> \<not> wrongType q e
     \<and> visible s (ERef e) \<and> visible s (ESource e) \<and> visible s (ETarget e)"

text \<open>The nodes and edges gathered so far fit together and into the limit.\<close>

definition hop_inv :: "snapshot \<Rightarrow> query \<Rightarrow> ref list \<Rightarrow> edge list \<Rightarrow> bool" where
  "hop_inv s q nodes acc \<longleftrightarrow> distinct nodes \<and> int (length nodes) \<le> LNodes (QLimits q)
     \<and> set nodes = insert (QNode q) (ESource ` set acc \<union> ETarget ` set acc)
     \<and> list_all (admissible s q) acc \<and> list_all (visible s) nodes"

lemma allVisible_spec:
  "allVisible w s n rs = (Inr b, n2) \<Longrightarrow> b = list_all (visible s) rs"
  by (induction w s n rs rule: allVisible.induct) (auto split: option.splits if_splits)

lemma addEnds_set: "set (addEnds nodes e) = insert (ESource e) (insert (ETarget e) (set nodes))"
  by (auto simp: addEnds_def Let_def)

lemma addEnds_distinct: "distinct nodes \<Longrightarrow> distinct (addEnds nodes e)"
  by (auto simp: addEnds_def Let_def)

lemma addEnds_length: "length (addEnds nodes e) = length nodes + needed nodes e"
  by (auto simp: addEnds_def needed_def Let_def)

lemma hop_inv_add:
  assumes "hop_inv s q nodes acc" "admissible s q e" "int (length nodes + needed nodes e) \<le> LNodes (QLimits q)"
  shows "hop_inv s q (addEnds nodes e) (acc @ [e])"
  using assms
  by (auto simp: hop_inv_def addEnds_set addEnds_distinct addEnds_length admissible_def list_all_iff)

lemma finish_Inr:
  "finish w n reason nodes acc = (Inr res, n2) \<Longrightarrow>
     RNodes res = sort nodes \<and> REdges res = sortEdges acc \<and> (Truncated res \<longleftrightarrow> StopReason res \<noteq> ''complete'')
     \<and> (\<not> Truncated res \<longrightarrow> reason = ''complete'')"
  by (auto simp: finish_def Let_def split: option.splits if_splits)

lemma failWith_Inr:
  "failWith w n err nodes acc = (Inr res, n2) \<Longrightarrow>
     RNodes res = sort nodes \<and> REdges res = sortEdges acc \<and> Truncated res \<and> StopReason res \<noteq> ''complete''"
  using finish_Inr by (fastforce simp: failWith_def split: option.splits if_splits)

text \<open>What the loop over the candidates \<open>es\<close> answers, from \<open>acc\<close> on.\<close>

definition loop_result :: "snapshot \<Rightarrow> query \<Rightarrow> bool \<Rightarrow> edge list \<Rightarrow> edge list \<Rightarrow> gresult \<Rightarrow> bool" where
  "loop_result s q further acc es res \<longleftrightarrow>
     (\<exists>nodes' acc'. RNodes res = sort nodes' \<and> REdges res = sortEdges acc' \<and> hop_inv s q nodes' acc'
        \<and> int (length acc') \<le> LEdges (QLimits q) \<and> set acc' \<subseteq> set acc \<union> set es
        \<and> (Truncated res \<longleftrightarrow> StopReason res \<noteq> ''complete'')
        \<and> (\<not> Truncated res \<longrightarrow> \<not> further \<and> acc' = acc @ filter (admissible s q) es))"

lemma loop_stop:
  assumes "hop_inv s q nodes acc" "int (length acc) \<le> LEdges (QLimits q)"
    and "RNodes res = sort nodes \<and> REdges res = sortEdges acc \<and> (Truncated res \<longleftrightarrow> StopReason res \<noteq> ''complete'')"
    and "Truncated res \<or> \<not> further \<and> es = []"
  shows "loop_result s q further acc es res"
  unfolding loop_result_def using assms by (intro exI [of _ nodes] exI [of _ acc]) auto

lemma loop_skip:
  "loop_result s q further acc es res \<Longrightarrow> \<not> admissible s q e \<Longrightarrow> loop_result s q further acc (e # es) res"
  by (fastforce simp: loop_result_def)

lemma loop_take:
  "loop_result s q further (acc @ [e]) es res \<Longrightarrow> admissible s q e \<Longrightarrow> loop_result s q further acc (e # es) res"
  by (fastforce simp: loop_result_def)

text \<open>One round of the loop: it stops short, skips a candidate that is not admissible, or takes one that is.\<close>

lemma edgeLoop_step:
  assumes "edgeLoop w s q further n i nodes acc (e # es) = (Inr res, n2)"
  shows "(RNodes res = sort nodes \<and> REdges res = sortEdges acc \<and> Truncated res \<and> StopReason res \<noteq> ''complete'')
    \<or> (\<not> admissible s q e \<and> int i \<noteq> LEdges (QLimits q)
        \<and> (\<exists>n3. edgeLoop w s q further n3 (Suc i) nodes acc es = (Inr res, n2)))
    \<or> (admissible s q e \<and> int i \<noteq> LEdges (QLimits q)
        \<and> int (length nodes + needed nodes e) \<le> LNodes (QLimits q)
        \<and> (\<exists>n3. edgeLoop w s q further n3 (Suc i) (addEnds nodes e) (acc @ [e]) es = (Inr res, n2)))"
proof (cases "workErr w n")
  case (Some err)
  with assms failWith_Inr show ?thesis by auto
next
  case None
  show ?thesis
  proof (cases "int i = LEdges (QLimits q)")
    case True
    with None assms finish_Inr show ?thesis by fastforce
  next
    case i: False
    show ?thesis
    proof (cases "wrongDirection q e \<or> wrongType q e")
      case True
      with None i assms show ?thesis by (auto simp: admissible_def split: if_splits)
    next
      case dt: False
      obtain v n3 where v: "allVisible w s (Suc n) [ERef e, ESource e, ETarget e] = (v, n3)" by force
      note run = assms [unfolded edgeLoop.simps None option.case] i dt
      show ?thesis
      proof (cases v)
        case (Inl err)
        with run v failWith_Inr show ?thesis by auto
      next
        case (Inr b)
        then have "admissible s q e \<longleftrightarrow> b"
          using v allVisible_spec dt by (fastforce simp: admissible_def)
        with run v Inr finish_Inr show ?thesis
          by (cases b) (fastforce simp del: allVisible.simps split: if_splits)+
      qed
    qed
  qed
qed

lemma edgeLoop_spec:
  assumes "edgeLoop w s q further n i nodes acc es = (Inr res, n2)" "hop_inv s q nodes acc"
    and "length acc \<le> i" "int i \<le> LEdges (QLimits q)"
  shows "loop_result s q further acc es res"
  using assms
proof (induction es arbitrary: n i nodes acc)
  case Nil
  then have "finish w n (if further then ''edges'' else ''complete'') nodes acc = (Inr res, n2)"
    by (simp split: if_splits)
  from finish_Inr [OF this] Nil(2-4) show ?case by (intro loop_stop) (auto split: if_splits)
next
  case (Cons e es)
  have len: "int (length acc) \<le> LEdges (QLimits q)" using Cons.prems(3,4) by linarith
  from edgeLoop_step [OF Cons.prems(1)] show ?case
  proof (elim disjE conjE exE)
    assume "RNodes res = sort nodes" "REdges res = sortEdges acc" "Truncated res" "StopReason res \<noteq> ''complete''"
    then show ?thesis by (intro loop_stop [OF Cons.prems(2) len]) auto
  next
    fix n3
    assume "\<not> admissible s q e" "int i \<noteq> LEdges (QLimits q)"
      "edgeLoop w s q further n3 (Suc i) nodes acc es = (Inr res, n2)"
    with Cons.IH [OF this(3) Cons.prems(2)] Cons.prems(3,4) show ?thesis by (intro loop_skip) auto
  next
    fix n3
    assume *: "admissible s q e" "int i \<noteq> LEdges (QLimits q)"
      "int (length nodes + needed nodes e) \<le> LNodes (QLimits q)"
      "edgeLoop w s q further n3 (Suc i) (addEnds nodes e) (acc @ [e]) es = (Inr res, n2)"
    with Cons.IH [OF *(4) hop_inv_add [OF Cons.prems(2) *(1,3)]] Cons.prems(3,4)
    show ?thesis by (intro loop_take) auto
  qed
qed

section \<open>One hop as a whole\<close>

definition hop_edges :: "snapshot \<Rightarrow> query \<Rightarrow> edge list" where
  "hop_edges s q = fst (adjacent s (QNode q) (QDirection q) (LEdges (QLimits q)))"

definition hop_more :: "snapshot \<Rightarrow> query \<Rightarrow> bool" where
  "hop_more s q = snd (adjacent s (QNode q) (QDirection q) (LEdges (QLimits q)))"

lemma checkQuery_limits:
  "checkQuery q = Inr u \<Longrightarrow> 1 \<le> LNodes (QLimits q) \<and> 1 \<le> LEdges (QLimits q)"
  by (auto simp: checkQuery_def Let_def split: if_splits)

lemma Neighbors_cases:
  assumes "Neighbors w opened s n q = (Inr res, n2, cnt)"
  obtains
    (fault) m err where "failWith w m err [] [] = (Inr res, n2)"
  | (hidden) m where "\<not> visible s (QNode q)" "finish w m ''complete'' [] [] = (Inr res, n2)"
  | (early) m err where "visible s (QNode q)" "failWith w m err [QNode q] [] = (Inr res, n2)"
  | (loop) m where "visible s (QNode q)" "cnt = length (hop_edges s q)"
      "edgeLoop w s q (hop_more s q) m 0 [QNode q] [] (sortEdges (hop_edges s q)) = (Inr res, n2)"
  using assms
  by (auto simp: Neighbors_def Let_def hop_edges_def hop_more_def split: option.splits if_splits prod.splits sum.splits)

lemma Neighbors_checked: "Neighbors w opened s n q = (Inr res, n2, cnt) \<Longrightarrow> checkQuery q = Inr ()"
  by (auto simp: Neighbors_def Let_def split: sum.splits)

text \<open>
  Whatever happens, an answer is empty or the state of the edge loop; it is empty and final
  only when the node itself is not visible.
\<close>

lemma Neighbors_Inr:
  assumes "Neighbors w opened s n q = (Inr res, n2, cnt)"
  shows "(Truncated res \<longleftrightarrow> StopReason res \<noteq> ''complete'') \<and>
    ((RNodes res = [] \<and> REdges res = [] \<and> (\<not> Truncated res \<longrightarrow> \<not> visible s (QNode q)))
     \<or> (visible s (QNode q) \<and> loop_result s q (hop_more s q) [] (sortEdges (hop_edges s q)) res))"
  using assms
proof (cases rule: Neighbors_cases)
  case (fault m err)
  from failWith_Inr [OF this] show ?thesis by (auto simp: sortEdges_def)
next
  case (hidden m)
  from finish_Inr [OF this(2)] this(1) show ?thesis by (auto simp: sortEdges_def)
next
  case (early m err)
  have "hop_inv s q [QNode q] []" "0 \<le> LEdges (QLimits q)"
    using early(1) checkQuery_limits [OF Neighbors_checked [OF assms]] by (auto simp: hop_inv_def)
  with failWith_Inr [OF early(2)] early(1) show ?thesis
    using loop_stop [of s q "[QNode q]" "[]" res] by auto
next
  case (loop m)
  have "hop_inv s q [QNode q] []" "0 \<le> LEdges (QLimits q)"
    using loop(1) checkQuery_limits [OF Neighbors_checked [OF assms]] by (auto simp: hop_inv_def)
  with edgeLoop_spec [OF loop(3)] have "loop_result s q (hop_more s q) [] (sortEdges (hop_edges s q)) res" by simp
  then show ?thesis using loop(1) by (auto simp: loop_result_def)
qed

lemma sortEdges_set [simp]: "set (sortEdges es) = set es"
  by (simp add: sortEdges_def)

text \<open>The two shapes of an answer.\<close>

lemma Neighbors_shape:
  assumes "Neighbors w opened s n q = (Inr res, n2, cnt)"
  obtains (empty) "RNodes res = []" "REdges res = []" "\<not> Truncated res \<longrightarrow> \<not> visible s (QNode q)"
  | (full) nodes acc where "RNodes res = sort nodes" "REdges res = sortEdges acc" "hop_inv s q nodes acc"
      "int (length acc) \<le> LEdges (QLimits q)" "set acc \<subseteq> set (hop_edges s q)" "visible s (QNode q)"
      "\<not> Truncated res \<longrightarrow> \<not> hop_more s q \<and> set acc = {e \<in> set (hop_edges s q). admissible s q e}"
  using Neighbors_Inr [OF assms] unfolding loop_result_def
  by (elim conjE disjE exE) (erule that(1), blast, blast, erule that(2), simp_all, auto)

lemma Neighbors_edges:
  assumes "Neighbors w opened s n q = (Inr res, n2, cnt)"
  shows "list_all (admissible s q) (REdges res)" "set (REdges res) \<subseteq> set (hop_edges s q)"
    "\<not> Truncated res \<Longrightarrow> visible s (QNode q) \<Longrightarrow>
       \<not> hop_more s q \<and> set (REdges res) = {e \<in> set (hop_edges s q). admissible s q e}"
  using assms by (cases rule: Neighbors_shape; auto simp: hop_inv_def list_all_iff)+

text \<open>
  What \<^verbatim>\<open>Neighbors\<close> returns is safe to show: every edge and every node is visible to the
  request, every edge touches the queried node in the asked direction and has an asked
  type, no edge comes without both its ends, nothing is listed twice or out of order, and
  neither list exceeds its limit.
\<close>

theorem Neighbors_sound:
  assumes "Neighbors w opened s n q = (Inr res, n2, cnt)"
  shows "list_all (admissible s q) (REdges res) \<and> list_all (visible s) (RNodes res)
    \<and> list_all (\<lambda>e. ESource e \<in> set (RNodes res) \<and> ETarget e \<in> set (RNodes res)) (REdges res)
    \<and> distinct (RNodes res) \<and> sorted (RNodes res) \<and> sorted (map ERef (REdges res))
    \<and> int (length (RNodes res)) \<le> LNodes (QLimits q) \<and> int (length (REdges res)) \<le> LEdges (QLimits q)"
  using assms
proof (cases rule: Neighbors_shape)
  case empty
  then show ?thesis using checkQuery_limits [OF Neighbors_checked [OF assms]] by simp
next
  case (full nodes acc)
  then show ?thesis by (auto simp: hop_inv_def list_all_iff sortEdges_def)
qed

definition sampleSnapshot :: snapshot where
  "sampleSnapshot =
     \<lparr>visible = (\<lambda>r. rID r < 9),
      adjacent = (\<lambda>r d l.
        ([\<lparr>ERef = Ref ''likes'' 2, ESource = Ref ''person'' 1, ETarget = Ref ''person'' 9, EType = ''likes''\<rparr>,
          \<lparr>ERef = Ref ''likes'' 1, ESource = Ref ''person'' 1, ETarget = Ref ''person'' 2, EType = ''likes''\<rparr>], False))\<rparr>"

definition quietWorld :: world where
  "quietWorld = \<lparr>ctxErr = (\<lambda>_. None), workErr = (\<lambda>_. None), innerErr = (\<lambda>_. None), fault = (\<lambda>_. None)\<rparr>"

definition sampleQuery :: query where
  "sampleQuery =
     \<lparr>QNode = Ref ''person'' 1, QDirection = ''out'', QTypes = [],
      QLimits = \<lparr>LNodes = 10, LEdges = 10, LElapsed = 1000\<rparr>\<rparr>"

definition sampleAnswer :: gresult where
  "sampleAnswer =
     \<lparr>RNodes = [Ref ''person'' 1, Ref ''person'' 2],
      REdges = [\<lparr>ERef = Ref ''likes'' 1, ESource = Ref ''person'' 1, ETarget = Ref ''person'' 2, EType = ''likes''\<rparr>],
      Truncated = False, StopReason = ''complete''\<rparr>"

lemma sample_neighbors: "Neighbors quietWorld (\<lambda>_. None) sampleSnapshot 0 sampleQuery = (Inr sampleAnswer, 14, 2)"
  by code_simp

theorem Neighbors_sound_witness:
  "list_all (admissible sampleSnapshot sampleQuery) (REdges sampleAnswer)
    \<and> list_all (visible sampleSnapshot) (RNodes sampleAnswer)"
  using Neighbors_sound [OF sample_neighbors] by blast

text \<open>
  An answer of \<^verbatim>\<open>Neighbors\<close> that is not marked truncated is complete: the snapshot held no
  further candidates, and the edges returned are exactly the admissible ones among the
  candidates.
\<close>

theorem Neighbors_complete:
  assumes "Neighbors w opened s n q = (Inr res, n2, cnt)" "\<not> Truncated res" "visible s (QNode q)"
  shows "\<not> hop_more s q \<and> set (REdges res) = {e \<in> set (hop_edges s q). admissible s q e}"
  using Neighbors_edges(3) [OF assms] .

theorem Neighbors_complete_witness:
  "set (REdges sampleAnswer) = {e \<in> set (hop_edges sampleSnapshot sampleQuery). admissible sampleSnapshot sampleQuery e}"
  using Neighbors_complete [OF sample_neighbors]
  by (simp add: sampleAnswer_def sampleSnapshot_def sampleQuery_def)

section \<open>One hop never needs fuel\<close>

lemma finish_no_fuel: "fst (finish w n reason nodes acc) \<noteq> Inl NoFuel"
  by (simp add: finish_def Let_def split: option.splits)

lemma failWith_no_fuel: "fst (failWith w n err nodes acc) \<noteq> Inl NoFuel"
  using finish_no_fuel by (simp add: failWith_def split: option.splits)

lemma edgeLoop_no_fuel: "fst (edgeLoop w s q further n i nodes acc es) \<noteq> Inl NoFuel"
proof (induction es arbitrary: n i nodes acc)
  case (Cons e es)
  show ?case
    using Cons.IH finish_no_fuel failWith_no_fuel
    by (simp del: allVisible.simps split: option.split prod.split sum.split bool.split)
qed (simp add: finish_no_fuel)

lemma hop_no_fuel [simp]:
  "finish w n reason nodes acc \<noteq> (Inl NoFuel, m)" "failWith w n err nodes acc \<noteq> (Inl NoFuel, m)"
  "edgeLoop w s q further n i nodes acc es \<noteq> (Inl NoFuel, m)"
  using finish_no_fuel failWith_no_fuel edgeLoop_no_fuel by (metis fst_conv)+

lemma Neighbors_no_fuel: "Neighbors w opened s n q \<noteq> (Inl NoFuel, n2, cnt)"
  by (auto simp: Neighbors_def Let_def checkQuery_def split: option.split prod.split sum.split)

end
