(* ===== verification/Graph_Traverse.thy ===== *)
theory Graph_Traverse
  imports Graph_Props
begin

text \<open>
  Correctness of \<^verbatim>\<open>Traverse\<close>: it always ends, a path it returns is a shortest one made of visible
  edges, and a search that is not truncated has missed nothing. The invariant \<open>bfs_inv\<close>
  describes the variables of the breadth-first loop with the nodes already expanded
  (\<open>proc\<close>) and the depth reached (\<open>lev\<close>); \<open>covered\<close> says that expansion missed no edge.
\<close>

section \<open>Paths\<close>

definition nodeQuery :: "tquery \<Rightarrow> ref \<Rightarrow> query" where
  "nodeQuery q a = \<lparr>QNode = a, QDirection = TDirection q, QTypes = TTypes q, QLimits = TLimits q\<rparr>"

definition edgeStep :: "snapshot \<Rightarrow> tquery \<Rightarrow> edge set \<Rightarrow> ref \<Rightarrow> edge \<Rightarrow> bool" where
  "edgeStep s q E a e \<longleftrightarrow> e \<in> E \<and> admissible s (nodeQuery q a) e"

fun path :: "snapshot \<Rightarrow> tquery \<Rightarrow> edge set \<Rightarrow> ref \<Rightarrow> edge list \<Rightarrow> ref \<Rightarrow> bool" where
  "path s q E a [] b = (a = b)"
| "path s q E a (e # es) b = (edgeStep s q E a e \<and> path s q E (otherEnd a e) es b)"

text \<open>The nodes a path visits.\<close>

fun trail :: "ref \<Rightarrow> edge list \<Rightarrow> ref list" where
  "trail a [] = [a]"
| "trail a (e # es) = a # trail (otherEnd a e) es"

text \<open>
  What storage promises about its edges \<open>E\<close>: it returns only those, their references are
  unique, and a list with no more to come holds every edge that touches the node in the
  asked direction.
\<close>

definition edges_in :: "snapshot \<Rightarrow> edge set \<Rightarrow> bool" where
  "edges_in s E \<longleftrightarrow> (\<forall>r d l. set (fst (adjacent s r d l)) \<subseteq> E)"

definition index_contract :: "snapshot \<Rightarrow> edge set \<Rightarrow> bool" where
  "index_contract s E \<longleftrightarrow> edges_in s E \<and> inj_on ERef E
     \<and> (\<forall>q. \<not> hop_more s q \<longrightarrow> (\<forall>e\<in>E. \<not> wrongDirection q e \<longrightarrow> e \<in> set (hop_edges s q)))"

lemma path_append: "path s q E a (es @ fs) c \<longleftrightarrow> (\<exists>b. path s q E a es b \<and> path s q E b fs c)"
  by (induction s q E a es c rule: path.induct) auto

lemma trail_append: "path s q E a es b \<Longrightarrow> trail a (es @ [e]) = trail a es @ [otherEnd b e]"
  by (induction s q E a es b rule: path.induct) auto

lemma trail_not_Nil [simp]: "trail a es \<noteq> []" "[] \<noteq> trail a es"
  by (cases es; simp)+

lemma admissible_nodeQuery [simp]: "admissible s (hopQuery q st a) e = admissible s (nodeQuery q a) e"
  by (simp add: admissible_def hopQuery_def nodeQuery_def wrongDirection_def wrongType_def)

lemma edgeStep_visible: "edgeStep s q E a e \<Longrightarrow> visible s (otherEnd a e)"
  by (auto simp: edgeStep_def admissible_def otherEnd_def)

lemma edgeStep_ends: "edgeStep s q E a e \<Longrightarrow> {a, otherEnd a e} = {ESource e, ETarget e}"
  by (auto simp: edgeStep_def admissible_def nodeQuery_def wrongDirection_def otherEnd_def)

section \<open>The invariant\<close>

abbreviation reached :: "tstate \<Rightarrow> ref set" where
  "reached st \<equiv> fst ` set (depths st)"

definition tree_ok :: "snapshot \<Rightarrow> tquery \<Rightarrow> edge set \<Rightarrow> tstate \<Rightarrow> ref \<Rightarrow> nat \<Rightarrow> bool" where
  "tree_ok s q E st v d \<longleftrightarrow>
     (if d = 0 then v \<in> set (TSeeds q)
      else \<exists>p e. map_of (parents st) v = Some p \<and> map_of (vias st) v = Some e \<and> edgeStep s q E p e
             \<and> otherEnd p e = v \<and> map_of (depths st) p = Some (d - 1))"

definition bfs_inv :: "snapshot \<Rightarrow> tquery \<Rightarrow> edge set \<Rightarrow> ref list \<Rightarrow> nat \<Rightarrow> tstate \<Rightarrow> bool" where
  "bfs_inv s q E proc lev st \<longleftrightarrow>
     distinct (map fst (depths st)) \<and> reached st = set proc \<union> set (pending st) \<and> distinct (proc @ pending st)
     \<and> int (length (depths st)) \<le> LNodes (TLimits q)
     \<and> distinct (outNodes st) \<and> set (outNodes st) = reached st \<and> list_all (visible s) (outNodes st)
     \<and> (\<forall>v d. map_of (depths st) v = Some d \<longrightarrow>
          int d \<le> TMaxHops q \<and> d < length (depths st) \<and> tree_ok s q E st v d)
     \<and> (\<forall>x\<in>set proc. depthOf st x \<le> lev) \<and> sorted (map (depthOf st) (pending st))
     \<and> (\<forall>y\<in>set (pending st). lev \<le> depthOf st y \<and> depthOf st y \<le> lev + 1)"

definition no_target :: "tquery \<Rightarrow> tstate \<Rightarrow> bool" where
  "no_target q st \<longleftrightarrow> (\<forall>t. TTarget q = Some t \<longrightarrow> t \<notin> reached st)"

definition edge_inv :: "snapshot \<Rightarrow> tquery \<Rightarrow> edge set \<Rightarrow> ref list \<Rightarrow> tstate \<Rightarrow> bool" where
  "edge_inv s q E proc st \<longleftrightarrow>
     set (known st) = ERef ` set (outEdges st) \<and> length (known st) = length (outEdges st)
     \<and> distinct (map ERef (outEdges st)) \<and> int (length (outEdges st)) \<le> LEdges (TLimits q)
     \<and> (\<forall>e\<in>set (outEdges st). \<exists>x\<in>set proc. edgeStep s q E x e \<and> otherEnd x e \<in> reached st)"

definition covered :: "snapshot \<Rightarrow> tquery \<Rightarrow> edge set \<Rightarrow> ref list \<Rightarrow> tstate \<Rightarrow> bool" where
  "covered s q E proc st \<longleftrightarrow>
     (\<forall>x\<in>set proc. \<forall>e. edgeStep s q E x e \<longrightarrow>
          otherEnd x e \<in> reached st \<and> depthOf st (otherEnd x e) \<le> depthOf st x + 1)"

definition seeds_done :: "snapshot \<Rightarrow> tquery \<Rightarrow> tstate \<Rightarrow> bool" where
  "seeds_done s q st \<longleftrightarrow> (\<forall>v\<in>set (TSeeds q). visible s v \<longrightarrow> map_of (depths st) v = Some 0)"

text \<open>A state that only knows more: the depths already assigned stay.\<close>

definition extends :: "tstate \<Rightarrow> tstate \<Rightarrow> bool" where
  "extends st st' \<longleftrightarrow> (\<forall>v d. map_of (depths st) v = Some d \<longrightarrow> map_of (depths st') v = Some d)"

lemma map_of_reached: "v \<in> reached st \<longleftrightarrow> (\<exists>d. map_of (depths st) v = Some d)"
  by (metis dom_map_of_conv_image_fst domIff not_Some_eq)

lemma depthOf_Some: "map_of (depths st) v = Some d \<Longrightarrow> depthOf st v = d"
  by (simp add: depthOf_def)

lemma reached_depthOf: "v \<in> reached st \<Longrightarrow> map_of (depths st) v = Some (depthOf st v)"
  by (auto simp: map_of_reached depthOf_def)

lemma extends_refl: "extends st st"
  by (simp add: extends_def)

lemma extends_trans: "extends a b \<Longrightarrow> extends b c \<Longrightarrow> extends a c"
  by (simp add: extends_def)

lemma extends_reached: "extends st st' \<Longrightarrow> v \<in> reached st \<Longrightarrow> v \<in> reached st' \<and> depthOf st' v = depthOf st v"
  by (auto simp: extends_def map_of_reached depthOf_def)

lemma covered_extends: "covered s q E proc st \<Longrightarrow> set proc \<subseteq> reached st \<Longrightarrow> extends st st' \<Longrightarrow> covered s q E proc st'"
  using extends_reached [of st st'] by (auto simp: covered_def extends_def subset_iff)

lemma bfs_treeD:
  "bfs_inv s q E proc lev st \<Longrightarrow> map_of (depths st) v = Some d \<Longrightarrow>
     int d \<le> TMaxHops q \<and> d < length (depths st) \<and> tree_ok s q E st v d"
  unfolding bfs_inv_def by blast

lemma bfs_visible: "bfs_inv s q E proc lev st \<Longrightarrow> v \<in> reached st \<Longrightarrow> visible s v"
  unfolding bfs_inv_def list_all_iff by blast

lemma bfs_keys: "bfs_inv s q E proc lev st \<Longrightarrow> reached st = set proc \<union> set (pending st)"
  unfolding bfs_inv_def by blast

lemma bfs_levels:
  "bfs_inv s q E proc lev st \<Longrightarrow> v \<in> set proc \<Longrightarrow> depthOf st v \<le> lev"
  "bfs_inv s q E proc lev st \<Longrightarrow> v \<in> set (pending st) \<Longrightarrow> lev \<le> depthOf st v \<and> depthOf st v \<le> lev + 1"
  unfolding bfs_inv_def by blast+

lemma bfs_level: "bfs_inv s q E proc lev st \<Longrightarrow> v \<in> reached st \<Longrightarrow> depthOf st v \<le> lev + 1"
  using bfs_keys bfs_levels(1) bfs_levels(2) by (metis Un_iff le_SucI Suc_eq_plus1)

section \<open>One step forward\<close>

lemma depthOf_Cons: "depthOf (st\<lparr>depths := (v, d) # ds\<rparr>) x = (if x = v then d else depthOf (st\<lparr>depths := ds\<rparr>) x)"
  by (simp add: depthOf_def)

lemma discover_new:
  assumes "v \<notin> reached st"
  shows "depths (discover st u e v) = (v, depthOf st u + 1) # depths st"
    "parents (discover st u e v) = (v, u) # parents st" "vias (discover st u e v) = (v, e) # vias st"
    "pending (discover st u e v) = pending st @ [v]" "outNodes (discover st u e v) = outNodes st @ [v]"
    "known (discover st u e v) = known st" "outEdges (discover st u e v) = outEdges st"
  using assms by (simp_all add: discover_def)

lemma discover_old: "v \<in> reached st \<Longrightarrow> discover st u e v = st"
  by (simp add: discover_def)

lemma discover_depthOf:
  "v \<notin> reached st \<Longrightarrow> depthOf (discover st u e v) x = (if x = v then depthOf st u + 1 else depthOf st x)"
  by (simp add: depthOf_def discover_new)

lemma discover_extends: "extends st (discover st u e v)"
  by (cases "v \<in> reached st") (auto simp: discover_old extends_def discover_new map_of_reached)

lemma tree_ok_discover:
  assumes "tree_ok s q E st x d" "x \<noteq> v" "v \<notin> reached st"
  shows "tree_ok s q E (discover st u e v) x d"
  using assms discover_extends [of st u e v]
  by (auto simp: tree_ok_def discover_new extends_def split: if_splits)

lemma discover_tree:
  assumes inv: "bfs_inv s q E proc lev st" and u: "u \<in> set proc" "depthOf st u = lev" "edgeStep s q E u e"
    and v: "otherEnd u e \<notin> reached st" and lev: "int lev < TMaxHops q"
    and d: "map_of (depths (discover st u e (otherEnd u e))) x = Some d"
  shows "int d \<le> TMaxHops q \<and> d < length (depths (discover st u e (otherEnd u e)))
    \<and> tree_ok s q E (discover st u e (otherEnd u e)) x d"
proof (cases "x = otherEnd u e")
  case True
  have "u \<in> reached st" using inv u(1) by (auto simp: bfs_inv_def)
  then have mu: "map_of (depths st) u = Some lev" using reached_depthOf u(2) by metis
  then have "lev < length (depths st)" using inv by (auto simp: bfs_inv_def)
  moreover have "u \<noteq> otherEnd u e" using \<open>u \<in> reached st\<close> v by metis
  ultimately show ?thesis
    using True d lev u mu by (auto simp: tree_ok_def discover_new [OF v])
next
  case False
  with d have x: "map_of (depths st) x = Some d" by (simp add: discover_new [OF v])
  then have "int d \<le> TMaxHops q \<and> d < length (depths st) \<and> tree_ok s q E st x d" using inv by (simp add: bfs_inv_def)
  with tree_ok_discover [OF _ False v] show ?thesis by (auto simp: discover_new [OF v])
qed

lemma discover_inv:
  assumes inv: "bfs_inv s q E proc lev st" and u: "u \<in> set proc" "depthOf st u = lev" "edgeStep s q E u e"
    and lev: "int lev < TMaxHops q"
    and room: "otherEnd u e \<in> reached st \<or> int (length (depths st)) < LNodes (TLimits q)"
  shows "bfs_inv s q E proc lev (discover st u e (otherEnd u e))"
proof (cases "otherEnd u e \<in> reached st")
  case True
  then show ?thesis using inv by (simp add: discover_old)
next
  case v: False
  let ?v = "otherEnd u e" and ?st = "discover st u e (otherEnd u e)"
  have pd: "\<forall>y\<in>set (pending st). lev \<le> depthOf st y \<and> depthOf st y \<le> lev + 1" "sorted (map (depthOf st) (pending st))"
    "\<forall>x\<in>set proc. depthOf st x \<le> lev"
    and keys: "reached st = set proc \<union> set (pending st)" using inv by (auto simp: bfs_inv_def)
  have old: "depthOf ?st y = depthOf st y" if "y \<in> set proc \<union> set (pending st)" for y
    using that v keys by (auto simp: discover_depthOf)
  have "map (depthOf ?st) (pending ?st) = map (depthOf st) (pending st) @ [lev + 1]"
    using old u(2) v by (simp add: discover_new discover_depthOf)
  then have "sorted (map (depthOf ?st) (pending ?st))" using pd by (auto simp: sorted_append)
  moreover have "\<forall>y\<in>set (pending ?st). lev \<le> depthOf ?st y \<and> depthOf ?st y \<le> lev + 1"
    using pd(1) old u(2) v by (auto simp: discover_new discover_depthOf)
  moreover have "\<forall>x\<in>set proc. depthOf ?st x \<le> lev" using pd(3) old by auto
  moreover have "\<forall>x d. map_of (depths ?st) x = Some d \<longrightarrow>
      int d \<le> TMaxHops q \<and> d < length (depths ?st) \<and> tree_ok s q E ?st x d"
    using discover_tree [OF inv u v lev] by blast
  moreover have "visible s ?v" using edgeStep_visible [OF u(3)] .
  ultimately show ?thesis
    using inv v room by (auto simp: bfs_inv_def discover_new)
qed

section \<open>Answers\<close>

definition path_answer :: "snapshot \<Rightarrow> tquery \<Rightarrow> edge set \<Rightarrow> ref \<Rightarrow> gresult \<Rightarrow> bool" where
  "path_answer s q E t res \<longleftrightarrow> path s q E (hd (TSeeds q)) (REdges res) t
     \<and> RNodes res = trail (hd (TSeeds q)) (REdges res) \<and> int (length (REdges res)) \<le> TMaxHops q"

definition shortest :: "snapshot \<Rightarrow> tquery \<Rightarrow> edge set \<Rightarrow> ref \<Rightarrow> gresult \<Rightarrow> bool" where
  "shortest s q E t res \<longleftrightarrow> (\<forall>es. path s q E (hd (TSeeds q)) es t \<longrightarrow> length (REdges res) \<le> length es)"

definition subgraph_answer :: "snapshot \<Rightarrow> tquery \<Rightarrow> edge set \<Rightarrow> gresult \<Rightarrow> bool" where
  "subgraph_answer s q E res \<longleftrightarrow>
     sorted (RNodes res) \<and> distinct (RNodes res) \<and> list_all (visible s) (RNodes res)
     \<and> int (length (RNodes res)) \<le> LNodes (TLimits q)
     \<and> sorted (map ERef (REdges res)) \<and> distinct (map ERef (REdges res)) \<and> int (length (REdges res)) \<le> LEdges (TLimits q)
     \<and> list_all (\<lambda>e. \<exists>x\<in>set (RNodes res). edgeStep s q E x e \<and> otherEnd x e \<in> set (RNodes res)) (REdges res)"

definition nothing :: "gresult \<Rightarrow> bool" where
  "nothing res \<longleftrightarrow> RNodes res = [] \<and> REdges res = []"

text \<open>Every node a path from a visible seed leads to is listed; for a target, there is no path at all.\<close>

definition complete :: "snapshot \<Rightarrow> tquery \<Rightarrow> edge set \<Rightarrow> gresult \<Rightarrow> bool" where
  "complete s q E res \<longleftrightarrow>
     (case TTarget q of
        None \<Rightarrow> \<forall>a es v. a \<in> set (TSeeds q) \<longrightarrow> visible s a \<longrightarrow> path s q E a es v \<longrightarrow> v \<in> set (RNodes res)
      | Some t \<Rightarrow> nothing res \<longrightarrow>
          \<not> (visible s (hd (TSeeds q)) \<and> visible s t \<and> (\<exists>es. path s q E (hd (TSeeds q)) es t)))"

definition answer_ok :: "snapshot \<Rightarrow> tquery \<Rightarrow> edge set \<Rightarrow> gresult \<Rightarrow> bool" where
  "answer_ok s q E res \<longleftrightarrow>
     (case TTarget q of
        None \<Rightarrow> subgraph_answer s q E res
      | Some t \<Rightarrow> nothing res \<or> path_answer s q E t res \<and> (index_contract s E \<longrightarrow> shortest s q E t res))
     \<and> (\<not> Truncated res \<longrightarrow> index_contract s E \<longrightarrow> complete s q E res)"

definition final :: "snapshot \<Rightarrow> tquery \<Rightarrow> edge set \<Rightarrow> graph_error + gresult \<Rightarrow> bool" where
  "final s q E r = (case r of Inl e \<Rightarrow> e \<noteq> NoFuel | Inr res \<Rightarrow> answer_ok s q E res)"

text \<open>What a state must satisfy for the lists gathered so far to be shown.\<close>

definition out_inv :: "snapshot \<Rightarrow> tquery \<Rightarrow> edge set \<Rightarrow> tstate \<Rightarrow> bool" where
  "out_inv s q E st \<longleftrightarrow> distinct (outNodes st) \<and> list_all (visible s) (outNodes st)
     \<and> int (length (outNodes st)) \<le> LNodes (TLimits q)
     \<and> distinct (map ERef (outEdges st)) \<and> int (length (outEdges st)) \<le> LEdges (TLimits q)
     \<and> list_all (\<lambda>e. \<exists>x\<in>set (outNodes st). edgeStep s q E x e \<and> otherEnd x e \<in> set (outNodes st)) (outEdges st)"

lemma out_inv_bfs:
  assumes "bfs_inv s q E proc lev st" "edge_inv s q E proc st"
  shows "out_inv s q E st"
proof -
  have "length (outNodes st) = length (depths st)"
    using assms(1) by (auto simp: bfs_inv_def dest!: distinct_card)
  then show ?thesis using assms by (auto simp: out_inv_def bfs_inv_def edge_inv_def list_all_iff)
qed

lemma sort_key_distinct_map: "distinct (map f xs) \<Longrightarrow> distinct (map f (sort_key f xs))"
  by (metis distinct_map distinct_sort set_sort)

lemma subgraph_out:
  assumes "out_inv s q E st"
  shows "subgraph_answer s q E \<lparr>RNodes = sort (outNodes st), REdges = sortEdges (outEdges st), Truncated = b, StopReason = r\<rparr>"
  using assms
  by (auto simp: subgraph_answer_def out_inv_def list_all_iff sortEdges_def intro: sort_key_distinct_map)

lemma tfinish_final:
  assumes "out_inv s q E st"
    and "reason = ''complete'' \<Longrightarrow> index_contract s E \<Longrightarrow>
      complete s q E \<lparr>RNodes = (if TTarget q \<noteq> None then [] else sort (outNodes st)),
        REdges = (if TTarget q \<noteq> None then [] else sortEdges (outEdges st)), Truncated = False, StopReason = ''complete''\<rparr>"
  shows "final s q E (tfinish w q st reason)"
proof (cases "ctxErr w (tick st)")
  case (Some e)
  then show ?thesis by (simp add: final_def tfinish_def)
next
  case None
  show ?thesis
  proof (cases "workErr w (Suc (tick st)) = None \<and> reason = ''complete''")
    case True
    with None assms subgraph_out [OF assms(1)] show ?thesis
      by (auto simp: final_def tfinish_def Let_def answer_ok_def nothing_def split: option.splits)
  next
    case False
    with None subgraph_out [OF assms(1)] show ?thesis
      by (auto simp: final_def tfinish_def Let_def answer_ok_def nothing_def split: option.splits)
  qed
qed

lemma tfinish_stop: "out_inv s q E st \<Longrightarrow> reason \<noteq> ''complete'' \<Longrightarrow> final s q E (tfinish w q st reason)"
  by (rule tfinish_final) auto

lemma out_inv_tick [simp]:
  "out_inv s q E (st\<lparr>tick := n\<rparr>) = out_inv s q E st"
  "out_inv s q E (st\<lparr>examined := m\<rparr>) = out_inv s q E st"
  "out_inv s q E (st\<lparr>pending := ps\<rparr>) = out_inv s q E st"
  by (simp_all add: out_inv_def)

lemma tfail_final:
  "out_inv s q E st \<Longrightarrow> err \<noteq> NoFuel \<Longrightarrow> final s q E (tfail w q st err)"
  by (auto simp: tfail_def final_def [of _ _ _ "Inl _"] intro: tfinish_stop split: option.splits)

section \<open>Walking back\<close>

declare walkBack.simps [simp del]

lemma walkBack_spec:
  assumes inv: "bfs_inv s q E proc lev st" and seeds: "seeds_done s q st" "TSeeds q = [seed]"
    and "map_of (depths st) v = Some d" "d \<le> fuel"
  shows "\<exists>ns es. walkBack fuel st seed v = Some (ns, es) \<and> length es = d
    \<and> path s q E seed (rev es) v \<and> rev (v # ns) = trail seed (rev es)"
  using assms(4,5)
proof (induction d arbitrary: v fuel)
  case 0
  then have "v = seed" using bfs_treeD [OF inv] seeds(2) by (fastforce simp: tree_ok_def)
  then show ?case by (subst walkBack.simps) simp
next
  case (Suc d)
  have v: "v \<in> reached st" using Suc.prems(1) map_of_reached by metis
  then have "visible s v" by (rule bfs_visible [OF inv])
  then have "v \<noteq> seed" using seeds Suc.prems(1) by (auto simp: seeds_done_def)
  obtain p e where pe: "map_of (parents st) v = Some p" "map_of (vias st) v = Some e" "edgeStep s q E p e"
    "otherEnd p e = v" "map_of (depths st) p = Some d"
    using bfs_treeD [OF inv Suc.prems(1)] by (auto simp: tree_ok_def)
  obtain k where k: "fuel = Suc k" "d \<le> k" using Suc.prems(2) by (cases fuel) auto
  from Suc.IH [OF pe(5) k(2)] obtain ns es where w: "walkBack k st seed p = Some (ns, es)" "length es = d"
    "path s q E seed (rev es) p" "rev (p # ns) = trail seed (rev es)" by auto
  have "walkBack fuel st seed v = Some (p # ns, e # es)"
    using \<open>v \<noteq> seed\<close> k pe w by (subst walkBack.simps) simp
  moreover have "path s q E seed (rev (e # es)) v" using w(3) pe by (auto simp: path_append)
  moreover have "rev (v # p # ns) = trail seed (rev (e # es))"
    using trail_append [OF w(3), of e] w(4) pe(4) by simp
  ultimately show ?case using w(2) by auto
qed

lemma found_final:
  assumes inv: "bfs_inv s q E proc lev st" "edge_inv s q E proc st" and seeds: "seeds_done s q st" "TSeeds q = [seed]"
    and t: "map_of (depths st) t = Some d" "TTarget q = Some t"
    and best: "index_contract s E \<Longrightarrow> \<forall>es. path s q E seed es t \<longrightarrow> d \<le> length es"
  shows "final s q E (found w q st t)"
proof -
  have d: "d \<le> length (depths st)" "int d \<le> TMaxHops q" using bfs_treeD [OF inv(1) t(1)] by auto
  from walkBack_spec [OF inv(1) seeds t(1) d(1)] obtain ns es where
    w: "walkBack (length (depths st)) st seed t = Some (ns, es)" "length es = d"
      "path s q E seed (rev es) t" "rev (t # ns) = trail seed (rev es)" by auto
  have "answer_ok s q E \<lparr>RNodes = rev (t # ns), REdges = rev es, Truncated = False, StopReason = ''complete''\<rparr>"
    using w d t(2) seeds(2) best
    by (auto simp: answer_ok_def path_answer_def shortest_def complete_def nothing_def)
  then show ?thesis
    using w(1) seeds(2) tfinish_stop [OF out_inv_bfs [OF inv, THEN iffD2 [OF out_inv_tick(1)]]]
    by (auto simp: found_def final_def [of _ _ _ "Inl _"] final_def [of _ _ _ "Inr _"] split: option.splits)
qed

section \<open>Nothing is missed\<close>

lemma closure:
  assumes "covered s q E proc st" "seeds_done s q st"
    and exp: "\<And>v. v \<in> reached st \<Longrightarrow> depthOf st v < k \<Longrightarrow> v \<in> set proc"
    and a: "a \<in> set (TSeeds q)" "visible s a" and "path s q E a es v" "length es \<le> k"
  shows "v \<in> reached st \<and> depthOf st v \<le> length es"
  using assms(6,7)
proof (induction es arbitrary: v rule: rev_induct)
  case Nil
  have "map_of (depths st) a = Some 0" using assms(2) a by (simp add: seeds_done_def)
  with Nil show ?case by (auto simp: map_of_reached depthOf_def)
next
  case (snoc e es)
  then obtain b where b: "path s q E a es b" "edgeStep s q E b e" "v = otherEnd b e" by (auto simp: path_append)
  with snoc have "b \<in> reached st \<and> depthOf st b \<le> length es" by simp
  moreover from this snoc.prems(2) have "b \<in> set proc" using exp [of b] by simp
  ultimately show ?case using assms(1) b by (fastforce simp: covered_def)
qed

text \<open>Before a node of depth \<open>lev\<close> is expanded, all nodes closer to the seeds are.\<close>

lemma shallow_done:
  assumes "bfs_inv s q E (proc @ [u]) lev st" "depthOf st u = lev" "v \<in> reached st" "depthOf st v < lev"
  shows "v \<in> set proc"
  using bfs_keys [OF assms(1)] bfs_levels(2) [OF assms(1), of v] assms(2-4) by auto

section \<open>Expanding a node\<close>

definition noteEdge :: "tstate \<Rightarrow> edge \<Rightarrow> tstate" where
  "noteEdge st e = st\<lparr>known := ERef e # known st, outEdges := outEdges st @ [e]\<rparr>"

lemma bfs_inv_cong:
  assumes "depths st' = depths st" "parents st' = parents st" "vias st' = vias st" "pending st' = pending st"
    "outNodes st' = outNodes st"
  shows "bfs_inv s q E proc lev st' = bfs_inv s q E proc lev st"
proof -
  have "depthOf st' = depthOf st" "tree_ok s q E st' = tree_ok s q E st"
    using assms by (auto simp: fun_eq_iff depthOf_def tree_ok_def)
  then show ?thesis using assms by (simp add: bfs_inv_def)
qed

lemma noteEdge_keeps [simp]:
  "depths (noteEdge st e) = depths st" "pending (noteEdge st e) = pending st"
  "depthOf (noteEdge st e) v = depthOf st v"
  "no_target q (noteEdge st e) = no_target q st" "seeds_done s q (noteEdge st e) = seeds_done s q st"
  "extends st' (noteEdge st e) = extends st' st"
  by (simp_all add: noteEdge_def depthOf_def no_target_def seeds_done_def extends_def)

lemma noteEdge_bfs [simp]: "bfs_inv s q E proc lev (noteEdge st e) = bfs_inv s q E proc lev st"
  by (rule bfs_inv_cong) (simp_all add: noteEdge_def)

lemma discover_reached: "reached (discover st u e v) = insert v (reached st)"
  by (cases "v \<in> reached st") (auto simp: discover_old discover_new)

lemma edge_inv_note:
  assumes "edge_inv s q E proc st" "u \<in> set proc" "edgeStep s q E u e" "ERef e \<notin> set (known st)"
    and "int (length (known st)) < LEdges (TLimits q)"
  shows "edge_inv s q E proc (noteEdge (discover st u e (otherEnd u e)) e)"
proof -
  let ?st = "discover st u e (otherEnd u e)"
  have same: "known ?st = known st" "outEdges ?st = outEdges st" by (simp_all add: discover_def)
  have "\<exists>x\<in>set proc. edgeStep s q E x e' \<and> otherEnd x e' \<in> insert (otherEnd u e) (reached st)"
    if "e' \<in> set (outEdges st) \<or> e' = e" for e'
    using assms(1-3) that unfolding edge_inv_def by blast
  then show ?thesis
    using assms unfolding edge_inv_def noteEdge_keeps discover_reached
    by (simp add: noteEdge_def same image_iff)
qed

lemma known_reached:
  assumes "edge_inv s q E proc st" "bfs_inv s q E proc lev st" "inj_on ERef E"
    and "edgeStep s q E u e" "ERef e \<in> set (known st)"
  shows "otherEnd u e \<in> reached st"
proof -
  obtain e' where e': "e' \<in> set (outEdges st)" "ERef e' = ERef e"
    using assms(1,5) by (auto simp: edge_inv_def)
  then obtain x where x: "x \<in> set proc" "edgeStep s q E x e'" "otherEnd x e' \<in> reached st"
    using assms(1) unfolding edge_inv_def by blast
  have "e' = e" using assms(3,4) e' x(2) by (auto simp: edgeStep_def inj_on_def)
  then have "{x, otherEnd x e} = {u, otherEnd u e}"
    using edgeStep_ends [of s q E x e] edgeStep_ends [OF assms(4)] x(2) by simp
  then have "otherEnd u e = x \<or> otherEnd u e = otherEnd x e" by (simp add: doubleton_eq_iff) blast
  moreover have "x \<in> reached st" using x(1) bfs_keys [OF assms(2)] by simp
  ultimately show ?thesis using x(3) \<open>e' = e\<close> by metis
qed

definition loop_ok ::
    "snapshot \<Rightarrow> tquery \<Rightarrow> edge set \<Rightarrow> ref list \<Rightarrow> nat \<Rightarrow> tstate \<Rightarrow> bool" where
  "loop_ok s q E proc lev st \<longleftrightarrow> bfs_inv s q E proc lev st \<and> edge_inv s q E proc st \<and> no_target q st
     \<and> seeds_done s q st"

lemma expandLoop_spec:
  assumes "loop_ok s q E (proc @ [u]) lev st" "depthOf st u = lev" "int lev < TMaxHops q"
    and "list_all (edgeStep s q E u) es" "index_contract s E \<Longrightarrow> covered s q E proc st"
    and "TTarget q = None \<or> (\<exists>seed. TSeeds q = [seed] \<and> visible s seed)"
  shows "case expandLoop w q u st es of
      Inl r \<Rightarrow> final s q E r
    | Inr st' \<Rightarrow> loop_ok s q E (proc @ [u]) lev st' \<and> extends st st'
        \<and> (index_contract s E \<longrightarrow> (\<forall>e\<in>set es. otherEnd u e \<in> reached st'))"
  using assms
proof (induction es arbitrary: st)
  case Nil
  then show ?case by (simp add: extends_refl)
next
  case (Cons e es)
  note inv = Cons.prems(1) [unfolded loop_ok_def]
  have step: "edgeStep s q E u e" and rest: "list_all (edgeStep s q E u) es" using Cons.prems(4) by auto
  have out: "out_inv s q E st" using inv out_inv_bfs by blast
  let ?o = "otherEnd u e" and ?st2 = "discover st u e (otherEnd u e)"
  let ?st3 = "noteEdge ?st2 e"
  show ?case
  proof (cases "ERef e \<in> set (known st)")
    case True
    have "?o \<in> reached st" if "index_contract s E"
      using known_reached [of s q E "proc @ [u]" st lev u e] inv step True that by (simp add: index_contract_def)
    with Cons.IH [OF Cons.prems(1-3) rest Cons.prems(5,6)] True extends_reached [of st] show ?thesis
      by (auto split: sum.splits)
  next
    case fresh: False
    show ?thesis
    proof (cases "int (length (known st)) = LEdges (TLimits q)
        \<or> (?o \<notin> reached st \<and> int (length (depths st)) = LNodes (TLimits q))")
      case True
      with fresh tfinish_stop [OF out] show ?thesis by (auto simp: Let_def)
    next
      case False
      have kn: "int (length (known st)) < LEdges (TLimits q)" using False inv by (auto simp: edge_inv_def)
      have room: "?o \<in> reached st \<or> int (length (depths st)) < LNodes (TLimits q)"
        using False inv by (auto simp: bfs_inv_def)
      have b3: "bfs_inv s q E (proc @ [u]) lev ?st3"
        using discover_inv [OF _ _ Cons.prems(2) step Cons.prems(3) room] inv by simp
      have e3: "edge_inv s q E (proc @ [u]) ?st3"
        using edge_inv_note [OF _ _ step fresh kn] inv by simp
      have x3: "extends st ?st3" using discover_extends by simp
      have s3: "seeds_done s q ?st3" using inv x3 by (auto simp: seeds_done_def extends_def)
      have d3: "depthOf ?st3 u = lev" "?o \<in> reached ?st3"
        using extends_reached [OF x3, of u] bfs_keys [OF conjunct1 [OF inv]] Cons.prems(2)
        by (auto simp: discover_reached)
      have run: "expandLoop w q u st (e # es) =
          (if TTarget q = Some ?o then Inl (found w q ?st3 ?o) else expandLoop w q u ?st3 es)"
        using fresh False by (auto simp: Let_def noteEdge_def)
      show ?thesis
      proof (cases "TTarget q = Some ?o")
        case True
        then obtain seed where seed: "TSeeds q = [seed]" "visible s seed" using Cons.prems(6) by auto
        have new: "?o \<notin> reached st" using inv True by (auto simp: no_target_def)
        then have dep: "map_of (depths ?st3) ?o = Some (lev + 1)"
          using Cons.prems(2) by (simp add: discover_new)
        have "lev + 1 \<le> length fs" if "index_contract s E" "path s q E seed fs ?o" for fs
          using closure [OF Cons.prems(5) [OF that(1)], of lev seed fs ?o] inv seed that new
            shallow_done [OF conjunct1 [OF inv] Cons.prems(2)] by force
        with found_final [OF b3 e3 s3 seed(1) dep True] run True show ?thesis by simp
      next
        case False
        have "no_target q ?st3" using inv False by (auto simp: no_target_def discover_reached)
        then have ok3: "loop_ok s q E (proc @ [u]) lev ?st3" using b3 e3 s3 by (simp add: loop_ok_def)
        have cov: "covered s q E proc ?st3" if "index_contract s E"
          using covered_extends [OF Cons.prems(5) [OF that] _ x3] bfs_keys [OF conjunct1 [OF inv]] by auto
        from Cons.IH [OF ok3 d3(1) Cons.prems(3) rest cov Cons.prems(6)] run False
        show ?thesis using extends_trans [OF x3] extends_reached [of ?st3] d3(2)
          by (auto split: sum.splits)
      qed
    qed
  qed
qed

section \<open>The breadth-first loop\<close>

lemma loop_ok_cong:
  assumes "depths st' = depths st" "parents st' = parents st" "vias st' = vias st" "pending st' = pending st"
    "outNodes st' = outNodes st" "known st' = known st" "outEdges st' = outEdges st"
  shows "loop_ok s q E proc lev st' = loop_ok s q E proc lev st"
  using assms bfs_inv_cong [OF assms(1-5)]
  by (simp add: loop_ok_def edge_inv_def no_target_def seeds_done_def)

lemma dequeue:
  assumes "loop_ok s q E proc lev st" "pending st = u # rest"
  shows "loop_ok s q E (proc @ [u]) (depthOf st u) (st\<lparr>pending := rest\<rparr>)"
proof -
  have b: "bfs_inv s q E proc lev st" using assms(1) by (simp add: loop_ok_def)
  have d: "depthOf (st\<lparr>pending := rest\<rparr>) = depthOf st" "tree_ok s q E (st\<lparr>pending := rest\<rparr>) = tree_ok s q E st"
    by (auto simp: fun_eq_iff depthOf_def tree_ok_def)
  have lev: "lev \<le> depthOf st u" "sorted (map (depthOf st) (u # rest))"
    "\<And>y. y \<in> set rest \<Longrightarrow> depthOf st y \<le> lev + 1" "\<And>x. x \<in> set proc \<Longrightarrow> depthOf st x \<le> lev"
    using b assms(2) bfs_levels [OF b] unfolding bfs_inv_def by auto
  have "bfs_inv s q E (proc @ [u]) (depthOf st u) (st\<lparr>pending := rest\<rparr>)"
    unfolding bfs_inv_def d
    using b assms(2) lev by (auto simp: bfs_inv_def intro: le_trans dest: lev(3,4))
  moreover have "edge_inv s q E (proc @ [u]) (st\<lparr>pending := rest\<rparr>)"
    using assms(1) unfolding loop_ok_def edge_inv_def by auto
  ultimately show ?thesis using assms(1) by (simp add: loop_ok_def no_target_def seeds_done_def)
qed

lemma hop_edgeSteps:
  assumes "Neighbors w' opened s n (hopQuery q st u) = (Inr nxt, n2, cnt)" "edges_in s E"
  shows "list_all (edgeStep s q E u) (REdges nxt)"
    "index_contract s E \<Longrightarrow> \<not> Truncated nxt \<Longrightarrow> visible s u \<Longrightarrow> edgeStep s q E u e \<Longrightarrow> e \<in> set (REdges nxt)"
proof -
  have "set (hop_edges s (hopQuery q st u)) \<subseteq> E" using assms(2) by (simp add: edges_in_def hop_edges_def)
  then show "list_all (edgeStep s q E u) (REdges nxt)"
    using Neighbors_edges(1,2) [OF assms(1)] by (auto simp: list_all_iff edgeStep_def)
  assume c: "index_contract s E" "\<not> Truncated nxt" "visible s u" "edgeStep s q E u e"
  have "QNode (hopQuery q st u) = u" by (simp add: hopQuery_def)
  with Neighbors_edges(3) [OF assms(1) c(2)] c(3) have
    r: "\<not> hop_more s (hopQuery q st u)" "set (REdges nxt) = {e \<in> set (hop_edges s (hopQuery q st u)). admissible s (hopQuery q st u) e}"
    by auto
  have adm: "admissible s (hopQuery q st u) e" "e \<in> E" using c(4) by (auto simp: edgeStep_def)
  then have "\<not> wrongDirection (hopQuery q st u) e" by (simp add: admissible_def)
  with c(1) r(1) adm have "e \<in> set (hop_edges s (hopQuery q st u))" unfolding index_contract_def by blast
  with r(2) adm show "e \<in> set (REdges nxt)" by simp
qed

lemma visitNode_spec:
  assumes ok: "loop_ok s q E proc lev st" "pending st = u # rest" and cov: "index_contract s E \<Longrightarrow> covered s q E proc st"
    and E: "edges_in s E" and tgt: "TTarget q = None \<or> (\<exists>seed. TSeeds q = [seed] \<and> visible s seed)"
  shows "case visitNode w s q (st\<lparr>pending := rest\<rparr>) u of
      Inl r \<Rightarrow> final s q E r
    | Inr st' \<Rightarrow> (\<exists>lev'. loop_ok s q E (proc @ [u]) lev' st') \<and> (index_contract s E \<longrightarrow> covered s q E (proc @ [u]) st')"
proof -
  let ?lev = "depthOf st u"
  define st1 where "st1 = st\<lparr>pending := rest, tick := Suc (tick st)\<rparr>"
  have ok1: "loop_ok s q E (proc @ [u]) ?lev (st1\<lparr>tick := n, examined := m\<rparr>)" for n m
    using dequeue [OF ok] by (subst loop_ok_cong [where st = "st\<lparr>pending := rest\<rparr>"]) (simp_all add: st1_def)
  have d1: "depthOf (st1\<lparr>tick := n, examined := m\<rparr>) v = depthOf st v" for n m v by (simp add: st1_def depthOf_def)
  have out: "out_inv s q E (st1\<lparr>tick := n, examined := m\<rparr>)" for n m
    using ok1 [where n = n and m = m] out_inv_bfs unfolding loop_ok_def by blast
  have out1: "out_inv s q E st1" using out [of 0 0] by simp
  have u: "u \<in> reached st" using bfs_keys [of s q E proc lev st] ok by (simp add: loop_ok_def)
  have b: "bfs_inv s q E proc lev st" using ok(1) by (simp add: loop_ok_def)
  note vis = bfs_visible [OF b u]
  have hops: "int ?lev \<le> TMaxHops q" using bfs_treeD [OF b reached_depthOf [OF u]] by blast
  show ?thesis
  proof (cases "workErr w (tick st) \<noteq> None \<or> int (depthOf st1 u) = TMaxHops q \<or> TMaxWork q \<le> int (examined st1)")
    case True
    then show ?thesis using tfinish_stop [OF out1] by (auto simp: visitNode_def Let_def st1_def)
  next
    case False
    obtain r n2 cnt where nb: "Neighbors (hopWorld w) (\<lambda>_. None) s (tick st1) (hopQuery q st1 u) = (r, n2, cnt)"
      by (metis prod_cases3)
    define st2 where "st2 = st1\<lparr>tick := n2, examined := examined st1 + cnt\<rparr>"
    have run: "visitNode w s q (st\<lparr>pending := rest\<rparr>) u =
       (case r of Inl err \<Rightarrow> Inl (tfail w q st2 err)
        | Inr nxt \<Rightarrow> (case expandLoop w q u st2 (REdges nxt) of Inl res \<Rightarrow> Inl res
            | Inr st3 \<Rightarrow> if Truncated nxt
                 then Inl (tfinish w q st3 (if StopReason nxt = ''edges'' then ''work'' else StopReason nxt)) else Inr st3))"
      using False nb by (simp add: visitNode_def Let_def st1_def st2_def split: sum.split)
    show ?thesis
    proof (cases r)
      case (Inl err)
      then have "err \<noteq> NoFuel" using Neighbors_no_fuel nb by metis
      with Inl run tfail_final [OF out] show ?thesis by (simp add: st2_def)
    next
      case (Inr nxt)
      have lev: "depthOf st2 u = ?lev" "int ?lev < TMaxHops q"
        using False hops d1 by (auto simp: st2_def st1_def depthOf_def)
      have cov2: "covered s q E proc st2" if "index_contract s E"
        using cov [OF that] by (simp add: covered_def st2_def st1_def depthOf_def)
      note ex = expandLoop_spec [OF ok1 [where n = n2 and m = "examined st1 + cnt", folded st2_def] lev
          hop_edgeSteps(1) [OF nb [unfolded Inr] E] cov2 tgt, of w]
      show ?thesis
      proof (cases "expandLoop w q u st2 (REdges nxt)")
        case (Inl res)
        with ex run Inr show ?thesis by simp
      next
        case st3: (Inr st3)
        then have ok3: "loop_ok s q E (proc @ [u]) ?lev st3" "extends st2 st3"
          "index_contract s E \<longrightarrow> (\<forall>e\<in>set (REdges nxt). otherEnd u e \<in> reached st3)" using ex by auto
        have b3: "bfs_inv s q E (proc @ [u]) ?lev st3" using ok3(1) by (simp add: loop_ok_def)
        have cov3: "covered s q E (proc @ [u]) st3" if c: "index_contract s E" "\<not> Truncated nxt"
        proof -
          have "otherEnd u e \<in> reached st3" if "edgeStep s q E u e" for e
            using hop_edgeSteps(2) [OF nb [unfolded Inr] E c vis that] ok3(3) c(1) by blast
          moreover have "covered s q E proc st3"
            using covered_extends [OF cov2 [OF c(1)] _ ok3(2)] bfs_keys [of s q E proc lev st] ok(1)
            by (auto simp: loop_ok_def st2_def st1_def)
          moreover have "depthOf st3 u = ?lev"
            using extends_reached [OF ok3(2), of u] u lev(1) by (simp add: st2_def st1_def)
          ultimately show ?thesis using bfs_level [OF b3] by (auto simp: covered_def)
        qed
        have "StopReason nxt \<noteq> ''complete''" if "Truncated nxt"
          using Neighbors_Inr [OF nb [unfolded Inr]] that by simp
        with ok3(1) cov3 run Inr st3 tfinish_stop out_inv_bfs [of s q E "proc @ [u]" ?lev st3] show ?thesis
          by (auto simp: loop_ok_def)
      qed
    qed
  qed
qed

declare bfsLoop.simps [simp del]

lemma bfs_lengths:
  assumes "bfs_inv s q E proc lev st"
  shows "length proc + length (pending st) = length (depths st)"
proof -
  have "distinct (map fst (depths st))" "distinct (proc @ pending st)"
    "set (map fst (depths st)) = set (proc @ pending st)"
    using assms by (auto simp: bfs_inv_def)
  then show ?thesis by (metis distinct_card length_append length_map)
qed

lemma bfs_end:
  assumes "loop_ok s q E proc lev st" "index_contract s E \<Longrightarrow> covered s q E proc st" "pending st = []"
    and "TTarget q = None \<or> (\<exists>seed. TSeeds q = [seed])"
  shows "final s q E (bfsLoop w s q fuel st)"
proof -
  have b: "bfs_inv s q E proc lev st" "edge_inv s q E proc st" and n: "no_target q st" "seeds_done s q st"
    using assms(1) by (simp_all add: loop_ok_def)
  have nodes: "set (outNodes st) = reached st" using b(1) by (simp add: bfs_inv_def)
  have all: "v \<in> reached st" if "index_contract s E" "a \<in> set (TSeeds q)" "visible s a" "path s q E a es v" for a es v
    using closure [OF assms(2) [OF that(1)] n(2) _ that(2-4), of "length es"] bfs_keys [OF b(1)] assms(3) by auto
  have "final s q E (tfinish w q st ''complete'')"
  proof (rule tfinish_final [OF out_inv_bfs [OF b]])
    assume c: "index_contract s E"
    show "complete s q E \<lparr>RNodes = (if TTarget q \<noteq> None then [] else sort (outNodes st)),
        REdges = (if TTarget q \<noteq> None then [] else sortEdges (outEdges st)), Truncated = False, StopReason = ''complete''\<rparr>"
    proof (cases "TTarget q")
      case None
      then show ?thesis using all [OF c] nodes by (auto simp: complete_def)
    next
      case (Some t)
      then obtain seed where "TSeeds q = [seed]" using assms(4) by auto
      with Some all [OF c, of seed _ t] n(1) show ?thesis by (auto simp: complete_def no_target_def)
    qed
  qed
  then show ?thesis using assms(3) by (subst bfsLoop.simps) simp
qed

lemma bfsLoop_final:
  assumes "loop_ok s q E proc lev st" "index_contract s E \<Longrightarrow> covered s q E proc st" "edges_in s E"
    and "TTarget q = None \<or> (\<exists>seed. TSeeds q = [seed] \<and> visible s seed)" "LNodes (TLimits q) < int (length proc + fuel)"
  shows "final s q E (bfsLoop w s q fuel st)"
  using assms
proof (induction fuel arbitrary: proc lev st)
  case 0
  have b: "bfs_inv s q E proc lev st" using 0(1) by (simp add: loop_ok_def)
  then have "int (length (depths st)) \<le> LNodes (TLimits q)" by (simp add: bfs_inv_def)
  then have "pending st = []" using bfs_lengths [OF b] 0(5) by (cases "pending st") auto
  then show ?case using bfs_end [OF 0(1,2)] 0(4) by blast
next
  case (Suc k)
  show ?case
  proof (cases "pending st")
    case Nil
    then show ?thesis using bfs_end [OF Suc.prems(1,2)] Suc.prems(4) by blast
  next
    case (Cons u rest)
    note v = visitNode_spec [OF Suc.prems(1) Cons Suc.prems(2-4), of w]
    show ?thesis
    proof (cases "visitNode w s q (st\<lparr>pending := rest\<rparr>) u")
      case (Inl r)
      with v Cons show ?thesis by (subst bfsLoop.simps) simp
    next
      case (Inr st')
      then obtain lev' where "loop_ok s q E (proc @ [u]) lev' st'"
        and "index_contract s E \<Longrightarrow> covered s q E (proc @ [u]) st'" using v by auto
      from Suc.IH [OF this Suc.prems(3,4)] Suc.prems(5) Inr Cons show ?thesis by (subst bfsLoop.simps) simp
    qed
  qed
qed

section \<open>The seeds\<close>

definition seed_inv :: "snapshot \<Rightarrow> tquery \<Rightarrow> ref list \<Rightarrow> tstate \<Rightarrow> bool" where
  "seed_inv s q pre st \<longleftrightarrow> depths st = map (\<lambda>v. (v, 0)) (rev (pending st)) \<and> outNodes st = pending st
     \<and> pending st = filter (visible s) pre \<and> known st = [] \<and> outEdges st = []
     \<and> int (length (pending st)) \<le> LNodes (TLimits q)"

lemma map_of_const: "map_of (map (\<lambda>v. (v, c)) xs) v = (if v \<in> set xs then Some c else None)"
  by (induction xs) auto

lemma seed_inv_loop_ok:
  assumes "seed_inv s q pre st" "distinct pre" "set pre = set (TSeeds q)" "0 \<le> TMaxHops q" "0 \<le> LEdges (TLimits q)"
    and "no_target q st"
  shows "loop_ok s q E [] 0 st"
proof -
  have ds: "depths st = map (\<lambda>v. (v, 0)) (rev (pending st))" and p: "pending st = filter (visible s) pre"
    using assms(1) by (auto simp: seed_inv_def)
  have m: "map_of (depths st) v = (if v \<in> set (pending st) then Some 0 else None)" for v
    by (simp add: ds map_of_const)
  have d0: "depthOf st v = 0" for v by (simp add: depthOf_def m)
  have len: "length (depths st) = length (pending st)" by (simp add: ds)
  have "int d \<le> TMaxHops q \<and> d < length (depths st) \<and> tree_ok s q E st v d" if "map_of (depths st) v = Some d" for v d
  proof -
    have v: "v \<in> set (pending st)" "d = 0" using that m by (metis option.distinct(1), metis option.distinct(1) option.inject)
    then have "v \<in> set (TSeeds q)" using p assms(3) by simp
    with v assms(4) length_pos_if_in_set [OF v(1)] show ?thesis by (simp add: len tree_ok_def)
  qed
  then have "\<forall>v d. map_of (depths st) v = Some d \<longrightarrow> int d \<le> TMaxHops q \<and> d < length (depths st) \<and> tree_ok s q E st v d"
    by blast
  moreover have "sorted (map (depthOf st) (pending st))" by (simp add: d0 sorted_iff_nth_mono)
  moreover have keys: "map fst (depths st) = rev (pending st)" by (simp add: ds o_def)
  moreover have reach: "reached st = set (pending st)" using keys by (metis list.set_map set_rev)
  moreover have "distinct (pending st)" using p assms(2) by simp
  moreover note len
  moreover have "outNodes st = pending st" "int (length (pending st)) \<le> LNodes (TLimits q)"
    using assms(1) unfolding seed_inv_def by blast+
  moreover have "list_all (visible s) (pending st)" by (simp add: p list_all_iff)
  ultimately have "bfs_inv s q E [] 0 st" unfolding bfs_inv_def by (simp add: d0)
  moreover have "seeds_done s q st" using assms(3) p by (auto simp: seeds_done_def m)
  ultimately show ?thesis using assms(1,5,6) by (auto simp: loop_ok_def edge_inv_def seed_inv_def)
qed

lemma seed_inv_out:
  assumes "seed_inv s q pre st" "distinct pre" "0 \<le> LEdges (TLimits q)"
  shows "out_inv s q E st"
  using assms by (auto simp: out_inv_def seed_inv_def list_all_iff)

lemma seed_inv_skip: "seed_inv s q pre st \<Longrightarrow> \<not> visible s r \<Longrightarrow> seed_inv s q (pre @ [r]) (st\<lparr>tick := n\<rparr>)"
  by (auto simp: seed_inv_def)

abbreviation takeSeed :: "tstate \<Rightarrow> ref \<Rightarrow> tstate" where
  "takeSeed st r \<equiv> st\<lparr>tick := Suc (tick st), depths := (r, 0) # depths st, outNodes := outNodes st @ [r],
     pending := pending st @ [r]\<rparr>"

lemma seed_inv_take:
  assumes "seed_inv s q pre st" "visible s r" "int (length (depths st)) \<noteq> LNodes (TLimits q)"
  shows "seed_inv s q (pre @ [r]) (takeSeed st r)"
  using assms by (auto simp: seed_inv_def)

lemma found_seed:
  assumes "out_inv s q E st" "TSeeds q = [r]" "TTarget q = Some r" "0 \<le> TMaxHops q"
  shows "final s q E (found w q st r)"
proof -
  have w: "walkBack n st r r = Some ([], [])" for n by (subst walkBack.simps) simp
  have "answer_ok s q E \<lparr>RNodes = [r], REdges = [], Truncated = False, StopReason = ''complete''\<rparr>"
    using assms by (simp add: answer_ok_def path_answer_def shortest_def complete_def nothing_def)
  then show ?thesis
    using assms(2) w tfinish_stop [OF assms(1) [THEN iffD2 [OF out_inv_tick(1)]]]
    by (auto simp: found_def final_def [of _ _ _ "Inl _"] final_def [of _ _ _ "Inr _"] split: option.splits)
qed

lemma seedLoop_spec:
  assumes "seed_inv s q pre st" "no_target q st" "distinct (pre @ rs)" "set (pre @ rs) = set (TSeeds q)"
    and "TTarget q = None \<or> (\<exists>seed. TSeeds q = [seed])" "0 \<le> TMaxHops q" "0 \<le> LEdges (TLimits q)"
  shows "case seedLoop w s q st rs of
      Inl r \<Rightarrow> final s q E r
    | Inr st' \<Rightarrow> seed_inv s q (pre @ rs) st' \<and> no_target q st'"
  using assms
proof (induction rs arbitrary: pre st)
  case Nil
  then show ?case by simp
next
  case (Cons r rs)
  let ?st = "st\<lparr>tick := Suc (tick st)\<rparr>"
  have out: "out_inv s q E ?st" using seed_inv_out [OF Cons.prems(1)] Cons.prems(3,7) by simp
  have rest: "distinct ((pre @ [r]) @ rs)" "set ((pre @ [r]) @ rs) = set (TSeeds q)" using Cons.prems(3,4) by auto
  show ?case
  proof (cases "fault w (tick st)")
    case (Some err)
    then show ?thesis using tfail_final [OF out, of "StorageError err" w] by simp
  next
    case ok: None
    show ?thesis
    proof (cases "visible s r")
      case False
      have "no_target q ?st" using Cons.prems(2) by (simp add: no_target_def)
      with Cons.IH [OF seed_inv_skip [OF Cons.prems(1) False, where n = "Suc (tick st)"] _ rest Cons.prems(5-7)] ok False show ?thesis by (simp split: sum.splits)
    next
      case vis: True
      show ?thesis
      proof (cases "int (length (depths st)) = LNodes (TLimits q)")
        case True
        then show ?thesis using ok vis tfinish_stop [OF out, of "''nodes''" w] by simp
      next
        case False
        note taken = seed_inv_take [OF Cons.prems(1) vis False]
        have outT: "out_inv s q E (takeSeed st r)" using seed_inv_out [OF taken] rest(1) Cons.prems(7) by simp
        show ?thesis
        proof (cases "TTarget q = Some r")
          case True
          then have "TSeeds q = [r]" using Cons.prems(4,5) by auto
          with ok vis False True found_seed [OF outT _ True Cons.prems(6), of w] show ?thesis by simp
        next
          case nt: False
          then have "no_target q (takeSeed st r)" using Cons.prems(2) by (auto simp: no_target_def)
          with Cons.IH [OF taken _ rest Cons.prems(5-7)] ok vis False nt show ?thesis by (simp split: sum.splits)
        qed
      qed
    qed
  qed
qed

section \<open>The whole traversal\<close>

lemma remdups_adj_sorted: "sorted xs \<Longrightarrow> distinct (remdups_adj xs)"
  by (induction xs rule: remdups_adj.induct) (auto simp: order_le_less)

lemma seedQueue_spec: "distinct (seedQueue q)" "set (seedQueue q) = set (TSeeds q)"
  by (simp_all add: seedQueue_def remdups_adj_sorted)

lemma checkTraversal_facts:
  assumes "checkTraversal q = Inr u"
  shows "0 \<le> TMaxHops q" "0 \<le> LEdges (TLimits q)" "0 \<le> LNodes (TLimits q)"
    "TTarget q = None \<or> (\<exists>seed. TSeeds q = [seed])"
  using assms by (auto simp: checkTraversal_def ValidateTraversalLimits_def Let_def length_Suc_conv split: if_splits option.splits)

lemma out_inv_start: "0 \<le> LEdges (TLimits q) \<Longrightarrow> 0 \<le> LNodes (TLimits q) \<Longrightarrow> out_inv s q E (startState n)"
  by (simp add: out_inv_def startState_def)

lemma seeds_then_search:
  assumes "checkTraversal q = Inr u" "edges_in s E"
  shows "final s q E (case seedLoop w s q (startState n) (seedQueue q) of Inl res \<Rightarrow> res
    | Inr st \<Rightarrow> bfsLoop w s q (Suc (nat (LNodes (TLimits q)))) st)"
proof -
  note facts = checkTraversal_facts [OF assms(1)]
  have "seed_inv s q [] (startState n)" "no_target q (startState n)" using facts(3) by (simp_all add: seed_inv_def startState_def no_target_def)
  then have sp: "case seedLoop w s q (startState n) (seedQueue q) of Inl r \<Rightarrow> final s q E r
    | Inr st' \<Rightarrow> seed_inv s q (seedQueue q) st' \<and> no_target q st'"
    using seedLoop_spec [where pre = "[]" and s = s and q = q and st = "startState n" and rs = "seedQueue q" and w = w and E = E] facts seedQueue_spec [of q] by (simp split: sum.splits)
  show ?thesis
  proof (cases "seedLoop w s q (startState n) (seedQueue q)")
    case (Inl r)
    then show ?thesis using sp by simp
  next
    case (Inr st)
    with sp have inv: "seed_inv s q (seedQueue q) st" "no_target q st" by auto
    then have ok: "loop_ok s q E [] 0 st" using seed_inv_loop_ok seedQueue_spec facts by blast
    have cov: "covered s q E [] st" by (simp add: covered_def)
    have "final s q E (bfsLoop w s q (Suc (nat (LNodes (TLimits q)))) st)"
    proof (cases "TTarget q = None \<or> (\<exists>seed. TSeeds q = [seed] \<and> visible s seed)")
      case True
      then show ?thesis using bfsLoop_final [OF ok cov assms(2) True] by simp
    next
      case False
      then have "filter (visible s) (seedQueue q) = []"
        using facts(4) seedQueue_spec(2) [of q] by (auto simp: filter_empty_conv)
      then have "pending st = []" using inv(1) by (simp add: seed_inv_def)
      then show ?thesis using bfs_end [OF ok cov _ facts(4)] by simp
    qed
    with Inr show ?thesis by simp
  qed
qed

lemma Traverse_final:
  assumes "edges_in s E"
  shows "final s q E (Traverse w opened s q)"
proof (cases "checkTraversal q")
  case (Inl e)
  then have "e \<noteq> NoFuel"
    by (auto simp: checkTraversal_def ValidateTraversalLimits_def Let_def split: if_splits option.splits)
  with Inl show ?thesis by (simp add: Traverse_def final_def)
next
  case (Inr u)
  note facts = checkTraversal_facts [OF Inr]
  note out = out_inv_start [OF facts(2,3)]
  have hidden: "final s q E (tfinish w q (startState 3) ''complete'')" if "TTarget q = Some t" "\<not> visible s t" for t
    using that by (intro tfinish_final [OF out]) (simp add: complete_def)
  show ?thesis
    using Inr hidden tfail_final [OF out] seeds_then_search [OF Inr assms]
    by (auto simp: Traverse_def Let_def final_def [of _ _ _ "Inl (ContextError _)"] split: option.split)
qed

section \<open>Properties\<close>

lemma Traverse_answer:
  assumes "Traverse w opened s q = Inr res" "edges_in s E"
  shows "answer_ok s q E res"
  using Traverse_final [OF assms(2), of q w opened] assms(1) by (simp add: final_def)

lemma index_contract_edges_in: "index_contract s E \<Longrightarrow> edges_in s E"
  by (simp add: index_contract_def)

text \<open>
  \<^verbatim>\<open>Traverse\<close> ends for every request, every snapshot and every sequence of faults: neither the
  breadth-first loop nor the walk back from the target runs out of fuel, so the source's two
  unbounded loops always stop.
\<close>

theorem Traverse_returns: "Traverse w opened s q \<noteq> Inl NoFuel"
  using Traverse_final [of s UNIV q w opened] by (auto simp: final_def edges_in_def split: sum.splits)

text \<open>
  C37. A path \<^verbatim>\<open>Traverse\<close> returns really leads from the source to the target: consecutive edges
  of the stored graph in the asked direction and of an asked type, every edge and end
  visible, the nodes listed exactly those the edges visit, and at most \<^verbatim>\<open>MaxHops\<close> edges. When
  storage lists all edges of a node that has no more to come, no path is shorter.
\<close>

theorem Traverse_path:
  assumes "Traverse w opened s q = Inr res" "edges_in s E" "TTarget q = Some t" "RNodes res \<noteq> []"
  shows "path s q E (hd (TSeeds q)) (REdges res) t \<and> RNodes res = trail (hd (TSeeds q)) (REdges res)
    \<and> int (length (REdges res)) \<le> TMaxHops q
    \<and> (index_contract s E \<longrightarrow> (\<forall>es. path s q E (hd (TSeeds q)) es t \<longrightarrow> length (REdges res) \<le> length es))"
  using Traverse_answer [OF assms(1,2)] assms(3,4)
  by (simp add: answer_ok_def path_answer_def shortest_def nothing_def)

definition sampleEdges :: "edge list" where
  "sampleEdges =
     [\<lparr>ERef = Ref ''likes'' 1, ESource = Ref ''person'' 1, ETarget = Ref ''person'' 2, EType = ''likes''\<rparr>,
      \<lparr>ERef = Ref ''likes'' 2, ESource = Ref ''person'' 2, ETarget = Ref ''person'' 3, EType = ''likes''\<rparr>,
      \<lparr>ERef = Ref ''likes'' 3, ESource = Ref ''person'' 1, ETarget = Ref ''person'' 9, EType = ''likes''\<rparr>]"

definition sampleGraph :: snapshot where
  "sampleGraph = \<lparr>visible = (\<lambda>r. rID r < 9), adjacent = (\<lambda>r d l. (sampleEdges, False))\<rparr>"

definition sampleSearch :: "ref option \<Rightarrow> tquery" where
  "sampleSearch t =
     \<lparr>TSeeds = [Ref ''person'' 1], TTarget = t, TDirection = ''out'', TTypes = [],
      TLimits = \<lparr>LNodes = 10, LEdges = 10, LElapsed = 1000\<rparr>, TMaxHops = 4, TMaxWork = 100\<rparr>"

definition samplePath :: gresult where
  "samplePath = \<lparr>RNodes = [Ref ''person'' 1, Ref ''person'' 2, Ref ''person'' 3], REdges = take 2 sampleEdges,
     Truncated = False, StopReason = ''complete''\<rparr>"

lemma sample_contract: "index_contract sampleGraph (set sampleEdges)"
  by (auto simp: index_contract_def edges_in_def sampleGraph_def hop_edges_def sampleEdges_def)

lemma sample_path: "Traverse quietWorld (\<lambda>_. None) sampleGraph (sampleSearch (Some (Ref ''person'' 3))) = Inr samplePath"
  by code_simp

lemma sample_subgraph: "Traverse quietWorld (\<lambda>_. None) sampleGraph (sampleSearch None) = Inr samplePath"
  by code_simp

lemma sample_no_path:
  "Traverse quietWorld (\<lambda>_. None) sampleGraph (sampleSearch (Some (Ref ''person'' 4)))
   = Inr \<lparr>RNodes = [], REdges = [], Truncated = False, StopReason = ''complete''\<rparr>"
  by code_simp

lemma sample_simps:
  "TTarget (sampleSearch t) = t" "TSeeds (sampleSearch t) = [Ref ''person'' 1]" "REdges samplePath = take 2 sampleEdges"
  "RNodes samplePath \<noteq> []" "length sampleEdges = 3" "\<not> Truncated samplePath"
  by (simp_all add: sampleSearch_def samplePath_def sampleEdges_def)

theorem Traverse_path_witness:
  "path sampleGraph (sampleSearch (Some (Ref ''person'' 3))) (set sampleEdges) (Ref ''person'' 1) (take 2 sampleEdges) (Ref ''person'' 3)
   \<and> \<not> (\<exists>es. path sampleGraph (sampleSearch (Some (Ref ''person'' 3))) (set sampleEdges) (Ref ''person'' 1) es (Ref ''person'' 3)
        \<and> length es < 2)"
  using Traverse_path [OF sample_path index_contract_edges_in [OF sample_contract], of "Ref ''person'' 3"] sample_contract
  by (auto simp: sample_simps not_less)

text \<open>
  When \<^verbatim>\<open>Traverse\<close> finds no path and does not say it stopped early, there is none: no
  sequence of edges the request may follow leads from the source to the target, whatever
  its length.
\<close>

theorem Traverse_no_path:
  assumes "Traverse w opened s q = Inr res" "index_contract s E" "TTarget q = Some t" "RNodes res = []"
    and "\<not> Truncated res" "visible s (hd (TSeeds q))" "visible s t"
  shows "\<not> path s q E (hd (TSeeds q)) es t"
proof -
  have ok: "answer_ok s q E res" using Traverse_answer [OF assms(1) index_contract_edges_in [OF assms(2)]] .
  then have "nothing res" using assms(3,4) by (auto simp: answer_ok_def path_answer_def nothing_def)
  with ok assms(2-7) show ?thesis by (auto simp: answer_ok_def complete_def)
qed

theorem Traverse_no_path_witness:
  "\<forall>es. \<not> path sampleGraph (sampleSearch (Some (Ref ''person'' 4))) (set sampleEdges) (Ref ''person'' 1) es (Ref ''person'' 4)"
  using Traverse_no_path [OF sample_no_path sample_contract, of "Ref ''person'' 4"]
  by (simp add: sample_simps) (simp add: sampleGraph_def)

text \<open>
  C38. A subgraph \<^verbatim>\<open>Traverse\<close> returns holds visible nodes only, each once and in order, and edges
  the request may follow between two of those nodes, within the limits. When it does not say
  it stopped early, it holds every node that can be reached from a visible seed.
\<close>

theorem Traverse_subgraph:
  assumes "Traverse w opened s q = Inr res" "edges_in s E" "TTarget q = None"
  shows "sorted (RNodes res) \<and> distinct (RNodes res) \<and> list_all (visible s) (RNodes res)
    \<and> int (length (RNodes res)) \<le> LNodes (TLimits q) \<and> int (length (REdges res)) \<le> LEdges (TLimits q)
    \<and> sorted (map ERef (REdges res)) \<and> distinct (map ERef (REdges res))
    \<and> list_all (\<lambda>e. \<exists>x\<in>set (RNodes res). edgeStep s q E x e \<and> otherEnd x e \<in> set (RNodes res)) (REdges res)
    \<and> (\<not> Truncated res \<longrightarrow> index_contract s E \<longrightarrow>
        (\<forall>a es v. a \<in> set (TSeeds q) \<longrightarrow> visible s a \<longrightarrow> path s q E a es v \<longrightarrow> v \<in> set (RNodes res)))"
  using Traverse_answer [OF assms(1,2)] assms(3)
  unfolding answer_ok_def subgraph_answer_def complete_def by simp

theorem Traverse_subgraph_witness:
  "list_all (visible sampleGraph) (RNodes samplePath)
   \<and> \<not> (\<exists>es v. path sampleGraph (sampleSearch None) (set sampleEdges) (Ref ''person'' 1) es v \<and> v \<notin> set (RNodes samplePath))"
proof -
  have "visible sampleGraph (Ref ''person'' 1)" by (simp add: sampleGraph_def)
  with Traverse_subgraph [OF sample_subgraph index_contract_edges_in [OF sample_contract]] sample_contract sample_simps
  show ?thesis by auto
qed

end
