(* ===== verification/Schema_Constraints.thy ===== *)
theory Schema_Constraints
  imports Filter_Parse Schema_Fields
begin

text \<open>
  Declared constraints and relations (\<^verbatim>\<open>internal/schema/constraints.go\<close>, \<^verbatim>\<open>relations.go\<close>): the
  records, their validation with every refusal as a value, and the queries that ask which
  constraint names a field and which tables refer to one. A context is polled at a place of
  the call tree: \<open>cx p\<close> is the error the poll at address \<open>p\<close> sees, and a call below hands
  down the addresses under its own, so any cancellation between two polls is covered.
\<close>

section \<open>Contexts\<close>

type_synonym ctx = "nat list \<Rightarrow> string option"

definition under :: "ctx \<Rightarrow> nat \<Rightarrow> ctx" where
  "under cx i = (\<lambda>p. cx (i # p))"

definition poll :: "ctx \<Rightarrow> (string \<Rightarrow> 'e) \<Rightarrow> ('e + 'a) \<Rightarrow> 'e + 'a" where
  "poll cx wrap k = (case cx [] of Some e \<Rightarrow> Inl (wrap e) | None \<Rightarrow> k)"

lemma poll_Inr [simp]: "poll cx wrap k = Inr x \<longleftrightarrow> cx [] = None \<and> k = Inr x"
  by (simp add: poll_def split: option.splits)

section \<open>Constraints\<close>

definition ConstraintUnique :: string where "ConstraintUnique = ''unique''"
definition ConstraintForeignKey :: string where "ConstraintForeignKey = ''foreign_key''"
definition MaxConstraintsPerTable :: nat where "MaxConstraintsPerTable = 32"
definition MaxUniqueConstraintFields :: nat where "MaxUniqueConstraintFields = 8"

record reference =
  RefTable :: string
  RefField :: string

text \<open>A missing \<^verbatim>\<open>fields\<close> list is not the empty one.\<close>

record constraint =
  CName :: string
  Kind :: string
  CFields :: "string list option"
  Where :: string
  CField :: string
  References :: "reference option"

definition fieldList :: "constraint \<Rightarrow> string list" where
  "fieldList c = (case CFields c of None \<Rightarrow> [] | Some fs \<Rightarrow> fs)"

definition constraintScalar :: "string \<Rightarrow> bool" where
  "constraintScalar t \<longleftrightarrow> t \<in> set [''string'', ''text'', ''number'', ''boolean'', ''timestamp'']"

text \<open>The map \<^verbatim>\<open>byName\<close>: a later field of the same name replaces an earlier one.\<close>

definition byName :: "field list \<Rightarrow> string \<Rightarrow> field option" where
  "byName flds = map_of (rev (map (\<lambda>f. (Name f, f)) flds))"

datatype decl_error =
    UnknownKind
  | UniqueTakesFields
  | UniqueFieldCount
  | KeyFieldNotScalar string
  | KeyFieldRepeated string
  | WhereError filter_error
  | WherePredicate
  | ForeignTakesField
  | ForeignFieldNotNumber string
  | ReferencesNotId
  | ReferencesTable name_error

datatype constraint_error =
    CtxDone string
  | TooManyConstraints
  | ConstraintName nat name_error
  | DeclaredTwice string
  | InConstraint string decl_error

fun constraintOperand :: "node \<Rightarrow> bool" where
  "constraintOperand (Column _) = True"
| "constraintOperand (Literal k _) = (k \<noteq> LiteralBlob)"
| "constraintOperand (Paren n) = constraintOperand n"
| "constraintOperand (Unary sign n) =
     (case n of Literal k _ \<Rightarrow> k = LiteralNumber \<and> (sign = ''+'' \<or> sign = ''-'') | _ \<Rightarrow> False)"
| "constraintOperand _ = False"

definition comparisons :: "string list" where
  "comparisons = [''='', ''=='', ''!='', ''<>'', ''<'', ''<='', ''>'', ''>='']"

fun constraintPredicate :: "node \<Rightarrow> bool" where
  "constraintPredicate (Paren n) = constraintPredicate n"
| "constraintPredicate (Unary sign n) = (sign = ''not'' \<and> constraintPredicate n)"
| "constraintPredicate (Binary sign l r) =
     (if sign = ''and'' \<or> sign = ''or'' then constraintPredicate l \<and> constraintPredicate r
      else if sign \<in> set comparisons then constraintOperand l \<and> constraintOperand r
      else False)"
| "constraintPredicate (Is _ l r) =
     (case r of Literal k _ \<Rightarrow> k = LiteralNull \<and> constraintOperand l | _ \<Rightarrow> False)"
| "constraintPredicate _ = False"

text \<open>\<open>lo\<close> and \<open>tr\<close> are the Unicode halves of \<^verbatim>\<open>strings.ToLower\<close> and \<^verbatim>\<open>strings.TrimSpace\<close> the filter parser uses.\<close>

definition whereOptions :: "(string \<Rightarrow> string) \<Rightarrow> (string \<Rightarrow> string) \<Rightarrow> ctx \<Rightarrow> string list \<Rightarrow> options" where
  "whereOptions lo tr cx cols =
     \<lparr>o_ctx = (\<lambda>k. cx [k]), o_columns = cols, o_args = [], o_lower = lo, o_trim = tr\<rparr>"

fun keyFields :: "(string \<Rightarrow> field option) \<Rightarrow> string list \<Rightarrow> string list \<Rightarrow> decl_error + unit" where
  "keyFields flds seen [] = Inr ()"
| "keyFields flds seen (name # names) =
     (case flds name of
        None \<Rightarrow> Inl (KeyFieldNotScalar name)
      | Some f \<Rightarrow>
          if \<not> constraintScalar (Type f) then Inl (KeyFieldNotScalar name)
          else if name \<in> set seen then Inl (KeyFieldRepeated name)
          else keyFields flds (name # seen) names)"

definition validateUniqueConstraint ::
    "(string \<Rightarrow> string) \<Rightarrow> (string \<Rightarrow> string) \<Rightarrow> ctx \<Rightarrow> (string \<Rightarrow> field option) \<Rightarrow> string list \<Rightarrow> constraint
       \<Rightarrow> decl_error + unit" where
  "validateUniqueConstraint lo tr cx flds cols c =
     (if CField c \<noteq> '''' \<or> References c \<noteq> None then Inl UniqueTakesFields
      else if length (fieldList c) < 1 \<or> MaxUniqueConstraintFields < length (fieldList c) then Inl UniqueFieldCount
      else
        bindR (keyFields flds [] (fieldList c)) (\<lambda>_.
          if Where c = '''' then Inr ()
          else
            (case Parse (Where c) (whereOptions lo tr cx cols) of
               Inl e \<Rightarrow> Inl (WhereError e)
             | Inr n \<Rightarrow> if \<not> constraintPredicate n then Inl WherePredicate else Inr ())))"

definition validateForeignKeyDeclaration :: "(string \<Rightarrow> field option) \<Rightarrow> constraint \<Rightarrow> decl_error + unit" where
  "validateForeignKeyDeclaration flds c =
     (if CFields c \<noteq> None \<or> Where c \<noteq> '''' then Inl ForeignTakesField
      else if (case flds (CField c) of None \<Rightarrow> True | Some f \<Rightarrow> Type f \<noteq> ''number'') then
        Inl (ForeignFieldNotNumber (CField c))
      else
        (case References c of
           None \<Rightarrow> Inl ReferencesNotId
         | Some r \<Rightarrow>
             if RefField r \<noteq> ''id'' then Inl ReferencesNotId
             else (case ValidateTableName (RefTable r) of Inl e \<Rightarrow> Inl (ReferencesTable e) | Inr _ \<Rightarrow> Inr ())))"

fun declarationLoop ::
    "(string \<Rightarrow> string) \<Rightarrow> (string \<Rightarrow> string) \<Rightarrow> ctx \<Rightarrow> (string \<Rightarrow> field option) \<Rightarrow> string list \<Rightarrow> nat \<Rightarrow> string list
       \<Rightarrow> constraint list \<Rightarrow> constraint_error + unit" where
  "declarationLoop lo tr cx flds cols i names [] = Inr ()"
| "declarationLoop lo tr cx flds cols i names (c # cs) =
     poll (under cx i) CtxDone
      (case ValidateIdent (CName c) ''constraint name'' of
         Inl e \<Rightarrow> Inl (ConstraintName i e)
       | Inr _ \<Rightarrow>
           if CName c \<in> set names then Inl (DeclaredTwice (CName c))
           else
             (case (if Kind c = ConstraintUnique then validateUniqueConstraint lo tr (under cx i) flds cols c
                    else if Kind c = ConstraintForeignKey then validateForeignKeyDeclaration flds c
                    else Inl UnknownKind) of
                Inl e \<Rightarrow> Inl (InConstraint (CName c) e)
              | Inr _ \<Rightarrow> declarationLoop lo tr cx flds cols (Suc i) (CName c # names) cs))"

definition scalarColumns :: "field list \<Rightarrow> string list" where
  "scalarColumns flds = map Name (filter (\<lambda>f. constraintScalar (Type f)) flds)"

definition ValidateConstraintDeclarations ::
    "(string \<Rightarrow> string) \<Rightarrow> (string \<Rightarrow> string) \<Rightarrow> ctx \<Rightarrow> field list \<Rightarrow> constraint list \<Rightarrow> constraint_error + unit" where
  "ValidateConstraintDeclarations lo tr cx flds constraints =
     poll cx CtxDone
      (if MaxConstraintsPerTable < length constraints then Inl TooManyConstraints
       else declarationLoop lo tr cx (byName flds) (scalarColumns flds) 0 [] constraints)"

section \<open>Questions about constraints\<close>

text \<open>The tree forms a constraint cannot have answer \<open>False\<close>, as the source's final return does.\<close>

fun mentionsColumn :: "node \<Rightarrow> string \<Rightarrow> bool" where
  "mentionsColumn (Column name) field = equalFold name field"
| "mentionsColumn (Paren n) field = mentionsColumn n field"
| "mentionsColumn (Unary _ n) field = mentionsColumn n field"
| "mentionsColumn (Binary _ l r) field = (mentionsColumn l field \<or> mentionsColumn r field)"
| "mentionsColumn (Is _ l r) field = (mentionsColumn l field \<or> mentionsColumn r field)"
| "mentionsColumn _ field = False"

definition namesField ::
    "(string \<Rightarrow> string) \<Rightarrow> (string \<Rightarrow> string) \<Rightarrow> ctx \<Rightarrow> string list \<Rightarrow> string \<Rightarrow> constraint \<Rightarrow> bool" where
  "namesField lo tr cx cols field c =
     (if CField c = field \<or> field \<in> set (fieldList c) then True
      else if Where c = '''' then False
      else (case Parse (Where c) (whereOptions lo tr cx cols) of
              Inl _ \<Rightarrow> False | Inr n \<Rightarrow> mentionsColumn n field))"

fun namingLoop ::
    "(string \<Rightarrow> string) \<Rightarrow> (string \<Rightarrow> string) \<Rightarrow> ctx \<Rightarrow> string list \<Rightarrow> string \<Rightarrow> nat \<Rightarrow> constraint list \<Rightarrow> string" where
  "namingLoop lo tr cx cols field i [] = ''''"
| "namingLoop lo tr cx cols field i (c # cs) =
     (if namesField lo tr (under cx i) cols field c then CName c
      else namingLoop lo tr cx cols field (Suc i) cs)"

definition ConstraintNamingField ::
    "(string \<Rightarrow> string) \<Rightarrow> (string \<Rightarrow> string) \<Rightarrow> ctx \<Rightarrow> field list \<Rightarrow> constraint list \<Rightarrow> string \<Rightarrow> string" where
  "ConstraintNamingField lo tr cx flds constraints field =
     namingLoop lo tr cx (map Name flds) field 0 constraints"

record relation =
  RSource :: string
  RTarget :: string
  RType :: string

record table_schema =
  TName :: string
  TFields :: "field list"
  RowAccess :: string
  HasOwner :: bool
  TConstraints :: "constraint list"
  AcceptReferences :: bool
  TRelation :: "relation option"

definition RowAccessOwn :: string where "RowAccessOwn = ''own''"

definition refersTo :: "string \<Rightarrow> constraint \<Rightarrow> bool" where
  "refersTo table c \<longleftrightarrow> Kind c = ConstraintForeignKey
     \<and> (case References c of None \<Rightarrow> False | Some r \<Rightarrow> RefTable r = table)"

text \<open>A schema that is missing (\<^verbatim>\<open>nil\<close>) is skipped.\<close>

definition ReferencingTables :: "table_schema option list \<Rightarrow> string \<Rightarrow> string list" where
  "ReferencingTables schemas table =
     sort (concat (map (\<lambda>s. case s of
         None \<Rightarrow> []
       | Some sc \<Rightarrow> if TName sc = table then []
           else if list_ex (refersTo table) (TConstraints sc) then [TName sc] else []) schemas))"

section \<open>Relations\<close>

datatype relation_error =
    NotThreeFields
  | EndpointNotNumber string string
  | EndpointNoForeignKey string string
  | TypeNotString string

definition hasForeignKey :: "constraint list \<Rightarrow> string \<Rightarrow> bool" where
  "hasForeignKey constraints field = list_ex (\<lambda>c. Kind c = ConstraintForeignKey \<and> CField c = field) constraints"

definition checkEndpoint :: "field list \<Rightarrow> constraint list \<Rightarrow> string \<Rightarrow> string \<Rightarrow> relation_error + unit" where
  "checkEndpoint flds constraints role field =
     (if (case byName flds field of None \<Rightarrow> True | Some f \<Rightarrow> Type f \<noteq> ''number'' \<or> \<not> Required f) then
        Inl (EndpointNotNumber role field)
      else if \<not> hasForeignKey constraints field then Inl (EndpointNoForeignKey role field)
      else Inr ())"

definition ValidateRelation :: "field list \<Rightarrow> constraint list \<Rightarrow> relation option \<Rightarrow> relation_error + unit" where
  "ValidateRelation flds constraints rel =
     (case rel of
        None \<Rightarrow> Inr ()
      | Some r \<Rightarrow>
          if RSource r = '''' \<or> RTarget r = '''' \<or> RType r = '''' \<or> RSource r = RTarget r
             \<or> RSource r = RType r \<or> RTarget r = RType r then Inl NotThreeFields
          else
            bindR (checkEndpoint flds constraints ''source'' (RSource r)) (\<lambda>_.
            bindR (checkEndpoint flds constraints ''target'' (RTarget r)) (\<lambda>_.
              if (case byName flds (RType r) of None \<Rightarrow> True | Some f \<Rightarrow> Type f \<noteq> ''string'' \<or> \<not> Required f) then
                Inl (TypeNotString (RType r))
              else Inr ())))"

end
