(* ===== verification/Value_Coerce.thy ===== *)
theory Value_Coerce
  imports Schema_Values Complex_Main
begin

text \<open>
  Values on their way into and out of storage (\<^verbatim>\<open>internal/value/coerce.go\<close>, \<^verbatim>\<open>decode.go\<close>,
  \<^verbatim>\<open>nulscan.go\<close>, \<^verbatim>\<open>size.go\<close>). A \<open>go_value\<close> is what the type switches and reflection of the source see
  of an \<^verbatim>\<open>any\<close>; a finite float is the rational it stands for. The numeric conversions of the
  machine and of \<^verbatim>\<open>strconv\<close>, JSON marshalling and the timestamp parser are the fields of an
  environment. The theory proves what a coerced value looks like, that decoding gives the
  value back, and that the size estimate is never below the encoded size.
\<close>

section \<open>Values\<close>

datatype go_float = NaN | PosInf | NegInf | Fin rat

datatype go_value =
    VNil
  | VBool bool
  | VInt64 int
  | VInt int
  | VSmallInt int
  | VUint nat
  | VFloat64 go_float
  | VFloat32 go_float
  | VNumber string
  | VString string
  | VTime string
  | VBytes string
  | VArray "go_value list"
  | VFloats "go_float list"
  | VJson json
  | VPtr "go_value option"
  | VOther string

text \<open>
  \<open>VSmallInt\<close> covers the narrower and the named signed integers, \<open>VFloat32\<close> the narrower and the
  named floats, \<open>VFloats\<close> a slice of either float type and \<open>VTime\<close> a \<^verbatim>\<open>time.Time\<close> by its RFC 3339
  text. The ranges of the Go types:
\<close>

definition int64 :: "int \<Rightarrow> bool" where
  "int64 n \<longleftrightarrow> - (2 ^ 63) \<le> n \<and> n < 2 ^ 63"

definition in_range :: "go_value \<Rightarrow> bool" where
  "in_range v = (case v of VInt64 n \<Rightarrow> int64 n | VInt n \<Rightarrow> int64 n | VSmallInt n \<Rightarrow> int64 n | VUint n \<Rightarrow> n < 2 ^ 64 | _ \<Rightarrow> True)"

record value_env =
  parseFloat :: "string \<Rightarrow> go_float option"
  floatOfInt :: "int \<Rightarrow> rat"
  toFloat32 :: "rat \<Rightarrow> float32"
  ofFloat32 :: "float32 \<Rightarrow> go_float"
  marshal :: "go_value \<Rightarrow> string + string"
  decodeJSON :: "string \<Rightarrow> string + json"
  canonicalTimestamp :: "string \<Rightarrow> string option"
  base64 :: "string \<Rightarrow> string"

datatype coerce_error =
    FileUnwritable
  | NumberNotFinite
  | NumberOverflow
  | ExpectedNumber
  | ExpectedBoolean
  | EntryNotNumber
  | ExpectedNumbers
  | VectorLength nat int
  | EntryRange nat
  | MarshalFailed string
  | JSONHasNUL
  | ShapeError shape_error
  | ExpectedTimestamp
  | NotTimestamp string
  | ExpectedString
  | HasNULByte
  | NotInEnum string

section \<open>NUL in a JSON text\<close>

text \<open>A string literal from after its opening quote: its raw text, whether it holds a NUL, and the rest.\<close>

fun strScan :: "string \<Rightarrow> bool \<Rightarrow> string \<times> bool \<times> string" where
  "strScan [] nul = ([], nul, [])"
| "strScan (c # cs) nul =
     (if c = CHR 0x22 then ([], nul, cs)
      else
        let nul1 = nul \<or> c = CHR 0x00 in
        if c = CHR 0x5C then
          (case cs of
             [] \<Rightarrow> ([c], nul1, [])
           | d # ds \<Rightarrow>
               let nul2 = nul1 \<or> (d = CHR ''u'' \<and> take 4 ds = ''0000'') in
               (case strScan ds nul2 of (lit, found, rest) \<Rightarrow> (c # d # lit, found, rest)))
        else (case strScan cs nul1 of (lit, found, rest) \<Rightarrow> (c # lit, found, rest)))"

lemma strScan_rest: "strScan s nul = (lit, found, rest) \<Longrightarrow> length rest \<le> length s"
  by (induction s nul arbitrary: lit found rest rule: strScan.induct)
    (fastforce simp: Let_def split: if_splits list.splits prod.splits)+

record nul_frame =
  nfObject :: bool
  nfExpectKey :: bool
  nfKey :: string

text \<open>The stack of open objects and arrays, innermost first.\<close>

function nulScan :: "nul_frame list \<Rightarrow> string \<Rightarrow> (string \<times> bool) option" where
  "nulScan stk [] = None"
| "nulScan stk (c # cs) =
     (if c = CHR ''{'' then nulScan (\<lparr>nfObject = True, nfExpectKey = True, nfKey = ''''\<rparr> # stk) cs
      else if c = CHR ''['' then nulScan (\<lparr>nfObject = False, nfExpectKey = False, nfKey = ''''\<rparr> # stk) cs
      else if c = CHR ''}'' \<or> c = CHR '']'' then nulScan (tl stk) cs
      else if c = CHR '','' then
        nulScan (case stk of [] \<Rightarrow> [] | f # fs \<Rightarrow> (if nfObject f then f\<lparr>nfExpectKey := True\<rparr> else f) # fs) cs
      else if c = CHR 0x22 then
        (case strScan cs False of
           (lit, found, rest) \<Rightarrow>
             (case stk of
                f # fs \<Rightarrow>
                  if nfObject f \<and> nfExpectKey f then
                    (if found then Some ('''', True)
                     else nulScan (f\<lparr>nfExpectKey := False, nfKey := lit\<rparr> # fs) rest)
                  else if found then
                    Some (case find (\<lambda>g. nfKey g \<noteq> '''') stk of Some g \<Rightarrow> nfKey g | None \<Rightarrow> '''', False)
                  else nulScan stk rest
              | [] \<Rightarrow> if found then Some ('''', False) else nulScan stk rest))
      else nulScan stk cs)"
  by pat_completeness auto
termination
  by (relation "measure (\<lambda>(_, s). length s)") (auto dest!: strScan_rest [OF sym])

text \<open>\<open>None\<close> when no NUL is found, else the field that holds it and whether it is in a name.\<close>

definition FindJSONNUL :: "string \<Rightarrow> (string \<times> bool) option" where
  "FindJSONNUL doc = nulScan [] doc"

section \<open>Coercion\<close>

text \<open>\<^verbatim>\<open>strconv.ParseInt(s, 10, 64)\<close>.\<close>

definition parseInt64 :: "string \<Rightarrow> int option" where
  "parseInt64 s =
     (let neg = (s \<noteq> '''' \<and> hd s = CHR ''-'');
          digits = (if s \<noteq> '''' \<and> (hd s = CHR ''-'' \<or> hd s = CHR ''+'') then tl s else s);
          n = (if neg then - int (readNat digits) else int (readNat digits))
      in if digits = '''' \<or> \<not> list_all isDigit digits \<or> \<not> int64 n then None else Some n)"

definition finiteNumber :: "go_float \<Rightarrow> coerce_error + go_value" where
  "finiteNumber f = (case f of Fin r \<Rightarrow> Inr (VFloat64 (Fin r)) | _ \<Rightarrow> Inl NumberNotFinite)"

definition coerceNumber :: "value_env \<Rightarrow> go_value \<Rightarrow> coerce_error + go_value" where
  "coerceNumber env v =
     (case v of
        VFloat64 f \<Rightarrow> finiteNumber f
      | VFloat32 f \<Rightarrow> finiteNumber f
      | VInt64 n \<Rightarrow> Inr (VInt64 n)
      | VInt n \<Rightarrow> Inr (VInt64 n)
      | VSmallInt n \<Rightarrow> Inr (VInt64 n)
      | VUint n \<Rightarrow> if 2 ^ 63 - 1 < n then Inl NumberOverflow else Inr (VInt64 (int n))
      | VNumber s \<Rightarrow>
          (case parseInt64 s of
             Some i \<Rightarrow> Inr (VInt64 i)
           | None \<Rightarrow> (case parseFloat env s of None \<Rightarrow> Inl ExpectedNumber | Some f \<Rightarrow> finiteNumber f))
      | _ \<Rightarrow> Inl ExpectedNumber)"

text \<open>\<^verbatim>\<open>StoredString\<close>: a string behind any number of pointers; \<^verbatim>\<open>json.Number\<close> is a string to reflection.\<close>

fun StoredString :: "go_value \<Rightarrow> string option" where
  "StoredString (VString s) = Some s"
| "StoredString (VNumber s) = Some s"
| "StoredString (VTime s) = Some s"
| "StoredString (VPtr (Some v)) = StoredString v"
| "StoredString _ = None"

definition MaxFloat32 :: rat where
  "MaxFloat32 = (2 ^ 24 - 1) * 2 ^ 104"

fun vectorEntries :: "value_env \<Rightarrow> go_value list \<Rightarrow> coerce_error + go_float list" where
  "vectorEntries env [] = Inr []"
| "vectorEntries env (x # xs) =
     bindR (case x of
        VFloat64 f \<Rightarrow> Inr f
      | VInt n \<Rightarrow> Inr (Fin (floatOfInt env n))
      | VInt64 n \<Rightarrow> Inr (Fin (floatOfInt env n))
      | VNumber s \<Rightarrow> (case parseFloat env s of None \<Rightarrow> Inl EntryNotNumber | Some f \<Rightarrow> Inr f)
      | _ \<Rightarrow> Inl EntryNotNumber) (\<lambda>f. bindR (vectorEntries env xs) (\<lambda>fs. Inr (f # fs)))"

fun narrowLoop :: "value_env \<Rightarrow> nat \<Rightarrow> go_float list \<Rightarrow> coerce_error + float32 list" where
  "narrowLoop env i [] = Inr []"
| "narrowLoop env i (x # xs) =
     (case x of
        Fin r \<Rightarrow>
          if MaxFloat32 < \<bar>r\<bar> then Inl (EntryRange i)
          else bindR (narrowLoop env (Suc i) xs) (\<lambda>ys. Inr (toFloat32 env r # ys))
      | _ \<Rightarrow> Inl (EntryRange i))"

definition coerceVector :: "value_env \<Rightarrow> int \<Rightarrow> go_value \<Rightarrow> coerce_error + go_value" where
  "coerceVector env want v =
     bindR (case v of
        VArray xs \<Rightarrow> vectorEntries env xs
      | VFloats fs \<Rightarrow> Inr fs
      | _ \<Rightarrow> Inl ExpectedNumbers) (\<lambda>fs.
       if int (length fs) \<noteq> want then Inl (VectorLength (length fs) want)
       else bindR (narrowLoop env 0 fs) (\<lambda>out. Inr (VBytes (EncodeVector out))))"

definition coerceJSON :: "value_env \<Rightarrow> string \<Rightarrow> go_value \<Rightarrow> coerce_error + go_value" where
  "coerceJSON env shape v =
     (case marshal env v of
        Inl e \<Rightarrow> Inl (MarshalFailed e)
      | Inr b \<Rightarrow>
          if FindJSONNUL b \<noteq> None then Inl JSONHasNUL
          else (case ShapeViolation (decodeJSON env) shape b of Inl e \<Rightarrow> Inl (ShapeError e) | Inr _ \<Rightarrow> Inr (VString b)))"

definition Coerce :: "value_env \<Rightarrow> field \<Rightarrow> go_value \<Rightarrow> coerce_error + go_value" where
  "Coerce env f v =
     (if v = VNil then Inr VNil
      else if Type f = ''file'' then Inl FileUnwritable
      else if Type f = ''number'' then coerceNumber env v
      else if Type f = ''boolean'' then
        (case v of VBool b \<Rightarrow> Inr (VInt64 (if b then 1 else 0)) | _ \<Rightarrow> Inl ExpectedBoolean)
      else if Type f = ''vector'' then coerceVector env (Dim f) v
      else if Type f = ''json'' then coerceJSON env (Shape f) v
      else if Type f = ''timestamp'' then
        (case StoredString v of
           None \<Rightarrow> Inl ExpectedTimestamp
         | Some s \<Rightarrow> (case canonicalTimestamp env s of None \<Rightarrow> Inl (NotTimestamp s) | Some t \<Rightarrow> Inr (VString t)))
      else
        (case StoredString v of
           None \<Rightarrow> Inl ExpectedString
         | Some s \<Rightarrow>
             if CHR 0x00 \<in> set s then Inl HasNULByte
             else if \<not> EnumAllows (case Enum f of None \<Rightarrow> [] | Some e \<Rightarrow> e) s then Inl (NotInEnum s)
             else Inr (VString s)))"

section \<open>Decoding\<close>

definition Mask :: string where
  "Mask = concat (replicate 4 [CHR 0xE2, CHR 0x80, CHR 0xA2])"

definition NormalizeValue :: "value_env \<Rightarrow> go_value \<Rightarrow> go_value" where
  "NormalizeValue env v = (case v of VBytes b \<Rightarrow> VString (base64 env b) | _ \<Rightarrow> v)"

definition Decode :: "value_env \<Rightarrow> string \<Rightarrow> go_value \<Rightarrow> go_value" where
  "Decode env t v =
     (if v = VNil then VNil
      else if t = ''secret'' then VString Mask
      else if t = ''boolean'' then
        (case v of VInt64 n \<Rightarrow> if n = 0 then VBool False else if n = 1 then VBool True else v | _ \<Rightarrow> v)
      else if t = ''json'' \<or> t = ''file'' then
        (let parse = (\<lambda>s. case decodeJSON env s of Inl _ \<Rightarrow> v | Inr j \<Rightarrow> VJson j) in
         case v of VString s \<Rightarrow> parse s | VBytes s \<Rightarrow> parse s | _ \<Rightarrow> v)
      else if t = ''vector'' then
        (case v of
           VBytes raw \<Rightarrow>
             (case DecodeVector raw of
                Inr fv \<Rightarrow> VFloats (map (ofFloat32 env) fv)
              | Inl _ \<Rightarrow> NormalizeValue env v)
         | _ \<Rightarrow> NormalizeValue env v)
      else NormalizeValue env v)"

section \<open>Sizes\<close>

definition RawSize :: "go_value \<Rightarrow> nat" where
  "RawSize v = (case v of VBytes b \<Rightarrow> length b | VString s \<Rightarrow> length s | _ \<Rightarrow> 16)"

definition lineSep :: string where "lineSep = [CHR 0xE2, CHR 0x80, CHR 0xA8]"
definition paraSep :: string where "paraSep = [CHR 0xE2, CHR 0x80, CHR 0xA9]"

text \<open>\<^verbatim>\<open>strings.Count\<close> of a non-empty text: occurrences that do not overlap, from the left.\<close>

function countStr :: "string \<Rightarrow> string \<Rightarrow> nat" where
  "countStr s sub =
     (if s = [] \<or> sub = [] then 0
      else if hasPrefix s sub then Suc (countStr (drop (length sub) s) sub)
      else countStr (tl s) sub)"
  by pat_completeness auto
termination
  by (relation "measure (\<lambda>(s, _). length s)") auto

declare countStr.simps [simp del]

definition byteExtra :: "char \<Rightarrow> nat" where
  "byteExtra c = (if byte c < 0x20 then 6 else if c = CHR 0x22 \<or> c = CHR 0x5C then 3 else 0)"

definition EncodedSize :: "string \<Rightarrow> nat" where
  "EncodedSize s =
     (let n = length s + sum_list (map byteExtra s);
          n2 = (if containsStr s lineSep \<or> containsStr s paraSep
                then n + 4 * (countStr s lineSep + countStr s paraSep) else n)
      in if \<not> validUTF8 s then n2 + 6 * length (filter (\<lambda>r. runeValue r = 0xFFFD) (runes s)) else n2)"

definition ApproxSize :: "go_value \<Rightarrow> nat" where
  "ApproxSize v = (case v of VString s \<Rightarrow> EncodedSize s | VBytes b \<Rightarrow> length b | _ \<Rightarrow> 16)"

section \<open>What a coerced value looks like\<close>

definition stored_ok :: "value_env \<Rightarrow> field \<Rightarrow> go_value \<Rightarrow> bool" where
  "stored_ok env f w \<longleftrightarrow>
     (if Type f = ''file'' then False
      else if Type f = ''number'' then (\<exists>n. w = VInt64 n \<and> int64 n) \<or> (\<exists>r. w = VFloat64 (Fin r))
      else if Type f = ''boolean'' then w = VInt64 0 \<or> w = VInt64 1
      else if Type f = ''vector'' then \<exists>b. w = VBytes b \<and> int (length b) = 4 * Dim f
      else if Type f = ''json'' then
        \<exists>b. w = VString b \<and> FindJSONNUL b = None \<and> ShapeViolation (decodeJSON env) (Shape f) b = Inr ()
      else if Type f = ''timestamp'' then \<exists>s t. w = VString t \<and> canonicalTimestamp env s = Some t
      else \<exists>s. w = VString s \<and> CHR 0x00 \<notin> set s \<and> EnumAllows (case Enum f of None \<Rightarrow> [] | Some e \<Rightarrow> e) s)"

lemma finiteNumber_Inr [simp]: "finiteNumber f = Inr w \<longleftrightarrow> (\<exists>r. f = Fin r \<and> w = VFloat64 (Fin r))"
  by (auto simp: finiteNumber_def split: go_float.splits)

lemma parseInt64_range: "parseInt64 s = Some n \<Longrightarrow> int64 n"
  by (auto simp: parseInt64_def Let_def split: if_splits)

lemma coerceNumber_ok:
  assumes "coerceNumber env v = Inr w" "in_range v"
  shows "(\<exists>n. w = VInt64 n \<and> int64 n) \<or> (\<exists>r. w = VFloat64 (Fin r))"
  using assms by (auto simp: coerceNumber_def in_range_def int64_def dest: parseInt64_range [unfolded int64_def]
      split: go_value.splits option.splits if_splits)

lemma narrowLoop_Inr:
  "narrowLoop env i xs = Inr ys \<Longrightarrow> \<exists>rs. xs = map Fin rs \<and> ys = map (toFloat32 env) rs \<and> list_all (\<lambda>r. \<bar>r\<bar> \<le> MaxFloat32) rs"
proof (induction env i xs arbitrary: ys rule: narrowLoop.induct)
  case (2 env i x xs)
  then obtain r where r: "x = Fin r" "\<bar>r\<bar> \<le> MaxFloat32" by (auto split: go_float.splits if_splits)
  with 2 obtain zs where zs: "narrowLoop env (Suc i) xs = Inr zs" "ys = toFloat32 env r # zs" by auto
  from "2.IH" [OF r(1) _ zs(1)] r(2) obtain rs where
    "xs = map Fin rs" "zs = map (toFloat32 env) rs" "list_all (\<lambda>r. \<bar>r\<bar> \<le> MaxFloat32) rs" by auto
  with r zs show ?case by (intro exI [of _ "r # rs"]) simp
qed simp

text \<open>The entries of a vector as floats.\<close>

definition entriesOf :: "value_env \<Rightarrow> go_value \<Rightarrow> coerce_error + go_float list" where
  "entriesOf env v = (case v of VArray xs \<Rightarrow> vectorEntries env xs | VFloats fs \<Rightarrow> Inr fs | _ \<Rightarrow> Inl ExpectedNumbers)"

lemma coerceVector_Inr:
  assumes "coerceVector env n v = Inr w"
  shows "\<exists>rs. w = VBytes (EncodeVector (map (toFloat32 env) rs)) \<and> int (length rs) = n
    \<and> list_all (\<lambda>r. \<bar>r\<bar> \<le> MaxFloat32) rs \<and> entriesOf env v = Inr (map Fin rs)"
  using assms unfolding coerceVector_def entriesOf_def [symmetric] by (auto split: if_splits dest!: narrowLoop_Inr)

lemma coerceJSON_Inr:
  assumes "coerceJSON env shape v = Inr w"
  shows "\<exists>b. w = VString b \<and> FindJSONNUL b = None \<and> ShapeViolation (decodeJSON env) shape b = Inr ()"
  using assms by (auto simp: coerceJSON_def simp del: not_None_eq split: sum.splits if_splits)

lemma typeCases:
  obtains "Type f = ''file''" | "Type f = ''number''" | "Type f = ''boolean''" | "Type f = ''vector''"
    | "Type f = ''json''" | "Type f = ''timestamp''"
    | "Type f \<noteq> ''file''" "Type f \<noteq> ''number''" "Type f \<noteq> ''boolean''" "Type f \<noteq> ''vector''" "Type f \<noteq> ''json''"
      "Type f \<noteq> ''timestamp''"
  by blast

text \<open>
  C33. Whatever \<^verbatim>\<open>Coerce\<close> lets through has the stored form of its field: an \<^verbatim>\<open>int64\<close> or a finite
  float for a number, 0 or 1 for a boolean, exactly four bytes per dimension for a vector, a
  canonical timestamp, JSON without NUL that fits the declared shape, and for every text
  field a string without NUL that its enum allows. A file field takes nothing.
\<close>

theorem Coerce_stored:
  assumes "Coerce env f v = Inr w" "in_range v" "v \<noteq> VNil"
  shows "stored_ok env f w"
proof (cases rule: typeCases [of f])
  case 2
  then show ?thesis using assms coerceNumber_ok [of env v w] by (simp add: stored_ok_def Coerce_def)
next
  case 3
  then show ?thesis using assms by (auto simp: stored_ok_def Coerce_def split: go_value.splits)
next
  case 4
  then show ?thesis using assms coerceVector_Inr [of env "Dim f" v w]
    by (auto simp: stored_ok_def Coerce_def EncodeVector_length)
next
  case 5
  then show ?thesis using assms coerceJSON_Inr [of env "Shape f" v w] by (simp add: stored_ok_def Coerce_def)
qed (use assms in \<open>auto simp: stored_ok_def Coerce_def split: option.splits if_splits\<close>)

definition sampleEnv :: value_env where
  "sampleEnv =
     \<lparr>parseFloat = (\<lambda>_. None), floatOfInt = rat_of_int, toFloat32 = (\<lambda>_. 0), ofFloat32 = (\<lambda>_. Fin 0),
      marshal = (\<lambda>_. Inl ''none''), decodeJSON = (\<lambda>_. Inl ''none''), canonicalTimestamp = Some, base64 = id\<rparr>"

definition sampleField :: "string \<Rightarrow> field" where
  "sampleField t =
     \<lparr>Name = ''f'', Type = t, Fulltext = False, Vectorize = False, Dim = 2, Required = False, Enum = None,
      Shape = '''', Default = None, MaxBytes = 0, MediaTypes = None\<rparr>"

lemma MaxFloat32_ge: "\<not> MaxFloat32 < 1" "\<not> MaxFloat32 < 2"
  by (simp_all add: MaxFloat32_def)

definition zeroVector :: string where
  "zeroVector = EncodeVector [0, 0]"

theorem Coerce_stored_witness: "stored_ok sampleEnv (sampleField ''vector'') (VBytes zeroVector)"
proof -
  have "Coerce sampleEnv (sampleField ''vector'') (VArray [VInt64 1, VInt64 2]) = Inr (VBytes zeroVector)"
    by (simp add: Coerce_def sampleField_def sampleEnv_def coerceVector_def MaxFloat32_ge zeroVector_def)
  then show ?thesis by (rule Coerce_stored) (simp_all add: in_range_def)
qed

section \<open>Decoding gives the value back\<close>

lemma decode_encoded: "DecodeVector (EncodeVector v) = Inr v"
  by (simp add: DecodeVector_def EncodeVector_length decodeLoop_EncodeVector)



section \<open>The size estimate covers the encoding\<close>

text \<open>
  The string encoder of \<^verbatim>\<open>encoding/json\<close> without HTML escaping, which is how every response is
  written: rune by rune, with the short escapes, the six-byte ones for the other control
  characters and for the two separators, and the replacement character for a bad byte.
\<close>

definition hexDigit :: "nat \<Rightarrow> char" where
  "hexDigit n = ''0123456789abcdef'' ! n"

definition shortEscapes :: "(char \<times> char) list" where
  "shortEscapes = [(CHR 0x08, CHR ''b''), (CHR 0x0C, CHR ''f''), (CHR 0x0A, CHR ''n''), (CHR 0x0D, CHR ''r''), (CHR 0x09, CHR ''t'')]"

definition escapeRune :: "string \<Rightarrow> string" where
  "escapeRune r =
     (case r of
        [c] \<Rightarrow>
          if c = CHR 0x22 \<or> c = CHR 0x5C then [CHR 0x5C, c]
          else if byte c < 0x20 then
            (case map_of shortEscapes c of
               Some e \<Rightarrow> [CHR 0x5C, e]
             | None \<Rightarrow> CHR 0x5C # ''u00'' @ [hexDigit (byte c div 16), hexDigit (byte c mod 16)])
          else if byte c < 128 then [c]
          else CHR 0x5C # ''ufffd''
      | _ \<Rightarrow>
          if r = lineSep then CHR 0x5C # ''u2028''
          else if r = paraSep then CHR 0x5C # ''u2029''
          else r)"

definition jsonString :: "string \<Rightarrow> string" where
  "jsonString s = CHR 0x22 # concat (map escapeRune (runes s)) @ [CHR 0x22]"

definition isSep :: "string \<Rightarrow> bool" where
  "isSep r \<longleftrightarrow> r = lineSep \<or> r = paraSep"

lemma escapeRune_single:
  "length (escapeRune [c]) \<le> 1 + byteExtra c + (if 128 \<le> byte c then 6 else 0)"
  by (simp add: escapeRune_def byteExtra_def split: option.split)

lemma escapeRune_long:
  "\<nexists>c. r = [c] \<Longrightarrow> escapeRune r = (if r = lineSep then CHR 0x5C # ''u2028'' else if r = paraSep then CHR 0x5C # ''u2029'' else r)"
  by (cases r; cases "tl r") (simp_all add: escapeRune_def)

lemma escapeRune_length:
  "length (escapeRune r) \<le> length r + sum_list (map byteExtra r) + (if isSep r then 4 else 0)
     + (if runeValue r = 0xFFFD then 6 else 0)"
proof (cases "\<exists>c. r = [c]")
  case True
  then obtain c where r: "r = [c]" by blast
  show ?thesis using escapeRune_single [of c] by (simp add: r runeValue_def split: if_splits)
next
  case False
  have "length lineSep = 3" "length paraSep = 3" by (simp_all add: lineSep_def paraSep_def)
  then show ?thesis unfolding escapeRune_long [OF False] isSep_def by (simp split: if_split)
qed

lemma hasPrefix3: "hasPrefix s [a, b, c] \<longleftrightarrow> (\<exists>t. s = a # b # c # t)"
  by (cases s; cases "tl s"; cases "tl (tl s)") (auto simp: hasPrefix_def)

lemma countStr_Nil [simp]: "countStr [] sub = 0"
  by (simp add: countStr.simps)

lemma countStr_skip: "\<not> hasPrefix (x # s) (a # sub) \<Longrightarrow> countStr (x # s) (a # sub) = countStr s (a # sub)"
  by (simp add: countStr.simps [of "x # s"])

lemma countStr_take: "hasPrefix s (a # sub) \<Longrightarrow> countStr s (a # sub) = Suc (countStr (drop (Suc (length sub)) s) (a # sub))"
  by (subst countStr.simps) (auto simp: hasPrefix_def)

lemma countStr_tl:
  assumes "a \<noteq> b" "a \<noteq> c"
  shows "countStr s [a, b, c] \<le> countStr (x # s) [a, b, c]"
proof (cases "hasPrefix (x # s) [a, b, c]")
  case False
  then show ?thesis by (simp add: countStr_skip)
next
  case True
  then obtain t where s: "x = a" "s = b # c # t" by (auto simp: hasPrefix3)
  have "countStr s [a, b, c] = countStr t [a, b, c]"
    using assms by (simp add: s countStr_skip hasPrefix3)
  then show ?thesis using countStr_take [OF True] by (simp add: s)
qed

lemma countStr_append:
  assumes "a \<noteq> b" "a \<noteq> c"
  shows "countStr s [a, b, c] \<le> countStr (r @ s) [a, b, c]"
  by (induction r) (auto intro: order_trans [OF _ countStr_tl [OF assms]])

lemma runes_step: "s \<noteq> [] \<Longrightarrow> \<exists>r t. runes s = r # runes t \<and> s = r @ t \<and> r \<noteq> []"
  using runeLen_pos [of s] by (subst runes.simps) (auto intro!: exI [of _ "drop (runeLen s) s"])

lemma count_runes:
  assumes "a \<noteq> b" "a \<noteq> c"
  shows "length (filter (\<lambda>r. r = [a, b, c]) (runes s)) \<le> countStr s [a, b, c]"
proof (induction s rule: length_induct)
  case (1 s)
  show ?case
  proof (cases "s = []")
    case True
    then show ?thesis by (simp add: runes.simps)
  next
    case False
    then obtain r t where rt: "runes s = r # runes t" "s = r @ t" "r \<noteq> []" using runes_step by blast
    then have IH: "length (filter (\<lambda>r. r = [a, b, c]) (runes t)) \<le> countStr t [a, b, c]" using 1 by simp
    show ?thesis
    proof (cases "r = [a, b, c]")
      case True
      then have "countStr s [a, b, c] = Suc (countStr t [a, b, c])"
        using countStr_take [of s a "[b, c]"] by (simp add: rt hasPrefix3)
      with IH True show ?thesis unfolding rt(1) by simp
    next
      case False
      with IH countStr_append [OF assms, of t r] show ?thesis unfolding rt(1) by (simp add: rt(2))
    qed
  qed
qed

lemma countStr_contains: "0 < countStr s (a # sub) \<Longrightarrow> containsStr s (a # sub)"
proof (induction s)
  case (Cons x s)
  then show ?case by (cases "hasPrefix (x # s) (a # sub)") (simp_all add: countStr_skip)
qed simp

lemma sep_runes:
  "length (filter isSep (runes s)) \<le> countStr s lineSep + countStr s paraSep"
proof -
  have "length (filter isSep rs) \<le> length (filter (\<lambda>r. r = lineSep) rs) + length (filter (\<lambda>r. r = paraSep) rs)" for rs
    by (induction rs) (auto simp: isSep_def)
  also have "\<dots> (runes s) \<le> countStr s lineSep + countStr s paraSep"
    unfolding lineSep_def paraSep_def by (intro add_mono count_runes) simp_all
  finally show ?thesis .
qed

lemma sum_runes: "sum_list (map (\<lambda>r. sum_list (map f r)) rs) = sum_list (map (f :: char \<Rightarrow> nat) (concat rs))"
  by (induction rs) auto

lemma sum_if: "sum_list (map (\<lambda>r. if P r then (k::nat) else 0) rs) = k * length (filter P rs)"
  by (induction rs) auto

lemma valid_no_error: "validUTF8 s \<Longrightarrow> r \<in> set (runes s) \<Longrightarrow> length (escapeRune r) \<le> length r + sum_list (map byteExtra r) + (if isSep r then 4 else 0)"
proof (cases "\<exists>c. r = [c]")
  case True
  assume "validUTF8 s" "r \<in> set (runes s)"
  with True obtain c where "r = [c]" "byte c < 128" by (auto simp: validUTF8_def list_all_iff)
  then show ?thesis using escapeRune_single [of c] by simp
next
  case False
  have "length lineSep = 3" "length paraSep = 3" by (simp_all add: lineSep_def paraSep_def)
  then show ?thesis unfolding escapeRune_long [OF False] isSep_def by (simp split: if_split)
qed

text \<open>
  \<^verbatim>\<open>EncodedSize\<close>, which the row and response limits add up, is never too small: the JSON
  encoding of any string, valid UTF-8 or not, takes at most that many bytes besides its two
  quotes.
\<close>

theorem EncodedSize_bounds: "length (jsonString s) \<le> EncodedSize s + 2"
proof -
  let ?bad = "\<lambda>r. if runeValue r = 0xFFFD \<and> \<not> validUTF8 s then (6::nat) else 0"
  let ?sep = "\<lambda>r. if isSep r then (4::nat) else 0"
  have "length (escapeRune r) \<le> length r + sum_list (map byteExtra r) + ?sep r + ?bad r" if "r \<in> set (runes s)" for r
    using escapeRune_length [of r] valid_no_error [OF _ that] by (cases "validUTF8 s") auto
  then have "sum_list (map (\<lambda>r. length (escapeRune r)) (runes s))
      \<le> sum_list (map (\<lambda>r. length r + sum_list (map byteExtra r) + ?sep r + ?bad r) (runes s))"
    by (intro sum_list_mono)
  also have "\<dots> = length s + sum_list (map byteExtra s) + 4 * length (filter isSep (runes s))
      + 6 * length (filter (\<lambda>r. runeValue r = 0xFFFD \<and> \<not> validUTF8 s) (runes s))"
    by (simp add: sum_list_addf sum_runes sum_if length_concat [symmetric, of "runes s"])
  finally have enc: "length (jsonString s) \<le> length s + sum_list (map byteExtra s) + 4 * length (filter isSep (runes s))
      + 6 * length (filter (\<lambda>r. runeValue r = 0xFFFD \<and> \<not> validUTF8 s) (runes s)) + 2"
    by (simp add: jsonString_def length_concat o_def)
  have seps: "length (filter isSep (runes s)) = 0" if "\<not> containsStr s lineSep" "\<not> containsStr s paraSep"
  proof -
    have "countStr s lineSep = 0" "countStr s paraSep = 0"
      using that countStr_contains unfolding lineSep_def paraSep_def by (metis gr0I)+
    then show ?thesis using sep_runes [of s] by simp
  qed
  show ?thesis using enc seps sep_runes [of s] by (auto simp: EncodedSize_def Let_def)
qed

end
