(* ===== verification/Constraint_Eval.thy ===== *)
theory Constraint_Eval
  imports Schema_Constraints Value_Coerce
begin

text \<open>
  Evaluating constraints on rows (\<^verbatim>\<open>internal/constraints/values.go\<close>, \<^verbatim>\<open>predicate.go\<close>,
  \<^verbatim>\<open>evaluate.go\<close>): comparable scalars, the byte key of a unique constraint, and the compiled
  form of its \<^verbatim>\<open>where\<close> clause with its three truth values. \<open>Constraint_Key\<close> and
  \<open>Constraint_Where\<close> prove that keys are equal exactly for equal values, and that compiling and
  evaluating a clause gives the SQL meaning of its text.
\<close>

section \<open>Scalars\<close>

record scalar =
  sKind :: string
  sText :: string
  sNumber :: "rat option"

datatype check_error =
    CheckCtx string
  | InvalidScalar string
  | NotFinite string
  | UnsupportedNumber string
  | NotScalarType string
  | KeyFieldCount
  | NotReference
  | WrongKind string
  | BadDeclaration constraint_error
  | BadWhere filter_error
  | WhereIncompatible string
  | UnsupportedCondition
  | LiteralKinds
  | FieldKinds
  | NotLiteral
  | UnsupportedLiteral
  | LiteralNumberError coerce_error
  | ScalarKinds
  | UnsupportedComparison
  | NotOptedIn string
  | PolicyMismatch string
  | MissingSchema
  | MissingParent string
  | ForeignViolation string
  | UniqueViolation string

definition showInt :: "int \<Rightarrow> string" where
  "showInt n = (if n < 0 then CHR ''-'' # showNat (nat (- n)) else showNat (nat n))"

text \<open>\<^verbatim>\<open>big.Rat.RatString\<close>: the numerator alone for an integer, else numerator and denominator in lowest terms.\<close>

definition ratString :: "rat \<Rightarrow> string" where
  "ratString r =
     (case quotient_of r of (a, b) \<Rightarrow> if b = 1 then showInt a else showInt a @ CHR ''/'' # showInt b)"

text \<open>A boolean read back from storage is 0 or 1.\<close>

definition storedBool :: "field \<Rightarrow> go_value \<Rightarrow> go_value" where
  "storedBool f input =
     (if Type f = ''boolean'' then
        (case input of VInt64 n \<Rightarrow> if n = 0 \<or> n = 1 then VBool (n = 1) else input | _ \<Rightarrow> input)
      else input)"

definition coerceScalar :: "value_env \<Rightarrow> field \<Rightarrow> go_value \<Rightarrow> check_error + scalar" where
  "coerceScalar env f input =
     (case Coerce env f (storedBool f input) of
        Inl _ \<Rightarrow> Inl (InvalidScalar (Name f))
      | Inr v \<Rightarrow>
          if v = VNil then Inl (InvalidScalar (Name f))
          else if Type f = ''string'' \<or> Type f = ''text'' \<or> Type f = ''timestamp'' then
            (case v of
               VString s \<Rightarrow>
                 Inr \<lparr>sKind = (if Type f = ''text'' then ''string'' else Type f), sText = s, sNumber = None\<rparr>
             | _ \<Rightarrow> Inl (InvalidScalar (Name f)))
          else if Type f = ''number'' then
            (case v of
               VInt64 n \<Rightarrow> Inr \<lparr>sKind = ''number'', sText = ratString (of_int n), sNumber = Some (of_int n)\<rparr>
             | VFloat64 (Fin r) \<Rightarrow> Inr \<lparr>sKind = ''number'', sText = ratString r, sNumber = Some r\<rparr>
             | VFloat64 _ \<Rightarrow> Inl (NotFinite (Name f))
             | _ \<Rightarrow> Inl (UnsupportedNumber (Name f)))
          else if Type f = ''boolean'' then
            Inr \<lparr>sKind = ''boolean'', sText = (if v = VInt64 1 then ''1'' else ''0''), sNumber = None\<rparr>
          else Inl (NotScalarType (Name f)))"

section \<open>Keys\<close>

text \<open>\<^verbatim>\<open>binary.AppendUvarint\<close>: seven bits a byte, low bits first, the high bit set on all but the last.\<close>

function uvarint :: "nat \<Rightarrow> string" where
  "uvarint n = (if n < 128 then [char_of n] else char_of (n mod 128 + 128) # uvarint (n div 128))"
  by pat_completeness auto
termination
  by (relation "measure id") auto

declare uvarint.simps [simp del]

definition appendPart :: "string \<Rightarrow> string \<Rightarrow> string" where
  "appendPart dst part = dst @ uvarint (length part) @ part"

type_synonym row_values = "(string \<times> go_value) list"

text \<open>Reading a Go map: a key that is missing reads as nil.\<close>

definition cell :: "row_values \<Rightarrow> string \<Rightarrow> go_value" where
  "cell row name = (case map_of row name of None \<Rightarrow> VNil | Some v \<Rightarrow> v)"

fun keyLoop :: "value_env \<Rightarrow> row_values \<Rightarrow> string \<Rightarrow> bool \<Rightarrow> field list \<Rightarrow> check_error + string \<times> bool" where
  "keyLoop env row key null [] = Inr (key, null)"
| "keyLoop env row key null (f # fs) =
     (if cell row (Name f) = VNil then keyLoop env row key True fs
      else
        bindR (coerceScalar env f (cell row (Name f))) (\<lambda>s.
          keyLoop env row (appendPart (appendPart key (sKind s)) (sText s)) null fs))"

text \<open>The key of a row, or \<open>None\<close> when a null keeps it out of the constraint.\<close>

definition UniqueKey :: "value_env \<Rightarrow> field list \<Rightarrow> row_values \<Rightarrow> string option \<Rightarrow> check_error + string option" where
  "UniqueKey env fs row owner =
     (if fs = [] \<or> MaxUniqueConstraintFields < length fs then Inl KeyFieldCount
      else
        let start = (case owner of None \<Rightarrow> [CHR 0x00] | Some p \<Rightarrow> appendPart [CHR 0x01] p) in
        bindR (keyLoop env row start False fs) (\<lambda>(key, null). Inr (if null then None else Some key)))"

definition SameOwner :: "string option \<Rightarrow> string option \<Rightarrow> bool" where
  "SameOwner l r = (case (l, r) of (Some a, Some b) \<Rightarrow> a = b | (None, None) \<Rightarrow> True | _ \<Rightarrow> False)"

definition numberField :: "string \<Rightarrow> field" where
  "numberField name =
     \<lparr>Name = name, Type = ''number'', Fulltext = False, Vectorize = False, Dim = 0, Required = False,
      Enum = None, Shape = '''', Default = None, MaxBytes = 0, MediaTypes = None\<rparr>"

definition ReferenceID :: "value_env \<Rightarrow> go_value \<Rightarrow> check_error + int option" where
  "ReferenceID env input =
     (if input = VNil then Inr None
      else
        (case Coerce env (numberField ''reference'') input of
           Inr (VInt64 n) \<Rightarrow> if 0 < n then Inr (Some n) else Inl NotReference
         | Inr (VFloat64 (Fin r)) \<Rightarrow>
             if 1 \<le> r \<and> r < 2 ^ 63 \<and> of_int \<lfloor>r\<rfloor> = r then Inr (Some \<lfloor>r\<rfloor>) else Inl NotReference
         | _ \<Rightarrow> Inl NotReference))"

section \<open>Compiled conditions\<close>

datatype operand = ColumnOperand string field | ConstantOperand "scalar option"

datatype condition =
  Condition (cOp: string) (cLeft: "condition option") (cRight: "condition option") (cA: operand) (cB: operand)

record unique_plan =
  planKeys :: "field list"
  planWhere :: "condition option"

definition noOperand :: operand where "noOperand = ConstantOperand None"

fun unparen :: "node \<Rightarrow> node" where
  "unparen (Paren n) = unparen n"
| "unparen n = n"

definition columnName :: "node \<Rightarrow> string option" where
  "columnName n = (case unparen n of Column c \<Rightarrow> Some c | _ \<Rightarrow> None)"

definition literalValue :: "value_env \<Rightarrow> node \<Rightarrow> check_error + go_value" where
  "literalValue env n =
     (let (sign, inner) = (case unparen n of Unary s m \<Rightarrow> (s, m) | m \<Rightarrow> ('''', m)) in
      case inner of
        Literal k s \<Rightarrow>
          (case k of
             LiteralNull \<Rightarrow> Inr VNil
           | LiteralString \<Rightarrow> Inr (VString s)
           | LiteralTrue \<Rightarrow> Inr (VBool True)
           | LiteralFalse \<Rightarrow> Inr (VBool False)
           | LiteralNumber \<Rightarrow>
               (case Coerce env (numberField ''predicate'') (VNumber (sign @ s)) of
                  Inl e \<Rightarrow> Inl (LiteralNumberError e) | Inr v \<Rightarrow> Inr v)
           | LiteralBlob \<Rightarrow> Inl UnsupportedLiteral)
      | _ \<Rightarrow> Inl NotLiteral)"

text \<open>A field the map does not hold is Go's zero field.\<close>

definition zeroOf :: "(string \<Rightarrow> field option) \<Rightarrow> string \<Rightarrow> field" where
  "zeroOf flds name =
     (case flds name of
        Some f \<Rightarrow> f
      | None \<Rightarrow> \<lparr>Name = '''', Type = '''', Fulltext = False, Vectorize = False, Dim = 0, Required = False,
          Enum = None, Shape = '''', Default = None, MaxBytes = 0, MediaTypes = None\<rparr>)"

definition inferredType :: "go_value \<Rightarrow> string" where
  "inferredType raw =
     (case raw of VInt64 _ \<Rightarrow> ''number'' | VFloat64 _ \<Rightarrow> ''number'' | VBool _ \<Rightarrow> ''boolean'' | _ \<Rightarrow> ''string'')"

text \<open>The type two literals have in common; an unreadable or null one says nothing.\<close>

fun literalTypes :: "value_env \<Rightarrow> string option \<Rightarrow> node list \<Rightarrow> check_error + string option" where
  "literalTypes env kind [] = Inr kind"
| "literalTypes env kind (n # ns) =
     (case literalValue env n of
        Inl _ \<Rightarrow> literalTypes env kind ns
      | Inr raw \<Rightarrow>
          if raw = VNil then literalTypes env kind ns
          else if kind \<noteq> None \<and> kind \<noteq> Some (inferredType raw) then Inl LiteralKinds
          else literalTypes env (Some (inferredType raw)) ns)"

definition leafField :: "value_env \<Rightarrow> (string \<Rightarrow> field option) \<Rightarrow> node \<Rightarrow> node \<Rightarrow> check_error + field" where
  "leafField env flds a b =
     bindR
       (case columnName a of
          Some c \<Rightarrow> Inr (zeroOf flds c)
        | None \<Rightarrow>
            (case columnName b of
               Some c \<Rightarrow> Inr (zeroOf flds c)
             | None \<Rightarrow>
                 bindR (literalTypes env None [a, b]) (\<lambda>kind.
                   Inr ((numberField ''predicate'')\<lparr>Type := (case kind of None \<Rightarrow> ''string'' | Some t \<Rightarrow> t)\<rparr>))))
       (\<lambda>f. Inr (f\<lparr>Enum := None\<rparr>))"

definition textType :: "string \<Rightarrow> bool" where
  "textType t \<longleftrightarrow> t = ''string'' \<or> t = ''text''"

definition compileOperand ::
    "value_env \<Rightarrow> node \<Rightarrow> field \<Rightarrow> (string \<Rightarrow> field option) \<Rightarrow> check_error + operand" where
  "compileOperand env n f flds =
     (case columnName n of
        Some c \<Rightarrow>
          let actual = zeroOf flds c in
          if Type actual \<noteq> Type f \<and> \<not> (textType (Type actual) \<and> textType (Type f)) then Inl FieldKinds
          else Inr (ColumnOperand c (actual\<lparr>Enum := None\<rparr>))
      | None \<Rightarrow>
          bindR (literalValue env n) (\<lambda>raw.
            if raw = VNil then Inr (ConstantOperand None)
            else bindR (coerceScalar env f raw) (\<lambda>s. Inr (ConstantOperand (Some s)))))"

definition compileLeaf ::
    "value_env \<Rightarrow> (string \<Rightarrow> field option) \<Rightarrow> string \<Rightarrow> node \<Rightarrow> node \<Rightarrow> check_error + condition" where
  "compileLeaf env flds sign a b =
     bindR (leafField env flds a b) (\<lambda>f.
     bindR (compileOperand env a f flds) (\<lambda>x.
     bindR (compileOperand env b f flds) (\<lambda>y.
       Inr (Condition sign None None x y))))"

fun compileCondition ::
    "value_env \<Rightarrow> ctx \<Rightarrow> (string \<Rightarrow> field option) \<Rightarrow> node \<Rightarrow> check_error + condition" where
  "compileCondition env cx flds (Paren n) = compileCondition env cx flds n"
| "compileCondition env cx flds (Unary sign n) =
     poll cx CheckCtx
      (bindR (compileCondition env (under cx 0) flds n) (\<lambda>l.
        Inr (Condition sign (Some l) None noOperand noOperand)))"
| "compileCondition env cx flds (Binary sign a b) =
     poll cx CheckCtx
      (if sign = ''and'' \<or> sign = ''or'' then
         bindR (compileCondition env (under cx 0) flds a) (\<lambda>l.
         bindR (compileCondition env (under cx 1) flds b) (\<lambda>r.
           Inr (Condition sign (Some l) (Some r) noOperand noOperand)))
       else compileLeaf env flds sign a b)"
| "compileCondition env cx flds (Is negated a b) =
     poll cx CheckCtx (compileLeaf env flds (if negated then ''is_not_null'' else ''is_null'') a b)"
| "compileCondition env cx flds _ = poll cx CheckCtx (Inl UnsupportedCondition)"

definition CompileUnique ::
    "value_env \<Rightarrow> (string \<Rightarrow> string) \<Rightarrow> (string \<Rightarrow> string) \<Rightarrow> ctx \<Rightarrow> field list \<Rightarrow> constraint \<Rightarrow> check_error + unique_plan" where
  "CompileUnique env lo tr cx flds c =
     (if Kind c \<noteq> ConstraintUnique then Inl (WrongKind ''unique'')
      else
        (case ValidateConstraintDeclarations lo tr (under cx 0) flds [c] of
           Inl e \<Rightarrow> Inl (BadDeclaration e)
         | Inr _ \<Rightarrow>
             let keys = map (\<lambda>name. (zeroOf (byName flds) name)\<lparr>Enum := None\<rparr>) (fieldList c) in
             if Where c = '''' then Inr \<lparr>planKeys = keys, planWhere = None\<rparr>
             else
               (case Parse (Where c) (whereOptions lo tr (under cx 1) (map Name flds)) of
                  Inl e \<Rightarrow> Inl (BadWhere e)
                | Inr n \<Rightarrow>
                    (case compileCondition env (under cx 2) (byName flds) n of
                       Inl _ \<Rightarrow> poll (under cx 3) CheckCtx (Inl (WhereIncompatible (CName c)))
                     | Inr w \<Rightarrow> Inr \<lparr>planKeys = keys, planWhere = Some w\<rparr>))))"

section \<open>Evaluation\<close>

datatype truth = No | Unknown | Yes

definition truthOf :: "bool \<Rightarrow> truth" where
  "truthOf b = (if b then Yes else No)"

definition readOperand :: "value_env \<Rightarrow> operand \<Rightarrow> row_values \<Rightarrow> check_error + scalar option" where
  "readOperand env x row =
     (case x of
        ConstantOperand s \<Rightarrow> Inr s
      | ColumnOperand c f \<Rightarrow>
          if cell row c = VNil then Inr None
          else bindR (coerceScalar env f (cell row c)) (\<lambda>s. Inr (Some s)))"

text \<open>\<^verbatim>\<open>strings.Compare\<close> and \<^verbatim>\<open>big.Rat.Cmp\<close>: below, at or above zero.\<close>

definition cmpOf :: "'a::linorder \<Rightarrow> 'a \<Rightarrow> int" where
  "cmpOf x y = (if x < y then -1 else if x = y then 0 else 1)"

definition compareScalars :: "scalar \<Rightarrow> scalar \<Rightarrow> int" where
  "compareScalars a b =
     (case (sNumber a, sNumber b) of
        (Some x, Some y) \<Rightarrow> if sKind a = ''number'' then cmpOf x y else cmpOf (sText a) (sText b)
      | _ \<Rightarrow> cmpOf (sText a) (sText b))"

definition verdict :: "string \<Rightarrow> int \<Rightarrow> check_error + truth" where
  "verdict sign c =
     (if sign = ''='' \<or> sign = ''=='' then Inr (truthOf (c = 0))
      else if sign = ''!='' \<or> sign = ''<>'' then Inr (truthOf (c \<noteq> 0))
      else if sign = ''<'' then Inr (truthOf (c < 0))
      else if sign = ''<='' then Inr (truthOf (c \<le> 0))
      else if sign = ''>'' then Inr (truthOf (c > 0))
      else if sign = ''>='' then Inr (truthOf (c \<ge> 0))
      else Inl UnsupportedComparison)"

definition evaluateLeaf :: "value_env \<Rightarrow> row_values \<Rightarrow> string \<Rightarrow> operand \<Rightarrow> operand \<Rightarrow> check_error + truth" where
  "evaluateLeaf env row sign x y =
     bindR (readOperand env x row) (\<lambda>a.
       if sign = ''is_null'' \<or> sign = ''is_not_null'' then Inr (truthOf ((a = None) = (sign = ''is_null'')))
       else
         bindR (readOperand env y row) (\<lambda>b.
           (case (a, b) of
              (Some s, Some t) \<Rightarrow> if sKind s \<noteq> sKind t then Inl ScalarKinds else verdict sign (compareScalars s t)
            | _ \<Rightarrow> Inr Unknown)))"

fun evaluate :: "value_env \<Rightarrow> ctx \<Rightarrow> row_values \<Rightarrow> condition option \<Rightarrow> check_error + truth" where
  "evaluate env cx row None = poll cx CheckCtx (Inr Yes)"
| "evaluate env cx row (Some (Condition sign l r x y)) =
     poll cx CheckCtx
      (if sign = ''and'' \<or> sign = ''or'' \<or> sign = ''not'' then
         bindR (evaluate env (under cx 0) row l) (\<lambda>left.
           if sign = ''not'' then Inr (case left of Unknown \<Rightarrow> Unknown | Yes \<Rightarrow> No | No \<Rightarrow> Yes)
           else
             bindR (evaluate env (under cx 1) row r) (\<lambda>right.
               if sign = ''and'' \<and> (left = No \<or> right = No) then Inr No
               else if sign = ''or'' \<and> (left = Yes \<or> right = Yes) then Inr Yes
               else if left = Unknown \<or> right = Unknown then Inr Unknown
               else Inr left))
       else evaluateLeaf env row sign x y)"

definition Key :: "value_env \<Rightarrow> ctx \<Rightarrow> unique_plan \<Rightarrow> row_values \<Rightarrow> string option \<Rightarrow> check_error + string option" where
  "Key env cx plan row owner =
     bindR (evaluate env cx row (planWhere plan)) (\<lambda>matches.
     bindR (UniqueKey env (planKeys plan) row owner) (\<lambda>key.
       Inr (if matches \<noteq> Yes then None else key)))"

end
