(* ===== verification/Constraint_Key.thy ===== *)
theory Constraint_Key
  imports Constraint_Eval
begin

text \<open>
  The key of a unique constraint is an injective code of what it stands for: two rows have
  the same key exactly when they have the same owner (where rows are owned) and equal
  values in every key field. The code is a sequence of length-prefixed parts, so the proof
  goes through the two facts that make such sequences unambiguous: a varint ends itself, and
  the text of a number determines the number.
\<close>

declare showNat.simps [simp del]

section \<open>Parts\<close>

lemma byte_char_of: "n < 256 \<Longrightarrow> byte (char_of n) = n"
  by simp

lemma uvarint_cases:
  "uvarint n = (if n < 128 then [char_of n] else char_of (n mod 128 + 128) # uvarint (n div 128))"
  by (rule uvarint.simps)

lemma uvarint_small: "n < 128 \<Longrightarrow> uvarint n = [char_of n]"
  by (simp add: uvarint_cases [of n])

lemma uvarint_large: "\<not> n < 128 \<Longrightarrow> uvarint n = char_of (n mod 128 + 128) # uvarint (n div 128)"
  by (simp add: uvarint_cases [of n])

lemma uvarint_head: "\<exists>c cs. uvarint n = c # cs \<and> (byte c < 128 \<longleftrightarrow> n < 128)"
  by (cases "n < 128") (simp_all add: uvarint_small uvarint_large)

lemma char_of_inj: "(m::nat) < 256 \<Longrightarrow> n < 256 \<Longrightarrow> (char_of m :: char) = char_of n \<longleftrightarrow> m = n"
  by (metis byte_char_of)

lemma uvarint_inj: "uvarint m @ xs = uvarint n @ ys \<Longrightarrow> m = n \<and> xs = ys"
proof (induction m arbitrary: n xs rule: less_induct)
  case (less m)
  have small: "m < 128 \<longleftrightarrow> n < 128"
    using uvarint_head [of m] uvarint_head [of n] less.prems by (metis append_Cons list.inject)
  show ?case
  proof (cases "m < 128")
    case True
    with small less.prems show ?thesis by (simp add: uvarint_small char_of_inj)
  next
    case False
    with small have "\<not> n < 128" by simp
    with False less.prems have eq: "(char_of (m mod 128 + 128) :: char) = char_of (n mod 128 + 128)"
      "uvarint (m div 128) @ xs = uvarint (n div 128) @ ys"
      using uvarint_large [of m] uvarint_large [of n] by simp_all
    have "m mod 128 < 128" "n mod 128 < 128" by simp_all
    with eq(1) have "m mod 128 = n mod 128" using char_of_inj [of "m mod 128 + 128" "n mod 128 + 128"] by linarith
    moreover have "m div 128 = n div 128 \<and> xs = ys" using less.IH [OF _ eq(2)] False by simp
    ultimately show ?thesis by (metis mult_div_mod_eq)
  qed
qed

definition part :: "string \<Rightarrow> string" where
  "part s = uvarint (length s) @ s"

lemma appendPart_part: "appendPart dst s = dst @ part s"
  by (simp add: appendPart_def part_def)

lemma part_inj: "part s @ xs = part t @ ys \<longleftrightarrow> s = t \<and> xs = ys"
  unfolding part_def append_assoc using uvarint_inj [of "length s" "s @ xs" "length t" "t @ ys"] by auto

lemma parts_inj: "length ss = length ts \<Longrightarrow> concat (map part ss) = concat (map part ts) \<longleftrightarrow> ss = ts"
  by (induction ss ts rule: list_induct2) (simp_all add: part_inj)

section \<open>Numbers as text\<close>

lemma showNat_no_sign: "showNat n = c # cs \<Longrightarrow> isDigit c" "CHR ''/'' \<notin> set (showNat n)" "CHR ''-'' \<notin> set (showNat n)"
  using showNat_digits [of n] by (auto simp: list_all_iff isDigit_def)

lemma showNat_inj: "showNat m = showNat n \<longleftrightarrow> m = n"
  by (metis readNat_showNat)

lemma showNat_not_neg: "showNat k \<noteq> CHR ''-'' # s" "CHR ''-'' # s \<noteq> showNat k"
  using showNat_no_sign(3) [of k] by (metis list.set_intros(1))+

lemma showInt_inj: "showInt m = showInt n \<longleftrightarrow> m = n"
  by (cases "m < 0"; cases "n < 0") (simp_all add: showInt_def showNat_not_neg showNat_inj eq_nat_nat_iff)

lemma showInt_no_slash: "CHR ''/'' \<notin> set (showInt n)"
  using showNat_no_sign(2) by (auto simp: showInt_def)

lemma sep_split: "c \<notin> set a \<Longrightarrow> c \<notin> set b \<Longrightarrow> a @ c # x = b @ c # y \<Longrightarrow> a = b \<and> x = y"
proof (induction a arbitrary: b)
  case Nil
  then show ?case by (cases b) auto
next
  case (Cons d a)
  then show ?case by (cases b) auto
qed

lemma ratString_inj: "ratString r = ratString s \<longleftrightarrow> r = s"
proof
  obtain a b where r: "quotient_of r = (a, b)" by fastforce
  obtain c d where s: "quotient_of s = (c, d)" by fastforce
  assume eq: "ratString r = ratString s"
  have slash: "CHR ''/'' \<in> set (ratString r) \<longleftrightarrow> b \<noteq> 1" "CHR ''/'' \<in> set (ratString s) \<longleftrightarrow> d \<noteq> 1"
    using showInt_no_slash by (auto simp: ratString_def r s)
  have "(a, b) = (c, d)"
  proof (cases "b = 1")
    case True
    with eq slash have "d = 1" by simp
    with True eq show ?thesis by (simp add: ratString_def r s showInt_inj)
  next
    case False
    with eq slash have "d \<noteq> 1" by simp
    with False eq sep_split [OF showInt_no_slash showInt_no_slash, of a "showInt b" c "showInt d"] show ?thesis
      by (simp add: ratString_def r s showInt_inj)
  qed
  then show "r = s" using r s quotient_of_inject by metis
qed simp

section \<open>Scalars\<close>

definition scalarKind :: "string \<Rightarrow> string" where
  "scalarKind t = (if t = ''text'' then ''string'' else t)"

lemma coerceScalar_shape:
  assumes "coerceScalar env f v = Inr s"
  shows "constraintScalar (Type f) \<and> sKind s = scalarKind (Type f)
    \<and> (if Type f = ''number'' then \<exists>r. sNumber s = Some r \<and> sText s = ratString r else sNumber s = None)"
  using assms by (auto simp: coerceScalar_def constraintScalar_def scalarKind_def
      split: sum.splits if_splits go_value.splits go_float.splits)

text \<open>A scalar of a field is determined by its text; the number adds nothing.\<close>

lemma coerceScalar_text:
  assumes "coerceScalar env f v = Inr s" "coerceScalar env f w = Inr t"
  shows "sText s = sText t \<longleftrightarrow> s = t"
  using coerceScalar_shape [OF assms(1)] coerceScalar_shape [OF assms(2)]
  by (auto simp: ratString_inj intro: scalar.equality split: if_splits)

section \<open>The key\<close>

definition reads :: "value_env \<Rightarrow> row_values \<Rightarrow> field list \<Rightarrow> scalar list \<Rightarrow> bool" where
  "reads env row fs ss = list_all2 (\<lambda>f s. coerceScalar env f (cell row (Name f)) = Inr s) fs ss"

lemma keyLoop_spec:
  assumes "keyLoop env row key null fs = Inr (k, False)"
  shows "\<not> null \<and> (\<exists>ss. reads env row fs ss \<and> list_all (\<lambda>f. cell row (Name f) \<noteq> VNil) fs
    \<and> k = key @ concat (map (\<lambda>s. part (sKind s) @ part (sText s)) ss))"
  using assms
proof (induction env row key null fs rule: keyLoop.induct)
  case (1 env row key null)
  then show ?case by (auto simp: reads_def)
next
  case (2 env row key null f fs)
  show ?case
  proof (cases "cell row (Name f) = VNil")
    case True
    with 2 show ?thesis by auto
  next
    case False
    with "2.prems" obtain s where s: "coerceScalar env f (cell row (Name f)) = Inr s"
      "keyLoop env row (appendPart (appendPart key (sKind s)) (sText s)) null fs = Inr (k, False)" by auto
    from "2.IH"(2) [OF False s(2)] obtain ss where "\<not> null" "reads env row fs ss" "list_all (\<lambda>f. cell row (Name f) \<noteq> VNil) fs"
      "k = appendPart (appendPart key (sKind s)) (sText s) @ concat (map (\<lambda>s. part (sKind s) @ part (sText s)) ss)" by auto
    with s(1) False show ?thesis
      by (auto simp: reads_def appendPart_part intro!: exI [of _ "s # ss"])
  qed
qed

lemma UniqueKey_Some:
  assumes "UniqueKey env fs row owner = Inr (Some k)"
  obtains ss where "reads env row fs ss" "list_all (\<lambda>f. cell row (Name f) \<noteq> VNil) fs"
    "k = (case owner of None \<Rightarrow> [CHR 0x00] | Some p \<Rightarrow> CHR 0x01 # part p)
         @ concat (map (\<lambda>s. part (sKind s) @ part (sText s)) ss)"
proof -
  let ?start = "case owner of None \<Rightarrow> [CHR 0x00] | Some p \<Rightarrow> appendPart [CHR 0x01] p"
  have "keyLoop env row ?start False fs = Inr (k, False)"
    using assms by (auto simp: UniqueKey_def Let_def split: if_splits prod.splits)
  from keyLoop_spec [OF this] that show thesis by (auto simp: appendPart_part split: option.splits)
qed

lemma reads_texts_inj:
  assumes "reads env row fs ss" "reads env row' fs ts"
  shows "concat (map (\<lambda>s. part (sKind s) @ part (sText s)) ss) = concat (map (\<lambda>s. part (sKind s) @ part (sText s)) ts)
    \<longleftrightarrow> list_all (\<lambda>f. coerceScalar env f (cell row (Name f)) = coerceScalar env f (cell row' (Name f))) fs"
  using assms unfolding reads_def
proof (induction fs arbitrary: ss ts)
  case (Cons f fs)
  from Cons.prems obtain s ss' where s: "ss = s # ss'" "coerceScalar env f (cell row (Name f)) = Inr s"
    "list_all2 (\<lambda>f s. coerceScalar env f (cell row (Name f)) = Inr s) fs ss'" by (auto simp: list_all2_Cons1)
  from Cons.prems obtain t ts' where t: "ts = t # ts'" "coerceScalar env f (cell row' (Name f)) = Inr t"
    "list_all2 (\<lambda>f s. coerceScalar env f (cell row' (Name f)) = Inr s) fs ts'" by (auto simp: list_all2_Cons1)
  have "sKind s = sKind t" using coerceScalar_shape [OF s(2)] coerceScalar_shape [OF t(2)] by simp
  then show ?case using Cons.IH [OF s(3) t(3)] coerceScalar_text [OF s(2) t(2)] by (simp add: s t part_inj)
qed simp

lemma UniqueKey_eq:
  assumes "UniqueKey env fs row owner = Inr (Some k)" "UniqueKey env fs row' owner' = Inr (Some k')"
  shows "k = k' \<longleftrightarrow> owner = owner'
    \<and> list_all (\<lambda>f. coerceScalar env f (cell row (Name f)) = coerceScalar env f (cell row' (Name f))) fs"
proof -
  from UniqueKey_Some [OF assms(1)] obtain ss where ss: "reads env row fs ss"
    "k = (case owner of None \<Rightarrow> [CHR 0x00] | Some p \<Rightarrow> CHR 0x01 # part p)
         @ concat (map (\<lambda>s. part (sKind s) @ part (sText s)) ss)" by blast
  from UniqueKey_Some [OF assms(2)] obtain ts where ts: "reads env row' fs ts"
    "k' = (case owner' of None \<Rightarrow> [CHR 0x00] | Some p \<Rightarrow> CHR 0x01 # part p)
         @ concat (map (\<lambda>s. part (sKind s) @ part (sText s)) ts)" by blast
  show ?thesis unfolding reads_texts_inj [OF ss(1) ts(1), symmetric] ss(2) ts(2)
    by (cases owner; cases owner') (simp_all add: part_inj)
qed

text \<open>
  C27. The key of a unique constraint is unambiguous: of two rows that take part, the keys are
  equal exactly when the owners are equal and every key field holds equal values, whatever
  bytes those values contain. Equal keys therefore always mean a real duplicate, and every
  duplicate has equal keys.
\<close>

theorem UniqueKey_injective:
  assumes "UniqueKey env fs row owner = Inr (Some k)" "UniqueKey env fs row' owner' = Inr (Some k')"
  shows "k = k' \<longleftrightarrow> owner = owner'
    \<and> list_all (\<lambda>f. coerceScalar env f (cell row (Name f)) = coerceScalar env f (cell row' (Name f))) fs"
  using UniqueKey_eq [OF assms] .

theorem UniqueKey_injective_witness:
  "[CHR 0x00] @ part ''string'' @ part ''ab'' @ part ''string'' @ part ''c''
     \<noteq> [CHR 0x00] @ part ''string'' @ part ''a'' @ part ''string'' @ part ''bc''"
proof -
  let ?fs = "[(sampleField ''string'')\<lparr>Name := ''x''\<rparr>, (sampleField ''string'')\<lparr>Name := ''y''\<rparr>]"
  have k: "UniqueKey sampleEnv ?fs [(''x'', VString a), (''y'', VString b)] None
      = Inr (Some ([CHR 0x00] @ part ''string'' @ part a @ part ''string'' @ part b))"
    if "CHR 0x00 \<notin> set a" "CHR 0x00 \<notin> set b" for a b
    using that by (simp add: UniqueKey_def MaxUniqueConstraintFields_def cell_def coerceScalar_def storedBool_def
        Coerce_def sampleField_def EnumAllows_def appendPart_part Let_def)
  from UniqueKey_injective [OF k [of "''ab''" "''c''"] k [of "''a''" "''bc''"]] show ?thesis
    by (simp add: cell_def coerceScalar_def storedBool_def Coerce_def sampleField_def EnumAllows_def)
qed

end
