(* ===== verification/Constraint_Where.thy ===== *)
theory Constraint_Where
  imports Constraint_Key
begin

text \<open>
  Compiling the \<^verbatim>\<open>where\<close> clause of a unique constraint and evaluating the result gives the SQL
  meaning of the clause. That meaning is stated on the parsed tree: the truth values are
  ordered \<^verbatim>\<open>no < unknown < yes\<close>, conjunction is the minimum, disjunction the maximum, negation
  reverses the order, a comparison with a null is unknown, and values of one type compare as
  numbers or as texts. The theorem includes that a compiled clause is well typed: it never
  fails on a row whose cells fit their fields.
\<close>

section \<open>The truth values are ordered\<close>

instantiation truth :: linorder
begin

fun rank :: "truth \<Rightarrow> nat" where
  "rank No = 0"
| "rank Unknown = 1"
| "rank Yes = 2"

definition less_eq_truth :: "truth \<Rightarrow> truth \<Rightarrow> bool" where
  "a \<le> b \<longleftrightarrow> rank a \<le> rank b"

definition less_truth :: "truth \<Rightarrow> truth \<Rightarrow> bool" where
  "a < b \<longleftrightarrow> rank a < rank b"

instance
proof
  fix x y z :: truth
  show "(x < y) = (x \<le> y \<and> \<not> y \<le> x)" "x \<le> x" "x \<le> y \<or> y \<le> x" by (auto simp: less_eq_truth_def less_truth_def)
  show "x \<le> z" if "x \<le> y" "y \<le> z" using that by (simp add: less_eq_truth_def)
  show "x = y" if "x \<le> y" "y \<le> x" using that by (cases x; cases y) (simp_all add: less_eq_truth_def)
qed

end

fun negate :: "truth \<Rightarrow> truth" where
  "negate No = Yes"
| "negate Unknown = Unknown"
| "negate Yes = No"

section \<open>The meaning of a clause\<close>

definition scalarLess :: "scalar \<Rightarrow> scalar \<Rightarrow> bool" where
  "scalarLess s t =
     (case (sNumber s, sNumber t) of (Some x, Some y) \<Rightarrow> x < y | _ \<Rightarrow> sText s < sText t)"

definition relates :: "string \<Rightarrow> scalar \<Rightarrow> scalar \<Rightarrow> bool" where
  "relates sign s t =
     (if sign = ''='' \<or> sign = ''=='' then s = t
      else if sign = ''!='' \<or> sign = ''<>'' then s \<noteq> t
      else if sign = ''<'' then scalarLess s t
      else if sign = ''<='' then \<not> scalarLess t s
      else if sign = ''>'' then scalarLess t s
      else \<not> scalarLess s t)"

definition columnField :: "(string \<Rightarrow> field option) \<Rightarrow> string \<Rightarrow> field" where
  "columnField flds c = (zeroOf flds c)\<lparr>Enum := None\<rparr>"

definition valueIn :: "value_env \<Rightarrow> field \<Rightarrow> go_value \<Rightarrow> scalar option" where
  "valueIn env f v =
     (if v = VNil then None else case coerceScalar env f v of Inl _ \<Rightarrow> None | Inr s \<Rightarrow> Some s)"

text \<open>A literal is read in the type \<open>f\<close> of what it is compared with.\<close>

definition operandValue ::
    "value_env \<Rightarrow> (string \<Rightarrow> field option) \<Rightarrow> row_values \<Rightarrow> field \<Rightarrow> node \<Rightarrow> scalar option" where
  "operandValue env flds row f n =
     (case columnName n of
        Some c \<Rightarrow> valueIn env (columnField flds c) (cell row c)
      | None \<Rightarrow> (case literalValue env n of Inl _ \<Rightarrow> None | Inr raw \<Rightarrow> valueIn env f raw))"

definition comparison ::
    "value_env \<Rightarrow> (string \<Rightarrow> field option) \<Rightarrow> row_values \<Rightarrow> (scalar option \<Rightarrow> scalar option \<Rightarrow> truth) \<Rightarrow> node \<Rightarrow> node \<Rightarrow> truth" where
  "comparison env flds row judge a b =
     (case leafField env flds a b of
        Inl _ \<Rightarrow> Unknown
      | Inr f \<Rightarrow> judge (operandValue env flds row f a) (operandValue env flds row f b))"

definition judge3 :: "string \<Rightarrow> scalar option \<Rightarrow> scalar option \<Rightarrow> truth" where
  "judge3 sign a b = (case (a, b) of (Some s, Some t) \<Rightarrow> truthOf (relates sign s t) | _ \<Rightarrow> Unknown)"

fun sqlTruth :: "value_env \<Rightarrow> (string \<Rightarrow> field option) \<Rightarrow> row_values \<Rightarrow> node \<Rightarrow> truth" where
  "sqlTruth env flds row (Paren n) = sqlTruth env flds row n"
| "sqlTruth env flds row (Unary _ n) = negate (sqlTruth env flds row n)"
| "sqlTruth env flds row (Binary sign a b) =
     (if sign = ''and'' then min (sqlTruth env flds row a) (sqlTruth env flds row b)
      else if sign = ''or'' then max (sqlTruth env flds row a) (sqlTruth env flds row b)
      else comparison env flds row (judge3 sign) a b)"
| "sqlTruth env flds row (Is negated a b) =
     comparison env flds row (\<lambda>x _. truthOf ((x = None) \<noteq> negated)) a b"
| "sqlTruth env flds row _ = Unknown"

fun nodeColumns :: "node \<Rightarrow> string list" where
  "nodeColumns (Column c) = [c]"
| "nodeColumns (Paren n) = nodeColumns n"
| "nodeColumns (Unary _ n) = nodeColumns n"
| "nodeColumns (Binary _ a b) = nodeColumns a @ nodeColumns b"
| "nodeColumns (Is _ a b) = nodeColumns a @ nodeColumns b"
| "nodeColumns _ = []"

text \<open>The cells of the columns a clause mentions fit their fields, or are null.\<close>

definition fits :: "value_env \<Rightarrow> (string \<Rightarrow> field option) \<Rightarrow> row_values \<Rightarrow> string list \<Rightarrow> bool" where
  "fits env flds row cs =
     list_all (\<lambda>c. cell row c = VNil \<or> isOk (coerceScalar env (columnField flds c) (cell row c))) cs"

section \<open>Leaves\<close>

lemma columnName_unparen: "columnName n = Some c \<Longrightarrow> c \<in> set (nodeColumns n)"
  by (induction n rule: unparen.induct) (auto simp: columnName_def)

lemma compileOperand_value:
  assumes "compileOperand env n f flds = Inr x" "fits env flds row (nodeColumns n)"
  shows "readOperand env x row = Inr (operandValue env flds row f n)"
proof (cases "columnName n")
  case (Some c)
  then have "cell row c = VNil \<or> isOk (coerceScalar env (columnField flds c) (cell row c))"
    using assms(2) columnName_unparen by (auto simp: fits_def list_all_iff)
  with Some assms(1) show ?thesis
    by (auto simp: compileOperand_def Let_def readOperand_def operandValue_def valueIn_def columnField_def isOk_iff
        split: if_splits)
next
  case None
  with assms(1) show ?thesis
    by (auto simp: compileOperand_def readOperand_def operandValue_def valueIn_def split: if_splits)
qed

text \<open>What a well-typed operand of kind \<open>k\<close> can evaluate to.\<close>

definition shaped :: "string \<Rightarrow> scalar \<Rightarrow> bool" where
  "shaped k s \<longleftrightarrow> sKind s = k
     \<and> (if k = ''number'' then \<exists>r. sNumber s = Some r \<and> sText s = ratString r else sNumber s = None)"

lemma coerceScalar_shaped: "coerceScalar env f v = Inr s \<Longrightarrow> shaped (scalarKind (Type f)) s"
  using coerceScalar_shape [of env f v s] by (auto simp: shaped_def scalarKind_def split: if_splits)

lemma operandValue_shaped:
  assumes "compileOperand env n f flds = Inr x" "operandValue env flds row f n = Some s"
  shows "shaped (scalarKind (Type f)) s"
proof (cases "columnName n")
  case (Some c)
  have "scalarKind (Type (columnField flds c)) = scalarKind (Type f)"
    using assms(1) Some by (auto simp: compileOperand_def Let_def columnField_def scalarKind_def textType_def split: if_splits)
  with Some assms(2) coerceScalar_shaped show ?thesis
    by (auto simp: operandValue_def valueIn_def split: if_splits sum.splits) (metis coerceScalar_shaped)
next
  case None
  with assms(2) coerceScalar_shaped show ?thesis by (auto simp: operandValue_def valueIn_def split: if_splits sum.splits)
qed

lemma shaped_compare:
  assumes "shaped k s" "shaped k t"
  shows "compareScalars s t = 0 \<longleftrightarrow> s = t" "compareScalars s t < 0 \<longleftrightarrow> scalarLess s t" "0 < compareScalars s t \<longleftrightarrow> scalarLess t s"
proof -
  have eq: "s = t \<longleftrightarrow> sText s = sText t" using assms
    by (auto simp: shaped_def ratString_inj intro: scalar.equality split: if_splits)
  show "compareScalars s t = 0 \<longleftrightarrow> s = t" "compareScalars s t < 0 \<longleftrightarrow> scalarLess s t"
    "0 < compareScalars s t \<longleftrightarrow> scalarLess t s"
    using assms unfolding eq
    by (auto simp: shaped_def compareScalars_def cmpOf_def scalarLess_def ratString_inj split: if_splits)
qed

lemma verdict_relates:
  assumes "shaped k s" "shaped k t" "sign \<in> set comparisons"
  shows "verdict sign (compareScalars s t) = Inr (truthOf (relates sign s t))"
  using assms(3) shaped_compare [OF assms(1,2)]
  by (auto simp: comparisons_def verdict_def relates_def not_less)

lemma leaf_reads:
  assumes "compileLeaf env flds sign a b = Inr c" "fits env flds row (nodeColumns a)" "fits env flds row (nodeColumns b)"
  obtains f x y where "leafField env flds a b = Inr f" "c = Condition sign None None x y"
    "readOperand env x row = Inr (operandValue env flds row f a)" "readOperand env y row = Inr (operandValue env flds row f b)"
    "\<And>s. operandValue env flds row f a = Some s \<Longrightarrow> shaped (scalarKind (Type f)) s"
    "\<And>s. operandValue env flds row f b = Some s \<Longrightarrow> shaped (scalarKind (Type f)) s"
proof -
  obtain f x y where c: "leafField env flds a b = Inr f" "compileOperand env a f flds = Inr x"
    "compileOperand env b f flds = Inr y" "c = Condition sign None None x y"
    using assms(1) by (auto simp: compileLeaf_def)
  show thesis
    by (rule that [OF c(1,4)]) (use c assms compileOperand_value operandValue_shaped in blast)+
qed

lemma leaf_compare:
  assumes "compileLeaf env flds sign a b = Inr c" "fits env flds row (nodeColumns a)" "fits env flds row (nodeColumns b)"
    and sign: "sign \<in> set comparisons"
  shows "\<exists>x y. c = Condition sign None None x y
    \<and> evaluateLeaf env row sign x y = Inr (comparison env flds row (judge3 sign) a b)"
proof -
  from leaf_reads [OF assms(1-3)] obtain f x y where c: "leafField env flds a b = Inr f" "c = Condition sign None None x y"
    and r: "readOperand env x row = Inr (operandValue env flds row f a)" "readOperand env y row = Inr (operandValue env flds row f b)"
    and k: "\<And>s. operandValue env flds row f a = Some s \<Longrightarrow> shaped (scalarKind (Type f)) s"
      "\<And>s. operandValue env flds row f b = Some s \<Longrightarrow> shaped (scalarKind (Type f)) s" by blast
  have "sign \<noteq> ''is_null''" "sign \<noteq> ''is_not_null''" using sign by (auto simp: comparisons_def)
  moreover have "(if sKind s \<noteq> sKind t then Inl ScalarKinds else verdict sign (compareScalars s t))
      = Inr (truthOf (relates sign s t))" if "operandValue env flds row f a = Some s" "operandValue env flds row f b = Some t" for s t
    using k(1) [OF that(1)] k(2) [OF that(2)] verdict_relates [OF _ _ sign] by (simp add: shaped_def)
  ultimately have "evaluateLeaf env row sign x y = Inr (comparison env flds row (judge3 sign) a b)"
    by (simp add: evaluateLeaf_def comparison_def judge3_def r c(1) split: option.split)
  with c(2) show ?thesis by blast
qed

lemma leaf_null:
  assumes "compileLeaf env flds sign a b = Inr c" "fits env flds row (nodeColumns a)" "fits env flds row (nodeColumns b)"
    and sign: "sign = (if negated then ''is_not_null'' else ''is_null'')"
  shows "\<exists>x y. c = Condition sign None None x y
    \<and> evaluateLeaf env row sign x y = Inr (comparison env flds row (\<lambda>u _. truthOf ((u = None) \<noteq> negated)) a b)"
proof -
  from leaf_reads [OF assms(1-3)] obtain f x y where c: "leafField env flds a b = Inr f" "c = Condition sign None None x y"
    "readOperand env x row = Inr (operandValue env flds row f a)" by blast
  then have "evaluateLeaf env row sign x y = Inr (comparison env flds row (\<lambda>u _. truthOf ((u = None) \<noteq> negated)) a b)"
    by (cases negated) (simp_all add: evaluateLeaf_def comparison_def sign)
  with c(2) show ?thesis by blast
qed

section \<open>Clauses\<close>

lemma min_truth: "min a b = (if a = No \<or> b = No then No else if a = Unknown \<or> b = Unknown then Unknown else a)"
  by (cases a; cases b) (simp_all add: min_def less_eq_truth_def)

lemma max_truth: "max a b = (if a = Yes \<or> b = Yes then Yes else if a = Unknown \<or> b = Unknown then Unknown else a)"
  by (cases a; cases b) (simp_all add: max_def less_eq_truth_def)

lemma fits_append [simp]: "fits env flds row (xs @ ys) \<longleftrightarrow> fits env flds row xs \<and> fits env flds row ys"
  by (simp add: fits_def)

definition quiet :: "ctx \<Rightarrow> bool" where
  "quiet cx \<longleftrightarrow> (\<forall>p. cx p = None)"

lemma quiet_under [simp]: "quiet cx \<Longrightarrow> quiet (under cx i)"
  by (simp add: quiet_def under_def)

lemma quiet_poll [simp]: "quiet cx \<Longrightarrow> poll cx wrap k = k"
  by (simp add: quiet_def poll_def)

lemma compile_evaluate:
  assumes "constraintPredicate n" "compileCondition env cx flds n = Inr c" "quiet cx'" "fits env flds row (nodeColumns n)"
  shows "evaluate env cx' row (Some c) = Inr (sqlTruth env flds row n)"
  using assms
proof (induction n arbitrary: cx cx' c)
  case (Binary sign a b)
  show ?case
  proof (cases "sign = ''and'' \<or> sign = ''or''")
    case True
    with Binary.prems obtain l r where lr: "compileCondition env (under cx 0) flds a = Inr l"
      "compileCondition env (under cx 1) flds b = Inr r" "c = Condition sign (Some l) (Some r) noOperand noOperand" by auto
    have "evaluate env (under cx' 0) row (Some l) = Inr (sqlTruth env flds row a)"
      "evaluate env (under cx' 1) row (Some r) = Inr (sqlTruth env flds row b)"
      using Binary.IH(1) [OF _ lr(1)] Binary.IH(2) [OF _ lr(2)] Binary.prems True by auto
    with True Binary.prems(3) show ?thesis unfolding lr(3) by (auto simp: min_truth max_truth)
  next
    case False
    then have cmp: "sign \<in> set comparisons" using Binary.prems(1) by (auto split: if_splits)
    then have "sign \<noteq> ''not''" by (auto simp: comparisons_def)
    moreover have "compileLeaf env flds sign a b = Inr c" using Binary.prems(2) False by auto
    from leaf_compare [OF this _ _ cmp, of row] obtain x y where
      "c = Condition sign None None x y" "evaluateLeaf env row sign x y = Inr (comparison env flds row (judge3 sign) a b)"
      using Binary.prems(4) by auto
    ultimately show ?thesis using False Binary.prems(3) by simp
  qed
next
  case (Is negated a b)
  let ?sign = "if negated then ''is_not_null'' else ''is_null''"
  have "compileLeaf env flds ?sign a b = Inr c" using Is.prems(2) by simp
  from leaf_null [OF this _ _ refl, of row] Is.prems(4) obtain x y where "c = Condition ?sign None None x y"
    "evaluateLeaf env row ?sign x y = Inr (comparison env flds row (\<lambda>u _. truthOf ((u = None) \<noteq> negated)) a b)" by auto
  then show ?case using Is.prems(3) by (cases negated) simp_all
next
  case (Unary sign n)
  then obtain l where l: "compileCondition env (under cx 0) flds n = Inr l" "sign = ''not''"
    "c = Condition ''not'' (Some l) None noOperand noOperand" by auto
  have "evaluate env (under cx' 0) row (Some l) = Inr (sqlTruth env flds row n)"
    using Unary.IH [OF _ l(1)] Unary.prems by auto
  with Unary.prems(3) show ?case unfolding l(3) by (cases "sqlTruth env flds row n") auto
qed auto

text \<open>
  C31. Compiling the \<^verbatim>\<open>where\<close> clause of a unique constraint and evaluating it on a row gives the
  three-valued SQL meaning of the clause and never fails, for every clause of the permitted
  form that compiles and every row whose cells fit their fields: conjunction, disjunction
  and negation follow Kleene's tables, a null makes a comparison unknown, and literals are
  read in the type of the column they are compared with.
\<close>

theorem where_compiles_to_sql:
  assumes "constraintPredicate n" "compileCondition env cx flds n = Inr c" "quiet cx'" "fits env flds row (nodeColumns n)"
  shows "evaluate env cx' row (Some c) = Inr (sqlTruth env flds row n)"
  using compile_evaluate [OF assms] .

definition sampleClause :: node where
  "sampleClause = Unary ''not'' (Paren (Binary ''='' (Column ''f'') (Literal LiteralString ''x'')))"

definition sampleColumns :: "string \<Rightarrow> field option" where
  "sampleColumns name = (if name = ''f'' then Some (sampleField ''string'') else None)"

theorem where_compiles_to_sql_witness:
  "\<exists>c. compileCondition sampleEnv (\<lambda>_. None) sampleColumns sampleClause = Inr c
     \<and> evaluate sampleEnv (\<lambda>_. None) [(''f'', VString ''y'')] (Some c)
       = Inr (sqlTruth sampleEnv sampleColumns [(''f'', VString ''y'')] sampleClause)"
proof -
  have "\<exists>c. compileCondition sampleEnv (\<lambda>_. None) sampleColumns sampleClause = Inr c"
    by (simp add: sampleClause_def compileLeaf_def leafField_def columnName_def sampleColumns_def zeroOf_def
        compileOperand_def sampleField_def literalValue_def coerceScalar_def storedBool_def Coerce_def EnumAllows_def
        poll_def under_def)
  then obtain c where c: "compileCondition sampleEnv (\<lambda>_. None) sampleColumns sampleClause = Inr c" by blast
  have "constraintPredicate sampleClause" by (simp add: sampleClause_def comparisons_def)
  moreover have "fits sampleEnv sampleColumns [(''f'', VString ''y'')] (nodeColumns sampleClause)"
    by (simp add: fits_def sampleClause_def cell_def columnField_def sampleColumns_def zeroOf_def sampleField_def
        coerceScalar_def storedBool_def Coerce_def EnumAllows_def)
  ultimately show ?thesis using where_compiles_to_sql [OF _ c, of "\<lambda>_. None"] c by (auto simp: quiet_def)
qed

end
