(* ===== verification/Constraint_Check.thy ===== *)
theory Constraint_Check
  imports Constraint_Where
begin

text \<open>
  Checking a namespace against its constraints (\<^verbatim>\<open>internal/constraints/check.go\<close>,
  \<^verbatim>\<open>catalog.go\<close>): compiling and checking foreign keys, scanning for duplicate keys, the check
  of a whole catalog, and the selection of the constraints a change can touch.
  \<open>Constraint_Catalog\<close> proves what a passed check means. Tables and rows are association
  lists with distinct keys; the source sorts the keys of its maps before it walks them.
\<close>

section \<open>Foreign keys\<close>

record row =
  Values :: row_values
  Owner :: "string option"

record reference_target =
  TargetName :: string
  TargetOwn :: bool
  TargetAccepts :: bool

record foreign_plan =
  fpName :: string
  fpField :: string
  fpTable :: string
  fpOwn :: bool
  fpRequired :: bool

definition fieldRequired :: "field list \<Rightarrow> string \<Rightarrow> bool" where
  "fieldRequired flds name = (case find (\<lambda>f. Name f = name) flds of None \<Rightarrow> False | Some f \<Rightarrow> Required f)"

definition CompileForeign ::
    "(string \<Rightarrow> string) \<Rightarrow> (string \<Rightarrow> string) \<Rightarrow> ctx \<Rightarrow> field list \<Rightarrow> constraint \<Rightarrow> bool \<Rightarrow> reference_target
       \<Rightarrow> check_error + foreign_plan" where
  "CompileForeign lo tr cx flds c own target =
     (if Kind c \<noteq> ConstraintForeignKey then Inl (WrongKind ''foreign_key'')
      else
        (case ValidateConstraintDeclarations lo tr cx flds [c] of
           Inl e \<Rightarrow> Inl (BadDeclaration e)
         | Inr _ \<Rightarrow>
             let table = (case References c of None \<Rightarrow> '''' | Some r \<Rightarrow> RefTable r) in
             if TargetName target \<noteq> table \<or> \<not> TargetAccepts target then Inl (NotOptedIn (CName c))
             else if own \<noteq> TargetOwn target then Inl (PolicyMismatch (CName c))
             else Inr \<lparr>fpName = CName c, fpField = CField c, fpTable = table, fpOwn = own,
                       fpRequired = fieldRequired flds (CField c)\<rparr>))"

text \<open>A lookup answers the owner column of the parent row, or that there is none.\<close>

type_synonym parent_lookup = "ctx \<Rightarrow> string \<Rightarrow> int \<Rightarrow> check_error + string option option"

definition Check :: "value_env \<Rightarrow> ctx \<Rightarrow> foreign_plan \<Rightarrow> row \<Rightarrow> parent_lookup \<Rightarrow> check_error + unit" where
  "Check env cx p r find_parent =
     poll cx CheckCtx
      (case ReferenceID env (cell (Values r) (fpField p)) of
         Inl _ \<Rightarrow> Inl (ForeignViolation (fpName p))
       | Inr None \<Rightarrow> if fpRequired p then Inl (ForeignViolation (fpName p)) else Inr ()
       | Inr (Some i) \<Rightarrow>
           bindR (find_parent (under cx 0) (fpTable p) i) (\<lambda>found.
             (case found of
                None \<Rightarrow> Inl (ForeignViolation (fpName p))
              | Some owner \<Rightarrow>
                  if fpOwn p \<and> \<not> SameOwner (Owner r) owner then Inl (ForeignViolation (fpName p)) else Inr ())))"

section \<open>Unique constraints\<close>

definition keyOwner :: "bool \<Rightarrow> row \<Rightarrow> string option" where
  "keyOwner own r = (if own then Owner r else None)"

fun uniqueLoop ::
    "value_env \<Rightarrow> ctx \<Rightarrow> string \<Rightarrow> unique_plan \<Rightarrow> bool \<Rightarrow> nat \<Rightarrow> string list \<Rightarrow> row list \<Rightarrow> check_error + unit" where
  "uniqueLoop env cx name plan own i seen [] = Inr ()"
| "uniqueLoop env cx name plan own i seen (r # rs) =
     bindR (Key env (under cx i) plan (Values r) (keyOwner own r)) (\<lambda>key.
       (case key of
          None \<Rightarrow> uniqueLoop env cx name plan own (Suc i) seen rs
        | Some k \<Rightarrow>
            if k \<in> set seen then Inl (UniqueViolation name)
            else uniqueLoop env cx name plan own (Suc i) (k # seen) rs))"

definition CheckUnique ::
    "value_env \<Rightarrow> ctx \<Rightarrow> string \<Rightarrow> unique_plan \<Rightarrow> row list \<Rightarrow> bool \<Rightarrow> check_error + unit" where
  "CheckUnique env cx name plan rows own = poll cx CheckCtx (uniqueLoop env cx name plan own 0 [] rows)"

section \<open>The catalog\<close>

record table =
  Schema :: "table_schema option"
  Rows :: "(int \<times> row) list"

type_synonym catalog = "(string \<times> table) list"

record table_plan =
  tpOwn :: bool
  tpUnique :: "(string \<times> unique_plan) list"
  tpForeign :: "foreign_plan list"

definition isOwn :: "table_schema \<Rightarrow> bool" where
  "isOwn sc \<longleftrightarrow> RowAccess sc = RowAccessOwn"

definition parentTarget :: "catalog \<Rightarrow> constraint \<Rightarrow> check_error + reference_target" where
  "parentTarget tables c =
     (let name = (case References c of None \<Rightarrow> '''' | Some r \<Rightarrow> RefTable r) in
      case map_of tables name of
        None \<Rightarrow> Inl (MissingParent (CName c))
      | Some t \<Rightarrow>
          (case Schema t of
             None \<Rightarrow> Inl (MissingParent (CName c))
           | Some sc \<Rightarrow> Inr \<lparr>TargetName = name, TargetOwn = isOwn sc, TargetAccepts = AcceptReferences sc\<rparr>))"

fun compileAll ::
    "value_env \<Rightarrow> (string \<Rightarrow> string) \<Rightarrow> (string \<Rightarrow> string) \<Rightarrow> ctx \<Rightarrow> catalog \<Rightarrow> table_schema \<Rightarrow> nat \<Rightarrow> table_plan
       \<Rightarrow> constraint list \<Rightarrow> check_error + table_plan" where
  "compileAll env lo tr cx tables sc i p [] = Inr p"
| "compileAll env lo tr cx tables sc i p (c # cs) =
     (if Kind c = ConstraintUnique then
        bindR (CompileUnique env lo tr (under cx i) (TFields sc) c) (\<lambda>plan.
          compileAll env lo tr cx tables sc (Suc i) (p\<lparr>tpUnique := tpUnique p @ [(CName c, plan)]\<rparr>) cs)
      else if Kind c = ConstraintForeignKey then
        bindR (parentTarget tables c) (\<lambda>target.
        bindR (CompileForeign lo tr (under cx i) (TFields sc) c (tpOwn p) target) (\<lambda>plan.
          compileAll env lo tr cx tables sc (Suc i) (p\<lparr>tpForeign := tpForeign p @ [plan]\<rparr>) cs))
      else compileAll env lo tr cx tables sc (Suc i) p cs)"

definition planTable ::
    "value_env \<Rightarrow> (string \<Rightarrow> string) \<Rightarrow> (string \<Rightarrow> string) \<Rightarrow> ctx \<Rightarrow> catalog \<Rightarrow> table \<Rightarrow> check_error + table_plan" where
  "planTable env lo tr cx tables t =
     (case Schema t of
        None \<Rightarrow> Inl MissingSchema
      | Some sc \<Rightarrow>
          (case ValidateConstraintDeclarations lo tr (under cx 0) (TFields sc) (TConstraints sc) of
             Inl e \<Rightarrow> Inl (BadDeclaration e)
           | Inr _ \<Rightarrow>
               compileAll env lo tr (under cx 1) tables sc 0
                 \<lparr>tpOwn = isOwn sc, tpUnique = [], tpForeign = []\<rparr> (TConstraints sc)))"

fun planAll ::
    "value_env \<Rightarrow> (string \<Rightarrow> string) \<Rightarrow> (string \<Rightarrow> string) \<Rightarrow> ctx \<Rightarrow> catalog \<Rightarrow> nat \<Rightarrow> catalog
       \<Rightarrow> check_error + (table \<times> table_plan) list" where
  "planAll env lo tr cx tables i [] = Inr []"
| "planAll env lo tr cx tables i ((name, t) # rest) =
     bindR (planTable env lo tr (under cx i) tables t) (\<lambda>p.
     bindR (planAll env lo tr cx tables (Suc i) rest) (\<lambda>ps. Inr ((t, p) # ps)))"

definition lookupParent :: "catalog \<Rightarrow> parent_lookup" where
  "lookupParent tables cx name i =
     poll cx CheckCtx
      (Inr (case map_of tables name of None \<Rightarrow> None | Some t \<Rightarrow> map_option Owner (map_of (Rows t) i)))"

fun uniqueChecks :: "value_env \<Rightarrow> ctx \<Rightarrow> row list \<Rightarrow> bool \<Rightarrow> nat \<Rightarrow> (string \<times> unique_plan) list \<Rightarrow> check_error + unit" where
  "uniqueChecks env cx rows own i [] = Inr ()"
| "uniqueChecks env cx rows own i ((name, plan) # ps) =
     bindR (CheckUnique env (under cx i) name plan rows own) (\<lambda>_. uniqueChecks env cx rows own (Suc i) ps)"

fun rowChecks :: "value_env \<Rightarrow> ctx \<Rightarrow> catalog \<Rightarrow> foreign_plan \<Rightarrow> nat \<Rightarrow> row list \<Rightarrow> check_error + unit" where
  "rowChecks env cx tables p i [] = Inr ()"
| "rowChecks env cx tables p i (r # rs) =
     bindR (Check env (under cx i) p r (lookupParent tables)) (\<lambda>_. rowChecks env cx tables p (Suc i) rs)"

fun foreignChecks :: "value_env \<Rightarrow> ctx \<Rightarrow> catalog \<Rightarrow> row list \<Rightarrow> nat \<Rightarrow> foreign_plan list \<Rightarrow> check_error + unit" where
  "foreignChecks env cx tables rows i [] = Inr ()"
| "foreignChecks env cx tables rows i (p # ps) =
     bindR (rowChecks env (under cx i) tables p 0 rows) (\<lambda>_. foreignChecks env cx tables rows (Suc i) ps)"

definition sortedRows :: "table \<Rightarrow> row list" where
  "sortedRows t = map snd (sort_key fst (Rows t))"

fun checkAll :: "value_env \<Rightarrow> ctx \<Rightarrow> catalog \<Rightarrow> nat \<Rightarrow> (table \<times> table_plan) list \<Rightarrow> check_error + unit" where
  "checkAll env cx tables i [] = Inr ()"
| "checkAll env cx tables i ((t, p) # rest) =
     (if tpUnique p = [] \<and> tpForeign p = [] then checkAll env cx tables (Suc i) rest
      else
        bindR (uniqueChecks env (under (under cx i) 0) (sortedRows t) (tpOwn p) 0 (tpUnique p)) (\<lambda>_.
        bindR (foreignChecks env (under (under cx i) 1) tables (sortedRows t) 0 (tpForeign p)) (\<lambda>_.
          checkAll env cx tables (Suc i) rest)))"

definition CheckCatalog ::
    "value_env \<Rightarrow> (string \<Rightarrow> string) \<Rightarrow> (string \<Rightarrow> string) \<Rightarrow> ctx \<Rightarrow> catalog \<Rightarrow> check_error + unit" where
  "CheckCatalog env lo tr cx tables =
     poll cx CheckCtx
      (bindR (planAll env lo tr (under cx 0) tables 0 (sort_key fst tables)) (\<lambda>ps.
       bindR (checkAll env (under cx 1) tables 0 ps) (\<lambda>_. poll (under cx 2) CheckCtx (Inr ()))))"

definition selected :: "string \<Rightarrow> bool \<Rightarrow> string \<Rightarrow> constraint \<Rightarrow> bool" where
  "selected changed incoming name c \<longleftrightarrow> name = changed \<or> incoming \<and> refersTo changed c"

definition SelectChecks :: "catalog \<Rightarrow> string \<Rightarrow> bool \<Rightarrow> catalog" where
  "SelectChecks tables changed incoming =
     map (\<lambda>(name, t).
       (name, t\<lparr>Schema := map_option (\<lambda>sc. sc\<lparr>TConstraints := filter (selected changed incoming name) (TConstraints sc)\<rparr>)
                                     (Schema t)\<rparr>)) tables"

end
