(* ===== verification/Constraint_Catalog.thy ===== *)
theory Constraint_Catalog
  imports Constraint_Check
begin

text \<open>
  What a passed constraint check means. The theory states when a catalog satisfies its
  declared constraints, row by row and without keys, scans or contexts, and proves that a
  catalog \<^verbatim>\<open>CheckCatalog\<close> accepts satisfies them, and that after a change to one table it is
  enough to check the constraints \<^verbatim>\<open>SelectChecks\<close> keeps.
\<close>

section \<open>Satisfied constraints\<close>

text \<open>A row takes part in a unique constraint when the clause holds on it and no key cell is null.\<close>

definition participates :: "value_env \<Rightarrow> unique_plan \<Rightarrow> row \<Rightarrow> bool" where
  "participates env plan r \<longleftrightarrow> evaluate env (\<lambda>_. None) (Values r) (planWhere plan) = Inr Yes
     \<and> list_all (\<lambda>f. cell (Values r) (Name f) \<noteq> VNil) (planKeys plan)"

definition conflict :: "value_env \<Rightarrow> unique_plan \<Rightarrow> bool \<Rightarrow> row \<Rightarrow> row \<Rightarrow> bool" where
  "conflict env plan own r s \<longleftrightarrow> participates env plan r \<and> participates env plan s \<and> (own \<longrightarrow> Owner r = Owner s)
     \<and> list_all (\<lambda>f. coerceScalar env f (cell (Values r) (Name f)) = coerceScalar env f (cell (Values s) (Name f)))
         (planKeys plan)"

definition unique_ok :: "value_env \<Rightarrow> unique_plan \<Rightarrow> bool \<Rightarrow> (int \<times> row) list \<Rightarrow> bool" where
  "unique_ok env plan own rows \<longleftrightarrow>
     (\<forall>(i, r) \<in> set rows. \<forall>(j, s) \<in> set rows. i \<noteq> j \<longrightarrow> \<not> conflict env plan own r s)"

definition parentOwner :: "catalog \<Rightarrow> string \<Rightarrow> int \<Rightarrow> string option option" where
  "parentOwner tables name i =
     (case map_of tables name of None \<Rightarrow> None | Some t \<Rightarrow> map_option Owner (map_of (Rows t) i))"

definition foreign_ok :: "value_env \<Rightarrow> catalog \<Rightarrow> foreign_plan \<Rightarrow> row \<Rightarrow> bool" where
  "foreign_ok env tables p r \<longleftrightarrow>
     (ReferenceID env (cell (Values r) (fpField p)) = Inr None \<and> \<not> fpRequired p)
     \<or> (\<exists>i owner. ReferenceID env (cell (Values r) (fpField p)) = Inr (Some i)
          \<and> parentOwner tables (fpTable p) i = Some owner \<and> (fpOwn p \<longrightarrow> owner = Owner r))"

definition constraint_ok ::
    "value_env \<Rightarrow> (string \<Rightarrow> string) \<Rightarrow> (string \<Rightarrow> string) \<Rightarrow> catalog \<Rightarrow> table_schema \<Rightarrow> (int \<times> row) list \<Rightarrow> constraint \<Rightarrow> bool" where
  "constraint_ok env lo tr tables sc rows c \<longleftrightarrow>
     (Kind c = ConstraintUnique \<and>
        (\<exists>cx plan. CompileUnique env lo tr cx (TFields sc) c = Inr plan \<and> unique_ok env plan (isOwn sc) rows))
     \<or> (Kind c = ConstraintForeignKey \<and>
        (\<exists>cx target p. parentTarget tables c = Inr target
           \<and> CompileForeign lo tr cx (TFields sc) c (isOwn sc) target = Inr p
           \<and> (\<forall>(i, r) \<in> set rows. foreign_ok env tables p r)))"

definition catalog_ok :: "value_env \<Rightarrow> (string \<Rightarrow> string) \<Rightarrow> (string \<Rightarrow> string) \<Rightarrow> catalog \<Rightarrow> bool" where
  "catalog_ok env lo tr tables \<longleftrightarrow>
     (\<forall>(name, t) \<in> set tables. \<exists>sc. Schema t = Some sc
        \<and> (\<forall>c \<in> set (TConstraints sc). constraint_ok env lo tr tables sc (Rows t) c))"

section \<open>Unique scans\<close>

lemma under_quiet [simp]: "under (\<lambda>_. None) i = (\<lambda>_. None)"
  by (simp add: under_def)

lemma evaluate_quiet: "evaluate env cx row c = Inr v \<Longrightarrow> evaluate env (\<lambda>_. None) row c = Inr v"
proof (induction env cx row c arbitrary: v rule: evaluate.induct)
  case (2 env cx row sign l r x y)
  show ?case
  proof (cases "sign = ''and'' \<or> sign = ''or'' \<or> sign = ''not''")
    case True
    with 2 obtain a where a: "evaluate env (\<lambda>_. None) row l = Inr a"
      and rest: "(if sign = ''not'' then Inr (case a of Unknown \<Rightarrow> Unknown | Yes \<Rightarrow> No | No \<Rightarrow> Yes)
          else bindR (evaluate env (under cx 1) row r) (\<lambda>right.
               if sign = ''and'' \<and> (a = No \<or> right = No) then Inr No
               else if sign = ''or'' \<and> (a = Yes \<or> right = Yes) then Inr Yes
               else if a = Unknown \<or> right = Unknown then Inr Unknown
               else Inr a)) = Inr v" by auto
    show ?thesis
    proof (cases "sign = ''not''")
      case False
      with rest obtain b where "evaluate env (under cx 1) row r = Inr b" by auto
      moreover from 2(2) [OF True False this] have "evaluate env (\<lambda>_. None) row r = Inr b" .
      ultimately show ?thesis using True a rest False by (simp add: poll_def)
    qed (use True a rest in \<open>simp add: poll_def\<close>)
  qed (use 2 in \<open>simp add: poll_def split: option.splits\<close>)
qed (simp add: poll_def split: option.splits)

lemma keyLoop_null:
  "keyLoop env row key null fs = Inr (k, n) \<Longrightarrow> n \<longleftrightarrow> null \<or> list_ex (\<lambda>f. cell row (Name f) = VNil) fs"
  by (induction env row key null fs rule: keyLoop.induct) (auto split: if_splits)

lemma Key_participates:
  assumes "Key env cx plan (Values r) owner = Inr k" "participates env plan r"
  obtains key where "k = Some key" "UniqueKey env (planKeys plan) (Values r) owner = Inr (Some key)"
proof -
  obtain v u where v: "evaluate env cx (Values r) (planWhere plan) = Inr v"
    "UniqueKey env (planKeys plan) (Values r) owner = Inr u" "k = (if v \<noteq> Yes then None else u)"
    using assms(1) by (auto simp: Key_def)
  have "v = Yes" using evaluate_quiet [OF v(1)] assms(2) by (simp add: participates_def)
  moreover have "u \<noteq> None"
    using v(2) assms(2) keyLoop_null
    by (fastforce simp: UniqueKey_def Let_def participates_def list_ex_iff list_all_iff split: if_splits)
  ultimately show thesis using that v by auto
qed

lemma conflict_sym: "conflict env plan own r s \<Longrightarrow> conflict env plan own s r"
  by (auto simp: conflict_def list_all_iff)

lemma conflict_keys:
  assumes "Key env cx plan (Values r) (keyOwner own r) = Inr k" "Key env cx' plan (Values s) (keyOwner own s) = Inr k'"
    and "conflict env plan own r s"
  shows "k \<noteq> None \<and> k = k'"
proof -
  have p: "participates env plan r" "participates env plan s" using assms(3) by (simp_all add: conflict_def)
  obtain x y where x: "k = Some x" "UniqueKey env (planKeys plan) (Values r) (keyOwner own r) = Inr (Some x)"
    and y: "k' = Some y" "UniqueKey env (planKeys plan) (Values s) (keyOwner own s) = Inr (Some y)"
    using Key_participates [OF assms(1) p(1)] Key_participates [OF assms(2) p(2)] by metis
  have "x = y" using UniqueKey_eq [OF x(2) y(2)] assms(3) by (simp add: conflict_def keyOwner_def)
  with x y show ?thesis by simp
qed

lemma uniqueLoop_keys:
  assumes "uniqueLoop env cx name plan own i seen rows = Inr ()" "r \<in> set rows"
  shows "\<exists>cx' k. Key env cx' plan (Values r) (keyOwner own r) = Inr k \<and> (\<forall>key. k = Some key \<longrightarrow> key \<notin> set seen)"
  using assms by (induction env cx name plan own i seen rows rule: uniqueLoop.induct)
    (fastforce split: option.splits if_splits)+

lemma uniqueLoop_sound:
  assumes "uniqueLoop env cx name plan own i seen rows = Inr ()"
  shows "sorted_wrt (\<lambda>r s. \<not> conflict env plan own r s) rows"
  using assms
proof (induction env cx name plan own i seen rows rule: uniqueLoop.induct)
  case (2 env cx name plan own i seen r rs)
  then obtain k where k: "Key env (under cx i) plan (Values r) (keyOwner own r) = Inr k" by auto
  have rest: "\<exists>seen'. uniqueLoop env cx name plan own (Suc i) seen' rs = Inr () \<and> (\<forall>key. k = Some key \<longrightarrow> key \<in> set seen')"
    using 2 k by (auto split: option.splits if_splits)
  then have "sorted_wrt (\<lambda>r s. \<not> conflict env plan own r s) rs" using 2 k by (auto split: option.splits if_splits)
  moreover have "\<not> conflict env plan own r s" if "s \<in> set rs" for s
    using rest uniqueLoop_keys [OF _ that] conflict_keys [OF k] by (metis not_Some_eq)
  ultimately show ?case by simp
qed simp

lemma sorted_wrt_snd:
  assumes "sorted_wrt P (map snd xs)" "\<And>x y. P x y \<Longrightarrow> P y x" "(i, r) \<in> set xs" "(j, s) \<in> set xs" "i \<noteq> j"
  shows "P r s"
proof -
  obtain m n where "m < length xs" "xs ! m = (i, r)" "n < length xs" "xs ! n = (j, s)"
    using assms(3,4) by (auto simp: in_set_conv_nth)
  moreover have "m \<noteq> n" using calculation assms(5) by auto
  ultimately show ?thesis using assms(2) sorted_wrt_nth_less [OF assms(1), of m n] sorted_wrt_nth_less [OF assms(1), of n m]
    by (cases m n rule: linorder_cases) simp_all
qed

lemma CheckUnique_sound:
  assumes "CheckUnique env cx name plan (sortedRows t) own = Inr ()"
  shows "unique_ok env plan own (Rows t)"
proof -
  have "sorted_wrt (\<lambda>r s. \<not> conflict env plan own r s) (map snd (sort_key fst (Rows t)))"
    using assms uniqueLoop_sound by (auto simp: CheckUnique_def sortedRows_def)
  from sorted_wrt_snd [OF this] have "\<not> conflict env plan own r s"
    if "(i, r) \<in> set (Rows t)" "(j, s) \<in> set (Rows t)" "i \<noteq> j" for i r j s
    using that conflict_sym by (metis set_sort)
  then show ?thesis unfolding unique_ok_def by blast
qed

lemma uniqueChecks_sound:
  "uniqueChecks env cx (sortedRows t) own i ps = Inr () \<Longrightarrow> (name, plan) \<in> set ps \<Longrightarrow> unique_ok env plan own (Rows t)"
  by (induction ps arbitrary: i) (auto dest: CheckUnique_sound)

section \<open>Foreign keys\<close>

lemma Check_sound: "Check env cx p r (lookupParent tables) = Inr () \<Longrightarrow> foreign_ok env tables p r"
  by (auto simp: Check_def lookupParent_def foreign_ok_def parentOwner_def SameOwner_def
      split: sum.splits option.splits if_splits)

lemma rowChecks_sound: "rowChecks env cx tables p i rs = Inr () \<Longrightarrow> r \<in> set rs \<Longrightarrow> foreign_ok env tables p r"
  by (induction rs arbitrary: i) (auto dest: Check_sound)

lemma foreignChecks_sound:
  "foreignChecks env cx tables (sortedRows t) i ps = Inr () \<Longrightarrow> p \<in> set ps \<Longrightarrow> (j, r) \<in> set (Rows t) \<Longrightarrow> foreign_ok env tables p r"
proof (induction ps arbitrary: i)
  case (Cons q ps)
  have "r \<in> set (sortedRows t)" using Cons.prems(3) by (force simp: sortedRows_def)
  with Cons show ?case by (auto dest: rowChecks_sound)
qed simp

section \<open>Plans\<close>

text \<open>What a compiled table holds for one declaration.\<close>

definition planned ::
    "value_env \<Rightarrow> (string \<Rightarrow> string) \<Rightarrow> (string \<Rightarrow> string) \<Rightarrow> catalog \<Rightarrow> table_schema \<Rightarrow> table_plan \<Rightarrow> constraint \<Rightarrow> bool" where
  "planned env lo tr tables sc p c \<longleftrightarrow>
     (Kind c = ConstraintUnique \<longrightarrow>
        (\<exists>cx plan. CompileUnique env lo tr cx (TFields sc) c = Inr plan \<and> (CName c, plan) \<in> set (tpUnique p)))
     \<and> (Kind c = ConstraintForeignKey \<longrightarrow>
        (\<exists>cx target q. parentTarget tables c = Inr target
           \<and> CompileForeign lo tr cx (TFields sc) c (tpOwn p) target = Inr q \<and> q \<in> set (tpForeign p)))"

lemma kinds_differ [simp]: "ConstraintUnique \<noteq> ConstraintForeignKey" "ConstraintForeignKey \<noteq> ConstraintUnique"
  by (simp_all add: ConstraintUnique_def ConstraintForeignKey_def)

lemma compileAll_planned:
  "compileAll env lo tr cx tables sc i p cs = Inr p' \<Longrightarrow>
     tpOwn p' = tpOwn p \<and> set (tpUnique p) \<subseteq> set (tpUnique p') \<and> set (tpForeign p) \<subseteq> set (tpForeign p')
     \<and> (\<forall>c \<in> set cs. planned env lo tr tables sc p' c)"
proof (induction cs arbitrary: i p)
  case (Cons c cs)
  consider (unique) plan where "Kind c = ConstraintUnique" "CompileUnique env lo tr (under cx i) (TFields sc) c = Inr plan"
      "compileAll env lo tr cx tables sc (Suc i) (p\<lparr>tpUnique := tpUnique p @ [(CName c, plan)]\<rparr>) cs = Inr p'"
    | (foreign) target plan where "Kind c = ConstraintForeignKey" "parentTarget tables c = Inr target"
      "CompileForeign lo tr (under cx i) (TFields sc) c (tpOwn p) target = Inr plan"
      "compileAll env lo tr cx tables sc (Suc i) (p\<lparr>tpForeign := tpForeign p @ [plan]\<rparr>) cs = Inr p'"
    | (other) "Kind c \<noteq> ConstraintUnique" "Kind c \<noteq> ConstraintForeignKey"
      "compileAll env lo tr cx tables sc (Suc i) p cs = Inr p'"
    using Cons.prems by (auto split: if_splits)
  then show ?case
  proof cases
    case unique
    from Cons.IH [OF unique(3)] show ?thesis using unique(1,2) unfolding planned_def by auto
  next
    case foreign
    from Cons.IH [OF foreign(4)] show ?thesis using foreign(1-3) unfolding planned_def by auto
  next
    case other
    from Cons.IH [OF other(3)] show ?thesis using other(1,2) unfolding planned_def by auto
  qed
qed simp

lemma declarationLoop_kinds:
  "declarationLoop lo tr cx flds cols i names cs = Inr () \<Longrightarrow> c \<in> set cs \<Longrightarrow>
     Kind c = ConstraintUnique \<or> Kind c = ConstraintForeignKey"
  by (induction lo tr cx flds cols i names cs rule: declarationLoop.induct) (auto split: sum.splits if_splits)

lemma planTable_planned:
  assumes "planTable env lo tr cx tables t = Inr p"
  obtains sc where "Schema t = Some sc" "tpOwn p = isOwn sc"
    "\<And>c. c \<in> set (TConstraints sc) \<Longrightarrow> planned env lo tr tables sc p c"
    "\<And>c. c \<in> set (TConstraints sc) \<Longrightarrow> Kind c = ConstraintUnique \<or> Kind c = ConstraintForeignKey"
proof -
  obtain sc where sc: "Schema t = Some sc"
    "ValidateConstraintDeclarations lo tr (under cx 0) (TFields sc) (TConstraints sc) = Inr ()"
    "compileAll env lo tr (under cx 1) tables sc 0 \<lparr>tpOwn = isOwn sc, tpUnique = [], tpForeign = []\<rparr> (TConstraints sc) = Inr p"
    using assms by (auto simp: planTable_def split: option.splits sum.splits)
  have "declarationLoop lo tr (under cx 0) (byName (TFields sc)) (scalarColumns (TFields sc)) 0 [] (TConstraints sc) = Inr ()"
    using sc(2) by (simp add: ValidateConstraintDeclarations_def split: if_splits)
  note kinds = declarationLoop_kinds [OF this]
  from compileAll_planned [OF sc(3)] show thesis by (intro that [OF sc(1)] kinds) simp_all
qed

lemma planAll_planned:
  "planAll env lo tr cx tables i ts = Inr ps \<Longrightarrow> (name, t) \<in> set ts \<Longrightarrow>
     \<exists>cx' p. planTable env lo tr cx' tables t = Inr p \<and> (t, p) \<in> set ps"
proof (induction ts arbitrary: i ps)
  case (Cons a ts)
  obtain n u where a: "a = (n, u)" by fastforce
  from Cons.prems(1) obtain q qs where "planTable env lo tr (under cx i) tables u = Inr q"
    "planAll env lo tr cx tables (Suc i) ts = Inr qs" "ps = (u, q) # qs" by (auto simp: a)
  with Cons.IH [of "Suc i" qs] Cons.prems(2) show ?case by (auto simp: a)
qed simp

lemma checkAll_sound:
  "checkAll env cx tables i ps = Inr () \<Longrightarrow> (t, p) \<in> set ps \<Longrightarrow>
     (\<forall>(name, plan) \<in> set (tpUnique p). unique_ok env plan (tpOwn p) (Rows t))
     \<and> (\<forall>q \<in> set (tpForeign p). \<forall>(j, r) \<in> set (Rows t). foreign_ok env tables q r)"
proof (induction ps arbitrary: i)
  case (Cons a ps)
  show ?case
  proof (cases "a = (t, p) \<and> \<not> (tpUnique p = [] \<and> tpForeign p = [])")
    case True
    then have "uniqueChecks env (under (under cx i) 0) (sortedRows t) (tpOwn p) 0 (tpUnique p) = Inr ()"
      "foreignChecks env (under (under cx i) 1) tables (sortedRows t) 0 (tpForeign p) = Inr ()"
      using Cons.prems(1) by auto
    then show ?thesis using uniqueChecks_sound foreignChecks_sound by blast
  next
    case False
    show ?thesis
    proof (cases "(t, p) \<in> set ps")
      case True
      from Cons.prems(1) have "\<exists>k. checkAll env cx tables k ps = Inr ()" by (cases a) (auto split: if_splits)
      with True Cons.IH show ?thesis by blast
    next
      case f: False
      with False Cons.prems(2) have "tpUnique p = [] \<and> tpForeign p = []" by auto
      then show ?thesis by simp
    qed
  qed
qed simp

lemma planned_ok:
  assumes "planned env lo tr tables sc p c" "tpOwn p = isOwn sc" "Kind c = ConstraintUnique \<or> Kind c = ConstraintForeignKey"
    and "\<forall>(name, plan) \<in> set (tpUnique p). unique_ok env plan (tpOwn p) (Rows t)"
    and "\<forall>q \<in> set (tpForeign p). \<forall>(j, r) \<in> set (Rows t). foreign_ok env tables q r"
  shows "constraint_ok env lo tr tables sc (Rows t) c"
  using assms unfolding planned_def constraint_ok_def by fastforce

lemma CheckCatalog_ok:
  assumes "CheckCatalog env lo tr cx tables = Inr ()"
  shows "catalog_ok env lo tr tables"
  unfolding catalog_ok_def
proof (rule ballI, clarify)
  fix name t
  assume t: "(name, t) \<in> set tables"
  obtain ps where ps: "planAll env lo tr (under cx 0) tables 0 (sort_key fst tables) = Inr ps"
    "checkAll env (under cx 1) tables 0 ps = Inr ()" using assms by (auto simp: CheckCatalog_def)
  obtain cx' p where p: "planTable env lo tr cx' tables t = Inr p" "(t, p) \<in> set ps"
    using planAll_planned [OF ps(1)] t by fastforce
  from planTable_planned [OF p(1)] obtain sc where sc: "Schema t = Some sc" "tpOwn p = isOwn sc"
    "\<And>c. c \<in> set (TConstraints sc) \<Longrightarrow> planned env lo tr tables sc p c"
    "\<And>c. c \<in> set (TConstraints sc) \<Longrightarrow> Kind c = ConstraintUnique \<or> Kind c = ConstraintForeignKey" by metis
  have "constraint_ok env lo tr tables sc (Rows t) c" if "c \<in> set (TConstraints sc)" for c
    using planned_ok [OF sc(3) sc(2) sc(4)] that checkAll_sound [OF ps(2) p(2)] by blast
  then show "\<exists>sc. Schema t = Some sc \<and> (\<forall>c \<in> set (TConstraints sc). constraint_ok env lo tr tables sc (Rows t) c)"
    using sc(1) by blast
qed

section \<open>Selected checks\<close>

lemma SelectChecks_map_of:
  "map_of (SelectChecks tables changed incoming) name =
     map_option (\<lambda>t. t\<lparr>Schema := map_option
         (\<lambda>sc. sc\<lparr>TConstraints := filter (selected changed incoming name) (TConstraints sc)\<rparr>) (Schema t)\<rparr>)
       (map_of tables name)"
  by (induction tables) (auto simp: SelectChecks_def)

lemma parentTarget_select [simp]: "parentTarget (SelectChecks tables changed incoming) c = parentTarget tables c"
  by (auto simp: parentTarget_def SelectChecks_map_of isOwn_def Let_def split: option.splits)

lemma parentOwner_select [simp]: "parentOwner (SelectChecks tables changed incoming) = parentOwner tables"
  by (intro ext) (auto simp: parentOwner_def SelectChecks_map_of split: option.splits)

lemma constraint_ok_select [simp]:
  "constraint_ok env lo tr (SelectChecks tables changed incoming) (sc\<lparr>TConstraints := cs\<rparr>) rows c
     = constraint_ok env lo tr tables sc rows c"
  by (simp add: constraint_ok_def isOwn_def foreign_ok_def)

lemma SelectChecks_ok:
  assumes "catalog_ok env lo tr (SelectChecks tables changed incoming)" "(name, t) \<in> set tables"
  obtains sc where "Schema t = Some sc"
    "\<And>c. c \<in> set (TConstraints sc) \<Longrightarrow> selected changed incoming name c \<Longrightarrow> constraint_ok env lo tr tables sc (Rows t) c"
proof -
  let ?t = "t\<lparr>Schema := map_option (\<lambda>sc. sc\<lparr>TConstraints := filter (selected changed incoming name) (TConstraints sc)\<rparr>)
    (Schema t)\<rparr>"
  have "(name, ?t) \<in> set (SelectChecks tables changed incoming)" using assms(2) by (force simp: SelectChecks_def)
  with assms(1) obtain sc' where sc': "Schema ?t = Some sc'"
    "\<And>c. c \<in> set (TConstraints sc') \<Longrightarrow> constraint_ok env lo tr (SelectChecks tables changed incoming) sc' (Rows ?t) c"
    unfolding catalog_ok_def by blast
  then obtain sc where "Schema t = Some sc" "sc' = sc\<lparr>TConstraints := filter (selected changed incoming name) (TConstraints sc)\<rparr>"
    by auto
  with sc'(2) show thesis by (intro that) auto
qed

text \<open>
  Nothing another table may point at is lost: the changed table still exists with the same
  reference policy, and every row another table could see as a parent is still there with
  its owner.
\<close>

definition keeps_parents :: "catalog \<Rightarrow> catalog \<Rightarrow> string \<Rightarrow> bool" where
  "keeps_parents old new changed \<longleftrightarrow>
     (\<forall>t sc. map_of old changed = Some t \<and> Schema t = Some sc \<longrightarrow>
        (\<exists>t' sc'. map_of new changed = Some t' \<and> Schema t' = Some sc'
           \<and> isOwn sc' = isOwn sc \<and> AcceptReferences sc' = AcceptReferences sc))
     \<and> (\<forall>i owner. parentOwner old changed i = Some owner \<longrightarrow> parentOwner new changed i = Some owner)"

definition same_elsewhere :: "catalog \<Rightarrow> catalog \<Rightarrow> string \<Rightarrow> bool" where
  "same_elsewhere old new changed \<longleftrightarrow> (\<forall>name. name \<noteq> changed \<longrightarrow> map_of new name = map_of old name)"

lemma foreign_transfer:
  assumes "\<And>i owner. parentOwner old (fpTable p) i = Some owner \<Longrightarrow> parentOwner new (fpTable p) i = Some owner"
    and "foreign_ok env old p r"
  shows "foreign_ok env new p r"
  using assms unfolding foreign_ok_def by blast

lemma parents_kept:
  assumes "same_elsewhere old new changed" "name \<noteq> changed \<or> keeps_parents old new changed"
    and name: "name = (case References c of None \<Rightarrow> '''' | Some r \<Rightarrow> RefTable r)" and "parentTarget old c = Inr target"
  shows "parentTarget new c = Inr target
    \<and> (\<forall>i owner. parentOwner old name i = Some owner \<longrightarrow> parentOwner new name i = Some owner)"
proof (cases "name = changed")
  case True
  then have k: "keeps_parents old new changed" using assms(2) by simp
  obtain t sc where t: "map_of old changed = Some t" "Schema t = Some sc"
    "target = \<lparr>TargetName = changed, TargetOwn = isOwn sc, TargetAccepts = AcceptReferences sc\<rparr>"
    using assms(4) unfolding parentTarget_def Let_def name [symmetric] True by (auto split: option.splits)
  with k obtain t' sc' where "map_of new changed = Some t'" "Schema t' = Some sc'"
    "isOwn sc' = isOwn sc" "AcceptReferences sc' = AcceptReferences sc" unfolding keeps_parents_def by blast
  then have "parentTarget new c = Inr target" unfolding parentTarget_def Let_def name [symmetric] True t(3) by simp
  with k show ?thesis unfolding True keeps_parents_def by blast
next
  case False
  then have "map_of new name = map_of old name" using assms(1) by (simp add: same_elsewhere_def)
  with assms(4) show ?thesis unfolding parentTarget_def parentOwner_def Let_def name [symmetric] by simp
qed

text \<open>A constraint carries over to a catalog that keeps the table it refers to, and its rows with their owners.\<close>

lemma constraint_transfer:
  assumes ok: "constraint_ok env lo tr old sc rows c"
    and move: "\<And>target r. Kind c = ConstraintForeignKey \<Longrightarrow> References c = Some r \<Longrightarrow> parentTarget old c = Inr target
      \<Longrightarrow> parentTarget new c = Inr target
        \<and> (\<forall>i owner. parentOwner old (RefTable r) i = Some owner \<longrightarrow> parentOwner new (RefTable r) i = Some owner)"
  shows "constraint_ok env lo tr new sc rows c"
proof (cases "Kind c = ConstraintUnique")
  case True
  with ok show ?thesis by (simp add: constraint_ok_def)
next
  case False
  with ok obtain cx target p where c: "Kind c = ConstraintForeignKey" "parentTarget old c = Inr target"
    "CompileForeign lo tr cx (TFields sc) c (isOwn sc) target = Inr p" "\<And>i r. (i, r) \<in> set rows \<Longrightarrow> foreign_ok env old p r"
    unfolding constraint_ok_def by blast
  then obtain r where r: "References c = Some r"
    by (auto simp: CompileForeign_def ValidateConstraintDeclarations_def validateForeignKeyDeclaration_def
        split: sum.splits if_splits option.splits)
  have table: "fpTable p = RefTable r" using c(3) r by (auto simp: CompileForeign_def Let_def split: sum.splits if_splits)
  from move [OF c(1) r c(2)] have "parentTarget new c = Inr target" "\<And>x. foreign_ok env old p x \<Longrightarrow> foreign_ok env new p x"
    using foreign_transfer [of old p new] unfolding table by auto
  then show ?thesis unfolding constraint_ok_def using c(1,3,4) by blast
qed

lemma unselected_ok:
  assumes ok: "constraint_ok env lo tr old sc rows c" and un: "\<not> selected changed incoming name c"
    and same: "same_elsewhere old new changed" and keep: "incoming \<or> keeps_parents old new changed"
  shows "constraint_ok env lo tr new sc rows c"
proof (rule constraint_transfer [OF ok])
  fix target r
  assume c: "Kind c = ConstraintForeignKey" "References c = Some r" "parentTarget old c = Inr target"
  then have "RefTable r \<noteq> changed \<or> keeps_parents old new changed"
    using un keep by (auto simp: selected_def refersTo_def)
  then show "parentTarget new c = Inr target
    \<and> (\<forall>i owner. parentOwner old (RefTable r) i = Some owner \<longrightarrow> parentOwner new (RefTable r) i = Some owner)"
    by (rule parents_kept [OF same _ _ c(3)]) (simp add: c(2))
qed

section \<open>What a passed check means\<close>

text \<open>
  C5. A catalog that passes \<^verbatim>\<open>CheckCatalog\<close>, under whatever cancellation, satisfies every declared
  constraint of every table: no two rows with different ids on which a unique constraint
  applies have equal key values (and equal owners, where rows are owned), and every reference
  names a row of the parent table, with the same owner where rows are owned.
\<close>

theorem CheckCatalog_sound:
  assumes "CheckCatalog env lo tr cx tables = Inr ()"
  shows "catalog_ok env lo tr tables"
  using CheckCatalog_ok [OF assms] .

definition teamTable :: table where
  "teamTable = \<lparr>Schema = Some \<lparr>TName = ''team'', TFields = [], RowAccess = '''', HasOwner = False, TConstraints = [],
       AcceptReferences = True, TRelation = None\<rparr>,
     Rows = [(7, \<lparr>Values = [], Owner = None\<rparr>)]\<rparr>"

definition memberRow :: "string \<Rightarrow> row" where
  "memberRow name = \<lparr>Values = [(''name'', VString name), (''team'', VInt64 7)], Owner = None\<rparr>"

definition memberTable :: "(int \<times> row) list \<Rightarrow> table" where
  "memberTable rows = \<lparr>Schema = Some \<lparr>TName = ''member'',
       TFields = [(sampleField ''string'')\<lparr>Name := ''name''\<rparr>, (sampleField ''number'')\<lparr>Name := ''team''\<rparr>],
       RowAccess = '''', HasOwner = False,
       TConstraints = [\<lparr>CName = ''one_name'', Kind = ''unique'', CFields = Some [''name''], Where = '''', CField = '''', References = None\<rparr>,
         \<lparr>CName = ''in_team'', Kind = ''foreign_key'', CFields = None, Where = '''', CField = ''team'',
          References = Some \<lparr>RefTable = ''team'', RefField = ''id''\<rparr>\<rparr>],
       AcceptReferences = False, TRelation = None\<rparr>, Rows = rows\<rparr>"

definition sampleCatalog :: "(int \<times> row) list \<Rightarrow> catalog" where
  "sampleCatalog rows = [(''team'', teamTable), (''member'', memberTable rows)]"

lemma sample_checks: "CheckCatalog sampleEnv id id (\<lambda>_. None) (sampleCatalog [(1, memberRow ''ann''), (2, memberRow ''bob'')]) = Inr ()"
  by code_simp

theorem CheckCatalog_sound_witness:
  "catalog_ok sampleEnv id id (sampleCatalog [(1, memberRow ''ann''), (2, memberRow ''bob'')])"
  by (rule CheckCatalog_sound [OF sample_checks])

lemma incremental:
  assumes old: "catalog_ok env lo tr old" and distinct: "distinct (map fst new)" and same: "same_elsewhere old new changed"
    and check: "CheckCatalog env lo tr cx (SelectChecks new changed incoming) = Inr ()"
    and keep: "incoming \<or> keeps_parents old new changed"
  shows "catalog_ok env lo tr new"
  unfolding catalog_ok_def
proof (rule ballI, clarify)
  fix name t
  assume t: "(name, t) \<in> set new"
  obtain sc where sc: "Schema t = Some sc"
    "\<And>c. c \<in> set (TConstraints sc) \<Longrightarrow> selected changed incoming name c \<Longrightarrow> constraint_ok env lo tr new sc (Rows t) c"
    using SelectChecks_ok [OF CheckCatalog_ok [OF check] t] by blast
  have "constraint_ok env lo tr new sc (Rows t) c" if c: "c \<in> set (TConstraints sc)" for c
  proof (cases "selected changed incoming name c")
    case False
    then have "name \<noteq> changed" by (simp add: selected_def)
    then have "(name, t) \<in> set old" using t distinct same by (metis map_of_SomeD map_of_is_SomeI same_elsewhere_def)
    then have "constraint_ok env lo tr old sc (Rows t) c" using old sc(1) c unfolding catalog_ok_def by fastforce
    from unselected_ok [OF this False same keep] show ?thesis .
  qed (use sc(2) c in blast)
  then show "\<exists>sc. Schema t = Some sc \<and> (\<forall>c \<in> set (TConstraints sc). constraint_ok env lo tr new sc (Rows t) c)"
    using sc(1) by blast
qed

text \<open>
  After a change to one table it is enough to check the selected constraints: when the
  catalog satisfied its constraints before, only the table \<open>changed\<close> differs, and the
  constraints \<^verbatim>\<open>SelectChecks\<close> keeps pass, then the whole new catalog satisfies its constraints,
  provided the references into the table were selected too (\<open>incoming\<close>) or every parent row
  was kept with its owner.
\<close>

theorem incremental_check:
  assumes "catalog_ok env lo tr old" "distinct (map fst new)" "same_elsewhere old new changed"
    and "CheckCatalog env lo tr cx (SelectChecks new changed incoming) = Inr ()"
    and "incoming \<or> keeps_parents old new changed"
  shows "catalog_ok env lo tr new"
  using incremental [OF assms] .

theorem incremental_check_witness:
  "catalog_ok sampleEnv id id (sampleCatalog [(1, memberRow ''ann''), (2, memberRow ''bob'')])
   \<and> catalog_ok sampleEnv id id (sampleCatalog [(1, memberRow ''eve''), (2, memberRow ''bob''), (3, memberRow ''ann'')])"
proof -
  let ?new = "sampleCatalog [(1, memberRow ''eve''), (2, memberRow ''bob''), (3, memberRow ''ann'')]"
  have "CheckCatalog sampleEnv id id (\<lambda>_. None) (SelectChecks ?new ''member'' False) = Inr ()" by code_simp
  moreover have "same_elsewhere (sampleCatalog a) (sampleCatalog b) ''member''" for a b
    by (simp add: same_elsewhere_def sampleCatalog_def)
  moreover have "keeps_parents (sampleCatalog [(1, memberRow ''ann''), (2, memberRow ''bob'')]) ?new ''member''"
    by (simp add: keeps_parents_def sampleCatalog_def memberTable_def memberRow_def parentOwner_def)
  ultimately show ?thesis
    using incremental_check [OF CheckCatalog_ok [OF sample_checks], of ?new "''member''" "\<lambda>_. None" False] CheckCatalog_ok [OF sample_checks]
    by (simp add: sampleCatalog_def)
qed

end
