(* ===== verification/Auth_Verbs.thy ===== *)
theory Auth_Verbs
  imports Go_Prelude
begin

unbundle bit_operations_syntax

text \<open>
  The verbs a grant can carry and the 8-bit set of them
  (\<^verbatim>\<open>internal/auth/verb.go\<close>). A \<open>VerbSet\<close> is the \<^verbatim>\<open>uint8\<close> of the source: the verb at index
  \<open>i\<close> of \<open>VerbOrder\<close> is bit \<open>i\<close>. The theory shows that the bit operations implement
  finite sets of verbs (\<open>verbs_of\<close> is the abstraction) and that parsing and listing are
  inverse to each other.
\<close>

section \<open>Verbs and verb sets\<close>

type_synonym verb = string
type_synonym verb_set = "8 word"

definition VerbCreate :: verb where "VerbCreate = ''create''"
definition VerbRead :: verb where "VerbRead = ''read''"
definition VerbUpdate :: verb where "VerbUpdate = ''update''"
definition VerbDelete :: verb where "VerbDelete = ''delete''"
definition VerbSchema :: verb where "VerbSchema = ''schema''"
definition VerbAdmin :: verb where "VerbAdmin = ''admin''"
definition VerbReveal :: verb where "VerbReveal = ''reveal''"

lemmas verb_names = VerbCreate_def VerbRead_def VerbUpdate_def VerbDelete_def
  VerbSchema_def VerbAdmin_def VerbReveal_def

definition VerbOrder :: "verb list" where
  "VerbOrder = [VerbCreate, VerbRead, VerbUpdate, VerbDelete, VerbSchema, VerbAdmin, VerbReveal]"

text \<open>The loop of \<^verbatim>\<open>Verb.bit\<close>: the first index at which the verb stands.\<close>

fun bit_from :: "nat \<Rightarrow> verb list \<Rightarrow> verb \<Rightarrow> verb_set option" where
  "bit_from i [] v = None"
| "bit_from i (known # rest) v =
     (if known = v then Some (push_bit i 1) else bit_from (Suc i) rest v)"

definition verb_bit :: "verb \<Rightarrow> verb_set option" where
  "verb_bit v = bit_from 0 VerbOrder v"

datatype verb_error =
    UnknownVerb string
  | VerbsRequired
  | VerbListedTwice string

definition ParseVerb :: "string \<Rightarrow> verb_error + verb" where
  "ParseVerb raw = (case verb_bit raw of None \<Rightarrow> Inl (UnknownVerb raw) | Some _ \<Rightarrow> Inr raw)"

fun verbs_union :: "verb_set \<Rightarrow> verb list \<Rightarrow> verb_set" where
  "verbs_union acc [] = acc"
| "verbs_union acc (v # vs) =
     verbs_union (case verb_bit v of Some b \<Rightarrow> acc OR b | None \<Rightarrow> acc) vs"

definition NewVerbSet :: "verb list \<Rightarrow> verb_set" where
  "NewVerbSet verbs = verbs_union 0 verbs"

definition Has :: "verb_set \<Rightarrow> verb \<Rightarrow> bool" where
  "Has s v = (case verb_bit v of None \<Rightarrow> False | Some b \<Rightarrow> s AND b \<noteq> 0)"

definition HasAll :: "verb_set \<Rightarrow> verb list \<Rightarrow> bool" where
  "HasAll s verbs = list_all (Has s) verbs"

definition HasAny :: "verb_set \<Rightarrow> verb list \<Rightarrow> bool" where
  "HasAny s verbs = list_ex (Has s) verbs"

definition Empty :: "verb_set \<Rightarrow> bool" where
  "Empty s = (s = 0)"

definition VerbList :: "verb_set \<Rightarrow> verb list" where
  "VerbList s = filter (Has s) VerbOrder"

definition Strings :: "verb_set \<Rightarrow> string list" where
  "Strings s = VerbList s"

fun parse_verbs :: "verb_set \<Rightarrow> string list \<Rightarrow> string list \<Rightarrow> verb_error + verb_set" where
  "parse_verbs acc seen [] = Inr acc"
| "parse_verbs acc seen (r # rs) =
     (if r \<in> set seen then Inl (VerbListedTwice r)
      else case ParseVerb r of
          Inl e \<Rightarrow> Inl e
        | Inr v \<Rightarrow> parse_verbs (acc OR (case verb_bit v of Some b \<Rightarrow> b | None \<Rightarrow> 0)) (r # seen) rs)"

definition ParseVerbs :: "string list \<Rightarrow> verb_error + verb_set" where
  "ParseVerbs raw = (if raw = [] then Inl VerbsRequired else parse_verbs 0 [] raw)"

section \<open>Verb sets are sets of verbs\<close>

definition verbs_of :: "verb_set \<Rightarrow> verb set" where
  "verbs_of s = {v. Has s v}"

definition valid_set :: "verb_set \<Rightarrow> bool" where
  "valid_set s \<longleftrightarrow> \<not> bit s 7"

lemma bit_from_Some_iff:
  "bit_from i vs v = Some b \<Longrightarrow> \<exists>k<length vs. vs ! k = v \<and> b = push_bit (i + k) 1"
proof (induction i vs v rule: bit_from.induct)
  case (2 i known rest v)
  show ?case
  proof (cases "known = v")
    case False
    with 2 obtain k where "k < length rest" "rest ! k = v" "b = push_bit (Suc i + k) 1"
      by auto
    then show ?thesis by (intro exI [of _ "Suc k"]) simp
  qed (use 2 in auto)
qed simp

lemma verb_bit_simps [simp]:
  "verb_bit VerbCreate = Some 1" "verb_bit VerbRead = Some 2" "verb_bit VerbUpdate = Some 4"
  "verb_bit VerbDelete = Some 8" "verb_bit VerbSchema = Some 16" "verb_bit VerbAdmin = Some 32"
  "verb_bit VerbReveal = Some 64"
  by (simp_all add: verb_bit_def VerbOrder_def verb_names push_bit_eq_mult)

lemma verb_bit_None: "verb_bit v = None \<longleftrightarrow> v \<notin> set VerbOrder"
  by (auto simp: verb_bit_def VerbOrder_def)

lemma verb_bit_cases:
  assumes "verb_bit v = Some b"
  obtains k where "k < 7" "v = VerbOrder ! k" "b = push_bit k 1"
proof -
  from bit_from_Some_iff [OF assms [unfolded verb_bit_def]]
  obtain k where "k < length VerbOrder" "VerbOrder ! k = v" "b = push_bit k 1" by auto
  then show ?thesis by (intro that [of k]) (auto simp: VerbOrder_def)
qed

lemma verb_bit_known: "verb_bit v = Some b \<Longrightarrow> v \<in> set VerbOrder"
  by (cases "v \<in> set VerbOrder") (simp_all flip: verb_bit_None)

lemma distinct_VerbOrder: "distinct VerbOrder"
  by (simp add: VerbOrder_def verb_names)

lemma verb_bit_nth: "k < 7 \<Longrightarrow> verb_bit (VerbOrder ! k) = Some (push_bit k 1)"
proof -
  assume "k < 7"
  then have "VerbOrder ! k \<in> set VerbOrder" by (intro nth_mem) (simp add: VerbOrder_def)
  then obtain b where b: "verb_bit (VerbOrder ! k) = Some b"
    using verb_bit_None by fastforce
  then obtain j where "j < 7" "VerbOrder ! k = VerbOrder ! j" "b = push_bit j 1"
    by (rule verb_bit_cases)
  moreover from this have "k = j"
    using distinct_VerbOrder \<open>k < 7\<close> by (simp add: nth_eq_iff_index_eq VerbOrder_def)
  ultimately show ?thesis using b by simp
qed

lemma Has_nth: "k < 7 \<Longrightarrow> Has s (VerbOrder ! k) \<longleftrightarrow> bit s k"
  by (simp add: Has_def verb_bit_nth and_exp_eq_0_iff_not_bit)

lemma Has_known: "Has s v \<Longrightarrow> v \<in> set VerbOrder"
  by (auto simp: Has_def dest: verb_bit_known split: option.splits)

lemma Has_cases:
  "Has s v \<longleftrightarrow> (\<exists>k<7. v = VerbOrder ! k \<and> bit s k)"
proof
  assume h: "Has s v"
  then obtain b where "verb_bit v = Some b" by (auto simp: Has_def split: option.splits)
  then obtain k where "k < 7" "v = VerbOrder ! k" by (rule verb_bit_cases)
  with h show "\<exists>k<7. v = VerbOrder ! k \<and> bit s k" using Has_nth by blast
qed (auto simp: Has_nth)

lemma Has_zero [simp]: "\<not> Has 0 v"
  by (simp add: Has_cases)

lemma Has_or [simp]: "Has (s OR t) v \<longleftrightarrow> Has s v \<or> Has t v"
  by (auto simp: Has_cases bit_or_iff)

lemma Has_and: "Has (s AND t) v \<longleftrightarrow> Has s v \<and> Has t v"
  by (metis (mono_tags) Has_cases Has_nth bit_and_iff)

lemma Has_andnot [simp]: "Has (s AND NOT t) v \<longleftrightarrow> Has s v \<and> \<not> Has t v"
proof -
  have "Has (s AND NOT t) v \<longleftrightarrow> (\<exists>k<7. v = VerbOrder ! k \<and> bit s k \<and> \<not> bit t k)"
    by (auto simp: Has_cases bit_and_iff bit_not_iff)
  also have "\<dots> \<longleftrightarrow> Has s v \<and> \<not> Has t v"
    by (metis Has_cases Has_nth)
  finally show ?thesis .
qed

lemma Has_bit: "verb_bit v = Some b \<Longrightarrow> Has b w \<longleftrightarrow> w = v"
proof -
  assume "verb_bit v = Some b"
  then obtain k where k: "k < 7" "v = VerbOrder ! k" "b = push_bit k 1" by (rule verb_bit_cases)
  have "bit b j \<longleftrightarrow> j = k" if "j < 7" for j
    using that k by (auto simp: bit_simps)
  then have "Has b w \<longleftrightarrow> (\<exists>j<7. w = VerbOrder ! j \<and> j = k)"
    by (auto simp: Has_cases)
  then show ?thesis using k by blast
qed

lemma Has_verbs_union:
  "Has (verbs_union s vs) v \<longleftrightarrow> Has s v \<or> (v \<in> set vs \<and> v \<in> set VerbOrder)"
proof (induction vs arbitrary: s)
  case (Cons w vs)
  show ?case
  proof (cases "verb_bit w")
    case None
    then have "w \<notin> set VerbOrder" using verb_bit_None by blast
    with Cons None show ?thesis by auto
  next
    case (Some b)
    then have "w \<in> set VerbOrder" by (rule verb_bit_known)
    with Cons Some Has_bit [OF Some] show ?thesis by auto
  qed
qed simp

text \<open>
  Two valid sets that hold the same verbs are the same word: nothing is hidden in the bits.
\<close>

lemma verb_set_eqI:
  assumes "valid_set s" "valid_set t" "\<And>v. Has s v \<longleftrightarrow> Has t v"
  shows "s = t"
proof (rule bit_word_eqI)
  fix n :: nat
  assume "n < LENGTH(8)"
  show "bit s n \<longleftrightarrow> bit t n"
  proof (cases "n < 7")
    case True
    with assms(3) [of "VerbOrder ! n"] show ?thesis by (simp add: Has_nth)
  next
    case False
    with \<open>n < LENGTH(8)\<close> have "n = 7" by simp
    with assms(1,2) show ?thesis by (simp add: valid_set_def)
  qed
qed

lemma valid_set_bit: "verb_bit v = Some b \<Longrightarrow> valid_set b"
  by (erule verb_bit_cases) (auto simp: valid_set_def bit_simps)

lemma valid_set_or [simp]: "valid_set (s OR t) \<longleftrightarrow> valid_set s \<and> valid_set t"
  by (simp add: valid_set_def bit_or_iff)

lemma valid_set_zero [simp]: "valid_set 0"
  by (simp add: valid_set_def)

lemma verb_or_zero [simp]: "s OR t = 0 \<longleftrightarrow> s = 0 \<and> t = (0 :: verb_set)"
  by (auto simp: bit_eq_iff bit_or_iff)

lemma Empty_iff: "valid_set s \<Longrightarrow> Empty s \<longleftrightarrow> (\<forall>v. \<not> Has s v)"
  using verb_set_eqI [of s 0] by (auto simp: Empty_def)

section \<open>Parsing and listing\<close>

lemma ParseVerb_Inr [simp]: "ParseVerb r = Inr v \<longleftrightarrow> v = r \<and> r \<in> set VerbOrder"
  by (auto simp: ParseVerb_def verb_bit_None dest: verb_bit_known split: option.splits)

lemma ParseVerb_known [simp]: "r \<in> set VerbOrder \<Longrightarrow> ParseVerb r = Inr r"
  by simp

lemma parse_verbs_Inr:
  "parse_verbs s seen raw = Inr t \<Longrightarrow> valid_set s \<Longrightarrow>
     valid_set t \<and> distinct raw \<and> set raw \<inter> set seen = {} \<and> set raw \<subseteq> set VerbOrder
     \<and> (\<forall>v. Has t v \<longleftrightarrow> Has s v \<or> v \<in> set raw)"
proof (induction s seen raw rule: parse_verbs.induct)
  case (2 s seen r rs)
  from "2.prems" have r: "r \<notin> set seen" "r \<in> set VerbOrder"
    by (auto split: if_splits sum.splits)
  then obtain b where b: "verb_bit r = Some b" using verb_bit_None by fastforce
  with "2.prems" r have rec: "parse_verbs (s OR b) (r # seen) rs = Inr t"
    by (auto split: sum.splits)
  have "valid_set (s OR b)" using "2.prems" valid_set_bit [OF b] by simp
  with "2.IH" [of r] r b rec have
    "valid_set t \<and> distinct rs \<and> set rs \<inter> set (r # seen) = {} \<and> set rs \<subseteq> set VerbOrder
     \<and> (\<forall>v. Has t v \<longleftrightarrow> Has (s OR b) v \<or> v \<in> set rs)"
    by (simp add: ParseVerb_def)
  with r Has_bit [OF b] show ?case by auto
qed simp

lemma parse_verbs_ok:
  "distinct raw \<Longrightarrow> set raw \<inter> set seen = {} \<Longrightarrow> set raw \<subseteq> set VerbOrder \<Longrightarrow>
     \<exists>t. parse_verbs s seen raw = Inr t"
proof (induction raw arbitrary: s seen)
  case (Cons r rs)
  then show ?case by (auto simp: ParseVerb_known simp del: ParseVerb_Inr)
qed simp

lemma set_List: "set (VerbList s) = verbs_of s"
  using Has_known by (auto simp: VerbList_def verbs_of_def)

text \<open>
  \<^verbatim>\<open>ParseVerbs\<close> accepts exactly the non-empty lists of distinct known verbs, and the
  set it returns holds exactly the verbs listed.
\<close>

lemma ParseVerbs_spec:
  "ParseVerbs raw = Inr s \<longleftrightarrow>
     raw \<noteq> [] \<and> distinct raw \<and> set raw \<subseteq> set VerbOrder \<and> valid_set s \<and> verbs_of s = set raw"
proof
  assume "ParseVerbs raw = Inr s"
  then have "raw \<noteq> []" "parse_verbs 0 [] raw = Inr s"
    by (auto simp: ParseVerbs_def split: if_splits)
  with parse_verbs_Inr [of 0 "[]" raw s]
  show "raw \<noteq> [] \<and> distinct raw \<and> set raw \<subseteq> set VerbOrder \<and> valid_set s \<and> verbs_of s = set raw"
    by (auto simp: verbs_of_def)
next
  assume asm: "raw \<noteq> [] \<and> distinct raw \<and> set raw \<subseteq> set VerbOrder \<and> valid_set s \<and> verbs_of s = set raw"
  then obtain t where t: "parse_verbs 0 [] raw = Inr t"
    using parse_verbs_ok [of raw "[]" 0] by auto
  with parse_verbs_Inr [of 0 "[]" raw t] asm have "s = t"
    by (intro verb_set_eqI) (auto simp: verbs_of_def set_eq_iff)
  with t asm show "ParseVerbs raw = Inr s" by (simp add: ParseVerbs_def)
qed

text \<open>
  Listing a set and parsing the list gives the set back, for every set \<^verbatim>\<open>ParseVerbs\<close> or
  \<^verbatim>\<open>NewVerbSet\<close> can make except the empty one, which \<^verbatim>\<open>ParseVerbs\<close> refuses.
\<close>

theorem ParseVerbs_Strings:
  assumes "valid_set s" "s \<noteq> 0"
  shows "ParseVerbs (Strings s) = Inr s"
proof -
  have "\<not> Empty s" using assms by (simp add: Empty_def)
  then have "set (VerbList s) \<noteq> {}" using assms Empty_iff by (auto simp: set_List verbs_of_def)
  moreover have "distinct (VerbList s)" by (simp add: VerbList_def distinct_VerbOrder)
  moreover have "set (VerbList s) \<subseteq> set VerbOrder" by (auto simp: VerbList_def)
  ultimately have "parse_verbs 0 [] (VerbList s) = Inr s \<or> (\<exists>t. parse_verbs 0 [] (VerbList s) = Inr t)"
    using parse_verbs_ok by auto
  then obtain t where t: "parse_verbs 0 [] (VerbList s) = Inr t" by blast
  with parse_verbs_Inr [OF t] assms have "t = s"
    by (intro verb_set_eqI) (auto simp: set_List verbs_of_def)
  with t \<open>set (VerbList s) \<noteq> {}\<close> show ?thesis by (auto simp: ParseVerbs_def Strings_def)
qed

theorem ParseVerbs_Strings_witness:
  "valid_set 34 \<and> ParseVerbs (Strings 34) = Inr 34"
proof -
  have v: "valid_set 34" by (simp add: valid_set_def)
  show ?thesis using v ParseVerbs_Strings [OF v] by simp
qed

text \<open>The set of a list of verbs holds exactly the known verbs of the list.\<close>

lemma Has_NewVerbSet: "Has (NewVerbSet vs) v \<longleftrightarrow> v \<in> set vs \<and> v \<in> set VerbOrder"
  by (simp add: NewVerbSet_def Has_verbs_union)

lemma HasAll_iff: "HasAll s vs \<longleftrightarrow> set vs \<subseteq> verbs_of s"
  by (auto simp: HasAll_def list_all_iff verbs_of_def)

lemma HasAny_iff: "HasAny s vs \<longleftrightarrow> set vs \<inter> verbs_of s \<noteq> {}"
  by (auto simp: HasAny_def list_ex_iff verbs_of_def)

end
