(* ===== verification/Auth_Registry.thy ===== *)
theory Auth_Registry
  imports Auth_Verbs
begin

text \<open>
  The grant and key registry (\<^verbatim>\<open>internal/auth/grants.go\<close>, \<^verbatim>\<open>keys.go\<close>, \<^verbatim>\<open>reach.go\<close>,
  \<^verbatim>\<open>oidc_identity.go\<close> and \<^verbatim>\<open>rootReachableByKey\<close> of \<^verbatim>\<open>authenticator.go\<close>): its data and its
  operations. The two SQL tables are lists of rows in the order the database returns them;
  a statement of the source is the list operation its text spells out. A driver call can
  fail: the argument \<open>flt\<close> of an operation gives, for its n-th call, the driver's error or
  \<open>None\<close>. The mutex makes every operation one step. The proofs are in
  \<open>Auth_Registry_Props\<close>.
\<close>

section \<open>Data\<close>

definition RootObject :: string where "RootObject = ''*''"
definition SubjectPrincipal :: string where "SubjectPrincipal = ''principal''"
definition SubjectGroup :: string where "SubjectGroup = ''group''"
definition AdminPrincipal :: string where "AdminPrincipal = ''dolmen-admin''"

record subject =
  SType :: string
  SID :: string

record object =
  ONamespace :: string
  OTable :: string

record identity =
  Principal :: string
  Groups :: "string list"
  Source :: string

record grant =
  GSubject :: subject
  GObject :: object
  GVerbs :: verb_set
  GCreatedAt :: int

text \<open>A stored timestamp column either parses to an instant or is some other text.\<close>

datatype stored_time = Instant int | NotATime string

record grant_row =
  g_subject_type :: string
  g_subject_id :: string
  g_namespace :: string
  g_table :: string
  g_verbs :: int
  g_created :: stored_time

record key_row =
  k_id :: string
  k_hash :: string
  k_name :: string
  k_principal :: string
  k_groups :: string
  k_revoked :: int
  k_created :: stored_time
  k_expires :: "stored_time option"

record key =
  KeyID :: string
  KeyName :: string
  KeyPrincipal :: string
  KeyGroups :: "string list"
  KeyRevoked :: bool
  KeyCreatedAt :: int
  KeyExpiresAt :: "int option"

record registry =
  grants_tbl :: "grant_row list"
  keys_tbl :: "key_row list"

datatype auth_error =
    DriverError string
  | StoredCreatedAt string
  | StoredExpiresAt string
  | ErrLastRootAdmin
  | ErrLastRootKey

type_synonym faults = "nat \<Rightarrow> string option"

text \<open>Run a driver call: its fault, or the continuation.\<close>

definition call :: "string option \<Rightarrow> (auth_error + 'a) \<Rightarrow> auth_error + 'a" where
  "call flt k = (case flt of Some e \<Rightarrow> Inl (DriverError e) | None \<Rightarrow> k)"

section \<open>Objects and subjects\<close>

definition Root :: "object \<Rightarrow> bool" where
  "Root ob = (ONamespace ob = RootObject)"

text \<open>The loop of \<^verbatim>\<open>coveringObjects\<close>: every prefix of the segments, joined again.\<close>

definition coveringObjects :: "object \<Rightarrow> object list" where
  "coveringObjects ob =
     (let rt = [\<lparr>ONamespace = RootObject, OTable = ''''\<rparr>] in
      if Root ob then rt
      else
        let segments = splitOn (CHR ''/'') (ONamespace ob);
            prefixes = map (\<lambda>i. \<lparr>ONamespace = joinWith (CHR ''/'') (take (i + 1) segments), OTable = ''''\<rparr>)
                           [0..<length segments]
        in rt @ prefixes @ (if OTable ob \<noteq> '''' then [ob] else []))"

definition subjectsFor :: "identity \<Rightarrow> subject list" where
  "subjectsFor i = \<lparr>SType = SubjectPrincipal, SID = Principal i\<rparr>
     # map (\<lambda>g. \<lparr>SType = SubjectGroup, SID = g\<rparr>) (Groups i)"

definition row_subject :: "grant_row \<Rightarrow> subject" where
  "row_subject r = \<lparr>SType = g_subject_type r, SID = g_subject_id r\<rparr>"

definition row_object :: "grant_row \<Rightarrow> object" where
  "row_object r = \<lparr>ONamespace = g_namespace r, OTable = g_table r\<rparr>"

text \<open>\<^verbatim>\<open>VerbSet(v)\<close> keeps the low eight bits of the stored integer.\<close>

definition row_verbs :: "grant_row \<Rightarrow> verb_set" where
  "row_verbs r = word_of_int (g_verbs r)"

definition at_key :: "subject \<Rightarrow> object \<Rightarrow> grant_row \<Rightarrow> bool" where
  "at_key s ob r \<longleftrightarrow> row_subject r = s \<and> row_object r = ob"

section \<open>Reading grants\<close>

fun scan_grants :: "grant_row list \<Rightarrow> auth_error + grant list" where
  "scan_grants [] = Inr []"
| "scan_grants (r # rs) =
     (case g_created r of
        NotATime t \<Rightarrow> Inl (StoredCreatedAt t)
      | Instant c \<Rightarrow>
          bindR (scan_grants rs) (\<lambda>gs.
            Inr (\<lparr>GSubject = row_subject r, GObject = row_object r, GVerbs = row_verbs r, GCreatedAt = c\<rparr> # gs)))"

definition lookup :: "string option \<Rightarrow> registry \<Rightarrow> subject \<Rightarrow> object \<Rightarrow> auth_error + grant option" where
  "lookup flt reg s ob =
     call flt
      (case find (at_key s ob) (grants_tbl reg) of
         None \<Rightarrow> Inr None
       | Some r \<Rightarrow> (case g_created r of
             NotATime t \<Rightarrow> Inl (StoredCreatedAt t)
           | Instant c \<Rightarrow> Inr (Some \<lparr>GSubject = s, GObject = ob, GVerbs = row_verbs r, GCreatedAt = c\<rparr>)))"

definition EffectiveVerbs :: "string option \<Rightarrow> registry \<Rightarrow> identity \<Rightarrow> object \<Rightarrow> auth_error + verb_set" where
  "EffectiveVerbs flt reg i ob =
     (let subjects = subjectsFor i; objects = coveringObjects ob;
          rows = filter (\<lambda>r. row_subject r \<in> set subjects \<and> row_object r \<in> set objects) (grants_tbl reg)
      in call flt (Inr (foldl (\<lambda>union r. union OR row_verbs r) 0 rows)))"

text \<open>The order of \<^verbatim>\<open>sortGrants\<close>: subject type, subject id, namespace, table.\<close>

definition grant_sort_key :: "grant \<Rightarrow> string list" where
  "grant_sort_key g = [SType (GSubject g), SID (GSubject g), ONamespace (GObject g), OTable (GObject g)]"

definition sortGrants :: "grant list \<Rightarrow> grant list" where
  "sortGrants gs = sort_key grant_sort_key gs"

text \<open>
  \<^verbatim>\<open>likePrefix\<close> escapes the wildcards of a namespace and appends \<^verbatim>\<open>/%\<close>. The loop of the
  source runs over runes; the three escaped characters are ASCII, so running over bytes
  gives the same text for valid UTF-8.
\<close>

definition likePrefix :: "string \<Rightarrow> string" where
  "likePrefix ns =
     concat (map (\<lambda>c. if c = CHR 0x5C \<or> c = CHR ''%'' \<or> c = CHR ''_'' then [CHR 0x5C, c] else [c]) ns)
     @ ''/%''"

text \<open>The database's \<^verbatim>\<open>LIKE ... ESCAPE '\'\<close> is the argument \<open>like\<close>: \<open>like s p\<close> holds when \<open>s\<close> matches \<open>p\<close>.\<close>

definition below :: "(string \<Rightarrow> string \<Rightarrow> bool) \<Rightarrow> string \<Rightarrow> grant_row \<Rightarrow> bool" where
  "below like ns r \<longleftrightarrow> g_namespace r = ns \<or> like (g_namespace r) (likePrefix ns)"

definition ListGrants ::
    "(string \<Rightarrow> string \<Rightarrow> bool) \<Rightarrow> string option \<Rightarrow> registry \<Rightarrow> subject option \<Rightarrow> object option
       \<Rightarrow> auth_error + grant list" where
  "ListGrants like flt reg subj ob =
     (let bySubject = (case subj of None \<Rightarrow> (\<lambda>r. True) | Some s \<Rightarrow> (\<lambda>r. row_subject r = s));
          byObject = (case ob of None \<Rightarrow> (\<lambda>r. True)
             | Some p \<Rightarrow> if Root p then (\<lambda>r. True)
                 else if OTable p \<noteq> '''' then (\<lambda>r. row_object r = p)
                 else below like (ONamespace p))
      in call flt (bindR (scan_grants (filter (\<lambda>r. bySubject r \<and> byObject r) (grants_tbl reg)))
                         (\<lambda>gs. Inr (sortGrants gs))))"

fun held_by :: "(string \<Rightarrow> string \<Rightarrow> bool) \<Rightarrow> faults \<Rightarrow> nat \<Rightarrow> registry \<Rightarrow> subject list \<Rightarrow> auth_error + grant list" where
  "held_by like flt n reg [] = Inr []"
| "held_by like flt n reg (s # ss) =
     bindR (ListGrants like (flt n) reg (Some s) None) (\<lambda>gs.
     bindR (held_by like flt (Suc n) reg ss) (\<lambda>rest. Inr (gs @ rest)))"

definition HeldBy :: "(string \<Rightarrow> string \<Rightarrow> bool) \<Rightarrow> faults \<Rightarrow> registry \<Rightarrow> identity \<Rightarrow> auth_error + grant list" where
  "HeldBy like flt reg i = held_by like flt 0 reg (subjectsFor i)"

definition NamespacesWithAnyGrant :: "string option \<Rightarrow> registry \<Rightarrow> identity \<Rightarrow> auth_error + string set" where
  "NamespacesWithAnyGrant flt reg i =
     call flt (Inr (g_namespace ` {r \<in> set (grants_tbl reg). row_subject r \<in> set (subjectsFor i)}))"

definition rootAdminsLocked :: "string option \<Rightarrow> registry \<Rightarrow> auth_error + subject list" where
  "rootAdminsLocked flt reg =
     call flt (Inr (map row_subject
       (filter (\<lambda>r. g_namespace r = RootObject \<and> g_table r = '''' \<and> Has (row_verbs r) VerbAdmin)
               (grants_tbl reg))))"

definition RootAdmins :: "string option \<Rightarrow> registry \<Rightarrow> auth_error + subject list" where
  "RootAdmins flt reg = rootAdminsLocked flt reg"

section \<open>API keys\<close>

definition Expired :: "key \<Rightarrow> int \<Rightarrow> bool" where
  "Expired k now = (case KeyExpiresAt k of None \<Rightarrow> False | Some e \<Rightarrow> \<not> now < e)"

definition encodeGroups :: "string list \<Rightarrow> string" where
  "encodeGroups groups = joinWith (CHR '','') groups"

definition decodeGroups :: "string \<Rightarrow> string list" where
  "decodeGroups raw = (if raw = '''' then [] else splitOn (CHR '','') raw)"

definition scanKey :: "key_row \<Rightarrow> auth_error + key" where
  "scanKey r =
     (case k_created r of
        NotATime t \<Rightarrow> Inl (StoredCreatedAt t)
      | Instant c \<Rightarrow>
          let k = \<lparr>KeyID = k_id r, KeyName = k_name r, KeyPrincipal = k_principal r,
                   KeyGroups = decodeGroups (k_groups r), KeyRevoked = (k_revoked r \<noteq> 0),
                   KeyCreatedAt = c, KeyExpiresAt = None\<rparr>
          in (case k_expires r of
                None \<Rightarrow> Inr k
              | Some (NotATime t) \<Rightarrow> if t = '''' then Inr k else Inl (StoredExpiresAt t)
              | Some (Instant e) \<Rightarrow> Inr (k\<lparr>KeyExpiresAt := Some e\<rparr>)))"

fun scan_keys :: "key_row list \<Rightarrow> auth_error + key list" where
  "scan_keys [] = Inr []"
| "scan_keys (r # rs) = bindR (scanKey r) (\<lambda>k. bindR (scan_keys rs) (\<lambda>ks. Inr (k # ks)))"

definition keyByIDLocked :: "string option \<Rightarrow> registry \<Rightarrow> string \<Rightarrow> auth_error + key option" where
  "keyByIDLocked flt reg i =
     call flt (case find (\<lambda>r. k_id r = i) (keys_tbl reg) of
        None \<Rightarrow> Inr None
      | Some r \<Rightarrow> bindR (scanKey r) (\<lambda>k. Inr (Some k)))"

definition activeKeysLocked :: "string option \<Rightarrow> int \<Rightarrow> registry \<Rightarrow> auth_error + key list" where
  "activeKeysLocked flt now reg =
     call flt (bindR (scan_keys (filter (\<lambda>r. k_revoked r = 0) (keys_tbl reg)))
                     (\<lambda>ks. Inr (filter (\<lambda>k. \<not> Expired k now) ks)))"

definition ActiveKeys :: "string option \<Rightarrow> int \<Rightarrow> registry \<Rightarrow> auth_error + key list" where
  "ActiveKeys flt now reg = activeKeysLocked flt now reg"

fun keyByHash_loop :: "key_row list \<Rightarrow> string \<Rightarrow> auth_error + key option" where
  "keyByHash_loop [] h = Inr None"
| "keyByHash_loop (r # rs) h =
     (case scanKey r of
        Inl e \<Rightarrow> Inl e
      | Inr k \<Rightarrow> if k_hash r \<noteq> h then keyByHash_loop rs h else Inr (Some k))"

definition keyByHash :: "string option \<Rightarrow> registry \<Rightarrow> string \<Rightarrow> auth_error + key option" where
  "keyByHash flt reg h = call flt (keyByHash_loop (keys_tbl reg) h)"

section \<open>Reach\<close>

definition oidcQualifyPrefix :: string where "oidcQualifyPrefix = ''oidc:v1:''"

definition OIDCIssuerOf :: "string \<Rightarrow> string option" where
  "OIDCIssuerOf i =
     (case cutPrefix i oidcQualifyPrefix of
        None \<Rightarrow> None
      | Some rest \<Rightarrow> (case cutAt (CHR '':'') rest of
            None \<Rightarrow> None
          | Some (digest, _) \<Rightarrow> if length digest \<noteq> 26 then None else Some digest))"

record reach =
  RHeader :: bool
  ROIDC :: bool
  ROIDCIssuer :: string

definition PrincipalReachable :: "reach \<Rightarrow> string \<Rightarrow> bool" where
  "PrincipalReachable rc i =
     (if RHeader rc then True
      else if ROIDC rc then (case OIDCIssuerOf i of None \<Rightarrow> False | Some d \<Rightarrow> d = ROIDCIssuer rc)
      else False)"

definition rootReachableByKey :: "subject list \<Rightarrow> key list \<Rightarrow> string \<Rightarrow> bool" where
  "rootReachableByKey admins keys excludeKeyID =
     list_ex (\<lambda>k. KeyID k \<noteq> excludeKeyID \<and>
        list_ex (\<lambda>a. (SType a = SubjectPrincipal \<and> SID a = KeyPrincipal k)
                  \<or> (SType a = SubjectGroup \<and> list_ex (\<lambda>g. g = SID a) (KeyGroups k))) admins) keys"

definition reachable_principal :: "reach \<Rightarrow> subject list \<Rightarrow> bool" where
  "reachable_principal rc admins =
     list_ex (\<lambda>a. SType a = SubjectPrincipal \<and> PrincipalReachable rc (SID a)) admins"

definition otherRootAdminRemainsLocked ::
    "faults \<Rightarrow> nat \<Rightarrow> int \<Rightarrow> registry \<Rightarrow> subject \<Rightarrow> reach \<Rightarrow> auth_error + bool" where
  "otherRootAdminRemainsLocked flt n now reg revoked rc =
     bindR (rootAdminsLocked (flt n) reg) (\<lambda>admins.
       let remaining = filter (\<lambda>a. a \<noteq> revoked) admins in
       if remaining = [] then Inr False
       else if reachable_principal rc remaining then Inr True
       else bindR (activeKeysLocked (flt (Suc n)) now reg) (\<lambda>keys.
              Inr (rootReachableByKey remaining keys '''')))"

definition rootReachableWithoutLocked ::
    "faults \<Rightarrow> nat \<Rightarrow> int \<Rightarrow> registry \<Rightarrow> string \<Rightarrow> reach \<Rightarrow> auth_error + bool" where
  "rootReachableWithoutLocked flt n now reg excludeKeyID rc =
     bindR (rootAdminsLocked (flt n) reg) (\<lambda>admins.
       if admins = [] then Inr True
       else if reachable_principal rc admins then Inr True
       else bindR (activeKeysLocked (flt (Suc n)) now reg) (\<lambda>keys.
              Inr (rootReachableByKey admins keys excludeKeyID)))"

definition SubjectReachable :: "string option \<Rightarrow> int \<Rightarrow> registry \<Rightarrow> subject \<Rightarrow> reach \<Rightarrow> auth_error + bool" where
  "SubjectReachable flt now reg s rc =
     (if SType s = SubjectPrincipal \<and> PrincipalReachable rc (SID s) then Inr True
      else if SType s = SubjectGroup \<and> PrincipalReachable rc (SID s) then Inr True
      else bindR (activeKeysLocked flt now reg) (\<lambda>keys. Inr (rootReachableByKey [s] keys '''')))"

section \<open>Operations that change the registry\<close>

definition set_verbs :: "subject \<Rightarrow> object \<Rightarrow> verb_set \<Rightarrow> registry \<Rightarrow> registry" where
  "set_verbs s ob v reg =
     reg\<lparr>grants_tbl := map (\<lambda>r. if at_key s ob r then r\<lparr>g_verbs := uint v\<rparr> else r) (grants_tbl reg)\<rparr>"

definition delete_grants :: "(grant_row \<Rightarrow> bool) \<Rightarrow> registry \<Rightarrow> registry" where
  "delete_grants P reg = reg\<lparr>grants_tbl := filter (\<lambda>r. \<not> P r) (grants_tbl reg)\<rparr>"

definition insert_grant :: "subject \<Rightarrow> object \<Rightarrow> verb_set \<Rightarrow> int \<Rightarrow> registry \<Rightarrow> registry" where
  "insert_grant s ob v created reg =
     reg\<lparr>grants_tbl := grants_tbl reg @
       [\<lparr>g_subject_type = SType s, g_subject_id = SID s, g_namespace = ONamespace ob,
         g_table = OTable ob, g_verbs = uint v, g_created = Instant created\<rparr>]\<rparr>"

definition Grant ::
    "faults \<Rightarrow> int \<Rightarrow> registry \<Rightarrow> subject \<Rightarrow> object \<Rightarrow> verb_set \<Rightarrow> (auth_error + grant) \<times> registry" where
  "Grant flt now reg s ob verbs =
     (case lookup (flt 0) reg s ob of
        Inl e \<Rightarrow> (Inl e, reg)
      | Inr (Some existing) \<Rightarrow>
          let merged = GVerbs existing OR verbs in
          if merged \<noteq> GVerbs existing then
            (case flt 1 of
               Some e \<Rightarrow> (Inl (DriverError e), reg)
             | None \<Rightarrow> (Inr (existing\<lparr>GVerbs := merged\<rparr>), set_verbs s ob merged reg))
          else (Inr existing, reg)
      | Inr None \<Rightarrow>
          (case flt 1 of
             Some e \<Rightarrow> (Inl (DriverError e), reg)
           | None \<Rightarrow> (Inr \<lparr>GSubject = s, GObject = ob, GVerbs = verbs, GCreatedAt = now\<rparr>,
                      insert_grant s ob verbs now reg)))"

text \<open>
  \<^verbatim>\<open>Revoke\<close> answers the grant that is left, if any, and the verbs it removed. Its driver
  calls are the lookup (0), the two reads of the root-administrator check (1, 2) and the
  final statement (3).
\<close>

definition Revoke ::
    "faults \<Rightarrow> int \<Rightarrow> registry \<Rightarrow> subject \<Rightarrow> object \<Rightarrow> verb_set \<Rightarrow> bool \<Rightarrow> reach
       \<Rightarrow> (auth_error + grant option \<times> verb_set) \<times> registry" where
  "Revoke flt now reg s ob verbs keepRootAdmin rc =
     (case lookup (flt 0) reg s ob of
        Inl e \<Rightarrow> (Inl e, reg)
      | Inr None \<Rightarrow> (Inr (None, 0), reg)
      | Inr (Some existing) \<Rightarrow>
          let remaining = GVerbs existing AND NOT verbs;
              removed = GVerbs existing AND verbs
          in if removed = 0 then (Inr (Some existing, 0), reg)
             else
               (case (if keepRootAdmin \<and> Root ob \<and> Has (GVerbs existing) VerbAdmin \<and> \<not> Has remaining VerbAdmin
                      then otherRootAdminRemainsLocked flt 1 now reg s rc else Inr True) of
                  Inl e \<Rightarrow> (Inl e, reg)
                | Inr False \<Rightarrow> (Inl ErrLastRootAdmin, reg)
                | Inr True \<Rightarrow>
                    (case flt 3 of
                       Some e \<Rightarrow> (Inl (DriverError e), reg)
                     | None \<Rightarrow>
                         if remaining = 0 then (Inr (None, removed), delete_grants (at_key s ob) reg)
                         else (Inr (Some (existing\<lparr>GVerbs := remaining\<rparr>), removed),
                               set_verbs s ob remaining reg))))"

definition DropNamespace ::
    "(string \<Rightarrow> string \<Rightarrow> bool) \<Rightarrow> string option \<Rightarrow> registry \<Rightarrow> string \<Rightarrow> (auth_error + unit) \<times> registry" where
  "DropNamespace like flt reg ns =
     (case flt of
        Some e \<Rightarrow> (Inl (DriverError e), reg)
      | None \<Rightarrow> (Inr (), delete_grants (below like ns) reg))"

definition DropTable :: "string option \<Rightarrow> registry \<Rightarrow> string \<Rightarrow> string \<Rightarrow> (auth_error + unit) \<times> registry" where
  "DropTable flt reg ns table =
     (case flt of
        Some e \<Rightarrow> (Inl (DriverError e), reg)
      | None \<Rightarrow> (Inr (), delete_grants (\<lambda>r. g_namespace r = ns \<and> g_table r = table) reg))"

text \<open>
  \<^verbatim>\<open>CreateKeyExpiring\<close>: the minted secret and id come from \<^verbatim>\<open>crypto/rand\<close> and the hash is
  SHA-256, so \<open>secret\<close>, \<open>id\<close> and \<open>hash\<close> are arguments. The table refuses a duplicate id or
  hash.
\<close>

definition new_key_row ::
    "(string \<Rightarrow> string) \<Rightarrow> int \<Rightarrow> string \<Rightarrow> string \<Rightarrow> string \<Rightarrow> string \<Rightarrow> string list \<Rightarrow> int option \<Rightarrow> key_row" where
  "new_key_row hash now secret i name prin groups expiresAt =
     \<lparr>k_id = i, k_hash = hash secret, k_name = name, k_principal = prin,
      k_groups = encodeGroups groups, k_revoked = 0, k_created = Instant now,
      k_expires = map_option Instant expiresAt\<rparr>"

definition CreateKeyExpiring ::
    "string option \<Rightarrow> (string \<Rightarrow> string) \<Rightarrow> int \<Rightarrow> registry \<Rightarrow> string \<Rightarrow> string
       \<Rightarrow> string \<Rightarrow> string \<Rightarrow> string list \<Rightarrow> int option \<Rightarrow> (auth_error + key \<times> string) \<times> registry" where
  "CreateKeyExpiring flt hash now reg secret i name prin groups expiresAt =
     (case flt of
        Some e \<Rightarrow> (Inl (DriverError e), reg)
      | None \<Rightarrow>
          if i \<in> k_id ` set (keys_tbl reg) \<or> hash secret \<in> k_hash ` set (keys_tbl reg)
          then (Inl (DriverError ''UNIQUE constraint failed''), reg)
          else (Inr (\<lparr>KeyID = i, KeyName = name, KeyPrincipal = prin, KeyGroups = groups,
                      KeyRevoked = False, KeyCreatedAt = now, KeyExpiresAt = expiresAt\<rparr>, secret),
                reg\<lparr>keys_tbl := keys_tbl reg @ [new_key_row hash now secret i name prin groups expiresAt]\<rparr>))"

definition set_revoked :: "string \<Rightarrow> registry \<Rightarrow> registry" where
  "set_revoked i reg =
     reg\<lparr>keys_tbl := map (\<lambda>r. if k_id r = i then r\<lparr>k_revoked := 1\<rparr> else r) (keys_tbl reg)\<rparr>"

text \<open>
  \<^verbatim>\<open>RevokeKey\<close> answers \<open>None\<close> for a key that does not exist, and otherwise the key with
  whether it changed.
\<close>

definition RevokeKey ::
    "faults \<Rightarrow> int \<Rightarrow> registry \<Rightarrow> string \<Rightarrow> bool \<Rightarrow> reach \<Rightarrow> (auth_error + (key \<times> bool) option) \<times> registry" where
  "RevokeKey flt now reg i keepRootAdmin rc =
     (case keyByIDLocked (flt 0) reg i of
        Inl e \<Rightarrow> (Inl e, reg)
      | Inr None \<Rightarrow> (Inr None, reg)
      | Inr (Some k) \<Rightarrow>
          if KeyRevoked k then (Inr (Some (k, False)), reg)
          else
            (case (if keepRootAdmin then rootReachableWithoutLocked flt 1 now reg i rc else Inr True) of
               Inl e \<Rightarrow> (Inl e, reg)
             | Inr False \<Rightarrow> (Inl ErrLastRootKey, reg)
             | Inr True \<Rightarrow>
                 (case flt 3 of
                    Some e \<Rightarrow> (Inl (DriverError e), reg)
                  | None \<Rightarrow> (Inr (Some (k\<lparr>KeyRevoked := True\<rparr>, True)), set_revoked i reg))))"

end
