(* ===== verification/Auth_Root_Admin.thy ===== *)
theory Auth_Root_Admin
  imports Auth_Registry_Props
begin

unbundle bit_operations_syntax

text \<open>
  The guard against locking everyone out. A deployment is \<open>usable\<close> when some holder of
  \<^verbatim>\<open>admin\<close> on the root is a principal an enabled identity source can assert, or is borne by an
  active API key. \<^verbatim>\<open>Revoke\<close> and \<^verbatim>\<open>RevokeKey\<close> refuse to leave that state when called with
  \<^verbatim>\<open>keepRootAdmin\<close>, which the API sets whenever no admin key is configured; this theory shows
  that with the guard no sequence of registry operations leaves it, as long as the clock
  reading does not change (a key that expires can end it: no operation is called then).
\<close>

section \<open>What the guards compute\<close>

definition root_admins :: "registry \<Rightarrow> subject set" where
  "root_admins reg = {s. VerbAdmin \<in> perm reg s root_object}"

definition active_keys :: "int \<Rightarrow> registry \<Rightarrow> key set" where
  "active_keys now reg =
     {k. \<exists>r\<in>set (keys_tbl reg). k_revoked r = 0 \<and> scanKey r = Inr k \<and> \<not> Expired k now}"

definition bears :: "key \<Rightarrow> subject \<Rightarrow> bool" where
  "bears k a \<longleftrightarrow> SType a = SubjectPrincipal \<and> SID a = KeyPrincipal k
     \<or> SType a = SubjectGroup \<and> SID a \<in> set (KeyGroups k)"

definition usable_by :: "reach \<Rightarrow> subject set \<Rightarrow> key set \<Rightarrow> bool" where
  "usable_by rc admins keys \<longleftrightarrow>
     (\<exists>a\<in>admins. SType a = SubjectPrincipal \<and> PrincipalReachable rc (SID a))
     \<or> (\<exists>k\<in>keys. \<exists>a\<in>admins. bears k a)"

definition usable :: "int \<Rightarrow> reach \<Rightarrow> registry \<Rightarrow> bool" where
  "usable now rc reg \<longleftrightarrow> usable_by rc (root_admins reg) (active_keys now reg)"

lemma usable_by_mono: "usable_by rc A K \<Longrightarrow> A \<subseteq> A' \<Longrightarrow> K \<subseteq> K' \<Longrightarrow> usable_by rc A' K'"
  unfolding usable_by_def by blast

lemma rootAdminsLocked_set:
  "rootAdminsLocked flt reg = Inr admins \<Longrightarrow> set admins = root_admins reg"
  by (auto simp: rootAdminsLocked_def call_def root_admins_def perm_def at_key_def root_object_def
        row_object_def split: option.splits)

lemma scanKey_ok: "key_row_ok r \<Longrightarrow> \<exists>k. scanKey r = Inr k"
  by (auto simp: key_row_ok_def scanKey_def Let_def split: option.splits)

lemma scanKey_id: "scanKey r = Inr k \<Longrightarrow> KeyID k = k_id r \<and> KeyRevoked k = (k_revoked r \<noteq> 0)"
  by (auto simp: scanKey_def Let_def split: stored_time.splits option.splits if_splits)

lemma scan_keys_set: "scan_keys rows = Inr ks \<Longrightarrow> set ks = {k. \<exists>r\<in>set rows. scanKey r = Inr k}"
  by (induction rows arbitrary: ks) auto

lemma activeKeysLocked_set: "activeKeysLocked flt now reg = Inr ks \<Longrightarrow> set ks = active_keys now reg"
  by (auto simp: activeKeysLocked_def call_def active_keys_def scan_keys_set split: option.splits)

lemma reachable_principal_iff:
  "reachable_principal rc admins \<longleftrightarrow>
     (\<exists>a\<in>set admins. SType a = SubjectPrincipal \<and> PrincipalReachable rc (SID a))"
  by (simp add: reachable_principal_def list_ex_iff)

lemma rootReachableByKey_iff:
  "rootReachableByKey admins keys ex \<longleftrightarrow> (\<exists>k\<in>set keys. KeyID k \<noteq> ex \<and> (\<exists>a\<in>set admins. bears k a))"
  by (auto simp: rootReachableByKey_def list_ex_iff bears_def)

lemma otherRootAdminRemains_usable:
  assumes "otherRootAdminRemainsLocked flt n now reg s rc = Inr True"
  shows "usable_by rc (root_admins reg - {s}) (active_keys now reg)"
proof -
  from assms obtain admins where a: "rootAdminsLocked (flt n) reg = Inr admins"
    by (auto simp: otherRootAdminRemainsLocked_def)
  have set_eq: "set (filter (\<lambda>a. a \<noteq> s) admins) = root_admins reg - {s}"
    using rootAdminsLocked_set [OF a] by auto
  from assms a consider "reachable_principal rc (filter (\<lambda>a. a \<noteq> s) admins)"
    | keys where "activeKeysLocked (flt (Suc n)) now reg = Inr keys"
        "rootReachableByKey (filter (\<lambda>a. a \<noteq> s) admins) keys ''''"
    by (auto simp: otherRootAdminRemainsLocked_def Let_def split: if_splits)
  then show ?thesis
    using set_eq activeKeysLocked_set
    by cases (auto simp: usable_by_def reachable_principal_iff rootReachableByKey_iff)
qed

lemma rootReachableWithout_usable:
  assumes "rootReachableWithoutLocked flt n now reg i rc = Inr True" "root_admins reg \<noteq> {}"
  shows "usable_by rc (root_admins reg) {k \<in> active_keys now reg. KeyID k \<noteq> i}"
proof -
  from assms obtain admins where a: "rootAdminsLocked (flt n) reg = Inr admins"
    by (auto simp: rootReachableWithoutLocked_def)
  have set_eq: "set admins = root_admins reg" using rootAdminsLocked_set [OF a] .
  then have "admins \<noteq> []" using assms(2) by auto
  with assms(1) a consider "reachable_principal rc admins"
    | keys where "activeKeysLocked (flt (Suc n)) now reg = Inr keys" "rootReachableByKey admins keys i"
    by (auto simp: rootReachableWithoutLocked_def split: if_splits)
  then show ?thesis
  proof cases
    case 1
    then show ?thesis using set_eq by (auto simp: usable_by_def reachable_principal_iff)
  next
    case 2
    then show ?thesis using set_eq activeKeysLocked_set [OF 2(1)]
      by (auto simp: usable_by_def rootReachableByKey_iff)
  qed
qed

section \<open>Guarded operations keep the deployment usable\<close>

lemma root_admins_Revoke:
  assumes "reg_inv reg" "Revoke flt now reg s ob verbs keep rc = (Inr res, reg')"
  shows "root_admins reg' = root_admins reg - (if ob = root_object \<and> Has verbs VerbAdmin then {s} else {})"
  using Revoke_perm [OF assms] by (auto simp: root_admins_def verbs_of_def fun_upd_apply split: if_splits)

lemma Revoke_keys: "keys_tbl (snd (Revoke flt now reg s ob verbs keep rc)) = keys_tbl reg"
  by (auto simp: Revoke_def Let_def split: sum.splits option.splits bool.splits)

lemma active_keys_cong: "keys_tbl reg' = keys_tbl reg \<Longrightarrow> active_keys now reg' = active_keys now reg"
  by (simp add: active_keys_def)

lemma Revoke_usable:
  assumes inv: "reg_inv reg" and use: "usable now rc reg"
  shows "usable now rc (snd (Revoke flt now reg s ob verbs True rc))"
proof (cases "Revoke flt now reg s ob verbs True rc")
  case (Pair r reg')
  have keys: "active_keys now reg' = active_keys now reg"
    using Revoke_keys [of flt now reg s ob verbs True rc] Pair by (simp add: active_keys_def)
  show ?thesis
  proof (cases r)
    case (Inl e)
    with Pair use failed_operations_keep_registry(2) [of flt now reg s ob verbs True rc e]
    show ?thesis by simp
  next
    case (Inr res)
    with Pair have rev: "Revoke flt now reg s ob verbs True rc = (Inr res, reg')" by simp
    show ?thesis
    proof (cases "ob = root_object \<and> Has verbs VerbAdmin \<and> s \<in> root_admins reg")
      case False
      then have "root_admins reg \<subseteq> root_admins reg'"
        using root_admins_Revoke [OF inv rev] by auto
      with use keys Pair show ?thesis by (auto simp: usable_def intro: usable_by_mono)
    next
      case True
      then have adm: "VerbAdmin \<in> perm reg s ob" and "Root ob"
        by (auto simp: root_admins_def Root_def root_object_def)
      have "otherRootAdminRemainsLocked flt 1 now reg s rc = Inr True"
        using Revoke_Inr_cases [OF rev]
      proof (elim disjE exE conjE)
        fix old
        assume "lookup (flt 0) reg s ob = Inr (Some old)"
          and g: "True \<and> Root ob \<and> Has (GVerbs old) VerbAdmin \<and> Has verbs VerbAdmin \<longrightarrow>
            otherRootAdminRemainsLocked flt 1 now reg s rc = Inr True"
        then have "Has (GVerbs old) VerbAdmin"
          using adm perm_lookup_Some [OF inv] by (fastforce simp: verbs_of_def)
        with g True \<open>Root ob\<close> show ?thesis by simp
      qed (use adm inv True in auto)
      then have "usable_by rc (root_admins reg - {s}) (active_keys now reg)"
        by (rule otherRootAdminRemains_usable)
      with root_admins_Revoke [OF inv rev] True keys Pair show ?thesis by (simp add: usable_def)
    qed
  qed
qed

lemma root_admins_set_revoked [simp]: "root_admins (set_revoked i reg) = root_admins reg"
  by (simp add: root_admins_def)

lemma active_keys_set_revoked:
  "{k \<in> active_keys now reg. KeyID k \<noteq> i} \<subseteq> active_keys now (set_revoked i reg)"
proof
  fix k
  assume "k \<in> {k \<in> active_keys now reg. KeyID k \<noteq> i}"
  then obtain r where r: "r \<in> set (keys_tbl reg)" "k_revoked r = 0" "scanKey r = Inr k"
    "\<not> Expired k now" "k_id r \<noteq> i"
    using scanKey_id by (fastforce simp: active_keys_def)
  then have "r \<in> set (keys_tbl (set_revoked i reg))" by (auto simp: set_revoked_def)
  with r show "k \<in> active_keys now (set_revoked i reg)" by (auto simp: active_keys_def)
qed

lemma RevokeKey_usable:
  assumes use: "usable now rc reg"
  shows "usable now rc (snd (RevokeKey flt now reg i True rc))"
proof (cases "snd (RevokeKey flt now reg i True rc) = reg")
  case False
  then have chk: "rootReachableWithoutLocked flt 1 now reg i rc = Inr True"
    and reg': "snd (RevokeKey flt now reg i True rc) = set_revoked i reg"
    by (auto simp: RevokeKey_def split: sum.splits option.splits if_splits bool.splits)
  have "root_admins reg \<noteq> {}" using use by (auto simp: usable_def usable_by_def)
  from rootReachableWithout_usable [OF chk this]
  have "usable_by rc (root_admins reg) (active_keys now (set_revoked i reg))"
    by (rule usable_by_mono) (simp_all add: active_keys_set_revoked)
  then show ?thesis unfolding reg' by (simp add: usable_def)
qed (use use in simp)

text \<open>
  \<^verbatim>\<open>LIKE\<close> with the pattern of \<^verbatim>\<open>likePrefix\<close> matches the strings that start with the namespace
  and a slash; SQLite compares ASCII letters without regard to case.
\<close>

definition like_spec :: "(string \<Rightarrow> string \<Rightarrow> bool) \<Rightarrow> bool" where
  "like_spec like \<longleftrightarrow> (\<forall>s ns. like s (likePrefix ns) \<longleftrightarrow>
     hasPrefix (map asciiLower s) (map asciiLower (ns @ ''/'')))"

text \<open>The operations the API calls: the guard is on, and a dropped namespace is not the root.\<close>

fun guarded :: "int \<Rightarrow> reach \<Rightarrow> registry_op \<Rightarrow> bool" where
  "guarded now rc (OGrant flt now' s ob verbs) \<longleftrightarrow> valid_set verbs \<and> verbs \<noteq> 0"
| "guarded now rc (ORevoke flt now' s ob verbs keep rc') \<longleftrightarrow> now' = now \<and> keep \<and> rc' = rc"
| "guarded now rc (ODropNamespace flt ns) \<longleftrightarrow> ns \<noteq> RootObject"
| "guarded now rc (ODropTable flt ns t) \<longleftrightarrow> ns \<noteq> RootObject"
| "guarded now rc (OCreateKey flt hash now' secret i name prin groups ex) \<longleftrightarrow> i \<noteq> ''''"
| "guarded now rc (ORevokeKey flt now' i keep rc') \<longleftrightarrow> now' = now \<and> keep \<and> rc' = rc"

lemma guarded_op_ok: "guarded now rc x \<Longrightarrow> op_ok x"
  by (cases x) auto

lemma like_not_root: "like_spec like \<Longrightarrow> \<not> like RootObject (likePrefix ns)"
  by (auto simp: like_spec_def RootObject_def hasPrefix_def asciiLower_def isUpper_def take_Cons'
        split: if_splits)

lemma DropNamespace_usable:
  assumes "like_spec like" "ns \<noteq> RootObject" "usable now rc reg"
  shows "usable now rc (snd (DropNamespace like flt reg ns))"
proof -
  have "root_admins (snd (DropNamespace like flt reg ns)) = root_admins reg"
    using like_not_root [OF assms(1)] assms(2)
    by (auto simp: root_admins_def perm_DropNamespace root_object_def)
  moreover have "active_keys now (snd (DropNamespace like flt reg ns)) = active_keys now reg"
    by (auto simp: DropNamespace_def active_keys_def split: option.splits)
  ultimately show ?thesis using assms(3) by (simp add: usable_def)
qed

lemma DropTable_usable:
  assumes "ns \<noteq> RootObject" "usable now rc reg"
  shows "usable now rc (snd (DropTable flt reg ns t))"
proof -
  have "root_admins (snd (DropTable flt reg ns t)) = root_admins reg"
    using assms(1) by (auto simp: root_admins_def perm_DropTable root_object_def)
  moreover have "active_keys now (snd (DropTable flt reg ns t)) = active_keys now reg"
    by (auto simp: DropTable_def active_keys_def split: option.splits)
  ultimately show ?thesis using assms(2) by (simp add: usable_def)
qed

lemma CreateKey_usable:
  assumes "usable now rc reg"
  shows "usable now rc (snd (CreateKeyExpiring flt hash now' reg secret i name prin groups ex))"
proof (cases "CreateKeyExpiring flt hash now' reg secret i name prin groups ex")
  case (Pair res reg')
  with CreateKey_step [OF this] have "root_admins reg' = root_admins reg"
    "active_keys now reg \<subseteq> active_keys now reg'"
    by (auto simp: root_admins_def active_keys_def)
  with assms Pair show ?thesis by (auto simp: usable_def intro: usable_by_mono)
qed

lemma Grant_usable:
  assumes "reg_inv reg" "valid_set verbs" "verbs \<noteq> 0" "usable now rc reg"
  shows "usable now rc (snd (Grant flt now' reg s ob verbs))"
proof (cases "Grant flt now' reg s ob verbs")
  case (Pair r reg')
  have k: "active_keys now reg' = active_keys now reg"
    using Pair by (auto simp: Grant_def active_keys_def Let_def split: sum.splits option.splits if_splits)
  show ?thesis
  proof (cases r)
    case (Inl e)
    then show ?thesis
      using Pair assms(4) failed_operations_keep_registry(1) [of flt now' reg s ob verbs e] by simp
  next
    case (Inr g)
    with Grant_perm [OF assms(1-3)] Pair have "root_admins reg \<subseteq> root_admins reg'"
      by (auto simp: root_admins_def)
    with k assms(4) Pair show ?thesis by (auto simp: usable_def intro: usable_by_mono)
  qed
qed

lemma guarded_step_usable:
  assumes "like_spec like" "reg_inv reg" "guarded now rc x" "usable now rc reg"
  shows "usable now rc (reg_step like x reg)"
  using assms
  by (cases x)
     (auto intro: Revoke_usable RevokeKey_usable DropNamespace_usable DropTable_usable
        CreateKey_usable Grant_usable)

text \<open>
  C1. The deployment is never locked out: while it has a usable root administrator, no
  sequence of guarded calls (grants, guarded revocations of grants and keys, key creation,
  drops of namespaces and tables other than the root), with any driver failures, leaves it
  without one.
\<close>

theorem root_admin_never_lost:
  assumes "like_spec like" "reg_inv reg" "usable now rc reg" "\<forall>x\<in>set ops. guarded now rc x"
  shows "usable now rc (fold (reg_step like) ops reg)"
  using assms(2-4)
proof (induction ops arbitrary: reg)
  case (Cons x ops)
  then have "reg_inv (reg_step like x reg)" "usable now rc (reg_step like x reg)"
    using guarded_step_usable [OF assms(1)] registry_store.inv_step guarded_op_ok by auto
  with Cons show ?case by simp
qed simp

text \<open>
  A matcher with the documented semantics of \<^verbatim>\<open>LIKE ... ESCAPE '\'\<close>, to show that the
  assumption on \<open>like\<close> can be met.
\<close>

fun like_match :: "string \<Rightarrow> string \<Rightarrow> bool" where
  "like_match s [] \<longleftrightarrow> s = []"
| "like_match [] (p # ps) \<longleftrightarrow> p = CHR ''%'' \<and> like_match [] ps"
| "like_match (c # s) (p # ps) \<longleftrightarrow>
     (if p = CHR 0x5C then
        (case ps of [] \<Rightarrow> False | q # ps' \<Rightarrow> asciiLower c = asciiLower q \<and> like_match s ps')
      else if p = CHR ''%'' then like_match (c # s) ps \<or> like_match s (p # ps)
      else if p = CHR ''_'' then like_match s ps
      else asciiLower c = asciiLower p \<and> like_match s ps)"

lemma like_match_any: "like_match s ''%''"
  by (induction s) auto

lemma like_match_prefix:
  "like_match s (likePrefix ns) \<longleftrightarrow> hasPrefix (map asciiLower s) (map asciiLower (ns @ ''/''))"
proof (induction ns arbitrary: s)
  case Nil
  show ?case
    by (cases s) (auto simp: likePrefix_def hasPrefix_def like_match_any)
next
  case (Cons n ns)
  show ?case
  proof (cases s)
    case Nil
    then show ?thesis by (simp add: likePrefix_def hasPrefix_def)
  next
    case (Cons c s')
    have "like_match (c # s') (likePrefix (n # ns)) \<longleftrightarrow>
        asciiLower c = asciiLower n \<and> like_match s' (likePrefix ns)"
      by (auto simp: likePrefix_def)
    then show ?thesis using Cons.IH [of s'] Cons by (auto simp: hasPrefix_def)
  qed
qed

lemma like_match_spec: "like_spec like_match"
  by (simp add: like_spec_def like_match_prefix)

theorem root_admin_never_lost_witness:
  "usable 5 \<lparr>RHeader = True, ROIDC = False, ROIDCIssuer = ''''\<rparr>
     (fold (reg_step like_match)
        [ORevoke (\<lambda>_. None) 5 \<lparr>SType = SubjectPrincipal, SID = ''ana''\<rparr> root_object 32 True
           \<lparr>RHeader = True, ROIDC = False, ROIDCIssuer = ''''\<rparr>,
         ODropNamespace None ''tmp'']
        (insert_grant \<lparr>SType = SubjectPrincipal, SID = ''ana''\<rparr> root_object 32 1
           \<lparr>grants_tbl = [], keys_tbl = []\<rparr>))"
proof -
  let ?s = "\<lparr>SType = SubjectPrincipal, SID = ''ana''\<rparr>"
  let ?rc = "\<lparr>RHeader = True, ROIDC = False, ROIDCIssuer = ''''\<rparr>"
  let ?reg0 = "\<lparr>grants_tbl = [], keys_tbl = []\<rparr>"
  let ?reg = "insert_grant ?s root_object 32 1 ?reg0"
  let ?ops = "[ORevoke (\<lambda>_. None) 5 ?s root_object 32 True ?rc, ODropNamespace None ''tmp'']"
  have inv: "reg_inv ?reg"
    by (intro inv_insert_grant) (simp_all add: reg_inv_def valid_set_def)
  have "VerbAdmin \<in> verbs_of 32" using Has_bit [of VerbAdmin 32] by (simp add: verbs_of_def)
  then have "?s \<in> root_admins ?reg" by (simp add: root_admins_def perm_insert_grant)
  then have use: "usable 5 ?rc ?reg"
    by (force simp: usable_def usable_by_def PrincipalReachable_def)
  have ops: "\<forall>x\<in>set ?ops. guarded 5 ?rc x" by (simp add: RootObject_def)
  show ?thesis by (rule root_admin_never_lost [OF like_match_spec inv use ops])
qed

end
