(* ===== verification/Api_Authz.thy ===== *)
theory Api_Authz
  imports Auth_Root_Admin Schema_Constraints
begin

text \<open>
  Authorization of operations (\<^verbatim>\<open>internal/api/authz.go\<close>, \<^verbatim>\<open>authz_guards.go\<close>,
  \<^verbatim>\<open>authz_constraints.go\<close>, \<^verbatim>\<open>scope.go\<close>, \<^verbatim>\<open>batch.go\<close>): the rule of every operation, the check of its
  verbs, of the constraints it consults and of secrets it reveals, the rows a caller may
  reach, and the namespaces and tables it may list. A request body enters through the views
  the code decodes from it. Grants and tables can change while a request is checked, so
  every read of them happens at an address of the call tree and sees the world at that
  moment: a view holds the registry, the fault of the registry call if it has one, and what
  the engine answers.
\<close>

section \<open>The world a request reads\<close>

datatype store_error = ErrNotFound | StoreOther string

record incarnation =
  NsGen :: string
  IncTable :: string
  IncVersion :: int
  DropGen :: int

definition noIncarnation :: incarnation where
  "noIncarnation = \<lparr>NsGen = replicate 16 (CHR 0x00), IncTable = '''', IncVersion = 0, DropGen = 0\<rparr>"

record view =
  vFault :: "string option"
  vRegistry :: registry
  vTable :: "string \<Rightarrow> string \<Rightarrow> store_error + table_schema \<times> incarnation"
  vNamespace :: "string \<Rightarrow> store_error + unit"

type_synonym world = "nat list \<Rightarrow> view"

definition later :: "world \<Rightarrow> nat \<Rightarrow> world" where
  "later w i = (\<lambda>p. w (i # p))"

datatype forbidden =
    NoGrant
  | QueryNeedsNamespace
  | MigrationReads
  | MigrationWidens
  | RevealAdminKey
  | RevealDenied
  | ConstraintReads string
  | ParentRead string

datatype api_error =
    NoRule string
  | NoGrantRegistry
  | NamespaceRequired
  | TableRequired nat
  | Forbidden403 forbidden
  | RegistryError auth_error
  | StoreError store_error
  | NamespaceMissing string
  | NothingToGrantOn string string
  | Indexed nat api_error
  | BadBody string

record server =
  authOn :: bool
  hasGrants :: bool

definition heldAt :: "world \<Rightarrow> identity \<Rightarrow> object \<Rightarrow> api_error + verb_set" where
  "heldAt w who ob =
     (case EffectiveVerbs (vFault (w [])) (vRegistry (w [])) who ob of
        Inl e \<Rightarrow> Inl (RegistryError e) | Inr held \<Rightarrow> Inr held)"

section \<open>Rules\<close>

datatype authScope =
    scopeNone
  | scopeRoot
  | scopeParentNamespace
  | scopeNamespace
  | scopeTable
  | scopeTableOrNamespace
  | scopeGrantObject

record authRule =
  Scope :: authScope
  Verbs :: "verb list"
  AnyVerb :: bool
  OwnRows :: bool
  Reveal :: bool

definition dataVerbs :: "verb list" where
  "dataVerbs = [VerbCreate, VerbUpdate, VerbDelete]"

definition rule :: "authScope \<Rightarrow> verb list \<Rightarrow> authRule" where
  "rule s vs = \<lparr>Scope = s, Verbs = vs, AnyVerb = False, OwnRows = False, Reveal = False\<rparr>"

definition authRuleList :: "(string \<times> authRule) list" where
  "authRuleList =
    [(''capabilities'', rule scopeNone []),
     (''describe_server'', rule scopeNone []),
     (''infer_schema'', rule scopeNone []),
     (''find_path'', rule scopeNone []),
     (''subgraph'', rule scopeNone []),
     (''search_graph'', rule scopeNone []),
     (''neighbors'', rule scopeNone []),
     (''list_namespaces'', rule scopeNone []),
     (''list_tables'', rule scopeNone []),
     (''whoami'', rule scopeNone []),
     (''create_key'', rule scopeRoot [VerbAdmin]),
     (''list_keys'', rule scopeRoot [VerbAdmin]),
     (''revoke_key'', rule scopeRoot [VerbAdmin]),
     (''rotate_signing_key'', rule scopeRoot [VerbAdmin]),
     (''rotate_secret_key'', rule scopeRoot [VerbAdmin]),
     (''create_namespace'', rule scopeParentNamespace [VerbAdmin]),
     (''drop_namespace'', rule scopeNamespace [VerbAdmin]),
     (''vacuum'', rule scopeNamespace [VerbAdmin]),
     (''describe_table'', (rule scopeTable VerbOrder)\<lparr>AnyVerb := True\<rparr>),
     (''tokenize'', (rule scopeTable VerbOrder)\<lparr>AnyVerb := True\<rparr>),
     (''create_table'', rule scopeNamespace [VerbSchema]),
     (''drop_table'', rule scopeTable [VerbSchema, VerbAdmin]),
     (''migrate'', rule scopeTable [VerbSchema]),
     (''list_migrations'', rule scopeTable [VerbSchema]),
     (''insert'', rule scopeTable [VerbCreate]),
     (''import_records'', rule scopeTable [VerbAdmin, VerbCreate]),
     (''relate'', rule scopeTable [VerbCreate]),
     (''update'', rule scopeTable [VerbUpdate]),
     (''delete'', rule scopeTable [VerbDelete]),
     (''upsert'', rule scopeTable [VerbCreate, VerbUpdate]),
     (''upsert_by_key'', rule scopeTable [VerbCreate, VerbUpdate]),
     (''batch'', rule scopeNamespace [VerbAdmin]),
     (''read_rows'', (rule scopeTable [VerbRead])\<lparr>OwnRows := True, Reveal := True\<rparr>),
     (''file_url'', (rule scopeTable [VerbRead])\<lparr>OwnRows := True\<rparr>),
     (''search_fulltext'', (rule scopeTable [VerbRead])\<lparr>OwnRows := True, Reveal := True\<rparr>),
     (''search_vector'', (rule scopeTable [VerbRead])\<lparr>OwnRows := True, Reveal := True\<rparr>),
     (''query'', rule scopeNamespace [VerbRead]),
     (''changes_since'', (rule scopeTableOrNamespace [VerbRead])\<lparr>OwnRows := True\<rparr>),
     (''wait_for'', (rule scopeTableOrNamespace [VerbRead])\<lparr>OwnRows := True\<rparr>),
     (''grant'', rule scopeGrantObject [VerbAdmin]),
     (''revoke'', rule scopeGrantObject [VerbAdmin]),
     (''list_grants'', rule scopeGrantObject [VerbAdmin])]"

definition authRules :: "string \<Rightarrow> authRule option" where
  "authRules = map_of authRuleList"

text \<open>Indexing the map with an unknown operation gives the zero rule.\<close>

definition ruleOr0 :: "string \<Rightarrow> authRule" where
  "ruleOr0 op = (case authRules op of Some r \<Rightarrow> r | None \<Rightarrow> rule scopeNone [])"

section \<open>Requests\<close>

record authTarget =
  tNamespace :: string
  tTable :: string
  tObject :: "object option"
  tReveal :: "string list"
  tChanges :: "(string \<times> bool option) list"

definition OpAddField :: string where "OpAddField = ''add_field''"
definition OpRenameField :: string where "OpRenameField = ''rename_field''"
definition OpDropField :: string where "OpDropField = ''drop_field''"
definition OpSetFulltext :: string where "OpSetFulltext = ''set_fulltext''"
definition OpSetVectorize :: string where "OpSetVectorize = ''set_vectorize''"
definition OpSetEnum :: string where "OpSetEnum = ''set_enum''"
definition OpSetShape :: string where "OpSetShape = ''set_shape''"
definition OpSetFileConstraints :: string where "OpSetFileConstraints = ''set_file_constraints''"
definition OpSetRowAccess :: string where "OpSetRowAccess = ''set_row_access''"
definition OpAddConstraint :: string where "OpAddConstraint = ''add_constraint''"
definition OpDropConstraint :: string where "OpDropConstraint = ''drop_constraint''"
definition OpSetAcceptReferences :: string where "OpSetAcceptReferences = ''set_accept_references''"

lemmas change_ops = OpAddField_def OpRenameField_def OpDropField_def OpSetFulltext_def OpSetVectorize_def OpSetEnum_def
  OpSetShape_def OpSetFileConstraints_def OpSetRowAccess_def OpAddConstraint_def OpDropConstraint_def OpSetAcceptReferences_def

text \<open>The parts of a migration change the checks look at; \<open>chDefault\<close> says whether a default is given.\<close>

record change =
  chOp :: string
  chField :: "field option"
  chName :: string
  chDefault :: bool
  chConstraint :: "constraint option"

definition ReadsRows :: "change \<Rightarrow> bool" where
  "ReadsRows c =
     (if chOp c = OpAddField then
        (case chField c of None \<Rightarrow> True | Some f \<Rightarrow> Required f \<or> Fulltext f \<or> Vectorize f \<or> chDefault c)
      else chOp c \<in> set [OpSetEnum, OpSetShape, OpSetFileConstraints, OpSetVectorize, OpSetFulltext, OpSetRowAccess,
             OpDropField, OpAddConstraint, OpSetAcceptReferences])"

record batch_write =
  bwKind :: string
  bwTable :: string

text \<open>
  What the code decodes from one body: the target fields, the strict reading of a migration
  (\<open>None\<close> when it does not decode), the lenient readings of a migration and of a table
  declaration, and the parsed batch.
\<close>

record request =
  rTarget :: authTarget
  rStrict :: "change list option"
  rLenient :: "change list"
  rAccepts :: bool
  rDeclared :: "constraint list"
  rBatch :: "api_error + string \<times> batch_write list"

definition disablesRowAccess :: "authTarget \<Rightarrow> bool" where
  "disablesRowAccess t = list_ex (\<lambda>(op, v). op = OpSetRowAccess \<and> v = Some False) (tChanges t)"

definition migrationReadsRows :: "change list option \<Rightarrow> bool" where
  "migrationReadsRows strict = (case strict of None \<Rightarrow> True | Some cs \<Rightarrow> list_ex ReadsRows cs)"

definition rootOb :: object where "rootOb = \<lparr>ONamespace = RootObject, OTable = ''''\<rparr>"

definition tableOb :: "string \<Rightarrow> string \<Rightarrow> object" where
  "tableOb ns table = \<lparr>ONamespace = ns, OTable = table\<rparr>"

definition parentNamespace :: "string \<Rightarrow> object" where
  "parentNamespace ns =
     (if CHR ''/'' \<notin> set ns then rootOb
      else tableOb (rev (tl (dropWhile (\<lambda>c. c \<noteq> CHR ''/'') (rev ns)))) '''')"

definition objectFor :: "authScope \<Rightarrow> authTarget \<Rightarrow> api_error + object" where
  "objectFor s t =
     (case s of
        scopeRoot \<Rightarrow> Inr rootOb
      | scopeParentNamespace \<Rightarrow>
          if tNamespace t = '''' then Inl NamespaceRequired else Inr (parentNamespace (tNamespace t))
      | scopeNamespace \<Rightarrow> if tNamespace t = '''' then Inl NamespaceRequired else Inr (tableOb (tNamespace t) '''')
      | scopeTable \<Rightarrow>
          if tNamespace t = '''' then Inl NamespaceRequired else Inr (tableOb (tNamespace t) (tTable t))
      | scopeTableOrNamespace \<Rightarrow>
          if tNamespace t = '''' then Inl NamespaceRequired else Inr (tableOb (tNamespace t) (tTable t))
      | scopeGrantObject \<Rightarrow> (case tObject t of None \<Rightarrow> Inr rootOb | Some ob \<Rightarrow> Inr ob)
      | scopeNone \<Rightarrow> Inr rootOb)"

section \<open>Names\<close>

definition NormalizeNamespace :: "(string \<Rightarrow> string) \<Rightarrow> (string \<Rightarrow> string) \<Rightarrow> string \<Rightarrow> string" where
  "NormalizeNamespace lo tr ns =
     joinWith (CHR ''/'') (map (\<lambda>seg. toLower lo (trimSpace tr seg)) (splitOn (CHR ''/'') ns))"

definition NormalizeTable :: "(string \<Rightarrow> string) \<Rightarrow> (string \<Rightarrow> string) \<Rightarrow> string \<Rightarrow> string" where
  "NormalizeTable lo tr t = toLower lo (trimSpace tr t)"

section \<open>Verbs\<close>

definition tableHasRowAccess :: "world \<Rightarrow> object \<Rightarrow> bool" where
  "tableHasRowAccess w ob =
     (if OTable ob = '''' then False
      else (case vTable (w []) (ONamespace ob) (OTable ob) of
              Inl _ \<Rightarrow> False | Inr (sc, _) \<Rightarrow> RowAccess sc = RowAccessOwn))"

definition authorizeVerbsOn ::
    "server \<Rightarrow> world \<Rightarrow> identity \<Rightarrow> string \<Rightarrow> change list option \<Rightarrow> authTarget \<Rightarrow> api_error + unit" where
  "authorizeVerbsOn srv w who op strict target =
     (if Principal who = AdminPrincipal then Inr ()
      else
        (case authRules op of
           None \<Rightarrow> Inl (NoRule op)
         | Some r \<Rightarrow>
             if Scope r = scopeNone then Inr ()
             else if \<not> hasGrants srv then Inl NoGrantRegistry
             else
               bindR (objectFor (Scope r) target) (\<lambda>ob.
               bindR (heldAt (later w 0) who ob) (\<lambda>held.
                 if AnyVerb r then (if HasAny held (Verbs r) then Inr () else Inl (Forbidden403 NoGrant))
                 else if \<not> HasAll held (Verbs r) then
                   (if OwnRows r \<and> HasAny held dataVerbs \<and> tableHasRowAccess (later w 1) ob then Inr ()
                    else if op = ''query'' then Inl (Forbidden403 QueryNeedsNamespace)
                    else Inl (Forbidden403 NoGrant))
                 else if op = ''migrate'' then
                   (if migrationReadsRows strict \<and> \<not> Has held VerbRead then Inl (Forbidden403 MigrationReads)
                    else if disablesRowAccess target \<and> \<not> Has held VerbAdmin then Inl (Forbidden403 MigrationWidens)
                    else Inr ())
                 else Inr ()))))"

definition authorizeReveal :: "server \<Rightarrow> world \<Rightarrow> identity \<Rightarrow> authTarget \<Rightarrow> api_error + unit" where
  "authorizeReveal srv w who t =
     (if tReveal t = [] then Inr ()
      else if Principal who = AdminPrincipal then Inl (Forbidden403 RevealAdminKey)
      else if \<not> hasGrants srv then Inl NoGrantRegistry
      else
        bindR (heldAt w who (tableOb (tNamespace t) (tTable t))) (\<lambda>held.
          if \<not> Has held VerbReveal then Inl (Forbidden403 RevealDenied) else Inr ()))"

section \<open>Constraints\<close>

definition requireRead :: "world \<Rightarrow> identity \<Rightarrow> object \<Rightarrow> forbidden \<Rightarrow> api_error + unit" where
  "requireRead w who ob message =
     bindR (heldAt w who ob) (\<lambda>held. if \<not> Has held VerbRead then Inl (Forbidden403 message) else Inr ())"

fun requireReads :: "world \<Rightarrow> identity \<Rightarrow> string \<Rightarrow> forbidden \<Rightarrow> nat \<Rightarrow> string list \<Rightarrow> api_error + unit" where
  "requireReads w who ns message i [] = Inr ()"
| "requireReads w who ns message i (target # targets) =
     bindR (requireRead (later w i) who (tableOb ns target) message) (\<lambda>_. requireReads w who ns message (Suc i) targets)"

definition referenceTargets :: "(string \<Rightarrow> string) \<Rightarrow> (string \<Rightarrow> string) \<Rightarrow> constraint list \<Rightarrow> string list" where
  "referenceTargets lo tr constraints =
     concat (map (\<lambda>c. if Kind c = ConstraintForeignKey then
         (case References c of None \<Rightarrow> [] | Some r \<Rightarrow> [NormalizeTable lo tr (RefTable r)]) else []) constraints)"

definition requireConstraintReads ::
    "(string \<Rightarrow> string) \<Rightarrow> (string \<Rightarrow> string) \<Rightarrow> world \<Rightarrow> identity \<Rightarrow> string \<Rightarrow> string \<Rightarrow> constraint list \<Rightarrow> string \<Rightarrow> api_error + unit" where
  "requireConstraintReads lo tr w who ns table constraints verb =
     (if constraints = [] then Inr ()
      else requireReads w who ns (ConstraintReads verb) 0 (table # referenceTargets lo tr constraints))"

definition declaredSchema :: "world \<Rightarrow> string \<Rightarrow> string \<Rightarrow> api_error + table_schema" where
  "declaredSchema w ns table =
     (case vTable (w []) ns table of Inl e \<Rightarrow> Inl (StoreError e) | Inr (sc, _) \<Rightarrow> Inr sc)"

definition declaredNamed :: "world \<Rightarrow> string \<Rightarrow> string \<Rightarrow> string \<Rightarrow> api_error + constraint list" where
  "declaredNamed w ns table name =
     bindR (declaredSchema w ns table) (\<lambda>sc.
       Inr (case find (\<lambda>c. CName c = name) (TConstraints sc) of None \<Rightarrow> [] | Some c \<Rightarrow> [c]))"

definition holdsTableWideRead :: "server \<Rightarrow> world \<Rightarrow> identity \<Rightarrow> string \<Rightarrow> string \<Rightarrow> api_error + bool" where
  "holdsTableWideRead srv w who ns table =
     (if \<not> authOn srv then Inr False
      else if Principal who = AdminPrincipal then Inr True
      else if \<not> hasGrants srv then Inl NoGrantRegistry
      else bindR (heldAt w who (tableOb ns table)) (\<lambda>held. Inr (Has held VerbRead)))"

text \<open>The table whose rows a declared constraint reads on this operation, unless it is skipped.\<close>

definition consulted :: "string \<Rightarrow> string \<Rightarrow> constraint \<Rightarrow> string option" where
  "consulted op table c =
     (if Kind c = ConstraintForeignKey then
        (if op = ''delete'' then None else map_option RefTable (References c))
      else Some table)"

fun writeReads :: "world \<Rightarrow> identity \<Rightarrow> string \<Rightarrow> string \<Rightarrow> string \<Rightarrow> bool \<Rightarrow> nat \<Rightarrow> constraint list \<Rightarrow> api_error + unit" where
  "writeReads w who op ns table own i [] = Inr ()"
| "writeReads w who op ns table own i (c # cs) =
     (case consulted op table c of
        None \<Rightarrow> writeReads w who op ns table own (Suc i) cs
      | Some target \<Rightarrow>
          bindR (heldAt (later w i) who (tableOb ns target)) (\<lambda>held.
            if Has held VerbRead \<or> own \<and> HasAny held dataVerbs then writeReads w who op ns table own (Suc i) cs
            else Inl (Forbidden403 (ConstraintReads ''the write verb''))))"

definition authorizeConstrainedWrite ::
    "server \<Rightarrow> world \<Rightarrow> identity \<Rightarrow> string \<Rightarrow> string \<Rightarrow> string \<Rightarrow> api_error + unit" where
  "authorizeConstrainedWrite srv w who op ns table =
     (if Principal who = AdminPrincipal \<or> \<not> hasGrants srv then Inr ()
      else
        bindR (declaredSchema (later w 0) ns table) (\<lambda>sc.
        bindR (if op = ''delete'' \<and> AcceptReferences sc
               then requireRead (later w 1) who (tableOb ns '''') (ParentRead ''delete'') else Inr ()) (\<lambda>_.
        bindR (if RowAccess sc = RowAccessOwn \<and> (op = ''update'' \<or> op = ''upsert'' \<or> op = ''upsert_by_key'')
               then bindR (holdsTableWideRead srv (later w 2) who ns table) (\<lambda>wide. Inr (\<not> wide))
               else Inr (RowAccess sc = RowAccessOwn)) (\<lambda>own.
          writeReads (later w 3) who op ns table own 0 (TConstraints sc)))))"

definition migrateChange ::
    "(string \<Rightarrow> string) \<Rightarrow> (string \<Rightarrow> string) \<Rightarrow> world \<Rightarrow> identity \<Rightarrow> string \<Rightarrow> string \<Rightarrow> change \<Rightarrow> api_error + unit" where
  "migrateChange lo tr w who ns table c =
     (if chOp c = OpSetAcceptReferences then
        requireRead (later w 0) who (tableOb ns '''') (ParentRead ''changing accept_references'')
      else if chOp c = OpSetRowAccess then
        bindR (declaredSchema (later w 0) ns table) (\<lambda>sc.
          if AcceptReferences sc
          then requireRead (later w 1) who (tableOb ns '''') (ParentRead ''changing row_access'') else Inr ())
      else if chOp c = OpAddConstraint then
        (case chConstraint c of
           None \<Rightarrow> Inr ()
         | Some k \<Rightarrow> requireConstraintReads lo tr (later w 0) who ns table [k] ''schema'')
      else if chOp c = OpDropConstraint then
        bindR (declaredNamed (later w 0) ns table (chName c)) (\<lambda>ks.
          requireConstraintReads lo tr (later w 1) who ns table ks ''schema'')
      else Inr ())"

fun migrateChanges ::
    "(string \<Rightarrow> string) \<Rightarrow> (string \<Rightarrow> string) \<Rightarrow> world \<Rightarrow> identity \<Rightarrow> string \<Rightarrow> string \<Rightarrow> nat \<Rightarrow> change list \<Rightarrow> api_error + unit" where
  "migrateChanges lo tr w who ns table i [] = Inr ()"
| "migrateChanges lo tr w who ns table i (c # cs) =
     bindR (migrateChange lo tr (later w i) who ns table c) (\<lambda>_. migrateChanges lo tr w who ns table (Suc i) cs)"

definition writeOps :: "string list" where
  "writeOps = [''insert'', ''import_records'', ''relate'', ''update'', ''upsert'', ''upsert_by_key'', ''delete'']"

definition authorizeConstraints ::
    "(string \<Rightarrow> string) \<Rightarrow> (string \<Rightarrow> string) \<Rightarrow> server \<Rightarrow> world \<Rightarrow> identity \<Rightarrow> string \<Rightarrow> request \<Rightarrow> api_error + unit" where
  "authorizeConstraints lo tr srv w who op req =
     (if Principal who = AdminPrincipal \<or> \<not> hasGrants srv \<or> tNamespace (rTarget req) = '''' then Inr ()
      else
        let ns = NormalizeNamespace lo tr (tNamespace (rTarget req)); table = NormalizeTable lo tr (tTable (rTarget req)) in
        if op = ''create_table'' then
          bindR (if rAccepts req then requireRead (later w 0) who (tableOb ns '''') (ParentRead ''create_table'') else Inr ()) (\<lambda>_.
            requireConstraintReads lo tr (later w 1) who ns table (rDeclared req) ''schema'')
        else if op = ''migrate'' then migrateChanges lo tr w who ns table 0 (rLenient req)
        else if op = ''drop_table'' then
          bindR (declaredSchema (later w 0) ns table) (\<lambda>sc.
            if AcceptReferences sc then requireRead (later w 1) who (tableOb ns '''') (ParentRead ''drop_table'') else Inr ())
        else if op \<in> set writeOps then authorizeConstrainedWrite srv w who op ns table
        else Inr ())"

section \<open>Operations\<close>

definition batchTarget :: "(string \<Rightarrow> string) \<Rightarrow> (string \<Rightarrow> string) \<Rightarrow> string \<Rightarrow> string \<Rightarrow> authTarget" where
  "batchTarget lo tr ns table =
     \<lparr>tNamespace = NormalizeNamespace lo tr ns, tTable = NormalizeTable lo tr table, tObject = None, tReveal = [],
      tChanges = []\<rparr>"

fun authorizeBatch ::
    "(string \<Rightarrow> string) \<Rightarrow> (string \<Rightarrow> string) \<Rightarrow> server \<Rightarrow> world \<Rightarrow> identity \<Rightarrow> string \<Rightarrow> nat \<Rightarrow> batch_write list \<Rightarrow> api_error + unit" where
  "authorizeBatch lo tr srv w who ns i [] = Inr ()"
| "authorizeBatch lo tr srv w who ns i (b # bs) =
     (if bwTable b = '''' then Inl (TableRequired i)
      else
        (case authorizeVerbsOn srv (later (later w i) 0) who (bwKind b) None (batchTarget lo tr ns (bwTable b)) of
           Inl e \<Rightarrow> Inl (Indexed i e)
         | Inr _ \<Rightarrow>
             (case authorizeConstrainedWrite srv (later (later w i) 1) who (bwKind b)
                     (NormalizeNamespace lo tr ns) (NormalizeTable lo tr (bwTable b)) of
                Inl e \<Rightarrow> Inl (Indexed i e)
              | Inr _ \<Rightarrow> authorizeBatch lo tr srv w who ns (Suc i) bs)))"

definition authorizeOp ::
    "(string \<Rightarrow> string) \<Rightarrow> (string \<Rightarrow> string) \<Rightarrow> server \<Rightarrow> world \<Rightarrow> identity \<Rightarrow> string \<Rightarrow> request \<Rightarrow> api_error + unit" where
  "authorizeOp lo tr srv w who op req =
     (if \<not> authOn srv then Inr ()
      else if op = ''batch'' then
        bindR (rBatch req) (\<lambda>(ns, writes). authorizeBatch lo tr srv w who ns 0 writes)
      else
        bindR (authorizeVerbsOn srv (later w 0) who op (rStrict req) (rTarget req)) (\<lambda>_.
        bindR (authorizeConstraints lo tr srv (later w 1) who op req) (\<lambda>_.
          if Reveal (ruleOr0 op) then authorizeReveal srv (later w 2) who (rTarget req) else Inr ())))"

definition ToolVisible :: "server \<Rightarrow> world \<Rightarrow> identity \<Rightarrow> string \<Rightarrow> bool" where
  "ToolVisible srv w who op =
     (if \<not> authOn srv \<or> Scope (ruleOr0 op) \<noteq> scopeRoot then True
      else if Principal who = AdminPrincipal then True
      else if \<not> hasGrants srv then False
      else (case heldAt w who rootOb of Inl _ \<Rightarrow> True | Inr held \<Rightarrow> Has held VerbAdmin))"

section \<open>Row scopes\<close>

record row_scope =
  ScopeOwner :: string
  ScopeEmpty :: bool

definition resolveScopeState ::
    "server \<Rightarrow> world \<Rightarrow> identity \<Rightarrow> string \<Rightarrow> string
       \<Rightarrow> api_error + row_scope option \<times> incarnation \<times> table_schema option" where
  "resolveScopeState srv w who ns table =
     (if \<not> authOn srv then Inr (None, noIncarnation, None)
      else
        (case vTable (later w 0 []) ns table of
           Inl ErrNotFound \<Rightarrow> Inr (None, noIncarnation, None)
         | Inl e \<Rightarrow> Inl (StoreError e)
         | Inr (sc, inc) \<Rightarrow>
             if Principal who = AdminPrincipal then Inr (None, noIncarnation, Some sc)
             else if \<not> hasGrants srv then Inl NoGrantRegistry
             else
               bindR (heldAt (later w 1) who (tableOb ns table)) (\<lambda>held.
                 if RowAccess sc \<noteq> RowAccessOwn then
                   (if Has held VerbRead \<or> HasAny held dataVerbs then Inr (None, inc, Some sc)
                    else Inr (Some \<lparr>ScopeOwner = '''', ScopeEmpty = True\<rparr>, inc, Some sc))
                 else if Has held VerbRead then Inr (None, inc, Some sc)
                 else if HasAny held dataVerbs then
                   Inr (Some \<lparr>ScopeOwner = Principal who, ScopeEmpty = False\<rparr>, inc, Some sc)
                 else Inr (Some \<lparr>ScopeOwner = '''', ScopeEmpty = True\<rparr>, inc, Some sc))))"

definition resolveScope ::
    "server \<Rightarrow> world \<Rightarrow> identity \<Rightarrow> string \<Rightarrow> string \<Rightarrow> api_error + row_scope option \<times> incarnation" where
  "resolveScope srv w who ns table =
     bindR (resolveScopeState srv w who ns table) (\<lambda>(scope, inc, _). Inr (scope, inc))"

fun resolveBatchScopes ::
    "(string \<Rightarrow> string) \<Rightarrow> (string \<Rightarrow> string) \<Rightarrow> server \<Rightarrow> world \<Rightarrow> identity \<Rightarrow> string \<Rightarrow> nat \<Rightarrow> batch_write list
       \<Rightarrow> api_error + (row_scope option \<times> incarnation) list" where
  "resolveBatchScopes lo tr srv w who ns i [] = Inr []"
| "resolveBatchScopes lo tr srv w who ns i (b # bs) =
     (case resolveScope srv (later w i) who ns (NormalizeTable lo tr (bwTable b)) of
        Inl e \<Rightarrow> Inl (Indexed i e)
      | Inr s \<Rightarrow> bindR (resolveBatchScopes lo tr srv w who ns (Suc i) bs) (\<lambda>ss. Inr (s # ss)))"

definition writeOwner :: "server \<Rightarrow> identity \<Rightarrow> string" where
  "writeOwner srv who = (if \<not> authOn srv then '''' else Principal who)"

section \<open>Listings and feeds\<close>

definition namespaceVisible :: "string \<Rightarrow> string set \<Rightarrow> bool" where
  "namespaceVisible ns granted \<longleftrightarrow>
     (\<exists>g\<in>granted. g = ns \<or> hasPrefix ns (g @ ''/'') \<or> hasPrefix g (ns @ ''/''))"

definition grantedNamespaces :: "world \<Rightarrow> identity \<Rightarrow> api_error + string set" where
  "grantedNamespaces w who =
     (case NamespacesWithAnyGrant (vFault (w [])) (vRegistry (w [])) who of
        Inl e \<Rightarrow> Inl (RegistryError e) | Inr g \<Rightarrow> Inr g)"

definition visibleNamespaces :: "server \<Rightarrow> world \<Rightarrow> identity \<Rightarrow> string list \<Rightarrow> api_error + string list" where
  "visibleNamespaces srv w who nss =
     (if \<not> authOn srv \<or> Principal who = AdminPrincipal then Inr nss
      else if \<not> hasGrants srv then Inl NoGrantRegistry
      else
        bindR (grantedNamespaces w who) (\<lambda>granted.
          if RootObject \<in> granted then Inr nss else Inr (filter (\<lambda>ns. namespaceVisible ns granted) nss)))"

definition requireNamespaceVisible :: "server \<Rightarrow> world \<Rightarrow> identity \<Rightarrow> string \<Rightarrow> api_error + unit" where
  "requireNamespaceVisible srv w who ns =
     (if \<not> authOn srv \<or> Principal who = AdminPrincipal then Inr ()
      else if \<not> hasGrants srv then Inl NoGrantRegistry
      else
        bindR (grantedNamespaces w who) (\<lambda>granted.
          if RootObject \<in> granted \<or> namespaceVisible ns granted then Inr () else Inl (NamespaceMissing ns)))"

fun grantedTables :: "world \<Rightarrow> identity \<Rightarrow> string \<Rightarrow> nat \<Rightarrow> string list \<Rightarrow> api_error + string list" where
  "grantedTables w who ns i [] = Inr []"
| "grantedTables w who ns i (t # ts) =
     bindR (heldAt (later w i) who (tableOb ns t)) (\<lambda>verbs.
     bindR (grantedTables w who ns (Suc i) ts) (\<lambda>out. Inr (if \<not> Empty verbs then t # out else out)))"

definition visibleTables :: "server \<Rightarrow> world \<Rightarrow> identity \<Rightarrow> string \<Rightarrow> string list \<Rightarrow> api_error + string list" where
  "visibleTables srv w who ns tables =
     (if \<not> authOn srv \<or> Principal who = AdminPrincipal then Inr tables
      else if \<not> hasGrants srv then Inl NoGrantRegistry
      else
        bindR (heldAt (later w 0) who (tableOb ns '''')) (\<lambda>nsVerbs.
          if \<not> Empty nsVerbs then Inr tables else grantedTables (later w 1) who ns 0 tables))"

definition authorizeFeed ::
    "(string \<Rightarrow> string) \<Rightarrow> (string \<Rightarrow> string) \<Rightarrow> server \<Rightarrow> world \<Rightarrow> identity \<Rightarrow> string \<Rightarrow> string \<Rightarrow> api_error + unit" where
  "authorizeFeed lo tr srv w who ns table =
     (if \<not> authOn srv \<or> Principal who = AdminPrincipal then Inr ()
      else if \<not> hasGrants srv then Inl NoGrantRegistry
      else
        let ob = tableOb (NormalizeNamespace lo tr ns) table in
        bindR (heldAt (later w 0) who ob) (\<lambda>verbs.
          if Has verbs VerbRead then Inr ()
          else if table \<noteq> '''' \<and> HasAny verbs dataVerbs \<and> tableHasRowAccess (later w 1) ob then Inr ()
          else Inl (Forbidden403 NoGrant)))"

text \<open>
  The check a running feed repeats: \<open>authenticated\<close> is the outcome of authenticating its
  request again. \<open>None\<close> closes the feed.
\<close>

definition liveAuthz ::
    "(string \<Rightarrow> string) \<Rightarrow> (string \<Rightarrow> string) \<Rightarrow> server \<Rightarrow> world \<Rightarrow> ('e + identity) \<Rightarrow> string \<Rightarrow> string
       \<Rightarrow> (row_scope option \<times> incarnation) option" where
  "liveAuthz lo tr srv w authenticated ns table =
     (case authenticated of
        Inl _ \<Rightarrow> None
      | Inr who \<Rightarrow>
          (case authorizeFeed lo tr srv (later w 0) who ns table of
             Inl _ \<Rightarrow> None
           | Inr _ \<Rightarrow>
               if table = '''' then Some (None, noIncarnation)
               else (case resolveScope srv (later w 1) who ns table of Inl _ \<Rightarrow> None | Inr s \<Rightarrow> Some s)))"

section \<open>Grants and objects\<close>

definition requireGrantableObject :: "world \<Rightarrow> object \<Rightarrow> api_error + unit" where
  "requireGrantableObject w ob =
     (if Root ob then Inr ()
      else if OTable ob = '''' then
        (case vNamespace (w []) (ONamespace ob) of
           Inl ErrNotFound \<Rightarrow> Inl (NothingToGrantOn (ONamespace ob) '''')
         | Inl e \<Rightarrow> Inl (StoreError e)
         | Inr _ \<Rightarrow> Inr ())
      else
        (case vTable (w []) (ONamespace ob) (OTable ob) of
           Inl ErrNotFound \<Rightarrow> Inl (NothingToGrantOn (ONamespace ob) (OTable ob))
         | Inl e \<Rightarrow> Inl (StoreError e)
         | Inr _ \<Rightarrow> Inr ()))"

definition dropNamespaceGrants ::
    "(string \<Rightarrow> string \<Rightarrow> bool) \<Rightarrow> server \<Rightarrow> string option \<Rightarrow> registry \<Rightarrow> string \<Rightarrow> (auth_error + unit) \<times> registry" where
  "dropNamespaceGrants like srv flt reg ns =
     (if \<not> hasGrants srv then (Inr (), reg) else DropNamespace like flt reg ns)"

definition dropTableGrants ::
    "server \<Rightarrow> string option \<Rightarrow> registry \<Rightarrow> string \<Rightarrow> string \<Rightarrow> (auth_error + unit) \<times> registry" where
  "dropTableGrants srv flt reg ns table =
     (if \<not> hasGrants srv then (Inr (), reg) else DropTable flt reg ns table)"

end
