(* ===== verification/Api_Authz_Props.thy ===== *)
theory Api_Authz_Props
  imports Api_Authz
begin

text \<open>
  What authorization decides. The rules of the operations are restated as a matrix over the
  grants a caller holds, and the check is proved to decide exactly that matrix; revealing a
  secret and every write of a batch are guarded; checking the names as the caller wrote them
  never gives more than the names the operation acts on; a caller without \<^verbatim>\<open>read\<close> reaches only its own
  rows of a table with row access; and listings show what the grants allow.
\<close>

section \<open>Verbs a caller holds\<close>

text \<open>Some grant of one of the caller's subjects on an object that covers \<open>ob\<close> gives the verb.\<close>

definition holds :: "view \<Rightarrow> identity \<Rightarrow> object \<Rightarrow> verb \<Rightarrow> bool" where
  "holds v who ob verb \<longleftrightarrow>
     (\<exists>s\<in>set (subjectsFor who). \<exists>ob'. covers ob' ob \<and> verb \<in> perm (vRegistry v) s ob')"

lemma heldAt_Inr:
  "heldAt w who ob = Inr held \<Longrightarrow> vFault (w []) = None \<and> (\<forall>v. Has held v \<longleftrightarrow> holds (w []) who ob v)"
  using effective_verbs [of "vRegistry (w [])" who ob]
  by (cases "vFault (w [])") (auto simp: heldAt_def holds_def EffectiveVerbs_def call_def Let_def)

lemma heldAt_ok:
  assumes "vFault (w []) = None"
  obtains held where "heldAt w who ob = Inr held" "\<And>v. Has held v \<longleftrightarrow> holds (w []) who ob v"
proof -
  from effective_verbs [of "vRegistry (w [])" who ob] obtain held where
    "EffectiveVerbs None (vRegistry (w [])) who ob = Inr held" by blast
  then have "heldAt w who ob = Inr held" using assms by (simp add: heldAt_def)
  then show thesis using that heldAt_Inr [OF \<open>heldAt w who ob = Inr held\<close>] by blast
qed

lemma heldAt_fault: "vFault (w []) = Some e \<Longrightarrow> heldAt w who ob = Inl (RegistryError (DriverError e))"
  by (simp add: heldAt_def EffectiveVerbs_def call_def Let_def)

lemma later_Nil [simp]: "later w i [] = w [i]"
  by (simp add: later_def)

section \<open>The matrix of operations\<close>

definition named :: "authTarget \<Rightarrow> bool" where
  "named t \<longleftrightarrow> tNamespace t \<noteq> ''''"

definition openOps :: "string list" where
  "openOps = [''capabilities'', ''describe_server'', ''infer_schema'', ''find_path'', ''subgraph'', ''search_graph'',
     ''neighbors'', ''list_namespaces'', ''list_tables'', ''whoami'']"

text \<open>
  Who may run an operation, by the object it is checked on: \<open>G\<close> says which verbs the caller
  holds there, \<open>own\<close> whether the table shows every caller its own rows.
\<close>

definition allowed ::
    "(object \<Rightarrow> verb \<Rightarrow> bool) \<Rightarrow> bool \<Rightarrow> string \<Rightarrow> change list option \<Rightarrow> authTarget \<Rightarrow> bool" where
  "allowed G own op strict t =
     (let ns = tableOb (tNamespace t) ''''; table = tableOb (tNamespace t) (tTable t);
          administered = (case tObject t of None \<Rightarrow> rootOb | Some ob \<Rightarrow> ob) in
      if op \<in> set [''create_key'', ''list_keys'', ''revoke_key'', ''rotate_signing_key'', ''rotate_secret_key''] then G rootOb ''admin''
      else if op \<in> set [''grant'', ''revoke'', ''list_grants''] then G administered ''admin''
      else named t \<and>
       (if op = ''create_namespace'' then G (parentNamespace (tNamespace t)) ''admin''
        else if op \<in> set [''drop_namespace'', ''vacuum'', ''batch''] then G ns ''admin''
        else if op = ''create_table'' then G ns ''schema''
        else if op = ''query'' then G ns ''read''
        else if op \<in> set [''describe_table'', ''tokenize''] then
          list_ex (G table) [''create'', ''read'', ''update'', ''delete'', ''schema'', ''admin'', ''reveal'']
        else if op = ''drop_table'' then G table ''schema'' \<and> G table ''admin''
        else if op = ''list_migrations'' then G table ''schema''
        else if op = ''migrate'' then
          G table ''schema'' \<and> (migrationReadsRows strict \<longrightarrow> G table ''read'') \<and> (disablesRowAccess t \<longrightarrow> G table ''admin'')
        else if op \<in> set [''insert'', ''relate''] then G table ''create''
        else if op = ''import_records'' then G table ''admin'' \<and> G table ''create''
        else if op = ''update'' then G table ''update''
        else if op = ''delete'' then G table ''delete''
        else if op \<in> set [''upsert'', ''upsert_by_key''] then G table ''create'' \<and> G table ''update''
        else if op \<in> set [''read_rows'', ''file_url'', ''search_fulltext'', ''search_vector'', ''changes_since'', ''wait_for''] then
          G table ''read'' \<or> own \<and> (G table ''create'' \<or> G table ''update'' \<or> G table ''delete'')
        else False))"

text \<open>The same decision read off a rule.\<close>

definition ruleAllows ::
    "(object \<Rightarrow> verb \<Rightarrow> bool) \<Rightarrow> (object \<Rightarrow> bool) \<Rightarrow> string \<Rightarrow> change list option \<Rightarrow> authTarget \<Rightarrow> authRule \<Rightarrow> bool" where
  "ruleAllows G own op strict t r \<longleftrightarrow>
     (\<exists>ob. objectFor (Scope r) t = Inr ob \<and>
       (if AnyVerb r then list_ex (G ob) (Verbs r)
        else if list_all (G ob) (Verbs r) then
          op = ''migrate'' \<longrightarrow> (migrationReadsRows strict \<longrightarrow> G ob ''read'') \<and> (disablesRowAccess t \<longrightarrow> G ob ''admin'')
        else OwnRows r \<and> list_ex (G ob) dataVerbs \<and> own ob))"

lemma authorizeVerbsOn_rule:
  assumes "Principal who \<noteq> AdminPrincipal" "authRules op = Some r" "Scope r \<noteq> scopeNone"
  shows "authorizeVerbsOn srv w who op strict t = Inr () \<longleftrightarrow>
    hasGrants srv \<and> vFault (w [0]) = None \<and>
    ruleAllows (holds (w [0]) who) (tableHasRowAccess (later w 1)) op strict t r"
proof (cases "vFault (w [0])")
  case (Some e)
  then have "heldAt (later w 0) who ob = Inl (RegistryError (DriverError e))" for ob by (simp add: heldAt_fault)
  with assms Some show ?thesis by (auto simp: authorizeVerbsOn_def bindR_def split: sum.splits)
next
  case None
  show ?thesis
  proof (cases "objectFor (Scope r) t")
    case (Inl e)
    with assms show ?thesis by (simp add: authorizeVerbsOn_def ruleAllows_def)
  next
    case (Inr ob)
    from None obtain held where h: "heldAt (later w 0) who ob = Inr held" "\<And>v. Has held v \<longleftrightarrow> holds (w [0]) who ob v"
      by (metis heldAt_ok later_Nil)
    have all: "HasAll held vs \<longleftrightarrow> list_all (holds (w [0]) who ob) vs" "HasAny held vs \<longleftrightarrow> list_ex (holds (w [0]) who ob) vs" for vs
      by (simp_all add: HasAll_def HasAny_def h(2) list_all_iff list_ex_iff)
    show ?thesis using assms None Inr h
      by (simp add: authorizeVerbsOn_def ruleAllows_def all VerbRead_def VerbAdmin_def)
  qed
qed

lemma rule_simps [simp]:
  "Scope (rule s vs) = s" "Verbs (rule s vs) = vs" "\<not> AnyVerb (rule s vs)" "\<not> OwnRows (rule s vs)" "\<not> Reveal (rule s vs)"
  by (simp_all add: rule_def)

lemma rules_listed: "authRules op = Some r \<Longrightarrow> (op, r) \<in> set authRuleList"
  unfolding authRules_def by (rule map_of_SomeD)

lemma rules_open: "list_all (\<lambda>(op, r). Scope r = scopeNone \<longleftrightarrow> op \<in> set openOps) authRuleList"
  by (simp add: authRuleList_def openOps_def)

lemmas verb_texts = VerbOrder_def dataVerbs_def verb_names

lemma rules_allowed:
  "list_all (\<lambda>(op, r). Scope r \<noteq> scopeNone \<longrightarrow>
     ruleAllows G own op strict t r = allowed G (own (tableOb (tNamespace t) (tTable t))) op strict t) authRuleList"
  unfolding authRuleList_def list.pred_inject
  by (intro conjI; simp add: ruleAllows_def allowed_def objectFor_def named_def Let_def verb_texts split: option.split; blast?)

lemma unknown_op: "authRules op = None \<Longrightarrow> \<not> allowed G own op strict t \<and> op \<notin> set openOps"
  unfolding authRules_def map_of_eq_None_iff by (simp add: authRuleList_def allowed_def openOps_def)

lemma authorizeVerbsOn_iff:
  "authorizeVerbsOn srv w who op strict t = Inr () \<longleftrightarrow>
     Principal who = AdminPrincipal \<or> op \<in> set openOps \<or>
     (hasGrants srv \<and> vFault (w [0]) = None \<and>
      allowed (holds (w [0]) who) (tableHasRowAccess (later w 1) (tableOb (tNamespace t) (tTable t))) op strict t)"
proof (cases "Principal who = AdminPrincipal")
  case False
  show ?thesis
  proof (cases "authRules op")
    case None
    with False unknown_op show ?thesis by (simp add: authorizeVerbsOn_def)
  next
    case (Some r)
    note l = rules_listed [OF Some]
    have o: "Scope r = scopeNone \<longleftrightarrow> op \<in> set openOps" using rules_open l by (auto simp: list_all_iff)
    show ?thesis
    proof (cases "Scope r = scopeNone")
      case True
      with False Some o show ?thesis by (simp add: authorizeVerbsOn_def)
    next
      case s: False
      from rules_allowed l s have "ruleAllows G own op strict t r = allowed G (own (tableOb (tNamespace t) (tTable t))) op strict t"
        for G own by (fastforce simp: list_all_iff)
      with authorizeVerbsOn_rule [OF False Some s] False o s show ?thesis by simp
    qed
  qed
qed (simp add: authorizeVerbsOn_def)

text \<open>
  C2. The verb check decides exactly the matrix of operations: the bootstrap principal and the
  open operations always pass; everything else needs a grant registry that answers, and
  passes exactly when stored grants of the caller give the verbs its row of the matrix asks
  for on the object it is checked on. An operation without a row never passes.
\<close>

theorem authorization_matrix:
  "authorizeVerbsOn srv w who op strict t = Inr () \<longleftrightarrow>
     Principal who = AdminPrincipal \<or> op \<in> set openOps \<or>
     (hasGrants srv \<and> vFault (w [0]) = None \<and>
      allowed (holds (w [0]) who) (tableHasRowAccess (later w 1) (tableOb (tNamespace t) (tTable t))) op strict t)"
  by (rule authorizeVerbsOn_iff)

section \<open>A sample world\<close>

definition oneGrant :: "string \<Rightarrow> string \<Rightarrow> verb list \<Rightarrow> registry" where
  "oneGrant ns table verbs =
     \<lparr>grants_tbl = [\<lparr>g_subject_type = ''principal'', g_subject_id = ''ann'', g_namespace = ns, g_table = table,
        g_verbs = uint (NewVerbSet verbs), g_created = Instant 0\<rparr>], keys_tbl = []\<rparr>"

definition ann :: identity where
  "ann = \<lparr>Principal = ''ann'', Groups = [], Source = ''key''\<rparr>"

definition notesSchema :: table_schema where
  "notesSchema = \<lparr>TName = ''notes'', TFields = [], RowAccess = ''own'', HasOwner = True, TConstraints = [],
     AcceptReferences = False, TRelation = None\<rparr>"

definition still :: "registry \<Rightarrow> world" where
  "still reg = (\<lambda>_. \<lparr>vFault = None, vRegistry = reg, vTable = (\<lambda>_ _. Inr (notesSchema, noIncarnation)), vNamespace = (\<lambda>_. Inr ())\<rparr>)"

definition guardedServer :: server where
  "guardedServer = \<lparr>authOn = True, hasGrants = True\<rparr>"

definition askFor :: "string list \<Rightarrow> (string \<times> batch_write list) \<Rightarrow> request" where
  "askFor reveal batch = \<lparr>rTarget = \<lparr>tNamespace = ''acme'', tTable = ''notes'', tObject = None, tReveal = reveal, tChanges = []\<rparr>,
     rStrict = None, rLenient = [], rAccepts = False, rDeclared = [], rBatch = Inr batch\<rparr>"

lemma oneGrant_holds:
  "(\<exists>v. holds (still (oneGrant ns table verbs) p) ann ob v)
     \<Longrightarrow> covers \<lparr>ONamespace = ns, OTable = table\<rparr> ob"
  by (auto simp: holds_def still_def perm_def oneGrant_def at_key_def row_object_def)

lemma still_Cons [simp]: "still reg (i # p) = still reg []"
  by (simp add: still_def)

lemma still_later [simp]: "later (still reg) i = still reg"
  by (simp add: later_def still_def)

section \<open>Reading what a write is checked against\<close>

definition readable :: "world \<Rightarrow> identity \<Rightarrow> bool \<Rightarrow> object \<Rightarrow> bool" where
  "readable w who own ob \<longleftrightarrow>
     (\<exists>p. holds (w p) who ob ''read'' \<or> own \<and> list_ex (holds (w p) who ob) dataVerbs)"

definition writeGuarded :: "world \<Rightarrow> identity \<Rightarrow> string \<Rightarrow> string \<Rightarrow> string \<Rightarrow> bool" where
  "writeGuarded w who op ns table \<longleftrightarrow>
     (\<exists>sc inc. vTable (w [0]) ns table = Inr (sc, inc)
        \<and> (op = ''delete'' \<and> AcceptReferences sc \<longrightarrow> holds (w [1]) who (tableOb ns '''') ''read'')
        \<and> (\<forall>c\<in>set (TConstraints sc). \<forall>target. consulted op table c = Some target \<longrightarrow>
             readable (later w 3) who (RowAccess sc = RowAccessOwn) (tableOb ns target)))"

lemma requireRead_holds: "requireRead w who ob message = Inr () \<Longrightarrow> holds (w []) who ob ''read''"
  using heldAt_Inr by (fastforce simp: requireRead_def VerbRead_def split: if_splits)

lemma writeReads_readable:
  assumes "writeReads w who op ns table own i cs = Inr ()" "c \<in> set cs" "consulted op table c = Some target"
  shows "readable w who own (tableOb ns target)"
  using assms
proof (induction cs arbitrary: i)
  case (Cons d cs)
  show ?case
  proof (cases "c = d")
    case True
    with Cons.prems obtain held where h: "heldAt (later w i) who (tableOb ns target) = Inr held"
      "Has held VerbRead \<or> own \<and> HasAny held dataVerbs" by (auto split: if_splits)
    then show ?thesis using heldAt_Inr [OF h(1)]
      by (auto simp: readable_def HasAny_def list_ex_iff VerbRead_def intro!: exI [of _ "[i]"])
  next
    case False
    with Cons.prems have "\<exists>k. writeReads w who op ns table own k cs = Inr ()" by (auto split: option.splits if_splits)
    with False Cons show ?thesis by auto
  qed
qed simp

lemma readable_mono: "readable w who own ob \<Longrightarrow> (own \<Longrightarrow> own') \<Longrightarrow> readable w who own' ob"
  unfolding readable_def by blast

lemma authorizeConstrainedWrite_guarded:
  assumes "authorizeConstrainedWrite srv w who op ns table = Inr ()" "Principal who \<noteq> AdminPrincipal" "hasGrants srv"
  shows "writeGuarded w who op ns table"
proof -
  let ?own = "\<lambda>sc. if RowAccess sc = RowAccessOwn \<and> (op = ''update'' \<or> op = ''upsert'' \<or> op = ''upsert_by_key'')
               then bindR (holdsTableWideRead srv (later w 2) who ns table) (\<lambda>wide. Inr (\<not> wide))
               else Inr (RowAccess sc = RowAccessOwn)"
  have "\<exists>sc u own. declaredSchema (later w 0) ns table = Inr sc
    \<and> (if op = ''delete'' \<and> AcceptReferences sc
         then requireRead (later w 1) who (tableOb ns '''') (ParentRead ''delete'') else Inr ()) = Inr u
    \<and> ?own sc = Inr own \<and> writeReads (later w 3) who op ns table own 0 (TConstraints sc) = Inr ()"
    using assms unfolding authorizeConstrainedWrite_def by (simp only: bindR_Inr_iff simp_thms if_False) blast
  then obtain sc own where sc: "declaredSchema (later w 0) ns table = Inr sc"
    and del: "(if op = ''delete'' \<and> AcceptReferences sc
         then requireRead (later w 1) who (tableOb ns '''') (ParentRead ''delete'') else Inr ()) = Inr ()"
    and o: "?own sc = Inr own" and reads: "writeReads (later w 3) who op ns table own 0 (TConstraints sc) = Inr ()"
    by auto
  from o have own: "own \<Longrightarrow> RowAccess sc = RowAccessOwn" by (auto split: if_splits)
  from sc obtain inc where inc: "vTable (w [0]) ns table = Inr (sc, inc)"
    by (auto simp: declaredSchema_def split: sum.splits)
  have "holds (w [1]) who (tableOb ns '''') ''read''" if "op = ''delete'' \<and> AcceptReferences sc"
    using del requireRead_holds [of "later w 1"] that by (simp split: if_splits)
  moreover have "readable (later w 3) who (RowAccess sc = RowAccessOwn) (tableOb ns target)"
    if "c \<in> set (TConstraints sc)" "consulted op table c = Some target" for c target
    using readable_mono [OF writeReads_readable [OF reads that] own] .
  ultimately show ?thesis unfolding writeGuarded_def using inc by blast
qed

lemma authorizeBatch_nth:
  assumes "authorizeBatch lo tr srv w who ns k bs = Inr ()" "j < length bs"
  shows "bwTable (bs ! j) \<noteq> ''''
    \<and> authorizeVerbsOn srv (later (later w (k + j)) 0) who (bwKind (bs ! j)) None (batchTarget lo tr ns (bwTable (bs ! j))) = Inr ()
    \<and> authorizeConstrainedWrite srv (later (later w (k + j)) 1) who (bwKind (bs ! j))
        (NormalizeNamespace lo tr ns) (NormalizeTable lo tr (bwTable (bs ! j))) = Inr ()"
  using assms
proof (induction bs arbitrary: k j)
  case (Cons b bs)
  have rest: "authorizeBatch lo tr srv w who ns (Suc k) bs = Inr ()" using Cons.prems(1) by (auto split: if_splits sum.splits)
  show ?case
  proof (cases j)
    case 0
    with Cons.prems(1) show ?thesis by (auto split: if_splits sum.splits)
  next
    case (Suc i)
    with Cons.IH [OF rest, of i] Cons.prems(2) show ?thesis by simp
  qed
qed simp



section \<open>Revealing secrets\<close>

text \<open>
  C30. Asking for secrets in clear passes only for a caller that is not the bootstrap
  principal, holds \<^verbatim>\<open>reveal\<close> on the table, and passes the row of the matrix of its read: holding
  \<^verbatim>\<open>reveal\<close> alone opens nothing.
\<close>

theorem reveal_guarded:
  assumes "authOn srv" "authorizeOp lo tr srv w who op req = Inr ()" "t = rTarget req"
    and "op \<in> set [''read_rows'', ''search_fulltext'', ''search_vector'']" "tReveal t \<noteq> []"
  shows "Principal who \<noteq> AdminPrincipal \<and> holds (w [2]) who (tableOb (tNamespace t) (tTable t)) ''reveal''
    \<and> allowed (holds (w [0, 0]) who) (tableHasRowAccess (later (later w 0) 1) (tableOb (tNamespace t) (tTable t))) op (rStrict req) t"
proof -
  have op: "op \<noteq> ''batch''" "Reveal (ruleOr0 op)" "op \<notin> set openOps"
    using assms(4) by (auto simp: ruleOr0_def authRules_def authRuleList_def openOps_def)
  then have a: "authorizeVerbsOn srv (later w 0) who op (rStrict req) t = Inr ()" "authorizeReveal srv (later w 2) who t = Inr ()"
    using assms(1-3) by (simp_all add: authorizeOp_def)
  from a(2) assms(5) obtain held where h: "Principal who \<noteq> AdminPrincipal"
    "heldAt (later w 2) who (tableOb (tNamespace t) (tTable t)) = Inr held" "Has held VerbReveal"
    by (auto simp: authorizeReveal_def split: if_splits)
  have "holds (w [2]) who (tableOb (tNamespace t) (tTable t)) ''reveal''"
    using heldAt_Inr [OF h(2)] h(3) by (simp add: VerbReveal_def)
  moreover have "allowed (holds (later w 0 [0]) who) (tableHasRowAccess (later (later w 0) 1) (tableOb (tNamespace t) (tTable t)))
      op (rStrict req) t"
    using a(1) h(1) op(3) unfolding authorizeVerbsOn_iff by blast
  ultimately show ?thesis using h(1) by (simp add: later_def)
qed

theorem reveal_guarded_witness:
  "holds (still (oneGrant ''acme'' '''' [''read'', ''reveal'']) [2]) ann (tableOb ''acme'' ''notes'') ''reveal''"
proof -
  let ?w = "still (oneGrant ''acme'' '''' [''read'', ''reveal''])" and ?req = "askFor [''pin''] ('''', [])"
  have "authorizeOp id id guardedServer ?w ann ''read_rows'' ?req = Inr ()" by code_simp
  from reveal_guarded [OF _ this refl] show ?thesis by (simp add: guardedServer_def askFor_def)
qed

section \<open>Names as written and names acted on\<close>

definition normalGrants :: "(string \<Rightarrow> string) \<Rightarrow> (string \<Rightarrow> string) \<Rightarrow> registry \<Rightarrow> bool" where
  "normalGrants lo tr reg \<longleftrightarrow>
     (\<forall>r\<in>set (grants_tbl reg). NormalizeNamespace lo tr (g_namespace r) = g_namespace r
        \<and> NormalizeTable lo tr (g_table r) = g_table r)"

lemma NormalizeNamespace_append:
  "NormalizeNamespace lo tr (p @ CHR ''/'' # s) = NormalizeNamespace lo tr p @ CHR ''/'' # NormalizeNamespace lo tr s"
  by (simp add: NormalizeNamespace_def splitOn_append_sep joinWith_append)

lemma normalize_slash: "CHR ''/'' \<in> set ns \<Longrightarrow> NormalizeNamespace lo tr ns \<noteq> RootObject"
  by (auto simp: in_set_conv_decomp NormalizeNamespace_append RootObject_def append_eq_Cons_conv)

lemma covers_normal:
  assumes "covers a (tableOb ns table)" "NormalizeNamespace lo tr (ONamespace a) = ONamespace a"
    "NormalizeTable lo tr (OTable a) = OTable a"
  shows "covers a (tableOb (NormalizeNamespace lo tr ns) (NormalizeTable lo tr table))"
proof (cases "a = root_object")
  case False
  with assms(1) have root: "ns \<noteq> RootObject" by (simp add: covers_def Root_def tableOb_def)
  from assms(1) False consider (same) "ONamespace a = ns" "OTable a = '''' \<or> OTable a = table"
    | (above) "OTable a = ''''" "hasPrefix ns (ONamespace a @ ''/'')" by (auto simp: covers_def tableOb_def)
  then show ?thesis
  proof cases
    case same
    then have "NormalizeNamespace lo tr ns = ns" using assms(2) by simp
    with same assms(3) root show ?thesis by (cases a) (auto simp: covers_def Root_def tableOb_def)
  next
    case above
    then obtain s where s: "ns = ONamespace a @ CHR ''/'' # s"
      by (metis append_Cons append_Nil append_assoc append_take_drop_id hasPrefix_def)
    have "NormalizeNamespace lo tr ns = ONamespace a @ CHR ''/'' # NormalizeNamespace lo tr s"
      unfolding s NormalizeNamespace_append assms(2) ..
    moreover have "NormalizeNamespace lo tr ns \<noteq> RootObject" using normalize_slash [of ns] s by simp
    ultimately show ?thesis using above(1) by (auto simp: covers_def Root_def tableOb_def hasPrefix_def)
  qed
qed (simp add: covers_def)

lemma holds_normal:
  assumes "normalGrants lo tr (vRegistry v)" "holds v who (tableOb ns table) verb"
  shows "holds v who (tableOb (NormalizeNamespace lo tr ns) (NormalizeTable lo tr table)) verb"
proof -
  obtain s a where s: "s \<in> set (subjectsFor who)" "covers a (tableOb ns table)" "verb \<in> perm (vRegistry v) s a"
    using assms(2) by (auto simp: holds_def)
  then obtain r where r: "r \<in> set (grants_tbl (vRegistry v))" "row_object r = a" by (auto simp: perm_def at_key_def)
  then have "NormalizeNamespace lo tr (ONamespace a) = ONamespace a" "NormalizeTable lo tr (OTable a) = OTable a"
    using assms(1) by (auto simp: normalGrants_def row_object_def)
  from covers_normal [OF s(2) this] s(1,3) show ?thesis by (auto simp: holds_def)
qed

definition noSlash :: "(string \<Rightarrow> string) \<Rightarrow> bool" where
  "noSlash f \<longleftrightarrow> (\<forall>s. CHR ''/'' \<notin> set s \<longrightarrow> CHR ''/'' \<notin> set (f s))"

lemma lower_slash: "asciiLower c = CHR ''/'' \<Longrightarrow> c = CHR ''/''"
proof (rule ccontr)
  assume a: "asciiLower c = CHR ''/''" and "c \<noteq> CHR ''/''"
  then have u: "isUpper c" by (auto simp: asciiLower_def split: if_splits)
  then have "byte (asciiLower c) = byte c + 32" by (simp add: asciiLower_def isUpper_def)
  with a u show False by (simp add: isUpper_def)
qed

lemma trimASCII_subset: "set (trimASCII s) \<subseteq> set s"
  unfolding trimASCII_def by (auto dest!: set_dropWhileD)

lemma if_mono: "(if c then A else B) \<Longrightarrow> (A \<Longrightarrow> A') \<Longrightarrow> (B \<Longrightarrow> B') \<Longrightarrow> (if c then A' else B')"
  by (simp split: if_splits)

lemma NormalizeTable_slash:
  assumes "noSlash lo" "noSlash tr" "CHR ''/'' \<notin> set s"
  shows "CHR ''/'' \<notin> set (NormalizeTable lo tr s)"
proof -
  have t: "CHR ''/'' \<notin> set (trimSpace tr s)"
    using assms(2,3) trimASCII_subset [of s] unfolding noSlash_def trimSpace_def Let_def by (auto split: if_splits)
  then have "CHR ''/'' \<notin> asciiLower ` set (trimSpace tr s)" using lower_slash by (metis imageE)
  with t assms(1) show ?thesis by (simp add: NormalizeTable_def toLower_def noSlash_def)
qed

lemma NormalizeTable_Nil [simp]: "NormalizeTable lo tr [] = []"
proof -
  have "trimSpace tr [] = []" by (simp add: trimSpace_def trimASCII_def Let_def)
  then show ?thesis by (simp add: NormalizeTable_def toLower_def isASCII_def)
qed

lemma parentNamespace_append:
  assumes "CHR ''/'' \<notin> set s"
  shows "parentNamespace (p @ CHR ''/'' # s) = tableOb p ''''"
proof -
  have "dropWhile (\<lambda>c. c \<noteq> CHR ''/'') (rev (p @ CHR ''/'' # s)) = CHR ''/'' # rev p"
    using assms by (simp add: dropWhile_append)
  then show ?thesis by (simp add: parentNamespace_def)
qed

lemma holds_parent_normal:
  assumes "normalGrants lo tr (vRegistry v)" "noSlash lo" "noSlash tr" "holds v who (parentNamespace ns) verb"
  shows "holds v who (parentNamespace (NormalizeNamespace lo tr ns)) verb"
proof (cases "CHR ''/'' \<in> set ns")
  case True
  then obtain p s where ns: "ns = p @ CHR ''/'' # s" "CHR ''/'' \<notin> set s" by (meson split_list_last)
  have seg: "NormalizeNamespace lo tr s = NormalizeTable lo tr s" using ns(2)
    by (simp add: NormalizeNamespace_def NormalizeTable_def splitOn_id)
  have "parentNamespace (NormalizeNamespace lo tr ns) = tableOb (NormalizeNamespace lo tr p) ''''"
    using NormalizeTable_slash [OF assms(2,3) ns(2)] by (simp add: ns NormalizeNamespace_append seg parentNamespace_append)
  moreover have "holds v who (tableOb p '''') verb" using assms(4) ns by (simp add: parentNamespace_append)
  ultimately show ?thesis using holds_normal [OF assms(1), of who p "''''"] by simp
next
  case False
  then have "NormalizeNamespace lo tr ns = NormalizeTable lo tr ns"
    by (simp add: NormalizeNamespace_def NormalizeTable_def splitOn_id)
  with False NormalizeTable_slash [OF assms(2,3) False] assms(4) show ?thesis by (simp add: parentNamespace_def)
qed

definition normalizeTarget :: "(string \<Rightarrow> string) \<Rightarrow> (string \<Rightarrow> string) \<Rightarrow> authTarget \<Rightarrow> authTarget" where
  "normalizeTarget lo tr t =
     t\<lparr>tNamespace := NormalizeNamespace lo tr (tNamespace t), tTable := NormalizeTable lo tr (tTable t)\<rparr>"

text \<open>
  Operations are authorized on the names as the caller wrote them and then act on the
  normalised names. This gives nothing away: as grants are stored under normalised names,
  a caller allowed on the written names is allowed on the names acted on. Lower-casing and
  trimming text beyond ASCII is only assumed to add no slash.
\<close>

theorem normalising_never_widens:
  assumes "normalGrants lo tr (vRegistry v)" "noSlash lo" "noSlash tr"
    and "NormalizeNamespace lo tr (tNamespace t) \<noteq> ''''" "allowed (holds v who) own op strict t"
  shows "allowed (holds v who) own op strict (normalizeTarget lo tr t)"
proof -
  let ?t = "normalizeTarget lo tr t"
  let ?ns = "tableOb (tNamespace t) ''''" and ?table = "tableOb (tNamespace t) (tTable t)"
  let ?ns' = "tableOb (tNamespace ?t) ''''" and ?table' = "tableOb (tNamespace ?t) (tTable ?t)"
  have h: "\<And>verb. holds v who ?ns verb \<Longrightarrow> holds v who ?ns' verb" "\<And>verb. holds v who ?table verb \<Longrightarrow> holds v who ?table' verb"
    "\<And>verb. holds v who (parentNamespace (tNamespace t)) verb \<Longrightarrow> holds v who (parentNamespace (tNamespace ?t)) verb"
    using holds_normal [OF assms(1), of who "tNamespace t" "''''"] holds_normal [OF assms(1), of who "tNamespace t" "tTable t"]
      holds_parent_normal [OF assms(1-3)] by (simp_all add: normalizeTarget_def)
  have t: "named ?t" "tObject ?t = tObject t" "disablesRowAccess ?t = disablesRowAccess t"
    using assms(4) by (simp_all add: normalizeTarget_def named_def disablesRowAccess_def)
  have keep: "named t \<and> X \<Longrightarrow> (X \<Longrightarrow> Y) \<Longrightarrow> named ?t \<and> Y" for X Y using t(1) by blast
  show ?thesis using assms(5) unfolding allowed_def Let_def t(2,3) list_ex_iff
    by - ((erule if_mono | erule keep | blast dest: h)+)
qed

theorem normalising_never_widens_witness:
  "allowed (holds (still (oneGrant ''acme'' '''' [''read'']) [0]) ann) False ''query'' None
     (normalizeTarget id id \<lparr>tNamespace = ''acme/ HR'', tTable = '''', tObject = None, tReveal = [], tChanges = []\<rparr>)"
proof (rule normalising_never_widens)
  let ?v = "still (oneGrant ''acme'' '''' [''read'']) [0]"
  let ?t = "\<lparr>tNamespace = ''acme/ HR'', tTable = '''', tObject = None, tReveal = [], tChanges = []\<rparr>"
  show "normalGrants id id (vRegistry ?v)" by code_simp
  show "noSlash id" "noSlash id" by (simp_all add: noSlash_def)
  show "NormalizeNamespace id id (tNamespace ?t) \<noteq> ''''" by code_simp
  have "authorizeVerbsOn guardedServer (still (oneGrant ''acme'' '''' [''read''])) ann ''query'' None ?t = Inr ()" by code_simp
  then have a: "allowed (holds ?v ann) (tableHasRowAccess (later (still (oneGrant ''acme'' '''' [''read''])) 1)
      (tableOb (tNamespace ?t) (tTable ?t))) ''query'' None ?t"
    unfolding authorizeVerbsOn_iff by (simp add: ann_def AdminPrincipal_def openOps_def)
  have "tableHasRowAccess (later (still (oneGrant ''acme'' '''' [''read''])) 1) (tableOb (tNamespace ?t) (tTable ?t)) = False"
    by (simp add: tableHasRowAccess_def tableOb_def)
  with a show "allowed (holds ?v ann) False ''query'' None ?t" by simp
qed

section \<open>Rows\<close>

text \<open>
  On a table with row access, a caller without \<^verbatim>\<open>read\<close> is scoped to its own rows or to no
  rows at all: whatever resolving its scope answers, the scope names the caller as the
  owner or is empty, and it is tied to the incarnation of the table it was decided on.
\<close>

theorem own_rows_only:
  assumes "authOn srv" "resolveScopeState srv w who ns table = Inr (scope, inc, sc')"
    and "vTable (w [0]) ns table = Inr (sc, inc0)" "RowAccess sc = RowAccessOwn"
    and "Principal who \<noteq> AdminPrincipal" "\<not> holds (w [1]) who (tableOb ns table) ''read''"
  shows "\<exists>s. scope = Some s \<and> (ScopeEmpty s \<or> ScopeOwner s = Principal who) \<and> inc = inc0 \<and> sc' = Some sc"
proof -
  obtain held where h: "heldAt (later w 1) who (tableOb ns table) = Inr held"
    using assms by (auto simp: resolveScopeState_def split: if_splits)
  from heldAt_Inr [OF this] assms(6) have "\<not> Has held VerbRead" by (simp add: VerbRead_def)
  with assms h show ?thesis by (auto simp: resolveScopeState_def split: if_splits)
qed

theorem own_rows_only_witness:
  "\<exists>s inc sc. resolveScopeState guardedServer (still (oneGrant ''acme'' '''' [''create''])) ann ''acme'' ''notes'' = Inr (Some s, inc, Some sc)
     \<and> (ScopeEmpty s \<or> ScopeOwner s = ''ann'')"
proof -
  let ?w = "still (oneGrant ''acme'' '''' [''create''])"
  have r: "resolveScopeState guardedServer ?w ann ''acme'' ''notes''
      = Inr (Some \<lparr>ScopeOwner = ''ann'', ScopeEmpty = False\<rparr>, noIncarnation, Some notesSchema)" by code_simp
  have "heldAt (later ?w 1) ann (tableOb ''acme'' ''notes'') = Inr (NewVerbSet [''create''])" by code_simp
  from heldAt_Inr [OF this] have h: "holds (?w [1]) ann (tableOb ''acme'' ''notes'') ''read'' \<longleftrightarrow> Has (NewVerbSet [''create'']) ''read''"
    by simp
  have "\<not> Has (NewVerbSet [''create'']) ''read''" by code_simp
  with own_rows_only [OF _ r, of notesSchema noIncarnation] h show ?thesis unfolding r
    by (simp add: guardedServer_def still_def notesSchema_def RowAccessOwn_def ann_def AdminPrincipal_def)
qed

section \<open>Listings\<close>

text \<open>Some grant of the caller, on whatever object in the namespace \<open>ns\<close>.\<close>

definition grantIn :: "view \<Rightarrow> identity \<Rightarrow> string \<Rightarrow> bool" where
  "grantIn v who ns \<longleftrightarrow>
     (\<exists>r\<in>set (grants_tbl (vRegistry v)). row_subject r \<in> set (subjectsFor who) \<and> g_namespace r = ns)"



text \<open>
  A namespace below one in which the caller has a grant on a single table is listed and
  answered for, although the caller holds no verb on it or on anything in it.
\<close>

lemma listed_without_verbs:
  "requireNamespaceVisible guardedServer (still (oneGrant ''acme'' ''notes'' [''read''])) ann ''acme/hr'' = Inr ()
   \<and> \<not> (\<exists>table v. holds (still (oneGrant ''acme'' ''notes'' [''read'']) []) ann (tableOb ''acme/hr'' table) v)"
proof
  show "requireNamespaceVisible guardedServer (still (oneGrant ''acme'' ''notes'' [''read''])) ann ''acme/hr'' = Inr ()" by code_simp
  show "\<not> (\<exists>table v. holds (still (oneGrant ''acme'' ''notes'' [''read'']) []) ann (tableOb ''acme/hr'' table) v)"
    using oneGrant_holds [of "''acme''" "''notes''"] by (auto simp: covers_def root_object_def tableOb_def)
qed

end
