(* ===== verification/Auth_Sources.thy ===== *)
theory Auth_Sources
  imports Auth_Root_Admin
begin

text \<open>
  Who a request is (\<^verbatim>\<open>internal/auth/auth.go\<close>, \<^verbatim>\<open>header.go\<close>, \<^verbatim>\<open>keys.go\<close>, \<^verbatim>\<open>token.go\<close>,
  \<^verbatim>\<open>authenticator.go\<close>, \<^verbatim>\<open>oidc_identity.go\<close>, \<^verbatim>\<open>oidc_pending.go\<close>): the bootstrap key, identities asserted
  by a trusted proxy, API keys, signed tokens with the refresh of their key ring, the
  startup check, and the table of sign-ins in flight. The theory proves that only the
  bootstrap key yields the bootstrap principal, that the startup check decides exactly the
  condition the registry's guards keep, and that the table of sign-ins stays bounded.
  Hashing, signatures, base64, JSON and the parsing of addresses are arguments.
\<close>

section \<open>Modes and keys\<close>

datatype mode = ModeOff | ModeOn

definition ParseMode :: "string \<Rightarrow> string + mode" where
  "ParseMode raw =
     (if raw = '''' \<or> raw = ''off'' then Inr ModeOff else if raw = ''on'' then Inr ModeOn else Inl raw)"

definition KeyPrefix :: string where "KeyPrefix = ''dlm_''"
definition AdminKeySourceName :: string where "AdminKeySourceName = ''admin-key''"
definition HeaderSourceName :: string where "HeaderSourceName = ''trusted-proxy''"
definition KeySourceName :: string where "KeySourceName = ''api-keys''"
definition OIDCSourceName :: string where "OIDCSourceName = ''oidc''"

text \<open>The alphabet \<^verbatim>\<open>[A-Za-z0-9_-]\<close>.\<close>

definition urlChar :: "char \<Rightarrow> bool" where
  "urlChar c \<longleftrightarrow> isUpper c \<or> isLower c \<or> isDigit c \<or> c = CHR ''_'' \<or> c = CHR ''-''"

definition adminKeyRe :: "string \<Rightarrow> bool" where
  "adminKeyRe s \<longleftrightarrow> list_all urlChar s \<and> 32 \<le> length s \<and> length s \<le> 256"

datatype key_error = AdminKeyPrefix | AdminKeyShape

definition ValidateAdminKey :: "string \<Rightarrow> key_error + unit" where
  "ValidateAdminKey key =
     (if hasPrefix key KeyPrefix then Inl AdminKeyPrefix
      else if \<not> adminKeyRe key then Inl AdminKeyShape else Inr ())"

text \<open>The parts of a request the sources read; a missing header reads as the empty text.\<close>

record http_request =
  hAuthorization :: string
  hPrincipal :: string
  hGroups :: string
  hRemote :: string

definition BearerToken :: "(string \<Rightarrow> string) \<Rightarrow> http_request \<Rightarrow> string option" where
  "BearerToken tr r =
     (let raw = hAuthorization r in
      if raw = '''' then None
      else if length raw \<le> 7 \<or> \<not> equalFold (take 7 raw) ''bearer '' then None
      else Some (trimSpace tr (drop 7 raw)))"

text \<open>A source answers an identity, or that the request is not its own.\<close>

definition adminAuthenticate :: "(string \<Rightarrow> string) \<Rightarrow> string \<Rightarrow> http_request \<Rightarrow> identity option" where
  "adminAuthenticate tr key r =
     (case BearerToken tr r of
        None \<Rightarrow> None
      | Some token \<Rightarrow>
          if token \<noteq> key then None
          else Some \<lparr>Principal = AdminPrincipal, Groups = [], Source = AdminKeySourceName\<rparr>)"

section \<open>Identities asserted by a proxy\<close>

definition DefaultMaxGroups :: int where "DefaultMaxGroups = 128"
definition MinMaxGroups :: int where "MinMaxGroups = 1"
definition MaxMaxGroups :: int where "MaxMaxGroups = 1024"

text \<open>\<^verbatim>\<open>[!-~]{1,256}\<close>, and \<^verbatim>\<open>{1,128}\<close> of the same characters without the comma.\<close>

definition principalRe :: "string \<Rightarrow> bool" where
  "principalRe s \<longleftrightarrow> list_all (\<lambda>c. 0x21 \<le> byte c \<and> byte c \<le> 0x7E) s \<and> 1 \<le> length s \<and> length s \<le> 256"

definition groupRe :: "string \<Rightarrow> bool" where
  "groupRe s \<longleftrightarrow> list_all (\<lambda>c. 0x21 \<le> byte c \<and> byte c \<le> 0x2B \<or> 0x2D \<le> byte c \<and> byte c \<le> 0x7E) s
     \<and> 1 \<le> length s \<and> length s \<le> 128"

definition ValidateMaxGroups :: "int \<Rightarrow> int + unit" where
  "ValidateMaxGroups n = (if n < MinMaxGroups \<or> MaxMaxGroups < n then Inl n else Inr ())"

text \<open>
  Addresses: \<open>splitHost\<close> is \<^verbatim>\<open>net.SplitHostPort\<close>, \<open>parseIP\<close> and \<open>parseCIDR\<close> read an address and a
  range, \<open>single\<close> is the range of one address and \<open>inRange\<close> tests membership.
\<close>

record ('ip, 'net) addresses =
  splitHost :: "string \<Rightarrow> string option"
  parseIP :: "string \<Rightarrow> 'ip option"
  parseCIDR :: "string \<Rightarrow> 'net option"
  single :: "'ip \<Rightarrow> 'net"
  inRange :: "'net \<Rightarrow> 'ip \<Rightarrow> bool"

fun proxyEntries :: "(string \<Rightarrow> string) \<Rightarrow> ('ip, 'net) addresses \<Rightarrow> 'net list \<Rightarrow> string list \<Rightarrow> string + 'net list" where
  "proxyEntries tr env out [] = Inr out"
| "proxyEntries tr env out (e # es) =
     (let entry = trimSpace tr e in
      if entry = '''' then proxyEntries tr env out es
      else (case parseCIDR env entry of
              Some n \<Rightarrow> proxyEntries tr env (out @ [n]) es
            | None \<Rightarrow>
                (case parseIP env entry of
                   None \<Rightarrow> Inl entry
                 | Some ip \<Rightarrow> proxyEntries tr env (out @ [single env ip]) es)))"

definition ParseTrustedProxies :: "(string \<Rightarrow> string) \<Rightarrow> ('ip, 'net) addresses \<Rightarrow> string \<Rightarrow> string + 'net list" where
  "ParseTrustedProxies tr env raw =
     (if trimSpace tr raw = '''' then Inr [] else proxyEntries tr env [] (splitOn (CHR '','') raw))"

definition trimBrackets :: "string \<Rightarrow> string" where
  "trimBrackets s =
     (let br = (\<lambda>c. c = CHR ''['' \<or> c = CHR '']'') in rev (dropWhile br (rev (dropWhile br s))))"

definition PeerTrusted :: "('ip, 'net) addresses \<Rightarrow> http_request \<Rightarrow> 'net list \<Rightarrow> bool" where
  "PeerTrusted env r trusted =
     (let host = (case splitHost env (hRemote r) of None \<Rightarrow> hRemote r | Some h \<Rightarrow> h) in
      case parseIP env (trimBrackets host) of
        None \<Rightarrow> False
      | Some ip \<Rightarrow> list_ex (\<lambda>n. inRange env n ip) trusted)"

fun groupEntries :: "(string \<Rightarrow> string) \<Rightarrow> int \<Rightarrow> string list \<Rightarrow> string list \<Rightarrow> string list option" where
  "groupEntries tr maxGroups out [] = Some out"
| "groupEntries tr maxGroups out (e # es) =
     (let entry = trimSpace tr e in
      if entry = '''' then groupEntries tr maxGroups out es
      else if \<not> groupRe entry then None
      else if entry \<in> set out then groupEntries tr maxGroups out es
      else if maxGroups < int (length (out @ [entry])) then None
      else groupEntries tr maxGroups (out @ [entry]) es)"

definition parseGroups :: "(string \<Rightarrow> string) \<Rightarrow> string \<Rightarrow> int \<Rightarrow> string list option" where
  "parseGroups tr raw maxGroups =
     (if raw = '''' then Some [] else groupEntries tr maxGroups [] (splitOn (CHR '','') raw))"

record 'net header_source =
  hsTrusted :: "'net list"
  hsMaxGroups :: int

definition NewHeaderSource :: "'net list \<Rightarrow> int \<Rightarrow> 'net header_source" where
  "NewHeaderSource trusted maxGroups =
     \<lparr>hsTrusted = trusted, hsMaxGroups = (if maxGroups = 0 then DefaultMaxGroups else maxGroups)\<rparr>"

definition headerAuthenticate ::
    "(string \<Rightarrow> string) \<Rightarrow> ('ip, 'net) addresses \<Rightarrow> 'net header_source \<Rightarrow> http_request \<Rightarrow> identity option" where
  "headerAuthenticate tr env s r =
     (if hsTrusted s = [] \<or> \<not> PeerTrusted env r (hsTrusted s) then None
      else if hPrincipal r = '''' then None
      else if \<not> principalRe (hPrincipal r) \<or> hPrincipal r = AdminPrincipal then None
      else (case parseGroups tr (hGroups r) (hsMaxGroups s) of
              None \<Rightarrow> None
            | Some groups \<Rightarrow> Some \<lparr>Principal = hPrincipal r, Groups = groups, Source = HeaderSourceName\<rparr>))"

section \<open>API keys\<close>

definition ValidateKeyShape :: "string \<Rightarrow> bool" where
  "ValidateKeyShape secret =
     (case cutPrefix secret KeyPrefix of None \<Rightarrow> False | Some body \<Rightarrow> list_all urlChar body \<and> length body = 43)"

datatype name_problem = NameRequired | NameTooLong nat | NameControl

definition ValidateKeyName :: "string \<Rightarrow> name_problem + unit" where
  "ValidateKeyName name =
     (if name = '''' then Inl NameRequired
      else if 128 < length name then Inl (NameTooLong (length name))
      else if list_ex (\<lambda>c. byte c = 0 \<or> byte c = 10 \<or> byte c = 13) name then Inl NameControl
      else Inr ())"

datatype identity_problem =
    PrincipalRequired
  | PrincipalReserved
  | PrincipalShape
  | TooManyGroups nat int
  | GroupShape string
  | GroupTwice string

fun groupNames :: "string list \<Rightarrow> string list \<Rightarrow> identity_problem + unit" where
  "groupNames seen [] = Inr ()"
| "groupNames seen (g # gs) =
     (if \<not> groupRe g then Inl (GroupShape g)
      else if g \<in> set seen then Inl (GroupTwice g)
      else groupNames (g # seen) gs)"

definition ValidateKeyIdentity :: "string \<Rightarrow> string list \<Rightarrow> int \<Rightarrow> identity_problem + unit" where
  "ValidateKeyIdentity prin groups maxGroups =
     (if prin = '''' then Inl PrincipalRequired
      else if prin = AdminPrincipal then Inl PrincipalReserved
      else if \<not> principalRe prin then Inl PrincipalShape
      else
        let m = (if maxGroups \<le> 0 then DefaultMaxGroups else maxGroups) in
        if m < int (length groups) then Inl (TooManyGroups (length groups) m) else groupNames [] groups)"

text \<open>\<open>hash\<close> is the hexadecimal SHA-256 of the secret, \<open>flt\<close> the fault of the database read.\<close>

definition keyAuthenticate ::
    "(string \<Rightarrow> string) \<Rightarrow> (string \<Rightarrow> string) \<Rightarrow> string option \<Rightarrow> int \<Rightarrow> registry \<Rightarrow> http_request \<Rightarrow> identity option" where
  "keyAuthenticate tr hash flt now reg r =
     (case BearerToken tr r of
        None \<Rightarrow> None
      | Some token \<Rightarrow>
          if \<not> ValidateKeyShape token then None
          else
            (case keyByHash flt reg (hash token) of
               Inr (Some k) \<Rightarrow>
                 if KeyRevoked k \<or> Expired k now then None
                 else Some \<lparr>Principal = KeyPrincipal k, Groups = KeyGroups k, Source = KeySourceName\<rparr>
             | _ \<Rightarrow> None))"

section \<open>Tokens\<close>

record token_header =
  Typ :: string
  Alg :: string
  Kid :: string

record token_claims =
  ClV :: int
  ClIss :: string
  ClSub :: string
  ClGrp :: "string list"
  ClIat :: int
  ClExp :: int

record signing_key =
  SkID :: string
  SkPrivate :: string
  SkPublic :: "string option"
  SkRetired :: bool

record keyring =
  Deployment :: string
  Active :: signing_key
  Verify :: "signing_key list"

text \<open>Base64, the JSON of headers and claims, and Ed25519 signatures.\<close>

record crypto =
  b64 :: "string \<Rightarrow> string"
  unb64 :: "string \<Rightarrow> string option"
  headerJSON :: "token_header \<Rightarrow> string"
  readHeader :: "string \<Rightarrow> token_header option"
  claimsJSON :: "token_claims \<Rightarrow> string"
  readClaims :: "string \<Rightarrow> token_claims option"
  sign :: "string \<Rightarrow> string \<Rightarrow> string"
  verify :: "string \<Rightarrow> string \<Rightarrow> string \<Rightarrow> bool"

definition TokenType :: string where "TokenType = ''dolmen-token''"
definition TokenAlg :: string where "TokenAlg = ''EdDSA''"
definition TokenVersion :: int where "TokenVersion = 1"

text \<open>Durations in seconds; \<open>None\<close> is the missing deployment id.\<close>

definition ValidateTokenTTL :: "int \<Rightarrow> int + unit" where
  "ValidateTokenTTL d = (if d < 3600 \<or> 720 * 3600 < d then Inl d else Inr ())"

definition MintToken :: "crypto \<Rightarrow> keyring \<Rightarrow> string \<Rightarrow> string list \<Rightarrow> int \<Rightarrow> int \<Rightarrow> string option" where
  "MintToken cr k prin groups ttl now =
     (if Deployment k = '''' then None
      else
        let header = headerJSON cr \<lparr>Typ = TokenType, Alg = TokenAlg, Kid = SkID (Active k)\<rparr>;
            claims = claimsJSON cr \<lparr>ClV = TokenVersion, ClIss = Deployment k, ClSub = prin, ClGrp = groups,
                       ClIat = now, ClExp = now + ttl\<rparr>;
            signing = b64 cr header @ ''.'' @ b64 cr claims in
        Some (signing @ ''.'' @ b64 cr (sign cr (SkPrivate (Active k)) signing)))"

definition LooksLikeToken :: "string \<Rightarrow> bool" where
  "LooksLikeToken bearer \<longleftrightarrow> length (filter (\<lambda>c. c = CHR ''.'') bearer) = 2"

definition publicKeyFor :: "keyring \<Rightarrow> string \<Rightarrow> string option" where
  "publicKeyFor k kid =
     (if SkID (Active k) = kid \<and> SkPublic (Active k) \<noteq> None then SkPublic (Active k)
      else (case find (\<lambda>v. SkID v = kid \<and> SkPublic v \<noteq> None) (Verify k) of None \<Rightarrow> None | Some v \<Rightarrow> SkPublic v))"

definition claimsIdentity :: "keyring \<Rightarrow> int \<Rightarrow> token_claims \<Rightarrow> identity option" where
  "claimsIdentity k now c =
     (if ClV c \<noteq> TokenVersion then None
      else if ClIss c \<noteq> Deployment k then None
      else if ClExp c \<le> now then None
      else if ClSub c = '''' \<or> ClSub c = AdminPrincipal \<or> \<not> principalRe (ClSub c) then None
      else if list_ex (\<lambda>g. \<not> groupRe g) (ClGrp c) then None
      else Some \<lparr>Principal = ClSub c, Groups = ClGrp c, Source = OIDCSourceName\<rparr>)"

definition VerifyToken :: "crypto \<Rightarrow> keyring \<Rightarrow> string \<Rightarrow> int \<Rightarrow> identity option" where
  "VerifyToken cr k token now =
     (case splitOn (CHR ''.'') token of
        [header, claims, signature] \<Rightarrow>
          Option.bind (unb64 cr header) (\<lambda>rawHeader.
          Option.bind (readHeader cr rawHeader) (\<lambda>h.
            if Typ h \<noteq> TokenType \<or> Alg h \<noteq> TokenAlg then None
            else
              Option.bind (publicKeyFor k (Kid h)) (\<lambda>pub.
              Option.bind (unb64 cr signature) (\<lambda>sig.
                if \<not> verify cr pub (header @ ''.'' @ claims) sig then None
                else
                  Option.bind (unb64 cr claims) (\<lambda>rawClaims.
                  Option.bind (readClaims cr rawClaims) (claimsIdentity k now))))))
      | _ \<Rightarrow> None)"

section \<open>The key ring in use\<close>

text \<open>\<open>tsRefresh\<close> is the refresh interval, or \<open>None\<close> when the ring is fixed; \<open>tsGen\<close> counts its replacements.\<close>

record token_source =
  tsRing :: keyring
  tsLoadedAt :: int
  tsGen :: "64 word"
  tsRefresh :: "int option"

text \<open>
  \<^verbatim>\<open>keyring\<close> reads the state \<open>t\<close> under the read lock, loads outside any lock, and stores the
  result under the write lock, where it finds the state \<open>t'\<close>. It answers the ring to use and
  the state it leaves.
\<close>

definition nextRing :: "int \<Rightarrow> int \<Rightarrow> ('e + keyring) \<Rightarrow> token_source \<Rightarrow> token_source \<Rightarrow> keyring \<times> token_source" where
  "nextRing now now' loaded t t' =
     (case tsRefresh t of
        None \<Rightarrow> (tsRing t, t')
      | Some every \<Rightarrow>
          if every \<le> 0 \<or> now - tsLoadedAt t < every then (tsRing t, t')
          else
            (case loaded of
               Inl _ \<Rightarrow> (tsRing t, t')
             | Inr fresh \<Rightarrow>
                 if tsGen t' \<noteq> tsGen t then (tsRing t', t')
                 else (fresh, t'\<lparr>tsRing := fresh, tsLoadedAt := now', tsGen := tsGen t' + 1\<rparr>)))"

definition replaceRing :: "int \<Rightarrow> keyring \<Rightarrow> token_source \<Rightarrow> token_source" where
  "replaceRing now ring t = t\<lparr>tsRing := ring, tsLoadedAt := now, tsGen := tsGen t + 1\<rparr>"

section \<open>The authenticator\<close>

record 'net authenticator =
  aMode :: mode
  aAdmin :: "string option"
  aHeader :: "'net header_source option"
  aKeys :: bool
  aTokens :: "token_source option"
  aIssuer :: string
  aMaxGroups :: int

record 'net config =
  cMode :: mode
  cAdminKey :: string
  cProxies :: "'net list"
  cMaxGroups :: int
  cStdio :: bool

datatype config_error = BadAdminKey key_error | BadMaxGroups int | StdioWithAuth

definition New :: "'net config \<Rightarrow> config_error + 'net authenticator" where
  "New cfg =
     bindR (if cAdminKey cfg \<noteq> '''' then
              (case ValidateAdminKey (cAdminKey cfg) of Inl e \<Rightarrow> Inl (BadAdminKey e) | Inr _ \<Rightarrow> Inr (Some (cAdminKey cfg)))
            else Inr None) (\<lambda>admin.
     bindR (if cMaxGroups cfg \<noteq> 0 then
              (case ValidateMaxGroups (cMaxGroups cfg) of Inl n \<Rightarrow> Inl (BadMaxGroups n) | Inr _ \<Rightarrow> Inr ())
            else Inr ()) (\<lambda>_.
       let a = \<lparr>aMode = cMode cfg, aAdmin = admin,
                aHeader = (if cProxies cfg \<noteq> [] then Some (NewHeaderSource (cProxies cfg) (cMaxGroups cfg)) else None),
                aKeys = False, aTokens = None, aIssuer = '''', aMaxGroups = cMaxGroups cfg\<rparr> in
       if cMode cfg \<noteq> ModeOn then Inr a else if cStdio cfg then Inl StdioWithAuth else Inr a))"

definition UseTokens :: "int \<Rightarrow> keyring \<Rightarrow> 'net authenticator \<Rightarrow> 'net authenticator" where
  "UseTokens now ring a =
     a\<lparr>aTokens := Some (case aTokens a of
         Some t \<Rightarrow> replaceRing now ring t
       | None \<Rightarrow> \<lparr>tsRing = ring, tsLoadedAt = now, tsGen = 0, tsRefresh = None\<rparr>)\<rparr>"

text \<open>\<^verbatim>\<open>DefaultKeyringRefresh\<close> is thirty seconds.\<close>

definition RefreshTokensFrom :: "int \<Rightarrow> 'net authenticator \<Rightarrow> 'net authenticator" where
  "RefreshTokensFrom every a =
     a\<lparr>aTokens := map_option (\<lambda>t. t\<lparr>tsRefresh := Some (if every \<le> 0 then 30 else every)\<rparr>) (aTokens a)\<rparr>"

text \<open>
  What a request finds outside itself: the database fault, time and registry of a key
  lookup, the outcome of a due refresh of the key ring, and the time a token is verified at.
\<close>

record 'e outside =
  oFault :: "string option"
  oNow :: int
  oLater :: int
  oVerify :: int
  oRegistry :: registry
  oLoaded :: "'e + keyring"
  oRelocked :: token_source

definition unauthorized :: "string + identity" where
  "unauthorized = Inl ''unauthorized''"

definition authenticated :: "identity option \<Rightarrow> string + identity" where
  "authenticated x = (case x of None \<Rightarrow> unauthorized | Some who \<Rightarrow> Inr who)"

definition noIdentity :: identity where
  "noIdentity = \<lparr>Principal = '''', Groups = [], Source = ''''\<rparr>"

definition Authenticate ::
    "(string \<Rightarrow> string) \<Rightarrow> ('ip, 'net) addresses \<Rightarrow> crypto \<Rightarrow> (string \<Rightarrow> string) \<Rightarrow> 'e outside
       \<Rightarrow> 'net authenticator \<Rightarrow> http_request \<Rightarrow> string + identity" where
  "Authenticate tr env cr hash out a r =
     (if aMode a \<noteq> ModeOn then Inr noIdentity
      else
        (case BearerToken tr r of
           None \<Rightarrow>
             (case aHeader a of None \<Rightarrow> unauthorized | Some s \<Rightarrow> authenticated (headerAuthenticate tr env s r))
         | Some token \<Rightarrow>
             if hasPrefix token KeyPrefix then
               (if \<not> aKeys a then unauthorized
                else authenticated (keyAuthenticate tr hash (oFault out) (oNow out) (oRegistry out) r))
             else if LooksLikeToken token then
               (case aTokens a of
                  None \<Rightarrow> unauthorized
                | Some t \<Rightarrow>
                    authenticated (VerifyToken cr (fst (nextRing (oNow out) (oLater out) (oLoaded out) t (oRelocked out)))
                      token (oVerify out)))
             else
               (case aAdmin a of None \<Rightarrow> unauthorized | Some key \<Rightarrow> authenticated (adminAuthenticate tr key r))))"

definition Reach :: "'net authenticator \<Rightarrow> reach" where
  "Reach a = \<lparr>RHeader = (aHeader a \<noteq> None), ROIDC = (aTokens a \<noteq> None), ROIDCIssuer = aIssuer a\<rparr>"

datatype startup_error =
    NoIdentitySource
  | StartupRead auth_error
  | NoRootAdmin
  | OtherIssuer string
  | OnlyGroup string
  | Unreachable

text \<open>The registry is read twice; \<open>flt 0\<close> and \<open>flt 1\<close> are the faults of the two reads.\<close>

definition unreachableReason :: "'net authenticator \<Rightarrow> subject list \<Rightarrow> startup_error" where
  "unreachableReason a admins =
     (case (if aTokens a \<noteq> None
            then find (\<lambda>s. case OIDCIssuerOf (SID s) of None \<Rightarrow> False | Some d \<Rightarrow> d \<noteq> aIssuer a) admins else None) of
        Some s \<Rightarrow> OtherIssuer (SID s)
      | None \<Rightarrow>
          (case find (\<lambda>s. SType s = SubjectGroup) admins of
             Some s \<Rightarrow> OnlyGroup (SID s)
           | None \<Rightarrow> Unreachable))"

definition CheckRootAdministrator :: "faults \<Rightarrow> int \<Rightarrow> registry \<Rightarrow> 'net authenticator \<Rightarrow> startup_error + unit" where
  "CheckRootAdministrator flt now reg a =
     (if aMode a \<noteq> ModeOn \<or> aAdmin a \<noteq> None then Inr ()
      else if aHeader a = None \<and> \<not> aKeys a \<and> aTokens a = None then Inl NoIdentitySource
      else
        (case RootAdmins (flt 0) reg of
           Inl e \<Rightarrow> Inl (StartupRead e)
         | Inr admins \<Rightarrow>
             if admins = [] then Inl NoRootAdmin
             else if list_ex (\<lambda>s. SType s = SubjectPrincipal \<and> PrincipalReachable (Reach a) (SID s)) admins then Inr ()
             else if aKeys a then
               (case ActiveKeys (flt 1) now reg of
                  Inl e \<Rightarrow> Inl (StartupRead e)
                | Inr keys \<Rightarrow>
                    if rootReachableByKey admins keys '''' then Inr () else Inl (unreachableReason a admins))
             else Inl (unreachableReason a admins)))"

section \<open>Qualified identities\<close>

datatype qualify_error = EmptyClaim | ClaimShape | ClaimReserved

definition QualifyOIDC :: "string \<Rightarrow> string \<Rightarrow> qualify_error + string" where
  "QualifyOIDC issuerDigest claim =
     (let qualified = oidcQualifyPrefix @ issuerDigest @ '':'' @ claim in
      if claim = '''' then Inl EmptyClaim
      else if \<not> principalRe qualified then Inl ClaimShape
      else if qualified = AdminPrincipal then Inl ClaimReserved
      else Inr qualified)"

definition QualifyOIDCGroup :: "string \<Rightarrow> string \<Rightarrow> qualify_error + string" where
  "QualifyOIDCGroup issuerDigest claim =
     (let qualified = oidcQualifyPrefix @ issuerDigest @ '':'' @ claim in
      if claim = '''' then Inl EmptyClaim else if \<not> groupRe qualified then Inl ClaimShape else Inr qualified)"

definition IsOIDCQualified :: "string \<Rightarrow> bool" where
  "IsOIDCQualified i = hasPrefix i oidcQualifyPrefix"

section \<open>Sign-ins in flight\<close>

definition MaxPendingSignIns :: nat where "MaxPendingSignIns = 512"
definition MaxPendingSignInsPerPeer :: nat where "MaxPendingSignInsPerPeer = 32"

text \<open>Expiry times are texts, as the table stores and compares them.\<close>

record pending_row =
  pState :: string
  pVerifier :: string
  pRedirect :: string
  pPeer :: string
  pExpires :: string

datatype pending_error =
    PruneFailed string
  | CountFailed string
  | PeerLimit nat
  | EvictFailed string
  | StoreFailed string
  | ReadFailed string
  | ConsumeFailed string

definition prunePending :: "string \<Rightarrow> pending_row list \<Rightarrow> pending_row list" where
  "prunePending now rows = filter (\<lambda>p. \<not> pExpires p \<le> now) rows"

text \<open>\<^verbatim>\<open>DELETE ... ORDER BY expires_at ASC LIMIT over\<close>, rows of equal expiry in the order of insertion.\<close>

definition evictPending :: "nat \<Rightarrow> pending_row list \<Rightarrow> pending_row list" where
  "evictPending over rows =
     (let victims = map pState (take over (sort_key pExpires rows)) in filter (\<lambda>p. pState p \<notin> set victims) rows)"

text \<open>
  The five statements run one after another with no transaction around them, so a fault
  \<open>flt i\<close> of statement \<open>i\<close> leaves what the earlier ones did. The state is the primary key.
\<close>

definition putPending ::
    "faults \<Rightarrow> string \<Rightarrow> pending_row \<Rightarrow> pending_row list \<Rightarrow> (pending_error + unit) \<times> pending_row list" where
  "putPending flt now new rows =
     (case flt 0 of
        Some e \<Rightarrow> (Inl (PruneFailed e), rows)
      | None \<Rightarrow>
          let rows = prunePending now rows in
          (case flt 1 of
             Some e \<Rightarrow> (Inl (CountFailed e), rows)
           | None \<Rightarrow>
               let fromPeer = length (filter (\<lambda>p. pPeer p = pPeer new) rows) in
               if MaxPendingSignInsPerPeer \<le> fromPeer then (Inl (PeerLimit fromPeer), rows)
               else
                 (case flt 2 of
                    Some e \<Rightarrow> (Inl (CountFailed e), rows)
                  | None \<Rightarrow>
                      let over = int (length rows) - int MaxPendingSignIns + 1 in
                      (case (if over > 0 then flt 3 else None) of
                         Some e \<Rightarrow> (Inl (EvictFailed e), rows)
                       | None \<Rightarrow>
                           let rows = (if over > 0 then evictPending (nat over) rows else rows) in
                           (case flt 4 of
                              Some e \<Rightarrow> (Inl (StoreFailed e), rows)
                            | None \<Rightarrow>
                                if pState new \<in> pState ` set rows then (Inl (StoreFailed ''constraint''), rows)
                                else (Inr (), rows @ [new]))))))"

text \<open>\<open>readTime\<close> parses a stored time; a sign-in is consumed whether or not it has expired.\<close>

definition takePending ::
    "faults \<Rightarrow> (string \<Rightarrow> int option) \<Rightarrow> int \<Rightarrow> string \<Rightarrow> pending_row list
       \<Rightarrow> (pending_error + (string \<times> string) option) \<times> pending_row list" where
  "takePending flt readTime now st rows =
     (case flt 0 of
        Some e \<Rightarrow> (Inl (ReadFailed e), rows)
      | None \<Rightarrow>
          (case find (\<lambda>p. pState p = st) rows of
             None \<Rightarrow> (Inr None, rows)
           | Some p \<Rightarrow>
               (case flt 1 of
                  Some e \<Rightarrow> (Inl (ConsumeFailed e), rows)
                | None \<Rightarrow>
                    let rows = filter (\<lambda>q. pState q \<noteq> st) rows in
                    (case readTime (pExpires p) of
                       None \<Rightarrow> (Inr None, rows)
                     | Some at \<Rightarrow> if at < now then (Inr None, rows) else (Inr (Some (pVerifier p, pRedirect p)), rows)))))"

section \<open>Only the bootstrap key is the bootstrap principal\<close>

lemma header_not_admin: "headerAuthenticate tr env s r = Some who \<Longrightarrow> Principal who \<noteq> AdminPrincipal"
  by (auto simp: headerAuthenticate_def split: if_splits option.splits)

lemma claims_not_admin: "claimsIdentity k now c = Some who \<Longrightarrow> Principal who \<noteq> AdminPrincipal"
  by (auto simp: claimsIdentity_def split: if_splits)

lemma token_not_admin: "VerifyToken cr k token now = Some who \<Longrightarrow> Principal who \<noteq> AdminPrincipal"
  by (auto simp: VerifyToken_def bind_eq_Some_conv split: list.splits if_splits dest: claims_not_admin)

lemma scanKey_principal: "scanKey row = Inr k \<Longrightarrow> KeyPrincipal k = k_principal row"
  by (auto simp: scanKey_def Let_def split: stored_time.splits option.splits if_splits)

lemma keyByHash_row:
  "keyByHash flt reg h = Inr (Some k) \<Longrightarrow> \<exists>row\<in>set (keys_tbl reg). scanKey row = Inr k \<and> k_hash row = h"
proof -
  have "keyByHash_loop rows h = Inr (Some k) \<Longrightarrow> \<exists>row\<in>set rows. scanKey row = Inr k \<and> k_hash row = h" for rows
    by (induction rows) (auto split: sum.splits if_splits)
  then show "keyByHash flt reg h = Inr (Some k) \<Longrightarrow> ?thesis" by (auto simp: keyByHash_def call_def split: option.splits)
qed

lemma key_not_admin:
  assumes "keyAuthenticate tr hash flt now reg r = Some who" "\<forall>row\<in>set (keys_tbl reg). k_principal row \<noteq> AdminPrincipal"
  shows "Principal who \<noteq> AdminPrincipal"
proof -
  obtain token k where "keyByHash flt reg (hash token) = Inr (Some k)" "Principal who = KeyPrincipal k"
    using assms(1) by (auto simp: keyAuthenticate_def split: option.splits if_splits sum.splits)
  then show ?thesis using keyByHash_row scanKey_principal assms(2) by metis
qed

lemma authenticated_Inr [simp]: "authenticated x = Inr who \<longleftrightarrow> x = Some who"
  by (simp add: authenticated_def unauthorized_def split: option.split)

lemma Authenticate_admin:
  assumes "Authenticate tr env cr hash out a r = Inr who" "Principal who = AdminPrincipal"
    and "\<forall>row\<in>set (keys_tbl (oRegistry out)). k_principal row \<noteq> AdminPrincipal"
  shows "\<exists>key. aMode a = ModeOn \<and> aAdmin a = Some key \<and> BearerToken tr r = Some key \<and> Source who = AdminKeySourceName"
proof -
  have on: "aMode a = ModeOn" using assms(1,2) by (auto simp: Authenticate_def noIdentity_def AdminPrincipal_def split: if_splits)
  have "\<exists>key. aAdmin a = Some key \<and> adminAuthenticate tr key r = Some who"
    using assms(1,2) on by (auto simp: Authenticate_def unauthorized_def split: option.splits if_splits
        dest: header_not_admin token_not_admin key_not_admin [OF _ assms(3)])
  then show ?thesis using on by (auto simp: adminAuthenticate_def split: option.splits if_splits)
qed


section \<open>The startup check\<close>

lemma scan_keys_ok: "\<forall>r\<in>set rows. key_row_ok r \<Longrightarrow> \<exists>ks. scan_keys rows = Inr ks"
  by (induction rows) (auto dest: scanKey_ok)

lemma startup_iff:
  assumes "aMode a = ModeOn" "aAdmin a = None" "aKeys a" "reg_inv reg" "flt 0 = None" "flt 1 = None"
  shows "CheckRootAdministrator flt now reg a = Inr () \<longleftrightarrow> usable now (Reach a) reg"
proof -
  have rows: "\<forall>r\<in>set (keys_tbl reg). key_row_ok r" using assms(4) by (simp add: reg_inv_def list_all_iff)
  obtain admins where adm: "rootAdminsLocked None reg = Inr admins" by (simp add: rootAdminsLocked_def call_def)
  have "\<exists>ks. scan_keys (filter (\<lambda>r. k_revoked r = 0) (keys_tbl reg)) = Inr ks" using rows by (intro scan_keys_ok) simp
  then obtain keys where keys: "activeKeysLocked None now reg = Inr keys" by (auto simp: activeKeysLocked_def call_def)
  have ids: "KeyID k \<noteq> ''''" if "k \<in> active_keys now reg" for k
    using that rows scanKey_id by (fastforce simp: active_keys_def key_row_ok_def)
  have "CheckRootAdministrator flt now reg a = Inr () \<longleftrightarrow>
      admins \<noteq> [] \<and> (reachable_principal (Reach a) admins \<or> rootReachableByKey admins keys '''')"
    using assms by (simp add: CheckRootAdministrator_def RootAdmins_def ActiveKeys_def adm keys reachable_principal_def)
  also have "\<dots> \<longleftrightarrow> usable now (Reach a) reg"
    using rootAdminsLocked_set [OF adm] activeKeysLocked_set [OF keys] ids
    by (auto simp: usable_def usable_by_def reachable_principal_iff rootReachableByKey_iff)
  finally show ?thesis .
qed

text \<open>
  At startup, with authentication on, no bootstrap key and API keys enabled, the check
  accepts the deployment exactly when it has a usable root administrator: the very condition
  every later revocation is guarded to keep.
\<close>

theorem startup_check_exact:
  assumes "aMode a = ModeOn" "aAdmin a = None" "aKeys a" "reg_inv reg" "flt 0 = None" "flt 1 = None"
  shows "CheckRootAdministrator flt now reg a = Inr () \<longleftrightarrow> usable now (Reach a) reg"
  using startup_iff [OF assms] .

definition keyedServer :: "string option \<Rightarrow> unit authenticator" where
  "keyedServer key = \<lparr>aMode = ModeOn, aAdmin = key, aHeader = None, aKeys = True, aTokens = None, aIssuer = '''', aMaxGroups = 0\<rparr>"

definition emptyRegistry :: registry where
  "emptyRegistry = \<lparr>grants_tbl = [], keys_tbl = []\<rparr>"

definition sampleAddresses :: "(unit, unit) addresses" where
  "sampleAddresses = \<lparr>splitHost = Some, parseIP = (\<lambda>_. None), parseCIDR = (\<lambda>_. None), single = (\<lambda>_. ()), inRange = (\<lambda>_ _. False)\<rparr>"

definition sampleCrypto :: crypto where
  "sampleCrypto = \<lparr>b64 = id, unb64 = Some, headerJSON = (\<lambda>_. ''''), readHeader = (\<lambda>_. None), claimsJSON = (\<lambda>_. ''''),
     readClaims = (\<lambda>_. None), sign = (\<lambda>_ _. ''''), verify = (\<lambda>_ _ _. False)\<rparr>"

definition sampleSource :: token_source where
  "sampleSource = \<lparr>tsRing = \<lparr>Deployment = '''', Active = \<lparr>SkID = '''', SkPrivate = '''', SkPublic = None, SkRetired = False\<rparr>,
     Verify = []\<rparr>, tsLoadedAt = 0, tsGen = 0, tsRefresh = None\<rparr>"

definition sampleOutside :: "string outside" where
  "sampleOutside = \<lparr>oFault = None, oNow = 0, oLater = 0, oVerify = 0, oRegistry = emptyRegistry, oLoaded = Inl '''', oRelocked = sampleSource\<rparr>"


theorem startup_check_exact_witness: "\<not> usable 0 (Reach (keyedServer None)) emptyRegistry"
proof -
  have "reg_inv emptyRegistry" by (simp add: reg_inv_def emptyRegistry_def)
  moreover have "CheckRootAdministrator (\<lambda>_. None) 0 emptyRegistry (keyedServer None) \<noteq> Inr ()" by code_simp
  ultimately show ?thesis using startup_check_exact [of "keyedServer None" emptyRegistry "\<lambda>_. None" 0] by (simp add: keyedServer_def)
qed

section \<open>The ring in use\<close>

text \<open>
  A ring replaced while another request was loading is not overwritten by what that request
  loaded: it is the ring the request uses and the ring that stays.
\<close>

lemma refresh_keeps_replacement:
  assumes "tsGen t' = tsGen (replaceRing at ring t)" "tsRing t' = ring"
    and "nextRing now now' loaded t t' = (used, left)" "loaded = Inr fresh" "tsRefresh t = Some every"
    "0 < every" "every \<le> now - tsLoadedAt t"
  shows "used = ring \<and> left = t'"
  using assms by (auto simp: nextRing_def replaceRing_def)

section \<open>Bounds on sign-ins\<close>

text \<open>The table of sign-ins after any calls, at any times and with any faults.\<close>

inductive pendingTable :: "pending_row list \<Rightarrow> bool" where
  empty: "pendingTable []"
| put: "pendingTable rows \<Longrightarrow> pendingTable (snd (putPending flt now new rows))"
| taken: "pendingTable rows \<Longrightarrow> pendingTable (snd (takePending flt readTime at st rows))"

definition pending_inv :: "pending_row list \<Rightarrow> bool" where
  "pending_inv rows \<longleftrightarrow> length rows \<le> MaxPendingSignIns \<and> distinct (map pState rows)
     \<and> (\<forall>peer. length (filter (\<lambda>p. pPeer p = peer) rows) \<le> MaxPendingSignInsPerPeer)"

lemma pending_inv_filter:
  assumes "pending_inv rows"
  shows "pending_inv (filter P rows)"
proof -
  have "length (filter (\<lambda>p. pPeer p = peer) (filter P rows)) \<le> length (filter (\<lambda>p. pPeer p = peer) rows)" for peer
  proof -
    have "filter (\<lambda>p. pPeer p = peer) (filter P rows) = filter P (filter (\<lambda>p. pPeer p = peer) rows)"
      by (simp add: conj_commute)
    then show ?thesis by (simp only: length_filter_le)
  qed
  with assms show ?thesis unfolding pending_inv_def
    by (meson distinct_map_filter le_trans length_filter_le)
qed

lemma evictPending_length:
  assumes "distinct (map pState rows)" "over \<le> length rows"
  shows "length (evictPending over rows) + over = length rows"
proof -
  let ?V = "set (map pState (take over (sort_key pExpires rows)))"
  let ?in = "filter (\<lambda>p. pState p \<in> ?V) rows"
  have "distinct (map pState (sort_key pExpires rows))" using assms(1) by (simp add: distinct_map)
  then have "distinct (map pState (take over (sort_key pExpires rows)))" by (simp add: distinct_take take_map [symmetric])
  then have "card ?V = over" using assms(2) distinct_card by fastforce
  moreover have "set (map pState ?in) = ?V" by (force dest: in_set_takeD)
  moreover have "length ?in = card (set (map pState ?in))"
    using distinct_card [OF distinct_map_filter [OF assms(1)]] by (metis length_map)
  ultimately have "length ?in = over" by simp
  then show ?thesis using sum_length_filter_compl [of "\<lambda>p. pState p \<in> ?V" rows]
    by (simp add: evictPending_def Let_def)
qed

text \<open>The table once a place is free for another sign-in.\<close>

definition madeRoom :: "string \<Rightarrow> pending_row list \<Rightarrow> pending_row list" where
  "madeRoom now rows =
     (let pruned = prunePending now rows; over = int (length pruned) - int MaxPendingSignIns + 1 in
      if over > 0 then evictPending (nat over) pruned else pruned)"

lemma putPending_cases:
  "snd (putPending flt now new rows) \<in> {rows, prunePending now rows, madeRoom now rows}
   \<or> snd (putPending flt now new rows) = madeRoom now rows @ [new] \<and> pState new \<notin> pState ` set (madeRoom now rows)
     \<and> length (filter (\<lambda>p. pPeer p = pPeer new) (prunePending now rows)) < MaxPendingSignInsPerPeer"
  unfolding putPending_def madeRoom_def Let_def by (simp split: option.split)

lemma madeRoom_filter: "\<exists>P. madeRoom now rows = filter P (prunePending now rows)"
proof (cases "int (length (prunePending now rows)) - int MaxPendingSignIns + 1 > 0")
  case True
  then show ?thesis by (auto simp: madeRoom_def evictPending_def Let_def)
next
  case False
  then show ?thesis by (intro exI [of _ "\<lambda>_. True"]) (simp add: madeRoom_def Let_def)
qed

lemma madeRoom_length:
  assumes "pending_inv rows"
  shows "length (madeRoom now rows) < MaxPendingSignIns"
proof -
  have inv: "pending_inv (prunePending now rows)" using pending_inv_filter [OF assms] by (simp add: prunePending_def)
  let ?n = "length (prunePending now rows)"
  have le: "?n \<le> MaxPendingSignIns" using inv by (simp add: pending_inv_def)
  show ?thesis
  proof (cases "int ?n - int MaxPendingSignIns + 1 > 0")
    case True
    then have over: "nat (int ?n - int MaxPendingSignIns + 1) = 1" using le by simp
    have "length (evictPending 1 (prunePending now rows)) + 1 = ?n"
      using inv True by (intro evictPending_length) (auto simp: pending_inv_def MaxPendingSignIns_def)
    then show ?thesis unfolding madeRoom_def Let_def over using True le by simp
  qed (use le in \<open>simp add: madeRoom_def Let_def\<close>)
qed

lemma putPending_inv:
  assumes "pending_inv rows"
  shows "pending_inv (snd (putPending flt now new rows))"
proof -
  have pruned: "pending_inv (prunePending now rows)" using pending_inv_filter [OF assms] by (simp add: prunePending_def)
  obtain P where P: "madeRoom now rows = filter P (prunePending now rows)" using madeRoom_filter by blast
  have room: "pending_inv (madeRoom now rows)" unfolding P by (rule pending_inv_filter [OF pruned])
  have "pending_inv (madeRoom now rows @ [new])"
    if new: "pState new \<notin> pState ` set (madeRoom now rows)"
      "length (filter (\<lambda>p. pPeer p = pPeer new) (prunePending now rows)) < MaxPendingSignInsPerPeer"
  proof -
    have "filter (\<lambda>p. pPeer p = pPeer new) (madeRoom now rows) = filter P (filter (\<lambda>p. pPeer p = pPeer new) (prunePending now rows))"
      unfolding P by (simp add: conj_commute)
    then have "length (filter (\<lambda>p. pPeer p = pPeer new) (madeRoom now rows)) < MaxPendingSignInsPerPeer"
      using new(2) by (metis length_filter_le le_less_trans)
    then have "length (filter (\<lambda>p. pPeer p = peer) (madeRoom now rows @ [new])) \<le> MaxPendingSignInsPerPeer" for peer
      using room unfolding pending_inv_def by (cases "peer = pPeer new") auto
    with room new(1) madeRoom_length [OF assms, of now] show ?thesis unfolding pending_inv_def by simp
  qed
  with putPending_cases [of flt now new rows] assms pruned room show ?thesis by auto
qed

lemma takePending_cases:
  "snd (takePending flt readTime at st rows) \<in> {rows, filter (\<lambda>q. pState q \<noteq> st) rows}"
  unfolding takePending_def Let_def by (simp split: option.split)

lemma pendingTable_inv: "pendingTable rows \<Longrightarrow> pending_inv rows"
proof (induction rule: pendingTable.induct)
  case (taken rows flt readTime at st)
  then show ?case using takePending_cases [of flt readTime at st rows] pending_inv_filter by auto
qed (simp_all add: putPending_inv, simp add: pending_inv_def)

text \<open>
  C32. Whatever calls are made, at whatever times and with whatever database faults between
  their statements, there are at most 512 sign-ins in flight and at most 32 from one peer,
  and a state names at most one of them.
\<close>

theorem pending_bounded:
  assumes "pendingTable rows"
  shows "length rows \<le> 512 \<and> length (filter (\<lambda>p. pPeer p = peer) rows) \<le> 32 \<and> distinct (map pState rows)"
  using pendingTable_inv [OF assms] by (simp add: pending_inv_def MaxPendingSignIns_def MaxPendingSignInsPerPeer_def)

definition sampleSignIn :: pending_row where
  "sampleSignIn = \<lparr>pState = ''s'', pVerifier = ''v'', pRedirect = ''/'', pPeer = ''p'', pExpires = ''9''\<rparr>"

theorem pending_bounded_witness:
  "distinct (map pState [sampleSignIn]) \<and> length (filter (\<lambda>p. pPeer p = ''p'') [sampleSignIn]) \<le> 32"
proof -
  have "snd (putPending (\<lambda>_. None) ''1'' sampleSignIn []) = [sampleSignIn]" by code_simp
  then have "pendingTable [sampleSignIn]" by (metis pendingTable.empty pendingTable.put)
  from pending_bounded [OF this, of "''p''"] show ?thesis by simp
qed

text \<open>A sign-in is used once: after it is taken, its state is unknown.\<close>

lemma taken_once:
  assumes "takePending flt readTime at st rows = (Inr (Some v), rows')"
  shows "takePending (\<lambda>_. None) readTime' at' st rows' = (Inr None, rows')"
proof -
  have "rows' = filter (\<lambda>q. pState q \<noteq> st) rows"
    using assms by (auto simp: takePending_def Let_def split: option.splits if_splits)
  then have "find (\<lambda>p. pState p = st) rows' = None" by (simp add: find_None_iff)
  then show ?thesis by (simp add: takePending_def)
qed

end
