(* ===== verification/Store_Changes.thy ===== *)
theory Store_Changes
  imports Api_Authz
begin

text \<open>
  The change log of a namespace and the cursors into it (\<^verbatim>\<open>internal/store/changelog.go\<close>, the row
  scopes of \<^verbatim>\<open>scope.go\<close> and the replay check of \<^verbatim>\<open>listen_page.go\<close>): minting change records inside
  a write, cursor tokens with their chains and deadlines, pages of a feed, and pruning. Every
  call runs in one transaction, so an error leaves the database as it was: a definition
  answers the error, or the result with the new database. Each statement can fail, and each
  random draw has its outcome, at an address of the call tree. Times are nanoseconds;
  \<open>stamp\<close> prints one the way the log stores it, and stamps are compared as texts.
\<close>

section \<open>The database\<close>

record change_row =
  seq :: int
  ctTable :: string
  ctRow :: int
  ctKind :: string
  ctOwner :: "string option"
  ctNsgen :: string
  ctDropGen :: int
  ctCommit :: "int option"
  ctAt :: string

record cursorRow =
  Token :: string
  Position :: int
  IssuedAt :: int
  ChainID :: string
  ChainOrigin :: int
  ChainStart :: int
  FeedTable :: string

text \<open>
  \<open>lastSeq\<close> is the counter behind \<^verbatim>\<open>AUTOINCREMENT\<close>: a number is never used twice, even when its row
  is deleted. \<open>dropGens\<close> counts the drops of each table name, \<open>nextCommit\<close> the commits. A stored
  schema is \<open>None\<close> when its text does not decode. Sequence numbers and times are integers;
  only the counters the code bounds stop at the largest 64-bit value.
\<close>

record change_db =
  clog :: "change_row list"
  tokens :: "cursorRow list"
  lastSeq :: int
  nsgen :: string
  dropGens :: "(string \<times> int) list"
  nextCommit :: int
  schemas :: "(string \<times> table_schema option) list"

datatype changes_error =
    SqlError string
  | ErrCursorExpired
  | ErrCursorCrossFeed string string
  | ErrScopedNamespaceFeed
  | ErrScopedFeedPredatesLabels
  | NoOwnerColumn string
  | OwnersMismatch nat nat
  | CorruptChange int nat
  | CorruptNsgen nat
  | TableMissing string
  | BadTableName string name_error
  | CorruptSchema string
  | GuardFailed string
  | RandomFailed string
  | CommitsExhausted

record tick =
  tFault :: "string option"
  tDraw :: "string option"

type_synonym ticks = "nat list \<Rightarrow> tick"

definition sub :: "ticks \<Rightarrow> nat \<Rightarrow> ticks" where
  "sub tk i = (\<lambda>p. tk (i # p))"

text \<open>Run one statement: its fault, or its effect.\<close>

definition stmt :: "ticks \<Rightarrow> (changes_error + 'a) \<Rightarrow> changes_error + 'a" where
  "stmt tk k = (case tFault (tk []) of Some e \<Rightarrow> Inl (SqlError e) | None \<Rightarrow> k)"

lemma stmt_Inr [simp]: "stmt tk k = Inr x \<longleftrightarrow> tFault (tk []) = None \<and> k = Inr x"
  by (simp add: stmt_def split: option.splits)

definition maxInt64 :: int where "maxInt64 = 9223372036854775807"

definition unixMilli :: "int \<Rightarrow> int" where
  "unixMilli t = t div 1000000"

section \<open>Minting change records\<close>

definition changeCommit :: "ticks \<Rightarrow> int \<Rightarrow> change_db \<Rightarrow> changes_error + int \<times> change_db" where
  "changeCommit tk commit db =
     (if commit \<noteq> 0 then Inr (commit, db)
      else stmt tk (if nextCommit db < maxInt64
                    then Inr (nextCommit db + 1, db\<lparr>nextCommit := nextCommit db + 1\<rparr>) else Inl CommitsExhausted))"

definition tableGen :: "ticks \<Rightarrow> change_db \<Rightarrow> string \<Rightarrow> changes_error + int" where
  "tableGen tk db table = stmt tk (Inr (case map_of (dropGens db) table of None \<Rightarrow> 0 | Some g \<Rightarrow> g))"

definition readNSGen :: "ticks \<Rightarrow> change_db \<Rightarrow> changes_error + string" where
  "readNSGen tk db =
     stmt tk (if length (nsgen db) \<noteq> 16 then Inl (CorruptNsgen (length (nsgen db))) else Inr (nsgen db))"

record change_range =
  First :: int
  Last :: int
  Count :: int

text \<open>One \<^verbatim>\<open>INSERT INTO _dolmen_changes\<close>, at the time the database stamps it with.\<close>

definition insertChange ::
    "ticks \<Rightarrow> string \<Rightarrow> string \<Rightarrow> string \<Rightarrow> string \<Rightarrow> int \<Rightarrow> int \<Rightarrow> int \<Rightarrow> string option \<Rightarrow> change_db
       \<Rightarrow> changes_error + int \<times> change_db" where
  "insertChange tk at table kind gen dropGen commit i owner db =
     stmt tk
      (if lastSeq db \<ge> maxInt64 then Inl (SqlError ''full'')
       else
         let s = lastSeq db + 1 in
         Inr (s, db\<lparr>lastSeq := s, clog := clog db @ [\<lparr>seq = s, ctTable = table, ctRow = i, ctKind = kind, ctOwner = owner,
                 ctNsgen = gen, ctDropGen = dropGen, ctCommit = Some commit, ctAt = at\<rparr>]\<rparr>))"

fun insertChanges ::
    "ticks \<Rightarrow> string \<Rightarrow> string \<Rightarrow> string \<Rightarrow> string \<Rightarrow> int \<Rightarrow> int \<Rightarrow> nat \<Rightarrow> int \<Rightarrow> int \<Rightarrow> (int \<times> string option) list
       \<Rightarrow> change_db \<Rightarrow> changes_error + (int \<times> int) \<times> change_db" where
  "insertChanges tk at table kind gen dropGen commit k first final [] db = Inr ((first, final), db)"
| "insertChanges tk at table kind gen dropGen commit k first final ((i, owner) # rest) db =
     bindR (insertChange (sub tk k) at table kind gen dropGen commit i owner db) (\<lambda>(s, db).
       insertChanges tk at table kind gen dropGen commit (Suc k) (if k = 0 then s else first) s rest db)"

text \<open>An empty owner label is stored as null.\<close>

definition ownerLabels :: "int list \<Rightarrow> string list option \<Rightarrow> (int \<times> string option) list" where
  "ownerLabels ids owners =
     (case owners of
        None \<Rightarrow> map (\<lambda>i. (i, None)) ids
      | Some os \<Rightarrow> zip ids (map (\<lambda>o'. if o' = '''' then None else Some o') os))"

text \<open>The commit of the write transaction, zero until one is reserved, is threaded through.\<close>

definition mintChanges ::
    "ticks \<Rightarrow> string \<Rightarrow> int \<Rightarrow> string \<Rightarrow> string \<Rightarrow> int list \<Rightarrow> string list option \<Rightarrow> change_db
       \<Rightarrow> changes_error + (change_range \<times> int) \<times> change_db" where
  "mintChanges tk at w table kind ids owners db =
     (if ids = [] then Inr ((\<lparr>First = 0, Last = 0, Count = 0\<rparr>, w), db)
      else if (case owners of None \<Rightarrow> False | Some os \<Rightarrow> length os \<noteq> length ids) then
        Inl (OwnersMismatch (case owners of None \<Rightarrow> 0 | Some os \<Rightarrow> length os) (length ids))
      else
        bindR (changeCommit (sub tk 0) w db) (\<lambda>(commit, db).
        bindR (tableGen (sub tk 1) db table) (\<lambda>dropGen.
        bindR (readNSGen (sub tk 2) db) (\<lambda>gen.
        bindR (insertChanges (sub tk 3) at table kind gen dropGen commit 0 0 0 (ownerLabels ids owners) db) (\<lambda>((first, final), db).
          Inr ((\<lparr>First = first, Last = final, Count = int (length ids)\<rparr>, commit), db))))))"

definition sameOwner :: "string \<Rightarrow> nat \<Rightarrow> string list option" where
  "sameOwner owner n = (if owner = '''' then None else Some (replicate n owner))"

text \<open>The same from a temporary table of ids and owners, in one statement, by ascending id.\<close>

definition mintChangesFromTemp ::
    "ticks \<Rightarrow> string \<Rightarrow> int \<Rightarrow> string \<Rightarrow> string \<Rightarrow> (int \<times> string option) list \<Rightarrow> change_db
       \<Rightarrow> changes_error + (change_range \<times> int) \<times> change_db" where
  "mintChangesFromTemp tk at w table kind temp db =
     bindR (changeCommit (sub tk 0) w db) (\<lambda>(commit, db).
     bindR (tableGen (sub tk 1) db table) (\<lambda>dropGen.
     bindR (readNSGen (sub tk 2) db) (\<lambda>gen.
       stmt (sub tk 3)
        (bindR (insertChanges (\<lambda>_. \<lparr>tFault = None, tDraw = None\<rparr>) at table kind gen dropGen commit 0 0 0 (sort_key fst temp) db) (\<lambda>((first, final), db).
           let n = int (length temp) in
           Inr ((if n = 0 then \<lparr>First = 0, Last = 0, Count = 0\<rparr> else \<lparr>First = final - n + 1, Last = final, Count = n\<rparr>, commit), db))))))"

section \<open>Cursors\<close>

record cursorChain =
  ccID :: string
  ccOrigin :: int
  ccStart :: int

definition changeHead :: "ticks \<Rightarrow> change_db \<Rightarrow> changes_error + int" where
  "changeHead tk db = stmt tk (Inr (case map seq (clog db) of [] \<Rightarrow> 0 | s # ss \<Rightarrow> foldl max s ss))"

definition minSeq :: "change_row list \<Rightarrow> int option" where
  "minSeq rows = (case map seq rows of [] \<Rightarrow> None | s # ss \<Rightarrow> Some (foldl min s ss))"

definition changeBegin :: "ticks \<Rightarrow> (int \<Rightarrow> string) \<Rightarrow> change_db \<Rightarrow> int \<Rightarrow> int \<Rightarrow> changes_error + int" where
  "changeBegin tk stamp db now retention =
     (if retention \<le> 0 then
        stmt (sub tk 0) (Inr (case minSeq (clog db) of None \<Rightarrow> 0 | Some s \<Rightarrow> s - 1))
      else
        stmt (sub tk 0)
         (case minSeq (filter (\<lambda>c. stamp (now - retention) \<le> ctAt c) (clog db)) of
            None \<Rightarrow> changeHead (sub tk 1) db
          | Some s \<Rightarrow> Inr (s - 1)))"

text \<open>The identifier of a chain is random; when the draw fails it is empty.\<close>

definition newCursorChain :: "ticks \<Rightarrow> int \<Rightarrow> int \<Rightarrow> cursorChain" where
  "newCursorChain tk now position =
     \<lparr>ccID = (case tDraw (tk []) of None \<Rightarrow> '''' | Some i \<Rightarrow> i), ccOrigin = position, ccStart = unixMilli now\<rparr>"

definition mintCursorToken ::
    "ticks \<Rightarrow> int \<Rightarrow> int \<Rightarrow> string \<Rightarrow> cursorChain \<Rightarrow> change_db \<Rightarrow> changes_error + string \<times> change_db" where
  "mintCursorToken tk now position feedTable chain db =
     (case tDraw (tk []) of
        None \<Rightarrow> Inl (RandomFailed ''mint cursor token'')
      | Some cur \<Rightarrow>
          stmt tk
           (if cur \<in> Token ` set (tokens db) then Inl (SqlError ''constraint'')
            else Inr (cur, db\<lparr>tokens := tokens db @ [\<lparr>Token = cur, Position = position, IssuedAt = unixMilli now,
                   ChainID = ccID chain, ChainOrigin = ccOrigin chain, ChainStart = ccStart chain, FeedTable = feedTable\<rparr>]\<rparr>)))"

definition resolveCursorToken ::
    "ticks \<Rightarrow> int \<Rightarrow> int \<Rightarrow> string \<Rightarrow> string \<Rightarrow> change_db \<Rightarrow> changes_error + cursorRow \<times> change_db" where
  "resolveCursorToken tk now retention cur feedTable db =
     stmt (sub tk 0)
      (case find (\<lambda>t. Token t = cur) (tokens db) of
         None \<Rightarrow> Inl ErrCursorExpired
       | Some row \<Rightarrow>
           if FeedTable row \<noteq> feedTable then Inl (ErrCursorCrossFeed (FeedTable row) feedTable)
           else if retention > 0 \<and> unixMilli now > IssuedAt row + retention div 1000000 then Inl ErrCursorExpired
           else if retention > 0 \<and> unixMilli now > ChainStart row + 2 * (retention div 1000000) then Inl ErrCursorExpired
           else
             stmt (sub tk 1)
              (Inr (row, db\<lparr>tokens := map (\<lambda>t. if Token t = cur then t\<lparr>IssuedAt := max (IssuedAt t) (unixMilli now)\<rparr> else t)
                      (tokens db)\<rparr>)))"

definition lowestOrigin :: "cursorRow list \<Rightarrow> int" where
  "lowestOrigin ts = (case map ChainOrigin ts of [] \<Rightarrow> maxInt64 | o' # os \<Rightarrow> foldl min o' os)"

definition pruneChanges :: "ticks \<Rightarrow> (int \<Rightarrow> string) \<Rightarrow> int \<Rightarrow> int \<Rightarrow> change_db \<Rightarrow> changes_error + change_db" where
  "pruneChanges tk stamp now retention db =
     (if retention \<le> 0 then Inr db
      else
        let rms = retention div 1000000; nowMs = unixMilli now in
        stmt (sub tk 0)
         (let ts = filter (\<lambda>t. \<not> IssuedAt t < nowMs - rms) (tokens db) in
          stmt (sub tk 1)
           (let ts = filter (\<lambda>t. \<not> ChainStart t < nowMs - 2 * rms) ts in
            stmt (sub tk 2)
             (Inr (db\<lparr>tokens := ts,
                 clog := filter (\<lambda>c. \<not> (ctAt c < stamp (now - 2 * retention) \<and> seq c \<le> lowestOrigin ts)) (clog db)\<rparr>)))))"

section \<open>Pages\<close>

definition changesPageLimit :: "int \<Rightarrow> int" where
  "changesPageLimit n = (if n \<le> 0 then 100 else if n > 1000 then 1000 else n)"

record change_record =
  rCommit :: int
  rCursor :: string
  rTable :: string
  rRowID :: int
  rKind :: string
  rOwner :: string
  rNsGen :: string
  rDropGen :: int

record loggedChange =
  lcRec :: change_record
  lcSeq :: int

record changeFeed =
  cfTable :: string
  cfNsgen :: string
  cfDropGen :: int

definition inFeed :: "changeFeed option \<Rightarrow> change_row \<Rightarrow> bool" where
  "inFeed feed c =
     (case feed of None \<Rightarrow> True
      | Some f \<Rightarrow> ctTable c = cfTable f \<and> ctDropGen c = cfDropGen f \<and> ctNsgen c = cfNsgen f)"

definition inScope :: "row_scope option \<Rightarrow> change_row \<Rightarrow> bool" where
  "inScope scope c =
     (case scope of None \<Rightarrow> True | Some s \<Rightarrow> if ScopeEmpty s then False else ctOwner c = Some (ScopeOwner s))"

definition tableNotFound :: "string \<Rightarrow> changes_error" where
  "tableNotFound table = (case ValidateTableName table of Inl e \<Rightarrow> BadTableName table e | Inr _ \<Rightarrow> TableMissing table)"

definition loadSchema :: "ticks \<Rightarrow> change_db \<Rightarrow> string \<Rightarrow> changes_error + table_schema" where
  "loadSchema tk db table =
     stmt tk (case map_of (schemas db) table of None \<Rightarrow> Inl (tableNotFound table)
              | Some None \<Rightarrow> Inl (CorruptSchema table) | Some (Some sc) \<Rightarrow> Inr sc)"

definition changeFeedOf :: "ticks \<Rightarrow> change_db \<Rightarrow> string \<Rightarrow> changes_error + changeFeed" where
  "changeFeedOf tk db table =
     bindR (loadSchema (sub tk 0) db table) (\<lambda>_.
     bindR (tableGen (sub tk 1) db table) (\<lambda>dropGen.
     bindR (readNSGen (sub tk 2) db) (\<lambda>gen. Inr \<lparr>cfTable = table, cfNsgen = gen, cfDropGen = dropGen\<rparr>)))"

definition scopeUsable :: "row_scope option \<Rightarrow> table_schema option \<Rightarrow> changes_error + unit" where
  "scopeUsable scope sc =
     (if (case scope of None \<Rightarrow> True | Some s \<Rightarrow> ScopeEmpty s) then Inr ()
      else (case sc of None \<Rightarrow> Inr () | Some t \<Rightarrow> if HasOwner t then Inr () else Inl (NoOwnerColumn (TName t))))"

definition unlabeledChangeInRange :: "ticks \<Rightarrow> change_db \<Rightarrow> int \<Rightarrow> int \<Rightarrow> changeFeed option \<Rightarrow> changes_error + bool" where
  "unlabeledChangeInRange tk db from to feed =
     stmt tk (Inr (list_ex (\<lambda>c. from < seq c \<and> seq c \<le> to \<and> ctOwner c = None \<and> inFeed feed c) (clog db)))"

text \<open>The rows of \<^verbatim>\<open>changePageSQL\<close>: after \<open>from\<close>, up to \<open>to\<close> where it is given, in order, at most \<open>limit\<close>.\<close>

definition changePage :: "int \<Rightarrow> int option \<Rightarrow> int \<Rightarrow> changeFeed option \<Rightarrow> row_scope option \<Rightarrow> change_db \<Rightarrow> change_row list" where
  "changePage from to limit feed scope db =
     take (nat limit) (sort_key seq
       (filter (\<lambda>c. from < seq c \<and> (case to of None \<Rightarrow> True | Some t \<Rightarrow> seq c \<le> t) \<and> inFeed feed c \<and> inScope scope c) (clog db)))"

definition recordOf :: "change_row \<Rightarrow> change_record" where
  "recordOf c = \<lparr>rCommit = (case ctCommit c of None \<Rightarrow> 0 | Some n \<Rightarrow> n), rCursor = '''', rTable = ctTable c, rRowID = ctRow c,
     rKind = ctKind c, rOwner = (case ctOwner c of None \<Rightarrow> '''' | Some o' \<Rightarrow> o'), rNsGen = ctNsgen c, rDropGen = ctDropGen c\<rparr>"

fun scanChangePage :: "change_row list \<Rightarrow> changes_error + loggedChange list" where
  "scanChangePage [] = Inr []"
| "scanChangePage (c # cs) =
     (if length (ctNsgen c) \<noteq> 16 then Inl (CorruptChange (seq c) (length (ctNsgen c)))
      else bindR (scanChangePage cs) (\<lambda>ls. Inr (\<lparr>lcRec = recordOf c, lcSeq = seq c\<rparr> # ls)))"

fun mintRecords ::
    "ticks \<Rightarrow> int \<Rightarrow> string \<Rightarrow> cursorChain \<Rightarrow> nat \<Rightarrow> loggedChange list \<Rightarrow> change_db
       \<Rightarrow> changes_error + change_record list \<times> change_db" where
  "mintRecords tk now feedTable chain k [] db = Inr ([], db)"
| "mintRecords tk now feedTable chain k (l # ls) db =
     bindR (mintCursorToken (sub tk k) now (lcSeq l) feedTable chain db) (\<lambda>(cur, db).
     bindR (mintRecords tk now feedTable chain (Suc k) ls db) (\<lambda>(rs, db).
       Inr ((lcRec l)\<lparr>rCursor := cur\<rparr> # rs, db)))"

definition CursorBegin :: string where "CursorBegin = ''begin''"

definition mintChangeCursors ::
    "ticks \<Rightarrow> int \<Rightarrow> loggedChange list \<Rightarrow> int \<Rightarrow> string \<Rightarrow> string \<Rightarrow> cursorChain \<Rightarrow> change_db
       \<Rightarrow> changes_error + (change_record list \<times> string) \<times> change_db" where
  "mintChangeCursors tk now page_rows resume from feedTable chain db =
     bindR (mintRecords (sub tk 0) now feedTable chain 0 page_rows db) (\<lambda>(records, db).
       if page_rows = [] \<and> from \<noteq> '''' \<and> from \<noteq> CursorBegin then Inr ((records, from), db)
       else
         bindR (mintCursorToken (sub tk 1) now (if page_rows = [] then resume else lcSeq (last page_rows)) feedTable chain db)
           (\<lambda>(next, db). Inr ((records, next), db)))"

definition startPosition ::
    "ticks \<Rightarrow> (int \<Rightarrow> string) \<Rightarrow> int \<Rightarrow> int \<Rightarrow> string \<Rightarrow> string \<Rightarrow> change_db
       \<Rightarrow> changes_error + (int \<times> cursorChain) \<times> change_db" where
  "startPosition tk stamp now retention from table db =
     (if from = '''' then
        bindR (changeHead (sub tk 0) db) (\<lambda>position. Inr ((position, newCursorChain (sub tk 1) now position), db))
      else if from = CursorBegin then
        bindR (changeBegin (sub tk 0) stamp db now retention) (\<lambda>position.
          Inr ((position, newCursorChain (sub tk 1) now position), db))
      else
        bindR (resolveCursorToken (sub tk 0) now retention from table db) (\<lambda>(row, db).
          Inr ((Position row, \<lparr>ccID = ChainID row, ccOrigin = ChainOrigin row, ccStart = ChainStart row\<rparr>), db)))"

text \<open>
  \<open>guard\<close> is the outcome of checking the incarnation the caller's scope was decided on and of
  opening the namespace, both before the transaction begins.
\<close>

definition ChangesSince ::
    "ticks \<Rightarrow> (int \<Rightarrow> string) \<Rightarrow> int \<Rightarrow> int \<Rightarrow> string option \<Rightarrow> string \<Rightarrow> string \<Rightarrow> row_scope option \<Rightarrow> int \<Rightarrow> change_db
       \<Rightarrow> changes_error + (change_record list \<times> string) \<times> change_db" where
  "ChangesSince tk stamp now retention guard table from scope limit db =
     (if scope \<noteq> None \<and> table = '''' then Inl ErrScopedNamespaceFeed
      else
        (case guard of
           Some e \<Rightarrow> Inl (GuardFailed e)
         | None \<Rightarrow>
             stmt (sub tk 0)
              (bindR (if table = '''' then Inr None
                      else bindR (changeFeedOf (sub tk 1) db table) (\<lambda>feed.
                           bindR (loadSchema (sub tk 2) db table) (\<lambda>sc.
                           bindR (scopeUsable scope (Some sc)) (\<lambda>_. Inr (Some feed))))) (\<lambda>feed.
               bindR (startPosition (sub tk 3) stamp now retention from table db) (\<lambda>((position, chain), db).
               bindR (if scope = None then Inr ()
                      else bindR (changeHead (sub tk 4) db) (\<lambda>head.
                           if position < head
                           then bindR (unlabeledChangeInRange (sub tk 5) db position head feed) (\<lambda>stale.
                                  if stale then Inl ErrScopedFeedPredatesLabels else Inr ())
                           else Inr ())) (\<lambda>_.
               stmt (sub tk 6)
                (bindR (scanChangePage (changePage position None (changesPageLimit limit) feed scope db)) (\<lambda>page_rows.
                 bindR (mintChangeCursors (sub tk 7) now page_rows position from table chain db) (\<lambda>(page, db).
                 bindR (pruneChanges (sub tk 8) stamp now retention db) (\<lambda>db.
                   stmt (sub tk 9) (Inr (page, db))))))))))))"

definition changeCount :: "int \<Rightarrow> int \<Rightarrow> changeFeed option \<Rightarrow> change_db \<Rightarrow> int" where
  "changeCount from to feed db = int (length (filter (\<lambda>c. from < seq c \<and> seq c \<le> to \<and> inFeed feed c) (clog db)))"

definition verifyRetained :: "ticks \<Rightarrow> int \<Rightarrow> int \<Rightarrow> int \<Rightarrow> changeFeed option \<Rightarrow> change_db \<Rightarrow> changes_error + unit" where
  "verifyRetained tk from to promised feed db =
     (if from \<ge> to \<or> promised = 0 then Inr ()
      else stmt tk (if changeCount from to feed db \<noteq> promised then Inl ErrCursorExpired else Inr ()))"

end
