(* ===== verification/Store_Feed.thy ===== *)
theory Store_Feed
  imports Store_Changes
begin

text \<open>
  Following a feed loses nothing and repeats nothing. A consumer starts a chain of cursors and
  polls it while writers, other consumers, pruning and schema changes go on in between; as
  long as its cursor resolves, what it has been given is exactly the changes of its feed, in
  order. Pruning consults the chains, so a cursor past its deadline is refused, and never
  answers a shortened page.
\<close>

section \<open>Lists ordered by sequence number\<close>

abbreviation ascending :: "change_row list \<Rightarrow> bool" where
  "ascending \<equiv> sorted_wrt (\<lambda>a b. seq a < seq b)"

lemma ascending_filter: "ascending xs \<Longrightarrow> ascending (filter P xs)"
  by (rule sorted_wrt_filter)

lemma ascending_sort: "ascending xs \<Longrightarrow> sort_key seq xs = xs"
  by (rule sort_key_id_if_sorted) (simp add: sorted_map sorted_wrt_mono_rel [of _ "\<lambda>a b. seq a < seq b"])

lemma filter_upto_take:
  assumes "ascending xs" "take n xs \<noteq> []"
  shows "filter (\<lambda>x. seq x \<le> seq (last (take n xs))) xs = take n xs"
proof -
  have split: "xs = take n xs @ drop n xs" by simp
  have "seq x \<le> seq (last (take n xs))" if "x \<in> set (take n xs)" for x
  proof -
    have "ascending (take n xs)" using assms(1) by (metis split sorted_wrt_append)
    then have "ascending (butlast (take n xs) @ [last (take n xs)])" using assms(2) by simp
    then show ?thesis using that assms(2) unfolding sorted_wrt_append
      by (metis append_butlast_last_id in_set_conv_decomp_first list.set_intros(1) order.strict_implies_order order_refl rotate1.simps(2) set_ConsD set_rotate1)
  qed
  moreover have "\<not> seq x \<le> seq (last (take n xs))" if "x \<in> set (drop n xs)" for x
  proof -
    have "ascending (take n xs @ drop n xs)" using assms(1) by simp
    then have "seq (last (take n xs)) < seq x" using that assms(2) last_in_set unfolding sorted_wrt_append by blast
    then show ?thesis by simp
  qed
  ultimately have "filter (\<lambda>x. seq x \<le> seq (last (take n xs))) (take n xs @ drop n xs) = take n xs"
    by (simp only: filter_append) (simp add: filter_id_conv filter_empty_conv)
  then show ?thesis by simp
qed

lemma filter_ranges:
  assumes "ascending xs" "a \<le> b" "b \<le> c"
  shows "filter (\<lambda>x. a < seq x \<and> seq x \<le> b \<and> m x) xs @ filter (\<lambda>x. b < seq x \<and> seq x \<le> c \<and> m x) xs
    = filter (\<lambda>x. a < seq x \<and> seq x \<le> c \<and> m x) xs"
  using assms(1)
proof (induction xs)
  case (Cons x xs)
  show ?case
  proof (cases "b < seq x")
    case True
    with Cons.prems have "filter (\<lambda>x. a < seq x \<and> seq x \<le> b \<and> m x) xs = []" by (force simp: filter_empty_conv)
    with Cons True assms(2,3) show ?thesis by auto
  next
    case False
    with Cons assms(2,3) show ?thesis by auto
  qed
qed simp

section \<open>What an operation does to the log\<close>

definition log_ok :: "change_db \<Rightarrow> bool" where
  "log_ok db \<longleftrightarrow> ascending (clog db) \<and> (\<forall>c\<in>set (clog db). seq c \<le> lastSeq db) \<and> 0 \<le> lastSeq db"

text \<open>The tables a feed reads, from the counters as they are.\<close>

definition feedNow :: "string \<Rightarrow> change_db \<Rightarrow> changeFeed option" where
  "feedNow table db =
     (if table = '''' then None
      else Some \<lparr>cfTable = table, cfNsgen = nsgen db, cfDropGen = (case map_of (dropGens db) table of None \<Rightarrow> 0 | Some g \<Rightarrow> g)\<rparr>)"

definition sameFeeds :: "change_db \<Rightarrow> change_db \<Rightarrow> bool" where
  "sameFeeds db db' \<longleftrightarrow> nsgen db' = nsgen db \<and> dropGens db' = dropGens db"

lemma feedNow_cong: "sameFeeds db db' \<Longrightarrow> feedNow table db' = feedNow table db"
  by (simp add: sameFeeds_def feedNow_def)

text \<open>Every token called \<open>k\<close> is at position \<open>p\<close> of a chain that began at \<open>p0\<close>.\<close>

definition stands :: "change_db \<Rightarrow> string \<Rightarrow> int \<Rightarrow> int \<Rightarrow> bool" where
  "stands db k p p0 \<longleftrightarrow> (\<forall>t\<in>set (tokens db). Token t = k \<longrightarrow> Position t = p \<and> ChainOrigin t = p0)"

definition known :: "change_db \<Rightarrow> string \<Rightarrow> bool" where
  "known db k \<longleftrightarrow> k \<in> Token ` set (tokens db)"

text \<open>Rows appended to the log.\<close>

definition grows :: "change_db \<Rightarrow> change_row list \<Rightarrow> change_db \<Rightarrow> bool" where
  "grows db new db' \<longleftrightarrow> clog db' = clog db @ new \<and> tokens db' = tokens db \<and> lastSeq db \<le> lastSeq db'
     \<and> ascending new \<and> (\<forall>c\<in>set new. lastSeq db < seq c \<and> seq c \<le> lastSeq db') \<and> sameFeeds db db'"

lemma grows_refl: "grows db [] db"
  by (simp add: grows_def sameFeeds_def)

lemma grows_trans: "grows db n1 db1 \<Longrightarrow> grows db1 n2 db2 \<Longrightarrow> grows db (n1 @ n2) db2"
  unfolding grows_def sameFeeds_def by (fastforce simp: sorted_wrt_append)

lemma changeCommit_grows: "changeCommit tk w db = Inr (c, db') \<Longrightarrow> grows db [] db'"
  by (auto simp: changeCommit_def grows_def sameFeeds_def split: if_splits)

lemma insertChange_grows:
  "insertChange tk at table kind gen dropGen commit i owner db = Inr (s, db') \<Longrightarrow> \<exists>c. grows db [c] db'"
  by (auto simp: insertChange_def grows_def sameFeeds_def Let_def split: if_splits)

lemma insertChanges_grows:
  "insertChanges tk at table kind gen dropGen commit k first final rows db = Inr (r, db') \<Longrightarrow> \<exists>new. grows db new db'"
proof (induction tk at table kind gen dropGen commit k first final rows db rule: insertChanges.induct)
  case (2 tk at table kind gen dropGen commit k first final i owner rest db)
  from "2.prems" obtain s db1 where ins: "insertChange (sub tk k) at table kind gen dropGen commit i owner db = Inr (s, db1)"
    and rest: "insertChanges tk at table kind gen dropGen commit (Suc k) (if k = 0 then s else first) s rest db1 = Inr (r, db')"
    by auto
  from "2.IH" [OF rest] insertChange_grows [OF ins] show ?case by (blast intro: grows_trans)
qed (auto intro: grows_refl)

lemma mintChanges_grows:
  assumes "mintChanges tk at w table kind ids owners db = Inr (r, db')"
  shows "\<exists>new. grows db new db'"
proof (cases "ids = []")
  case True
  then show ?thesis using assms grows_refl by (auto simp: mintChanges_def)
next
  case False
  with assms obtain c db1 dg gen fl where "changeCommit (sub tk 0) w db = Inr (c, db1)"
    "insertChanges (sub tk 3) at table kind gen dg c 0 0 0 (ownerLabels ids owners) db1 = Inr (fl, db')"
    by (auto simp: mintChanges_def split: if_splits)
  then show ?thesis by (blast dest: changeCommit_grows insertChanges_grows intro: grows_trans)
qed

lemma mintChangesFromTemp_grows:
  assumes "mintChangesFromTemp tk at w table kind temp db = Inr (r, db')"
  shows "\<exists>new. grows db new db'"
proof -
  from assms obtain c db1 dg gen fl tk' where "changeCommit (sub tk 0) w db = Inr (c, db1)"
    "insertChanges tk' at table kind gen dg c 0 0 0 (sort_key fst temp) db1 = Inr (fl, db')"
    by (auto simp: mintChangesFromTemp_def Let_def)
  then show ?thesis by (blast dest: changeCommit_grows insertChanges_grows intro: grows_trans)
qed

text \<open>Tokens added or touched, the log as it was.\<close>

definition reissues :: "change_db \<Rightarrow> change_db \<Rightarrow> bool" where
  "reissues db db' \<longleftrightarrow> clog db' = clog db \<and> lastSeq db' = lastSeq db \<and> sameFeeds db db'
     \<and> (\<forall>k. known db k \<longrightarrow> known db' k \<and> (\<forall>p p0. stands db k p p0 \<longrightarrow> stands db' k p p0))"

lemma reissues_refl: "reissues db db"
  by (simp add: reissues_def sameFeeds_def)

lemma reissues_trans: "reissues db db1 \<Longrightarrow> reissues db1 db2 \<Longrightarrow> reissues db db2"
  by (simp add: reissues_def sameFeeds_def)

lemma mintCursorToken_effect:
  assumes "mintCursorToken tk now position feedTable chain db = Inr (cur, db')"
  shows "reissues db db'" "known db' cur" "stands db' cur position (ccOrigin chain)"
proof -
  let ?t = "\<lparr>Token = cur, Position = position, IssuedAt = unixMilli now, ChainID = ccID chain,
    ChainOrigin = ccOrigin chain, ChainStart = ccStart chain, FeedTable = feedTable\<rparr>"
  from assms have db': "db' = db\<lparr>tokens := tokens db @ [?t]\<rparr>" and fresh: "\<not> known db cur"
    by (auto simp: mintCursorToken_def known_def split: option.splits if_splits)
  from fresh have "k \<noteq> cur" if "known db k" for k using that by blast
  then have "\<forall>k. known db k \<longrightarrow> k \<noteq> cur" by blast
  then show "reissues db db'" unfolding db' by (auto simp: reissues_def sameFeeds_def stands_def known_def)
  show "known db' cur" unfolding db' by (simp add: known_def)
  from fresh have "Token t \<noteq> cur" if "t \<in> set (tokens db)" for t using that by (auto simp: known_def)
  then show "stands db' cur position (ccOrigin chain)" unfolding db' by (simp add: stands_def ball_Un)
qed

lemma mintRecords_effect:
  assumes "mintRecords tk now feedTable chain n ls db = Inr (rs, db')"
  shows "reissues db db' \<and> map (\<lambda>r. r\<lparr>rCursor := ''''\<rparr>) rs = map (\<lambda>l. (lcRec l)\<lparr>rCursor := ''''\<rparr>) ls
    \<and> list_all2 (\<lambda>r l. known db' (rCursor r) \<and> stands db' (rCursor r) (lcSeq l) (ccOrigin chain)) rs ls"
  using assms
proof (induction tk now feedTable chain n ls db arbitrary: rs rule: mintRecords.induct)
  case (2 tk now feedTable chain n l ls db)
  from "2.prems" obtain cur db1 rs' where m: "mintCursorToken (sub tk n) now (lcSeq l) feedTable chain db = Inr (cur, db1)"
    and rest: "mintRecords tk now feedTable chain (Suc n) ls db1 = Inr (rs', db')" and rs: "rs = (lcRec l)\<lparr>rCursor := cur\<rparr> # rs'"
    by auto
  note IH = "2.IH" [OF rest] and eff = mintCursorToken_effect [OF m]
  from IH eff have "known db' cur \<and> stands db' cur (lcSeq l) (ccOrigin chain)" by (simp add: reissues_def)
  with IH eff(1) rs show ?case by (auto intro: reissues_trans)
qed (simp add: reissues_refl)

lemma resolveCursorToken_effect:
  assumes "resolveCursorToken tk now retention cur feedTable db = Inr (row, db')"
  shows "reissues db db'" "row \<in> set (tokens db)" "Token row = cur"
proof -
  from assms have "find (\<lambda>t. Token t = cur) (tokens db) = Some row"
    and db': "db' = db\<lparr>tokens := map (\<lambda>t. if Token t = cur then t\<lparr>IssuedAt := max (IssuedAt t) (unixMilli now)\<rparr> else t) (tokens db)\<rparr>"
    by (auto simp: resolveCursorToken_def split: option.splits if_splits)
  then show "row \<in> set (tokens db)" "Token row = cur" by (auto simp: find_Some_iff)
  have "map Token (tokens db') = map Token (tokens db)" unfolding db' by simp
  then have "Token ` set (tokens db') = Token ` set (tokens db)" by (metis set_map)
  moreover have "stands db' k p p0" if "stands db k p p0" for k p p0
    using that unfolding db' by (auto simp: stands_def)
  ultimately show "reissues db db'" unfolding reissues_def known_def by (simp add: db' sameFeeds_def)
qed

text \<open>Pruning drops tokens, and rows at or before the origin of every chain that survives.\<close>

definition prunes :: "change_db \<Rightarrow> change_db \<Rightarrow> bool" where
  "prunes db db' \<longleftrightarrow> lastSeq db' = lastSeq db \<and> sameFeeds db db' \<and> set (tokens db') \<subseteq> set (tokens db)
     \<and> (\<exists>P. clog db' = filter P (clog db) \<and> (\<forall>c\<in>set (clog db). \<forall>t\<in>set (tokens db'). P c \<or> seq c \<le> ChainOrigin t))"

lemma foldl_min_le: "foldl min (x :: int) xs \<le> x \<and> (\<forall>y\<in>set xs. foldl min x xs \<le> y)"
proof (induction xs arbitrary: x)
  case (Cons a xs)
  then have "foldl min (min x a) xs \<le> min x a" "\<forall>y\<in>set xs. foldl min (min x a) xs \<le> y" by blast+
  then show ?case by auto
qed simp

lemma foldl_min_mem: "foldl min (x :: int) xs \<in> insert x (set xs)"
  by (induction xs arbitrary: x) (auto simp: min_def)

lemma foldl_max_mem: "foldl max (x :: int) xs \<in> insert x (set xs)"
  by (induction xs arbitrary: x) (auto simp: max_def)

lemma lowestOrigin_le: "t \<in> set ts \<Longrightarrow> lowestOrigin ts \<le> ChainOrigin t"
  using foldl_min_le by (cases ts) (auto simp: lowestOrigin_def)

lemma prunes_refl: "prunes db db"
  by (auto simp: prunes_def sameFeeds_def intro: exI [of _ "\<lambda>_. True"])

lemma pruneChanges_prunes:
  assumes "pruneChanges tk stamp now retention db = Inr db'"
  shows "prunes db db'"
proof (cases "retention \<le> 0")
  case True
  then show ?thesis using assms by (simp add: pruneChanges_def prunes_refl)
next
  case False
  define ts where "ts = filter (\<lambda>t. \<not> ChainStart t < unixMilli now - 2 * (retention div 1000000))
      (filter (\<lambda>t. \<not> IssuedAt t < unixMilli now - retention div 1000000) (tokens db))"
  have ts: "set ts \<subseteq> set (tokens db)" by (auto simp: ts_def)
  from assms False have db': "db' = db\<lparr>tokens := ts, clog := filter (\<lambda>c. \<not> (ctAt c < stamp (now - 2 * retention) \<and> seq c \<le> lowestOrigin ts)) (clog db)\<rparr>"
    unfolding pruneChanges_def Let_def ts_def by simp
  show ?thesis unfolding db' prunes_def sameFeeds_def using ts lowestOrigin_le
    by (fastforce intro!: exI [of _ "\<lambda>c. \<not> (ctAt c < stamp (now - 2 * retention) \<and> seq c \<le> lowestOrigin ts)"])
qed

section \<open>One page\<close>

lemma changeHead_max:
  assumes "changeHead tk db = Inr h" "log_ok db"
  shows "h \<le> lastSeq db"
proof (cases "clog db")
  case (Cons c cs)
  with assms(1) have "h \<in> seq ` set (clog db)" using foldl_max_mem [of "seq c" "map seq cs"] by (auto simp: changeHead_def)
  then show ?thesis using assms(2) by (auto simp: log_ok_def)
qed (use assms in \<open>auto simp: changeHead_def log_ok_def\<close>)

lemma minSeq_mem: "minSeq rows = Some s \<Longrightarrow> s \<in> seq ` set rows"
  using foldl_min_mem [of "seq (hd rows)" "map seq (tl rows)"] by (cases rows) (auto simp: minSeq_def)

lemma changeBegin_le:
  assumes "changeBegin tk stamp db now retention = Inr p" "log_ok db"
  shows "p \<le> lastSeq db"
proof -
  have below: "s - 1 \<le> lastSeq db" if "minSeq rows = Some s" "set rows \<subseteq> set (clog db)" for rows s
    using minSeq_mem [OF that(1)] that(2) assms(2) by (force simp: log_ok_def)
  have "set (filter (\<lambda>c. stamp (now - retention) \<le> ctAt c) (clog db)) \<subseteq> set (clog db)" by simp
  note below = below [OF _ this] below [OF _ subset_refl]
  have "0 \<le> lastSeq db" using assms(2) by (simp add: log_ok_def)
  with assms below show ?thesis
    by (auto simp: changeBegin_def dest: changeHead_max split: if_splits option.splits)
qed

lemma scanChangePage_rows:
  "scanChangePage rows = Inr ls \<Longrightarrow> map lcRec ls = map recordOf rows \<and> map lcSeq ls = map seq rows"
  by (induction rows arbitrary: ls rule: scanChangePage.induct) (auto split: if_splits)

lemma changeFeedOf_now: "changeFeedOf tk db table = Inr feed \<Longrightarrow> table \<noteq> '''' \<Longrightarrow> feedNow table db = Some feed"
  by (auto simp: changeFeedOf_def tableGen_def readNSGen_def feedNow_def split: if_splits)

lemma ChangesSince_parts:
  assumes "ChangesSince tk stamp now retention guard table from scope limit db = Inr ((recs, next), db')"
  obtains position chain db1 ls db2 where
    "startPosition (sub tk 3) stamp now retention from table db = Inr ((position, chain), db1)"
    "scanChangePage (changePage position None (changesPageLimit limit) (feedNow table db) scope db1) = Inr ls"
    "mintChangeCursors (sub tk 7) now ls position from table chain db1 = Inr ((recs, next), db2)"
    "pruneChanges (sub tk 8) stamp now retention db2 = Inr db'"
proof -
  from assms obtain feed position chain db1 ls db2 where
    feed: "(if table = '''' then Inr None
      else bindR (changeFeedOf (sub tk 1) db table) (\<lambda>feed. bindR (loadSchema (sub tk 2) db table) (\<lambda>sc.
           bindR (scopeUsable scope (Some sc)) (\<lambda>_. Inr (Some feed))))) = Inr feed"
    and parts: "startPosition (sub tk 3) stamp now retention from table db = Inr ((position, chain), db1)"
    "scanChangePage (changePage position None (changesPageLimit limit) feed scope db1) = Inr ls"
    "mintChangeCursors (sub tk 7) now ls position from table chain db1 = Inr ((recs, next), db2)"
    "pruneChanges (sub tk 8) stamp now retention db2 = Inr db'"
    unfolding ChangesSince_def by (auto split: if_splits option.splits)
  have "feed = feedNow table db"
  proof (cases "table = ''''")
    case True
    then show ?thesis using feed by (simp add: feedNow_def)
  next
    case False
    then show ?thesis using feed changeFeedOf_now by auto
  qed
  with parts that show ?thesis by blast
qed


lemma startPosition_effect:
  assumes "startPosition tk stamp now retention from table db = Inr ((position, chain), db1)" "log_ok db"
  shows "reissues db db1"
    and "from = '''' \<or> from = CursorBegin \<Longrightarrow> ccOrigin chain = position \<and> position \<le> lastSeq db"
    and "from \<noteq> '''' \<Longrightarrow> from \<noteq> CursorBegin \<Longrightarrow>
      \<exists>row\<in>set (tokens db). Token row = from \<and> Position row = position \<and> ChainOrigin row = ccOrigin chain"
proof -
  show "reissues db db1" using assms(1) resolveCursorToken_effect(1)
    by (fastforce simp: startPosition_def reissues_refl split: if_splits)
  show "from = '''' \<or> from = CursorBegin \<Longrightarrow> ccOrigin chain = position \<and> position \<le> lastSeq db"
    using assms changeHead_max changeBegin_le by (auto simp: startPosition_def newCursorChain_def split: if_splits)
  assume "from \<noteq> ''''" "from \<noteq> CursorBegin"
  with assms(1) obtain row where "resolveCursorToken (sub tk 0) now retention from table db = Inr (row, db1)"
    "position = Position row" "ccOrigin chain = ChainOrigin row"
    by (auto simp: startPosition_def)
  then show "\<exists>row\<in>set (tokens db). Token row = from \<and> Position row = position \<and> ChainOrigin row = ccOrigin chain"
    using resolveCursorToken_effect(2,3) by fastforce
qed

lemma mintChangeCursors_effect:
  assumes "mintChangeCursors tk now ls position from table chain db = Inr ((recs, next), db')"
  shows "reissues db db'" "map (\<lambda>r. r\<lparr>rCursor := ''''\<rparr>) recs = map (\<lambda>l. (lcRec l)\<lparr>rCursor := ''''\<rparr>) ls"
    "list_all2 (\<lambda>r l. stands db' (rCursor r) (lcSeq l) (ccOrigin chain)) recs ls"
    "ls = [] \<and> next = from \<and> from \<noteq> '''' \<and> from \<noteq> CursorBegin
      \<or> stands db' next (if ls = [] then position else lcSeq (last ls)) (ccOrigin chain)"
proof -
  from assms obtain db1 where m: "mintRecords (sub tk 0) now table chain 0 ls db = Inr (recs, db1)"
    and nxt: "ls = [] \<and> next = from \<and> from \<noteq> '''' \<and> from \<noteq> CursorBegin \<and> db' = db1 \<or>
      mintCursorToken (sub tk 1) now (if ls = [] then position else lcSeq (last ls)) table chain db1 = Inr (next, db')"
    by (auto simp: mintChangeCursors_def split: if_splits)
  note recs = mintRecords_effect [OF m]
  from nxt have re: "reissues db1 db'" using mintCursorToken_effect(1) reissues_refl by auto
  with recs show "reissues db db'" by (blast intro: reissues_trans)
  from recs show "map (\<lambda>r. r\<lparr>rCursor := ''''\<rparr>) recs = map (\<lambda>l. (lcRec l)\<lparr>rCursor := ''''\<rparr>) ls" by blast
  from recs have "list_all2 (\<lambda>r l. known db1 (rCursor r) \<and> stands db1 (rCursor r) (lcSeq l) (ccOrigin chain)) recs ls" by blast
  then show "list_all2 (\<lambda>r l. stands db' (rCursor r) (lcSeq l) (ccOrigin chain)) recs ls"
    by (rule list_all2_mono) (use re in \<open>simp add: reissues_def\<close>)
  from nxt show "ls = [] \<and> next = from \<and> from \<noteq> '''' \<and> from \<noteq> CursorBegin
      \<or> stands db' next (if ls = [] then position else lcSeq (last ls)) (ccOrigin chain)"
    using mintCursorToken_effect(3) by auto
qed

lemma prunes_stands: "prunes db db' \<Longrightarrow> stands db k p p0 \<Longrightarrow> stands db' k p p0"
  by (auto simp: prunes_def stands_def)

lemma prunes_keeps:
  assumes "prunes db db'" "known db' k" "stands db' k p p0"
  shows "filter (\<lambda>c. p0 < seq c) (clog db') = filter (\<lambda>c. p0 < seq c) (clog db)"
proof -
  from assms(1) obtain P where P: "clog db' = filter P (clog db)"
    "\<And>c t. c \<in> set (clog db) \<Longrightarrow> t \<in> set (tokens db') \<Longrightarrow> P c \<or> seq c \<le> ChainOrigin t" by (auto simp: prunes_def)
  from assms(2,3) obtain t where "t \<in> set (tokens db')" "ChainOrigin t = p0" by (auto simp: known_def stands_def)
  with P(2) have "P c \<or> \<not> p0 < seq c" if "c \<in> set (clog db)" for c using that by fastforce
  then show ?thesis unfolding P(1) filter_filter by (intro filter_cong) auto
qed

lemma prunes_log_ok: "prunes db db' \<Longrightarrow> log_ok db \<Longrightarrow> log_ok db'"
  by (auto simp: prunes_def log_ok_def ascending_filter)

lemma reissues_log_ok: "reissues db db' \<Longrightarrow> log_ok db \<Longrightarrow> log_ok db'"
  by (simp add: reissues_def log_ok_def)


section \<open>Runs\<close>

text \<open>
  What else happens in the namespace: writes mint changes, other readers page and prune,
  tables are created and dropped.
\<close>

inductive db_step :: "change_db \<Rightarrow> change_db \<Rightarrow> bool" where
  Write: "mintChanges tk at w table kind ids owners db = Inr (r, db') \<Longrightarrow> db_step db db'"
| WriteTemp: "mintChangesFromTemp tk at w table kind temp db = Inr (r, db') \<Longrightarrow> db_step db db'"
| Read: "ChangesSince tk stamp now retention guard table from scope limit db = Inr (page, db') \<Longrightarrow> db_step db db'"
| Prune: "pruneChanges tk stamp now retention db = Inr db' \<Longrightarrow> db_step db db'"
| Tables: "db_step db (db\<lparr>dropGens := gens, schemas := scs\<rparr>)"

definition appended :: "change_db \<Rightarrow> change_db \<Rightarrow> change_row list" where
  "appended db db' = filter (\<lambda>c. lastSeq db < seq c) (clog db')"

text \<open>
  A consumer goes on from the cursor of the page, having taken all of it, or from the cursor
  of the last record it took.
\<close>

definition taken :: "change_record list \<Rightarrow> string \<Rightarrow> change_record list \<Rightarrow> string \<Rightarrow> bool" where
  "taken recs next out k \<longleftrightarrow>
     out = recs \<and> k = next \<or> (\<exists>j<length recs. out = take (Suc j) recs \<and> k = rCursor (recs ! j))"

text \<open>
  \<open>follow \<dots> p0 H db k out\<close>: a consumer that started at \<open>p0\<close> holds the cursor \<open>k\<close> and has been
  given \<open>out\<close>; \<open>H\<close> is the log at its start with every row appended since. Tokens are drawn at
  random and long, so one that is gone is not drawn again.
\<close>

inductive follow :: "string \<Rightarrow> row_scope option \<Rightarrow> int \<Rightarrow> change_row list \<Rightarrow> change_db \<Rightarrow> string \<Rightarrow> change_record list \<Rightarrow> bool"
  for table scope where
  Start: "log_ok db \<Longrightarrow> from = '''' \<or> from = CursorBegin
    \<Longrightarrow> startPosition (sub tk 3) stamp now retention from table db = Inr ((p0, chain), db1)
    \<Longrightarrow> ChangesSince tk stamp now retention guard table from scope limit db = Inr ((recs, next), db')
    \<Longrightarrow> taken recs next out k \<Longrightarrow> follow table scope p0 (clog db) db' k out"
| Env: "follow table scope p0 H db k out \<Longrightarrow> db_step db db' \<Longrightarrow> feedNow table db' = feedNow table db
    \<Longrightarrow> known db' k \<longrightarrow> known db k \<Longrightarrow> follow table scope p0 (H @ appended db db') db' k out"
| Poll: "follow table scope p0 H db k out \<Longrightarrow> k \<noteq> '''' \<Longrightarrow> k \<noteq> CursorBegin
    \<Longrightarrow> ChangesSince tk stamp now retention guard table k scope limit db = Inr ((recs, next), db')
    \<Longrightarrow> taken recs next more_out k' \<Longrightarrow> follow table scope p0 H db' k' (out @ more_out)"

text \<open>What a run keeps.\<close>

definition between :: "string \<Rightarrow> row_scope option \<Rightarrow> change_db \<Rightarrow> int \<Rightarrow> int \<Rightarrow> change_row list \<Rightarrow> change_row list" where
  "between table scope db p0 p H =
     filter (\<lambda>c. p0 < seq c \<and> seq c \<le> p \<and> inFeed (feedNow table db) c \<and> inScope scope c) H"

definition follow_pre :: "int \<Rightarrow> change_row list \<Rightarrow> change_db \<Rightarrow> int \<Rightarrow> bool" where
  "follow_pre p0 H db p \<longleftrightarrow> log_ok db \<and> p0 \<le> p \<and> p \<le> lastSeq db \<and> ascending H \<and> (\<forall>c\<in>set H. seq c \<le> lastSeq db)
     \<and> filter (\<lambda>c. p0 < seq c) (clog db) = filter (\<lambda>c. p0 < seq c) H"

definition follow_inv :: "int \<Rightarrow> change_row list \<Rightarrow> change_db \<Rightarrow> string \<Rightarrow> int \<Rightarrow> bool" where
  "follow_inv p0 H db k p \<longleftrightarrow> log_ok db \<and> p0 \<le> p \<and> p \<le> lastSeq db \<and> ascending H \<and> (\<forall>c\<in>set H. seq c \<le> lastSeq db)
     \<and> stands db k p p0 \<and> (known db k \<longrightarrow> filter (\<lambda>c. p0 < seq c) (clog db) = filter (\<lambda>c. p0 < seq c) H)"

text \<open>What a page from \<open>position\<close> on delivers: the rows up to the new position, no other.\<close>

lemma page_between:
  assumes "follow_pre p0 H db p" and rows: "rows = changePage p None n (feedNow table db) scope db"
    and "j < length rows"
  shows "take (Suc j) rows = between table scope db p (seq (rows ! j)) H" "p < seq (rows ! j)" "seq (rows ! j) \<le> lastSeq db"
proof -
  let ?m = "\<lambda>c. inFeed (feedNow table db) c \<and> inScope scope c"
  let ?F = "filter (\<lambda>c. p < seq c \<and> ?m c) H"
  from assms(1) have asc: "ascending (clog db)" "ascending H" "p0 \<le> p" by (auto simp: follow_pre_def log_ok_def)
  have "filter (\<lambda>c. p < seq c \<and> ?m c) (clog db) = filter (\<lambda>c. p < seq c \<and> ?m c) (filter (\<lambda>c. p0 < seq c) (clog db))"
    using asc(3) by (auto simp: filter_filter intro: filter_cong)
  also have "\<dots> = filter (\<lambda>c. p < seq c \<and> ?m c) (filter (\<lambda>c. p0 < seq c) H)"
    using assms(1) by (simp add: follow_pre_def)
  also have "\<dots> = ?F" using asc(3) by (auto simp: filter_filter intro: filter_cong)
  finally have F: "filter (\<lambda>c. p < seq c \<and> ?m c) (clog db) = ?F" .
  have rowsF: "rows = take (nat n) ?F"
    unfolding rows changePage_def option.case simp_thms F ascending_sort [OF ascending_filter [OF asc(2)]] ..
  then have "take (Suc j) rows = take (Suc j) ?F" using assms(3) by (simp add: min.absorb1)
  moreover have "last (take (Suc j) ?F) = rows ! j" using assms(3) rowsF by (simp add: take_Suc_conv_app_nth)
  moreover have "take (Suc j) ?F \<noteq> []" using assms(3) rowsF by auto
  ultimately have "take (Suc j) rows = filter (\<lambda>x. seq x \<le> seq (rows ! j)) ?F"
    using filter_upto_take [OF ascending_filter [OF asc(2)], of "Suc j"] by metis
  then show "take (Suc j) rows = between table scope db p (seq (rows ! j)) H"
    by (auto simp: between_def filter_filter intro: filter_cong)
  have "rows ! j \<in> set ?F" using assms(3) rowsF by (metis in_set_takeD nth_mem)
  then show "p < seq (rows ! j)" "seq (rows ! j) \<le> lastSeq db" using assms(1) by (auto simp: follow_pre_def)
qed


lemma between_empty: "between table scope db p p H = []"
  by (auto simp: between_def filter_empty_conv)

lemma follow_inv_after:
  assumes "follow_pre p0 H db p" "reissues db db2" "prunes db2 db'" "stands db2 k p' p0" "p \<le> p'" "p' \<le> lastSeq db"
  shows "follow_inv p0 H db' k p'"
proof -
  have st: "stands db' k p' p0" using assms(3,4) by (rule prunes_stands)
  have ok: "log_ok db'" using assms(1,2,3) by (auto simp: follow_pre_def intro: prunes_log_ok reissues_log_ok)
  have same: "lastSeq db' = lastSeq db" "clog db2 = clog db" using assms(2,3) by (auto simp: reissues_def prunes_def)
  have "filter (\<lambda>c. p0 < seq c) (clog db') = filter (\<lambda>c. p0 < seq c) H" if "known db' k"
    using prunes_keeps [OF assms(3) that st] assms(1) same(2) by (simp add: follow_pre_def)
  then show ?thesis using st ok same(1) assms(1,5,6) by (auto simp: follow_inv_def follow_pre_def)
qed

text \<open>What a call does: the rows of its page with cursors of its chain, and a cursor to go on from.\<close>

lemma ChangesSince_effect:
  assumes page: "ChangesSince tk stamp now retention guard table from scope limit db = Inr ((recs, next), db')"
    and start: "startPosition (sub tk 3) stamp now retention from table db = Inr ((p, chain), db1)"
    and ok: "log_ok db" and rows: "rows = changePage p None (changesPageLimit limit) (feedNow table db) scope db"
  obtains db2 where "reissues db db2" "prunes db2 db'"
    "map (\<lambda>r. r\<lparr>rCursor := ''''\<rparr>) recs = map recordOf rows"
    "list_all2 (\<lambda>r c. stands db2 (rCursor r) (seq c) (ccOrigin chain)) recs rows"
    "rows = [] \<and> next = from \<and> from \<noteq> '''' \<and> from \<noteq> CursorBegin
      \<or> stands db2 next (if rows = [] then p else seq (last rows)) (ccOrigin chain)"
proof -
  from page obtain ls db2 where
    scan: "scanChangePage (changePage p None (changesPageLimit limit) (feedNow table db) scope db1) = Inr ls"
    and mint: "mintChangeCursors (sub tk 7) now ls p from table chain db1 = Inr ((recs, next), db2)"
    and prune: "pruneChanges (sub tk 8) stamp now retention db2 = Inr db'"
    by (rule ChangesSince_parts) (use start in auto)
  note r1 = startPosition_effect(1) [OF start ok] and eff = mintChangeCursors_effect [OF mint]
  have "changePage p None (changesPageLimit limit) (feedNow table db) scope db1 = rows"
    using r1 by (simp add: rows changePage_def reissues_def)
  then have ls: "map lcRec ls = map recordOf rows" "map lcSeq ls = map seq rows" using scanChangePage_rows [OF scan] by auto
  have "map (\<lambda>r. r\<lparr>rCursor := ''''\<rparr>) recs = map (\<lambda>r. r\<lparr>rCursor := ''''\<rparr>) (map lcRec ls)" using eff(2) by (simp add: comp_def)
  then have recs: "map (\<lambda>r. r\<lparr>rCursor := ''''\<rparr>) recs = map recordOf rows" unfolding ls(1) by (simp add: recordOf_def comp_def)
  have "list_all2 (\<lambda>r s. stands db2 (rCursor r) s (ccOrigin chain)) recs (map lcSeq ls)"
    using eff(3) by (simp add: list.rel_map)
  then have cursors: "list_all2 (\<lambda>r c. stands db2 (rCursor r) (seq c) (ccOrigin chain)) recs rows"
    unfolding ls(2) by (simp add: list.rel_map)
  have empty: "ls = [] \<longleftrightarrow> rows = []" and "rows \<noteq> [] \<Longrightarrow> lcSeq (last ls) = seq (last rows)"
    using ls(2) by (metis map_is_Nil_conv, metis last_map map_is_Nil_conv)
  then have "rows = [] \<and> next = from \<and> from \<noteq> '''' \<and> from \<noteq> CursorBegin
      \<or> stands db2 next (if rows = [] then p else seq (last rows)) (ccOrigin chain)" using eff(4) by auto
  with reissues_trans [OF r1 eff(1)] pruneChanges_prunes [OF prune] recs cursors show ?thesis by (rule that)
qed

text \<open>A page, taken whole or in part, extends what was delivered to the position of the new cursor.\<close>

lemma page_step:
  assumes page: "ChangesSince tk stamp now retention guard table from scope limit db = Inr ((recs, next), db')"
    and taken: "taken recs next out k" and pre: "follow_pre p0 H db p"
    and start: "startPosition (sub tk 3) stamp now retention from table db = Inr ((p, chain), db1)" "ccOrigin chain = p0"
    and at: "from \<noteq> '''' \<and> from \<noteq> CursorBegin \<longrightarrow> stands db from p p0"
  shows "\<exists>p'. follow_inv p0 H db' k p' \<and> p \<le> p' \<and> feedNow table db' = feedNow table db
    \<and> map (\<lambda>r. r\<lparr>rCursor := ''''\<rparr>) out = map recordOf (between table scope db p p' H)"
proof -
  define rows where "rows = changePage p None (changesPageLimit limit) (feedNow table db) scope db"
  have ok: "log_ok db" using pre by (simp add: follow_pre_def)
  obtain db2 where re: "reissues db db2" and pr: "prunes db2 db'"
    and recs: "map (\<lambda>r. r\<lparr>rCursor := ''''\<rparr>) recs = map recordOf rows"
    and cursors: "list_all2 (\<lambda>r c. stands db2 (rCursor r) (seq c) p0) recs rows"
    and nxt: "rows = [] \<and> next = from \<and> from \<noteq> '''' \<and> from \<noteq> CursorBegin
      \<or> stands db2 next (if rows = [] then p else seq (last rows)) p0"
    using ChangesSince_effect [OF page start(1) ok rows_def] unfolding start(2) by metis
  have len: "length recs = length rows" using cursors by (rule list_all2_lengthD)
  have feed: "feedNow table db' = feedNow table db" using re pr by (metis reissues_def prunes_def feedNow_cong)
  have upto: "\<exists>p'. follow_inv p0 H db' k p' \<and> p \<le> p' \<and> feedNow table db' = feedNow table db
    \<and> map (\<lambda>r. r\<lparr>rCursor := ''''\<rparr>) out = map recordOf (between table scope db p p' H)"
    if j: "j < length rows" "out = take (Suc j) recs" "stands db2 k (seq (rows ! j)) p0" for j
  proof (intro exI conjI)
    note pb = page_between [OF pre rows_def j(1)]
    show "follow_inv p0 H db' k (seq (rows ! j))" using pb by (intro follow_inv_after [OF pre re pr j(3)]) auto
    show "p \<le> seq (rows ! j)" using pb by simp
    show "map (\<lambda>r. r\<lparr>rCursor := ''''\<rparr>) out = map recordOf (between table scope db p (seq (rows ! j)) H)"
      unfolding j(2) pb(1) [symmetric] take_map [symmetric] recs ..
  qed (rule feed)
  consider (part) j where "j < length rows" "out = take (Suc j) recs" "k = rCursor (recs ! j)"
    | (none) "rows = []" "out = []" "k = next" | (all) "rows \<noteq> []" "out = recs" "k = next"
    using taken len unfolding taken_def by (cases "rows = []") auto
  then show ?thesis
  proof cases
    case part
    then have "stands db2 k (seq (rows ! j)) p0" using list_all2_nthD [OF cursors] len by auto
    then show ?thesis using part by (intro upto) auto
  next
    case none
    have "known db from" if "from \<noteq> ''''" "from \<noteq> CursorBegin"
      using startPosition_effect(3) [OF start(1) ok] that by (auto simp: known_def)
    then have "stands db2 k p p0" using none nxt re at by (auto simp: reissues_def)
    then have "follow_inv p0 H db' k p" using pre by (intro follow_inv_after [OF pre re pr]) (auto simp: follow_pre_def)
    then show ?thesis using none feed by (intro exI [of _ p]) (simp add: between_empty)
  next
    case all
    then have "stands db2 k (seq (rows ! (length rows - 1))) p0" using nxt by (simp add: last_conv_nth)
    then show ?thesis using all len by (intro upto) auto
  qed
qed

lemma grows_step:
  assumes "follow_inv p0 H db k p" "grows db new db'"
  shows "follow_inv p0 (H @ appended db db') db' k p"
proof -
  from assms have "appended db db' = new" by (fastforce simp: appended_def grows_def follow_inv_def log_ok_def filter_empty_conv filter_id_conv)
  moreover have "log_ok db'" using assms by (fastforce simp: grows_def follow_inv_def log_ok_def sorted_wrt_append)
  ultimately show ?thesis using assms by (fastforce simp: grows_def follow_inv_def sorted_wrt_append stands_def known_def)
qed

lemma prunes_step:
  assumes "follow_inv p0 H db k p" "reissues db db2" "prunes db2 db'" "known db' k \<longrightarrow> known db k"
  shows "follow_inv p0 (H @ appended db db') db' k p"
proof -
  from assms(1) have ok: "log_ok db" by (simp add: follow_inv_def)
  from assms(2,3) have same: "clog db2 = clog db" "lastSeq db' = lastSeq db" by (auto simp: reissues_def prunes_def)
  have ok': "log_ok db'" using ok assms(2,3) by (blast intro: prunes_log_ok reissues_log_ok)
  then have "appended db db' = []" using same(2) by (auto simp: appended_def log_ok_def filter_empty_conv)
  moreover have "stands db' k p p0 \<and> filter (\<lambda>c. p0 < seq c) (clog db') = filter (\<lambda>c. p0 < seq c) H" if "known db' k"
  proof -
    have "stands db' k p p0" using that assms by (auto simp: follow_inv_def reissues_def intro: prunes_stands)
    with prunes_keeps [OF assms(3) that this] that assms(1,4) same(1) show ?thesis by (simp add: follow_inv_def)
  qed
  moreover have "stands db' k p p0" if "\<not> known db' k" using that by (auto simp: known_def stands_def)
  ultimately show ?thesis using ok' same(2) assms(1) by (auto simp: follow_inv_def)
qed

lemma db_step_inv:
  assumes "db_step db db'" "follow_inv p0 H db k p" "known db' k \<longrightarrow> known db k"
  shows "follow_inv p0 (H @ appended db db') db' k p"
  using assms(1)
proof cases
  case (Read tk stamp now retention guard table "from" scope limit page)
  then obtain recs nxt where page: "ChangesSince tk stamp now retention guard table from scope limit db = Inr ((recs, nxt), db')"
    by (cases page) auto
  have ok: "log_ok db" using assms(2) by (simp add: follow_inv_def)
  from page obtain p chain db1 where "startPosition (sub tk 3) stamp now retention from table db = Inr ((p, chain), db1)"
    by (rule ChangesSince_parts)
  from ChangesSince_effect [OF page this ok refl] obtain db2 where "reissues db db2" "prunes db2 db'" by metis
  then show ?thesis using assms by (intro prunes_step) auto
next
  case (Tables gens scs)
  then have "appended db db' = []" "clog db' = clog db" "tokens db' = tokens db" "lastSeq db' = lastSeq db"
    using assms(2) by (auto simp: appended_def follow_inv_def log_ok_def filter_empty_conv)
  then show ?thesis using assms(2) by (simp add: follow_inv_def log_ok_def stands_def known_def)
qed (use assms in \<open>blast dest: mintChanges_grows mintChangesFromTemp_grows intro: grows_step,
  blast dest: mintChanges_grows mintChangesFromTemp_grows intro: grows_step, blast dest: pruneChanges_prunes intro: prunes_step reissues_refl\<close>)

lemma between_append:
  assumes "follow_inv p0 H db k p"
  shows "between table scope db' p0 p (H @ appended db db'') = between table scope db' p0 p H"
  using assms by (auto simp: between_def appended_def follow_inv_def filter_empty_conv)

lemma follow_invariant:
  assumes "follow table scope p0 H db k out"
  shows "\<exists>p. follow_inv p0 H db k p
    \<and> map (\<lambda>r. r\<lparr>rCursor := ''''\<rparr>) out = map recordOf (between table scope db p0 p H)"
  using assms
proof induction
  case (Start db "from" tk stamp now retention p0 chain db1 guard limit recs "next" db' out k)
  note st = startPosition_effect(2) [OF Start.hyps(3,1,2)]
  then have "follow_pre p0 (clog db) db p0" using Start.hyps(1) by (simp add: follow_pre_def log_ok_def)
  from page_step [OF Start.hyps(4,5) this Start.hyps(3)] st Start.hyps(2) show ?case by (fastforce simp: between_def)
next
  case (Env p0 H db k out db')
  then obtain p where inv: "follow_inv p0 H db k p"
    and out: "map (\<lambda>r. r\<lparr>rCursor := ''''\<rparr>) out = map recordOf (between table scope db p0 p H)" by blast
  have "between table scope db' p0 p (H @ appended db db') = between table scope db p0 p H"
    unfolding between_append [OF inv] using Env.hyps(3) by (simp add: between_def)
  with db_step_inv [OF Env.hyps(2) inv Env.hyps(4)] out show ?case by auto
next
  case (Poll p0 H db k out tk stamp now retention guard limit recs "next" db' more_out k')
  then obtain p where inv: "follow_inv p0 H db k p"
    and out: "map (\<lambda>r. r\<lparr>rCursor := ''''\<rparr>) out = map recordOf (between table scope db p0 p H)" by blast
  from inv have ok: "log_ok db" "ascending H" "p0 \<le> p" and st: "stands db k p p0" by (simp_all add: follow_inv_def)
  from Poll.hyps(4) obtain p1 chain db1
    where start: "startPosition (sub tk 3) stamp now retention k table db = Inr ((p1, chain), db1)"
    by (rule ChangesSince_parts)
  from startPosition_effect(3) [OF start ok(1) Poll.hyps(2,3)] st have p1: "p1 = p" "ccOrigin chain = p0" "known db k"
    by (auto simp: stands_def known_def)
  then have "follow_pre p0 H db p" using inv by (simp add: follow_inv_def follow_pre_def)
  from page_step [OF Poll.hyps(4,5) this start [unfolded p1] p1(2)] st obtain p' where inv': "follow_inv p0 H db' k' p'" and
    le: "p \<le> p'" and feed: "feedNow table db' = feedNow table db" and
    out': "map (\<lambda>r. r\<lparr>rCursor := ''''\<rparr>) more_out = map recordOf (between table scope db p p' H)" by auto
  have "between table scope db p0 p H @ between table scope db p p' H = between table scope db p0 p' H"
    unfolding between_def using filter_ranges [OF ok(2,3) le, of "\<lambda>c. inFeed (feedNow table db) c \<and> inScope scope c"] by simp
  then have "map (\<lambda>r. r\<lparr>rCursor := ''''\<rparr>) (out @ more_out) = map recordOf (between table scope db' p0 p' H)"
    unfolding between_def feed map_append out out' by (metis map_append)
  with inv' show ?case by blast
qed


section \<open>The contract of a feed\<close>

text \<open>
  C6. A consumer that starts a feed and follows its cursors, from page to page or from record to
  record, while writers, other consumers, pruning and table changes go on in between, has been
  given exactly the changes of its feed and scope after its start and up to some position, in
  order, each once, whatever the page limits.
\<close>

theorem feed_exactly_once:
  assumes "follow table scope p0 H db k out"
  shows "\<exists>p. map (\<lambda>r. r\<lparr>rCursor := ''''\<rparr>) out = map recordOf
      (filter (\<lambda>c. p0 < seq c \<and> seq c \<le> p \<and> inFeed (feedNow table db) c \<and> inScope scope c) H)"
  using follow_invariant [OF assms] unfolding between_def by blast

text \<open>A chain with rows beyond its origin gone has no token left.\<close>

lemma lost_rows_no_token:
  assumes "follow table scope p0 H db k out" "c \<in> set H" "p0 < seq c" "c \<notin> set (clog db)"
  shows "\<not> known db k"
proof
  assume "known db k"
  with follow_invariant [OF assms(1)] have "filter (\<lambda>c. p0 < seq c) (clog db) = filter (\<lambda>c. p0 < seq c) H"
    by (auto simp: follow_inv_def)
  moreover have "c \<in> set (filter (\<lambda>c. p0 < seq c) H)" using assms(2,3) by simp
  ultimately have "c \<in> set (clog db)" by (metis filter_set filter_is_subset subsetD)
  with assms(4) show False ..
qed

lemma unknown_expires:
  assumes "\<not> known db k" "k \<noteq> ''''" "k \<noteq> CursorBegin"
  shows "startPosition tk stamp now retention k table db = (case tFault (tk [0, 0]) of None \<Rightarrow> Inl ErrCursorExpired | Some e \<Rightarrow> Inl (SqlError e))"
proof -
  have "find (\<lambda>t. Token t = k) (tokens db) = None" using assms(1) by (auto simp: find_None_iff known_def)
  then show ?thesis using assms(2,3) by (simp add: startPosition_def resolveCursorToken_def stmt_def sub_def split: option.splits)
qed

text \<open>The feed of a call can be read: the whole namespace, or a table that is there and allows the scope.\<close>

definition feedReadable :: "ticks \<Rightarrow> change_db \<Rightarrow> string \<Rightarrow> row_scope option \<Rightarrow> bool" where
  "feedReadable tk db table scope \<longleftrightarrow>
     (if table = '''' then scope = None
      else (\<exists>f. changeFeedOf (sub tk 1) db table = Inr f)
        \<and> (case loadSchema (sub tk 2) db table of Inl _ \<Rightarrow> False | Inr sc \<Rightarrow> scopeUsable scope (Some sc) = Inr ()))"

lemma lost_rows_error:
  assumes "follow table scope p0 H db k out" "c \<in> set H" "p0 < seq c" "c \<notin> set (clog db)" "k \<noteq> ''''" "k \<noteq> CursorBegin"
  shows "\<exists>e. ChangesSince tk stamp now retention guard table k scope limit db = Inl e"
    and "guard = None \<Longrightarrow> feedReadable tk db table scope \<Longrightarrow> tFault (tk [0]) = None \<Longrightarrow> tFault (tk [3, 0, 0]) = None
      \<Longrightarrow> ChangesSince tk stamp now retention guard table k scope limit db = Inl ErrCursorExpired"
proof -
  note expired = unknown_expires [OF lost_rows_no_token [OF assms(1-4)] assms(5,6)]
  show "\<exists>e. ChangesSince tk stamp now retention guard table k scope limit db = Inl e"
  proof (cases "ChangesSince tk stamp now retention guard table k scope limit db")
    case (Inr r)
    then obtain recs nxt db' where "ChangesSince tk stamp now retention guard table k scope limit db = Inr ((recs, nxt), db')"
      by (cases r) auto
    then show ?thesis by (rule ChangesSince_parts) (simp add: expired split: option.splits)
  qed blast
  assume asm: "guard = None" "feedReadable tk db table scope" "tFault (tk [0]) = None" "tFault (tk [3, 0, 0]) = None"
  have start: "startPosition (sub tk 3) stamp now retention k table db = Inl ErrCursorExpired"
    using asm(4) expired by (simp add: sub_def)
  have st: "stmt (sub tk 0) x = x" for x :: "changes_error + 'a" using asm(3) by (simp add: stmt_def sub_def)
  show "ChangesSince tk stamp now retention guard table k scope limit db = Inl ErrCursorExpired"
  proof (cases "table = ''''")
    case True
    then show ?thesis using asm start st by (simp add: ChangesSince_def feedReadable_def)
  next
    case False
    then obtain f sc where "changeFeedOf (sub tk 1) db table = Inr f" "loadSchema (sub tk 2) db table = Inr sc"
      "scopeUsable scope (Some sc) = Inr ()" using asm(2) by (auto simp: feedReadable_def split: sum.splits)
    then show ?thesis using False asm start st by (simp add: ChangesSince_def)
  qed
qed

text \<open>
  C7. Once a change the consumer has still to see, or has seen, has been pruned, its cursor is
  refused as expired: no call from it answers a page any more, so a gap is never silent.
\<close>

theorem lost_rows_refused:
  assumes "follow table scope p0 H db k out" "c \<in> set H" "p0 < seq c" "c \<notin> set (clog db)" "k \<noteq> ''''" "k \<noteq> CursorBegin"
  shows "(\<exists>e. ChangesSince tk stamp now retention guard table k scope limit db = Inl e)
    \<and> (guard = None \<and> feedReadable tk db table scope \<and> tFault (tk [0]) = None \<and> tFault (tk [3, 0, 0]) = None
        \<longrightarrow> ChangesSince tk stamp now retention guard table k scope limit db = Inl ErrCursorExpired)"
  using lost_rows_error [OF assms] by blast


section \<open>Progress\<close>

text \<open>
  No statement fails, and the draws for a page of at most \<open>n\<close> rows are all different and new.
\<close>

definition runsWell :: "ticks \<Rightarrow> nat \<Rightarrow> change_db \<Rightarrow> bool" where
  "runsWell tk n db \<longleftrightarrow> (\<forall>a. tFault (tk a) = None)
     \<and> distinct (map (\<lambda>a. tDraw (tk a)) ([7, 1] # map (\<lambda>i. [7, 0, i]) [0..<n]))
     \<and> (\<forall>a\<in>set ([7, 1] # map (\<lambda>i. [7, 0, i]) [0..<n]). case tDraw (tk a) of None \<Rightarrow> False | Some d \<Rightarrow> \<not> known db d)"

lemma mintCursorToken_succeeds:
  assumes "tDraw (tk []) = Some d" "tFault (tk []) = None" "\<not> known db d"
  shows "\<exists>db'. mintCursorToken tk now position feedTable chain db = Inr (d, db')
    \<and> Token ` set (tokens db') = insert d (Token ` set (tokens db))"
  using assms by (simp add: mintCursorToken_def stmt_def known_def)

lemma mintRecords_succeeds:
  assumes "\<forall>a. tFault (tk a) = None" "distinct ds" "\<forall>d\<in>set ds. \<not> known db d" "length ds = length ls"
    and "\<forall>i<length ls. tDraw (tk [n + i]) = Some (ds ! i)"
  shows "\<exists>rs db'. mintRecords tk now feedTable chain n ls db = Inr (rs, db')
    \<and> Token ` set (tokens db') = set ds \<union> Token ` set (tokens db)"
  using assms
proof (induction ls arbitrary: n ds db)
  case (Cons l ls)
  then obtain d ds' where ds: "ds = d # ds'" by (cases ds) auto
  have d: "tDraw (sub tk n []) = Some d" using Cons.prems(5) ds by (auto simp: sub_def dest: spec [of _ 0])
  have "\<exists>db1. mintCursorToken (sub tk n) now (lcSeq l) feedTable chain db = Inr (d, db1)
      \<and> Token ` set (tokens db1) = insert d (Token ` set (tokens db))"
    by (rule mintCursorToken_succeeds [of "sub tk n" d db]) (use d Cons.prems(1,3) ds in \<open>auto simp: sub_def\<close>)
  then obtain db1 where m: "mintCursorToken (sub tk n) now (lcSeq l) feedTable chain db = Inr (d, db1)"
    "Token ` set (tokens db1) = insert d (Token ` set (tokens db))" by blast
  have "\<exists>rs db'. mintRecords tk now feedTable chain (Suc n) ls db1 = Inr (rs, db')
    \<and> Token ` set (tokens db') = set ds' \<union> Token ` set (tokens db1)"
  proof (rule Cons.IH)
    show "\<forall>i<length ls. tDraw (tk [Suc n + i]) = Some (ds' ! i)"
      using Cons.prems(5) ds by (auto dest: spec [of _ "Suc i" for i])
  qed (use Cons.prems ds m(2) in \<open>auto simp: known_def\<close>)
  then show ?case using m ds by auto
qed simp

text \<open>The cursor is live at \<open>now\<close>: its token is there, of this feed, within both deadlines.\<close>

definition liveCursor :: "change_db \<Rightarrow> int \<Rightarrow> int \<Rightarrow> string \<Rightarrow> string \<Rightarrow> bool" where
  "liveCursor db now retention k table \<longleftrightarrow>
     (case find (\<lambda>t. Token t = k) (tokens db) of None \<Rightarrow> False
      | Some t \<Rightarrow> FeedTable t = table \<and> (retention > 0 \<longrightarrow>
          unixMilli now \<le> IssuedAt t + retention div 1000000 \<and> unixMilli now \<le> ChainStart t + 2 * (retention div 1000000)))"

lemma startPosition_live:
  assumes "liveCursor db now retention k table" "\<forall>a. tFault (tk a) = None" "k \<noteq> ''''" "k \<noteq> CursorBegin"
  shows "\<exists>p chain db1. startPosition tk stamp now retention k table db = Inr ((p, chain), db1)
    \<and> Token ` set (tokens db1) = Token ` set (tokens db)"
proof -
  from assms(1) obtain t where t: "find (\<lambda>t. Token t = k) (tokens db) = Some t" "FeedTable t = table"
    "retention > 0 \<longrightarrow> unixMilli now \<le> IssuedAt t + retention div 1000000 \<and> unixMilli now \<le> ChainStart t + 2 * (retention div 1000000)"
    by (auto simp: liveCursor_def split: option.splits)
  have "map Token (map (\<lambda>t. if Token t = k then t\<lparr>IssuedAt := max (IssuedAt t) (unixMilli now)\<rparr> else t) (tokens db)) = map Token (tokens db)"
    by simp
  then have "Token ` set (map (\<lambda>t. if Token t = k then t\<lparr>IssuedAt := max (IssuedAt t) (unixMilli now)\<rparr> else t) (tokens db))
    = Token ` set (tokens db)" by (metis set_map)
  moreover have "tFault (sub tk i x) = None" for i x using assms(2) by (simp add: sub_def)
  ultimately show ?thesis using t assms(2,3,4)
    by (cases "retention > 0") (simp_all add: startPosition_def resolveCursorToken_def stmt_def sub_def not_less del: set_map list.set_map)
qed


lemma scanChangePage_succeeds: "\<forall>c\<in>set rows. length (ctNsgen c) = 16 \<Longrightarrow> \<exists>ls. scanChangePage rows = Inr ls"
  by (induction rows) auto

lemma mintChangeCursors_succeeds:
  assumes "runsWell tk n db" "length ls \<le> n" "Token ` set (tokens db1) = Token ` set (tokens db)"
  shows "\<exists>page db2. mintChangeCursors (sub tk 7) now ls position from table chain db1 = Inr (page, db2)"
proof -
  define draw where "draw a = the (tDraw (tk a))" for a
  let ?A = "[7, 1] # map (\<lambda>i. [7, 0, i]) [0..<n]"
  have ok: "tFault (tk a) = None" for a using assms(1) by (simp add: runsWell_def)
  have some: "tDraw (tk a) = Some (draw a) \<and> \<not> known db1 (draw a)" if "a \<in> set ?A" for a
    using assms(1,3) that unfolding runsWell_def draw_def known_def by (auto split: option.splits)
  have "distinct (map (\<lambda>a. tDraw (tk a)) ?A)" using assms(1) by (simp only: runsWell_def)
  also have "map (\<lambda>a. tDraw (tk a)) ?A = map Some (map draw ?A)" using some by (auto simp: comp_def)
  finally have dist: "distinct (map draw ?A)" unfolding distinct_map [of Some] by blast
  let ?ds = "map (\<lambda>i. draw [7, 0, i]) [0..<length ls]"
  have sub: "set ?ds \<subseteq> draw ` set (map (\<lambda>i. [7, 0, i]) [0..<n])" using assms(2) by auto
  have "distinct (map (\<lambda>i. draw [7, 0, i]) [0..<n])" using dist by (simp add: comp_def)
  then have "distinct ?ds" using assms(2) by (auto simp: distinct_map inj_on_def)
  moreover have "\<forall>i<length ls. tDraw (sub (sub tk 7) 0 [0 + i]) = Some (?ds ! i)"
    using some assms(2) by (auto simp: sub_def)
  ultimately have "\<exists>recs db2. mintRecords (sub (sub tk 7) 0) now table chain 0 ls db1 = Inr (recs, db2)
      \<and> Token ` set (tokens db2) = set ?ds \<union> Token ` set (tokens db1)"
    using ok some assms(2) by (intro mintRecords_succeeds) (auto simp: sub_def)
  then obtain recs db2 where m: "mintRecords (sub (sub tk 7) 0) now table chain 0 ls db1 = Inr (recs, db2)"
    "Token ` set (tokens db2) = set ?ds \<union> Token ` set (tokens db1)" by blast
  have "draw [7, 1] \<notin> set ?ds" using dist sub by auto
  then have "\<not> known db2 (draw [7, 1])" using m(2) some [of "[7, 1]"] by (simp add: known_def)
  then have "\<exists>db'. mintCursorToken (sub (sub tk 7) 1) now q table chain db2 = Inr (draw [7, 1], db')
      \<and> Token ` set (tokens db') = insert (draw [7, 1]) (Token ` set (tokens db2))" for q
    using some [of "[7, 1]"] ok by (intro mintCursorToken_succeeds) (auto simp: sub_def)
  then obtain db' where "mintCursorToken (sub (sub tk 7) 1) now (if ls = [] then position else lcSeq (last ls)) table chain db2
    = Inr (draw [7, 1], db')" by blast
  then show ?thesis using m(1) by (simp add: mintChangeCursors_def)
qed

lemma ChangesSince_answers:
  assumes live: "liveCursor db now retention k table" "k \<noteq> ''''" "k \<noteq> CursorBegin"
    and well: "runsWell tk (nat (changesPageLimit limit)) db" and feed: "feedReadable tk db table scope"
    and rows: "\<forall>c\<in>set (clog db). length (ctNsgen c) = 16" "scope = None \<or> (\<forall>c\<in>set (clog db). ctOwner c \<noteq> None)"
    and log: "log_ok db"
  shows "\<exists>recs nxt db'. ChangesSince tk stamp now retention None table k scope limit db = Inr ((recs, nxt), db')"
proof -
  have ok: "tFault (sub tk i a) = None" "tFault (sub (sub tk i) j a) = None" for i j a
    using well by (simp_all add: runsWell_def sub_def)
  have st: "stmt (sub tk i) x = x" "stmt (sub (sub tk i) j) x = x" for i j and x :: "changes_error + 'a"
    using ok by (simp_all add: stmt_def)
  obtain p chain db1 where start: "startPosition (sub tk 3) stamp now retention k table db = Inr ((p, chain), db1)"
    and toks: "Token ` set (tokens db1) = Token ` set (tokens db)"
    using startPosition_live [OF live(1) _ live(2,3), of "sub tk 3" stamp] ok(1) by metis
  have same: "clog db1 = clog db" using startPosition_effect(1) [OF start log] by (simp add: reissues_def)
  let ?page = "changePage p None (changesPageLimit limit) (feedNow table db) scope db1"
  have "set ?page \<subseteq> set (clog db)" unfolding changePage_def same by (auto dest: in_set_takeD)
  with rows(1) obtain ls where scan: "scanChangePage ?page = Inr ls" using scanChangePage_succeeds by blast
  then have "length ls = length ?page" using scanChangePage_rows by (metis length_map)
  then have "length ls \<le> nat (changesPageLimit limit)" by (simp add: changePage_def)
  from mintChangeCursors_succeeds [OF well this toks] obtain recs nxt db2
    where mint: "mintChangeCursors (sub tk 7) now ls p k table chain db1 = Inr ((recs, nxt), db2)" by fastforce
  have "\<exists>db'. pruneChanges (sub tk 8) stamp now retention db2 = Inr db'"
    by (cases "retention \<le> 0") (simp_all add: pruneChanges_def ok Let_def)
  then obtain db' where prune: "pruneChanges (sub tk 8) stamp now retention db2 = Inr db'" ..
  have f: "(if table = '''' then Inr None
      else bindR (changeFeedOf (sub tk 1) db table) (\<lambda>feed. bindR (loadSchema (sub tk 2) db table) (\<lambda>sc.
           bindR (scopeUsable scope (Some sc)) (\<lambda>_. Inr (Some feed))))) = Inr (feedNow table db)"
  proof (cases "table = ''''")
    case True
    then show ?thesis by (simp add: feedNow_def)
  next
    case False
    with feed obtain f sc where "changeFeedOf (sub tk 1) db table = Inr f" "loadSchema (sub tk 2) db table = Inr sc"
      "scopeUsable scope (Some sc) = Inr ()" by (auto simp: feedReadable_def split: sum.splits)
    then show ?thesis using False changeFeedOf_now [of "sub tk 1" db table f] by simp
  qed
  have c: "(if scope = None then Inr ()
      else bindR (changeHead (sub tk 4) db1) (\<lambda>head. if p < head
           then bindR (unlabeledChangeInRange (sub tk 5) db1 p head (feedNow table db)) (\<lambda>stale.
                  if stale then Inl ErrScopedFeedPredatesLabels else Inr ()) else Inr ())) = (Inr () :: changes_error + unit)"
    using rows(2) by (auto simp: changeHead_def unlabeledChangeInRange_def st same list_ex_iff)
  have "\<not> (scope \<noteq> None \<and> table = '''')" using feed by (auto simp: feedReadable_def)
  then show ?thesis unfolding ChangesSince_def f st option.case
    by (simp add: start c scan mint prune st)
qed


lemma page_length:
  assumes "follow_pre p0 H db p"
  shows "length (changePage p None (changesPageLimit n) (feedNow table db) scope db)
    = min (nat (changesPageLimit n)) (length (filter (\<lambda>c. p < seq c \<and> inFeed (feedNow table db) c \<and> inScope scope c) H))"
proof -
  let ?m = "\<lambda>c. inFeed (feedNow table db) c \<and> inScope scope c"
  from assms have "p0 \<le> p" by (simp add: follow_pre_def)
  then have m: "filter (\<lambda>c. p < seq c \<and> ?m c) xs = filter (\<lambda>c. p < seq c \<and> ?m c) (filter (\<lambda>c. p0 < seq c) xs)" for xs
    by (auto simp: filter_filter intro: filter_cong)
  have "filter (\<lambda>c. p < seq c \<and> ?m c) (clog db) = filter (\<lambda>c. p < seq c \<and> ?m c) H"
    unfolding m [of "clog db"] m [of H] using assms by (simp add: follow_pre_def)
  then show ?thesis by (simp add: changePage_def min.commute)
qed

lemma filter_count_split:
  "p0 \<le> p \<Longrightarrow> length (filter (\<lambda>c. p0 < seq c \<and> m c) H)
     = length (filter (\<lambda>c. p0 < seq c \<and> seq c \<le> p \<and> m c) H) + length (filter (\<lambda>c. p < seq c \<and> m c) H)"
  by (induction H) auto

lemma poll_answers:
  assumes run: "follow table scope p0 H db k out" and live: "liveCursor db now retention k table" "k \<noteq> ''''" "k \<noteq> CursorBegin"
    and well: "runsWell tk (nat (changesPageLimit limit)) db" and feed: "feedReadable tk db table scope"
    and rows: "\<forall>c\<in>set (clog db). length (ctNsgen c) = 16" "scope = None \<or> (\<forall>c\<in>set (clog db). ctOwner c \<noteq> None)"
  shows "\<exists>recs nxt db'. ChangesSince tk stamp now retention None table k scope limit db = Inr ((recs, nxt), db')
    \<and> follow table scope p0 H db' nxt (out @ recs)
    \<and> length (out @ recs) = min (length out + nat (changesPageLimit limit))
        (length (filter (\<lambda>c. p0 < seq c \<and> inFeed (feedNow table db) c \<and> inScope scope c) H))"
proof -
  from follow_invariant [OF run] obtain p where inv: "follow_inv p0 H db k p"
    and out: "map (\<lambda>r. r\<lparr>rCursor := ''''\<rparr>) out = map recordOf (between table scope db p0 p H)" by blast
  from inv have ok: "log_ok db" "p0 \<le> p" and st: "stands db k p p0" by (simp_all add: follow_inv_def)
  from ChangesSince_answers [OF live well feed rows ok(1)] obtain recs nxt db'
    where page: "ChangesSince tk stamp now retention None table k scope limit db = Inr ((recs, nxt), db')" by blast
  then obtain p1 chain db1 where start: "startPosition (sub tk 3) stamp now retention k table db = Inr ((p1, chain), db1)"
    by (rule ChangesSince_parts)
  from startPosition_effect(3) [OF start ok(1) live(2,3)] st have p1: "p1 = p" "known db k" by (auto simp: stands_def known_def)
  then have pre: "follow_pre p0 H db p" using inv by (simp add: follow_inv_def follow_pre_def)
  have "length recs = length (changePage p None (changesPageLimit limit) (feedNow table db) scope db)"
    using ChangesSince_effect [OF page start ok(1) refl] p1(1) by (metis length_map)
  also note page_length [OF pre]
  finally have "length recs = min (nat (changesPageLimit limit))
    (length (filter (\<lambda>c. p < seq c \<and> inFeed (feedNow table db) c \<and> inScope scope c) H))" .
  moreover have "length out = length (between table scope db p0 p H)" using out by (metis length_map)
  ultimately have "length (out @ recs) = min (length out + nat (changesPageLimit limit))
        (length (filter (\<lambda>c. p0 < seq c \<and> inFeed (feedNow table db) c \<and> inScope scope c) H))"
    using filter_count_split [OF ok(2), of "\<lambda>c. inFeed (feedNow table db) c \<and> inScope scope c" H] by (simp add: between_def)
  moreover have "follow table scope p0 H db' nxt (out @ recs)"
    using run live(2,3) page by (rule follow.Poll) (simp add: taken_def)
  ultimately show ?thesis using page by blast
qed

text \<open>
  C8. A poll of a live cursor always answers, and delivers as many further changes as the limit
  allows or all that are left: polling reaches the end of the log.
\<close>

theorem poll_progress:
  assumes "follow table scope p0 H db k out" and "liveCursor db now retention k table" "k \<noteq> ''''" "k \<noteq> CursorBegin"
    and "runsWell tk (nat (changesPageLimit limit)) db" and "feedReadable tk db table scope"
    and "\<forall>c\<in>set (clog db). length (ctNsgen c) = 16" "scope = None \<or> (\<forall>c\<in>set (clog db). ctOwner c \<noteq> None)"
  shows "\<exists>recs nxt db'. ChangesSince tk stamp now retention None table k scope limit db = Inr ((recs, nxt), db')
    \<and> follow table scope p0 H db' nxt (out @ recs)
    \<and> length (out @ recs) = min (length out + nat (changesPageLimit limit))
        (length (filter (\<lambda>c. p0 < seq c \<and> inFeed (feedNow table db) c \<and> inScope scope c) H))"
  by (rule poll_answers [OF assms])


section \<open>A run\<close>

text \<open>A consumer begins on an empty log, two rows are written, and it polls with limit one.\<close>

definition exTicks :: "string \<Rightarrow> ticks" where
  "exTicks tag = (\<lambda>a. \<lparr>tFault = None, tDraw = Some (tag @ concat (map (\<lambda>n. replicate n CHR ''i'' @ ''.'') a))\<rparr>)"

definition exDb0 :: change_db where
  "exDb0 = \<lparr>clog = [], tokens = [], lastSeq = 0, nsgen = replicate 16 CHR ''g'', dropGens = [], nextCommit = 0, schemas = []\<rparr>"

definition exPage0 where "exPage0 = ChangesSince (exTicks ''a'') (\<lambda>_. ''z'') 0 1000000 None '''' CursorBegin None 1 exDb0"

definition exWrite where "exWrite = mintChanges (exTicks ''b'') ''t'' 0 ''notes'' ''insert'' [5, 6] None (snd (projr exPage0))"

definition exPage1 where
  "exPage1 = ChangesSince (exTicks ''c'') (\<lambda>_. ''z'') 0 1000000 None '''' (snd (fst (projr exPage0))) None 1 (snd (projr exWrite))"

definition exPrune where "exPrune = pruneChanges (exTicks ''d'') (\<lambda>_. ''z'') 10000000 1000000 (snd (projr exWrite))"

lemma ex_answers: "\<not> isl exPage0" "\<not> isl exWrite" "\<not> isl exPage1" "\<not> isl exPrune"
  by code_simp+

lemma Inr_parts: "\<not> isl r \<Longrightarrow> r = Inr (projr r)"
  by (simp add: sum.expand)

lemma exFollow0: "follow '''' None 0 [] (snd (projr exPage0)) (snd (fst (projr exPage0))) []"
proof -
  have "follow '''' None 0 (clog exDb0) (snd (projr exPage0)) (snd (fst (projr exPage0))) []"
  proof (rule follow.Start)
    show "log_ok exDb0" by (simp add: log_ok_def exDb0_def)
    show "ChangesSince (exTicks ''a'') (\<lambda>_. ''z'') 0 1000000 None '''' CursorBegin None 1 exDb0
      = Inr ((fst (fst (projr exPage0)), snd (fst (projr exPage0))), snd (projr exPage0))"
      using Inr_parts [OF ex_answers(1)] by (simp add: exPage0_def)
    show "startPosition (sub (exTicks ''a'') 3) (\<lambda>_. ''z'') 0 1000000 CursorBegin '''' exDb0
      = Inr ((0, newCursorChain (sub (sub (exTicks ''a'') 3) 1) 0 0), exDb0)" by code_simp
    show "taken (fst (fst (projr exPage0))) (snd (fst (projr exPage0))) [] (snd (fst (projr exPage0)))"
      unfolding taken_def by (rule disjI1) code_simp
  qed simp
  then show ?thesis by (simp add: exDb0_def)
qed

lemma exFollow1:
  "follow '''' None 0 (clog (snd (projr exWrite))) (snd (projr exWrite)) (snd (fst (projr exPage0))) []"
proof -
  have "follow '''' None 0 ([] @ appended (snd (projr exPage0)) (snd (projr exWrite))) (snd (projr exWrite)) (snd (fst (projr exPage0))) []"
  proof (rule follow.Env [OF exFollow0])
    show "db_step (snd (projr exPage0)) (snd (projr exWrite))"
      using Inr_parts [OF ex_answers(2)] unfolding exWrite_def by (metis db_step.Write prod.collapse)
    show "feedNow '''' (snd (projr exWrite)) = feedNow '''' (snd (projr exPage0))" by (simp add: feedNow_def)
    show "known (snd (projr exWrite)) (snd (fst (projr exPage0))) \<longrightarrow> known (snd (projr exPage0)) (snd (fst (projr exPage0)))"
      unfolding known_def by code_simp
  qed
  moreover have "appended (snd (projr exPage0)) (snd (projr exWrite)) = clog (snd (projr exWrite))" by code_simp
  ultimately show ?thesis by simp
qed

lemma exFollow2:
  "follow '''' None 0 (clog (snd (projr exWrite))) (snd (projr exPage1)) (snd (fst (projr exPage1))) (fst (fst (projr exPage1)))"
proof -
  have "follow '''' None 0 (clog (snd (projr exWrite))) (snd (projr exPage1)) (snd (fst (projr exPage1))) ([] @ fst (fst (projr exPage1)))"
  proof (rule follow.Poll [OF exFollow1])
    show "ChangesSince (exTicks ''c'') (\<lambda>_. ''z'') 0 1000000 None '''' (snd (fst (projr exPage0))) None 1 (snd (projr exWrite))
      = Inr ((fst (fst (projr exPage1)), snd (fst (projr exPage1))), snd (projr exPage1))"
      using Inr_parts [OF ex_answers(3)] by (simp add: exPage1_def)
  qed (code_simp, code_simp, simp add: taken_def)
  then show ?thesis by simp
qed

lemma exFollowLost:
  "follow '''' None 0 (clog (snd (projr exWrite))) (projr exPrune) (snd (fst (projr exPage0))) []"
proof -
  have "follow '''' None 0 (clog (snd (projr exWrite)) @ appended (snd (projr exWrite)) (projr exPrune)) (projr exPrune) (snd (fst (projr exPage0))) []"
  proof (rule follow.Env [OF exFollow1])
    show "db_step (snd (projr exWrite)) (projr exPrune)"
      using Inr_parts [OF ex_answers(4)] unfolding exPrune_def by (rule db_step.Prune)
    show "feedNow '''' (projr exPrune) = feedNow '''' (snd (projr exWrite))" by (simp add: feedNow_def)
    show "known (projr exPrune) (snd (fst (projr exPage0))) \<longrightarrow> known (snd (projr exWrite)) (snd (fst (projr exPage0)))"
      unfolding known_def by code_simp
  qed
  moreover have "appended (snd (projr exWrite)) (projr exPrune) = []" by code_simp
  ultimately show ?thesis by simp
qed

theorem feed_exactly_once_witness:
  "map rRowID (fst (fst (projr exPage1))) = [5] \<and>
   (\<exists>p. map (\<lambda>r. r\<lparr>rCursor := ''''\<rparr>) (fst (fst (projr exPage1))) = map recordOf
      (filter (\<lambda>c. 0 < seq c \<and> seq c \<le> p \<and> inFeed (feedNow '''' (snd (projr exPage1))) c \<and> inScope None c) (clog (snd (projr exWrite)))))"
proof (rule conjI)
  show "map rRowID (fst (fst (projr exPage1))) = [5]" by code_simp
qed (rule feed_exactly_once [OF exFollow2])

theorem lost_rows_refused_witness:
  "ChangesSince (exTicks ''e'') (\<lambda>_. ''z'') 0 0 None '''' (snd (fst (projr exPage0))) None 1 (projr exPrune) = Inl ErrCursorExpired"
proof -
  have row: "hd (clog (snd (projr exWrite))) \<in> set (clog (snd (projr exWrite)))"
    "0 < seq (hd (clog (snd (projr exWrite))))" "hd (clog (snd (projr exWrite))) \<notin> set (clog (projr exPrune))"
    by code_simp+
  have k: "snd (fst (projr exPage0)) \<noteq> ''''" "snd (fst (projr exPage0)) \<noteq> CursorBegin" by code_simp+
  show ?thesis
    using lost_rows_refused [OF exFollowLost row k, of "exTicks ''e''" "\<lambda>_. ''z''" 0 0 None 1]
    by (simp add: feedReadable_def exTicks_def)
qed

theorem poll_progress_witness:
  "\<exists>recs nxt db'. ChangesSince (exTicks ''c'') (\<lambda>_. ''z'') 0 1000000 None '''' (snd (fst (projr exPage0))) None 1 (snd (projr exWrite))
      = Inr ((recs, nxt), db')
    \<and> follow '''' None 0 (clog (snd (projr exWrite))) db' nxt ([] @ recs)
    \<and> length ([] @ recs) = min (length ([] :: change_record list) + nat (changesPageLimit 1))
        (length (filter (\<lambda>c. 0 < seq c \<and> inFeed (feedNow '''' (snd (projr exWrite))) c \<and> inScope None c) (clog (snd (projr exWrite)))))"
proof (rule poll_progress [OF exFollow1])
  show "runsWell (exTicks ''c'') (nat (changesPageLimit 1)) (snd (projr exWrite))"
    unfolding runsWell_def known_def by (rule conjI, simp add: exTicks_def, rule conjI) code_simp+
  show "feedReadable (exTicks ''c'') (snd (projr exWrite)) '''' None" by (simp add: feedReadable_def)
qed (code_simp | simp)+

end
