(* ===== verification/Query_Lex.thy ===== *)
theory Query_Lex
  imports Schema_Names
begin

text \<open>
  The readers of a SQL query that the SQLite engine runs for a caller: the tokens of the
  table scanner (\<^verbatim>\<open>internal/store/query_tables.go\<close>) and the check of the shape of the statement
  (\<^verbatim>\<open>internal/store/query.go\<close>). A position is held as the text from there on; the offset the code
  keeps is the length of the whole text less the length of that.
\<close>

section \<open>Tokens\<close>

datatype tok_type = TNone | TEof | TOp | TString | TIdent | TPunct | TParam | TNumber

record qtoken =
  ttyp :: tok_type
  tval :: string
  tstart :: nat
  tend :: nat

text \<open>What a failed scan hands back where the error is ignored.\<close>

definition zeroToken :: qtoken where
  "zeroToken = \<lparr>ttyp = TNone, tval = '''', tstart = 0, tend = 0\<rparr>"

datatype query_error =
    QueryTooLong
  | UnterminatedString nat
  | UnterminatedQuoted nat
  | UnterminatedBracketed nat
  | UnexpectedToken string string
  | PragmaArgument
  | PragmaSchemaArgument
  | ReservedVia string string
  | StatementTooDeep
  | OnlySelect
  | ExpectedCteName string
  | UnterminatedGroup
  | ExpectedCore
  | ExpectedTableAfterDot string
  | ReservedPragma string
  | ExpectedJoin string
  | FactorTooDeep
  | ExpectedTable string
  | ReservedTable string
  | ExpectedAlias string
  | ExpectedIndex string
  | MaskedQualified string
  | MaskedHinted string
  | NotSelectOrWith
  | MultipleStatements
  | QueryOutOfFuel

definition isQSpace :: "char \<Rightarrow> bool" where
  "isQSpace c \<longleftrightarrow> byte c \<in> {32, 9, 10, 13, 12}"

definition isIdentStart :: "char \<Rightarrow> bool" where
  "isIdentStart c \<longleftrightarrow> c = CHR ''_'' \<or> isLower c \<or> isUpper c \<or> 128 \<le> byte c"

definition isIdentCont :: "char \<Rightarrow> bool" where
  "isIdentCont c \<longleftrightarrow> isIdentStart c \<or> c = CHR ''$'' \<or> isDigit c"

definition skipWhitespace :: "string \<Rightarrow> string" where
  "skipWhitespace r = dropWhile isQSpace r"

definition skipLineComment :: "string \<Rightarrow> string" where
  "skipLineComment r = dropWhile (\<lambda>c. byte c \<noteq> 10) (drop 2 r)"

fun skipBlock :: "string \<Rightarrow> string" where
  "skipBlock [] = []"
| "skipBlock (c # cs) = (if c = CHR ''*'' \<and> hasPrefix cs ''/'' then drop 1 cs else skipBlock cs)"

definition skipBlockComment :: "string \<Rightarrow> string" where
  "skipBlockComment r = skipBlock (drop 2 r)"

text \<open>
  The rest of a quoted text: a doubled closing character stands for one. The value keeps the
  opening and closing characters; the remaining text comes second.
\<close>

fun readBody :: "char \<Rightarrow> string \<Rightarrow> string \<Rightarrow> (string \<times> string) option" where
  "readBody qt acc [] = None"
| "readBody qt acc (c # cs) =
     (if c = qt then
        (if hasPrefix cs [qt] then readBody qt (acc @ [qt]) (drop 1 cs) else Some (acc @ [qt], cs))
      else readBody qt (acc @ [c]) cs)"

definition readSingleQuoted :: "string \<Rightarrow> (string \<times> string) option" where
  "readSingleQuoted r = readBody (CHR 0x27) [CHR 0x27] (drop 1 r)"

definition readQuoted :: "char \<Rightarrow> string \<Rightarrow> (string \<times> string) option" where
  "readQuoted quote r = readBody quote [quote] (drop 1 r)"

definition readBracketed :: "string \<Rightarrow> (string \<times> string) option" where
  "readBracketed r = readBody (CHR '']'') ''['' (drop 1 r)"

definition readIdent :: "string \<Rightarrow> string \<times> string" where
  "readIdent r = (takeWhile isIdentCont r, dropWhile isIdentCont r)"

definition atTclSuffix :: "string \<Rightarrow> bool" where
  "atTclSuffix r = hasPrefix r ''::''"

lemma length_dropWhile_less [termination_simp]: "length (dropWhile P xs) < Suc (Suc (length xs))"
  using length_dropWhile_le [of P xs] by simp

fun tclSuffixes :: "string \<Rightarrow> string" where
  "tclSuffixes (a # b # r) = (if a = CHR '':'' \<and> b = CHR '':'' then tclSuffixes (dropWhile isIdentCont r) else a # b # r)"
| "tclSuffixes r = r"

fun paramParens :: "string \<Rightarrow> string" where
  "paramParens [] = []"
| "paramParens (c # cs) = (if c = CHR '')'' then cs else if isQSpace c then c # cs else paramParens cs)"

definition readParam :: "string \<Rightarrow> string \<times> string" where
  "readParam r =
     (let r1 = tclSuffixes (dropWhile isIdentCont (drop 1 r));
          r2 = (if hasPrefix r1 ''('' then paramParens (drop 1 r1) else r1) in
      (take (length r - length r2) r, r2))"

definition readNumberedParam :: "string \<Rightarrow> string \<times> string" where
  "readNumberedParam r = (take 1 r @ takeWhile isDigit (drop 1 r), dropWhile isDigit (drop 1 r))"

fun numberTail :: "char \<Rightarrow> string \<Rightarrow> string" where
  "numberTail prev [] = []"
| "numberTail prev (c # cs) =
     (if isDigit c \<or> c = CHR ''.'' \<or> c = CHR ''e'' \<or> c = CHR ''E''
         \<or> (c = CHR ''+'' \<or> c = CHR ''-'') \<and> (prev = CHR ''e'' \<or> prev = CHR ''E'')
      then numberTail c cs else c # cs)"

definition readNumber :: "string \<Rightarrow> string \<times> string" where
  "readNumber r = (let r' = numberTail (CHR 0x00) r in (take (length r - length r') r, r'))"

definition mkTok :: "nat \<Rightarrow> tok_type \<Rightarrow> string \<Rightarrow> string \<Rightarrow> string \<Rightarrow> (query_error + qtoken) \<times> string" where
  "mkTok n typ v r r' = (Inr \<lparr>ttyp = typ, tval = v, tstart = n - length r, tend = n - length r'\<rparr>, r')"

text \<open>A text that does not close is read to its end.\<close>

definition quotedTok :: "nat \<Rightarrow> tok_type \<Rightarrow> query_error \<Rightarrow> string \<Rightarrow> (string \<times> string) option \<Rightarrow> (query_error + qtoken) \<times> string" where
  "quotedTok n typ e r body = (case body of None \<Rightarrow> (Inl e, []) | Some (v, r') \<Rightarrow> mkTok n typ v r r')"

text \<open>The token that starts at the first character, when that is no space and opens no comment.\<close>

definition tokenAt :: "nat \<Rightarrow> string \<Rightarrow> (query_error + qtoken) \<times> string" where
  "tokenAt n r =
     (case r of
        [] \<Rightarrow> mkTok n TEof '''' r r
      | c # cs \<Rightarrow>
          if c = CHR 0x27 then quotedTok n TString (UnterminatedString (n - length r)) r (readSingleQuoted r)
          else if c = CHR 0x22 \<or> c = CHR 0x60 then quotedTok n TIdent (UnterminatedQuoted (n - length r)) r (readQuoted c r)
          else if c = CHR ''['' then quotedTok n TIdent (UnterminatedBracketed (n - length r)) r (readBracketed r)
          else if c \<in> {CHR ''('', CHR '')'', CHR '','', CHR '';'', CHR ''.''} then mkTok n TPunct [c] r cs
          else if c \<in> {CHR '':'', CHR ''@'', CHR ''$'', CHR ''#''} then
            (if cs \<noteq> [] \<and> isIdentCont (hd cs) \<or> atTclSuffix cs then mkTok n TParam (fst (readParam r)) r (snd (readParam r))
             else mkTok n TOp [c] r cs)
          else if c = CHR ''?'' then
            (if cs \<noteq> [] \<and> isDigit (hd cs) then mkTok n TParam (fst (readNumberedParam r)) r (snd (readNumberedParam r))
             else mkTok n TOp [c] r cs)
          else if isIdentStart c then mkTok n TIdent (fst (readIdent r)) r (snd (readIdent r))
          else if isDigit c then mkTok n TNumber (fst (readNumber r)) r (snd (readNumber r))
          else mkTok n TOp [c] r cs)"

lemma skip_shorter:
  "length (skipWhitespace r) \<le> length r" "length (skipLineComment r) \<le> length r - 2" "length (skipBlock r) \<le> length r"
proof -
  show "length (skipWhitespace r) \<le> length r" by (simp add: skipWhitespace_def length_dropWhile_le)
  show "length (skipLineComment r) \<le> length r - 2"
    using length_dropWhile_le [of "\<lambda>c. byte c \<noteq> 10" "drop 2 r"] by (simp add: skipLineComment_def)
  show "length (skipBlock r) \<le> length r" by (induction r rule: skipBlock.induct) auto
qed

function scanToken :: "nat \<Rightarrow> string \<Rightarrow> (query_error + qtoken) \<times> string" where
  "scanToken n r0 =
     (let r = skipWhitespace r0 in
      if hasPrefix r ''--'' then scanToken n (skipLineComment r)
      else if hasPrefix r ''/*'' then scanToken n (skipBlockComment r)
      else tokenAt n r)"
  by pat_completeness auto
termination
proof (relation "measure (length \<circ> snd)")
  fix n :: nat and r0 r assume r: "r = skipWhitespace r0"
  {
    assume "hasPrefix r ''--''"
    then have "length r \<ge> 2" by (auto simp: hasPrefix_def dest: arg_cong [of _ _ length])
    then show "((n, skipLineComment r), n, r0) \<in> measure (length \<circ> snd)"
      using skip_shorter(1) [of r0] skip_shorter(2) [of r] r by simp
  }
  assume "hasPrefix r ''/*''"
  then have "length r \<ge> 2" by (auto simp: hasPrefix_def dest: arg_cong [of _ _ length])
  then show "((n, skipBlockComment r), n, r0) \<in> measure (length \<circ> snd)"
    using skip_shorter(1) [of r0] skip_shorter(3) [of "drop 2 r"] r by (simp add: skipBlockComment_def)
qed simp

declare scanToken.simps [simp del]

section \<open>Reading tokens\<close>

definition qLower :: "string \<Rightarrow> string" where
  "qLower s = map asciiLower s"

definition isQuotedIdent :: "string \<Rightarrow> bool" where
  "isQuotedIdent v = (case v of [] \<Rightarrow> False | c # _ \<Rightarrow> c = CHR 0x22 \<or> c = CHR 0x60 \<or> c = CHR ''['')"

fun undouble :: "char \<Rightarrow> string \<Rightarrow> string" where
  "undouble qt (a # b # r) = (if a = qt \<and> b = qt then qt # undouble qt r else a # undouble qt (b # r))"
| "undouble qt r = r"

definition unquoteWith :: "char \<Rightarrow> string \<Rightarrow> string" where
  "unquoteWith close v =
     (if length v \<ge> 2 \<and> last v = close then undouble close (butlast (drop 1 v)) else v)"

definition unquoteIdent :: "string \<Rightarrow> string" where
  "unquoteIdent v =
     (case v of [] \<Rightarrow> v
      | c # _ \<Rightarrow> if c = CHR 0x22 \<or> c = CHR 0x60 then unquoteWith c v
                else if c = CHR ''['' then unquoteWith (CHR '']'') v else v)"

definition unquoteString :: "string \<Rightarrow> string" where
  "unquoteString v = (if hasPrefix v [CHR 0x27] then unquoteWith (CHR 0x27) v else v)"

definition isKeyword :: "qtoken \<Rightarrow> string \<Rightarrow> bool" where
  "isKeyword t kw \<longleftrightarrow> ttyp t = TIdent \<and> \<not> isQuotedIdent (tval t) \<and> qLower (tval t) = kw"

definition isPragmaFunction :: "string \<Rightarrow> bool" where
  "isPragmaFunction rawName = hasPrefix (qLower (unquoteIdent rawName)) ''pragma_''"

definition selectStop :: "string list" where
  "selectStop = ['')'', ''union'', ''intersect'', ''except'']"

definition fromStop :: "string list" where
  "fromStop = ['')'', ''from'', ''union'', ''intersect'', ''except'']"

definition joinConditionStop :: "string list" where
  "joinConditionStop =
     ['')'', '','', ''where'', ''group'', ''having'', ''order'', ''limit'', ''union'', ''intersect'', ''except'', ''join'']"

definition clauseEndStop :: "string list" where
  "clauseEndStop =
     [''where'', ''group'', ''having'', ''order'', ''limit'', ''union'', ''intersect'', ''except'', '')'', '';'']"

definition isStopToken :: "qtoken \<Rightarrow> string list \<Rightarrow> bool" where
  "isStopToken t stop =
     (if ttyp t = TEof then True
      else if ttyp t = TPunct then tval t \<in> set stop
      else ttyp t = TIdent \<and> \<not> isQuotedIdent (tval t) \<and> qLower (tval t) \<in> set stop)"

definition isClauseEnd :: "qtoken \<Rightarrow> bool" where
  "isClauseEnd t =
     (if ttyp t = TEof then True
      else if ttyp t = TPunct then tval t = '')'' \<or> tval t = '';''
      else ttyp t = TIdent \<and> \<not> isQuotedIdent (tval t) \<and> qLower (tval t) \<in> set clauseEndStop)"

definition isJoinOp :: "qtoken \<Rightarrow> bool" where
  "isJoinOp t =
     (if ttyp t \<noteq> TIdent \<or> isQuotedIdent (tval t) then False
      else qLower (tval t) \<in> set [''inner'', ''cross'', ''left'', ''right'', ''full'', ''outer'', ''natural'', ''join''])"

section \<open>The shape of a query\<close>

text \<open>\<^verbatim>\<open>hasStatementSeparator\<close>: \<open>closing\<close> is the character that ends the quoted text we are in.\<close>

fun sepBlock :: "string \<Rightarrow> string" where
  "sepBlock (a # b # r) = (if a = CHR ''*'' \<and> b = CHR ''/'' then r else sepBlock (b # r))"
| "sepBlock r = []"

lemma sepBlock_shorter: "length (sepBlock r) \<le> length r"
  by (induction r rule: sepBlock.induct) auto

function hasSep :: "char option \<Rightarrow> string \<Rightarrow> bool" where
  "hasSep closing [] = False"
| "hasSep (Some qt) (c # cs) =
     (if c = qt then
        (if c \<noteq> CHR '']'' \<and> hasPrefix cs [c] then hasSep (Some qt) (drop 1 cs) else hasSep None cs)
      else hasSep (Some qt) cs)"
| "hasSep None (c # cs) =
     (if c = CHR 0x27 \<or> c = CHR 0x22 \<or> c = CHR 0x60 then hasSep (Some c) cs
      else if c = CHR ''['' then hasSep (Some (CHR '']'')) cs
      else if c = CHR '';'' then True
      else if c = CHR ''-'' \<and> hasPrefix cs ''-'' then hasSep None (drop 1 (dropWhile (\<lambda>c. byte c \<noteq> 10) cs))
      else if c = CHR ''/'' \<and> hasPrefix cs ''*'' then hasSep None (sepBlock cs)
      else hasSep None cs)"
  by pat_completeness auto
termination
proof (relation "measure (length \<circ> snd)")
  fix c :: char and cs
  show "((None, drop 1 (dropWhile (\<lambda>c. byte c \<noteq> 10) cs)), None, c # cs) \<in> measure (length \<circ> snd)"
    using length_dropWhile_le [of "\<lambda>c. byte c \<noteq> 10" cs] by simp
  show "((None, sepBlock cs), None, c # cs) \<in> measure (length \<circ> snd)" using sepBlock_shorter [of cs] by simp
qed auto

definition hasStatementSeparator :: "string \<Rightarrow> bool" where
  "hasStatementSeparator sql = hasSep None sql"

text \<open>\<^verbatim>\<open>stripUnterminatedBlockComment\<close>: the state of its loop, and where an open comment began.\<close>

datatype strip_state = Plain | InString | InIdent char | InLineComment | InBlockComment nat

fun stripLoop :: "strip_state \<Rightarrow> nat \<Rightarrow> string \<Rightarrow> strip_state" where
  "stripLoop st i [] = st"
| "stripLoop InString i (c # cs) =
     (if c = CHR 0x27 then
        (if hasPrefix cs [c] then stripLoop InString (i + 2) (drop 1 cs) else stripLoop Plain (i + 1) cs)
      else stripLoop InString (i + 1) cs)"
| "stripLoop (InIdent close) i (c # cs) =
     (if c = close then
        (if hasPrefix cs [c] then stripLoop (InIdent close) (i + 2) (drop 1 cs) else stripLoop Plain (i + 1) cs)
      else stripLoop (InIdent close) (i + 1) cs)"
| "stripLoop InLineComment i (c # cs) = stripLoop (if byte c = 10 then Plain else InLineComment) (i + 1) cs"
| "stripLoop (InBlockComment b) i (c # cs) =
     (if c = CHR ''*'' \<and> hasPrefix cs ''/'' then stripLoop Plain (i + 2) (drop 1 cs)
      else stripLoop (InBlockComment b) (i + 1) cs)"
| "stripLoop Plain i (c # cs) =
     (if c = CHR 0x27 then stripLoop InString (i + 1) cs
      else if c = CHR 0x22 \<or> c = CHR 0x60 then stripLoop (InIdent c) (i + 1) cs
      else if c = CHR ''['' then stripLoop (InIdent (CHR '']'')) (i + 1) cs
      else if c = CHR ''-'' \<and> hasPrefix cs ''-'' then stripLoop InLineComment (i + 2) (drop 1 cs)
      else if c = CHR ''/'' \<and> hasPrefix cs ''*'' then stripLoop (InBlockComment i) (i + 2) (drop 1 cs)
      else stripLoop Plain (i + 1) cs)"

definition trimRightOf :: "(char \<Rightarrow> bool) \<Rightarrow> string \<Rightarrow> string" where
  "trimRightOf P s = rev (dropWhile P (rev s))"

definition stripUnterminatedBlockComment :: "string \<Rightarrow> string" where
  "stripUnterminatedBlockComment s =
     (case stripLoop Plain 0 s of
        InBlockComment b \<Rightarrow> trimRightOf (\<lambda>c. byte c \<in> {32, 9, 13, 10}) (take b s)
      | _ \<Rightarrow> s)"

text \<open>
  \<^verbatim>\<open>queryStartRe\<close>: spaces, then one of the two words in any case and a word boundary. Case folding
  is Unicode's, so a long s matches an s.
\<close>

fun foldPrefix :: "string \<Rightarrow> string \<Rightarrow> string option" where
  "foldPrefix [] s = Some s"
| "foldPrefix (w # ws) s =
     (case s of [] \<Rightarrow> None
      | c # cs \<Rightarrow>
          if asciiLower c = w then foldPrefix ws cs
          else if w = CHR ''s'' \<and> hasPrefix s [CHR 0xC5, CHR 0xBF] then foldPrefix ws (drop 2 s)
          else None)"

definition wordBoundary :: "string option \<Rightarrow> bool" where
  "wordBoundary r = (case r of None \<Rightarrow> False
     | Some s \<Rightarrow> s = [] \<or> \<not> (isDigit (hd s) \<or> isLower (hd s) \<or> isUpper (hd s) \<or> hd s = CHR ''_''))"

definition queryStart :: "string \<Rightarrow> bool" where
  "queryStart s =
     (let r = dropWhile isQSpace s in wordBoundary (foldPrefix ''select'' r) \<or> wordBoundary (foldPrefix ''with'' r))"

definition trimmedQuery :: "(string \<Rightarrow> string) \<Rightarrow> string \<Rightarrow> string" where
  "trimmedQuery tr query = stripUnterminatedBlockComment (trimRightOf (\<lambda>c. c = CHR '';'') (trimSpace tr query))"

definition ValidateQueryShape :: "(string \<Rightarrow> string) \<Rightarrow> string \<Rightarrow> query_error + unit" where
  "ValidateQueryShape tr query =
     (if \<not> queryStart (trimSpace tr query) then Inl NotSelectOrWith
      else if hasStatementSeparator (trimmedQuery tr query) then Inl MultipleStatements
      else Inr ())"

end
