(* ===== verification/Query_Scan.thy ===== *)
theory Query_Scan
  imports Query_Lex
begin

text \<open>
  The table scanner of a query (\<^verbatim>\<open>internal/store/query_tables.go\<close>): a recursive descent over the
  tokens that refuses reserved tables and records where each registered table is read, so
  that the tables with secret fields can be replaced by a masked subquery. The loops of
  the parser take fuel; \<open>Query_Total\<close> proves that it never runs out.
\<close>

section \<open>The scanner\<close>

record tableRewrite =
  rwTable :: string
  rwStart :: nat
  rwEnd :: nat
  rwAliased :: bool
  rwQualified :: bool
  rwHinted :: bool

text \<open>\<open>qrest\<close> is the text from the offset on; the innermost scope of table names comes first.\<close>

record queryScanner =
  qrest :: string
  qbuf :: "qtoken option"
  qrewrites :: "tableRewrite list"
  indexHint :: bool
  cteScope :: "string list list"
  tableParens :: nat
  stmtDepth :: nat

type_synonym 'a scan = "query_error + 'a \<times> queryScanner"

definition maxTableParens :: nat where "maxTableParens = 50"
definition maxStmtDepth :: nat where "maxStmtDepth = 20"
definition MaxQueryRunes :: nat where "MaxQueryRunes = 1048576"

text \<open>What does not change while scanning: the length of the text, the registered tables, and lower case.\<close>

record scanEnv =
  seLen :: nat
  seRegistered :: "string list"
  seLower :: "string \<Rightarrow> string"

definition newQueryScanner :: "string \<Rightarrow> queryScanner" where
  "newQueryScanner stmt =
     \<lparr>qrest = stmt, qbuf = None, qrewrites = [], indexHint = False, cteScope = [], tableParens = 0, stmtDepth = 0\<rparr>"

definition pushCteScope :: "queryScanner \<Rightarrow> queryScanner" where
  "pushCteScope s = s\<lparr>cteScope := [] # cteScope s\<rparr>"

definition popCteScope :: "queryScanner \<Rightarrow> queryScanner" where
  "popCteScope s = s\<lparr>cteScope := tl (cteScope s)\<rparr>"

definition addCteName :: "string \<Rightarrow> queryScanner \<Rightarrow> queryScanner" where
  "addCteName name s =
     (case cteScope s of [] \<Rightarrow> s\<lparr>cteScope := [[name]]\<rparr> | sc # scs \<Rightarrow> s\<lparr>cteScope := (name # sc) # scs\<rparr>)"

definition isCteName :: "queryScanner \<Rightarrow> string \<Rightarrow> bool" where
  "isCteName s name = list_ex (\<lambda>sc. name \<in> set sc) (cteScope s)"

definition nextToken :: "scanEnv \<Rightarrow> queryScanner \<Rightarrow> qtoken scan" where
  "nextToken en s =
     (case qbuf s of
        Some t \<Rightarrow> Inr (t, s\<lparr>qbuf := None\<rparr>)
      | None \<Rightarrow> (case scanToken (seLen en) (qrest s) of
                  (Inl e, r) \<Rightarrow> Inl e
                | (Inr t, r) \<Rightarrow> Inr (t, s\<lparr>qrest := r\<rparr>)))"

definition peekToken :: "scanEnv \<Rightarrow> queryScanner \<Rightarrow> qtoken scan" where
  "peekToken en s =
     (case qbuf s of
        Some t \<Rightarrow> Inr (t, s)
      | None \<Rightarrow> (case scanToken (seLen en) (qrest s) of
                  (Inl e, r) \<Rightarrow> Inl e
                | (Inr t, r) \<Rightarrow> Inr (t, s\<lparr>qrest := r, qbuf := Some t\<rparr>)))"

text \<open>A peek whose error is ignored: the offset has moved all the same.\<close>

definition peekAny :: "scanEnv \<Rightarrow> queryScanner \<Rightarrow> qtoken \<times> queryScanner" where
  "peekAny en s =
     (case qbuf s of
        Some t \<Rightarrow> (t, s)
      | None \<Rightarrow> (case scanToken (seLen en) (qrest s) of
                  (Inl e, r) \<Rightarrow> (zeroToken, s\<lparr>qrest := r\<rparr>)
                | (Inr t, r) \<Rightarrow> (t, s\<lparr>qrest := r, qbuf := Some t\<rparr>)))"

text \<open>Taking the token just peeked at.\<close>

definition dropPeeked :: "queryScanner \<Rightarrow> queryScanner" where
  "dropPeeked s = s\<lparr>qbuf := None\<rparr>"

definition expect :: "scanEnv \<Rightarrow> string \<Rightarrow> queryScanner \<Rightarrow> unit scan" where
  "expect en kw s =
     bindR (nextToken en s) (\<lambda>(t, s).
       if qLower (tval t) = kw then Inr ((), s) else Inl (UnexpectedToken (tval t) kw))"

definition isWindowClause :: "scanEnv \<Rightarrow> queryScanner \<Rightarrow> bool" where
  "isWindowClause en s =
     (case nextToken en s of Inl _ \<Rightarrow> False
      | Inr (t, s) \<Rightarrow>
          if \<not> isKeyword t ''window'' then False
          else (case nextToken en s of Inl _ \<Rightarrow> False
            | Inr (name, s) \<Rightarrow>
                if ttyp name \<noteq> TIdent \<and> ttyp name \<noteq> TString then False
                else (case nextToken en s of Inl _ \<Rightarrow> False | Inr (as, s) \<Rightarrow> isKeyword as ''as'')))"

definition isNotIndexed :: "scanEnv \<Rightarrow> queryScanner \<Rightarrow> bool" where
  "isNotIndexed en s =
     (case nextToken en s of Inl _ \<Rightarrow> False
      | Inr (t, s) \<Rightarrow>
          if \<not> isKeyword t ''not'' then False
          else (case nextToken en s of Inl _ \<Rightarrow> False | Inr (t2, s) \<Rightarrow> isKeyword t2 ''indexed''))"

section \<open>Names\<close>

fun lastIndexDot :: "string \<Rightarrow> string option" where
  "lastIndexDot [] = None"
| "lastIndexDot (c # cs) = (case lastIndexDot cs of Some r \<Rightarrow> Some r | None \<Rightarrow> if c = CHR ''.'' then Some cs else None)"

definition afterLastDot :: "string \<Rightarrow> string" where
  "afterLastDot s = (case lastIndexDot s of None \<Rightarrow> s | Some r \<Rightarrow> r)"

definition isUserTable :: "scanEnv \<Rightarrow> string \<Rightarrow> bool" where
  "isUserTable en name = ValidTableName (toLower (seLower en) name)"

definition ownSchema :: "string \<Rightarrow> bool" where
  "ownSchema sch = (if sch = '''' then True else qLower (unquoteIdent sch) = ''main'')"

definition isRegisteredRef :: "scanEnv \<Rightarrow> string \<Rightarrow> string \<Rightarrow> bool" where
  "isRegisteredRef en sch name \<longleftrightarrow> ownSchema sch \<and> qLower (unquoteIdent name) \<in> set (seRegistered en)"

definition qualifiedName :: "string \<Rightarrow> string \<Rightarrow> string" where
  "qualifiedName sch rawName =
     (if sch \<noteq> '''' then unquoteIdent sch @ ''.'' @ unquoteIdent rawName else unquoteIdent rawName)"

definition checkTableName :: "scanEnv \<Rightarrow> string \<Rightarrow> string \<Rightarrow> queryScanner \<Rightarrow> query_error + unit" where
  "checkTableName en sch rawName s =
     (let base0 = qLower (qualifiedName sch rawName) in
      if sch = '''' \<and> isCteName s base0 then Inr ()
      else
        let base = afterLastDot base0 in
        if ownSchema sch \<and> base \<in> set (seRegistered en) then Inr ()
        else if \<not> isUserTable en base then Inl (ReservedTable base)
        else Inr ())"

definition parsePragmaArgs :: "scanEnv \<Rightarrow> string \<Rightarrow> string \<Rightarrow> queryScanner \<Rightarrow> unit scan" where
  "parsePragmaArgs en sch rawName s =
     bindR (expect en ''('' s) (\<lambda>(_, s).
     bindR (nextToken en s) (\<lambda>(arg, s).
       if ttyp arg \<noteq> TString then Inl PragmaArgument
       else
         bindR (let (t, s) = peekAny en s in
                if tval t = '','' then
                  bindR (nextToken en (dropPeeked s)) (\<lambda>(schemaArg, s).
                    if ttyp schemaArg \<noteq> TString then Inl PragmaSchemaArgument else Inr ((), s))
                else Inr ((), s)) (\<lambda>(_, s).
         bindR (expect en '')'' s) (\<lambda>(_, s).
           let table = afterLastDot (unquoteString (tval arg)) in
           if \<not> isUserTable en table then Inl (ReservedVia table (qualifiedName sch rawName)) else Inr ((), s)))))"

section \<open>Aliases and index hints\<close>

definition skipIndexedBy :: "scanEnv \<Rightarrow> queryScanner \<Rightarrow> unit scan" where
  "skipIndexedBy en s =
     bindR (peekToken en s) (\<lambda>(t, s).
       if isKeyword t ''indexed'' then
         bindR (expect en ''by'' (dropPeeked (s\<lparr>indexHint := True\<rparr>))) (\<lambda>(_, s).
         bindR (nextToken en s) (\<lambda>(idx, s).
           if ttyp idx \<noteq> TIdent \<and> ttyp idx \<noteq> TString then Inl (ExpectedIndex (tval idx)) else Inr ((), s)))
       else if isKeyword t ''not'' \<and> isNotIndexed en s then
         expect en ''indexed'' (dropPeeked (s\<lparr>indexHint := True\<rparr>))
       else Inr ((), s))"

definition skipOptionalAliasReported :: "scanEnv \<Rightarrow> queryScanner \<Rightarrow> bool scan" where
  "skipOptionalAliasReported en s =
     bindR (peekToken en s) (\<lambda>(t, s).
       if isKeyword t ''indexed'' \<or> isKeyword t ''not'' \<and> isNotIndexed en s then
         bindR (skipIndexedBy en s) (\<lambda>(_, s). Inr (False, s))
       else if isKeyword t ''as'' then
         bindR (nextToken en (dropPeeked s)) (\<lambda>(t, s).
           if ttyp t \<noteq> TIdent \<and> ttyp t \<noteq> TString then Inl (ExpectedAlias (tval t))
           else bindR (skipIndexedBy en s) (\<lambda>(_, s). Inr (True, s)))
       else if ttyp t \<noteq> TIdent \<and> ttyp t \<noteq> TString then Inr (False, s)
       else if ttyp t = TIdent \<and> \<not> isQuotedIdent (tval t)
            \<and> (isJoinOp t \<or> isClauseEnd t \<or> qLower (tval t) = ''on'' \<or> qLower (tval t) = ''using'' \<or> tval t = '')'' \<or> tval t = '','')
         then Inr (False, s)
       else if ttyp t = TIdent \<and> \<not> isQuotedIdent (tval t) \<and> isKeyword t ''window'' \<and> isWindowClause en s then Inr (False, s)
       else bindR (skipIndexedBy en (dropPeeked s)) (\<lambda>(_, s). Inr (True, s)))"

definition skipOptionalAlias :: "scanEnv \<Rightarrow> queryScanner \<Rightarrow> unit scan" where
  "skipOptionalAlias en s = bindR (skipOptionalAliasReported en s) (\<lambda>(_, s). Inr ((), s))"

section \<open>Loops over tokens\<close>

text \<open>
  How much is left to read: a token in the buffer counts one, and a character two, so peeking
  and taking both make progress until the end.
\<close>

definition remaining :: "queryScanner \<Rightarrow> nat" where
  "remaining s = 2 * length (qrest s) + (case qbuf s of None \<Rightarrow> 0 | Some t \<Rightarrow> if ttyp t = TEof then 0 else 1)"


lemma hasPrefix_length: "hasPrefix s p \<Longrightarrow> length p \<le> length s"
  by (auto simp: hasPrefix_iff)

lemma readBody_shorter: "readBody qt acc r = Some (v, r') \<Longrightarrow> length r' < length r"
  by (induction qt acc r rule: readBody.induct) (auto split: if_splits dest!: less_trans [OF _ diff_less] intro: less_SucI)

lemma tclSuffixes_shorter: "length (tclSuffixes r) \<le> length r"
proof (induction r rule: tclSuffixes.induct)
  case (1 a b r)
  then show ?case using length_dropWhile_le [of isIdentCont r] by auto
qed auto

lemma paramParens_shorter: "length (paramParens r) \<le> length r"
  by (induction r rule: paramParens.induct) auto

lemma numberTail_shorter: "length (numberTail p r) \<le> length r"
  by (induction p r rule: numberTail.induct) auto

lemma readParam_shorter: "r \<noteq> [] \<Longrightarrow> length (snd (readParam r)) < length r"
  using tclSuffixes_shorter [of "dropWhile isIdentCont (drop 1 r)"] length_dropWhile_le [of isIdentCont "drop 1 r"]
    paramParens_shorter [of "drop 1 (tclSuffixes (dropWhile isIdentCont (drop 1 r)))"]
  by (cases r) (auto simp: readParam_def Let_def)

lemma readNumberedParam_shorter: "r \<noteq> [] \<Longrightarrow> length (snd (readNumberedParam r)) < length r"
  using length_dropWhile_le [of isDigit "drop 1 r"] by (cases r) (auto simp: readNumberedParam_def)

lemma readIdent_shorter: "isIdentStart c \<Longrightarrow> length (snd (readIdent (c # cs))) < length (c # cs)"
  using length_dropWhile_le [of isIdentCont cs] by (auto simp: readIdent_def isIdentCont_def)

lemma readNumber_shorter: "isDigit c \<Longrightarrow> length (snd (readNumber (c # cs))) < length (c # cs)"
  using numberTail_shorter [of c cs] by (auto simp: readNumber_def Let_def)

text \<open>What a token consumes.\<close>

definition tokenFrom :: "nat \<Rightarrow> string \<Rightarrow> query_error + qtoken \<Rightarrow> string \<Rightarrow> bool" where
  "tokenFrom n r x r' =
     (case x of Inl _ \<Rightarrow> r' = []
      | Inr t \<Rightarrow> if ttyp t = TEof then r' = [] \<and> tval t = ''''
                 else length r' < length r \<and> n - length r \<le> tstart t \<and> tend t = n - length r'
                   \<and> (length r \<le> n \<longrightarrow> tstart t < tend t))"

lemma tokenFrom_if:
  "(b \<Longrightarrow> tokenFrom n r (fst x) (snd x)) \<Longrightarrow> (\<not> b \<Longrightarrow> tokenFrom n r (fst y) (snd y))
    \<Longrightarrow> tokenFrom n r (fst (if b then x else y)) (snd (if b then x else y))"
  by simp

lemma tokenFrom_mkTok:
  "length r' < length r \<Longrightarrow> ty \<noteq> TEof \<Longrightarrow> tokenFrom n r (fst (mkTok n ty v r r')) (snd (mkTok n ty v r r'))"
  by (auto simp: tokenFrom_def mkTok_def)

lemma tokenFrom_quotedTok:
  "(\<And>v r'. body = Some (v, r') \<Longrightarrow> length r' < length r) \<Longrightarrow> ty \<noteq> TEof
    \<Longrightarrow> tokenFrom n r (fst (quotedTok n ty e r body)) (snd (quotedTok n ty e r body))"
  by (auto simp: quotedTok_def tokenFrom_def mkTok_def split: option.splits)

lemma tokenAt_from: "tokenFrom n r (fst (tokenAt n r)) (snd (tokenAt n r))"
proof (cases r)
  case (Cons c cs)
  have body: "readBody qt acc (drop 1 (c # cs)) = Some (v, r1) \<Longrightarrow> length r1 < length (c # cs)" for qt acc v r1
    using readBody_shorter by fastforce
  show ?thesis unfolding tokenAt_def Cons list.case readSingleQuoted_def readQuoted_def readBracketed_def
    by (intro tokenFrom_if tokenFrom_mkTok tokenFrom_quotedTok;
        (erule body | rule readParam_shorter [OF list.distinct(2)] | rule readNumberedParam_shorter [OF list.distinct(2)]
         | erule readIdent_shorter | erule readNumber_shorter | simp (no_asm)))
qed (simp add: tokenAt_def tokenFrom_def mkTok_def)

lemma tokenAt_consumes: "tokenAt n r = (x, r') \<Longrightarrow> tokenFrom n r x r'"
  using tokenAt_from [of n r] by simp

lemma tokenFrom_mono: "tokenFrom n r x r' \<Longrightarrow> length r \<le> length r0 \<Longrightarrow> tokenFrom n r0 x r'"
  by (auto simp: tokenFrom_def split: sum.splits if_splits)

lemma scanToken_consumes: "scanToken n r = (x, r') \<Longrightarrow> tokenFrom n r x r'"
proof (induction n r rule: scanToken.induct)
  case (1 n r0)
  let ?r = "skipWhitespace r0"
  have le: "length ?r \<le> length r0" "length (skipLineComment ?r) \<le> length r0" "length (skipBlockComment ?r) \<le> length r0"
    using skip_shorter(1) [of r0] skip_shorter(2) [of ?r] skip_shorter(3) [of "drop 2 ?r"] by (simp_all add: skipBlockComment_def)
  from "1.prems" consider "hasPrefix ?r ''--''" "scanToken n (skipLineComment ?r) = (x, r')"
    | "\<not> hasPrefix ?r ''--''" "hasPrefix ?r ''/*''" "scanToken n (skipBlockComment ?r) = (x, r')" | "tokenAt n ?r = (x, r')"
    by (auto simp: scanToken.simps [of n r0] Let_def split: if_splits)
  then show ?case
    by cases (blast intro: tokenFrom_mono le "1.IH" [OF refl] tokenAt_consumes)+
qed


lemma nextToken_remaining:
  "nextToken en s = Inr (t, s') \<Longrightarrow> remaining s' \<le> remaining s \<and> (ttyp t \<noteq> TEof \<longrightarrow> remaining s' < remaining s)"
  by (auto simp: nextToken_def remaining_def tokenFrom_def split: option.splits prod.splits sum.splits if_splits dest!: scanToken_consumes)

lemma peekToken_remaining:
  "peekToken en s = Inr (t, s') \<Longrightarrow> remaining s' \<le> remaining s \<and> qbuf s' = Some t"
  by (auto simp: peekToken_def remaining_def tokenFrom_def split: option.splits prod.splits sum.splits if_splits dest!: scanToken_consumes)

lemma peekAny_remaining:
  "peekAny en s = (t, s') \<Longrightarrow> remaining s' \<le> remaining s \<and> (qbuf s' = Some t \<or> t = zeroToken)"
  by (auto simp: peekAny_def remaining_def tokenFrom_def split: option.splits prod.splits sum.splits if_splits dest!: scanToken_consumes)

lemma dropPeeked_remaining:
  "remaining (dropPeeked s) \<le> remaining s" "qbuf s = Some t \<Longrightarrow> ttyp t \<noteq> TEof \<Longrightarrow> remaining (dropPeeked s) < remaining s"
  by (auto simp: dropPeeked_def remaining_def split: option.splits)

lemma expect_remaining: "expect en kw s = Inr (x, s') \<Longrightarrow> remaining s' \<le> remaining s"
  by (auto simp: expect_def split: if_splits dest: nextToken_remaining)

lemma bindR_cong [fundef_cong]: "r = r' \<Longrightarrow> (\<And>x. r' = Inr x \<Longrightarrow> f x = g x) \<Longrightarrow> bindR r f = bindR r' g"
  by (cases r') auto

function skipGroup :: "scanEnv \<Rightarrow> nat \<Rightarrow> queryScanner \<Rightarrow> unit scan" where
  "skipGroup en depth s =
     bindR (nextToken en s) (\<lambda>(t, s').
       if ttyp t = TEof then Inl UnterminatedGroup
       else if tval t = ''('' then skipGroup en (depth + 1) s'
       else if tval t = '')'' then (if depth - 1 = 0 then Inr ((), s') else skipGroup en (depth - 1) s')
       else skipGroup en depth s')"
  by pat_completeness auto
termination
  by (relation "measure (remaining \<circ> snd \<circ> snd)") (auto dest: nextToken_remaining)

declare skipGroup.simps [simp del]

definition skipParenthesized :: "scanEnv \<Rightarrow> queryScanner \<Rightarrow> unit scan" where
  "skipParenthesized en s = bindR (expect en ''('' s) (\<lambda>(_, s). skipGroup en 1 s)"

text \<open>The name of a common table expression, from its token.\<close>

definition cteName :: "scanEnv \<Rightarrow> queryScanner \<Rightarrow> string scan" where
  "cteName en s =
     bindR (nextToken en s) (\<lambda>(t, s).
       if ttyp t \<noteq> TIdent \<and> ttyp t \<noteq> TString then Inl (ExpectedCteName (tval t))
       else Inr (qLower (if ttyp t = TString then unquoteString (tval t) else unquoteIdent (tval t)), s))"

definition skipMaterialized :: "scanEnv \<Rightarrow> queryScanner \<Rightarrow> unit scan" where
  "skipMaterialized en s =
     (let (t, s) = peekAny en s in
      if isKeyword t ''not'' then expect en ''materialized'' (dropPeeked s)
      else if isKeyword t ''materialized'' then Inr ((), dropPeeked s) else Inr ((), s))"

definition skipRecursive :: "scanEnv \<Rightarrow> queryScanner \<Rightarrow> queryScanner" where
  "skipRecursive en s = (let (t, s) = peekAny en s in if isKeyword t ''recursive'' then dropPeeked s else s)"

definition collectOne :: "scanEnv \<Rightarrow> queryScanner \<Rightarrow> string scan" where
  "collectOne en s =
     bindR (cteName en s) (\<lambda>(name, s).
     let (t2, s) = peekAny en s in
     bindR (if tval t2 = ''('' then skipParenthesized en s else Inr ((), s)) (\<lambda>(_, s).
     bindR (expect en ''as'' s) (\<lambda>(_, s).
     bindR (skipMaterialized en s) (\<lambda>(_, s).
     bindR (skipParenthesized en s) (\<lambda>(_, s). Inr (name, s))))))"

lemma skipGroup_remaining: "skipGroup en depth s = Inr (x, s') \<Longrightarrow> remaining s' \<le> remaining s"
proof (induction en depth s rule: skipGroup.induct)
  case (1 en depth s)
  from "1.prems" obtain t s1 where n: "nextToken en s = Inr (t, s1)" by (auto simp: skipGroup.simps [of en depth s])
  note le = nextToken_remaining [OF n]
  show ?case using "1.prems" "1.IH" [OF n refl] le n by (subst (asm) skipGroup.simps) (fastforce split: if_splits)
qed

lemma skipParenthesized_remaining: "skipParenthesized en s = Inr (x, s') \<Longrightarrow> remaining s' \<le> remaining s"
  by (auto simp: skipParenthesized_def dest!: expect_remaining skipGroup_remaining)

lemma cteName_remaining: "cteName en s = Inr (x, s') \<Longrightarrow> remaining s' < remaining s"
  by (auto simp: cteName_def split: if_splits dest!: nextToken_remaining)

lemma skipMaterialized_remaining: "skipMaterialized en s = Inr (x, s') \<Longrightarrow> remaining s' \<le> remaining s"
  using dropPeeked_remaining(1) by (auto simp: skipMaterialized_def split: prod.splits if_splits dest!: peekAny_remaining expect_remaining intro: order_trans)

lemma collectOne_remaining:
  assumes "collectOne en s = Inr (x, s')"
  shows "remaining s' < remaining s"
proof -
  obtain y s1 where s1: "cteName en s = Inr (y, s1)" using assms by (cases "cteName en s") (auto simp: collectOne_def)
  obtain t2 s2 where s2: "peekAny en s1 = (t2, s2)" by fastforce
  from assms s1 s2 obtain s3 s4 s5 where
    s3: "(if tval t2 = ''('' then skipParenthesized en s2 else Inr ((), s2)) = Inr ((), s3)"
    and s4: "expect en ''as'' s3 = Inr ((), s4)" and s5: "skipMaterialized en s4 = Inr ((), s5)"
    and s6: "skipParenthesized en s5 = Inr ((), s')"
    by (auto simp: collectOne_def)
  have "remaining s3 \<le> remaining s2" using s3 by (auto split: if_splits dest: skipParenthesized_remaining)
  with cteName_remaining [OF s1] peekAny_remaining [OF s2] expect_remaining [OF s4] skipMaterialized_remaining [OF s5]
    skipParenthesized_remaining [OF s6] show ?thesis by linarith
qed

function collectLoop :: "scanEnv \<Rightarrow> string list \<Rightarrow> queryScanner \<Rightarrow> string list scan" where
  "collectLoop en names s =
     bindR (collectOne en s) (\<lambda>(name, s').
       if tval (fst (peekAny en s')) = '','' then collectLoop en (names @ [name]) (dropPeeked (snd (peekAny en s')))
       else Inr (names @ [name], snd (peekAny en s')))"
  by pat_completeness auto
termination
proof (relation "measure (remaining \<circ> snd \<circ> snd)")
  fix en names s x name s' assume "collectOne en s = Inr x" "(name, s') = x"
  then have "remaining s' < remaining s" by (auto dest: collectOne_remaining)
  moreover have "remaining (snd (peekAny en s')) \<le> remaining s'" using peekAny_remaining [of en s'] by (metis prod.collapse)
  ultimately show "((en, names @ [name], dropPeeked (snd (peekAny en s'))), en, names, s) \<in> measure (remaining \<circ> snd \<circ> snd)"
    using dropPeeked_remaining(1) [of "snd (peekAny en s')"] by simp
qed simp

declare collectLoop.simps [simp del]

definition collectCteNames :: "scanEnv \<Rightarrow> queryScanner \<Rightarrow> string list scan" where
  "collectCteNames en s = collectLoop en [] (skipRecursive en s)"

function consumeJoinOp :: "scanEnv \<Rightarrow> queryScanner \<Rightarrow> unit scan" where
  "consumeJoinOp en s =
     bindR (peekToken en s) (\<lambda>(t, s').
       if isKeyword t ''join'' then Inr ((), dropPeeked s')
       else if isJoinOp t then consumeJoinOp en (dropPeeked s')
       else Inl (ExpectedJoin (tval t)))"
  by pat_completeness auto
termination
proof (relation "measure (remaining \<circ> snd)")
  fix en s x t s' assume "peekToken en s = Inr x" "(t, s') = x" and op: "isJoinOp t"
  then have "remaining s' \<le> remaining s" "qbuf s' = Some t" using peekToken_remaining by blast+
  moreover have "ttyp t \<noteq> TEof" using op by (auto simp: isJoinOp_def split: if_splits)
  ultimately show "((en, dropPeeked s'), en, s) \<in> measure (remaining \<circ> snd)"
    using dropPeeked_remaining(2) [of s' t] by simp
qed simp

declare consumeJoinOp.simps [simp del]


section \<open>The parser\<close>

definition startsStatement :: "qtoken \<Rightarrow> bool" where
  "startsStatement t \<longleftrightarrow> isKeyword t ''select'' \<or> isKeyword t ''with'' \<or> isKeyword t ''values''"

text \<open>A table reference whose first token has been taken: the schema, the name, and where it ends.\<close>

definition tableRef :: "scanEnv \<Rightarrow> qtoken \<Rightarrow> queryScanner \<Rightarrow> (string \<times> string \<times> nat) scan" where
  "tableRef en t s =
     (let name = (if ttyp t = TString then unquoteString (tval t) else tval t); (t2, s) = peekAny en s in
      if tval t2 = ''.'' then
        bindR (nextToken en (dropPeeked s)) (\<lambda>(t3, s).
          if ttyp t3 \<noteq> TIdent \<and> ttyp t3 \<noteq> TString then Inl (ExpectedTableAfterDot (tval t3))
          else Inr ((name, if ttyp t3 = TString then unquoteString (tval t3) else tval t3, tend t3), s))
      else Inr (('''', name, tend t), s))"

definition isCteRef :: "queryScanner \<Rightarrow> string \<Rightarrow> string \<Rightarrow> bool" where
  "isCteRef s sch name \<longleftrightarrow> sch = '''' \<and> isCteName s (qLower (unquoteIdent name))"

definition recordRewrite :: "qtoken \<Rightarrow> string \<Rightarrow> string \<Rightarrow> nat \<Rightarrow> queryScanner \<Rightarrow> queryScanner" where
  "recordRewrite t sch name refEnd s =
     s\<lparr>qrewrites := qrewrites s @ [\<lparr>rwTable = qLower (unquoteIdent name), rwStart = tstart t, rwEnd = refEnd,
         rwAliased = False, rwQualified = (sch \<noteq> ''''), rwHinted = False\<rparr>]\<rparr>"

definition finishRewrite :: "bool \<Rightarrow> queryScanner \<Rightarrow> queryScanner" where
  "finishRewrite al s =
     s\<lparr>qrewrites := butlast (qrewrites s) @ [(last (qrewrites s))\<lparr>rwAliased := al, rwHinted := indexHint s\<rparr>]\<rparr>"

text \<open>The reference has been read and checked; what is recorded of it, and its alias.\<close>

definition acceptTable :: "scanEnv \<Rightarrow> qtoken \<Rightarrow> string \<Rightarrow> string \<Rightarrow> nat \<Rightarrow> bool \<Rightarrow> queryScanner \<Rightarrow> unit scan" where
  "acceptTable en t sch name refEnd isCTE s =
     bindR (checkTableName en sch name s) (\<lambda>_.
       let recorded = (\<not> isCTE \<and> isRegisteredRef en sch name);
           s = (if recorded then recordRewrite t sch name refEnd s else s) in
       bindR (skipOptionalAliasReported en (s\<lparr>indexHint := False\<rparr>)) (\<lambda>(al, s).
         Inr ((), if recorded then finishRewrite al s else s)))"

text \<open>
  The recursion goes through statements inside parentheses, and those are nested at most
  \<open>maxStmtDepth\<close> deep: each function below takes the parser of the nested statements, and
  \<open>parseStatement\<close> is defined by recursion on the depth left. The loops inside one level take fuel
  from what is left to read.
\<close>

type_synonym statement_parser = "queryScanner \<Rightarrow> unit scan"

fun scanParens :: "statement_parser \<Rightarrow> scanEnv \<Rightarrow> nat \<Rightarrow> queryScanner \<Rightarrow> unit scan"
  and groupLoop :: "statement_parser \<Rightarrow> scanEnv \<Rightarrow> nat \<Rightarrow> nat \<Rightarrow> queryScanner \<Rightarrow> unit scan"
  and inOperand :: "statement_parser \<Rightarrow> scanEnv \<Rightarrow> nat \<Rightarrow> queryScanner \<Rightarrow> unit scan" where
  "scanParens ps en 0 s = Inl QueryOutOfFuel"
| "scanParens ps en (Suc f) s =
     bindR (expect en ''('' s) (\<lambda>(_, s).
     bindR (peekToken en s) (\<lambda>(t, s).
       if startsStatement t then bindR (ps s) (\<lambda>(_, s). expect en '')'' s)
       else groupLoop ps en f 1 s))"
| "groupLoop ps en 0 depth s = Inl QueryOutOfFuel"
| "groupLoop ps en (Suc f) depth s =
     bindR (nextToken en s) (\<lambda>(t, s).
       if ttyp t = TEof then Inl UnterminatedGroup
       else
         bindR (if isKeyword t ''in'' then inOperand ps en f s else Inr ((), s)) (\<lambda>(_, s).
           if tval t = ''('' then
             bindR (peekToken en s) (\<lambda>(t2, s).
               if startsStatement t2 then
                 bindR (ps s) (\<lambda>(_, s). bindR (expect en '')'' s) (\<lambda>(_, s). groupLoop ps en f depth s))
               else groupLoop ps en f (depth + 1) s)
           else if tval t = '')'' then (if depth - 1 = 0 then Inr ((), s) else groupLoop ps en f (depth - 1) s)
           else groupLoop ps en f depth s))"
| "inOperand ps en 0 s = Inl QueryOutOfFuel"
| "inOperand ps en (Suc f) s =
     bindR (peekToken en s) (\<lambda>(t, s).
       if ttyp t \<noteq> TIdent \<and> ttyp t \<noteq> TString then Inr ((), s)
       else
         bindR (tableRef en t (dropPeeked s)) (\<lambda>((sch, name, refEnd), s).
         let isCTE = isCteRef s sch name; (t2, s) = peekAny en s in
         if tval t2 = ''('' then
           (if \<not> isCTE \<and> isPragmaFunction name then parsePragmaArgs en sch name s
            else bindR (scanParens ps en f s) (\<lambda>(_, s). bindR (checkTableName en sch name s) (\<lambda>_. Inr ((), s))))
         else if \<not> isCTE \<and> \<not> isRegisteredRef en sch name \<and> isPragmaFunction name then Inl (ReservedPragma (unquoteIdent name))
         else bindR (checkTableName en sch name s) (\<lambda>_. Inr ((), s))))"

definition scanParenthesized :: "statement_parser \<Rightarrow> scanEnv \<Rightarrow> queryScanner \<Rightarrow> unit scan" where
  "scanParenthesized ps en s = scanParens ps en (remaining s + 1) s"

definition checkInTableOperand :: "statement_parser \<Rightarrow> scanEnv \<Rightarrow> queryScanner \<Rightarrow> unit scan" where
  "checkInTableOperand ps en s = inOperand ps en (remaining s + 1) s"

fun untilLoop :: "statement_parser \<Rightarrow> scanEnv \<Rightarrow> nat \<Rightarrow> string list \<Rightarrow> queryScanner \<Rightarrow> qtoken scan" where
  "untilLoop ps en 0 stop s = Inl QueryOutOfFuel"
| "untilLoop ps en (Suc f) stop s =
     bindR (peekToken en s) (\<lambda>(t, s).
       if isStopToken t stop then Inr (t, s)
       else if tval t = ''('' then bindR (scanParenthesized ps en s) (\<lambda>(_, s). untilLoop ps en f stop s)
       else
         bindR (if isKeyword t ''in'' then checkInTableOperand ps en (dropPeeked s) else Inr ((), dropPeeked s)) (\<lambda>(_, s).
           untilLoop ps en f stop s))"

definition scanUntil :: "statement_parser \<Rightarrow> scanEnv \<Rightarrow> string list \<Rightarrow> queryScanner \<Rightarrow> qtoken scan" where
  "scanUntil ps en stop s = untilLoop ps en (remaining s + 1) stop s"

fun tableList :: "statement_parser \<Rightarrow> scanEnv \<Rightarrow> nat \<Rightarrow> bool \<Rightarrow> queryScanner \<Rightarrow> unit scan"
  and tableFactor :: "statement_parser \<Rightarrow> scanEnv \<Rightarrow> nat \<Rightarrow> queryScanner \<Rightarrow> unit scan" where
  "tableList ps en 0 sawTable s = Inl QueryOutOfFuel"
| "tableList ps en (Suc f) sawTable s =
     bindR (peekToken en s) (\<lambda>(t, s).
       if tval t = '','' then tableList ps en f False (dropPeeked s)
       else if isJoinOp t then
         (if \<not> sawTable then bindR (tableFactor ps en f s) (\<lambda>(_, s). tableList ps en f True s)
          else bindR (consumeJoinOp en s) (\<lambda>(_, s). tableList ps en f False s))
       else if isKeyword t ''on'' \<or> isKeyword t ''using'' then
         (if \<not> sawTable then bindR (tableFactor ps en f s) (\<lambda>(_, s). tableList ps en f True s)
          else bindR (scanUntil ps en joinConditionStop s) (\<lambda>(_, s). tableList ps en f sawTable s))
       else if isKeyword t ''window'' \<and> isWindowClause en s then Inr ((), s)
       else if isClauseEnd t \<or> ttyp t = TEof then Inr ((), s)
       else bindR (tableFactor ps en f s) (\<lambda>(_, s). tableList ps en f True s))"
| "tableFactor ps en 0 s = Inl QueryOutOfFuel"
| "tableFactor ps en (Suc f) s =
     bindR (peekToken en s) (\<lambda>(t, s).
       if tval t = ''('' then
         (if tableParens s \<ge> maxTableParens then Inl FactorTooDeep
          else
            let (t2, s) = peekAny en (dropPeeked (s\<lparr>tableParens := tableParens s + 1\<rparr>)) in
            bindR (if startsStatement t2 then ps s else tableList ps en f False s) (\<lambda>(_, s).
            bindR (expect en '')'' s) (\<lambda>(_, s).
            bindR (skipOptionalAlias en s) (\<lambda>(_, s). Inr ((), s\<lparr>tableParens := tableParens s - 1\<rparr>)))))
       else if ttyp t \<noteq> TIdent \<and> ttyp t \<noteq> TString then Inl (ExpectedTable (tval t))
       else
         bindR (tableRef en t (dropPeeked s)) (\<lambda>((sch, name, refEnd), s).
         let isCTE = isCteRef s sch name; (t2, s) = peekAny en s in
         if tval t2 = ''('' \<and> \<not> isCTE \<and> isPragmaFunction name then
           bindR (parsePragmaArgs en sch name s) (\<lambda>(_, s). skipOptionalAlias en s)
         else
           bindR (if tval t2 = ''('' then scanParenthesized ps en s
                  else if \<not> isCTE \<and> \<not> isRegisteredRef en sch name \<and> isPragmaFunction name
                    then Inl (ReservedPragma (unquoteIdent name))
                  else Inr ((), s)) (\<lambda>(_, s).
             acceptTable en t sch name refEnd isCTE s)))"

definition parseTableList :: "statement_parser \<Rightarrow> scanEnv \<Rightarrow> queryScanner \<Rightarrow> unit scan" where
  "parseTableList ps en s = tableList ps en (2 * remaining s + 2) False s"

definition parseTableFactor :: "statement_parser \<Rightarrow> scanEnv \<Rightarrow> queryScanner \<Rightarrow> unit scan" where
  "parseTableFactor ps en s = tableFactor ps en (2 * remaining s + 1) s"

definition parseSelectCore :: "statement_parser \<Rightarrow> scanEnv \<Rightarrow> queryScanner \<Rightarrow> unit scan" where
  "parseSelectCore ps en s =
     bindR (expect en ''select'' s) (\<lambda>(_, s).
     bindR (scanUntil ps en fromStop s) (\<lambda>(t, s).
     bindR (if isKeyword t ''from'' then parseTableList ps en (dropPeeked s) else Inr ((), s)) (\<lambda>(_, s).
     bindR (scanUntil ps en selectStop s) (\<lambda>(_, s). Inr ((), s)))))"

fun valuesLoop :: "statement_parser \<Rightarrow> scanEnv \<Rightarrow> nat \<Rightarrow> queryScanner \<Rightarrow> unit scan" where
  "valuesLoop ps en 0 s = Inl QueryOutOfFuel"
| "valuesLoop ps en (Suc f) s =
     bindR (scanParenthesized ps en s) (\<lambda>(_, s).
     let (t, s) = peekAny en s in
     if tval t = '','' then valuesLoop ps en f (dropPeeked s)
     else bindR (scanUntil ps en selectStop s) (\<lambda>(_, s). Inr ((), s)))"

definition parseValuesCore :: "statement_parser \<Rightarrow> scanEnv \<Rightarrow> queryScanner \<Rightarrow> unit scan" where
  "parseValuesCore ps en s = bindR (expect en ''values'' s) (\<lambda>(_, s). valuesLoop ps en (remaining s + 1) s)"

definition parseCore :: "statement_parser \<Rightarrow> scanEnv \<Rightarrow> queryScanner \<Rightarrow> unit scan" where
  "parseCore ps en s =
     (let (t, s) = peekAny en s in
      if isKeyword t ''select'' then parseSelectCore ps en s
      else if isKeyword t ''values'' then parseValuesCore ps en s
      else Inl ExpectedCore)"

fun selectLoop :: "statement_parser \<Rightarrow> scanEnv \<Rightarrow> nat \<Rightarrow> queryScanner \<Rightarrow> unit scan" where
  "selectLoop ps en 0 s = Inl QueryOutOfFuel"
| "selectLoop ps en (Suc f) s =
     bindR (peekToken en s) (\<lambda>(t, s).
       if \<not> isKeyword t ''union'' \<and> \<not> isKeyword t ''intersect'' \<and> \<not> isKeyword t ''except'' then Inr ((), s)
       else
         let s = dropPeeked s;
             s = (if isKeyword t ''union'' then
                    let (t2, s) = peekAny en s in if isKeyword t2 ''all'' then dropPeeked s else s
                  else s) in
         bindR (parseCore ps en s) (\<lambda>(_, s). selectLoop ps en f s))"

definition parseSelectStatement :: "statement_parser \<Rightarrow> scanEnv \<Rightarrow> queryScanner \<Rightarrow> unit scan" where
  "parseSelectStatement ps en s = bindR (parseCore ps en s) (\<lambda>(_, s). selectLoop ps en (remaining s + 1) s)"

fun withLoop :: "statement_parser \<Rightarrow> scanEnv \<Rightarrow> nat \<Rightarrow> queryScanner \<Rightarrow> unit scan" where
  "withLoop ps en 0 s = Inl QueryOutOfFuel"
| "withLoop ps en (Suc f) s =
     bindR (cteName en s) (\<lambda>(name, s).
     let (t2, s) = peekAny en (addCteName name s) in
     bindR (if tval t2 = ''('' then scanParenthesized ps en s else Inr ((), s)) (\<lambda>(_, s).
     bindR (expect en ''as'' s) (\<lambda>(_, s).
     bindR (skipMaterialized en s) (\<lambda>(_, s).
     bindR (expect en ''('' s) (\<lambda>(_, s).
     bindR (ps s) (\<lambda>(_, s).
     bindR (expect en '')'' s) (\<lambda>(_, s).
     let (t2, s) = peekAny en s in
     if tval t2 = '','' then withLoop ps en f (dropPeeked s) else Inr ((), s))))))))"

definition parseWith :: "statement_parser \<Rightarrow> scanEnv \<Rightarrow> queryScanner \<Rightarrow> unit scan" where
  "parseWith ps en s =
     bindR (expect en ''with'' s) (\<lambda>(_, s).
     bindR (collectCteNames en (s\<lparr>qbuf := None\<rparr>)) (\<lambda>(names, _).
       let s = skipRecursive en (fold addCteName names s) in withLoop ps en (remaining s + 1) s))"

definition statementBody :: "statement_parser \<Rightarrow> scanEnv \<Rightarrow> queryScanner \<Rightarrow> unit scan" where
  "statementBody ps en s =
     bindR (peekToken en s) (\<lambda>(t, s).
       if isKeyword t ''with'' then bindR (parseWith ps en s) (\<lambda>(_, s). parseSelectStatement ps en s)
       else if \<not> isKeyword t ''select'' \<and> \<not> isKeyword t ''values'' then Inl OnlySelect
       else parseSelectStatement ps en s)"

text \<open>The first argument is what is left of \<open>maxStmtDepth\<close>; it is \<open>maxStmtDepth - stmtDepth s\<close> at every call.\<close>

primrec parseStatement :: "nat \<Rightarrow> scanEnv \<Rightarrow> queryScanner \<Rightarrow> unit scan" where
  "parseStatement 0 en s = Inl StatementTooDeep"
| "parseStatement (Suc d) en s =
     (if stmtDepth s \<ge> maxStmtDepth then Inl StatementTooDeep
      else
        bindR (statementBody (parseStatement d en) en (pushCteScope (s\<lparr>stmtDepth := stmtDepth s + 1\<rparr>))) (\<lambda>(_, s).
          Inr ((), (popCteScope s)\<lparr>stmtDepth := stmtDepth s - 1\<rparr>)))"

section \<open>Scanning and masking a query\<close>

definition scanQueryTables :: "(string \<Rightarrow> string) \<Rightarrow> string \<Rightarrow> string list \<Rightarrow> query_error + tableRewrite list" where
  "scanQueryTables lo stmt reg =
     (if length (runes stmt) > MaxQueryRunes then Inl QueryTooLong
      else
        bindR (parseStatement maxStmtDepth \<lparr>seLen = length stmt, seRegistered = reg, seLower = lo\<rparr> (newQueryScanner stmt))
          (\<lambda>(_, s). Inr (qrewrites s)))"

type_synonym masked_tables = "(string \<times> string) list"

fun refuseMaskedShapes :: "tableRewrite list \<Rightarrow> masked_tables \<Rightarrow> query_error + unit" where
  "refuseMaskedShapes [] masked = Inr ()"
| "refuseMaskedShapes (r # rs) masked =
     (if map_of masked (rwTable r) = None then refuseMaskedShapes rs masked
      else if rwQualified r then Inl (MaskedQualified (rwTable r))
      else if rwHinted r then Inl (MaskedHinted (rwTable r))
      else refuseMaskedShapes rs masked)"

text \<open>\<open>quoteName\<close> is \<^verbatim>\<open>q\<close>: the name between double quotes.\<close>

definition quoteName :: "string \<Rightarrow> string" where
  "quoteName s = CHR 0x22 # s @ [CHR 0x22]"

fun maskLoop :: "string \<Rightarrow> masked_tables \<Rightarrow> nat \<Rightarrow> tableRewrite list \<Rightarrow> string" where
  "maskLoop stmt masked final [] = drop final stmt"
| "maskLoop stmt masked final (r # rs) =
     (case map_of masked (rwTable r) of
        None \<Rightarrow> maskLoop stmt masked final rs
      | Some projection \<Rightarrow>
          if rwStart r < final \<or> rwEnd r > length stmt then maskLoop stmt masked final rs
          else take (rwStart r - final) (drop final stmt) @ projection
               @ (if rwAliased r then '''' else '' AS '' @ quoteName (rwTable r)) @ maskLoop stmt masked (rwEnd r) rs)"

definition maskSecretTables :: "string \<Rightarrow> tableRewrite list \<Rightarrow> masked_tables \<Rightarrow> string" where
  "maskSecretTables stmt rws masked = (if masked = [] then stmt else maskLoop stmt masked 0 rws)"

end
