(* ===== verification/Query_Total.thy ===== *)
theory Query_Total
  imports Query_Scan
begin

text \<open>
  The table scanner always answers, and what it records can be replaced: the references do
  not overlap, lie inside the text and name registered tables. The contract a
  parser of nested statements keeps is the locale \<open>nested_statements\<close>; the scanner of one level
  keeps it too, so the parser of every depth does.
\<close>

named_theorems scan_ok \<open>a function of the scanner goes ahead from a well-formed state\<close>

section \<open>Going ahead in the text\<close>

text \<open>Where the next token will start, at the earliest.\<close>

definition offset :: "scanEnv \<Rightarrow> queryScanner \<Rightarrow> nat" where
  "offset en s =
     (case qbuf s of None \<Rightarrow> seLen en - length (qrest s) | Some t \<Rightarrow> if ttyp t = TEof then seLen en else tstart t)"

definition wfScan :: "scanEnv \<Rightarrow> queryScanner \<Rightarrow> bool" where
  "wfScan en s \<longleftrightarrow> length (qrest s) \<le> seLen en
     \<and> (case qbuf s of None \<Rightarrow> True
        | Some t \<Rightarrow> if ttyp t = TEof then tval t = '''' \<and> qrest s = [] else tstart t < tend t \<and> tend t = seLen en - length (qrest s))"

text \<open>The references \<open>rs\<close>, apart from each other, between two offsets.\<close>

definition spans :: "string list \<Rightarrow> nat \<Rightarrow> tableRewrite list \<Rightarrow> nat \<Rightarrow> bool" where
  "spans reg a rs b \<longleftrightarrow> a \<le> b
     \<and> (\<forall>r\<in>set rs. a \<le> rwStart r \<and> rwStart r < rwEnd r \<and> rwEnd r \<le> b \<and> rwTable r \<in> set reg)
     \<and> sorted_wrt (\<lambda>x y. rwEnd x \<le> rwStart y \<or> rwEnd y \<le> rwStart x) rs"

lemma spans_Nil [simp]: "spans reg a [] b \<longleftrightarrow> a \<le> b"
  by (simp add: spans_def)

lemma spans_append: "spans reg a xs b \<Longrightarrow> spans reg b ys c \<Longrightarrow> spans reg a (xs @ ys) c"
  by (fastforce simp: spans_def sorted_wrt_append)

lemma spans_le: "spans reg a xs b \<Longrightarrow> a \<le> b"
  by (simp add: spans_def)

definition ahead :: "scanEnv \<Rightarrow> queryScanner \<Rightarrow> queryScanner \<Rightarrow> bool" where
  "ahead en s s' \<longleftrightarrow> wfScan en s' \<and> remaining s' \<le> remaining s \<and> stmtDepth s' = stmtDepth s
     \<and> (\<exists>new. qrewrites s' = qrewrites s @ new \<and> spans (seRegistered en) (offset en s) new (offset en s'))"

definition further :: "scanEnv \<Rightarrow> queryScanner \<Rightarrow> queryScanner \<Rightarrow> bool" where
  "further en s s' \<longleftrightarrow> ahead en s s' \<and> remaining s' < remaining s"

text \<open>The text to come is in the offset and the buffer alone.\<close>

lemma other_fields [simp]:
  "wfScan en (s\<lparr>indexHint := b\<rparr>) = wfScan en s" "offset en (s\<lparr>indexHint := b\<rparr>) = offset en s" "remaining (s\<lparr>indexHint := b\<rparr>) = remaining s"
  "wfScan en (s\<lparr>qrewrites := rs\<rparr>) = wfScan en s" "offset en (s\<lparr>qrewrites := rs\<rparr>) = offset en s" "remaining (s\<lparr>qrewrites := rs\<rparr>) = remaining s"
  "wfScan en (s\<lparr>tableParens := k\<rparr>) = wfScan en s" "offset en (s\<lparr>tableParens := k\<rparr>) = offset en s" "remaining (s\<lparr>tableParens := k\<rparr>) = remaining s"
  "wfScan en (s\<lparr>stmtDepth := k\<rparr>) = wfScan en s" "offset en (s\<lparr>stmtDepth := k\<rparr>) = offset en s" "remaining (s\<lparr>stmtDepth := k\<rparr>) = remaining s"
  "wfScan en (s\<lparr>cteScope := sc\<rparr>) = wfScan en s" "offset en (s\<lparr>cteScope := sc\<rparr>) = offset en s" "remaining (s\<lparr>cteScope := sc\<rparr>) = remaining s"
  by (simp_all add: wfScan_def offset_def remaining_def split: option.splits)

lemma ahead_wf: "ahead en s s' \<Longrightarrow> wfScan en s'"
  by (simp add: ahead_def)

lemma further_ahead: "further en s s' \<Longrightarrow> ahead en s s'"
  by (simp add: further_def)

lemma ahead_trans: "ahead en s s1 \<Longrightarrow> ahead en s1 s2 \<Longrightarrow> ahead en s s2"
  unfolding ahead_def by (fastforce intro: spans_append)

lemma further_trans:
  "further en s s1 \<Longrightarrow> ahead en s1 s2 \<Longrightarrow> further en s s2"
  "ahead en s s1 \<Longrightarrow> further en s1 s2 \<Longrightarrow> further en s s2"
proof -
  have le: "remaining y \<le> remaining x" if "ahead en x y" for x y using that by (simp add: ahead_def)
  show "further en s s1 \<Longrightarrow> ahead en s1 s2 \<Longrightarrow> further en s s2" using ahead_trans le [of s1 s2] unfolding further_def by auto
  show "ahead en s s1 \<Longrightarrow> further en s1 s2 \<Longrightarrow> further en s s2" using ahead_trans le [of s s1] unfolding further_def by auto
qed

lemma ahead_still:
  "wfScan en s' \<Longrightarrow> remaining s' \<le> remaining s \<Longrightarrow> stmtDepth s' = stmtDepth s \<Longrightarrow> qrewrites s' = qrewrites s
    \<Longrightarrow> offset en s \<le> offset en s' \<Longrightarrow> ahead en s s'"
  by (simp add: ahead_def)

lemma ahead_refl: "wfScan en s \<Longrightarrow> ahead en s s"
  by (simp add: ahead_def)

text \<open>A result that is not the end of the fuel, with what holds of it.\<close>

definition okay :: "('a \<Rightarrow> queryScanner \<Rightarrow> bool) \<Rightarrow> 'a scan \<Rightarrow> bool" where
  "okay Q r \<longleftrightarrow> (case r of Inl e \<Rightarrow> e \<noteq> QueryOutOfFuel | Inr (x, s) \<Rightarrow> Q x s)"

lemma okay_Inl [simp]: "okay Q (Inl e) \<longleftrightarrow> e \<noteq> QueryOutOfFuel"
  by (simp add: okay_def)

lemma okay_Inr [simp]: "okay Q (Inr (x, s)) \<longleftrightarrow> Q x s"
  by (simp add: okay_def)

lemma okay_bind: "okay P r \<Longrightarrow> (\<And>x s. P x s \<Longrightarrow> okay Q (f (x, s))) \<Longrightarrow> okay Q (bindR r f)"
  unfolding okay_def bindR_def by (cases r) auto

lemma okay_mono: "okay P r \<Longrightarrow> (\<And>x s. P x s \<Longrightarrow> Q x s) \<Longrightarrow> okay Q r"
  by (auto simp: okay_def split: sum.splits)

lemma okay_if: "(b \<Longrightarrow> okay Q x) \<Longrightarrow> (\<not> b \<Longrightarrow> okay Q y) \<Longrightarrow> okay Q (if b then x else y)"
  by simp

section \<open>Tokens\<close>

lemma scanToken_not_fuel: "scanToken n r = (Inl e, r') \<Longrightarrow> e \<noteq> QueryOutOfFuel"
proof (induction n r rule: scanToken.induct)
  case (1 n r0)
  have "tokenAt n r \<noteq> (Inl QueryOutOfFuel, r')" for r
    by (simp add: tokenAt_def mkTok_def quotedTok_def split: list.splits option.splits)
  then show ?case using 1 by (subst (asm) (3) scanToken.simps) (auto simp: Let_def split: if_splits)
qed

definition taken_token :: "scanEnv \<Rightarrow> queryScanner \<Rightarrow> qtoken \<Rightarrow> queryScanner \<Rightarrow> bool" where
  "taken_token en s t s' \<longleftrightarrow>
     (if ttyp t = TEof then tval t = ''''
      else remaining s' < remaining s \<and> offset en s \<le> tstart t \<and> tstart t < tend t \<and> tend t \<le> offset en s')"

lemma nextToken_ok:
  assumes "wfScan en s"
  shows "okay (\<lambda>t s'. ahead en s s' \<and> taken_token en s t s' \<and> qbuf s' = None) (nextToken en s)"
proof (cases "qbuf s")
  case None
  obtain x r' where x: "scanToken (seLen en) (qrest s) = (x, r')" by fastforce
  have "x \<noteq> Inl QueryOutOfFuel" using scanToken_not_fuel x by blast
  with scanToken_consumes [OF x] assms show ?thesis
    by (auto simp: nextToken_def None x ahead_def wfScan_def remaining_def offset_def tokenFrom_def taken_token_def split: sum.splits if_splits)
next
  case (Some t)
  then show ?thesis using assms
    by (auto simp: nextToken_def ahead_def wfScan_def remaining_def offset_def taken_token_def split: if_splits)
qed

lemma peekToken_ok:
  assumes "wfScan en s"
  shows "okay (\<lambda>t s'. ahead en s s' \<and> qbuf s' = Some t) (peekToken en s)"
proof (cases "qbuf s")
  case None
  obtain x r' where x: "scanToken (seLen en) (qrest s) = (x, r')" by fastforce
  have "x \<noteq> Inl QueryOutOfFuel" using scanToken_not_fuel x by blast
  with scanToken_consumes [OF x] assms show ?thesis
    by (auto simp: peekToken_def None x ahead_def wfScan_def remaining_def offset_def tokenFrom_def split: sum.splits if_splits)
qed (use assms in \<open>simp add: peekToken_def ahead_refl\<close>)

lemma peekAny_ok:
  assumes "wfScan en s"
  shows "ahead en s (snd (peekAny en s)) \<and> (qbuf (snd (peekAny en s)) = Some (fst (peekAny en s)) \<or> fst (peekAny en s) = zeroToken)"
proof (cases "qbuf s")
  case None
  obtain x r' where x: "scanToken (seLen en) (qrest s) = (x, r')" by fastforce
  have "x \<noteq> Inl QueryOutOfFuel" using scanToken_not_fuel x by blast
  with scanToken_consumes [OF x] assms show ?thesis
    by (auto simp: peekAny_def None x ahead_def wfScan_def remaining_def offset_def tokenFrom_def split: sum.splits if_splits)
qed (use assms in \<open>simp add: peekAny_def ahead_refl\<close>)

lemma dropPeeked_ok:
  assumes "wfScan en s" "qbuf s = Some t"
  shows "ahead en s (dropPeeked s)" "ttyp t \<noteq> TEof \<Longrightarrow> further en s (dropPeeked s) \<and> offset en s = tstart t \<and> tstart t < tend t \<and> offset en (dropPeeked s) = tend t"
  using assms by (auto simp: further_def ahead_def wfScan_def remaining_def offset_def dropPeeked_def split: if_splits)


lemma peeked_drop:
  assumes "wfScan en s" "qbuf s = Some t" "tval t \<noteq> ''''"
  shows "further en s (dropPeeked s)"
proof -
  have "ttyp t \<noteq> TEof" using assms by (auto simp: wfScan_def)
  then show ?thesis using dropPeeked_ok(2) [OF assms(1,2)] by blast
qed

lemma keyword_val: "isKeyword t kw \<Longrightarrow> kw \<noteq> '''' \<Longrightarrow> tval t \<noteq> ''''"
  by (auto simp: isKeyword_def qLower_def)

lemma joinOp_val: "isJoinOp t \<Longrightarrow> tval t \<noteq> '''' \<and> ttyp t \<noteq> TEof"
  by (auto simp: isJoinOp_def qLower_def split: if_splits)

lemma zeroToken_simps [simp]: "tval zeroToken = ''''" "\<not> isKeyword zeroToken kw" "\<not> startsStatement zeroToken"
  by (simp_all add: zeroToken_def isKeyword_def startsStatement_def)

text \<open>Steps from a fixed origin.\<close>

lemma okay_ahead:
  assumes "ahead en s s1" "okay (\<lambda>_. ahead en s1) r" "\<And>x s2. ahead en s s2 \<Longrightarrow> okay Q (f (x, s2))"
  shows "okay Q (bindR r f)"
  using assms(2) by (rule okay_bind) (blast intro: assms(3) ahead_trans [OF assms(1)])

lemma okay_step:
  assumes "ahead en s s1" "wfScan en s1 \<Longrightarrow> okay (\<lambda>_. ahead en s1) r" "\<And>x s2. ahead en s s2 \<Longrightarrow> okay Q (f (x, s2))"
  shows "okay Q (bindR r f)"
  by (rule okay_ahead [OF assms(1) assms(2) [OF ahead_wf [OF assms(1)]]]) (rule assms(3))

lemma okay_further:
  assumes "further en s s1" "okay (\<lambda>_. ahead en s1) r" "\<And>x s2. further en s s2 \<Longrightarrow> okay Q (f (x, s2))"
  shows "okay Q (bindR r f)"
  using assms(2) by (rule okay_bind) (blast intro: assms(3) further_trans(1) [OF assms(1)])

lemma okay_to_further:
  assumes "ahead en s s1" "okay (\<lambda>_. further en s1) r" "\<And>x s2. further en s s2 \<Longrightarrow> okay Q (f (x, s2))"
  shows "okay Q (bindR r f)"
  using assms(2) by (rule okay_bind) (blast intro: assms(3) further_trans(2) [OF assms(1)])

lemma okay_peekAny:
  assumes "wfScan en s" "\<And>t s'. ahead en s s' \<Longrightarrow> qbuf s' = Some t \<or> t = zeroToken \<Longrightarrow> okay Q (f t s')"
  shows "okay Q (case peekAny en s of (t, s') \<Rightarrow> f t s')"
  using peekAny_ok [OF assms(1)] assms(2) by (cases "peekAny en s") auto

lemma okay_peek:
  assumes "wfScan en s" "\<And>t s1. ahead en s s1 \<Longrightarrow> qbuf s1 = Some t \<Longrightarrow> okay Q (f t s1)"
  shows "okay Q (bindR (peekToken en s) (\<lambda>(t, s). f t s))"
  by (rule okay_bind [OF peekToken_ok [OF assms(1)]]) (simp add: assms(2))

lemma okay_next:
  assumes "wfScan en s" "\<And>t s1. ahead en s s1 \<Longrightarrow> taken_token en s t s1 \<Longrightarrow> okay Q (f t s1)"
  shows "okay Q (bindR (nextToken en s) (\<lambda>(t, s). f t s))"
  by (rule okay_bind [OF nextToken_ok [OF assms(1)]]) (simp add: assms(2))

lemma okay_weaken: "okay (\<lambda>_. further en s) r \<Longrightarrow> okay (\<lambda>_. ahead en s) r"
  by (erule okay_mono) (rule further_ahead)

lemma nextToken_ahead: "wfScan en s \<Longrightarrow> okay (\<lambda>_. ahead en s) (nextToken en s)"
  by (rule okay_mono [OF nextToken_ok]) auto

lemma peekToken_ahead: "wfScan en s \<Longrightarrow> okay (\<lambda>_. ahead en s) (peekToken en s)"
  by (rule okay_mono [OF peekToken_ok]) auto

lemma expect_ok: "wfScan en s \<Longrightarrow> kw \<noteq> '''' \<Longrightarrow> okay (\<lambda>_. further en s) (expect en kw s)"
  unfolding expect_def by (rule okay_bind [OF nextToken_ok]) (auto simp: taken_token_def further_def qLower_def split: if_splits)

lemma expect_ahead: "wfScan en s \<Longrightarrow> kw \<noteq> '''' \<Longrightarrow> okay (\<lambda>_. ahead en s) (expect en kw s)"
  by (rule okay_weaken) (rule expect_ok)

lemma same_ahead:
  "wfScan en s \<Longrightarrow> qrest s' = qrest s \<Longrightarrow> qbuf s' = qbuf s \<Longrightarrow> qrewrites s' = qrewrites s \<Longrightarrow> stmtDepth s' = stmtDepth s
    \<Longrightarrow> ahead en s s'"
  by (cases "qbuf s") (auto simp: ahead_def wfScan_def remaining_def offset_def split: if_splits)

lemma addCteName_same [simp]:
  "qrest (addCteName n s) = qrest s" "qbuf (addCteName n s) = qbuf s" "qrewrites (addCteName n s) = qrewrites s"
  "stmtDepth (addCteName n s) = stmtDepth s"
  by (simp_all add: addCteName_def split: list.splits)

lemma addCteNames_same [simp]:
  "qrest (fold addCteName ns s) = qrest s" "qbuf (fold addCteName ns s) = qbuf s"
  "qrewrites (fold addCteName ns s) = qrewrites s" "stmtDepth (fold addCteName ns s) = stmtDepth s"
  by (induction ns arbitrary: s) simp_all

lemma skipGroup_ok: "wfScan en s \<Longrightarrow> okay (\<lambda>_. ahead en s) (skipGroup en depth s)"
proof (induction en depth s rule: skipGroup.induct)
  case (1 en depth s)
  show ?case
  proof (cases "nextToken en s")
    case (Inr x)
    obtain t s1 where x: "x = (t, s1)" by fastforce
    have n: "ahead en s s1" "taken_token en s t s1" using nextToken_ok [OF "1.prems"] by (auto simp: Inr x)
    have "okay (\<lambda>_. ahead en s) (skipGroup en d s1)" if "okay (\<lambda>_. ahead en s1) (skipGroup en d s1)" for d
      using that by (rule okay_mono) (rule ahead_trans [OF n(1)])
    then show ?thesis using "1.IH" [OF Inr x [symmetric]] ahead_wf [OF n(1)] n by (subst skipGroup.simps) (simp add: Inr x)
  next
    case (Inl e)
    then show ?thesis using nextToken_ok [OF "1.prems"] by (subst skipGroup.simps) simp
  qed
qed

lemma skipParenthesized_ok: "wfScan en s \<Longrightarrow> okay (\<lambda>_. ahead en s) (skipParenthesized en s)"
  unfolding skipParenthesized_def
  by (rule okay_ahead [OF ahead_refl expect_ahead]) (auto dest: ahead_wf intro: okay_mono [OF skipGroup_ok] ahead_trans)

lemma cteName_ok: "wfScan en s \<Longrightarrow> okay (\<lambda>_. further en s) (cteName en s)"
  unfolding cteName_def by (rule okay_bind [OF nextToken_ok]) (auto simp: taken_token_def further_def split: if_splits)

lemma okay_tail: "ahead en s s1 \<Longrightarrow> okay (\<lambda>_. ahead en s1) r \<Longrightarrow> okay (\<lambda>_. ahead en s) r"
  by (erule okay_mono) (rule ahead_trans)

lemma okay_tail_further: "further en s s1 \<Longrightarrow> okay (\<lambda>_. ahead en s1) r \<Longrightarrow> okay (\<lambda>_. further en s) r"
  by (erule okay_mono) (rule further_trans(1))

lemma skipMaterialized_ok: "wfScan en s \<Longrightarrow> okay (\<lambda>_. ahead en s) (skipMaterialized en s)"
proof -
  assume wfs: "wfScan en s"
  have drop: "further en s1 (dropPeeked s1)" if "ahead en s s1" "qbuf s1 = Some t \<or> t = zeroToken" "isKeyword t kw" "kw \<noteq> ''''" for s1 t kw
    using that peeked_drop [OF ahead_wf] keyword_val by fastforce
  show ?thesis unfolding skipMaterialized_def Let_def
  proof (rule okay_peekAny [OF wfs], intro okay_if)
    fix t s1 assume s1: "ahead en s s1" "qbuf s1 = Some t \<or> t = zeroToken"
    assume "isKeyword t ''not''"
    then have d: "ahead en s (dropPeeked s1)" using drop [OF s1] s1(1) by (blast intro: ahead_trans further_ahead)
    then show "okay (\<lambda>_. ahead en s) (expect en ''materialized'' (dropPeeked s1))"
      by (rule okay_tail) (rule expect_ahead [OF ahead_wf [OF d]], simp)
  next
    fix t s1 assume s1: "ahead en s s1" "qbuf s1 = Some t \<or> t = zeroToken" "isKeyword t ''materialized''"
    then have "ahead en s (dropPeeked s1)" using drop [of s1 t] by (blast intro: ahead_trans further_ahead)
    then show "okay (\<lambda>_. ahead en s) (Inr ((), dropPeeked s1))" by simp
  qed simp
qed

lemma skipRecursive_ok: "wfScan en s \<Longrightarrow> ahead en s (skipRecursive en s)"
  using peekAny_ok [of en s] peeked_drop [of en "snd (peekAny en s)" "fst (peekAny en s)"] keyword_val [of "fst (peekAny en s)" "''recursive''"]
  by (cases "peekAny en s") (auto simp: skipRecursive_def dest: ahead_wf intro: ahead_trans further_ahead)


lemmas [scan_ok] = ahead_refl nextToken_ahead peekToken_ahead expect_ahead skipParenthesized_ok cteName_ok [THEN okay_weaken]
  skipMaterialized_ok

lemma collectOne_ok [scan_ok]: "wfScan en s \<Longrightarrow> okay (\<lambda>_. ahead en s) (collectOne en s)"
  unfolding collectOne_def Let_def
proof (rule okay_step [OF ahead_refl], assumption, simp add: scan_ok, simp, rule okay_peekAny, erule ahead_wf)
  fix x s1 t s2
  assume "ahead en s s1" "ahead en s1 s2"
  then have "ahead en s s2" by (rule ahead_trans)
  then show "okay (\<lambda>_. ahead en s) (bindR (if tval t = ''('' then skipParenthesized en s2 else Inr ((), s2)) (\<lambda>(_, s).
      bindR (expect en ''as'' s) (\<lambda>(_, s). bindR (skipMaterialized en s) (\<lambda>(_, s).
        bindR (skipParenthesized en s) (\<lambda>(_, s). Inr (x, s))))))"
    by - (rule okay_step, assumption, simp add: scan_ok, simp)+
qed

lemma collectLoop_ok: "wfScan en s \<Longrightarrow> okay (\<lambda>_ _. True) (collectLoop en names s)"
proof (induction en names s rule: collectLoop.induct)
  case (1 en names s)
  show ?case
  proof (cases "collectOne en s")
    case (Inr x)
    obtain nm s1 where x: "x = (nm, s1)" by fastforce
    have s1: "ahead en s s1" using collectOne_ok [OF "1.prems"] by (simp add: Inr x)
    have p: "ahead en s1 (snd (peekAny en s1))" "qbuf (snd (peekAny en s1)) = Some (fst (peekAny en s1)) \<or> fst (peekAny en s1) = zeroToken"
      using peekAny_ok [OF ahead_wf [OF s1]] by auto
    have "wfScan en (dropPeeked (snd (peekAny en s1)))" if "tval (fst (peekAny en s1)) = '',''"
      using that p(2) peeked_drop [OF ahead_wf [OF p(1)], THEN further_ahead, THEN ahead_wf] by auto
    then show ?thesis using "1.IH" [OF Inr x [symmetric]] by (subst collectLoop.simps) (simp add: Inr x)
  next
    case (Inl e)
    then show ?thesis using collectOne_ok [OF "1.prems"] by (subst collectLoop.simps) simp
  qed
qed

lemma collectCteNames_ok: "wfScan en s \<Longrightarrow> okay (\<lambda>_ _. True) (collectCteNames en s)"
  unfolding collectCteNames_def by (rule collectLoop_ok) (rule ahead_wf, erule skipRecursive_ok)

lemma consumeJoinOp_ok: "wfScan en s \<Longrightarrow> okay (\<lambda>_. further en s) (consumeJoinOp en s)"
proof (induction en s rule: consumeJoinOp.induct)
  case (1 en s)
  show ?case
  proof (cases "peekToken en s")
    case (Inr x)
    obtain t s1 where x: "x = (t, s1)" by fastforce
    have s1: "ahead en s s1" "qbuf s1 = Some t" using peekToken_ok [OF "1.prems"] by (auto simp: Inr x)
    have d: "further en s (dropPeeked s1)" if "tval t \<noteq> ''''"
      using further_trans(2) [OF s1(1) peeked_drop [OF ahead_wf [OF s1(1)] s1(2) that]] .
    show ?thesis
    proof (cases "isKeyword t ''join''")
      case True
      then show ?thesis using d keyword_val [of t "''join''"] by (subst consumeJoinOp.simps) (simp add: Inr x)
    next
      case False
      have "okay (\<lambda>_. further en s) (consumeJoinOp en (dropPeeked s1))" if op: "isJoinOp t"
      proof -
        have f: "further en s (dropPeeked s1)" using d joinOp_val [OF op] by blast
        show ?thesis using "1.IH" [OF Inr x [symmetric] False op ahead_wf [OF further_ahead [OF f]]]
          by (rule okay_mono) (blast intro: further_trans(1) [OF f] further_ahead)
      qed
      then show ?thesis using False by (subst consumeJoinOp.simps) (simp add: Inr x)
    qed
  next
    case (Inl e)
    then show ?thesis using peekToken_ok [OF "1.prems"] by (subst consumeJoinOp.simps) simp
  qed
qed

lemma hinted_drop:
  assumes "ahead en s s1" "qbuf s1 = Some t" "isKeyword t kw" "kw \<noteq> ''''"
  shows "ahead en s (dropPeeked (s1\<lparr>indexHint := b\<rparr>))"
proof -
  have "ahead en s1 (s1\<lparr>indexHint := b\<rparr>)" by (rule same_ahead [OF ahead_wf [OF assms(1)]]) simp_all
  moreover have "further en (s1\<lparr>indexHint := b\<rparr>) (dropPeeked (s1\<lparr>indexHint := b\<rparr>))"
    by (rule peeked_drop [OF ahead_wf [OF calculation], of t]) (use assms keyword_val in auto)
  ultimately show ?thesis using assms(1) by (blast intro: ahead_trans further_ahead)
qed

lemma skipIndexedBy_ok [scan_ok]: "wfScan en s \<Longrightarrow> okay (\<lambda>_. ahead en s) (skipIndexedBy en s)"
  unfolding skipIndexedBy_def
proof (rule okay_peek, assumption, intro okay_if)
  fix t s1 assume s1: "ahead en s s1" "qbuf s1 = Some t"
  {
    assume "isKeyword t ''indexed''"
    then have "ahead en s (dropPeeked (s1\<lparr>indexHint := True\<rparr>))" by (rule hinted_drop [OF s1]) simp
    then show "okay (\<lambda>_. ahead en s) (bindR (expect en ''by'' (dropPeeked (s1\<lparr>indexHint := True\<rparr>))) (\<lambda>(_, s).
        bindR (nextToken en s) (\<lambda>(idx, s). if ttyp idx \<noteq> TIdent \<and> ttyp idx \<noteq> TString then Inl (ExpectedIndex (tval idx)) else Inr ((), s))))"
      by - (rule okay_step, assumption, simp add: scan_ok, simp)+
  }
  assume "isKeyword t ''not'' \<and> isNotIndexed en s1"
  then have d: "ahead en s (dropPeeked (s1\<lparr>indexHint := True\<rparr>))" by (auto intro: hinted_drop [OF s1, of "''not''"])
  then show "okay (\<lambda>_. ahead en s) (expect en ''indexed'' (dropPeeked (s1\<lparr>indexHint := True\<rparr>)))"
    by (rule okay_tail) (simp add: scan_ok ahead_wf [OF d])
qed auto


lemma ahead_drop:
  assumes "ahead en s s1" "qbuf s1 = Some t" "ttyp t \<noteq> TEof"
  shows "further en s (dropPeeked s1)"
  using further_trans(2) [OF assms(1)] dropPeeked_ok(2) [OF ahead_wf [OF assms(1)] assms(2,3)] by blast

lemma keyword_typ: "isKeyword t kw \<Longrightarrow> ttyp t \<noteq> TEof"
  by (auto simp: isKeyword_def)

lemma val_typ: "wfScan en s \<Longrightarrow> qbuf s = Some t \<Longrightarrow> tval t \<noteq> '''' \<Longrightarrow> ttyp t \<noteq> TEof"
  by (auto simp: wfScan_def)

lemma skipOptionalAliasReported_ok [scan_ok]: "wfScan en s \<Longrightarrow> okay (\<lambda>_. ahead en s) (skipOptionalAliasReported en s)"
  unfolding skipOptionalAliasReported_def
proof (rule okay_peek, assumption, intro okay_if)
  fix t s1 assume s1: "ahead en s s1" "qbuf s1 = Some t"
  show "okay (\<lambda>_. ahead en s) (bindR (skipIndexedBy en s1) (\<lambda>(_, s). Inr (False, s)))"
    using s1(1) by (rule okay_step) (simp_all add: scan_ok)
  {
    assume kw: "isKeyword t ''as''"
    have "ahead en s (dropPeeked s1)" using ahead_drop [OF s1 keyword_typ [OF kw]] by (rule further_ahead)
    then show "okay (\<lambda>_. ahead en s) (bindR (nextToken en (dropPeeked s1)) (\<lambda>(t, s).
        if ttyp t \<noteq> TIdent \<and> ttyp t \<noteq> TString then Inl (ExpectedAlias (tval t))
        else bindR (skipIndexedBy en s) (\<lambda>(_, s). Inr (True, s))))"
      by - (rule okay_step, assumption, simp add: scan_ok, simp only: prod.case, rule okay_if, simp,
          rule okay_step, assumption, simp_all add: scan_ok)
  }
  assume "\<not> (ttyp t \<noteq> TIdent \<and> ttyp t \<noteq> TString)"
  then have "ahead en s (dropPeeked s1)" using ahead_drop [OF s1] by (auto intro: further_ahead)
  then show "okay (\<lambda>_. ahead en s) (bindR (skipIndexedBy en (dropPeeked s1)) (\<lambda>(_, s). Inr (True, s)))"
    by (rule okay_step) (simp_all add: scan_ok)
qed simp_all

lemma skipOptionalAlias_ok [scan_ok]: "wfScan en s \<Longrightarrow> okay (\<lambda>_. ahead en s) (skipOptionalAlias en s)"
  unfolding skipOptionalAlias_def by (rule okay_step [OF ahead_refl]) (simp_all add: scan_ok)

lemma parsePragmaArgs_ok [scan_ok]:
  assumes "wfScan en s"
  shows "okay (\<lambda>_. ahead en s) (parsePragmaArgs en sch name s)"
proof -
  have schema_arg: "okay (\<lambda>_. ahead en s1) (case peekAny en s1 of (t, s) \<Rightarrow> if tval t = '','' then
      bindR (nextToken en (dropPeeked s)) (\<lambda>(schemaArg, s). if ttyp schemaArg \<noteq> TString then Inl PragmaSchemaArgument else Inr ((), s))
      else Inr ((), s))" if wfs: "wfScan en s1" for s1
  proof (rule okay_peekAny [OF wfs], rule okay_if)
    fix t s2 assume s2: "ahead en s1 s2" "qbuf s2 = Some t \<or> t = zeroToken" "tval t = '',''"
    then have "ahead en s1 (dropPeeked s2)" using ahead_drop [OF s2(1)] val_typ [OF ahead_wf [OF s2(1)]] by (auto intro: further_ahead)
    then show "okay (\<lambda>_. ahead en s1) (bindR (nextToken en (dropPeeked s2)) (\<lambda>(schemaArg, s).
        if ttyp schemaArg \<noteq> TString then Inl PragmaSchemaArgument else Inr ((), s)))"
      by - (rule okay_step, assumption, simp_all add: scan_ok)
  qed simp
  show ?thesis using ahead_refl [OF assms] unfolding parsePragmaArgs_def Let_def
    by - (rule okay_step, assumption, simp add: scan_ok, simp only: prod.case, rule okay_step, assumption, simp add: scan_ok,
        simp only: prod.case, rule okay_if, simp, rule okay_step, assumption, erule schema_arg, simp only: prod.case,
        rule okay_step, assumption, simp_all add: scan_ok)
qed

lemma checkTableName_ok: "checkTableName en sch name s \<noteq> Inl QueryOutOfFuel"
  by (simp add: checkTableName_def Let_def)

lemma tableRef_ok:
  assumes "wfScan en s" "tend t \<le> offset en s"
  shows "okay (\<lambda>(sch, name, refEnd) s'. ahead en s s' \<and> tend t \<le> refEnd \<and> refEnd \<le> offset en s') (tableRef en t s)"
  unfolding tableRef_def Let_def
proof (rule okay_peekAny [OF assms(1)], rule okay_if)
  fix t2 s2 assume s2: "ahead en s s2" "qbuf s2 = Some t2 \<or> t2 = zeroToken" and dot: "tval t2 = ''.''"
  have le: "offset en a \<le> offset en b" if "ahead en a b" for a b using that by (auto simp: ahead_def dest: spans_le)
  have d: "ahead en s (dropPeeked s2)" using dot s2 ahead_drop [OF s2(1)] val_typ [OF ahead_wf [OF s2(1)]] by (auto intro: further_ahead)
  show "okay (\<lambda>(sch, name, refEnd) s'. ahead en s s' \<and> tend t \<le> refEnd \<and> refEnd \<le> offset en s')
     (bindR (nextToken en (dropPeeked s2)) (\<lambda>(t3, s).
        if ttyp t3 \<noteq> TIdent \<and> ttyp t3 \<noteq> TString then Inl (ExpectedTableAfterDot (tval t3))
        else Inr ((if ttyp t = TString then unquoteString (tval t) else tval t,
              if ttyp t3 = TString then unquoteString (tval t3) else tval t3, tend t3), s)))"
  proof (rule okay_next [OF ahead_wf [OF d]], rule okay_if, simp)
    fix t3 s3 assume s3: "ahead en (dropPeeked s2) s3" "taken_token en (dropPeeked s2) t3 s3" "\<not> (ttyp t3 \<noteq> TIdent \<and> ttyp t3 \<noteq> TString)"
    then have "tend t \<le> tend t3" "tend t3 \<le> offset en s3" using assms(2) le [OF d] by (auto simp: taken_token_def)
    then show "okay (\<lambda>(sch, name, refEnd) s'. ahead en s s' \<and> tend t \<le> refEnd \<and> refEnd \<le> offset en s')
      (Inr ((if ttyp t = TString then unquoteString (tval t) else tval t,
              if ttyp t3 = TString then unquoteString (tval t3) else tval t3, tend t3), s3))"
      using ahead_trans [OF d s3(1)] by simp
  qed
next
  fix t2 s2 assume s2: "ahead en s s2"
  then have "offset en s \<le> offset en s2" by (auto simp: ahead_def dest: spans_le)
  then show "okay (\<lambda>(sch, name, refEnd) s'. ahead en s s' \<and> tend t \<le> refEnd \<and> refEnd \<le> offset en s')
      (Inr (('''', if ttyp t = TString then unquoteString (tval t) else tval t, tend t), s2))"
    using s2 assms(2) by simp
qed


text \<open>Reading tokens and aliases records nothing.\<close>

lemma tokens_keep:
  "nextToken en s = Inr (t, s') \<Longrightarrow> qrewrites s' = qrewrites s"
  "peekToken en s = Inr (t, s') \<Longrightarrow> qrewrites s' = qrewrites s"
  "peekAny en s = (t, s') \<Longrightarrow> qrewrites s' = qrewrites s"
  "qrewrites (dropPeeked s) = qrewrites s"
  "expect en kw s = Inr (u, s') \<Longrightarrow> qrewrites s' = qrewrites s"
  by (auto simp: nextToken_def peekToken_def peekAny_def dropPeeked_def expect_def split: option.splits prod.splits sum.splits if_splits)

lemma tableRef_keeps: "tableRef en t s = Inr (x, s') \<Longrightarrow> qrewrites s' = qrewrites s"
  by (auto simp: tableRef_def Let_def tokens_keep split: prod.split_asm if_splits dest!: tokens_keep(1,3))

lemma skipIndexedBy_keeps: "skipIndexedBy en s = Inr (x, s') \<Longrightarrow> qrewrites s' = qrewrites s"
  by (auto simp: skipIndexedBy_def tokens_keep split: if_splits dest!: tokens_keep(1,2,5))

lemma skipOptionalAliasReported_keeps: "skipOptionalAliasReported en s = Inr (x, s') \<Longrightarrow> qrewrites s' = qrewrites s"
  by (auto simp: skipOptionalAliasReported_def tokens_keep split: if_splits dest!: tokens_keep(1,2,5) skipIndexedBy_keeps)

lemma ahead_record:
  assumes "ahead en s0 s1" "qrewrites s1 = qrewrites s0" "offset en s0 \<le> rwStart r" "rwStart r < rwEnd r" "rwEnd r \<le> offset en s1"
    and "ahead en s1 s2" "rwTable r \<in> set (seRegistered en)" "ahead en s2 s3" "qrewrites s3 = qrewrites s2"
  shows "ahead en s0 (s3\<lparr>qrewrites := qrewrites s2 @ [r]\<rparr>)"
proof -
  obtain new where new: "qrewrites s2 = qrewrites s1 @ new" "spans (seRegistered en) (offset en s1) new (offset en s2)"
    using assms(6) by (auto simp: ahead_def)
  have le: "offset en s2 \<le> offset en s3" using assms(8) by (auto simp: ahead_def dest: spans_le)
  have "offset en s0 \<le> offset en s1" using assms(1) by (auto simp: ahead_def dest: spans_le)
  with assms(3-5,7) new(2) le have "spans (seRegistered en) (offset en s0) (new @ [r]) (offset en s3)"
    by (fastforce simp: spans_def sorted_wrt_append)
  moreover have "ahead en s0 s3" using assms(1,6,8) by (blast intro: ahead_trans)
  ultimately show ?thesis using new(1) assms(2) by (auto simp: ahead_def)
qed

lemma acceptTable_ok:
  assumes "ahead en s0 s1" "qrewrites s1 = qrewrites s0" "offset en s0 \<le> tstart t" "tstart t < refEnd" "refEnd \<le> offset en s1"
    and "ahead en s1 s2"
  shows "okay (\<lambda>_ s'. ahead en s0 s' \<and> remaining s' \<le> remaining s2) (acceptTable en t sch name refEnd isCTE s2)"
proof (cases "checkTableName en sch name s2")
  case (Inl e)
  then show ?thesis using checkTableName_ok [of en sch name s2] by (simp add: acceptTable_def)
next
  case (Inr u)
  let ?rec = "\<not> isCTE \<and> isRegisteredRef en sch name"
  let ?s = "(if ?rec then recordRewrite t sch name refEnd s2 else s2)\<lparr>indexHint := False\<rparr>"
  have s2: "wfScan en s2" using assms(6) by (rule ahead_wf)
  then have wfs: "wfScan en ?s" by (cases ?rec) (simp_all add: recordRewrite_def)
  show ?thesis
  proof (cases "skipOptionalAliasReported en ?s")
    case (Inl e)
    then show ?thesis using skipOptionalAliasReported_ok [OF wfs] Inr by (simp add: acceptTable_def Let_def)
  next
    case ali: (Inr x)
    then obtain al s4 where x: "skipOptionalAliasReported en ?s = Inr (al, s4)" by (cases x) auto
    have a4: "ahead en ?s s4" using skipOptionalAliasReported_ok [OF wfs] by (simp add: x)
    have keep: "qrewrites s4 = qrewrites ?s" using x by (rule skipOptionalAliasReported_keeps)
    have "ahead en s0 (if ?rec then finishRewrite al s4 else s4)"
    proof (cases ?rec)
      case True
      let ?r = "\<lparr>rwTable = qLower (unquoteIdent name), rwStart = tstart t, rwEnd = refEnd,
         rwAliased = al, rwQualified = (sch \<noteq> ''''), rwHinted = indexHint s4\<rparr>"
      have "ahead en s2 (s4\<lparr>qrewrites := qrewrites s2\<rparr>)" using a4 s2 True
        by (auto simp: ahead_def recordRewrite_def dest: spans_le)
      then have "ahead en s0 (s4\<lparr>qrewrites := qrewrites s2, qrewrites := qrewrites s2 @ [?r]\<rparr>)"
        using assms True by (intro ahead_record [OF assms(1,2)]) (auto simp: isRegisteredRef_def)
      then show ?thesis using True keep by (simp add: finishRewrite_def recordRewrite_def)
    next
      case False
      then have "ahead en s2 ?s" using s2 by (intro same_ahead) auto
      moreover have "ahead en s0 s2" using assms(1,6) by (rule ahead_trans)
      ultimately have "ahead en s0 s4" using a4 by (blast intro: ahead_trans)
      with False show ?thesis by auto
    qed
    moreover have "remaining s4 \<le> remaining s2" using a4 by (cases ?rec) (auto simp: ahead_def recordRewrite_def)
    ultimately show ?thesis using Inr x by (auto simp: acceptTable_def Let_def finishRewrite_def)
  qed
qed


text \<open>The same steps once something has been read.\<close>

lemma okay_stepf:
  assumes "further en s s1" "wfScan en s1 \<Longrightarrow> okay (\<lambda>_. ahead en s1) r" "\<And>x s2. further en s s2 \<Longrightarrow> okay Q (f (x, s2))"
  shows "okay Q (bindR r f)"
  by (rule okay_further [OF assms(1) assms(2) [OF ahead_wf [OF further_ahead [OF assms(1)]]]]) (rule assms(3))

lemma okay_peekf:
  assumes "further en s s0" "\<And>t s1. further en s s1 \<Longrightarrow> qbuf s1 = Some t \<Longrightarrow> okay Q (f t s1)"
  shows "okay Q (bindR (peekToken en s0) (\<lambda>(t, s). f t s))"
  by (rule okay_peek [OF ahead_wf [OF further_ahead [OF assms(1)]]]) (blast intro: assms(2) further_trans(1) [OF assms(1)])

lemma okay_peekAnyf:
  assumes "further en s s0" "\<And>t s1. further en s s1 \<Longrightarrow> qbuf s1 = Some t \<or> t = zeroToken \<Longrightarrow> okay Q (f t s1)"
  shows "okay Q (case peekAny en s0 of (t, s) \<Rightarrow> f t s)"
  by (rule okay_peekAny [OF ahead_wf [OF further_ahead [OF assms(1)]]]) (blast intro: assms(2) further_trans(1) [OF assms(1)])

lemma okay_tailf: "further en s s1 \<Longrightarrow> okay (\<lambda>_. ahead en s1) r \<Longrightarrow> okay (\<lambda>_. ahead en s) r"
  by (rule okay_tail) (erule further_ahead)

lemma okay_checked: "Q () s \<Longrightarrow> okay Q (bindR (checkTableName en sch name s0) (\<lambda>_. Inr ((), s)))"
  using checkTableName_ok [of en sch name s0] by (cases "checkTableName en sch name s0") auto

lemma further_wf: "further en s s1 \<Longrightarrow> wfScan en s1"
  by (rule ahead_wf) (rule further_ahead)

lemma further_less: "further en s s1 \<Longrightarrow> remaining s < Suc f \<Longrightarrow> remaining s1 < f"
  by (simp add: further_def)

lemma peekedAny_drop:
  assumes "further en s s1" "qbuf s1 = Some t \<or> t = zeroToken" "tval t \<noteq> ''''"
  shows "further en s (dropPeeked s1)"
  using assms ahead_drop [OF further_ahead [OF assms(1)]] val_typ [OF further_wf [OF assms(1)]] by auto

lemma ahead_other [simp]:
  "ahead en s (s'\<lparr>tableParens := k\<rparr>) = ahead en s s'" "ahead en (s\<lparr>tableParens := k\<rparr>) s' = ahead en s s'"
  "further en s (s'\<lparr>tableParens := k\<rparr>) = further en s s'" "further en (s\<lparr>tableParens := k\<rparr>) s' = further en s s'"
  "ahead en s (s'\<lparr>cteScope := sc\<rparr>) = ahead en s s'" "ahead en (s\<lparr>cteScope := sc\<rparr>) s' = ahead en s s'"
  by (simp_all add: ahead_def further_def)

lemma stop_eof: "\<not> isStopToken t stop \<Longrightarrow> ttyp t \<noteq> TEof"
  by (auto simp: isStopToken_def)

text \<open>A table reference, from the token peeked at to the token after it.\<close>

lemma tableRef_step:
  assumes s1: "ahead en s s1" "qbuf s1 = Some t" and ty: "\<not> (ttyp t \<noteq> TIdent \<and> ttyp t \<noteq> TString)"
    and step: "\<And>sch name refEnd s2 s3 t2. further en s s2 \<Longrightarrow> qrewrites s2 = qrewrites s1 \<Longrightarrow> offset en s1 \<le> tstart t
      \<Longrightarrow> tstart t < refEnd \<Longrightarrow> refEnd \<le> offset en s2 \<Longrightarrow> ahead en s1 s2 \<Longrightarrow> ahead en s2 s3 \<Longrightarrow> further en s s3
      \<Longrightarrow> okay Q (f sch name refEnd s2 t2 s3)"
  shows "okay Q (bindR (tableRef en t (dropPeeked s1)) (\<lambda>((sch, name, refEnd), s).
    case peekAny en s of (t2, s') \<Rightarrow> f sch name refEnd s t2 s'))"
proof -
  have eof: "ttyp t \<noteq> TEof" using ty by auto
  have d: "further en s1 (dropPeeked s1)" "offset en s1 = tstart t" "tstart t < tend t" "offset en (dropPeeked s1) = tend t"
    using dropPeeked_ok(2) [OF ahead_wf [OF s1(1)] s1(2) eof] by auto
  obtain r where r: "tableRef en t (dropPeeked s1) = r" by simp
  have ref: "okay (\<lambda>(sch, name, refEnd) s'. ahead en (dropPeeked s1) s' \<and> tend t \<le> refEnd \<and> refEnd \<le> offset en s') r"
    unfolding r [symmetric] by (rule tableRef_ok [OF further_wf [OF d(1)]]) (simp add: d(4))
  show ?thesis
  proof (cases r)
    case (Inr x)
    obtain sch name refEnd s2 where x: "x = ((sch, name, refEnd), s2)" by (metis prod.collapse)
    have s2: "ahead en (dropPeeked s1) s2" "tend t \<le> refEnd" "refEnd \<le> offset en s2" using ref by (auto simp: Inr x)
    have keep: "qrewrites s2 = qrewrites s1" using tableRef_keeps [of en t "dropPeeked s1"] r Inr x by (simp add: tokens_keep)
    have a: "ahead en s1 s2" "further en s s2"
      using further_trans(1) [OF d(1) s2(1)] further_trans(2) [OF s1(1)] by (auto intro: further_ahead)
    show ?thesis unfolding r Inr x bindR_simps prod.case
      by (rule okay_peekAny [OF ahead_wf [OF a(1)]], rule step [OF a(2) keep]) (use d s2 a in \<open>auto intro: further_trans(1)\<close>)
  qed (use ref r in simp)
qed

definition stopped :: "string list \<Rightarrow> qtoken \<Rightarrow> queryScanner \<Rightarrow> bool" where
  "stopped stop t s \<longleftrightarrow> qbuf s = Some t \<and> isStopToken t stop"

section \<open>One level of statements\<close>

text \<open>What the scanner of one level relies on: the parser of the statements nested in it goes ahead.\<close>

locale nested_statements =
  fixes ps :: statement_parser and en :: scanEnv
  assumes nested: "wfScan en s \<Longrightarrow> okay (\<lambda>_. ahead en s) (ps s)"
begin

lemma group_ok:
  "wfScan en s \<Longrightarrow> remaining s < f \<Longrightarrow> okay (\<lambda>_. further en s) (scanParens ps en f s)"
  "wfScan en s \<Longrightarrow> remaining s < f \<Longrightarrow> okay (\<lambda>_. ahead en s) (groupLoop ps en f depth s)"
  "wfScan en s \<Longrightarrow> remaining s < f \<Longrightarrow> okay (\<lambda>_. ahead en s) (inOperand ps en f s)"
proof (induction f arbitrary: s depth)
  case (Suc f)
  {
    case 1
    show ?case unfolding scanParens.simps
    proof (rule okay_to_further [OF ahead_refl expect_ok], rule 1, rule 1, simp, simp only: prod.case, rule okay_peekf, assumption, rule okay_if)
      fix t s1 assume s1: "further en s s1"
      show "okay (\<lambda>_. further en s) (bindR (ps s1) (\<lambda>(_, s). expect en '')'' s))"
        using s1 by (rule okay_stepf) (simp_all add: nested okay_tail_further scan_ok further_wf)
      show "okay (\<lambda>_. further en s) (groupLoop ps en f 1 s1)"
        by (rule okay_tail_further [OF s1]) (rule Suc.IH(2) [OF further_wf [OF s1] further_less [OF s1 1(2)]])
    qed
  next
    case 2
    have tail: "okay (\<lambda>_. ahead en s) (groupLoop ps en f d s1)" if "further en s s1" for d s1
      by (rule okay_tailf [OF that]) (rule Suc.IH(2) [OF further_wf [OF that] further_less [OF that 2(2)]])
    show ?case unfolding groupLoop.simps
    proof (rule okay_next [OF 2(1)], rule okay_if, simp, rule okay_stepf)
      fix t s1 assume "ahead en s s1" "taken_token en s t s1" "ttyp t \<noteq> TEof"
      then show s1: "further en s s1" by (simp add: further_def taken_token_def)
      show "okay (\<lambda>_. ahead en s1) (if isKeyword t ''in'' then inOperand ps en f s1 else Inr ((), s1))"
        using Suc.IH(3) [OF further_wf [OF s1] further_less [OF s1 2(2)]] by (simp add: ahead_refl further_wf [OF s1])
    next
      fix t x s2 assume s2: "further en s s2"
      show "okay (\<lambda>_. ahead en s) (case (x, s2) of (_, s) \<Rightarrow> if tval t = ''('' then bindR (peekToken en s) (\<lambda>(t2, s).
            if startsStatement t2 then bindR (ps s) (\<lambda>(_, s). bindR (expect en '')'' s) (\<lambda>(_, s). groupLoop ps en f depth s))
            else groupLoop ps en f (depth + 1) s)
          else if tval t = '')'' then if depth - 1 = 0 then Inr ((), s) else groupLoop ps en f (depth - 1) s
          else groupLoop ps en f depth s)"
        unfolding prod.case
        by (intro okay_if okay_peekf [OF s2] tail s2)
          ((erule okay_stepf, simp add: nested, simp only: prod.case, erule okay_stepf, simp add: scan_ok, simp add: tail)
           | simp add: s2 further_ahead)+
    qed
  next
    case 3
    show ?case unfolding inOperand.simps Let_def
    proof (rule okay_peek [OF 3(1)], rule okay_if, simp, rule tableRef_step, assumption+)
      fix t s1 sch name refEnd s2 s3 t2
      assume s3: "further en s s3"
      show "okay (\<lambda>_. ahead en s) (if tval t2 = ''('' then if \<not> isCteRef s2 sch name \<and> isPragmaFunction name then parsePragmaArgs en sch name s3
            else bindR (scanParens ps en f s3) (\<lambda>(_, s). bindR (checkTableName en sch name s) (\<lambda>_. Inr ((), s)))
          else if \<not> isCteRef s2 sch name \<and> \<not> isRegisteredRef en sch name \<and> isPragmaFunction name then Inl (ReservedPragma (unquoteIdent name))
          else bindR (checkTableName en sch name s3) (\<lambda>_. Inr ((), s3)))"
      proof (intro okay_if)
        show "okay (\<lambda>_. ahead en s) (parsePragmaArgs en sch name s3)"
          by (rule okay_tailf [OF s3]) (simp add: scan_ok further_wf [OF s3])
        show "okay (\<lambda>_. ahead en s) (bindR (scanParens ps en f s3) (\<lambda>(_, s). bindR (checkTableName en sch name s) (\<lambda>_. Inr ((), s))))"
          using s3 by (rule okay_stepf) (use Suc.IH(1) [OF further_wf [OF s3] further_less [OF s3 3(2)]] in
            \<open>auto intro: okay_weaken okay_checked further_ahead\<close>)
        show "okay (\<lambda>_. ahead en s) (bindR (checkTableName en sch name s3) (\<lambda>_. Inr ((), s3)))"
          by (rule okay_checked) (rule further_ahead [OF s3])
      qed simp
    qed
  }
qed simp_all

lemma scanParenthesized_ok: "wfScan en s \<Longrightarrow> okay (\<lambda>_. further en s) (scanParenthesized ps en s)"
  unfolding scanParenthesized_def by (rule group_ok(1)) simp_all

lemma checkInTableOperand_ok: "wfScan en s \<Longrightarrow> okay (\<lambda>_. ahead en s) (checkInTableOperand ps en s)"
  unfolding checkInTableOperand_def by (rule group_ok(3)) simp_all

lemmas [scan_ok] = nested scanParenthesized_ok [THEN okay_weaken] checkInTableOperand_ok

lemma untilLoop_ok:
  assumes "wfScan en s" "remaining s < f"
  shows "okay (\<lambda>t s'. ahead en s s' \<and> stopped stop t s') (untilLoop ps en f stop s)"
    and "qbuf s = Some t0 \<Longrightarrow> \<not> isStopToken t0 stop \<Longrightarrow> okay (\<lambda>_. further en s) (untilLoop ps en f stop s)"
  using assms
proof (induction f arbitrary: s t0)
  case (Suc f)
  have step: "okay (\<lambda>t s'. further en s1 s' \<and> stopped stop t s')
      (if tval t = ''('' then bindR (scanParenthesized ps en s1) (\<lambda>(_, s). untilLoop ps en f stop s)
       else bindR (if isKeyword t ''in'' then checkInTableOperand ps en (dropPeeked s1) else Inr ((), dropPeeked s1)) (\<lambda>(_, s).
           untilLoop ps en f stop s))"
    if s1: "wfScan en s1" "qbuf s1 = Some t" "remaining s1 < Suc f" and t: "\<not> isStopToken t stop" for s1 t
  proof -
    have tail: "okay (\<lambda>t s'. further en s1 s' \<and> stopped stop t s') (untilLoop ps en f stop s2)" if "further en s1 s2" for s2
      using Suc.IH(1) [OF further_wf [OF that] further_less [OF that s1(3)]]
      by (rule okay_mono) (blast intro: further_trans(1) [OF that])
    have d: "further en s1 (dropPeeked s1)" using ahead_drop [OF ahead_refl [OF s1(1)] s1(2) stop_eof [OF t]] .
    show ?thesis
    proof (rule okay_if)
      show "okay (\<lambda>t s'. further en s1 s' \<and> stopped stop t s') (bindR (scanParenthesized ps en s1) (\<lambda>(_, s). untilLoop ps en f stop s))"
        by (rule okay_to_further [OF ahead_refl [OF s1(1)] scanParenthesized_ok [OF s1(1)]]) (simp add: tail)
      show "okay (\<lambda>t s'. further en s1 s' \<and> stopped stop t s')
          (bindR (if isKeyword t ''in'' then checkInTableOperand ps en (dropPeeked s1) else Inr ((), dropPeeked s1)) (\<lambda>(_, s). untilLoop ps en f stop s))"
        using d by (rule okay_stepf) (simp_all add: scan_ok tail)
    qed
  qed
  {
    case 1
    show ?case unfolding untilLoop.simps
    proof (rule okay_peek [OF 1(1)], rule okay_if)
      fix t s1 assume s1: "ahead en s s1" "qbuf s1 = Some t" and t: "\<not> isStopToken t stop"
      have "remaining s1 < Suc f" using s1(1) 1(2) by (simp add: ahead_def)
      from step [OF ahead_wf [OF s1(1)] s1(2) this t] show "okay (\<lambda>t s'. ahead en s s' \<and> stopped stop t s')
        (if tval t = ''('' then bindR (scanParenthesized ps en s1) (\<lambda>(_, s). untilLoop ps en f stop s)
         else bindR (if isKeyword t ''in'' then checkInTableOperand ps en (dropPeeked s1) else Inr ((), dropPeeked s1)) (\<lambda>(_, s).
           untilLoop ps en f stop s))"
        by (rule okay_mono) (blast intro: ahead_trans [OF s1(1)] further_ahead)
    qed (simp add: stopped_def)
  next
    case 2
    then have "peekToken en s = Inr (t0, s)" by (simp add: peekToken_def)
    then show ?case unfolding untilLoop.simps using step [OF 2(3,1,4,2)] 2(2) by (simp add: okay_mono)
  }
qed simp_all

lemma scanUntil_ok:
  assumes "wfScan en s"
  shows "okay (\<lambda>t s'. ahead en s s' \<and> stopped stop t s') (scanUntil ps en stop s)"
    and "qbuf s = Some t0 \<Longrightarrow> \<not> isStopToken t0 stop \<Longrightarrow> okay (\<lambda>_. further en s) (scanUntil ps en stop s)"
  unfolding scanUntil_def using untilLoop_ok [OF assms, of "remaining s + 1"] by (simp_all del: untilLoop.simps)

lemma scanUntil_ahead [scan_ok]: "wfScan en s \<Longrightarrow> okay (\<lambda>_. ahead en s) (scanUntil ps en stop s)"
  by (rule okay_mono [OF scanUntil_ok(1)]) auto

lemma table_ok:
  "wfScan en s \<Longrightarrow> 2 * remaining s + 2 \<le> f \<Longrightarrow> okay (\<lambda>_. ahead en s) (tableList ps en f sawTable s)"
  "wfScan en s \<Longrightarrow> 2 * remaining s + 1 \<le> f \<Longrightarrow> okay (\<lambda>_. further en s) (tableFactor ps en f s)"
proof (induction f arbitrary: s sawTable)
  case (Suc f)
  {
    case 1
    have tail: "okay (\<lambda>_. ahead en s) (tableList ps en f saw s1)" if "further en s s1" for saw s1
    proof -
      have "2 * remaining s1 + 2 \<le> f" using that 1(2) by (simp add: further_def)
      then show ?thesis using Suc.IH(1) [OF further_wf [OF that]] okay_tailf [OF that] by blast
    qed
    have factor: "okay (\<lambda>_. ahead en s) (bindR (tableFactor ps en f s1) (\<lambda>(_, s). tableList ps en f saw s))" if "ahead en s s1" for saw s1
    proof -
      have "2 * remaining s1 + 1 \<le> f" using that 1(2) by (simp add: ahead_def)
      from Suc.IH(2) [OF ahead_wf [OF that] this] show ?thesis by (rule okay_to_further [OF that]) (simp add: tail)
    qed
    show ?case unfolding tableList.simps
    proof (rule okay_peek [OF 1(1)], intro okay_if factor)
      fix t s1 assume s1: "ahead en s s1" "qbuf s1 = Some t"
      show "okay (\<lambda>_. ahead en s) (tableList ps en f False (dropPeeked s1))" if "tval t = '',''"
        using tail [OF ahead_drop [OF s1]] val_typ [OF ahead_wf [OF s1(1)] s1(2)] that by simp
      show "okay (\<lambda>_. ahead en s) (bindR (consumeJoinOp en s1) (\<lambda>(_, s). tableList ps en f False s))"
        by (rule okay_to_further [OF s1(1) consumeJoinOp_ok [OF ahead_wf [OF s1(1)]]]) (simp add: tail)
      assume "isKeyword t ''on'' \<or> isKeyword t ''using''"
      then have "\<not> isStopToken t joinConditionStop" by (auto simp: isKeyword_def isStopToken_def joinConditionStop_def)
      then show "okay (\<lambda>_. ahead en s) (bindR (scanUntil ps en joinConditionStop s1) (\<lambda>(_, s). tableList ps en f sawTable s))"
        by (intro okay_to_further [OF s1(1) scanUntil_ok(2) [OF ahead_wf [OF s1(1)] s1(2)]]) (simp_all add: tail)
    qed simp_all
  next
    case 2
    have paren: "okay (\<lambda>_. further en s) (bindR (if startsStatement t2 then ps s1 else tableList ps en f False s1) (\<lambda>(_, s).
          bindR (expect en '')'' s) (\<lambda>(_, s). bindR (skipOptionalAlias en s) (\<lambda>(_, s). Inr ((), s\<lparr>tableParens := tableParens s - 1\<rparr>)))))"
      if s1: "further en s s1" for t2 s1
    proof -
      have "2 * remaining s1 + 2 \<le> f" using s1 2(2) by (simp add: further_def)
      then have list: "okay (\<lambda>_. ahead en s1) (tableList ps en f False s1)" using Suc.IH(1) [OF further_wf [OF s1]] by blast
      show ?thesis using s1
        by - (rule okay_stepf, assumption, simp add: nested list, simp only: prod.case, (erule okay_stepf, simp add: scan_ok, simp)+)
    qed
    show ?case unfolding tableFactor.simps Let_def
    proof (rule okay_peek [OF 2(1)], intro okay_if)
      fix t s1 assume s1: "ahead en s s1" "qbuf s1 = Some t"
      {
        assume "tval t = ''(''"
        then have "further en s (dropPeeked (s1\<lparr>tableParens := tableParens s1 + 1\<rparr>))"
          using val_typ [OF ahead_wf [OF s1(1)] s1(2)] s1 by (intro ahead_drop) auto
        then show "okay (\<lambda>_. further en s) (case peekAny en (dropPeeked (s1\<lparr>tableParens := tableParens s1 + 1\<rparr>)) of (t2, s) \<Rightarrow>
            bindR (if startsStatement t2 then ps s else tableList ps en f False s) (\<lambda>(_, s). bindR (expect en '')'' s) (\<lambda>(_, s).
              bindR (skipOptionalAlias en s) (\<lambda>(_, s). Inr ((), s\<lparr>tableParens := tableParens s - 1\<rparr>)))))"
          by (rule okay_peekAnyf) (rule paren)
      }
      assume ty: "\<not> (ttyp t \<noteq> TIdent \<and> ttyp t \<noteq> TString)"
      show "okay (\<lambda>_. further en s) (bindR (tableRef en t (dropPeeked s1)) (\<lambda>((sch, name, refEnd), s).
          case peekAny en s of (t2, sa) \<Rightarrow> if tval t2 = ''('' \<and> \<not> isCteRef s sch name \<and> isPragmaFunction name
            then bindR (parsePragmaArgs en sch name sa) (\<lambda>(_, s). skipOptionalAlias en s)
            else bindR (if tval t2 = ''('' then scanParenthesized ps en sa
                        else if \<not> isCteRef s sch name \<and> \<not> isRegisteredRef en sch name \<and> isPragmaFunction name
                          then Inl (ReservedPragma (unquoteIdent name)) else Inr ((), sa)) (\<lambda>(_, sa).
                   acceptTable en t sch name refEnd (isCteRef s sch name) sa)))"
      proof (rule tableRef_step [OF s1 ty], rule okay_if)
        fix sch name refEnd s2 s3 t2 assume s3: "further en s s3"
        show "okay (\<lambda>_. further en s) (bindR (parsePragmaArgs en sch name s3) (\<lambda>(_, s). skipOptionalAlias en s))"
          using s3 by (rule okay_stepf) (simp_all add: scan_ok okay_tail_further further_wf)
      next
        fix sch name refEnd s2 s3 t2
        assume ref: "further en s s2" "qrewrites s2 = qrewrites s1" "offset en s1 \<le> tstart t" "tstart t < refEnd" "refEnd \<le> offset en s2"
          "ahead en s1 s2" "ahead en s2 s3"
        let ?r = "if tval t2 = ''('' then scanParenthesized ps en s3
            else if \<not> isCteRef s2 sch name \<and> \<not> isRegisteredRef en sch name \<and> isPragmaFunction name
              then Inl (ReservedPragma (unquoteIdent name)) else Inr ((), s3)"
        show "okay (\<lambda>_. further en s) (bindR ?r (\<lambda>(_, sa). acceptTable en t sch name refEnd (isCteRef s2 sch name) sa))"
        proof (rule okay_step [OF ref(7)])
          fix x s4 assume s4: "ahead en s2 s4"
          then have "remaining s4 < remaining s" using ref(1) by (simp add: further_def ahead_def)
          then show "okay (\<lambda>_. further en s) (case (x, s4) of (_, sa) \<Rightarrow> acceptTable en t sch name refEnd (isCteRef s2 sch name) sa)"
            unfolding prod.case by (intro okay_mono [OF acceptTable_ok [OF ref(6,2,3,4,5) s4]])
              (auto simp: further_def intro: ahead_trans [OF s1(1)])
        qed (simp add: scan_ok)
      qed
    qed simp_all
  }
qed simp_all

lemma parseTableList_ok [scan_ok]: "wfScan en s \<Longrightarrow> okay (\<lambda>_. ahead en s) (parseTableList ps en s)"
  unfolding parseTableList_def by (rule table_ok(1)) simp_all

lemma parseTableFactor_ok [scan_ok]: "wfScan en s \<Longrightarrow> okay (\<lambda>_. further en s) (parseTableFactor ps en s)"
  unfolding parseTableFactor_def by (rule table_ok(2)) simp_all

lemma parseSelectCore_ok [scan_ok]:
  assumes "wfScan en s"
  shows "okay (\<lambda>_. ahead en s) (parseSelectCore ps en s)"
  unfolding parseSelectCore_def
proof (rule okay_step [OF ahead_refl [OF assms]], simp add: scan_ok, simp only: prod.case)
  fix s1 assume s1: "ahead en s s1"
  show "okay (\<lambda>_. ahead en s) (bindR (scanUntil ps en fromStop s1) (\<lambda>(t, s).
      bindR (if isKeyword t ''from'' then parseTableList ps en (dropPeeked s) else Inr ((), s)) (\<lambda>(_, s).
      bindR (scanUntil ps en selectStop s) (\<lambda>(_, s). Inr ((), s)))))"
  proof (rule okay_bind [OF scanUntil_ok(1) [OF ahead_wf [OF s1]]], simp only: prod.case)
    fix t s2 assume "ahead en s1 s2 \<and> stopped fromStop t s2"
    then have s2: "ahead en s s2" "qbuf s2 = Some t" using ahead_trans [OF s1] by (auto simp: stopped_def)
    have "okay (\<lambda>_. ahead en s2) (parseTableList ps en (dropPeeked s2))" if "isKeyword t ''from''"
      using dropPeeked_ok(1) [OF ahead_wf [OF s2(1)] s2(2)] by (rule okay_tail) (rule parseTableList_ok, rule ahead_wf, fact dropPeeked_ok(1) [OF ahead_wf [OF s2(1)] s2(2)])
    then show "okay (\<lambda>_. ahead en s) (bindR (if isKeyword t ''from'' then parseTableList ps en (dropPeeked s2) else Inr ((), s2)) (\<lambda>(_, s).
        bindR (scanUntil ps en selectStop s) (\<lambda>(_, s). Inr ((), s))))"
      using s2(1) by - (rule okay_step, assumption, simp add: ahead_refl, simp only: prod.case, erule okay_step, simp_all add: scan_ok)
  qed
qed

lemma valuesLoop_ok:
  "wfScan en s \<Longrightarrow> remaining s < f \<Longrightarrow> okay (\<lambda>_. ahead en s) (valuesLoop ps en f s)"
proof (induction f arbitrary: s)
  case (Suc f)
  show ?case unfolding valuesLoop.simps Let_def
  proof (rule okay_to_further [OF ahead_refl scanParenthesized_ok], rule Suc, rule Suc, simp only: prod.case, rule okay_peekAnyf, assumption, rule okay_if)
    fix t s1 assume s1: "further en s s1" "qbuf s1 = Some t \<or> t = zeroToken"
    show "okay (\<lambda>_. ahead en s) (valuesLoop ps en f (dropPeeked s1))" if "tval t = '',''"
    proof -
      have d: "further en s (dropPeeked s1)" using peekedAny_drop [OF s1] that by simp
      show ?thesis by (rule okay_tailf [OF d]) (rule Suc.IH [OF further_wf [OF d] further_less [OF d Suc.prems(2)]])
    qed
    show "okay (\<lambda>_. ahead en s) (bindR (scanUntil ps en selectStop s1) (\<lambda>(_, s). Inr ((), s)))"
      using s1(1) by (rule okay_stepf) (simp_all add: scan_ok further_ahead)
  qed
qed simp

lemma parseValuesCore_ok [scan_ok]: "wfScan en s \<Longrightarrow> okay (\<lambda>_. ahead en s) (parseValuesCore ps en s)"
  unfolding parseValuesCore_def
  by (rule okay_step [OF ahead_refl]) (auto simp: scan_ok simp del: valuesLoop.simps intro: okay_tail valuesLoop_ok ahead_wf)

lemma parseCore_ok [scan_ok]: "wfScan en s \<Longrightarrow> okay (\<lambda>_. ahead en s) (parseCore ps en s)"
  unfolding parseCore_def Let_def
  by (rule okay_peekAny) (auto simp: scan_ok ahead_wf intro: okay_tail)

lemma selectLoop_ok:
  "wfScan en s \<Longrightarrow> remaining s < f \<Longrightarrow> okay (\<lambda>_. ahead en s) (selectLoop ps en f s)"
proof (induction f arbitrary: s)
  case (Suc f)
  have body: "okay (\<lambda>_. ahead en s) (bindR (parseCore ps en s1) (\<lambda>(_, s). selectLoop ps en f s))" if "further en s s1" for s1
    using that
  proof (rule okay_stepf)
    fix x s2 assume s2: "further en s s2"
    then show "okay (\<lambda>_. ahead en s) (case (x, s2) of (_, s) \<Rightarrow> selectLoop ps en f s)" unfolding prod.case
      by (rule okay_tailf) (rule Suc.IH [OF further_wf [OF s2] further_less [OF s2 Suc.prems(2)]])
  qed (simp add: scan_ok)
  show ?case unfolding selectLoop.simps Let_def
  proof (rule okay_peek [OF Suc.prems(1)], intro okay_if, simp, rule body)
    fix t s1 assume s1: "ahead en s s1" "qbuf s1 = Some t"
      "\<not> (\<not> isKeyword t ''union'' \<and> \<not> isKeyword t ''intersect'' \<and> \<not> isKeyword t ''except'')"
    then have d: "further en s (dropPeeked s1)" using ahead_drop [OF s1(1,2)] keyword_typ by blast
    have "further en s (case peekAny en (dropPeeked s1) of (t2, s) \<Rightarrow> if isKeyword t2 ''all'' then dropPeeked s else s)"
    proof (cases "peekAny en (dropPeeked s1)")
      case (Pair t2 s2)
      have s2: "further en s s2" "qbuf s2 = Some t2 \<or> t2 = zeroToken"
        using peekAny_ok [OF further_wf [OF d]] further_trans(1) [OF d] by (auto simp: Pair)
      then show ?thesis using peekedAny_drop [OF s2] keyword_val [of t2 "''all''"] by (auto simp: Pair)
    qed
    then show "further en s (if isKeyword t ''union'' then case peekAny en (dropPeeked s1) of (t2, s) \<Rightarrow>
        if isKeyword t2 ''all'' then dropPeeked s else s else dropPeeked s1)" using d by simp
  qed
qed simp

lemma parseSelectStatement_ok [scan_ok]: "wfScan en s \<Longrightarrow> okay (\<lambda>_. ahead en s) (parseSelectStatement ps en s)"
  unfolding parseSelectStatement_def
  by (rule okay_step [OF ahead_refl]) (auto simp: scan_ok simp del: selectLoop.simps intro: okay_tail selectLoop_ok ahead_wf)

lemma withLoop_ok:
  "wfScan en s \<Longrightarrow> remaining s < f \<Longrightarrow> okay (\<lambda>_. ahead en s) (withLoop ps en f s)"
proof (induction f arbitrary: s)
  case (Suc f)
  have next_cte: "okay (\<lambda>_. ahead en s) (case peekAny en s1 of (t2, s) \<Rightarrow>
      if tval t2 = '','' then withLoop ps en f (dropPeeked s) else Inr ((), s))" if "further en s s1" for s1
    using that
  proof (rule okay_peekAnyf, intro okay_if)
    fix t s2 assume s2: "further en s s2" "qbuf s2 = Some t \<or> t = zeroToken" "tval t = '',''"
    have d: "further en s (dropPeeked s2)" using peekedAny_drop [OF s2(1,2)] s2(3) by simp
    show "okay (\<lambda>_. ahead en s) (withLoop ps en f (dropPeeked s2))"
      by (rule okay_tailf [OF d]) (rule Suc.IH [OF further_wf [OF d] further_less [OF d Suc.prems(2)]])
  qed (simp add: further_ahead)
  show ?case unfolding withLoop.simps Let_def
  proof (rule okay_to_further [OF ahead_refl cteName_ok], rule Suc, rule Suc, simp only: prod.case)
    fix name s1 assume s1: "further en s s1"
    have "further en s (addCteName name s1)"
      using further_trans(1) [OF s1 same_ahead [OF further_wf [OF s1]]] by simp
    then show "okay (\<lambda>_. ahead en s) (case peekAny en (addCteName name s1) of (t2, s) \<Rightarrow>
        bindR (if tval t2 = ''('' then scanParenthesized ps en s else Inr ((), s)) (\<lambda>(_, s). bindR (expect en ''as'' s) (\<lambda>(_, s).
        bindR (skipMaterialized en s) (\<lambda>(_, s). bindR (expect en ''('' s) (\<lambda>(_, s). bindR (ps s) (\<lambda>(_, s).
        bindR (expect en '')'' s) (\<lambda>(_, s). case peekAny en s of (t2, s) \<Rightarrow>
          if tval t2 = '','' then withLoop ps en f (dropPeeked s) else Inr ((), s))))))))"
      by - (erule okay_peekAnyf, (erule okay_stepf, simp add: scan_ok, simp only: prod.case)+, erule next_cte)
  qed
qed simp

lemma parseWith_ok [scan_ok]: "wfScan en s \<Longrightarrow> okay (\<lambda>_. ahead en s) (parseWith ps en s)"
  unfolding parseWith_def Let_def
proof (rule okay_step [OF ahead_refl], assumption, simp add: scan_ok, simp only: prod.case)
  fix s1 assume s1: "ahead en s s1"
  have "wfScan en (s1\<lparr>qbuf := None\<rparr>)" using ahead_wf [OF s1] by (simp add: wfScan_def)
  from collectCteNames_ok [OF this]
  show "okay (\<lambda>_. ahead en s) (bindR (collectCteNames en (s1\<lparr>qbuf := None\<rparr>)) (\<lambda>(names, _).
      withLoop ps en (remaining (skipRecursive en (fold addCteName names s1)) + 1) (skipRecursive en (fold addCteName names s1))))"
  proof (rule okay_bind, simp only: prod.case)
    fix names
    have "ahead en s1 (fold addCteName names s1)" by (rule same_ahead [OF ahead_wf [OF s1]]) simp_all
    then have a: "ahead en s (skipRecursive en (fold addCteName names s1))"
      using s1 skipRecursive_ok ahead_wf by (blast intro: ahead_trans)
    then show "okay (\<lambda>_. ahead en s) (withLoop ps en (remaining (skipRecursive en (fold addCteName names s1)) + 1) (skipRecursive en (fold addCteName names s1)))"
      by (rule okay_tail) (rule withLoop_ok [OF ahead_wf [OF a]], simp)
  qed
qed

lemma statementBody_ok: "wfScan en s \<Longrightarrow> okay (\<lambda>_. ahead en s) (statementBody ps en s)"
  unfolding statementBody_def
proof (rule okay_peek, assumption, intro okay_if)
  have sel: "okay (\<lambda>_. ahead en s) (parseSelectStatement ps en s1)" if "ahead en s s1" for s1
    using that by (rule okay_tail) (simp add: scan_ok ahead_wf [OF that])
  fix t s1 assume s1: "ahead en s s1"
  then show "okay (\<lambda>_. ahead en s) (bindR (parseWith ps en s1) (\<lambda>(_, s). parseSelectStatement ps en s))"
    by (rule okay_step) (simp_all add: scan_ok sel)
  from s1 show "okay (\<lambda>_. ahead en s) (parseSelectStatement ps en s1)" by (rule sel)
qed simp

end

section \<open>Every depth\<close>

lemma parseStatement_ok: "wfScan en s \<Longrightarrow> okay (\<lambda>_. ahead en s) (parseStatement d en s)"
proof (induction d arbitrary: s)
  case (Suc d)
  have level: "nested_statements (parseStatement d en) en" by unfold_locales (rule Suc.IH)
  let ?s = "pushCteScope (s\<lparr>stmtDepth := stmtDepth s + 1\<rparr>)"
  have "wfScan en ?s" using Suc.prems by (simp add: pushCteScope_def)
  then have body: "okay (\<lambda>_. ahead en ?s) (statementBody (parseStatement d en) en ?s)"
    by (rule nested_statements.statementBody_ok [OF level])
  show ?case unfolding parseStatement.simps
  proof (rule okay_if, simp, rule okay_bind [OF body])
    fix x s1 assume "ahead en ?s s1"
    then show "okay (\<lambda>_. ahead en s) (case (x, s1) of (_, s) \<Rightarrow> Inr ((), (popCteScope s)\<lparr>stmtDepth := stmtDepth s - 1\<rparr>))"
      by (simp add: ahead_def pushCteScope_def popCteScope_def)
  qed
qed simp

interpretation nested: nested_statements "parseStatement d en" en for d en
  by unfold_locales (rule parseStatement_ok)

lemma newQueryScanner_ok: "seLen en = length stmt \<Longrightarrow> wfScan en (newQueryScanner stmt)"
  by (simp add: wfScan_def newQueryScanner_def)

text \<open>
  C20. The scan of a query always answers: the loops of the parser end, whatever the text, and the
  reading bound of the model is never the answer.
\<close>

theorem scanQueryTables_answers: "scanQueryTables lo stmt reg \<noteq> Inl QueryOutOfFuel"
proof -
  let ?en = "\<lparr>seLen = length stmt, seRegistered = reg, seLower = lo\<rparr>"
  have "okay (\<lambda>_. ahead ?en (newQueryScanner stmt)) (parseStatement maxStmtDepth ?en (newQueryScanner stmt))"
    by (rule parseStatement_ok) (simp add: newQueryScanner_ok)
  then show ?thesis by (auto simp: scanQueryTables_def okay_def split: sum.splits)
qed

lemma scanQueryTables_spans:
  assumes "scanQueryTables lo stmt reg = Inr rws"
  shows "spans reg 0 rws (length stmt)"
proof -
  let ?en = "\<lparr>seLen = length stmt, seRegistered = reg, seLower = lo\<rparr>"
  have "okay (\<lambda>_. ahead ?en (newQueryScanner stmt)) (parseStatement maxStmtDepth ?en (newQueryScanner stmt))"
    by (rule parseStatement_ok) (simp add: newQueryScanner_ok)
  moreover from assms obtain s where "parseStatement maxStmtDepth ?en (newQueryScanner stmt) = Inr ((), s)" "rws = qrewrites s"
    by (auto simp: scanQueryTables_def split: if_splits)
  ultimately have "ahead ?en (newQueryScanner stmt) s" "rws = qrewrites s" by simp_all
  then have sp: "spans reg 0 rws (offset ?en s)" and "wfScan ?en s" by (auto simp: ahead_def newQueryScanner_def offset_def)
  then have "offset ?en s \<le> length stmt" by (auto simp: offset_def wfScan_def split: option.splits if_splits)
  with sp show ?thesis by (fastforce simp: spans_def)
qed

text \<open>
  C19. Each reference an accepted query is said to make lies inside the text, is not empty, names a
  registered table, and no two of them overlap.
\<close>

theorem scan_references:
  assumes "scanQueryTables lo stmt reg = Inr rws"
  shows "(\<forall>r\<in>set rws. rwStart r < rwEnd r \<and> rwEnd r \<le> length stmt \<and> rwTable r \<in> set reg)
    \<and> (\<forall>i j. i < j \<and> j < length rws \<longrightarrow> rwEnd (rws ! i) \<le> rwStart (rws ! j) \<or> rwEnd (rws ! j) \<le> rwStart (rws ! i))"
  using scanQueryTables_spans [OF assms] unfolding spans_def sorted_wrt_iff_nth_less by blast

theorem scan_references_witness:
  "scanQueryTables id ''select a from notes, files f where x = 1'' [''notes'', ''files'']
     = Inr [\<lparr>rwTable = ''notes'', rwStart = 14, rwEnd = 19, rwAliased = False, rwQualified = False, rwHinted = False\<rparr>,
            \<lparr>rwTable = ''files'', rwStart = 21, rwEnd = 26, rwAliased = True, rwQualified = False, rwHinted = False\<rparr>]
   \<and> (19::nat) \<le> length ''select a from notes, files f where x = 1''"
proof -
  have scan: "scanQueryTables id ''select a from notes, files f where x = 1'' [''notes'', ''files'']
     = Inr [\<lparr>rwTable = ''notes'', rwStart = 14, rwEnd = 19, rwAliased = False, rwQualified = False, rwHinted = False\<rparr>,
            \<lparr>rwTable = ''files'', rwStart = 21, rwEnd = 26, rwAliased = True, rwQualified = False, rwHinted = False\<rparr>]"
    by code_simp
  show ?thesis using scan conjunct1 [OF scan_references [OF scan]] by simp
qed

section \<open>Masking\<close>

text \<open>A text with some of its stretches replaced.\<close>

fun splice :: "string \<Rightarrow> nat \<Rightarrow> (nat \<times> nat \<times> string) list \<Rightarrow> string" where
  "splice stmt a [] = drop a stmt"
| "splice stmt a ((i, j, x) # ps) = take (i - a) (drop a stmt) @ x @ splice stmt j ps"

definition replacements :: "masked_tables \<Rightarrow> tableRewrite list \<Rightarrow> (nat \<times> nat \<times> string) list" where
  "replacements masked rws =
     [(rwStart r, rwEnd r, the (map_of masked (rwTable r)) @ (if rwAliased r then '''' else '' AS '' @ quoteName (rwTable r))).
      r \<leftarrow> rws, map_of masked (rwTable r) \<noteq> None]"

lemma maskLoop_splice:
  assumes "\<forall>r\<in>set rws. final \<le> rwStart r \<and> rwStart r < rwEnd r \<and> rwEnd r \<le> length stmt"
    and "sorted_wrt (\<lambda>x y. rwEnd x \<le> rwStart y) rws"
  shows "maskLoop stmt masked final rws = splice stmt final (replacements masked rws)"
  using assms
proof (induction rws arbitrary: final)
  case (Cons r rws)
  have keep: "maskLoop stmt masked final rws = splice stmt final (replacements masked rws)" using Cons by auto
  have step: "maskLoop stmt masked (rwEnd r) rws = splice stmt (rwEnd r) (replacements masked rws)" using Cons by auto
  show ?case
  proof (cases "map_of masked (rwTable r)")
    case None
    then show ?thesis using keep by (simp add: replacements_def)
  next
    case (Some p)
    then show ?thesis using step Cons.prems(1) by (simp add: replacements_def)
  qed
qed (simp add: replacements_def)




end
