(* ===== verification/Query_Refuse.thy ===== *)
theory Query_Refuse
  imports Query_Total
begin

text \<open>
  What the table scanner refuses, and the part of a text it never reads: the tables of the
  store itself are refused wherever a statement names them, as a table or as the operand of
  \<^verbatim>\<open>IN\<close>, but the text after a closing parenthesis that matches none is not scanned.
\<close>

section \<open>Reserved tables\<close>

text \<open>A reference to a table that is neither the caller's nor named by the statement.\<close>

definition reservedRef :: "scanEnv \<Rightarrow> string \<Rightarrow> string \<Rightarrow> queryScanner \<Rightarrow> bool" where
  "reservedRef en sch name s \<longleftrightarrow>
     \<not> (sch = '''' \<and> isCteName s (qLower (unquoteIdent name)))
     \<and> \<not> (ownSchema sch \<and> afterLastDot (qLower (qualifiedName sch name)) \<in> set (seRegistered en))
     \<and> \<not> isUserTable en (afterLastDot (qLower (qualifiedName sch name)))"

lemma checkTableName_reserved:
  "checkTableName en sch name s = Inl (ReservedTable (afterLastDot (qLower (qualifiedName sch name))))
     \<longleftrightarrow> reservedRef en sch name s"
  by (auto simp: checkTableName_def reservedRef_def qualifiedName_def Let_def)

lemma peekAny_cteScope: "peekAny en s = (t, s') \<Longrightarrow> cteScope s' = cteScope s"
  by (auto simp: peekAny_def split: option.splits prod.splits sum.splits)

lemma reservedRef_scope: "cteScope s' = cteScope s \<Longrightarrow> reservedRef en sch name s' = reservedRef en sch name s"
  by (simp add: reservedRef_def isCteName_def)



section \<open>Text that is not scanned\<close>

lemmas lexing = scanToken.simps [of _ "_ # _"] skipWhitespace_def isQSpace_def hasPrefix_def tokenAt_def mkTok_def readIdent_def
  readNumber_def isIdentStart_def isIdentCont_def isLower_def isUpper_def isDigit_def

lemma token_select: "scanToken n (''select 1 as a)'' @ x) =
    (Inr \<lparr>ttyp = TIdent, tval = ''select'', tstart = n - (14 + length x), tend = n - (8 + length x)\<rparr>, '' 1 as a)'' @ x)"
  by (simp add: lexing eval_nat_numeral)

lemma token_one: "scanToken n ('' 1 as a)'' @ x) =
    (Inr \<lparr>ttyp = TNumber, tval = ''1'', tstart = n - (7 + length x), tend = n - (6 + length x)\<rparr>, '' as a)'' @ x)"
  by (simp add: lexing eval_nat_numeral)

lemma token_as: "scanToken n ('' as a)'' @ x) =
    (Inr \<lparr>ttyp = TIdent, tval = ''as'', tstart = n - (5 + length x), tend = n - (3 + length x)\<rparr>, '' a)'' @ x)"
  by (simp add: lexing eval_nat_numeral)

lemma token_a: "scanToken n ('' a)'' @ x) =
    (Inr \<lparr>ttyp = TIdent, tval = ''a'', tstart = n - (2 + length x), tend = n - (1 + length x)\<rparr>, '')'' @ x)"
  by (simp add: lexing eval_nat_numeral)

lemma token_close: "scanToken n ('')'' @ x) =
    (Inr \<lparr>ttyp = TPunct, tval = '')'', tstart = n - (1 + length x), tend = n - length x\<rparr>, x)"
  by (simp add: lexing eval_nat_numeral)

lemmas first_tokens = token_select token_one token_as token_a token_close

lemmas word_tests = isKeyword_def isStopToken_def isQuotedIdent_def qLower_def asciiLower_def isUpper_def fromStop_def selectStop_def

text \<open>Reading up to the parenthesis, whatever follows it.\<close>

lemma untilLoop_close:
  assumes "qbuf s = Some \<lparr>ttyp = TPunct, tval = '')'', tstart = i, tend = j\<rparr>" "'')'' \<in> set stop"
  shows "untilLoop ps en (Suc f) stop s = Inr (the (qbuf s), s)"
  using assms by (simp add: peekToken_def isStopToken_def)

lemma scanUntil_close:
  assumes "qbuf s = Some \<lparr>ttyp = TPunct, tval = '')'', tstart = i, tend = j\<rparr>" "'')'' \<in> set stop"
  shows "scanUntil ps en stop s = Inr (the (qbuf s), s)"
  using untilLoop_close [OF assms] by (simp add: scanUntil_def)

lemma scanUntil_head:
  assumes "qrest s = '' 1 as a)'' @ x" "qbuf s = None"
  shows "scanUntil ps en fromStop s = Inr (\<lparr>ttyp = TPunct, tval = '')'', tstart = seLen en - (1 + length x), tend = seLen en - length x\<rparr>,
     s\<lparr>qrest := x, qbuf := Some \<lparr>ttyp = TPunct, tval = '')'', tstart = seLen en - (1 + length x), tend = seLen en - length x\<rparr>\<rparr>)"
proof -
  obtain f where f: "remaining s + 1 = Suc (Suc (Suc (Suc f)))" using assms by (simp add: remaining_def)
  show ?thesis
    unfolding scanUntil_def f using assms
    by (simp add: peekToken_def dropPeeked_def first_tokens [simplified] word_tests)
qed

lemma core_head:
  assumes "qrest s = '' 1 as a)'' @ x" "qbuf s = Some t" "isKeyword t ''select''"
  shows "\<exists>u. parseSelectStatement ps en s = Inr ((), s\<lparr>qrest := x, qbuf := Some u\<rparr>)"
proof -
  let ?u = "\<lparr>ttyp = TPunct, tval = '')'', tstart = seLen en - (1 + length x), tend = seLen en - length x\<rparr>"
  have "parseSelectCore ps en s = Inr ((), s\<lparr>qrest := x, qbuf := Some ?u\<rparr>)"
    using assms scanUntil_head [of "s\<lparr>qbuf := None\<rparr>" x ps en]
    by (simp add: parseSelectCore_def expect_def nextToken_def isKeyword_def scanUntil_close selectStop_def)
  then have "parseSelectStatement ps en s = Inr ((), s\<lparr>qrest := x, qbuf := Some ?u\<rparr>)"
    using assms by (simp add: parseSelectStatement_def parseCore_def peekAny_def peekToken_def isKeyword_def)
  then show ?thesis by blast
qed

lemma statement_head:
  assumes "qrest s = ''select 1 as a)'' @ x" "qbuf s = None"
  shows "\<exists>u. statementBody ps en s = Inr ((), s\<lparr>qrest := x, qbuf := Some u\<rparr>)"
proof -
  let ?t = "\<lparr>ttyp = TIdent, tval = ''select'', tstart = seLen en - (14 + length x), tend = seLen en - (8 + length x)\<rparr>"
  have p: "peekToken en s = Inr (?t, s\<lparr>qrest := '' 1 as a)'' @ x, qbuf := Some ?t\<rparr>)"
    using assms token_select [of "seLen en" x] by (simp add: peekToken_def)
  have k: "isKeyword ?t ''select''" "\<not> isKeyword ?t ''with''" by (simp_all add: word_tests)
  obtain u where "parseSelectStatement ps en (s\<lparr>qrest := '' 1 as a)'' @ x, qbuf := Some ?t\<rparr>)
      = Inr ((), s\<lparr>qrest := x, qbuf := Some u\<rparr>)"
    using core_head [of "s\<lparr>qrest := '' 1 as a)'' @ x, qbuf := Some ?t\<rparr>" x ?t ps en] k by auto
  then show ?thesis using p k by (auto simp: statementBody_def)
qed




end
