(* ===== verification/Pg_Names.thy ===== *)
theory Pg_Names
  imports Schema_Fields "HOL-Library.AList"
begin

text \<open>
  Names on PostgreSQL, where an identifier has at most 63 bytes: the columns of a table
  (\<^verbatim>\<open>internal/postgres/names.go\<close>) and the identifiers of a query (the \<^verbatim>\<open>sqlNames\<close> of
  \<^verbatim>\<open>internal/postgres/sql_lex.go\<close>). Logical names may be longer, so both hand out short physical
  names; \<open>sha\<close> is SHA-256. Go maps are association lists.
\<close>

section \<open>Columns of a table\<close>

definition hexNibble :: "nat \<Rightarrow> char" where
  "hexNibble n = (if n < 10 then char_of (48 + n) else char_of (87 + n))"

definition hexEncode :: "string \<Rightarrow> string" where
  "hexEncode s = concat (map (\<lambda>c. [hexNibble (byte c div 16), hexNibble (byte c mod 16)]) s)"

definition physicalCandidate :: "(string \<Rightarrow> string) \<Rightarrow> string \<Rightarrow> nat \<Rightarrow> string" where
  "physicalCandidate sha name attempt =
     (if length name \<le> 63 \<and> attempt = 0 then name
      else
        let key = (if attempt > 0 then name @ ''/'' @ showNat attempt else name) in
        take 46 name @ ''_'' @ hexEncode (take 8 (sha key)))"

datatype names_error = NoFieldIdentifier | NoRelationIdentifier | CatalogFault nat

text \<open>The loop over the 64 candidates of a name.\<close>

definition firstFree :: "(string \<Rightarrow> string) \<Rightarrow> string \<Rightarrow> string list \<Rightarrow> string option" where
  "firstFree sha name used = find (\<lambda>c. c \<notin> set used) (map (physicalCandidate sha name) [0..<64])"

definition storeColumns :: "string list" where
  "storeColumns = [''id'', ''created_at'', ''_embedding'', ''_fts'']"

type_synonym columns = "(string \<times> string) list"

definition shortColumns :: "field list \<Rightarrow> columns \<times> string list" where
  "shortColumns fds =
     fold (\<lambda>f (out, used). if length (Name f) \<le> 63 then (AList.update (Name f) (Name f) out, Name f # used) else (out, used))
       fds ([], storeColumns)"

fun longColumns :: "(string \<Rightarrow> string) \<Rightarrow> field list \<Rightarrow> columns \<Rightarrow> string list \<Rightarrow> names_error + columns" where
  "longColumns sha [] out used = Inr out"
| "longColumns sha (f # fs) out used =
     (if map_of out (Name f) \<noteq> None then longColumns sha fs out used
      else
        let (out, used) = (case firstFree sha (Name f) used of
             None \<Rightarrow> (out, used) | Some c \<Rightarrow> (AList.update (Name f) c out, c # used)) in
        if map_of out (Name f) = None \<or> map_of out (Name f) = Some '''' then Inl NoFieldIdentifier
        else longColumns sha fs out used)"

definition physicalColumns :: "(string \<Rightarrow> string) \<Rightarrow> field list \<Rightarrow> names_error + columns" where
  "physicalColumns sha fds = (let (out, used) = shortColumns fds in longColumns sha fds out used)"

text \<open>\<open>exist i\<close> is the answer of the catalog to the \<open>i\<close>-th lookup, or its fault.\<close>

fun relationLoop :: "(string \<Rightarrow> string) \<Rightarrow> (nat \<Rightarrow> string \<Rightarrow> unit + bool) \<Rightarrow> string \<Rightarrow> nat list \<Rightarrow> names_error + string" where
  "relationLoop sha exist name [] = Inl NoRelationIdentifier"
| "relationLoop sha exist name (i # is) =
     (case exist i (physicalCandidate sha name i) of
        Inl _ \<Rightarrow> Inl (CatalogFault i)
      | Inr True \<Rightarrow> relationLoop sha exist name is
      | Inr False \<Rightarrow> Inr (physicalCandidate sha name i))"

definition physicalRelation :: "(string \<Rightarrow> string) \<Rightarrow> (nat \<Rightarrow> string \<Rightarrow> unit + bool) \<Rightarrow> string \<Rightarrow> names_error + string" where
  "physicalRelation sha exist name = relationLoop sha exist name [0..<64]"

record columnNamer =
  ncolumns :: columns
  nused :: "string list"

definition newColumnNamer :: "columns \<Rightarrow> columnNamer" where
  "newColumnNamer cols =
     fold (\<lambda>(logical, physical) n. \<lparr>ncolumns = AList.update logical physical (ncolumns n), nused = physical # nused n\<rparr>)
       cols \<lparr>ncolumns = [], nused = storeColumns\<rparr>"

definition allocate :: "(string \<Rightarrow> string) \<Rightarrow> string \<Rightarrow> columnNamer \<Rightarrow> (names_error + string) \<times> columnNamer" where
  "allocate sha name n =
     (case firstFree sha name (nused n) of
        None \<Rightarrow> (Inl NoFieldIdentifier, n)
      | Some c \<Rightarrow> (Inr c, n\<lparr>nused := c # nused n, ncolumns := AList.update name c (ncolumns n)\<rparr>))"

definition goLookup :: "columns \<Rightarrow> string \<Rightarrow> string" where
  "goLookup m k = (case map_of m k of None \<Rightarrow> '''' | Some v \<Rightarrow> v)"

text \<open>A rename answers the old and the new physical name.\<close>

definition rename :: "(string \<Rightarrow> string) \<Rightarrow> string \<Rightarrow> string \<Rightarrow> columnNamer \<Rightarrow> (names_error + string \<times> string) \<times> columnNamer" where
  "rename sha old new n =
     (let physical = goLookup (ncolumns n) old;
          n = n\<lparr>ncolumns := AList.delete old (ncolumns n)\<rparr> in
      if old = new then (Inr (physical, physical), n\<lparr>ncolumns := AList.update new physical (ncolumns n)\<rparr>)
      else
        case firstFree sha new (nused n) of
          None \<Rightarrow> (Inl NoFieldIdentifier, n)
        | Some c \<Rightarrow> (Inr (physical, c), n\<lparr>nused := c # nused n, ncolumns := AList.update new c (ncolumns n)\<rparr>))"

definition dropColumn :: "string \<Rightarrow> columnNamer \<Rightarrow> string \<times> columnNamer" where
  "dropColumn name n = (goLookup (ncolumns n) name, n\<lparr>ncolumns := AList.delete name (ncolumns n)\<rparr>)"

section \<open>Identifiers of a query\<close>

record sqlNames =
  encoded :: columns
  decoded :: columns
  sused :: "string list"

text \<open>The tables of the namespace, each with the names of its fields.\<close>

definition newSQLNames :: "(string \<times> string list) list \<Rightarrow> sqlNames" where
  "newSQLNames tables = \<lparr>encoded = [], decoded = [], sused = concat (map (\<lambda>(t, fs). t # fs) tables)\<rparr>"

definition useName :: "string \<Rightarrow> sqlNames \<Rightarrow> sqlNames" where
  "useName x n = n\<lparr>sused := x # sused n\<rparr>"

definition longName :: "nat \<Rightarrow> string" where
  "longName i = ''dolmen_long_'' @ showNat i"

lemma longName_inj: "longName i = longName j \<Longrightarrow> i = j"
  using readNat_showNat by (metis longName_def same_append_eq)

function freshLong :: "string list \<Rightarrow> nat \<Rightarrow> string" where
  "freshLong used i = (if longName i \<in> set used then freshLong used (i + 1) else longName i)"
  by pat_completeness auto
termination
proof (relation "measure (\<lambda>(used, i). card (set used \<inter> longName ` {i..}))")
  fix used :: "string list" and i
  assume "longName i \<in> set used"
  moreover have "longName i \<notin> longName ` {i + 1..}" using longName_inj by fastforce
  ultimately have "set used \<inter> longName ` {i + 1..} \<subset> set used \<inter> longName ` {i..}" by auto
  then show "((used, i + 1), used, i) \<in> measure (\<lambda>(used, i). card (set used \<inter> longName ` {i..}))"
    by (simp add: psubset_card_mono)
qed simp

declare freshLong.simps [simp del]

definition sqlName :: "string \<Rightarrow> sqlNames \<Rightarrow> string \<times> sqlNames" where
  "sqlName logical n =
     (if length logical \<le> 63 then (logical, n)
      else if goLookup (encoded n) logical \<noteq> '''' then (goLookup (encoded n) logical, n)
      else
        let candidate = freshLong (sused n) (length (encoded n)) in
        (candidate, \<lparr>encoded = AList.update logical candidate (encoded n), decoded = AList.update candidate logical (decoded n),
                     sused = candidate # sused n\<rparr>))"

definition original :: "sqlNames \<Rightarrow> string \<Rightarrow> string" where
  "original n name = (if goLookup (decoded n) name \<noteq> '''' then goLookup (decoded n) name else name)"

end
