(* ===== verification/Pg_Names_Props.thy ===== *)
theory Pg_Names_Props
  imports Pg_Names
begin

text \<open>
  Physical names stay apart: over any sequence of migrations no two columns of a table share a
  physical name, and the short names a query is rewritten with lead back to the long ones.
\<close>

section \<open>Columns\<close>

text \<open>What the naming of columns \<open>m\<close> promises, with the names used so far.\<close>

definition apart :: "(string \<rightharpoonup> string) \<Rightarrow> string set \<Rightarrow> bool" where
  "apart m used \<longleftrightarrow> inj_on m (dom m) \<and> ran m \<subseteq> used \<and> set storeColumns \<subseteq> used
     \<and> (\<forall>v\<in>ran m. v \<noteq> '''' \<and> length v \<le> 63 \<and> v \<notin> set storeColumns)"

lemma apart_update:
  assumes "apart m used" "c \<notin> used" "c \<noteq> ''''" "length c \<le> 63"
  shows "apart (m(k \<mapsto> c)) (insert c used)"
proof -
  have "c \<notin> ran m" using assms by (auto simp: apart_def)
  then have "inj_on (m(k \<mapsto> c)) (dom (m(k \<mapsto> c)))"
    using assms(1) by (auto simp: apart_def inj_on_def ran_def dom_def split: if_splits)
  moreover have "ran (m(k \<mapsto> c)) \<subseteq> insert c (ran m)" by (auto simp: ran_def split: if_splits)
  ultimately show ?thesis using assms by (auto simp: apart_def)
qed

lemma apart_AList_update:
  "apart (map_of al) used \<Longrightarrow> c \<notin> used \<Longrightarrow> c \<noteq> '''' \<Longrightarrow> length c \<le> 63 \<Longrightarrow> apart (map_of (AList.update k c al)) (insert c used)"
  unfolding update_conv' by (rule apart_update)

lemma apart_AList_delete: "apart (map_of al) used \<Longrightarrow> apart (map_of (AList.delete k al)) used"
  unfolding delete_conv' by (auto simp: apart_def inj_on_def ran_def dom_def split: if_splits)

lemma dom_AList_update: "dom (map_of (AList.update k c al)) = insert k (dom (map_of al))"
  unfolding update_conv' by simp

lemma hexEncode_length [simp]: "length (hexEncode s) = 2 * length s"
  by (induction s) (auto simp: hexEncode_def)

lemma physicalCandidate_short:
  assumes "\<And>x. length (sha x) = 32"
  shows "length (physicalCandidate sha name i) \<le> 63" "name \<noteq> '''' \<Longrightarrow> physicalCandidate sha name i \<noteq> ''''"
  using assms by (auto simp: physicalCandidate_def Let_def)

lemma firstFree_spec:
  assumes "\<And>x. length (sha x) = 32" "name \<noteq> ''''" "firstFree sha name used = Some c"
  shows "c \<notin> set used" "c \<noteq> ''''" "length c \<le> 63"
  using find_SomeD [OF assms(3) [unfolded firstFree_def]] physicalCandidate_short [of sha name] assms(1,2) by auto

lemma ValidIdent_column: "ValidIdent n \<Longrightarrow> n \<noteq> '''' \<and> n \<notin> set storeColumns"
proof -
  assume n: "ValidIdent n"
  then have r: "n \<notin> set reserved" and i: "identRe n" unfolding ValidIdent_def forbidden_def set_append by blast+
  from i have "n \<noteq> ''''" "n \<noteq> ''_fts''" by (auto simp: identRe_def isLower_def)
  with r show ?thesis unfolding storeColumns_def reserved_def by simp
qed

lemma shortColumns_apart:
  assumes "list_all (\<lambda>f. ValidIdent (Name f)) fs" "shortColumns fs = (out, used)"
  shows "apart (map_of out) (set used)"
proof -
  let ?step = "\<lambda>f (out, used). if length (Name f) \<le> 63 then (AList.update (Name f) (Name f) out, Name f # used) else (out, used)"
  have "(\<forall>k v. map_of (fst (fold ?step fs (out0, used0))) k = Some v \<longrightarrow> k = v)
      \<and> apart (map_of (fst (fold ?step fs (out0, used0)))) (set (snd (fold ?step fs (out0, used0))))"
    if "\<forall>k v. map_of out0 k = Some v \<longrightarrow> k = v" "apart (map_of out0) (set used0)" for out0 used0
    using assms(1) that
  proof (induction fs arbitrary: out0 used0)
    case (Cons f fs)
    show ?case
    proof (cases "length (Name f) \<le> 63")
      case True
      let ?m = "(map_of out0)(Name f \<mapsto> Name f)"
      have id: "\<forall>k v. ?m k = Some v \<longrightarrow> k = v" using Cons.prems(2) by auto
      then have "inj_on ?m (dom ?m)" unfolding inj_on_def dom_def by (metis (mono_tags, lifting) mem_Collect_eq option.exhaust)
      moreover have "ran ?m \<subseteq> insert (Name f) (ran (map_of out0))" by (auto simp: ran_def split: if_splits)
      moreover have "Name f \<noteq> ''''" "Name f \<notin> set storeColumns" using Cons.prems(1) ValidIdent_column by auto
      ultimately have ap: "apart ?m (set (Name f # used0))" using Cons.prems(3) True unfolding apart_def by auto
      from Cons.prems(1) have "list_all (\<lambda>f. ValidIdent (Name f)) fs" by simp
      from Cons.IH [OF this, of "AList.update (Name f) (Name f) out0" "Name f # used0", unfolded update_conv', OF id ap] True
      show ?thesis by simp
    qed (use Cons in simp)
  qed simp
  from this [of "[]" storeColumns] assms(2) show ?thesis by (simp add: shortColumns_def apart_def storeColumns_def)
qed

lemma longColumns_apart:
  assumes "\<And>x. length (sha x) = 32"
  shows "longColumns sha fs out used = Inr cols \<Longrightarrow> list_all (\<lambda>f. ValidIdent (Name f)) fs
    \<Longrightarrow> apart (map_of out) (set used) \<Longrightarrow> (\<exists>used'. apart (map_of cols) used') \<and> (\<forall>f\<in>set fs. Name f \<in> dom (map_of cols)) \<and> dom (map_of out) \<subseteq> dom (map_of cols)"
proof (induction fs arbitrary: out used)
  case (Cons f fs)
  show ?case
  proof (cases "map_of out (Name f)")
    case None
    with Cons.prems(1) obtain c where c: "firstFree sha (Name f) used = Some c"
      and rest: "longColumns sha fs (AList.update (Name f) c out) (c # used) = Inr cols"
      by (auto simp: Let_def split: option.splits if_splits)
    have "Name f \<noteq> ''''" using Cons.prems(2) by (auto simp: ValidIdent_def identRe_def)
    from firstFree_spec [OF assms this c] have "apart (map_of (AList.update (Name f) c out)) (set (c # used))"
      using apart_AList_update [OF Cons.prems(3)] by simp
    from Cons.IH [OF rest _ this] Cons.prems(2) show ?thesis by (simp add: dom_AList_update)
  next
    case (Some v)
    with Cons.IH [of out used] Cons.prems show ?thesis by auto
  qed
qed auto

text \<open>
  The names of a table over its life: it is created, migrations add, rename and drop columns, and
  each migration starts from the names the last one left.
\<close>

inductive named_columns :: "(string \<Rightarrow> string) \<Rightarrow> columnNamer \<Rightarrow> bool" for sha where
  created: "list_all (\<lambda>f. ValidIdent (Name f)) fs \<Longrightarrow> physicalColumns sha fs = Inr cols \<Longrightarrow> named_columns sha (newColumnNamer cols)"
| migration: "named_columns sha n \<Longrightarrow> named_columns sha (newColumnNamer (ncolumns n))"
| added: "named_columns sha n \<Longrightarrow> ValidIdent name \<Longrightarrow> named_columns sha (snd (allocate sha name n))"
| renamed: "named_columns sha n \<Longrightarrow> ValidIdent new \<Longrightarrow> old \<in> dom (map_of (ncolumns n)) \<Longrightarrow> named_columns sha (snd (rename sha old new n))"
| dropped: "named_columns sha n \<Longrightarrow> named_columns sha (snd (dropColumn name n))"

lemma newColumnNamer_spec:
  "map_of (ncolumns (newColumnNamer cols)) = map_of (rev cols) \<and> set (nused (newColumnNamer cols)) = set storeColumns \<union> snd ` set cols"
proof -
  let ?step = "\<lambda>(logical, physical) n. \<lparr>ncolumns = AList.update logical physical (ncolumns n), nused = physical # nused n\<rparr>"
  have "map_of (ncolumns (fold ?step cols n)) = map_of (ncolumns n) ++ map_of (rev cols)
      \<and> set (nused (fold ?step cols n)) = set (nused n) \<union> snd ` set cols" for n
    by (induction cols arbitrary: n) (auto simp: update_conv')
  from this [of "\<lparr>ncolumns = [], nused = storeColumns\<rparr>"] show ?thesis by (simp add: newColumnNamer_def)
qed

lemma map_of_rev_distinct: "distinct (map fst cols) \<Longrightarrow> map_of (rev cols) = map_of cols"
  by (rule map_of_inject_set [THEN iffD2]) (simp_all add: rev_map [symmetric])

lemma newColumnNamer_distinct: "distinct (map fst (ncolumns (newColumnNamer cols)))"
proof -
  let ?step = "\<lambda>(logical, physical) n. \<lparr>ncolumns = AList.update logical physical (ncolumns n), nused = physical # nused n\<rparr>"
  have "distinct (map fst (ncolumns n)) \<Longrightarrow> distinct (map fst (ncolumns (fold ?step cols n)))" for n
    by (induction cols arbitrary: n) (auto simp: distinct_update)
  then show ?thesis by (simp add: newColumnNamer_def)
qed

lemma newColumnNamer_apart:
  assumes "distinct (map fst cols)" "apart (map_of cols) used"
  shows "apart (map_of (ncolumns (newColumnNamer cols))) (set (nused (newColumnNamer cols)))"
proof -
  have "ran (map_of cols) = snd ` set cols" by (rule ran_distinct [OF assms(1)])
  with assms show ?thesis
    using newColumnNamer_spec [of cols] by (auto simp: apart_def map_of_rev_distinct)
qed

lemma physicalColumns_distinct: "physicalColumns sha fs = Inr cols \<Longrightarrow> distinct (map fst cols)"
proof -
  let ?step = "\<lambda>f (out, used). if length (Name f) \<le> 63 then (AList.update (Name f) (Name f) out, Name f # used) else (out, used)"
  have 1: "distinct (map fst out) \<Longrightarrow> distinct (map fst (fst (fold ?step fs (out, used))))" for out used
    by (induction fs arbitrary: out used) (auto simp: distinct_update)
  have 2: "longColumns sha gs out used = Inr cols \<Longrightarrow> distinct (map fst out) \<Longrightarrow> distinct (map fst cols)" for gs out used cols
    by (induction gs arbitrary: out used) (auto simp: Let_def distinct_update split: if_splits option.splits)
  assume "physicalColumns sha fs = Inr cols"
  then have "longColumns sha fs (fst (shortColumns fs)) (snd (shortColumns fs)) = Inr cols" by (simp add: physicalColumns_def split_def Let_def)
  from 2 [OF this] 1 [of "[]" storeColumns] show ?thesis by (simp add: shortColumns_def)
qed

lemma named_columns_apart:
  assumes "named_columns sha n" "\<And>x. length (sha x) = 32"
  shows "distinct (map fst (ncolumns n)) \<and> apart (map_of (ncolumns n)) (set (nused n))"
  using assms(1)
proof induction
  case (created fs cols)
  obtain out used where sc: "shortColumns fs = (out, used)" by fastforce
  with created have "longColumns sha fs out used = Inr cols" by (simp add: physicalColumns_def)
  from longColumns_apart [OF assms(2) this created(1) shortColumns_apart [OF created(1) sc]]
  obtain used' where "apart (map_of cols) used'" by blast
  then show ?case using newColumnNamer_apart [OF physicalColumns_distinct [OF created(2)]] newColumnNamer_distinct by blast
next
  case (migration n)
  then show ?case using newColumnNamer_apart newColumnNamer_distinct by blast
next
  case (added n name)
  show ?case
  proof (cases "firstFree sha name (nused n)")
    case (Some c)
    have "name \<noteq> ''''" using ValidIdent_column [OF added(2)] by simp
    from apart_AList_update [OF conjunct2 [OF added.IH] firstFree_spec [OF assms(2) this Some], of name] added.IH Some
    show ?thesis by (simp add: allocate_def distinct_update)
  qed (use added.IH in \<open>simp add: allocate_def\<close>)
next
  case (renamed n new old)
  let ?cols = "AList.delete old (ncolumns n)"
  have del: "apart (map_of ?cols) (set (nused n))" "distinct (map fst ?cols)"
    using renamed.IH apart_AList_delete by (auto simp: distinct_delete)
  show ?case
  proof (cases "old = new")
    case True
    from renamed(3) obtain v where v: "map_of (ncolumns n) old = Some v" by auto
    then have "map_of (AList.update new v ?cols) = map_of (ncolumns n)" unfolding update_conv' delete_conv' True by auto
    with True v del(2) renamed.IH show ?thesis by (simp add: rename_def goLookup_def distinct_update)
  next
    case False
    show ?thesis
    proof (cases "firstFree sha new (nused n)")
      case None
      with False del show ?thesis by (simp add: rename_def)
    next
      case (Some c)
      have "new \<noteq> ''''" using ValidIdent_column [OF renamed(2)] by simp
      from apart_AList_update [OF del(1) firstFree_spec [OF assms(2) this Some], of new] del(2) Some False
      show ?thesis by (simp add: rename_def distinct_update)
    qed
  qed
next
  case (dropped n name)
  then show ?case using apart_AList_delete by (auto simp: dropColumn_def distinct_delete)
qed

text \<open>
  C25. Over the whole life of a table, through any sequence of migrations that add, rename and drop
  columns, two columns never share a physical name, each physical name is non-empty and fits
  the 63 bytes of an identifier, and none is a column of the store itself.
\<close>

theorem physical_columns_apart:
  assumes "named_columns sha n" "\<And>x. length (sha x) = 32"
  shows "(\<forall>a b v. map_of (ncolumns n) a = Some v \<and> map_of (ncolumns n) b = Some v \<longrightarrow> a = b)
    \<and> (\<forall>a v. map_of (ncolumns n) a = Some v \<longrightarrow> v \<noteq> '''' \<and> length v \<le> 63 \<and> v \<notin> {''id'', ''created_at'', ''_embedding'', ''_fts''})"
proof -
  from named_columns_apart [OF assms] have ap: "apart (map_of (ncolumns n)) (set (nused n))" by blast
  then have "\<forall>a b v. map_of (ncolumns n) a = Some v \<and> map_of (ncolumns n) b = Some v \<longrightarrow> a = b"
    unfolding apart_def inj_on_def dom_def by (metis (mono_tags, lifting) mem_Collect_eq option.distinct(1))
  moreover have "\<forall>a v. map_of (ncolumns n) a = Some v \<longrightarrow> v \<noteq> '''' \<and> length v \<le> 63 \<and> v \<notin> set storeColumns"
    using ap unfolding apart_def ran_def by blast
  ultimately show ?thesis by (simp add: storeColumns_def)
qed


lemma firstFree_first: "physicalCandidate sha name 0 \<notin> set used \<Longrightarrow> firstFree sha name used = Some (physicalCandidate sha name 0)"
  by (simp add: firstFree_def upt_conv_Cons)

theorem physical_columns_apart_witness:
  "let sha = (\<lambda>x. replicate 32 (CHR ''x'')); long = replicate 64 (CHR ''a'');
       n = snd (allocate sha long (snd (allocate sha ''title'' (newColumnNamer []))))
   in map_of (ncolumns n) ''title'' = Some ''title''
      \<and> map_of (ncolumns n) long = Some (replicate 46 (CHR ''a'') @ ''_7878787878787878'')
      \<and> length (replicate 46 (CHR ''a'') @ ''_7878787878787878'') \<le> 63"
proof -
  let ?sha = "\<lambda>x. replicate 32 (CHR ''x'')" and ?long = "replicate 64 (CHR ''a'')"
  let ?n = "snd (allocate ?sha ?long (snd (allocate ?sha ''title'' (newColumnNamer []))))"
  have "physicalColumns ?sha [] = Inr []" by (simp add: physicalColumns_def shortColumns_def)
  then have "named_columns ?sha (newColumnNamer [])" by (intro named_columns.created [of "[]"]) simp_all
  moreover have "ValidIdent ''title''" "ValidIdent ?long" by code_simp+
  ultimately have run: "named_columns ?sha ?n" by (intro named_columns.added)
  let ?c = "replicate 46 (CHR ''a'') @ ''_7878787878787878''"
  have c: "physicalCandidate ?sha ''title'' 0 = ''title''" "physicalCandidate ?sha ?long 0 = ?c" by code_simp+
  have fresh: "''title'' \<notin> set storeColumns" "?c \<notin> set (''title'' # storeColumns)" "?long \<noteq> ''title''" by code_simp+
  have 1: "allocate ?sha ''title'' (newColumnNamer []) = (Inr ''title'', \<lparr>ncolumns = [(''title'', ''title'')], nused = ''title'' # storeColumns\<rparr>)"
    using firstFree_first [of ?sha "''title''" storeColumns] c(1) fresh(1) by (simp add: allocate_def newColumnNamer_def)
  have 2: "?n = \<lparr>ncolumns = AList.update ?long ?c [(''title'', ''title'')], nused = ?c # ''title'' # storeColumns\<rparr>"
    using firstFree_first [of ?sha ?long "''title'' # storeColumns"] c(2) fresh(2) by (simp only: 1) (simp add: allocate_def)
  have cols: "map_of (ncolumns ?n) ''title'' = Some ''title''" "map_of (ncolumns ?n) ?long = Some ?c"
    unfolding 2 using fresh(3) by (simp_all add: update_conv)
  from physical_columns_apart [OF run] cols(2) have "length (replicate 46 (CHR ''a'') @ ''_7878787878787878'') \<le> 63"
    by (metis (no_types, lifting) length_replicate)
  with cols show ?thesis by (simp only: Let_def)
qed

section \<open>Identifiers of a query\<close>

text \<open>Naming several logical names in turn.\<close>

primrec nameAll :: "string list \<Rightarrow> sqlNames \<Rightarrow> string list \<times> sqlNames" where
  "nameAll [] n = ([], n)"
| "nameAll (l # ls) n = (let (p, n) = sqlName l n; (ps, n) = nameAll ls n in (p # ps, n))"

lemma freshLong_spec:
  "\<exists>j\<ge>i. freshLong used i = longName j \<and> longName j \<notin> set used \<and> (\<forall>k\<in>{i..<j}. longName k \<in> set used)"
proof (induction used i rule: freshLong.induct)
  case (1 used i)
  show ?case
  proof (cases "longName i \<in> set used")
    case True
    with 1 obtain j where j: "j \<ge> i + 1" "freshLong used (i + 1) = longName j" "longName j \<notin> set used" "\<forall>k\<in>{i + 1..<j}. longName k \<in> set used"
      by blast
    moreover have "longName k \<in> set used" if "k \<in> {i..<j}" for k using j(4) True that by (cases "k = i") auto
    ultimately show ?thesis using True by (intro exI [of _ j]) (simp add: freshLong.simps [of used i])
  qed (auto simp: freshLong.simps [of used i] intro: exI [of _ i])
qed

lemma freshLong_length:
  assumes "i + length used < 10 ^ 51"
  shows "length (freshLong used i) \<le> 63"
proof -
  obtain j where j: "j \<ge> i" "freshLong used i = longName j" "\<forall>k\<in>{i..<j}. longName k \<in> set used" using freshLong_spec by blast
  have "card (longName ` {i..<j}) = j - i" by (subst card_image) (auto simp: inj_on_def dest: longName_inj)
  moreover have "card (longName ` {i..<j}) \<le> card (set used)" using j(3) by (intro card_mono) auto
  ultimately have "j \<le> i + length used" using card_length [of used] by linarith
  then have "length (showNat j) \<le> 51" using assms by (intro showNat_length) auto
  then show ?thesis using j(2) by (simp add: longName_def)
qed

text \<open>The short names handed out lead back, and none of the names of \<open>U\<close> was handed out.\<close>

definition names_ok :: "string set \<Rightarrow> sqlNames \<Rightarrow> bool" where
  "names_ok U n \<longleftrightarrow> U \<subseteq> set (sused n)
     \<and> (\<forall>l p. map_of (encoded n) l = Some p \<longrightarrow> p \<noteq> '''' \<and> l \<noteq> '''' \<and> map_of (decoded n) p = Some l \<and> length p \<le> 63)
     \<and> (\<forall>p l. map_of (decoded n) p = Some l \<longrightarrow> p \<in> set (sused n) - U)"

lemma length_AList_update: "length (AList.update k v al) \<le> length al + 1"
  by (induction al) auto

lemma sqlName_ok:
  assumes "names_ok U n" "sqlName l n = (p, n')" "length l > 63 \<or> l \<in> U" "length (encoded n) + length (sused n) < 10 ^ 51"
  shows "names_ok U n' \<and> (length l > 63 \<longrightarrow> map_of (encoded n') l = Some p) \<and> (length l \<le> 63 \<longrightarrow> p = l)
    \<and> (\<forall>x q. map_of (encoded n) x = Some q \<longrightarrow> map_of (encoded n') x = Some q)
    \<and> length (encoded n') + length (sused n') \<le> length (encoded n) + length (sused n) + 2"
proof (cases "length l \<le> 63 \<or> goLookup (encoded n) l \<noteq> ''''")
  case True
  then show ?thesis using assms by (auto simp: sqlName_def goLookup_def split: if_splits option.splits)
next
  case False
  let ?c = "freshLong (sused n) (length (encoded n))"
  have long: "length l > 63" "map_of (encoded n) l = None"
    using False assms(1) by (auto simp: goLookup_def names_ok_def split: option.splits)
  have p: "p = ?c" and n': "n' = \<lparr>encoded = AList.update l ?c (encoded n), decoded = AList.update ?c l (decoded n), sused = ?c # sused n\<rparr>"
    using assms(2) False by (auto simp: sqlName_def Let_def)
  obtain j where j: "?c = longName j" "?c \<notin> set (sused n)" using freshLong_spec by metis
  have "?c \<noteq> ''''" by (simp add: j(1) longName_def)
  moreover have "length ?c \<le> 63" by (rule freshLong_length [OF assms(4)])
  moreover have "map_of (decoded n) ?c = None" using assms(1) j(2) unfolding names_ok_def by (metis DiffD1 option.exhaust)
  ultimately have "names_ok U n'" using assms(1) j(2) long unfolding n' names_ok_def by (auto simp: update_conv)
  moreover have "length (AList.update l ?c (encoded n)) \<le> length (encoded n) + 1" by (rule length_AList_update)
  ultimately show ?thesis using long p n' by (auto simp: update_conv)
qed

lemma names_ok_original:
  "names_ok U n \<Longrightarrow> map_of (encoded n) l = Some p \<Longrightarrow> original n p = l"
  "names_ok U n \<Longrightarrow> l \<in> U \<Longrightarrow> original n l = l"
  by (auto simp: names_ok_def original_def goLookup_def split: option.splits)

lemma nameAll_ok:
  assumes "names_ok U n" "nameAll ls n = (ps, n')" "\<And>l. l \<in> set ls \<Longrightarrow> length l > 63 \<or> l \<in> U"
    and "length (encoded n) + length (sused n) + 2 * length ls < 10 ^ 51"
  shows "names_ok U n' \<and> map (original n') ps = ls \<and> (\<forall>p\<in>set ps. length p \<le> 63)
    \<and> (\<forall>x q. map_of (encoded n) x = Some q \<longrightarrow> map_of (encoded n') x = Some q)"
  using assms
proof (induction ls arbitrary: n ps)
  case (Cons l ls)
  obtain p n1 where p: "sqlName l n = (p, n1)" by fastforce
  with Cons.prems(2) obtain qs where qs: "nameAll ls n1 = (qs, n')" "ps = p # qs" by (auto simp: Let_def split: prod.splits)
  from Cons.prems(3) have l: "length l > 63 \<or> l \<in> U" by simp
  from Cons.prems(4) have "length (encoded n) + length (sused n) < 10 ^ 51" by simp
  note st = sqlName_ok [OF Cons.prems(1) p l this]
  have "length (encoded n1) + length (sused n1) + 2 * length ls < 10 ^ 51" using st Cons.prems(4) by simp
  note ih = Cons.IH [OF _ qs(1) _ this]
  have r: "names_ok U n'" "map (original n') qs = ls" "\<forall>p\<in>set qs. length p \<le> 63"
    "\<And>x q. map_of (encoded n1) x = Some q \<Longrightarrow> map_of (encoded n') x = Some q"
    using ih st Cons.prems(3) by auto
  have "original n' p = l \<and> length p \<le> 63"
  proof (cases "length l > 63")
    case True
    with st r(4) have "map_of (encoded n') l = Some p" by blast
    then show ?thesis using names_ok_original(1) [OF r(1)] r(1) unfolding names_ok_def by blast
  next
    case False
    with st l show ?thesis using names_ok_original(2) [OF r(1)] by auto
  qed
  with qs(2) r st show ?case by auto
qed simp

lemma fold_useName: "sused (fold useName ids n) = rev ids @ sused n" "encoded (fold useName ids n) = encoded n" "decoded (fold useName ids n) = decoded n"
  by (induction ids arbitrary: n) (simp_all add: useName_def)

text \<open>
  C26. The names a query is rewritten with lead back: once the names of the tables, of their fields
  and of the text have been noted, each of these names and every name over 63 bytes is given a
  name of at most 63 bytes from which \<^verbatim>\<open>original\<close> finds it, so two names are never given the same.
\<close>

theorem sql_names_roundtrip:
  assumes "nameAll ls (fold useName ids (newSQLNames tables)) = (ps, n)"
    and "\<And>l. l \<in> set ls \<Longrightarrow> length l > 63 \<or> l \<in> set ids \<or> l \<in> set (sused (newSQLNames tables))"
    and "length ids + length (sused (newSQLNames tables)) + 2 * length ls < 10 ^ 51"
  shows "map (original n) ps = ls \<and> (\<forall>p\<in>set ps. length p \<le> 63)"
proof -
  let ?n = "fold useName ids (newSQLNames tables)"
  have "names_ok (set (sused ?n)) ?n" by (auto simp: names_ok_def fold_useName newSQLNames_def)
  from nameAll_ok [OF this assms(1)] assms(2,3) show ?thesis by (auto simp: fold_useName newSQLNames_def)
qed

theorem sql_names_roundtrip_witness:
  "let long = replicate 70 (CHR ''a''); ids = [''dolmen_long_0'', ''notes'', long];
       (ps, n) = nameAll [long, ''dolmen_long_0'', long] (fold useName ids (newSQLNames [(''notes'', [''title''])]))
   in ps = [''dolmen_long_1'', ''dolmen_long_0'', ''dolmen_long_1''] \<and> map (original n) ps = [long, ''dolmen_long_0'', long]"
proof -
  let ?long = "replicate 70 (CHR ''a'')"
  let ?ids = "[''dolmen_long_0'', ''notes'', ?long]"
  let ?n0 = "fold useName ?ids (newSQLNames [(''notes'', [''title''])])"
  obtain ps n where r: "nameAll [?long, ''dolmen_long_0'', ?long] ?n0 = (ps, n)" by fastforce
  have "fst (nameAll [?long, ''dolmen_long_0'', ?long] ?n0) = [''dolmen_long_1'', ''dolmen_long_0'', ''dolmen_long_1'']" by code_simp
  moreover have "map (original n) ps = [?long, ''dolmen_long_0'', ?long]"
    by (rule conjunct1 [OF sql_names_roundtrip [OF r]]) (auto simp: newSQLNames_def)
  ultimately show ?thesis using r by (simp only: Let_def split fst_conv simp_thms)
qed

end
