(* ===== verification/Pg_Fts.thy ===== *)
theory Pg_Fts
  imports Schema_Names
begin

text \<open>
  Full-text search on PostgreSQL (\<^verbatim>\<open>internal/postgres/fts_query.go\<close>): the tokens of a search query,
  the recursive descent that reads them, and the SQL expression it is compiled to. The parser
  takes fuel; \<open>Pg_Fts_Props\<close> proves that it never runs out and that it reads exactly the grammar
  of the query language.
\<close>

section \<open>Tokens\<close>

text \<open>The classes of \<^verbatim>\<open>unicode\<close> beyond ASCII, by code point.\<close>

record unicode_classes =
  uSpace :: "nat \<Rightarrow> bool"
  uLetter :: "nat \<Rightarrow> bool"
  uDigit :: "nat \<Rightarrow> bool"

definition isSpaceRune :: "unicode_classes \<Rightarrow> nat \<Rightarrow> bool" where
  "isSpaceRune u r = (if r < 128 then r = 32 \<or> 9 \<le> r \<and> r \<le> 13 else uSpace u r)"

definition isLetterRune :: "unicode_classes \<Rightarrow> nat \<Rightarrow> bool" where
  "isLetterRune u r = (if r < 128 then 65 \<le> r \<and> r \<le> 90 \<or> 97 \<le> r \<and> r \<le> 122 else uLetter u r)"

definition isDigitRune :: "unicode_classes \<Rightarrow> nat \<Rightarrow> bool" where
  "isDigitRune u r = (if r < 128 then 48 \<le> r \<and> r \<le> 57 else uDigit u r)"

datatype fts_error =
    UnterminatedPhrase
  | ColumnFilter
  | ColumnGroup
  | SingleQuote
  | FirstTokenOperator
  | AdjacencyOperator
  | BareMinus
  | BareStar
  | NearOperator
  | ExpectedTerm
  | UnbalancedParens
  | NoTerms
  | PrefixNotPlain string
  | FtsOutOfFuel

record ftsToken =
  fkind :: char
  ftext :: string
  fstar :: bool

definition ftsTok :: "char \<Rightarrow> ftsToken" where
  "ftsTok k = \<lparr>fkind = k, ftext = '''', fstar = False\<rparr>"

definition firstRune :: "string \<Rightarrow> nat" where
  "firstRune s = runeValue (take (runeLen s) s)"

definition afterRune :: "string \<Rightarrow> string" where
  "afterRune s = drop (runeLen s) s"

lemma afterRune_shorter [termination_simp]: "s \<noteq> [] \<Longrightarrow> length (afterRune s) < length s"
  using runeLen_pos [of s] by (cases s) (auto simp: afterRune_def)

text \<open>What ends a word: a space, or one of \<^verbatim>\<open>( ) " : { ' ^ + -\<close>.\<close>

definition endsWord :: "unicode_classes \<Rightarrow> nat \<Rightarrow> bool" where
  "endsWord u r \<longleftrightarrow> isSpaceRune u r \<or> r \<in> {40, 41, 34, 58, 123, 39, 94, 43, 45}"

text \<open>The word, whether a star ends it, and the rest; the word has lost its star.\<close>

fun readWord :: "unicode_classes \<Rightarrow> string \<Rightarrow> string \<times> bool \<times> string" where
  "readWord u s =
     (if s = [] then ([], False, [])
      else if endsWord u (firstRune s) then ([], False, s)
      else if firstRune s = 42 then ([], True, afterRune s)
      else let (w, star, rest) = readWord u (afterRune s) in (take (runeLen s) s @ w, star, rest))"

declare readWord.simps [simp del]

lemma readWord_shorter:
  "length (snd (snd (readWord u s))) \<le> length s"
  "s \<noteq> [] \<Longrightarrow> \<not> endsWord u (firstRune s) \<Longrightarrow> length (snd (snd (readWord u s))) < length s"
proof -
  show le: "length (snd (snd (readWord u s))) \<le> length s" for s
  proof (induction u s rule: readWord.induct)
    case (1 u s)
    then show ?case using afterRune_shorter [of s]
      by (subst readWord.simps) (auto simp: split_def Let_def intro: order_trans)
  qed
  assume s: "s \<noteq> []" "\<not> endsWord u (firstRune s)"
  then show "length (snd (snd (readWord u s))) < length s"
    using afterRune_shorter [of s] le [of "afterRune s"]
    by (subst readWord.simps) (auto simp: split_def Let_def intro: order.strict_trans1)
qed

definition wordToken :: "string \<Rightarrow> bool \<Rightarrow> fts_error + ftsToken" where
  "wordToken word star =
     (if word = '''' then Inl BareStar
      else if word = ''AND'' then Inr (ftsTok (CHR ''&''))
      else if word = ''OR'' then Inr (ftsTok (CHR ''|''))
      else if word = ''NOT'' then Inr (ftsTok (CHR ''!''))
      else if word = ''NEAR'' then Inl NearOperator
      else Inr \<lparr>fkind = CHR ''w'', ftext = word, fstar = star\<rparr>)"

function ftsTokenize :: "unicode_classes \<Rightarrow> string \<Rightarrow> fts_error + ftsToken list" where
  "ftsTokenize u s =
     (if s = [] then Inr []
      else
        let r = firstRune s; rest = afterRune s in
        if isSpaceRune u r then ftsTokenize u rest
        else if r = 40 then bindR (ftsTokenize u rest) (\<lambda>ts. Inr (ftsTok (CHR ''('') # ts))
        else if r = 41 then bindR (ftsTokenize u rest) (\<lambda>ts. Inr (ftsTok (CHR '')'') # ts))
        else if r = 34 then
          (case cutAt (CHR 0x22) rest of
             None \<Rightarrow> Inl UnterminatedPhrase
           | Some (p, rest') \<Rightarrow>
               bindR (ftsTokenize u rest') (\<lambda>ts. Inr (\<lparr>fkind = CHR ''p'', ftext = p, fstar = False\<rparr> # ts)))
        else if r = 58 then Inl ColumnFilter
        else if r = 123 then Inl ColumnGroup
        else if r = 39 then Inl SingleQuote
        else if r = 94 then Inl FirstTokenOperator
        else if r = 43 then Inl AdjacencyOperator
        else if r = 45 then Inl BareMinus
        else
          bindR (wordToken (fst (readWord u s)) (fst (snd (readWord u s)))) (\<lambda>t.
            bindR (ftsTokenize u (snd (snd (readWord u s)))) (\<lambda>ts. Inr (t # ts))))"
  by pat_completeness auto
termination
proof (relation "measure (length \<circ> snd)", goal_cases)
  case (5 u s r rest p q rest')
  then have "length rest' < length (afterRune s)" by (auto simp: cutAt_Some)
  with 5 show ?case using afterRune_shorter [of s] by auto
next
  case (6 u s r rest)
  then show ?case using readWord_shorter(2) [of s u] by (auto simp: endsWord_def)
qed (auto simp: afterRune_shorter)

declare ftsTokenize.simps [simp del]

section \<open>The parser\<close>

datatype tsNode =
    TsTerm string bool
  | TsPhrase string
  | TsBinary char tsNode tsNode

type_synonym fts_parse = "fts_error + tsNode \<times> ftsToken list"

definition peekKind :: "ftsToken list \<Rightarrow> char option" where
  "peekKind ts = (case ts of [] \<Rightarrow> None | t # _ \<Rightarrow> Some (fkind t))"

text \<open>
  The parser works on the tokens from its position on. The recursion goes through parentheses:
  each function takes the parser \<open>pe\<close> of what stands inside them, and \<open>orExpr\<close> is defined by recursion
  on how deep they nest. The loops count down from the tokens left.
\<close>

type_synonym group_parser = "ftsToken list \<Rightarrow> fts_parse"

definition ftsPrimary :: "group_parser \<Rightarrow> ftsToken list \<Rightarrow> fts_parse" where
  "ftsPrimary pe ts =
     (case ts of
        [] \<Rightarrow> Inl ExpectedTerm
      | tok # r \<Rightarrow>
          if fkind tok = CHR ''w'' then Inr (TsTerm (ftext tok) (fstar tok), r)
          else if fkind tok = CHR ''p'' then Inr (TsPhrase (ftext tok), r)
          else if fkind tok = CHR ''('' then
            bindR (pe r) (\<lambda>(inner, r).
              if peekKind r = Some (CHR '')'') then Inr (inner, tl r) else Inl UnbalancedParens)
          else Inl ExpectedTerm)"

primrec notLoop :: "group_parser \<Rightarrow> nat \<Rightarrow> tsNode \<Rightarrow> ftsToken list \<Rightarrow> fts_parse" where
  "notLoop pe 0 left ts = Inl FtsOutOfFuel"
| "notLoop pe (Suc f) left ts =
     (if peekKind ts \<noteq> Some (CHR ''!'') then Inr (left, ts)
      else bindR (ftsPrimary pe (tl ts)) (\<lambda>(right, r). notLoop pe f (TsBinary (CHR ''!'') left right) r))"

definition notExpr :: "group_parser \<Rightarrow> ftsToken list \<Rightarrow> fts_parse" where
  "notExpr pe ts = bindR (ftsPrimary pe ts) (\<lambda>(left, r). notLoop pe (length r + 1) left r)"

primrec andLoop :: "group_parser \<Rightarrow> nat \<Rightarrow> tsNode \<Rightarrow> ftsToken list \<Rightarrow> fts_parse" where
  "andLoop pe 0 left ts = Inl FtsOutOfFuel"
| "andLoop pe (Suc f) left ts =
     (if peekKind ts \<in> {None, Some (CHR '')''), Some (CHR ''|'')} then Inr (left, ts)
      else bindR (notExpr pe (if peekKind ts = Some (CHR ''&'') then tl ts else ts))
             (\<lambda>(right, r). andLoop pe f (TsBinary (CHR ''&'') left right) r))"

definition andExpr :: "group_parser \<Rightarrow> ftsToken list \<Rightarrow> fts_parse" where
  "andExpr pe ts = bindR (notExpr pe ts) (\<lambda>(left, r). andLoop pe (length r + 1) left r)"

primrec orLoop :: "group_parser \<Rightarrow> nat \<Rightarrow> tsNode \<Rightarrow> ftsToken list \<Rightarrow> fts_parse" where
  "orLoop pe 0 left ts = Inl FtsOutOfFuel"
| "orLoop pe (Suc f) left ts =
     (if peekKind ts \<noteq> Some (CHR ''|'') then Inr (left, ts)
      else bindR (andExpr pe (tl ts)) (\<lambda>(right, r). orLoop pe f (TsBinary (CHR ''|'') left right) r))"

definition orExprWith :: "group_parser \<Rightarrow> ftsToken list \<Rightarrow> fts_parse" where
  "orExprWith pe ts = bindR (andExpr pe ts) (\<lambda>(left, r). orLoop pe (length r + 1) left r)"

primrec orExpr :: "nat \<Rightarrow> ftsToken list \<Rightarrow> fts_parse" where
  "orExpr 0 ts = Inl FtsOutOfFuel"
| "orExpr (Suc d) ts = orExprWith (orExpr d) ts"

definition parseTokens :: "ftsToken list \<Rightarrow> fts_error + tsNode" where
  "parseTokens tokens =
     bindR (orExpr (length tokens + 1) tokens) (\<lambda>(node, r). if r \<noteq> [] then Inl UnbalancedParens else Inr node)"

definition parseFTSQuery :: "unicode_classes \<Rightarrow> string \<Rightarrow> fts_error + tsNode" where
  "parseFTSQuery u match =
     bindR (ftsTokenize u match) (\<lambda>tokens. if tokens = [] then Inl NoTerms else parseTokens tokens)"

section \<open>The SQL expression\<close>

definition simpleLexeme :: "unicode_classes \<Rightarrow> string \<Rightarrow> bool" where
  "simpleLexeme u t \<longleftrightarrow>
     t \<noteq> '''' \<and> list_all (\<lambda>r. runeValue r = 95 \<or> isLetterRune u (runeValue r) \<or> isDigitRune u (runeValue r)) (runes t)"

text \<open>\<open>cerr\<close> is the first error met; what is written after it is dropped at the end.\<close>

record ftsCompiler =
  cargs :: "string list"
  coffset :: nat
  cerr :: "fts_error option"

definition param :: "string \<Rightarrow> ftsCompiler \<Rightarrow> string \<times> ftsCompiler" where
  "param v c = (CHR ''$'' # showNat (coffset c + length (cargs c) + 1), c\<lparr>cargs := cargs c @ [v]\<rparr>)"

definition tsCall :: "string \<Rightarrow> string \<Rightarrow> ftsCompiler \<Rightarrow> string \<times> ftsCompiler" where
  "tsCall fn v c =
     (let (p, c) = param v c in (fn @ ''('' @ [CHR 0x27] @ ''english'' @ [CHR 0x27] @ '','' @ p @ '')'', c))"

primrec writeNode :: "unicode_classes \<Rightarrow> tsNode \<Rightarrow> ftsCompiler \<Rightarrow> string \<times> ftsCompiler" where
  "writeNode u (TsTerm text prefix) c =
     (if \<not> prefix then tsCall ''plainto_tsquery'' text c
      else if \<not> simpleLexeme u text then
        tsCall ''plainto_tsquery'' text (if cerr c = None then c\<lparr>cerr := Some (PrefixNotPlain text)\<rparr> else c)
      else tsCall ''to_tsquery'' ([CHR 0x27] @ text @ [CHR 0x27] @ '':*'') c)"
| "writeNode u (TsPhrase text) c = tsCall ''phraseto_tsquery'' text c"
| "writeNode u (TsBinary op left right) c =
     (let (l, c) = writeNode u left c; (r, c) = writeNode u right c in
      (''('' @ l @ (if op = CHR ''|'' then '' || '' else if op = CHR ''!'' then '' && !! '' else '' && '') @ r @ '')'', c))"

definition compileFTSQuery :: "unicode_classes \<Rightarrow> string \<Rightarrow> nat \<Rightarrow> fts_error + string \<times> string list" where
  "compileFTSQuery u match offset =
     bindR (parseFTSQuery u match) (\<lambda>node.
       let (sql, c) = writeNode u node \<lparr>cargs = [], coffset = offset, cerr = None\<rparr> in
       case cerr c of Some e \<Rightarrow> Inl e | None \<Rightarrow> Inr (sql, cargs c))"

end
