(* ===== verification/Pg_Sql_Lex.thy ===== *)
theory Pg_Sql_Lex
  imports Pg_Names_Props Pg_Fts
begin

text \<open>
  How a query is rewritten for PostgreSQL (\<^verbatim>\<open>internal/postgres/sql_lex.go\<close>): question marks become
  numbered parameters and identifiers over 63 bytes short ones; comments, literals and the rest
  are passed on. \<open>ctx\<close> says at which polls the context is found cancelled, \<open>ident\<close> is the quoting
  of \<^verbatim>\<open>pgx.Identifier\<close>, \<open>lo\<close> the lower case beyond ASCII.
\<close>

section \<open>The lexer\<close>

datatype sql_poll = PollStart | PollOuter nat | PollInner nat | PollPart nat

datatype sql_error = SqlCancelled | SqlUnterminated | NumberedParameter

record sql_part =
  praw :: string
  pident :: string

definition sqlIdentifierStart :: "unicode_classes \<Rightarrow> nat \<Rightarrow> bool" where
  "sqlIdentifierStart u r \<longleftrightarrow> r = 95 \<or> isLetterRune u r"

definition sqlIdentifierPart :: "unicode_classes \<Rightarrow> nat \<Rightarrow> bool" where
  "sqlIdentifierPart u r \<longleftrightarrow> sqlIdentifierStart u r \<or> isDigitRune u r \<or> r = 36"

text \<open>The loops inside a comment, a literal or a name, from offset \<open>i\<close>; each answers the rest of the text.\<close>

fun lineEnd :: "(sql_poll \<Rightarrow> bool) \<Rightarrow> nat \<Rightarrow> string \<Rightarrow> sql_error + string" where
  "lineEnd ctx i [] = Inr []"
| "lineEnd ctx i (c # cs) =
     (if byte c = 10 then Inr (c # cs) else if ctx (PollInner i) then Inl SqlCancelled else lineEnd ctx (i + 1) cs)"

fun blockEnd :: "(sql_poll \<Rightarrow> bool) \<Rightarrow> nat \<Rightarrow> nat \<Rightarrow> string \<Rightarrow> sql_error + string" where
  "blockEnd ctx i depth r =
     (if depth = 0 then Inr r
      else if r = [] then Inl SqlUnterminated
      else if ctx (PollInner i) then Inl SqlCancelled
      else if hasPrefix r ''/*'' then blockEnd ctx (i + 2) (depth + 1) (drop 2 r)
      else if hasPrefix r ''*/'' then blockEnd ctx (i + 2) (depth - 1) (drop 2 r)
      else blockEnd ctx (i + 1) depth (drop 1 r))"

declare blockEnd.simps [simp del]

fun literalEnd :: "(sql_poll \<Rightarrow> bool) \<Rightarrow> nat \<Rightarrow> bool \<Rightarrow> string \<Rightarrow> sql_error + string" where
  "literalEnd ctx i escaped [] = Inl SqlUnterminated"
| "literalEnd ctx i escaped (c # cs) =
     (if ctx (PollInner i) then Inl SqlCancelled
      else if escaped \<and> c = CHR 0x5C then literalEnd ctx (i + 2) escaped (drop 1 cs)
      else if c = CHR 0x27 then
        (if hasPrefix cs [CHR 0x27] then literalEnd ctx (i + 2) escaped (drop 1 cs) else Inr cs)
      else literalEnd ctx (i + 1) escaped cs)"

fun quotedName :: "(sql_poll \<Rightarrow> bool) \<Rightarrow> nat \<Rightarrow> string \<Rightarrow> string \<Rightarrow> sql_error + string \<times> string" where
  "quotedName ctx i name [] = Inl SqlUnterminated"
| "quotedName ctx i name (c # cs) =
     (if ctx (PollInner i) then Inl SqlCancelled
      else if c = CHR 0x22 then
        (if hasPrefix cs [CHR 0x22] then quotedName ctx (i + 2) (name @ [CHR 0x22]) (drop 1 cs) else Inr (name, cs))
      else quotedName ctx (i + 1) (name @ [c]) cs)"

fun nameEnd :: "(sql_poll \<Rightarrow> bool) \<Rightarrow> unicode_classes \<Rightarrow> nat \<Rightarrow> string \<Rightarrow> sql_error + string" where
  "nameEnd ctx u i r =
     (if r = [] then Inr []
      else if ctx (PollInner i) then Inl SqlCancelled
      else if \<not> sqlIdentifierPart u (firstRune r) then Inr r
      else nameEnd ctx u (i + runeLen r) (afterRune r))"

declare nameEnd.simps [simp del]

text \<open>The tag of a dollar quote: what is read of it, and the rest.\<close>

fun tagEnd :: "bool \<Rightarrow> string \<Rightarrow> string \<times> string" where
  "tagEnd first [] = ([], [])"
| "tagEnd first (c # cs) =
     (if isLower c \<or> isUpper c \<or> c = CHR ''_'' \<or> \<not> first \<and> isDigit c
      then (let (t, r) = tagEnd False cs in (c # t, r)) else ([], c # cs))"

text \<open>What follows the first occurrence of a text.\<close>

fun afterSub :: "string \<Rightarrow> string \<Rightarrow> string option" where
  "afterSub tag r = (if hasPrefix r tag then Some (drop (length tag) r) else case r of [] \<Rightarrow> None | _ # cs \<Rightarrow> afterSub tag cs)"

declare afterSub.simps [simp del]

text \<open>\<open>pre\<close> is the text before, backwards: whether a literal is one with escapes.\<close>

definition escapedLiteral :: "unicode_classes \<Rightarrow> string \<Rightarrow> bool" where
  "escapedLiteral u pre =
     (case pre of [] \<Rightarrow> False
      | e # p \<Rightarrow> (e = CHR ''e'' \<or> e = CHR ''E'') \<and> (case p of [] \<Rightarrow> True | c # _ \<Rightarrow> \<not> sqlIdentifierPart u (byte c)))"

definition rawPart :: "string \<Rightarrow> string \<Rightarrow> sql_part" where
  "rawPart r r' = \<lparr>praw = take (length r - length r') r, pident = ''''\<rparr>"

text \<open>One step of the loop: the part, the parameters so far, a name to note, and the rest.\<close>

type_synonym lexed = "sql_part \<times> nat \<times> string option \<times> string"

definition dollarPart :: "string \<Rightarrow> nat \<Rightarrow> sql_error + lexed" where
  "dollarPart r k =
     (let (t, rest) = tagEnd True (drop 1 r) in
      if hasPrefix rest ''$'' then
        (case afterSub (''$'' @ t @ ''$'') (drop 1 rest) of
           None \<Rightarrow> Inl SqlUnterminated
         | Some r' \<Rightarrow> Inr (rawPart r r', k, None, r'))
      else Inl NumberedParameter)"

definition questionPart :: "string \<Rightarrow> nat \<Rightarrow> lexed" where
  "questionPart r k =
     (case drop 1 r of
        c # r' \<Rightarrow>
          if c \<in> {CHR ''?'', CHR ''|'', CHR ''&''}
          then (\<lparr>praw = (if c = CHR ''?'' then ''?'' else ''?'' @ [c]), pident = ''''\<rparr>, k, None, r')
          else (\<lparr>praw = CHR ''$'' # showNat (k + 1), pident = ''''\<rparr>, k + 1, None, drop 1 r)
      | [] \<Rightarrow> (\<lparr>praw = CHR ''$'' # showNat (k + 1), pident = ''''\<rparr>, k + 1, None, drop 1 r))"

definition lexPart :: "(sql_poll \<Rightarrow> bool) \<Rightarrow> unicode_classes \<Rightarrow> (string \<Rightarrow> string) \<Rightarrow> string \<Rightarrow> string \<Rightarrow> nat \<Rightarrow> sql_error + lexed" where
  "lexPart ctx u lo pre r k =
     (let i = length pre in
      if hasPrefix r ''--'' then bindR (lineEnd ctx (i + 2) (drop 2 r)) (\<lambda>r'. Inr (rawPart r r', k, None, r'))
      else if hasPrefix r ''/*'' then bindR (blockEnd ctx (i + 2) 1 (drop 2 r)) (\<lambda>r'. Inr (rawPart r r', k, None, r'))
      else if hd r = CHR 0x27 then
        bindR (literalEnd ctx (i + 1) (escapedLiteral u pre) (drop 1 r)) (\<lambda>r'. Inr (rawPart r r', k, None, r'))
      else if hd r = CHR 0x22 then
        bindR (quotedName ctx (i + 1) '''' (drop 1 r)) (\<lambda>(name, r').
          Inr ((rawPart r r')\<lparr>pident := name\<rparr>, k, Some name, r'))
      else if hd r = CHR ''$'' then dollarPart r k
      else if hd r = CHR ''?'' then Inr (questionPart r k)
      else if sqlIdentifierStart u (firstRune r) then
        bindR (nameEnd ctx u (i + runeLen r) (afterRune r)) (\<lambda>r'.
          let name = toLower lo (praw (rawPart r r')) in
          Inr ((rawPart r r')\<lparr>pident := name\<rparr>, k, Some name, r'))
      else Inr (rawPart r (afterRune r), k, None, afterRune r))"

section \<open>Every step reads on\<close>

lemma lineEnd_suffix: "lineEnd ctx i r = Inr r' \<Longrightarrow> \<exists>c. r = c @ r'"
  by (induction ctx i r rule: lineEnd.induct) (auto split: if_splits intro: exI [of _ "_ # _"])

lemma drop_suffix: "\<exists>c. drop n r = c @ r' \<Longrightarrow> \<exists>c. r = c @ r'"
  by (metis append_take_drop_id append_assoc)

lemma blockEnd_suffix: "blockEnd ctx i d r = Inr r' \<Longrightarrow> \<exists>c. r = c @ r'"
proof (induction ctx i d r rule: blockEnd.induct)
  case (1 ctx i d r)
  then show ?case by (auto simp: blockEnd.simps [of ctx i d r] split: if_splits intro: drop_suffix)
qed

lemma literalEnd_suffix: "literalEnd ctx i e r = Inr r' \<Longrightarrow> \<exists>c. r = c @ r'"
proof (induction ctx i e r rule: literalEnd.induct)
  case (2 ctx i e c cs)
  then show ?case using drop_suffix [of 1 "c # cs"] drop_suffix [of 2 "c # cs"] by (auto split: if_splits)
qed simp

lemma quotedName_suffix: "quotedName ctx i name r = Inr (x, r') \<Longrightarrow> \<exists>c. r = c @ r'"
proof (induction ctx i name r rule: quotedName.induct)
  case (2 ctx i name c cs)
  then show ?case using drop_suffix [of 1 "c # cs"] drop_suffix [of 2 "c # cs"] by (auto split: if_splits)
qed simp

text \<open>A question mark is a rune of its own.\<close>

lemma rune_no_mark: "r \<noteq> [] \<Longrightarrow> firstRune r \<noteq> 63 \<Longrightarrow> CHR ''?'' \<notin> set (take (runeLen r) r)"
  using rune_bytes [of r] by (cases r) (auto simp: firstRune_def runeValue_def list_all_iff)

lemma nameEnd_suffix: "nameEnd ctx u i r = Inr r' \<Longrightarrow> \<exists>c. r = c @ r' \<and> CHR ''?'' \<notin> set c"
proof (induction ctx u i r rule: nameEnd.induct)
  case (1 ctx u i r)
  show ?case
  proof (cases "r \<noteq> [] \<and> \<not> ctx (PollInner i) \<and> sqlIdentifierPart u (firstRune r)")
    case True
    with 1 obtain c where "afterRune r = c @ r'" "CHR ''?'' \<notin> set c" by (auto simp: nameEnd.simps [of ctx u i r])
    moreover have "CHR ''?'' \<notin> set (take (runeLen r) r)"
      using True by (intro rune_no_mark) (auto simp: sqlIdentifierPart_def sqlIdentifierStart_def isLetterRune_def isDigitRune_def)
    moreover have "r = take (runeLen r) r @ afterRune r" by (simp add: afterRune_def)
    ultimately show ?thesis by (intro exI [of _ "take (runeLen r) r @ c"]) auto
  next
    case False
    with "1.prems" show ?thesis by (auto simp: nameEnd.simps [of ctx u i r] split: if_splits)
  qed
qed

lemma tagEnd_split: "tagEnd b r = (t, r') \<Longrightarrow> r = t @ r'"
  by (induction b r arbitrary: t rule: tagEnd.induct) (auto split: if_splits prod.splits)

lemma afterSub_suffix: "afterSub tag r = Some r' \<Longrightarrow> \<exists>c. r = c @ tag @ r'"
proof (induction tag r rule: afterSub.induct)
  case (1 tag r)
  show ?case
  proof (cases "hasPrefix r tag")
    case True
    with "1.prems" show ?thesis by (auto simp: afterSub.simps [of tag r] hasPrefix_iff)
  next
    case False
    with "1.prems" obtain c cs where r: "r = c # cs" "afterSub tag cs = Some r'" by (auto simp: afterSub.simps [of tag r] split: list.splits)
    with "1.IH" [OF False] obtain d where "cs = d @ tag @ r'" by blast
    with r show ?thesis by (intro exI [of _ "c # d"]) simp
  qed
qed

text \<open>
  Text that may be passed on: a comment, a literal, a quoted name, an operator with a question
  mark, or text without one.
\<close>

definition keptOk :: "string \<Rightarrow> bool" where
  "keptOk c \<longleftrightarrow> hasPrefix c ''--'' \<or> hasPrefix c ''/*'' \<or> hd c \<in> {CHR 0x27, CHR 0x22, CHR ''$''} \<or> c \<in> {''?|'', ''?&''} \<or> CHR ''?'' \<notin> set c"

text \<open>What a step makes of the text it reads.\<close>

definition lexed_from :: "string \<Rightarrow> nat \<Rightarrow> lexed \<Rightarrow> bool" where
  "lexed_from r k l =
     (case l of (p, k', nm, r') \<Rightarrow> \<exists>c. r = c @ r' \<and> c \<noteq> []
        \<and> (praw p = c \<and> keptOk c \<and> k' = k
           \<or> c = ''?'' \<and> praw p = CHR ''$'' # showNat (k + 1) \<and> pident p = '''' \<and> k' = k + 1
           \<or> c = ''??'' \<and> praw p = ''?'' \<and> pident p = '''' \<and> k' = k))"

definition keeps :: "string \<Rightarrow> string \<Rightarrow> bool" where
  "keeps r r' \<longleftrightarrow> (\<exists>c. r = c @ r' \<and> c \<noteq> [] \<and> keptOk c)"

lemma lexed_from_raw:
  "keeps r r' \<Longrightarrow> lexed_from r k (rawPart r r', k, nm, r')"
  "keeps r r' \<Longrightarrow> lexed_from r k ((rawPart r r')\<lparr>pident := x\<rparr>, k, nm, r')"
  by (auto simp: lexed_from_def rawPart_def keeps_def)

lemma keeps_comment:
  assumes "hasPrefix r p" "p = ''--'' \<or> p = ''/*''" "\<exists>c. drop 2 r = c @ r'"
  shows "keeps r r'"
proof -
  from assms(1) obtain t where t: "r = p @ t" by (auto simp: hasPrefix_iff)
  with assms(2,3) obtain c where "t = c @ r'" by auto
  with t assms(2) show ?thesis unfolding keeps_def by (intro exI [of _ "p @ c"]) (auto simp: keptOk_def hasPrefix_iff)
qed

lemma keeps_quoted:
  assumes "r \<noteq> []" "hd r \<in> {CHR 0x27, CHR 0x22, CHR ''$''}" "\<exists>c. drop 1 r = c @ r'"
  shows "keeps r r'"
proof -
  from assms(1,3) obtain c where "r = (hd r # c) @ r'" by (cases r) auto
  with assms(2) show ?thesis unfolding keeps_def by (intro exI [of _ "hd r # c"]) (auto simp: keptOk_def)
qed

lemma keeps_rune:
  assumes "r \<noteq> []" "hd r \<noteq> CHR ''?''" "afterRune r = c @ r'" "CHR ''?'' \<notin> set c"
  shows "keeps r r'"
proof -
  have "CHR ''?'' \<notin> set (take (runeLen r) r)" using rune_bytes [OF assms(1)] assms(1,2) by (cases r) (auto simp: list_all_iff)
  moreover have "r = (take (runeLen r) r @ c) @ r'"
    using append_take_drop_id [of "runeLen r" r] assms(3) unfolding afterRune_def append.assoc by argo
  moreover have "take (runeLen r) r \<noteq> []" using assms(1) runeLen_pos [OF assms(1)] by simp
  ultimately show ?thesis unfolding keeps_def using assms(4) by (intro exI [of _ "take (runeLen r) r @ c"]) (auto simp: keptOk_def)
qed

lemma dollarPart_reads: "r \<noteq> [] \<Longrightarrow> hd r = CHR ''$'' \<Longrightarrow> dollarPart r k = Inr l \<Longrightarrow> lexed_from r k l"
proof -
  assume r: "r \<noteq> []" "hd r = CHR ''$''" and l: "dollarPart r k = Inr l"
  obtain t rest where t: "tagEnd True (drop 1 r) = (t, rest)" by fastforce
  with l obtain r' where r': "hasPrefix rest ''$''" "afterSub (''$'' @ t @ ''$'') (drop 1 rest) = Some r'" "l = (rawPart r r', k, None, r')"
    by (auto simp: dollarPart_def split: if_splits option.splits)
  from afterSub_suffix [OF r'(2)] have "\<exists>c. drop 1 rest = c @ r'" by auto
  then have "\<exists>c. rest = c @ r'" by (rule drop_suffix)
  then have "\<exists>c. drop 1 r = c @ r'" using tagEnd_split [OF t] by auto
  then have "keeps r r'" using r by (intro keeps_quoted) auto
  with r'(3) lexed_from_raw(1) show ?thesis by blast
qed

lemma questionPart_reads: "r \<noteq> [] \<Longrightarrow> hd r = CHR ''?'' \<Longrightarrow> lexed_from r k (questionPart r k)"
  by (cases r) (auto simp: questionPart_def lexed_from_def keptOk_def split: list.splits)

lemma reads_kept:
  assumes "\<And>x. m = Inr x \<Longrightarrow> keeps r (g x)" "\<And>x. f x = (rawPart r (g x))\<lparr>pident := h x\<rparr>"
  shows "ensures (\<lambda>_. True) (bindR m (\<lambda>x. Inr (f x, k, nm x, g x))) (lexed_from r k)"
proof (cases m)
  case (Inr x)
  then show ?thesis using assms(1) [OF Inr] assms(2) lexed_from_raw(2) by simp
qed simp

lemma rawPart_plain: "rawPart r r' = (rawPart r r')\<lparr>pident := ''''\<rparr>"
  by (simp add: rawPart_def)

lemma lexPart_reads:
  assumes "r \<noteq> []" "lexPart ctx u lo pre r k = Inr l"
  shows "lexed_from r k l"
proof -
  have "ensures (\<lambda>_. True) (lexPart ctx u lo pre r k) (lexed_from r k)"
    unfolding lexPart_def Let_def
  proof (intro ensures_if, goal_cases)
    case 1
    then show ?case by (intro reads_kept [OF _ rawPart_plain]) (auto intro: keeps_comment lineEnd_suffix)
  next
    case 2
    then show ?case by (intro reads_kept [OF _ rawPart_plain]) (auto intro: keeps_comment blockEnd_suffix)
  next
    case 3
    have "keeps r r'" if "literalEnd ctx (length pre + 1) (escapedLiteral u pre) (drop 1 r) = Inr r'" for r'
      using keeps_quoted [OF assms(1)] literalEnd_suffix [OF that] 3 by auto
    then show ?case by (intro reads_kept [OF _ rawPart_plain])
  next
    case 4
    have "keeps r r'" if "quotedName ctx (length pre + 1) '''' (drop 1 r) = Inr (name, r')" for name r'
      using keeps_quoted [OF assms(1)] quotedName_suffix [OF that] 4 by auto
    then show ?case by (cases "quotedName ctx (length pre + 1) '''' (drop 1 r)") (auto intro: lexed_from_raw(2))
  next
    case 5
    then show ?case using dollarPart_reads [OF assms(1)] by (cases "dollarPart r k") auto
  next
    case 7
    have "keeps r r'" if "nameEnd ctx u (length pre + runeLen r) (afterRune r) = Inr r'" for r'
      using keeps_rune [OF assms(1)] nameEnd_suffix [OF that] 7 by blast
    then show ?case by (intro reads_kept) auto
  next
    case 8
    then have "keeps r (afterRune r)" using keeps_rune [OF assms(1), of "[]"] by simp
    then show ?case using lexed_from_raw(1) by simp
  qed (use assms(1) questionPart_reads in simp)
  with assms(2) show ?thesis by simp
qed

lemma lexPart_shorter: "r \<noteq> [] \<Longrightarrow> lexPart ctx u lo pre r k = Inr (p, k', nm, r') \<Longrightarrow> length r' < length r"
  using lexPart_reads [of r ctx u lo pre k "(p, k', nm, r')"] by (auto simp: lexed_from_def)

section \<open>Rewriting\<close>

function lexParts :: "(sql_poll \<Rightarrow> bool) \<Rightarrow> unicode_classes \<Rightarrow> (string \<Rightarrow> string) \<Rightarrow> string \<Rightarrow> string \<Rightarrow> nat \<Rightarrow> sqlNames
    \<Rightarrow> sql_error + sql_part list \<times> nat \<times> sqlNames" where
  "lexParts ctx u lo pre r k n =
     (if r = [] then Inr ([], k, n)
      else if ctx (PollOuter (length pre)) then Inl SqlCancelled
      else
        case lexPart ctx u lo pre r k of
          Inl e \<Rightarrow> Inl e
        | Inr (p, k', nm, r') \<Rightarrow>
            bindR (lexParts ctx u lo (rev (take (length r - length r') r) @ pre) r' k' (case nm of None \<Rightarrow> n | Some x \<Rightarrow> useName x n))
              (\<lambda>(ps, k'', n'). Inr (p # ps, k'', n')))"
  by pat_completeness auto
termination
  by (relation "measure (\<lambda>(ctx, u, lo, pre, r, k, n). length r)") (auto dest: lexPart_shorter)

declare lexParts.simps [simp del]

fun writeParts :: "(sql_poll \<Rightarrow> bool) \<Rightarrow> (string \<Rightarrow> string) \<Rightarrow> nat \<Rightarrow> sql_part list \<Rightarrow> sqlNames \<Rightarrow> sql_error + string \<times> sqlNames" where
  "writeParts ctx ident i [] n = Inr ('''', n)"
| "writeParts ctx ident i (p # ps) n =
     (if ctx (PollPart i) then Inl SqlCancelled
      else
        let (w, n) = (if pident p \<noteq> '''' \<and> length (pident p) > 63
                      then (let (x, n) = sqlName (pident p) n in (ident x, n)) else (praw p, n)) in
        bindR (writeParts ctx ident (i + 1) ps n) (\<lambda>(out, n). Inr (w @ out, n)))"

definition rewriteSQLContext :: "(sql_poll \<Rightarrow> bool) \<Rightarrow> unicode_classes \<Rightarrow> (string \<Rightarrow> string) \<Rightarrow> (string \<Rightarrow> string) \<Rightarrow> string \<Rightarrow> sqlNames
    \<Rightarrow> sql_error + string \<times> nat \<times> sqlNames" where
  "rewriteSQLContext ctx u lo ident input names =
     (if ctx PollStart then Inl SqlCancelled
      else
        bindR (lexParts ctx u lo '''' input 0 names) (\<lambda>(parts, parameters, names).
        bindR (writeParts ctx ident 0 parts names) (\<lambda>(out, names). Inr (out, parameters, names))))"

section \<open>What rewriting changes\<close>

text \<open>
  A query in pieces: text that is passed on, a name over 63 bytes with its logical form, a
  placeholder, and a doubled question mark, which stands for the operator.
\<close>

datatype sql_piece = Kept string | Long string string | Placeholder | DoubleMark

primrec pieceSource :: "sql_piece \<Rightarrow> string" where
  "pieceSource (Kept s) = s"
| "pieceSource (Long s l) = s"
| "pieceSource Placeholder = ''?''"
| "pieceSource DoubleMark = ''??''"

fun renderPieces :: "(string \<Rightarrow> string) \<Rightarrow> sqlNames \<Rightarrow> nat \<Rightarrow> sql_piece list \<Rightarrow> string" where
  "renderPieces ident n k [] = ''''"
| "renderPieces ident n k (Kept s # ps) = s @ renderPieces ident n k ps"
| "renderPieces ident n k (Long s l # ps) = ident (goLookup (encoded n) l) @ renderPieces ident n k ps"
| "renderPieces ident n k (Placeholder # ps) = CHR ''$'' # showNat (k + 1) @ renderPieces ident n (k + 1) ps"
| "renderPieces ident n k (DoubleMark # ps) = ''?'' @ renderPieces ident n k ps"

definition pieceOf :: "sql_part \<Rightarrow> sql_piece \<Rightarrow> nat \<Rightarrow> bool" where
  "pieceOf p pc k =
     (case pc of
        Kept s \<Rightarrow> praw p = s \<and> keptOk s \<and> \<not> (pident p \<noteq> '''' \<and> length (pident p) > 63)
      | Long s l \<Rightarrow> praw p = s \<and> pident p = l \<and> l \<noteq> '''' \<and> length l > 63
      | Placeholder \<Rightarrow> praw p = CHR ''$'' # showNat (k + 1) \<and> pident p = ''''
      | DoubleMark \<Rightarrow> praw p = ''?'' \<and> pident p = '''')"

fun piecesOf :: "sql_part list \<Rightarrow> nat \<Rightarrow> sql_piece list \<Rightarrow> bool" where
  "piecesOf [] k [] = True"
| "piecesOf (p # ps) k (pc # pcs) \<longleftrightarrow> pieceOf p pc k \<and> piecesOf ps (if pc = Placeholder then k + 1 else k) pcs"
| "piecesOf _ _ _ = False"

lemma lexed_piece:
  assumes "lexed_from r k (p, k', nm, r')"
  shows "\<exists>pc. pieceOf p pc k \<and> r = pieceSource pc @ r' \<and> k' = (if pc = Placeholder then k + 1 else k)"
proof -
  from assms obtain c where c: "r = c @ r'" and or: "praw p = c \<and> keptOk c \<and> k' = k
      \<or> c = ''?'' \<and> praw p = CHR ''$'' # showNat (k + 1) \<and> pident p = '''' \<and> k' = k + 1
      \<or> c = ''??'' \<and> praw p = ''?'' \<and> pident p = '''' \<and> k' = k" by (auto simp: lexed_from_def)
  from or consider "praw p = c" "keptOk c" "k' = k" | "c = ''?''" "praw p = CHR ''$'' # showNat (k + 1)" "pident p = ''''" "k' = k + 1"
    | "c = ''??''" "praw p = ''?''" "pident p = ''''" "k' = k" by blast
  then show ?thesis
  proof cases
    case 1
    show ?thesis
    proof (cases "pident p \<noteq> '''' \<and> length (pident p) > 63")
      case True
      with 1 c show ?thesis by (intro exI [of _ "Long c (pident p)"]) (simp add: pieceOf_def)
    next
      case False
      with 1 c show ?thesis by (intro exI [of _ "Kept c"]) (simp add: pieceOf_def)
    qed
  next
    case 2
    with c show ?thesis by (intro exI [of _ Placeholder]) (simp add: pieceOf_def)
  next
    case 3
    with c show ?thesis by (intro exI [of _ DoubleMark]) (simp add: pieceOf_def)
  qed
qed

lemma lexParts_pieces:
  "lexParts ctx u lo pre r k n = Inr (parts, k', n')
    \<Longrightarrow> \<exists>pcs. piecesOf parts k pcs \<and> concat (map pieceSource pcs) = r \<and> k' = k + length (filter ((=) Placeholder) pcs)"
proof (induction ctx u lo pre r k n arbitrary: parts rule: lexParts.induct)
  case (1 ctx u lo pre r k n)
  show ?case
  proof (cases "r = []")
    case True
    with "1.prems" show ?thesis by (intro exI [of _ "[]"]) (auto simp: lexParts.simps [of ctx u lo pre "[]"])
  next
    case False
    with "1.prems" obtain p k1 nm r1 where l: "\<not> ctx (PollOuter (length pre))" "lexPart ctx u lo pre r k = Inr (p, k1, nm, r1)"
      by (auto simp: lexParts.simps [of ctx u lo pre r k n] split: if_splits sum.splits)
    with False "1.prems" obtain ps where ps: "parts = p # ps"
      "lexParts ctx u lo (rev (take (length r - length r1) r) @ pre) r1 k1 (case nm of None \<Rightarrow> n | Some x \<Rightarrow> useName x n) = Inr (ps, k', n')"
      by (auto simp: lexParts.simps [of ctx u lo pre r k n])
    from lexed_piece [OF lexPart_reads [OF False l(2)]] obtain pc where
      pc: "pieceOf p pc k" "r = pieceSource pc @ r1" "k1 = (if pc = Placeholder then k + 1 else k)" by blast
    from "1.IH" [OF False l refl refl refl ps(2)] obtain pcs where
      "piecesOf ps k1 pcs" "concat (map pieceSource pcs) = r1" "k' = k1 + length (filter ((=) Placeholder) pcs)" by blast
    with pc ps(1) show ?thesis by (intro exI [of _ "pc # pcs"]) auto
  qed
qed

text \<open>A name given once stays.\<close>

lemma sqlName_given:
  assumes "sqlName l n = (p, n')" "length l > 63"
  shows "goLookup (encoded n') l = p" "p \<noteq> ''''" "goLookup (encoded n) x \<noteq> '''' \<Longrightarrow> goLookup (encoded n') x = goLookup (encoded n) x"
proof -
  have fresh: "freshLong used i \<noteq> ''''" for used i using freshLong_spec [of i used] by (auto simp: longName_def)
  show "goLookup (encoded n') l = p" "p \<noteq> ''''" "goLookup (encoded n) x \<noteq> '''' \<Longrightarrow> goLookup (encoded n') x = goLookup (encoded n) x"
    using assms fresh by (auto simp: sqlName_def Let_def goLookup_def update_conv split: if_splits)
qed

lemma writeParts_pieces:
  "writeParts ctx ident i parts n = Inr (out, n') \<Longrightarrow> piecesOf parts k pcs
    \<Longrightarrow> out = renderPieces ident n' k pcs \<and> (\<forall>x. goLookup (encoded n) x \<noteq> '''' \<longrightarrow> goLookup (encoded n') x = goLookup (encoded n) x)"
proof (induction ctx ident i parts n arbitrary: out k pcs rule: writeParts.induct)
  case (1 ctx ident i n)
  then show ?case by (cases pcs) auto
next
  case (2 ctx ident i p ps n)
  from "2.prems"(2) obtain pc rest where pcs: "pcs = pc # rest" "pieceOf p pc k" "piecesOf ps (if pc = Placeholder then k + 1 else k) rest"
    by (cases pcs) auto
  let ?w = "if pident p \<noteq> '''' \<and> length (pident p) > 63 then (let (x, n) = sqlName (pident p) n in (ident x, n)) else (praw p, n)"
  obtain w n1 where w: "?w = (w, n1)" by fastforce
  with "2.prems"(1) obtain o' where o': "\<not> ctx (PollPart i)" "writeParts ctx ident (i + 1) ps n1 = Inr (o', n')" "out = w @ o'"
    by (auto simp: Let_def split: if_splits)
  from "2.IH" [OF o'(1) refl w [symmetric] o'(2) pcs(3)] have ih: "o' = renderPieces ident n' (if pc = Placeholder then k + 1 else k) rest"
    "\<And>x. goLookup (encoded n1) x \<noteq> '''' \<Longrightarrow> goLookup (encoded n') x = goLookup (encoded n1) x" by auto
  show ?case
  proof (cases pc)
    case (Long s l)
    then obtain x where x: "sqlName l n = (x, n1)" "w = ident x" "length l > 63"
      using w pcs(2) by (auto simp: pieceOf_def Let_def split: prod.splits)
    note g = sqlName_given [OF x(1,3)]
    then have "goLookup (encoded n') l = x" using ih(2) by simp
    then show ?thesis using Long x(2) o'(3) pcs(1) ih g by auto
  qed (use w pcs o'(3) ih in \<open>auto simp: pieceOf_def\<close>)
qed




end
