(* ===== verification/Pg_Fts_Props.thy ===== *)
theory Pg_Fts_Props
  imports Pg_Fts
begin

text \<open>
  The search query parser reads exactly its grammar, and the text of a query reaches PostgreSQL
  only as bound arguments. The locale \<open>group_parsing\<close> is what a level of the parser relies on of
  the parser of parenthesised groups; it is interpreted on the parser at every nesting depth.
\<close>

section \<open>The grammar\<close>

text \<open>
  NOT binds tightest, then AND, which may be left out, then OR; all of them associate to the left.
\<close>

inductive ftsPrim :: "ftsToken list \<Rightarrow> tsNode \<Rightarrow> bool"
  and ftsNot :: "ftsToken list \<Rightarrow> tsNode \<Rightarrow> bool"
  and ftsAnd :: "ftsToken list \<Rightarrow> tsNode \<Rightarrow> bool"
  and ftsOr :: "ftsToken list \<Rightarrow> tsNode \<Rightarrow> bool" where
  prim_word: "fkind t = CHR ''w'' \<Longrightarrow> ftsPrim [t] (TsTerm (ftext t) (fstar t))"
| prim_phrase: "fkind t = CHR ''p'' \<Longrightarrow> ftsPrim [t] (TsPhrase (ftext t))"
| prim_group: "fkind t = CHR ''('' \<Longrightarrow> ftsOr us n \<Longrightarrow> fkind t' = CHR '')'' \<Longrightarrow> ftsPrim (t # us @ [t']) n"
| not_prim: "ftsPrim us n \<Longrightarrow> ftsNot us n"
| not_more: "ftsNot us l \<Longrightarrow> fkind t = CHR ''!'' \<Longrightarrow> ftsPrim vs r \<Longrightarrow> ftsNot (us @ t # vs) (TsBinary (CHR ''!'') l r)"
| and_not: "ftsNot us n \<Longrightarrow> ftsAnd us n"
| and_more: "ftsAnd us l \<Longrightarrow> fkind t = CHR ''&'' \<Longrightarrow> ftsNot vs r \<Longrightarrow> ftsAnd (us @ t # vs) (TsBinary (CHR ''&'') l r)"
| and_next: "ftsAnd us l \<Longrightarrow> ftsNot vs r \<Longrightarrow> ftsAnd (us @ vs) (TsBinary (CHR ''&'') l r)"
| or_and: "ftsAnd us n \<Longrightarrow> ftsOr us n"
| or_more: "ftsOr us l \<Longrightarrow> fkind t = CHR ''|'' \<Longrightarrow> ftsAnd vs r \<Longrightarrow> ftsOr (us @ t # vs) (TsBinary (CHR ''|'') l r)"

lemma peekKind_simps [simp]: "peekKind [] = None" "peekKind (t # ts) = Some (fkind t)"
  by (simp_all add: peekKind_def)

lemma peekKind_Some: "peekKind ts = Some k \<longleftrightarrow> (\<exists>t r. ts = t # r \<and> fkind t = k)"
  by (cases ts) auto

lemma starts:
  "ftsPrim us n \<Longrightarrow> peekKind (us @ r) \<in> {Some (CHR ''w''), Some (CHR ''p''), Some (CHR ''('')}"
  "ftsNot us n \<Longrightarrow> peekKind (us @ r) \<in> {Some (CHR ''w''), Some (CHR ''p''), Some (CHR ''('')}"
  "ftsAnd us n \<Longrightarrow> True" "ftsOr us n \<Longrightarrow> True"
  by (induction arbitrary: r and r rule: ftsPrim_ftsNot_ftsAnd_ftsOr.inducts) auto

section \<open>Chains of operators\<close>

text \<open>The three loops of the parser: operands joined to the left until a token that stops them.\<close>

primrec chain :: "(ftsToken list \<Rightarrow> fts_parse) \<Rightarrow> (ftsToken list \<Rightarrow> bool) \<Rightarrow> (ftsToken list \<Rightarrow> ftsToken list) \<Rightarrow> char
    \<Rightarrow> nat \<Rightarrow> tsNode \<Rightarrow> ftsToken list \<Rightarrow> fts_parse" where
  "chain item stop skip op 0 l ts = Inl FtsOutOfFuel"
| "chain item stop skip op (Suc f) l ts =
     (if stop ts then Inr (l, ts)
      else bindR (item (skip ts)) (\<lambda>(m, r). chain item stop skip op f (TsBinary op l m) r))"

text \<open>Where a conjunction ends.\<close>

definition andStop :: "ftsToken list \<Rightarrow> bool" where
  "andStop ts \<longleftrightarrow> peekKind ts \<in> {None, Some (CHR '')''), Some (CHR ''|'')}"

definition skipAnd :: "ftsToken list \<Rightarrow> ftsToken list" where
  "skipAnd ts = (if peekKind ts = Some (CHR ''&'') then tl ts else ts)"

lemma loops_are_chains:
  "notLoop pe f l ts = chain (ftsPrimary pe) (\<lambda>ts. peekKind ts \<noteq> Some (CHR ''!'')) tl (CHR ''!'') f l ts"
  "andLoop pe f l ts = chain (notExpr pe) andStop skipAnd (CHR ''&'') f l ts"
  "orLoop pe f l ts = chain (andExpr pe) (\<lambda>ts. peekKind ts \<noteq> Some (CHR ''|'')) tl (CHR ''|'') f l ts"
proof -
  show "notLoop pe f l ts = chain (ftsPrimary pe) (\<lambda>ts. peekKind ts \<noteq> Some (CHR ''!'')) tl (CHR ''!'') f l ts"
    by (induction f arbitrary: l ts) (auto intro!: arg_cong [of _ _ "bindR _"])
  show "andLoop pe f l ts = chain (notExpr pe) andStop skipAnd (CHR ''&'') f l ts"
    by (induction f arbitrary: l ts) (auto simp: skipAnd_def andStop_def intro!: arg_cong [of _ _ "bindR _"])
  show "orLoop pe f l ts = chain (andExpr pe) (\<lambda>ts. peekKind ts \<noteq> Some (CHR ''|'')) tl (CHR ''|'') f l ts"
    by (induction f arbitrary: l ts) (auto intro!: arg_cong [of _ _ "bindR _"])
qed

text \<open>\<open>I\<close> is the grammar of the operands, \<open>G\<close> that of the chain; operands are read right where \<open>follow\<close> holds of the rest.\<close>

locale operator_chain =
  fixes item :: "ftsToken list \<Rightarrow> fts_parse" and stop :: "ftsToken list \<Rightarrow> bool" and skip :: "ftsToken list \<Rightarrow> ftsToken list"
    and op :: char and k :: nat and follow :: "ftsToken list \<Rightarrow> bool"
    and I :: "ftsToken list \<Rightarrow> tsNode \<Rightarrow> bool" and G :: "ftsToken list \<Rightarrow> tsNode \<Rightarrow> bool"
  assumes item_sound: "item ts = Inr (n, r) \<Longrightarrow> \<exists>us. ts = us @ r \<and> us \<noteq> [] \<and> I us n"
    and item_answers: "length ts < k \<Longrightarrow> item ts \<noteq> Inl FtsOutOfFuel"
    and item_complete: "I us n \<Longrightarrow> length (us @ r) < k \<Longrightarrow> follow r \<Longrightarrow> item (us @ r) = Inr (n, r)"
    and skip_suffix: "\<not> stop ts \<Longrightarrow> \<exists>ps. ts = ps @ skip ts"
    and chain_one: "I us n \<Longrightarrow> G us n"
    and chain_more: "G us l \<Longrightarrow> \<not> stop (ps @ vs @ r) \<Longrightarrow> skip (ps @ vs @ r) = vs @ r \<Longrightarrow> I vs m \<Longrightarrow> G (us @ ps @ vs) (TsBinary op l m)"
begin

definition loop :: "nat \<Rightarrow> tsNode \<Rightarrow> ftsToken list \<Rightarrow> fts_parse" where
  "loop = chain item stop skip op"

definition whole :: "ftsToken list \<Rightarrow> fts_parse" where
  "whole ts = bindR (item ts) (\<lambda>(l, r). loop (length r + 1) l r)"

lemma loop_sound: "loop f l ts = Inr (n, r) \<Longrightarrow> G us l \<Longrightarrow> \<exists>vs. ts = vs @ r \<and> G (us @ vs) n"
proof (induction f arbitrary: l ts us)
  case (Suc f)
  show ?case
  proof (cases "stop ts")
    case False
    with Suc.prems(1) obtain m r' where m: "item (skip ts) = Inr (m, r')" "loop f (TsBinary op l m) r' = Inr (n, r)"
      by (auto simp: loop_def)
    from skip_suffix [OF False] obtain ps where ps: "ts = ps @ skip ts" ..
    from item_sound [OF m(1)] obtain vs where vs: "skip ts = vs @ r'" "I vs m" by blast
    have "G (us @ ps @ vs) (TsBinary op l m)" using chain_more [OF Suc.prems(2), of ps vs r' m] False ps vs by simp
    from Suc.IH [OF m(2) this] obtain ws where "r' = ws @ r" "G ((us @ ps @ vs) @ ws) n" by blast
    then show ?thesis using ps vs by (intro exI [of _ "ps @ vs @ ws"]) simp
  qed (use Suc.prems in \<open>auto simp: loop_def\<close>)
qed (simp add: loop_def)

lemma skip_le: "\<not> stop ts \<Longrightarrow> length (skip ts) \<le> length ts"
  using skip_suffix by (metis length_append le_add2)

lemma item_shorter: "item ts = Inr (n, r) \<Longrightarrow> length r < length ts"
  using item_sound by fastforce

lemma loop_answers: "length ts < f \<Longrightarrow> length ts < k \<Longrightarrow> loop f l ts \<noteq> Inl FtsOutOfFuel"
proof (induction f arbitrary: l ts)
  case (Suc f)
  show ?case
  proof (cases "stop ts")
    case False
    then have le: "length (skip ts) \<le> length ts" by (rule skip_le)
    then have "item (skip ts) \<noteq> Inl FtsOutOfFuel" using item_answers Suc.prems by simp
    moreover have "loop f (TsBinary op l m) r \<noteq> Inl FtsOutOfFuel" if "item (skip ts) = Inr (m, r)" for m r
      using Suc.IH [of r] item_shorter [OF that] le Suc.prems by simp
    ultimately show ?thesis using False by (auto simp: loop_def)
  qed (simp add: loop_def)
qed simp

lemma loop_fuel: "length ts < f \<Longrightarrow> length ts < g \<Longrightarrow> loop f l ts = loop g l ts"
proof (induction f arbitrary: g l ts)
  case (Suc f)
  then obtain g' where g: "g = Suc g'" by (cases g) auto
  show ?case
  proof (cases "stop ts")
    case False
    have "loop f m r = loop g' m r" if "item (skip ts) = Inr (x, r)" for x m r
      using Suc.IH [of r g'] item_shorter [OF that] skip_le [OF False] Suc.prems g by simp
    then show ?thesis using False g by (cases "item (skip ts)") (auto simp: loop_def)
  qed (simp add: g loop_def)
qed simp

lemma loop_step:
  assumes "\<not> stop ts" "skip ts = vs @ r" "I vs m" "follow r" "length ts < k"
  shows "loop (length ts + 1) l ts = loop (length r + 1) (TsBinary op l m) r"
proof -
  have "item (vs @ r) = Inr (m, r)" using item_complete assms skip_le [OF assms(1)] by simp
  moreover from item_shorter [OF this] have "length r < length ts" using skip_le [OF assms(1)] assms(2) by (cases vs) auto
  ultimately show ?thesis using assms(1,2) loop_fuel [of r "length ts" "length r + 1"] by (simp add: loop_def)
qed

lemma chain_stop: "stop r \<Longrightarrow> loop (length r + 1) n r = Inr (n, r)"
  by (simp add: loop_def)

lemma whole_sound: "whole ts = Inr (n, r) \<Longrightarrow> \<exists>us. ts = us @ r \<and> us \<noteq> [] \<and> G us n"
proof -
  assume "whole ts = Inr (n, r)"
  then obtain l r' where l: "item ts = Inr (l, r')" "loop (length r' + 1) l r' = Inr (n, r)" by (auto simp: whole_def)
  from item_sound [OF l(1)] obtain us where us: "ts = us @ r'" "us \<noteq> []" "I us l" by blast
  from loop_sound [OF l(2) chain_one [OF us(3)]] obtain vs where "r' = vs @ r" "G (us @ vs) n" by blast
  then show ?thesis using us by (intro exI [of _ "us @ vs"]) simp
qed

lemma whole_answers:
  assumes "length ts < k"
  shows "whole ts \<noteq> Inl FtsOutOfFuel"
proof (cases "item ts")
  case (Inr x)
  then obtain l r where x: "item ts = Inr (l, r)" by (cases x) auto
  have "loop (length r + 1) l r \<noteq> Inl FtsOutOfFuel" using loop_answers [of r] item_shorter [OF x] assms by simp
  with x show ?thesis by (simp add: whole_def)
qed (use item_answers [OF assms] in \<open>simp add: whole_def\<close>)

lemma whole_one: "I us n \<Longrightarrow> length (us @ r) < k \<Longrightarrow> follow r \<Longrightarrow> whole (us @ r) = loop (length r + 1) n r"
  using item_complete by (simp add: whole_def)

end

section \<open>One level of parentheses\<close>

locale group_parsing =
  fixes pe :: group_parser and k :: nat
  assumes group_shorter: "pe ts = Inr (n, r) \<Longrightarrow> length r < length ts"
    and group_answers: "length ts < k \<Longrightarrow> pe ts \<noteq> Inl FtsOutOfFuel"
    and group_sound: "pe ts = Inr (n, r) \<Longrightarrow> \<exists>us. ts = us @ r \<and> ftsOr us n"
    and group_complete: "ftsOr us n \<Longrightarrow> length (us @ r) < k \<Longrightarrow> peekKind r \<in> {None, Some (CHR '')'')} \<Longrightarrow> pe (us @ r) = Inr (n, r)"
begin

lemma primary_sound: "ftsPrimary pe ts = Inr (n, r) \<Longrightarrow> length r < length ts \<and> (\<exists>us. ts = us @ r \<and> ftsPrim us n)"
proof (cases ts)
  case (Cons t ts')
  assume p: "ftsPrimary pe ts = Inr (n, r)"
  then consider "fkind t = CHR ''w''" "n = TsTerm (ftext t) (fstar t)" "r = ts'"
    | "fkind t = CHR ''p''" "n = TsPhrase (ftext t)" "r = ts'"
    | r' where "fkind t = CHR ''(''" "pe ts' = Inr (n, r')" "peekKind r' = Some (CHR '')'')" "r = tl r'"
    by (auto simp: ftsPrimary_def Cons split: if_splits)
  then show ?thesis
  proof cases
    case 3
    from 3(3) obtain t' r2 where r': "r' = t' # r2" "fkind t' = CHR '')''" by (auto simp: peekKind_Some)
    from group_sound [OF 3(2)] obtain us where us: "ts' = us @ r'" "ftsOr us n" by blast
    then have "ftsPrim (t # us @ [t']) n" using 3(1) r' by (auto intro: prim_group)
    then show ?thesis using us r' 3(4) Cons by (intro conjI exI [of _ "t # us @ [t']"]) simp_all
  qed (auto simp: Cons intro: prim_word prim_phrase exI [of _ "[t]"])
qed (simp add: ftsPrimary_def)

lemma primary_answers: "length ts < Suc k \<Longrightarrow> ftsPrimary pe ts \<noteq> Inl FtsOutOfFuel"
  using group_answers by (auto simp: ftsPrimary_def split: list.splits if_splits)

lemma primary_complete: "ftsPrim us n \<Longrightarrow> length (us @ r) < Suc k \<Longrightarrow> ftsPrimary pe (us @ r) = Inr (n, r)"
proof (erule ftsPrim.cases, goal_cases)
  case (3 t vs m t')
  then have "pe (vs @ t' # r) = Inr (m, t' # r)" using group_complete [of vs m "t' # r"] by simp
  with 3 show ?case by (simp add: ftsPrimary_def)
qed (simp_all add: ftsPrimary_def)

end

sublocale group_parsing \<subseteq> nots: operator_chain "ftsPrimary pe" "\<lambda>ts. peekKind ts \<noteq> Some (CHR ''!'')" tl "CHR ''!''" "Suc k" "\<lambda>_. True" ftsPrim ftsNot
proof
  show "\<exists>us. ts = us @ r \<and> us \<noteq> [] \<and> ftsPrim us n" if "ftsPrimary pe ts = Inr (n, r)" for ts n r
    using primary_sound [OF that] by fastforce
  show "\<exists>ps. ts = ps @ tl ts" if "\<not> peekKind ts \<noteq> Some (CHR ''!'')" for ts
    using that by (auto simp: peekKind_Some intro: exI [of _ "[_]"])
  show "ftsNot (us @ ps @ vs) (TsBinary (CHR ''!'') l m)"
    if "ftsNot us l" "\<not> peekKind (ps @ vs @ r) \<noteq> Some (CHR ''!'')" "tl (ps @ vs @ r) = vs @ r" "ftsPrim vs m" for us ps vs r l m
  proof -
    note h = that
    from h(2) obtain t where t: "ps @ vs @ r = t # vs @ r" "fkind t = CHR ''!''" using h(3) by (auto simp: peekKind_Some)
    then have "ps = [t]" by (cases ps) (auto dest: arg_cong [of _ _ length])
    with t h show ?thesis by (auto intro: not_more)
  qed
qed (auto intro: not_prim dest: primary_answers primary_complete)

context group_parsing
begin

lemma not_chain: "notExpr pe = nots.whole"
  by (simp add: fun_eq_iff notExpr_def nots.whole_def nots.loop_def loops_are_chains)

lemma not_chain_complete:
  "ftsPrim us n \<Longrightarrow> True"
  "ftsNot us n \<Longrightarrow> length (us @ r) < Suc k \<Longrightarrow> notExpr pe (us @ r) = nots.loop (length r + 1) n r"
  "ftsAnd us n \<Longrightarrow> True" "ftsOr us n \<Longrightarrow> True"
proof (induction arbitrary: and r rule: ftsPrim_ftsNot_ftsAnd_ftsOr.inducts)
  case (not_prim us n)
  then show ?case using nots.whole_one by (simp add: not_chain)
next
  case (not_more us l t vs m)
  then have "notExpr pe (us @ t # vs @ r) = nots.loop (length (t # vs @ r) + 1) l (t # vs @ r)" by simp
  with not_more show ?case using nots.loop_step [of "t # vs @ r" vs r m l] by simp
qed simp_all

lemma not_complete: "ftsNot us n \<Longrightarrow> length (us @ r) < Suc k \<Longrightarrow> peekKind r \<noteq> Some (CHR ''!'') \<Longrightarrow> notExpr pe (us @ r) = Inr (n, r)"
  using not_chain_complete(2) nots.chain_stop by simp

end

sublocale group_parsing \<subseteq> ands: operator_chain "notExpr pe" andStop skipAnd "CHR ''&''" "Suc k"
  "\<lambda>r. peekKind r \<noteq> Some (CHR ''!'')" ftsNot ftsAnd
proof
  show "\<exists>us. ts = us @ r \<and> us \<noteq> [] \<and> ftsNot us n" if "notExpr pe ts = Inr (n, r)" for ts n r
    using nots.whole_sound that by (simp add: not_chain)
  show "notExpr pe ts \<noteq> Inl FtsOutOfFuel" if "length ts < Suc k" for ts
    using nots.whole_answers that by (simp add: not_chain)
  show "\<exists>ps. ts = ps @ skipAnd ts" for ts
    by (cases ts) (auto simp: skipAnd_def intro: exI [of _ "[_]"])
  show "ftsAnd (us @ ps @ vs) (TsBinary (CHR ''&'') l m)"
    if "ftsAnd us l" "skipAnd (ps @ vs @ r) = vs @ r" "ftsNot vs m" for us ps vs r l m
  proof (cases "peekKind (ps @ vs @ r) = Some (CHR ''&'')")
    case True
    note h = that
    from True obtain t where t: "ps @ vs @ r = t # vs @ r" "fkind t = CHR ''&''" using h(2) by (auto simp: peekKind_Some skipAnd_def)
    then have "ps = [t]" by (cases ps) (auto dest: arg_cong [of _ _ length])
    with t h show ?thesis by (auto intro: and_more)
  next
    case False
    then have "ps = []" using that(2) by (simp add: skipAnd_def)
    with that show ?thesis by (auto intro: and_next)
  qed
qed (auto intro: and_not not_complete)

context group_parsing
begin

lemma and_chain: "andExpr pe = ands.whole"
  by (simp add: fun_eq_iff andExpr_def ands.whole_def ands.loop_def loops_are_chains)

lemma and_chain_complete:
  "ftsPrim us n \<Longrightarrow> True" "ftsNot us n \<Longrightarrow> True"
  "ftsAnd us n \<Longrightarrow> length (us @ r) < Suc k \<Longrightarrow> peekKind r \<noteq> Some (CHR ''!'') \<Longrightarrow> andExpr pe (us @ r) = ands.loop (length r + 1) n r"
  "ftsOr us n \<Longrightarrow> True"
proof (induction arbitrary: and and r rule: ftsPrim_ftsNot_ftsAnd_ftsOr.inducts)
  case (and_not us n)
  then show ?case using ands.whole_one by (simp add: and_chain)
next
  case (and_more us l t vs m)
  then have "andExpr pe (us @ t # vs @ r) = ands.loop (length (t # vs @ r) + 1) l (t # vs @ r)" by simp
  moreover have "\<not> andStop (t # vs @ r)" "skipAnd (t # vs @ r) = vs @ r" using and_more.hyps(2) by (simp_all add: andStop_def skipAnd_def)
  ultimately show ?case using and_more ands.loop_step [of "t # vs @ r" vs r m l] by simp
next
  case (and_next us l vs m)
  have "\<not> andStop (vs @ r)" "skipAnd (vs @ r) = vs @ r" "peekKind (vs @ r) \<noteq> Some (CHR ''!'')"
    using starts(2) [OF and_next.hyps(2), of r] by (auto simp: andStop_def skipAnd_def)
  then show ?case using and_next ands.loop_step [of "vs @ r" vs r m l] by simp
qed simp_all

lemma and_complete:
  "ftsAnd us n \<Longrightarrow> length (us @ r) < Suc k \<Longrightarrow> andStop r \<Longrightarrow> andExpr pe (us @ r) = Inr (n, r)"
  using and_chain_complete(3) [of us n r] ands.chain_stop [of r n] by (cases "peekKind r = Some (CHR ''!'')") (simp_all, simp add: andStop_def)

end

sublocale group_parsing \<subseteq> ors: operator_chain "andExpr pe" "\<lambda>ts. peekKind ts \<noteq> Some (CHR ''|'')" tl "CHR ''|''" "Suc k"
  andStop ftsAnd ftsOr
proof
  show "\<exists>us. ts = us @ r \<and> us \<noteq> [] \<and> ftsAnd us n" if "andExpr pe ts = Inr (n, r)" for ts n r
    using ands.whole_sound that by (simp add: and_chain)
  show "andExpr pe ts \<noteq> Inl FtsOutOfFuel" if "length ts < Suc k" for ts
    using ands.whole_answers that by (simp add: and_chain)
  show "\<exists>ps. ts = ps @ tl ts" if "\<not> peekKind ts \<noteq> Some (CHR ''|'')" for ts
    using that by (auto simp: peekKind_Some intro: exI [of _ "[_]"])
  show "ftsOr (us @ ps @ vs) (TsBinary (CHR ''|'') l m)"
    if "ftsOr us l" "\<not> peekKind (ps @ vs @ r) \<noteq> Some (CHR ''|'')" "tl (ps @ vs @ r) = vs @ r" "ftsAnd vs m" for us ps vs r l m
  proof -
    note h = that
    from h(2) obtain t where t: "ps @ vs @ r = t # vs @ r" "fkind t = CHR ''|''" using h(3) by (auto simp: peekKind_Some)
    then have "ps = [t]" by (cases ps) (auto dest: arg_cong [of _ _ length])
    with t h show ?thesis by (auto intro: or_more)
  qed
qed (auto intro: or_and and_complete)

context group_parsing
begin

lemma or_chain: "orExprWith pe = ors.whole"
  by (simp add: fun_eq_iff orExprWith_def ors.whole_def ors.loop_def loops_are_chains)

lemma or_chain_complete:
  "ftsPrim us n \<Longrightarrow> True" "ftsNot us n \<Longrightarrow> True" "ftsAnd us n \<Longrightarrow> True"
  "ftsOr us n \<Longrightarrow> length (us @ r) < Suc k \<Longrightarrow> andStop r \<Longrightarrow> orExprWith pe (us @ r) = ors.loop (length r + 1) n r"
proof (induction arbitrary: and and and r rule: ftsPrim_ftsNot_ftsAnd_ftsOr.inducts)
  case (or_and us n)
  then show ?case using ors.whole_one by (simp add: or_chain)
next
  case (or_more us l t vs m)
  then have "orExprWith pe (us @ t # vs @ r) = ors.loop (length (t # vs @ r) + 1) l (t # vs @ r)" by (simp add: andStop_def)
  with or_more show ?case using ors.loop_step [of "t # vs @ r" vs r m l] by simp
qed simp_all

lemma next_level: "group_parsing (orExprWith pe) (Suc k)"
proof
  show "length r < length ts" if "orExprWith pe ts = Inr (n, r)" for ts n r
    using ors.whole_sound that by (fastforce simp: or_chain)
  show "orExprWith pe ts \<noteq> Inl FtsOutOfFuel" if "length ts < Suc k" for ts
    using ors.whole_answers that by (simp add: or_chain)
  show "\<exists>us. ts = us @ r \<and> ftsOr us n" if "orExprWith pe ts = Inr (n, r)" for ts n r
    using ors.whole_sound that by (fastforce simp: or_chain)
  show "orExprWith pe (us @ r) = Inr (n, r)"
    if "ftsOr us n" "length (us @ r) < Suc k" "peekKind r \<in> {None, Some (CHR '')'')}" for us n r
    using or_chain_complete(4) [of us n r] ors.chain_stop [of r n] that by (auto simp: andStop_def)
qed

end


section \<open>The whole parser\<close>

lemma orExpr_level: "group_parsing (orExpr d) d"
proof (induction d)
  case 0
  show ?case by unfold_locales simp_all
next
  case (Suc d)
  have "orExpr (Suc d) = orExprWith (orExpr d)" by (simp add: fun_eq_iff)
  with group_parsing.next_level [OF Suc] show ?case by simp
qed

interpretation groups: group_parsing "orExpr d" d for d
  by (rule orExpr_level)

lemma parseTokens_exact: "parseTokens ts = Inr n \<longleftrightarrow> ftsOr ts n"
proof
  assume "parseTokens ts = Inr n"
  then have "orExpr (length ts + 1) ts = Inr (n, [])" by (auto simp: parseTokens_def split: if_splits)
  from groups.group_sound [OF this] show "ftsOr ts n" by auto
next
  assume "ftsOr ts n"
  then have "orExpr (length ts + 1) (ts @ []) = Inr (n, [])" by (rule groups.group_complete) simp_all
  then show "parseTokens ts = Inr n" by (simp add: parseTokens_def del: orExpr.simps)
qed

lemma parseTokens_answers: "parseTokens ts \<noteq> Inl FtsOutOfFuel"
  using groups.group_answers [of ts "length ts + 1"]
  by (cases "orExpr (length ts + 1) ts") (auto simp: parseTokens_def simp del: orExpr.simps split: if_splits)

lemma ftsTokenize_answers: "ftsTokenize u s \<noteq> Inl FtsOutOfFuel"
proof (induction u s rule: ftsTokenize.induct)
  case (1 u s)
  have "wordToken w st \<noteq> Inl FtsOutOfFuel" for w st by (simp add: wordToken_def)
  with 1 show ?case
    by (subst ftsTokenize.simps) (auto simp: Let_def split: option.split)
qed

lemma ftsOr_not_empty: "\<not> ftsOr [] n"
proof
  assume "ftsOr [] n"
  then have "orExpr 1 ([] @ []) = Inr (n, [])" by (rule groups.group_complete [of _ _ _ 1]) simp_all
  then show False using groups.group_shorter by fastforce
qed


section \<open>Bound arguments\<close>

text \<open>The shape of a query: what is left of the tree without its texts.\<close>

datatype ts_shape = PlainTerm | PrefixTerm | Phrase | Joined char ts_shape ts_shape

primrec shapeOf :: "tsNode \<Rightarrow> ts_shape" where
  "shapeOf (TsTerm t p) = (if p then PrefixTerm else PlainTerm)"
| "shapeOf (TsPhrase t) = Phrase"
| "shapeOf (TsBinary op l r) = Joined op (shapeOf l) (shapeOf r)"

primrec leafCount :: "ts_shape \<Rightarrow> nat" where
  "leafCount PlainTerm = 1"
| "leafCount PrefixTerm = 1"
| "leafCount Phrase = 1"
| "leafCount (Joined op l r) = leafCount l + leafCount r"

definition shapeCall :: "string \<Rightarrow> nat \<Rightarrow> string" where
  "shapeCall fn i = fn @ ''('' @ [CHR 0x27] @ ''english'' @ [CHR 0x27] @ '','' @ CHR ''$'' # showNat i @ '')''"

primrec shapeSql :: "nat \<Rightarrow> ts_shape \<Rightarrow> string" where
  "shapeSql i PlainTerm = shapeCall ''plainto_tsquery'' (i + 1)"
| "shapeSql i PrefixTerm = shapeCall ''to_tsquery'' (i + 1)"
| "shapeSql i Phrase = shapeCall ''phraseto_tsquery'' (i + 1)"
| "shapeSql i (Joined op l r) =
     ''('' @ shapeSql i l @ (if op = CHR ''|'' then '' || '' else if op = CHR ''!'' then '' && !! '' else '' && '')
     @ shapeSql (i + leafCount l) r @ '')''"

primrec boundTexts :: "tsNode \<Rightarrow> string list" where
  "boundTexts (TsTerm t p) = [if p then [CHR 0x27] @ t @ [CHR 0x27] @ '':*'' else t]"
| "boundTexts (TsPhrase t) = [t]"
| "boundTexts (TsBinary op l r) = boundTexts l @ boundTexts r"

primrec prefixes_ok :: "unicode_classes \<Rightarrow> tsNode \<Rightarrow> bool" where
  "prefixes_ok u (TsTerm t p) \<longleftrightarrow> (p \<longrightarrow> simpleLexeme u t)"
| "prefixes_ok u (TsPhrase t) \<longleftrightarrow> True"
| "prefixes_ok u (TsBinary op l r) \<longleftrightarrow> prefixes_ok u l \<and> prefixes_ok u r"

lemma length_boundTexts: "length (boundTexts n) = leafCount (shapeOf n)"
  by (induction n) auto

lemma tsCall_shape:
  "tsCall fn v c = (shapeCall fn (coffset c + length (cargs c) + 1), c\<lparr>cargs := cargs c @ [v]\<rparr>)"
  by (simp add: tsCall_def param_def shapeCall_def)

lemma writeNode_ok:
  "prefixes_ok u n \<Longrightarrow> writeNode u n c = (shapeSql (coffset c + length (cargs c)) (shapeOf n), c\<lparr>cargs := cargs c @ boundTexts n\<rparr>)"
  by (induction n arbitrary: c) (auto simp: tsCall_shape length_boundTexts add.assoc)

lemma writeNode_error:
  "cerr (snd (writeNode u n c)) = None \<longleftrightarrow> cerr c = None \<and> prefixes_ok u n"
  by (induction n arbitrary: c) (auto simp: tsCall_shape Let_def split_def)

text \<open>
  C22. The text of a search query reaches the server only as bound arguments: the SQL of a compiled
  query depends on nothing but the shape of its tree, its placeholders continue the numbering
  from the offset with one for each bound text, and a bound prefix pattern quotes a word made
  of letters, digits and underscores only. A query is compiled exactly when it parses and each
  of its prefixes is such a word.
\<close>

theorem compileFTSQuery_bound:
  "compileFTSQuery u m off = Inr (sql, args) \<longleftrightarrow>
     (\<exists>n. parseFTSQuery u m = Inr n \<and> prefixes_ok u n \<and> sql = shapeSql off (shapeOf n) \<and> args = boundTexts n)"
proof -
  have "(let (sql', c) = writeNode u n \<lparr>cargs = [], coffset = off, cerr = None\<rparr> in
          case cerr c of Some e \<Rightarrow> Inl e | None \<Rightarrow> Inr (sql', cargs c)) = Inr (sql, args)
      \<longleftrightarrow> prefixes_ok u n \<and> sql = shapeSql off (shapeOf n) \<and> args = boundTexts n" for n
    using writeNode_error [of u n "\<lparr>cargs = [], coffset = off, cerr = None\<rparr>"]
      writeNode_ok [of u n "\<lparr>cargs = [], coffset = off, cerr = None\<rparr>"]
    by (cases "prefixes_ok u n") (auto simp: split_def Let_def split: option.splits)
  then show ?thesis by (auto simp: compileFTSQuery_def)
qed

end
