(* ===== verification/Store_Insert.thy ===== *)
theory Store_Insert
  imports Store_Changes Constraint_Check "HOL-Library.AList"
begin

text \<open>
  Inserting records into a SQLite namespace (\<^verbatim>\<open>internal/store/insert.go\<close>, with the idempotency
  records of \<^verbatim>\<open>idempotency.go\<close>, the request hash and sealing of \<^verbatim>\<open>secret.go\<close> and the constraint
  check of \<^verbatim>\<open>constraint_snapshot.go\<close>): the reads before the transaction, each of which may see
  another state of the database, and the write transaction, which runs alone. Any statement
  can fail; a failed commit may have been applied all the same.
\<close>

section \<open>The database\<close>

text \<open>\<open>irIds\<close> is \<open>None\<close> when the stored list does not decode.\<close>

record idem_row =
  irTable :: string
  irOwner :: string
  irKey :: string
  irHash :: string
  irIds :: "int list option"

record stored_row =
  srTable :: string
  srId :: int
  srOwner :: "string option"
  srCols :: "(string \<times> go_value) list"
  srVec :: "string option"

record table_meta =
  mVersion :: int
  mSpace :: string
  mDim :: nat

text \<open>
  The schemas and the change log are in \<open>sdLog\<close>; \<open>sdMeta\<close> holds the version and the embedding space
  of each schema, \<open>sdNext\<close> the counters of \<^verbatim>\<open>AUTOINCREMENT\<close>, \<open>sdFts\<close> the search index.
\<close>

record store_db =
  sdLog :: change_db
  sdMeta :: "(string \<times> table_meta) list"
  sdRows :: "stored_row list"
  sdNext :: "(string \<times> int) list"
  sdFts :: "(string \<times> int \<times> go_value list) list"
  sdIdem :: "idem_row list"

datatype insert_error =
    InsSql string
  | InsLog changes_error
  | ScopeTableMismatch string string
  | ScopeIncarnationChanged string
  | ReferencedDrop string string
  | KeyTooLong nat
  | NoRecords
  | TooManyRecords nat
  | KeysCollapse nat string string
  | SchemaChanging
  | IdemConflict string string
  | CorruptIdem string
  | KeyVanished string
  | UnknownField string string
  | FieldRequired string
  | BadValue coerce_error
  | FileRefused string
  | SecretNotString string
  | SecretIsMask string
  | SecretNoKey string
  | SealFailed string
  | NoEmbedder string
  | NoEmbedIdentity string
  | EmbedderChanged string string
  | EmbedFailed string
  | EmbedCount nat nat
  | ZeroDimensional string
  | NonFiniteComponent string
  | DimensionDiffers nat string nat
  | ConstraintFailed check_error

definition istmt :: "ticks \<Rightarrow> (insert_error + 'a) \<Rightarrow> insert_error + 'a" where
  "istmt tk k = (case tFault (tk []) of Some e \<Rightarrow> Inl (InsSql e) | None \<Rightarrow> k)"

definition ofLog :: "changes_error + 'a \<Rightarrow> insert_error + 'a" where
  "ofLog r = (case r of Inl e \<Rightarrow> Inl (InsLog e) | Inr x \<Rightarrow> Inr x)"

lemma istmt_Inr [simp]: "istmt tk k = Inr x \<longleftrightarrow> tFault (tk []) = None \<and> k = Inr x"
  by (simp add: istmt_def split: option.splits)

lemma ofLog_Inr [simp]: "ofLog r = Inr x \<longleftrightarrow> r = Inr x"
  by (simp add: ofLog_def split: sum.splits)

definition metaOf :: "store_db \<Rightarrow> string \<Rightarrow> table_meta" where
  "metaOf db table = (case map_of (sdMeta db) table of None \<Rightarrow> \<lparr>mVersion = 0, mSpace = '''', mDim = 0\<rparr> | Some m \<Rightarrow> m)"

definition loadTable :: "ticks \<Rightarrow> store_db \<Rightarrow> string \<Rightarrow> insert_error + table_schema \<times> table_meta" where
  "loadTable tk db table = bindR (ofLog (loadSchema tk (sdLog db) table)) (\<lambda>sc. Inr (sc, metaOf db table))"

section \<open>Idempotency records\<close>

definition LegacyIdempotencyOwner :: string where "LegacyIdempotencyOwner = ''''"

record idem_domain =
  idOwner :: string
  TableWideRead :: bool

definition FallsBackToLegacy :: "idem_domain \<Rightarrow> bool" where
  "FallsBackToLegacy d \<longleftrightarrow> idOwner d \<noteq> LegacyIdempotencyOwner \<and> TableWideRead d"

record idem_hash =
  hPrimary :: string
  hAlternates :: "string list"

definition Matches :: "idem_hash \<Rightarrow> string \<Rightarrow> bool" where
  "Matches h stored \<longleftrightarrow> stored = hPrimary h \<or> stored \<in> set (hAlternates h)"

definition idemAt :: "string \<Rightarrow> string \<Rightarrow> string \<Rightarrow> idem_row \<Rightarrow> bool" where
  "idemAt table owner key r \<longleftrightarrow> irTable r = table \<and> irOwner r = owner \<and> irKey r = key"

definition readIdem :: "ticks \<Rightarrow> store_db \<Rightarrow> string \<Rightarrow> string \<Rightarrow> string \<Rightarrow> idem_hash \<Rightarrow> insert_error + int list option" where
  "readIdem tk db table owner key want =
     istmt tk
      (case find (idemAt table owner key) (sdIdem db) of
         None \<Rightarrow> Inr None
       | Some r \<Rightarrow>
           if \<not> Matches want (irHash r) then Inl (IdemConflict key table)
           else (case irIds r of None \<Rightarrow> Inl (CorruptIdem key) | Some ids \<Rightarrow> Inr (Some ids)))"

definition lookupIdem :: "ticks \<Rightarrow> store_db \<Rightarrow> string \<Rightarrow> string \<Rightarrow> idem_hash \<Rightarrow> idem_domain \<Rightarrow> insert_error + int list option" where
  "lookupIdem tk db table key want d =
     bindR (readIdem (sub tk 0) db table (idOwner d) key want) (\<lambda>found.
       if found \<noteq> None then Inr found
       else if FallsBackToLegacy d then readIdem (sub tk 1) db table LegacyIdempotencyOwner key want
       else Inr None)"

section \<open>The request hash\<close>

type_synonym record_values = "(string \<times> go_value) list"

text \<open>
  The key of the fingerprints, if there is one, and the retired ones; \<open>heMarshal\<close> is the JSON of the
  records, \<open>heHex\<close> the hexadecimal SHA-256, \<open>heUnstorable\<close> the type and JSON of a value that has no
  stored text, and \<open>heFiles\<close> the records with their files in canonical form.
\<close>

record hash_env =
  heFinger :: "(string \<Rightarrow> string) option"
  heRetired :: "(string \<Rightarrow> string) list"
  heMarshal :: "record_values list \<Rightarrow> string + string"
  heHex :: "string \<Rightarrow> string"
  heUnstorable :: "go_value \<Rightarrow> string"
  heFiles :: "field list \<Rightarrow> record_values list \<Rightarrow> record_values list"

definition SecretFingerprint :: "hash_env \<Rightarrow> (string \<Rightarrow> string) option \<Rightarrow> go_value \<Rightarrow> string" where
  "SecretFingerprint he k v =
     (case k of
        None \<Rightarrow> ''secret-unkeyed''
      | Some fp \<Rightarrow>
          (case StoredString v of
             None \<Rightarrow> ''secret-unstorable:'' @ fp (heUnstorable he v)
           | Some stored \<Rightarrow> ''secret-'' @ (case v of VNumber _ \<Rightarrow> ''number'' | _ \<Rightarrow> ''string'') @ '':'' @ fp stored))"

definition schemaField :: "field list \<Rightarrow> string \<Rightarrow> field option" where
  "schemaField flds name = find (\<lambda>f. Name f = name) flds"

definition FingerprintSecrets :: "hash_env \<Rightarrow> (string \<Rightarrow> string) option \<Rightarrow> field list \<Rightarrow> record_values list \<Rightarrow> record_values list" where
  "FingerprintSecrets he k flds records =
     map (map (\<lambda>(name, v).
       (name, case schemaField flds name of
                Some f \<Rightarrow> if Type f = ''secret'' \<and> v \<noteq> VNil then VString (SecretFingerprint he k v) else v
              | None \<Rightarrow> v))) records"

fun hashAlternates :: "hash_env \<Rightarrow> field list \<Rightarrow> record_values list \<Rightarrow> (string \<Rightarrow> string) list \<Rightarrow> string + string list" where
  "hashAlternates he flds records [] = Inr []"
| "hashAlternates he flds records (k # ks) =
     bindR (heMarshal he (FingerprintSecrets he (Some k) flds records)) (\<lambda>raw.
     bindR (hashAlternates he flds records ks) (\<lambda>hs. Inr (heHex he raw # hs)))"

definition RequestHash :: "hash_env \<Rightarrow> field list \<Rightarrow> record_values list \<Rightarrow> string + idem_hash" where
  "RequestHash he flds records0 =
     (let records = heFiles he flds records0 in
      bindR (heMarshal he (FingerprintSecrets he (heFinger he) flds records)) (\<lambda>raw.
        if SecretFields flds = [] then Inr \<lparr>hPrimary = heHex he raw, hAlternates = []\<rparr>
        else bindR (hashAlternates he flds records (heRetired he)) (\<lambda>hs. Inr \<lparr>hPrimary = heHex he raw, hAlternates = hs\<rparr>)))"

definition payloadHash :: "hash_env \<Rightarrow> field list \<Rightarrow> record_values list \<Rightarrow> idem_hash" where
  "payloadHash he flds records =
     (case RequestHash he flds records of
        Inl e \<Rightarrow> \<lparr>hPrimary = heHex he (''marshal error: '' @ e), hAlternates = []\<rparr>
      | Inr h \<Rightarrow> h)"

section \<open>Preparing the records\<close>

text \<open>A value to be written; \<open>NowStamp\<close> becomes the time of the write inside the transaction.\<close>

datatype write_value = Given go_value | NowStamp

record write_env =
  weValue :: value_env
  weHash :: hash_env
  weLower :: "string \<Rightarrow> string"
  weTrim :: "string \<Rightarrow> string"
  weDefault :: "field \<Rightarrow> go_value"
  weFile :: "field \<Rightarrow> go_value \<Rightarrow> string + go_value"
  weSeal :: "(string \<Rightarrow> string + string) option"
  weNow :: "nat \<Rightarrow> string"
  weFinite :: "float32 \<Rightarrow> bool"

record embedder =
  Embed :: "(string list \<Rightarrow> string + float32 list list) option"
  EmbedIdentity :: string

definition MaxRecordsPerInsert :: nat where "MaxRecordsPerInsert = 1000"
definition MaxIdempotencyKeyLen :: nat where "MaxIdempotencyKeyLen = 256"

fun lowerKeys :: "(string \<Rightarrow> string) \<Rightarrow> nat \<Rightarrow> record_values \<Rightarrow> record_values \<Rightarrow> insert_error + record_values" where
  "lowerKeys lo i nr [] = Inr nr"
| "lowerKeys lo i nr ((k, v) # rec) =
     (let lk = toLower lo k in
      if map_of nr lk \<noteq> None then Inl (KeysCollapse i k lk) else lowerKeys lo i (nr @ [(lk, v)]) rec)"

fun normalizeRecords :: "(string \<Rightarrow> string) \<Rightarrow> nat \<Rightarrow> record_values list \<Rightarrow> insert_error + record_values list" where
  "normalizeRecords lo i [] = Inr []"
| "normalizeRecords lo i (rec # recs) =
     bindR (lowerKeys lo i [] rec) (\<lambda>nr. bindR (normalizeRecords lo (Suc i) recs) (\<lambda>nrs. Inr (nr # nrs)))"

type_synonym write_record = "(string \<times> write_value) list"

definition writeDefault :: "write_env \<Rightarrow> field \<Rightarrow> write_value" where
  "writeDefault we f =
     (case Default f of
        None \<Rightarrow> Given VNil
      | Some d \<Rightarrow>
          if Type f = ''timestamp'' \<and> IsNowDefault d then NowStamp
          else Given (case d of DefaultText s \<Rightarrow> VString s | DefaultOther \<Rightarrow> weDefault we f))"

definition addDefaults :: "write_env \<Rightarrow> field list \<Rightarrow> write_record \<Rightarrow> write_record" where
  "addDefaults we flds rec =
     fold (\<lambda>f dr. if map_of dr (Name f) = None \<and> Default f \<noteq> None then dr @ [(Name f, writeDefault we f)] else dr) flds rec"

definition applyInsertDefaults :: "write_env \<Rightarrow> field list \<Rightarrow> record_values list \<Rightarrow> write_record list" where
  "applyInsertDefaults we flds records =
     (let given = map (map (\<lambda>(k, v). (k, Given v))) records in
      if list_ex (\<lambda>f. Default f \<noteq> None) flds then map (addDefaults we flds) given else given)"

fun checkRecords :: "string \<Rightarrow> field list \<Rightarrow> write_record list \<Rightarrow> insert_error + unit" where
  "checkRecords table flds [] = Inr ()"
| "checkRecords table flds (rec # recs) =
     (case find (\<lambda>(k, _). schemaField flds k = None) rec of
        Some (k, _) \<Rightarrow> Inl (UnknownField k table)
      | None \<Rightarrow>
          (case find (\<lambda>f. (map_of rec (Name f) = None \<or> map_of rec (Name f) = Some (Given VNil)) \<and> Required f) flds of
             Some f \<Rightarrow> Inl (FieldRequired (Name f))
           | None \<Rightarrow> checkRecords table flds recs))"

definition SealSecret :: "(string \<Rightarrow> string + string) option \<Rightarrow> field \<Rightarrow> go_value \<Rightarrow> insert_error + go_value" where
  "SealSecret seal f cv =
     (if Type f \<noteq> ''secret'' \<or> cv = VNil then Inr cv
      else
        (case cv of
           VString plain \<Rightarrow>
             if plain = Mask then Inl (SecretIsMask (Name f))
             else (case seal of
                     None \<Rightarrow> Inl (SecretNoKey (Name f))
                   | Some s \<Rightarrow> (case s plain of Inl e \<Rightarrow> Inl (SealFailed e) | Inr blob \<Rightarrow> Inr (VBytes blob)))
         | _ \<Rightarrow> Inl (SecretNotString (Name f))))"

definition coerceWrite :: "write_env \<Rightarrow> field \<Rightarrow> write_value \<Rightarrow> insert_error + write_value" where
  "coerceWrite we f v =
     (case v of
        NowStamp \<Rightarrow> Inr NowStamp
      | Given g \<Rightarrow>
          if Type f = ''file'' then (case weFile we f g of Inl e \<Rightarrow> Inl (FileRefused e) | Inr x \<Rightarrow> Inr (Given x))
          else (case Coerce (weValue we) f g of
                  Inl e \<Rightarrow> Inl (BadValue e)
                | Inr cv \<Rightarrow> bindR (SealSecret (weSeal we) f cv) (\<lambda>x. Inr (Given x))))"

fun coerceRow :: "write_env \<Rightarrow> write_record \<Rightarrow> field list \<Rightarrow> insert_error + write_record" where
  "coerceRow we rec [] = Inr []"
| "coerceRow we rec (f # fs) =
     (case map_of rec (Name f) of
        None \<Rightarrow> coerceRow we rec fs
      | Some v \<Rightarrow> bindR (coerceWrite we f v) (\<lambda>cv. bindR (coerceRow we rec fs) (\<lambda>cols. Inr ((Name f, cv) # cols))))"

fun coerceRows :: "write_env \<Rightarrow> field list \<Rightarrow> write_record list \<Rightarrow> insert_error + (write_record \<times> write_record) list" where
  "coerceRows we flds [] = Inr []"
| "coerceRows we flds (rec # recs) =
     bindR (coerceRow we rec flds) (\<lambda>cols. bindR (coerceRows we flds recs) (\<lambda>rows. Inr ((rec, cols) # rows)))"

section \<open>Embeddings\<close>

text \<open>The checks on the vectors; the dimension of the table is set by the first one.\<close>

fun checkVectors :: "(float32 \<Rightarrow> bool) \<Rightarrow> string \<Rightarrow> nat \<Rightarrow> float32 list list \<Rightarrow> insert_error + nat" where
  "checkVectors fin table d [] = Inr d"
| "checkVectors fin table d (v # vs) =
     (if v = [] then Inl (ZeroDimensional table)
      else if \<not> list_all fin v then Inl (NonFiniteComponent table)
      else if d = 0 then checkVectors fin table (length v) vs
      else if length v \<noteq> d then Inl (DimensionDiffers (length v) table d)
      else checkVectors fin table d vs)"

definition embedTexts ::
    "(float32 \<Rightarrow> bool) \<Rightarrow> table_meta \<Rightarrow> string \<Rightarrow> string list \<Rightarrow> embedder \<Rightarrow> insert_error + float32 list list \<times> nat" where
  "embedTexts fin m table texts emb =
     (case Embed emb of
        None \<Rightarrow> Inl (NoEmbedder table)
      | Some run \<Rightarrow>
          if EmbedIdentity emb = '''' then Inl (NoEmbedIdentity table)
          else if mSpace m \<noteq> '''' \<and> mSpace m \<noteq> EmbedIdentity emb then Inl (EmbedderChanged (mSpace m) (EmbedIdentity emb))
          else
            (case run texts of
               Inl e \<Rightarrow> Inl (EmbedFailed e)
             | Inr vecs \<Rightarrow>
                 if length vecs \<noteq> length texts then Inl (EmbedCount (length vecs) (length texts))
                 else bindR (checkVectors fin table (mDim m) vecs) (\<lambda>d. Inr (vecs, d))))"

definition textOf :: "string \<Rightarrow> write_record \<Rightarrow> string option" where
  "textOf name rec =
     (case map_of rec name of Some (Given (VString t)) \<Rightarrow> if t = '''' then None else Some t | _ \<Rightarrow> None)"

fun spread :: "string option list \<Rightarrow> 'a list \<Rightarrow> 'a option list" where
  "spread [] vs = []"
| "spread (None # ts) vs = None # spread ts vs"
| "spread (Some t # ts) [] = None # spread ts []"
| "spread (Some t # ts) (v # vs) = Some v # spread ts vs"

text \<open>The vector of each record, and the dimension of the table afterwards.\<close>

definition embedRecords ::
    "write_env \<Rightarrow> field list \<Rightarrow> table_meta \<Rightarrow> string \<Rightarrow> embedder \<Rightarrow> write_record list \<Rightarrow> insert_error + float32 list option list \<times> nat" where
  "embedRecords we flds m table emb records =
     (case VectorizeField flds of
        None \<Rightarrow> Inr (map (\<lambda>_. None) records, mDim m)
      | Some vf \<Rightarrow>
          let ts = map (textOf (Name vf)) records; texts = List.map_filter (\<lambda>t. t) ts in
          if texts = [] then Inr (map (\<lambda>_. None) records, mDim m)
          else bindR (embedTexts (weFinite we) m table texts emb) (\<lambda>(vecs, d). Inr (spread ts vecs, d)))"

section \<open>The constraint check\<close>

definition scalarField :: "field \<Rightarrow> bool" where
  "scalarField f \<longleftrightarrow> Type f \<in> {''string'', ''text'', ''number'', ''boolean'', ''timestamp''}"

definition constraintRow :: "table_schema \<Rightarrow> stored_row \<Rightarrow> int \<times> row" where
  "constraintRow sc r =
     (srId r, \<lparr>Values = map (\<lambda>f. (Name f, cell (srCols r) (Name f))) (filter scalarField (TFields sc)),
               Owner = (if HasOwner sc then srOwner r else None)\<rparr>)"

definition constraintRows :: "store_db \<Rightarrow> string \<Rightarrow> table_schema \<Rightarrow> (int \<times> row) list" where
  "constraintRows db name sc = map (constraintRow sc) (filter (\<lambda>r. srTable r = name) (sdRows db))"

text \<open>The tables the selected constraints read: those with constraints left, and their parents.\<close>

definition neededTables :: "catalog \<Rightarrow> string list" where
  "neededTables tables =
     concat (map (\<lambda>(name, t).
       case Schema t of None \<Rightarrow> []
       | Some sc \<Rightarrow>
           (if TConstraints sc \<noteq> [] then [name] else [])
           @ List.map_filter (\<lambda>c. if Kind c = ConstraintForeignKey then map_option RefTable (References c) else None) (TConstraints sc)) tables)"

definition schemaCatalog :: "store_db \<Rightarrow> (string \<times> table_schema) list \<Rightarrow> catalog" where
  "schemaCatalog db scs = map (\<lambda>(name, sc). (name, \<lparr>Schema = Some sc, Rows = []\<rparr>)) scs"

fun allSchemas :: "(string \<times> table_schema option) list \<Rightarrow> insert_error + (string \<times> table_schema) list" where
  "allSchemas [] = Inr []"
| "allSchemas ((name, None) # rest) = Inl (InsLog (CorruptSchema name))"
| "allSchemas ((name, Some sc) # rest) = bindR (allSchemas rest) (\<lambda>scs. Inr ((name, sc) # scs))"

definition sqliteConstraintSnapshot :: "ticks \<Rightarrow> store_db \<Rightarrow> table_schema \<Rightarrow> bool \<Rightarrow> insert_error + catalog" where
  "sqliteConstraintSnapshot tk db changed incoming =
     istmt (sub tk 0)
      (bindR (allSchemas (schemas (sdLog db))) (\<lambda>scs.
       let tables = SelectChecks (schemaCatalog db (AList.update (TName changed) changed scs)) (TName changed) incoming;
           needed = neededTables tables in
       istmt (sub tk 1)
        (Inr (map (\<lambda>(name, t).
           (name, if name \<in> set needed then t\<lparr>Rows := (case Schema t of None \<Rightarrow> [] | Some sc \<Rightarrow> constraintRows db name sc)\<rparr> else t)) tables))))"

definition checkSQLiteConstraints :: "write_env \<Rightarrow> ctx \<Rightarrow> ticks \<Rightarrow> store_db \<Rightarrow> table_schema \<Rightarrow> bool \<Rightarrow> insert_error + unit" where
  "checkSQLiteConstraints we cx tk db sc incoming =
     (if TConstraints sc = [] \<and> \<not> (incoming \<and> AcceptReferences sc) then Inr ()
      else
        bindR (sqliteConstraintSnapshot tk db sc incoming) (\<lambda>tables.
          case CheckCatalog (weValue we) (weLower we) (weTrim we) cx tables of Inl e \<Rightarrow> Inl (ConstraintFailed e) | Inr _ \<Rightarrow> Inr ()))"

section \<open>Writing rows\<close>

definition stampOwner :: "table_schema \<Rightarrow> string \<Rightarrow> string" where
  "stampOwner sc owner = (if HasOwner sc then owner else '''')"

definition stampNow :: "string \<Rightarrow> write_value \<Rightarrow> go_value" where
  "stampNow now v = (case v of NowStamp \<Rightarrow> VString now | Given g \<Rightarrow> g)"

text \<open>The indexed text of a value that is no text is left to the printing of values.\<close>

definition ftsText :: "write_value option \<Rightarrow> go_value" where
  "ftsText v = (case v of None \<Rightarrow> VNil | Some (Given g) \<Rightarrow> g | Some NowStamp \<Rightarrow> VString ''{}'')"

text \<open>One \<^verbatim>\<open>INSERT\<close> and, where the table is searched, the row of its index.\<close>

definition execInsertWithFTS ::
    "ticks \<Rightarrow> string \<Rightarrow> field list \<Rightarrow> write_record \<Rightarrow> (string \<times> go_value) list \<Rightarrow> float32 list option \<Rightarrow> string \<Rightarrow> store_db
       \<Rightarrow> insert_error + int \<times> store_db" where
  "execInsertWithFTS tk table fts rec cols vec owner db =
     istmt (sub tk 0)
      (let i = (case map_of (sdNext db) table of None \<Rightarrow> 1 | Some n \<Rightarrow> n + 1) in
       if i > maxInt64 then Inl (InsSql ''full'')
       else
         let db = db\<lparr>sdRows := sdRows db @ [\<lparr>srTable = table, srId = i, srOwner = (if owner = '''' then None else Some owner),
                       srCols = cols, srVec = map_option EncodeVector vec\<rparr>],
                     sdNext := AList.update table i (sdNext db)\<rparr> in
         if fts = [] then Inr (i, db)
         else istmt (sub tk 1)
           (Inr (i, db\<lparr>sdFts := sdFts db @ [(table, i, map (\<lambda>f. ftsText (map_of rec (Name f))) fts)]\<rparr>)))"

fun insertRows ::
    "write_env \<Rightarrow> ticks \<Rightarrow> string \<Rightarrow> field list \<Rightarrow> string \<Rightarrow> nat \<Rightarrow> ((write_record \<times> write_record) \<times> float32 list option) list \<Rightarrow> store_db
       \<Rightarrow> insert_error + int list \<times> store_db" where
  "insertRows we tk table fts owner k [] db = Inr ([], db)"
| "insertRows we tk table fts owner k (((rec, cols), vec) # rows) db =
     bindR (execInsertWithFTS (sub tk k) table fts rec (map (\<lambda>(n, v). (n, stampNow (weNow we k) v)) cols) vec owner db) (\<lambda>(i, db).
     bindR (insertRows we tk table fts owner (Suc k) rows db) (\<lambda>(ids, db). Inr (i # ids, db)))"

definition saveMeta :: "ticks \<Rightarrow> string \<Rightarrow> table_schema \<Rightarrow> table_meta \<Rightarrow> store_db \<Rightarrow> insert_error + store_db" where
  "saveMeta tk table sc m db =
     istmt (sub tk 0) (istmt (sub tk 1)
       (Inr (db\<lparr>sdMeta := AList.update table m (sdMeta db),
                sdLog := (sdLog db)\<lparr>schemas := AList.update table (Some sc) (schemas (sdLog db))\<rparr>\<rparr>)))"

section \<open>One attempt\<close>

record insert_answer =
  anIds :: "int list"
  anChanges :: change_range
  anReplayed :: bool

definition noChanges :: change_range where
  "noChanges = \<lparr>First = 0, Last = 0, Count = 0\<rparr>"

definition replay :: "int list \<Rightarrow> insert_answer" where
  "replay ids = \<lparr>anIds = ids, anChanges = noChanges, anReplayed = True\<rparr>"

text \<open>\<open>Again\<close>: the schema changed under the attempt.\<close>

datatype attempt = Done "insert_error + insert_answer" | Again

record insert_request =
  iqTable :: string
  iqRecords :: "record_values list"
  iqEmb :: embedder
  iqKey :: string
  iqOwner :: string
  iqDomain :: idem_domain

record prepared =
  ppSchema :: table_schema
  ppMeta :: table_meta
  ppGen :: int
  ppHash :: idem_hash
  ppDim :: nat
  ppRows :: "((write_record \<times> write_record) \<times> float32 list option) list"

text \<open>The part before the transaction: a replay found, or what is to be written. \<open>dbs i\<close> is what the \<open>i\<close>-th read sees.\<close>

definition prepareInsert :: "write_env \<Rightarrow> ticks \<Rightarrow> (nat \<Rightarrow> store_db) \<Rightarrow> insert_request \<Rightarrow> insert_error + insert_answer + prepared" where
  "prepareInsert we tk dbs q =
     bindR (ofLog (tableGen (sub tk 0) (sdLog (dbs 0)) (iqTable q))) (\<lambda>gen.
     bindR (loadTable (sub tk 1) (dbs 1) (iqTable q)) (\<lambda>(sc, m).
     let hash = payloadHash (weHash we) (TFields sc) (iqRecords q) in
     bindR (if iqKey q = '''' then Inr None else lookupIdem (sub tk 2) (dbs 2) (iqTable q) (iqKey q) hash (iqDomain q)) (\<lambda>found.
       case found of
         Some ids \<Rightarrow> Inr (Inl (replay ids))
       | None \<Rightarrow>
           let records = applyInsertDefaults we (TFields sc) (iqRecords q) in
           bindR (checkRecords (iqTable q) (TFields sc) records) (\<lambda>_.
           bindR (coerceRows we (TFields sc) records) (\<lambda>rows.
           bindR (embedRecords we (TFields sc) m (iqTable q) (iqEmb q) records) (\<lambda>(vecs, d).
             Inr (Inr \<lparr>ppSchema = sc, ppMeta = m, ppGen = gen, ppHash = hash, ppDim = d, ppRows = zip rows vecs\<rparr>)))))))"

definition metaAfter :: "insert_request \<Rightarrow> prepared \<Rightarrow> table_meta" where
  "metaAfter q p =
     (ppMeta p)\<lparr>mSpace := (if mSpace (ppMeta p) = '''' \<and> EmbedIdentity (iqEmb q) \<noteq> '''' then EmbedIdentity (iqEmb q) else mSpace (ppMeta p)),
                mDim := ppDim p\<rparr>"

definition insertIdem :: "ticks \<Rightarrow> insert_request \<Rightarrow> prepared \<Rightarrow> int list \<Rightarrow> store_db \<Rightarrow> (string option) + store_db" where
  "insertIdem tk q p ids db =
     (case tFault (tk []) of
        Some e \<Rightarrow> Inl (Some e)
      | None \<Rightarrow>
          if list_ex (idemAt (iqTable q) (idOwner (iqDomain q)) (iqKey q)) (sdIdem db) then Inl None
          else Inr (db\<lparr>sdIdem := sdIdem db @ [\<lparr>irTable = iqTable q, irOwner = idOwner (iqDomain q), irKey = iqKey q,
                         irHash = hPrimary (ppHash p), irIds = Some ids\<rparr>]\<rparr>))"

text \<open>
  The write transaction on the database \<open>db\<close>; \<open>late\<close> is the database read after a rollback. The rows
  are written, then the change records, the idempotency record, and the constraints are checked.
\<close>

definition writeAll :: "write_env \<Rightarrow> ticks \<Rightarrow> string \<Rightarrow> insert_request \<Rightarrow> prepared \<Rightarrow> store_db \<Rightarrow> insert_error + (int list \<times> change_range) \<times> store_db" where
  "writeAll we tk stampAt q p db =
     (let sc = ppSchema p; owner = stampOwner sc (iqOwner q); vecs = map snd (ppRows p) in
      bindR (insertRows we (sub tk 0) (iqTable q) (FTSFields (TFields sc)) owner 0 (ppRows p) db) (\<lambda>(ids, db).
      bindR (if list_ex (\<lambda>v. v \<noteq> None) vecs \<and> (mSpace (ppMeta p) = '''' \<or> mDim (ppMeta p) = 0)
             then saveMeta (sub tk 1) (iqTable q) sc (metaAfter q p) db else Inr db) (\<lambda>db.
      bindR (ofLog (mintChanges (sub tk 2) stampAt 0 (iqTable q) ''insert'' ids (sameOwner owner (length ids)) (sdLog db))) (\<lambda>((changes, _), lg).
        Inr ((ids, changes), db\<lparr>sdLog := lg\<rparr>)))))"

definition finishInsert ::
    "write_env \<Rightarrow> ctx \<Rightarrow> ticks \<Rightarrow> insert_request \<Rightarrow> prepared \<Rightarrow> store_db \<Rightarrow> (int list \<times> change_range) \<times> store_db \<Rightarrow> attempt \<times> store_db" where
  "finishInsert we cx tk q p prev w =
     (case w of ((ids, changes), db) \<Rightarrow>
        (case checkSQLiteConstraints we cx (sub tk 0) db (ppSchema p) False of
           Inl e \<Rightarrow> (Done (Inl e), prev)
         | Inr _ \<Rightarrow>
             (case tFault (tk [1]) of
                Some e \<Rightarrow> (Done (Inl (InsSql e)), if tDraw (tk [1]) = None then prev else db)
              | None \<Rightarrow> (Done (Inr \<lparr>anIds = ids, anChanges = changes, anReplayed = False\<rparr>), db))))"

text \<open>The reads of the transaction: nothing when the schema moved, or what is recorded for the key.\<close>

definition txReads :: "ticks \<Rightarrow> insert_request \<Rightarrow> prepared \<Rightarrow> store_db \<Rightarrow> insert_error + int list option option" where
  "txReads tk q p db =
     istmt (sub tk 0)
      (bindR (loadTable (sub tk 1) db (iqTable q)) (\<lambda>(sc, m).
       bindR (ofLog (tableGen (sub tk 2) (sdLog db) (iqTable q))) (\<lambda>gen.
         if mVersion m \<noteq> mVersion (ppMeta p) \<or> mSpace m \<noteq> mSpace (ppMeta p) \<or> mDim m \<noteq> mDim (ppMeta p) \<or> gen \<noteq> ppGen p
         then Inr None
         else if iqKey q = '''' then Inr (Some None)
         else bindR (lookupIdem (sub tk 3) db (iqTable q) (iqKey q) (ppHash p) (iqDomain q)) (\<lambda>found. Inr (Some found)))))"

text \<open>Its writes; a key that was recorded in between is read again after the rollback.\<close>

definition txWrites :: "write_env \<Rightarrow> ctx \<Rightarrow> ticks \<Rightarrow> string \<Rightarrow> insert_request \<Rightarrow> prepared \<Rightarrow> store_db \<Rightarrow> store_db \<Rightarrow> attempt \<times> store_db" where
  "txWrites we cx tk stampAt q p db late =
     (case writeAll we (sub tk 4) stampAt q p db of
        Inl e \<Rightarrow> (Done (Inl e), db)
      | Inr ((ids, changes), db') \<Rightarrow>
          if iqKey q = '''' then finishInsert we cx (sub tk 5) q p db ((ids, changes), db')
          else
            (case insertIdem (sub tk 6) q p ids db' of
               Inl (Some e) \<Rightarrow> (Done (Inl (InsSql e)), db)
             | Inl None \<Rightarrow>
                 (Done (istmt (sub tk 8) (bindR (lookupIdem (sub tk 7) late (iqTable q) (iqKey q) (ppHash p) (iqDomain q)) (\<lambda>found.
                    case found of None \<Rightarrow> Inl (KeyVanished (iqKey q)) | Some ids \<Rightarrow> Inr (replay ids)))), db)
             | Inr db'' \<Rightarrow> finishInsert we cx (sub tk 5) q p db ((ids, changes), db'')))"

definition insertTx :: "write_env \<Rightarrow> ctx \<Rightarrow> ticks \<Rightarrow> string \<Rightarrow> insert_request \<Rightarrow> prepared \<Rightarrow> store_db \<Rightarrow> store_db \<Rightarrow> attempt \<times> store_db" where
  "insertTx we cx tk stampAt q p db late =
     (case txReads tk q p db of
        Inl e \<Rightarrow> (Done (Inl e), db)
      | Inr None \<Rightarrow> (Again, db)
      | Inr (Some (Some ids)) \<Rightarrow> (Done (Inr (replay ids)), db)
      | Inr (Some None) \<Rightarrow> txWrites we cx tk stampAt q p db late)"

section \<open>Inserting\<close>

text \<open>What one attempt meets: the databases its reads see, the one its transaction runs on, and the one after a rollback.\<close>

record insert_view =
  ivReads :: "nat \<Rightarrow> store_db"
  ivTx :: store_db
  ivLate :: store_db

definition insertAttempt :: "write_env \<Rightarrow> ctx \<Rightarrow> ticks \<Rightarrow> string \<Rightarrow> insert_request \<Rightarrow> insert_view \<Rightarrow> attempt \<times> store_db" where
  "insertAttempt we cx tk stampAt q v =
     (case prepareInsert we (sub tk 0) (ivReads v) q of
        Inl e \<Rightarrow> (Done (Inl e), ivTx v)
      | Inr (Inl a) \<Rightarrow> (Done (Inr a), ivTx v)
      | Inr (Inr p) \<Rightarrow> insertTx we cx (sub tk 1) stampAt q p (ivTx v) (ivLate v))"

text \<open>The attempts; the second component is the database the last one leaves.\<close>

function insertLoop ::
    "write_env \<Rightarrow> ctx \<Rightarrow> ticks \<Rightarrow> string \<Rightarrow> insert_request \<Rightarrow> (nat \<Rightarrow> insert_view) \<Rightarrow> nat \<Rightarrow> (insert_error + insert_answer) \<times> store_db" where
  "insertLoop we cx tk stampAt q vs i =
     (case insertAttempt we (under cx i) (sub tk i) stampAt q (vs i) of
        (Done r, db) \<Rightarrow> (r, db)
      | (Again, db) \<Rightarrow> if i \<ge> 2 then (Inl SchemaChanging, db) else insertLoop we cx tk stampAt q vs (Suc i))"
  by pat_completeness auto
termination by (relation "measure (\<lambda>(we, cx, tk, stampAt, q, vs, i). 2 - i)") auto

declare insertLoop.simps [simp del]

text \<open>Opening the namespace can fail, at the first address.\<close>

definition storeInsert ::
    "write_env \<Rightarrow> ctx \<Rightarrow> ticks \<Rightarrow> string \<Rightarrow> insert_request \<Rightarrow> (nat \<Rightarrow> insert_view) \<Rightarrow> (insert_error + insert_answer) \<times> store_db" where
  "storeInsert we cx tk stampAt q vs =
     (if iqRecords q = [] then (Inl NoRecords, ivTx (vs 0))
      else if length (iqRecords q) > MaxRecordsPerInsert then (Inl (TooManyRecords (length (iqRecords q))), ivTx (vs 0))
      else
        (case istmt (sub tk 0) (normalizeRecords (weLower we) 0 (iqRecords q)) of
           Inl e \<Rightarrow> (Inl e, ivTx (vs 0))
         | Inr records \<Rightarrow> insertLoop we cx (sub tk 1) stampAt (q\<lparr>iqRecords := records\<rparr>) vs 0))"

definition checkScopeIncarnation :: "ticks \<Rightarrow> store_db \<Rightarrow> string \<Rightarrow> incarnation \<Rightarrow> insert_error + unit" where
  "checkScopeIncarnation tk db table want =
     (if want = noIncarnation then Inr ()
      else if IncTable want \<noteq> table then Inl (ScopeTableMismatch (IncTable want) table)
      else
        bindR (loadTable (sub tk 0) db table) (\<lambda>(_, m).
        bindR (ofLog (tableGen (sub tk 1) (sdLog db) table)) (\<lambda>dropGen.
        bindR (ofLog (readNSGen (sub tk 2) (sdLog db))) (\<lambda>gen.
          if \<lparr>NsGen = gen, IncTable = table, IncVersion = mVersion m, DropGen = dropGen\<rparr> \<noteq> want
          then Inl (ScopeIncarnationChanged table) else Inr ()))))"

definition guardIncarnation :: "ticks \<Rightarrow> store_db \<Rightarrow> string \<Rightarrow> incarnation \<Rightarrow> insert_error + unit" where
  "guardIncarnation tk db table want =
     (if want = noIncarnation then Inr ()
      else istmt (sub tk 0) (checkScopeIncarnation (sub tk 1) db table want))"

text \<open>The whole call; \<open>seen\<close> is the database the guard reads.\<close>

definition Insert ::
    "write_env \<Rightarrow> ctx \<Rightarrow> ticks \<Rightarrow> string \<Rightarrow> insert_request \<Rightarrow> incarnation \<Rightarrow> store_db \<Rightarrow> (nat \<Rightarrow> insert_view)
       \<Rightarrow> (insert_error + insert_answer) \<times> store_db" where
  "Insert we cx tk stampAt q inc seen vs =
     (case guardIncarnation (sub tk 0) seen (iqTable q) inc of
        Inl e \<Rightarrow> (Inl e, ivTx (vs 0))
      | Inr _ \<Rightarrow>
          if length (iqKey q) > MaxIdempotencyKeyLen then (Inl (KeyTooLong (length (iqKey q))), ivTx (vs 0))
          else storeInsert we cx (sub tk 1) stampAt q vs)"

section \<open>Dropping a table\<close>

definition sqliteReferencing :: "ticks \<Rightarrow> store_db \<Rightarrow> string \<Rightarrow> insert_error + string list" where
  "sqliteReferencing tk db table =
     istmt tk (bindR (allSchemas (schemas (sdLog db))) (\<lambda>scs. Inr (ReferencingTables (map (Some \<circ> snd) scs) table)))"

definition RefuseReferencedDrop :: "string \<Rightarrow> string list \<Rightarrow> insert_error + unit" where
  "RefuseReferencedDrop table referencing =
     (case referencing of [] \<Rightarrow> Inr () | r # _ \<Rightarrow> Inl (ReferencedDrop table r))"

text \<open>A run of statements that can only fail.\<close>

fun stmts :: "ticks \<Rightarrow> nat \<Rightarrow> (insert_error + 'a) \<Rightarrow> insert_error + 'a" where
  "stmts tk 0 k = k"
| "stmts tk (Suc n) k = stmts tk n (istmt (sub tk n) k)"

text \<open>Everything the database keeps of a table, in one transaction; its drop counter goes up.\<close>

definition withoutTable :: "string \<Rightarrow> store_db \<Rightarrow> store_db" where
  "withoutTable table db =
     db\<lparr>sdLog := (sdLog db)\<lparr>schemas := AList.delete table (schemas (sdLog db)),
                    dropGens := AList.update table (case map_of (dropGens (sdLog db)) table of None \<Rightarrow> 1 | Some g \<Rightarrow> g + 1) (dropGens (sdLog db))\<rparr>,
        sdMeta := AList.delete table (sdMeta db),
        sdRows := filter (\<lambda>r. srTable r \<noteq> table) (sdRows db),
        sdNext := AList.delete table (sdNext db),
        sdFts := filter (\<lambda>(t, _). t \<noteq> table) (sdFts db),
        sdIdem := filter (\<lambda>r. irTable r \<noteq> table) (sdIdem db)\<rparr>"

text \<open>
  The statements on the tables of migrations, row counts, staged embeddings, batches and imports
  are among those that can only fail.
\<close>

definition DropTable :: "ticks \<Rightarrow> string \<Rightarrow> incarnation \<Rightarrow> store_db \<Rightarrow> (insert_error + unit) \<times> store_db" where
  "DropTable tk table inc db =
     (case stmts (sub tk 0) 2
            (bindR (loadTable (sub tk 1) db table) (\<lambda>_.
             bindR (checkScopeIncarnation (sub tk 2) db table inc) (\<lambda>_.
             bindR (sqliteReferencing (sub tk 3) db table) (\<lambda>referencing.
             bindR (RefuseReferencedDrop table referencing) (\<lambda>_.
               stmts (sub tk 4) 10 (Inr ())))))) of
        Inl e \<Rightarrow> (Inl e, db)
      | Inr _ \<Rightarrow>
          (case tFault (tk [5]) of
             Some e \<Rightarrow> (Inl (InsSql e), if tDraw (tk [5]) = None then db else withoutTable table db)
           | None \<Rightarrow> (Inr (), withoutTable table db)))"

end
