(* ===== verification/Store_Insert_Props.thy ===== *)
theory Store_Insert_Props
  imports Store_Insert Constraint_Catalog
begin

text \<open>
  What an insert promises: a keyed insert is applied at most once however often it is sent and
  whatever fails, a retry answers the ids of the rows already written, and a committed insert
  leaves every declared constraint of the namespace satisfied.
\<close>

section \<open>What the parts of an insert change\<close>

lemma execInsertWithFTS_effect:
  assumes "execInsertWithFTS tk table fts rec cols vec owner db = Inr (i, db')"
  shows "sdIdem db' = sdIdem db" "sdLog db' = sdLog db" "sdMeta db' = sdMeta db"
    "\<exists>r. sdRows db' = sdRows db @ [r] \<and> srTable r = table \<and> srId r = i"
  using assms by (auto simp: execInsertWithFTS_def Let_def split: if_splits)

lemma insertRows_effect:
  assumes "insertRows we tk table fts owner k rows db = Inr (ids, db')"
  shows "sdIdem db' = sdIdem db \<and> sdLog db' = sdLog db \<and> sdMeta db' = sdMeta db \<and> length ids = length rows
    \<and> (\<exists>new. sdRows db' = sdRows db @ new \<and> map srId new = ids \<and> (\<forall>r \<in> set new. srTable r = table))"
  using assms
proof (induction rows arbitrary: k db ids db')
  case (Cons row rows)
  obtain rec cols vec where row: "row = ((rec, cols), vec)" by (cases row) auto
  from Cons.prems obtain i db1 ids1 where
    one: "execInsertWithFTS (sub tk k) table fts rec (map (\<lambda>(n, v). (n, stampNow (weNow we k) v)) cols) vec owner db = Inr (i, db1)"
    and rest: "insertRows we tk table fts owner (Suc k) rows db1 = Inr (ids1, db')" and ids: "ids = i # ids1"
    unfolding row by auto
  from Cons.IH [OF rest] execInsertWithFTS_effect [OF one] show ?case unfolding ids by fastforce
qed simp

lemma insertChanges_schemas:
  "insertChanges tk at' table kind gen dropGen commit k first final xs db = Inr (r, db') \<Longrightarrow> schemas db' = schemas db"
proof (induction xs arbitrary: k first final db)
  case (Cons x xs)
  then show ?case by (cases x) (fastforce simp: insertChange_def Let_def split: if_splits)
qed simp

lemma mintChanges_schemas:
  "mintChanges tk at' w table kind ids owners db = Inr (r, db') \<Longrightarrow> schemas db' = schemas db"
  by (auto simp: mintChanges_def changeCommit_def tableGen_def readNSGen_def split: if_splits dest!: insertChanges_schemas)

lemma update_same [simp]: "map_of al k = Some v \<Longrightarrow> AList.update k v al = al"
  by (induction al) (auto split: if_splits)

text \<open>The effect of the writes: rows of the table, and no idempotency record yet.\<close>

lemma writeAll_idem: "writeAll we tk stampAt q p db = Inr (w, db') \<Longrightarrow> sdIdem db' = sdIdem db"
  by (auto simp: writeAll_def Let_def saveMeta_def split: if_splits dest!: insertRows_effect)

lemma writeAll_effect:
  assumes "writeAll we tk stampAt q p db = Inr ((ids, changes), db')"
    and "map_of (schemas (sdLog db)) (iqTable q) = Some (Some (ppSchema p))"
  shows "sdIdem db' = sdIdem db" "schemas (sdLog db') = schemas (sdLog db)" "length ids = length (ppRows p)"
    "\<exists>new. sdRows db' = sdRows db @ new \<and> map srId new = ids \<and> (\<forall>r \<in> set new. srTable r = iqTable q)"
  using assms
  by (auto simp: writeAll_def Let_def saveMeta_def split: if_splits dest!: insertRows_effect mintChanges_schemas)

section \<open>The outcomes of an attempt\<close>

text \<open>The drop counter of a table.\<close>

definition genOf :: "store_db \<Rightarrow> string \<Rightarrow> int" where
  "genOf db table = (case map_of (dropGens (sdLog db)) table of None \<Rightarrow> 0 | Some g \<Rightarrow> g)"

lemma tableGen_genOf: "tableGen tk (sdLog db) table = Inr g \<longleftrightarrow> tFault (tk []) = None \<and> g = genOf db table"
  by (auto simp: tableGen_def genOf_def)

definition idemKey :: "idem_row \<Rightarrow> string \<times> string \<times> string" where
  "idemKey r = (irTable r, irOwner r, irKey r)"

definition requestKey :: "insert_request \<Rightarrow> string \<times> string \<times> string" where
  "requestKey q = (iqTable q, idOwner (iqDomain q), iqKey q)"

lemma idemAt_key: "idemAt (iqTable q) (idOwner (iqDomain q)) (iqKey q) r \<longleftrightarrow> idemKey r = requestKey q"
  by (simp add: idemAt_def idemKey_def requestKey_def)

text \<open>The record of a key, as \<^verbatim>\<open>readIdem\<close> finds it.\<close>

definition recorded :: "store_db \<Rightarrow> string \<times> string \<times> string \<Rightarrow> int list \<Rightarrow> bool" where
  "recorded db k ids \<longleftrightarrow> (\<exists>r. find (\<lambda>r. idemKey r = k) (sdIdem db) = Some r \<and> irIds r = Some ids)"

lemma recorded_unique: "recorded db k ids \<Longrightarrow> recorded db k ids' \<Longrightarrow> ids = ids'"
  by (auto simp: recorded_def)

lemma recorded_cong: "sdIdem db' = sdIdem db \<Longrightarrow> recorded db' k ids = recorded db k ids"
  by (simp add: recorded_def)

lemma readIdem_own:
  "readIdem tk db (iqTable q) (idOwner (iqDomain q)) (iqKey q) want = Inr (Some ids) \<Longrightarrow> recorded db (requestKey q) ids"
  by (auto simp: readIdem_def recorded_def idemAt_key [abs_def] split: option.splits if_splits)

lemma readIdem_none:
  "readIdem tk db (iqTable q) (idOwner (iqDomain q)) (iqKey q) want = Inr None
     \<Longrightarrow> find (\<lambda>r. idemKey r = requestKey q) (sdIdem db) = None"
  by (auto simp: readIdem_def idemAt_key [abs_def] split: option.splits if_splits)

lemma lookupIdem_own:
  assumes "lookupIdem tk db (iqTable q) (iqKey q) want (iqDomain q) = Inr (Some ids)" and "\<not> FallsBackToLegacy (iqDomain q)"
  shows "recorded db (requestKey q) ids"
  using assms by (auto simp: lookupIdem_def split: if_splits dest: readIdem_own)

lemma lookupIdem_none:
  "lookupIdem tk db (iqTable q) (iqKey q) want (iqDomain q) = Inr None
     \<Longrightarrow> find (\<lambda>r. idemKey r = requestKey q) (sdIdem db) = None"
  by (auto simp: lookupIdem_def split: if_splits dest: readIdem_none)

text \<open>The record an insert leaves.\<close>

definition idemRow :: "insert_request \<Rightarrow> prepared \<Rightarrow> int list \<Rightarrow> idem_row" where
  "idemRow q p ids = \<lparr>irTable = iqTable q, irOwner = idOwner (iqDomain q), irKey = iqKey q,
     irHash = hPrimary (ppHash p), irIds = Some ids\<rparr>"

lemma idemRow_key [simp]: "idemKey (idemRow q p ids) = requestKey q" "irIds (idemRow q p ids) = Some ids"
  "irHash (idemRow q p ids) = hPrimary (ppHash p)"
  by (simp_all add: idemRow_def idemKey_def requestKey_def)

text \<open>
  What a transaction that changed the database did: the key had no record, all rows were written,
  the record was added with their ids, and the constraints held; only the commit can have failed.
\<close>

definition applied :: "write_env \<Rightarrow> ctx \<Rightarrow> ticks \<Rightarrow> string \<Rightarrow> insert_request \<Rightarrow> prepared \<Rightarrow> store_db \<Rightarrow> int list \<Rightarrow> store_db \<Rightarrow> bool" where
  "applied we cx tk stampAt q p db ids db' \<longleftrightarrow>
     (\<exists>changes db1 m sc. writeAll we (sub tk 4) stampAt q p db = Inr ((ids, changes), db1)
        \<and> (iqKey q \<noteq> '''' \<longrightarrow> find (\<lambda>r. idemKey r = requestKey q) (sdIdem db) = None)
        \<and> db' = (if iqKey q = '''' then db1 else db1\<lparr>sdIdem := sdIdem db1 @ [idemRow q p ids]\<rparr>)
        \<and> loadTable (sub tk 1) db (iqTable q) = Inr (sc, m) \<and> mVersion m = mVersion (ppMeta p)
        \<and> genOf db (iqTable q) = ppGen p
        \<and> checkSQLiteConstraints we cx (sub (sub tk 5) 0) db' (ppSchema p) False = Inr ())"

lemma finishInsert_cases:
  assumes "finishInsert we cx tk q p before ((ids, changes), db1) = (r, db')"
  obtains e where "r = Done (Inl e)" "db' = before"
  | "checkSQLiteConstraints we cx (sub tk 0) db1 (ppSchema p) False = Inr ()" "db' = db1"
    "(\<exists>e. r = Done (Inl e)) \<or> r = Done (Inr \<lparr>anIds = ids, anChanges = changes, anReplayed = False\<rparr>)"
  using assms by (auto simp: finishInsert_def split: sum.splits option.splits if_splits)

lemma txReads_found:
  assumes "txReads tk q p db = Inr (Some found)"
  shows "\<exists>sc m. loadTable (sub tk 1) db (iqTable q) = Inr (sc, m) \<and> mVersion m = mVersion (ppMeta p)"
    and "genOf db (iqTable q) = ppGen p"
    and "iqKey q = '''' \<Longrightarrow> found = None"
    and "iqKey q \<noteq> '''' \<Longrightarrow> lookupIdem (sub tk 3) db (iqTable q) (iqKey q) (ppHash p) (iqDomain q) = Inr found"
  using assms by (auto simp: txReads_def tableGen_genOf split: if_splits)

lemma insertIdem_fresh:
  assumes "find (\<lambda>r. idemKey r = requestKey q) (sdIdem db) = None"
  shows "insertIdem tk q p ids db = (case tFault (tk []) of Some e \<Rightarrow> Inl (Some e)
           | None \<Rightarrow> Inr (db\<lparr>sdIdem := sdIdem db @ [idemRow q p ids]\<rparr>))"
proof -
  have "\<not> list_ex (idemAt (iqTable q) (idOwner (iqDomain q)) (iqKey q)) (sdIdem db)"
    using assms by (auto simp: find_None_iff list_ex_iff idemAt_key)
  then show ?thesis by (simp add: insertIdem_def idemRow_def split: option.split)
qed

text \<open>The writes are undone with an error, or applied; the key cannot have been recorded in between.\<close>

lemma txWrites_cases:
  assumes tx: "txWrites we cx tk stampAt q p db late = (r, db')" and reads: "txReads tk q p db = Inr (Some None)"
  obtains (refused) e where "r = Done (Inl e)" "db' = db"
  | (written) ids changes where "applied we cx tk stampAt q p db ids db'"
      "(\<exists>e. r = Done (Inl e)) \<or> r = Done (Inr \<lparr>anIds = ids, anChanges = changes, anReplayed = False\<rparr>)"
proof (cases "writeAll we (sub tk 4) stampAt q p db")
  case (Inl e)
  with tx show ?thesis by (auto simp: txWrites_def intro: refused)
next
  case w: (Inr w)
  obtain ids changes db1 where w': "w = ((ids, changes), db1)" by (metis prod.collapse)
  have fresh: "iqKey q \<noteq> '''' \<Longrightarrow> find (\<lambda>r. idemKey r = requestKey q) (sdIdem db) = None"
    using txReads_found(4) [OF reads] lookupIdem_none by blast
  have fin: ?thesis if f: "finishInsert we cx (sub tk 5) q p db ((ids, changes), db2) = (r, db')"
    and db2: "db2 = (if iqKey q = '''' then db1 else db1\<lparr>sdIdem := sdIdem db1 @ [idemRow q p ids]\<rparr>)" for db2
    using finishInsert_cases [OF f]
  proof cases
    case 2
    have "applied we cx tk stampAt q p db ids db'"
      unfolding applied_def using w w' fresh db2 txReads_found(1,2) [OF reads] 2 by blast
    from written [OF this 2(3)] show ?thesis .
  qed (rule refused)
  show ?thesis
  proof (cases "iqKey q = ''''")
    case False
    then have "find (\<lambda>r. idemKey r = requestKey q) (sdIdem db1) = None"
      using fresh writeAll_idem [OF w [unfolded w']] by simp
    from insertIdem_fresh [OF this] tx w w' False show ?thesis
      by (auto simp: txWrites_def split: option.splits intro: refused fin)
  qed (use tx w w' in \<open>auto simp: txWrites_def intro: fin\<close>)
qed

text \<open>
  A transaction leaves the database as it was, with an error, a replay or a changed schema, or
  it is applied and its answer, unless the commit failed, is new.
\<close>

lemma insertTx_cases:
  assumes "insertTx we cx tk stampAt q p db late = (r, db')"
  obtains (refused) e where "r = Done (Inl e)" "db' = db"
  | (again) "r = Again" "db' = db"
  | (replayed) tk' ids where "r = Done (Inr (replay ids))" "db' = db" "iqKey q \<noteq> ''''"
      "lookupIdem tk' db (iqTable q) (iqKey q) (ppHash p) (iqDomain q) = Inr (Some ids)"
  | (written) ids changes where "applied we cx tk stampAt q p db ids db'"
      "(\<exists>e. r = Done (Inl e)) \<or> r = Done (Inr \<lparr>anIds = ids, anChanges = changes, anReplayed = False\<rparr>)"
proof -
  consider e where "txReads tk q p db = Inl e" | "txReads tk q p db = Inr None"
    | ids where "txReads tk q p db = Inr (Some (Some ids))" | "txReads tk q p db = Inr (Some None)"
    by (metis option.exhaust sum.exhaust)
  then show ?thesis
  proof cases
    case (3 ids)
    note found = txReads_found [OF 3]
    from 3 assms have "r = Done (Inr (replay ids))" "db' = db" by (auto simp: insertTx_def)
    with found show ?thesis by (metis replayed option.distinct(1))
  next
    case 4
    with assms have "txWrites we cx tk stampAt q p db late = (r, db')" by (simp add: insertTx_def)
    from txWrites_cases [OF this 4] refused written show ?thesis by metis
  qed (use assms in \<open>auto simp: insertTx_def intro: refused again\<close>)
qed

section \<open>Applied at most once\<close>

text \<open>
  A namespace's history, oldest answer first: attempts of any requests, each with whatever its reads
  saw and whatever failed, drops of tables, which forget the answers for the table, and any
  other change that leaves the idempotency records alone. An attempt stands at the time of its
  transaction, or of the read that found its answer.
\<close>

inductive history :: "store_db \<Rightarrow> (insert_request \<times> insert_answer) list \<Rightarrow> bool" where
  Opened: "distinct (map idemKey (sdIdem db)) \<Longrightarrow> history db []"
| Attempted: "history db hs \<Longrightarrow> insertAttempt we cx tk stampAt q v = (r, db') \<Longrightarrow> ivTx v = db
    \<Longrightarrow> (\<And>a. prepareInsert we (sub tk 0) (ivReads v) q = Inr (Inl a) \<Longrightarrow> ivReads v 2 = db)
    \<Longrightarrow> history db' (case r of Done (Inr a) \<Rightarrow> hs @ [(q, a)] | _ \<Rightarrow> hs)"
| Dropped: "history db hs \<Longrightarrow> DropTable tk table inc db = (r, db')
    \<Longrightarrow> history db' (if db' = db then hs else filter (\<lambda>(q, _). iqTable q \<noteq> table) hs)"
| Changed: "history db hs \<Longrightarrow> sdIdem db' = sdIdem db \<Longrightarrow> history db' hs"

text \<open>The requests whose answer is decided by their own key alone.\<close>

definition keyed :: "insert_request \<Rightarrow> bool" where
  "keyed q \<longleftrightarrow> iqKey q \<noteq> '''' \<and> \<not> FallsBackToLegacy (iqDomain q)"

definition later_replays :: "insert_request \<times> insert_answer \<Rightarrow> insert_request \<times> insert_answer \<Rightarrow> bool" where
  "later_replays x y \<longleftrightarrow> (keyed (fst x) \<and> keyed (fst y) \<and> requestKey (fst x) = requestKey (fst y) \<longrightarrow> anReplayed (snd y))"

definition once :: "store_db \<Rightarrow> (insert_request \<times> insert_answer) list \<Rightarrow> bool" where
  "once db hs \<longleftrightarrow> (\<forall>(q, a) \<in> set hs. keyed q \<longrightarrow> recorded db (requestKey q) (anIds a)) \<and> sorted_wrt later_replays hs"

lemma once_same: "once db hs \<Longrightarrow> sdIdem db' = sdIdem db \<Longrightarrow> once db' hs"
  unfolding once_def recorded_def by simp

lemma once_replay:
  assumes "once db hs" and "keyed q \<Longrightarrow> recorded db (requestKey q) (anIds a)" and "anReplayed a"
  shows "once db (hs @ [(q, a)])"
  using assms by (auto simp: once_def sorted_wrt_append later_replays_def)

lemma once_lookup:
  assumes "once db hs" and "lookupIdem tk db (iqTable q) (iqKey q) want (iqDomain q) = Inr (Some ids)"
  shows "once db (hs @ [(q, replay ids)])"
  by (rule once_replay [OF assms(1)]) (use lookupIdem_own [OF assms(2)] in \<open>simp_all add: keyed_def replay_def\<close>)

lemma find_app: "find P (xs @ ys) = (case find P xs of None \<Rightarrow> find P ys | Some x \<Rightarrow> Some x)"
  by (induction xs) simp_all

text \<open>The record of a key that had none: older records stay what they were.\<close>

lemma recorded_append:
  assumes "recorded db k ids" and "sdIdem db' = sdIdem db @ rows"
  shows "recorded db' k ids"
  using assms by (auto simp: recorded_def find_app split: option.splits)

lemma recorded_new:
  assumes "find (\<lambda>r. idemKey r = requestKey q) (sdIdem db) = None" and "sdIdem db' = sdIdem db @ [idemRow q p ids]"
  shows "recorded db' (requestKey q) ids"
  using assms by (auto simp: recorded_def find_app)

lemma applied_idem:
  assumes "applied we cx tk stampAt q p db ids db'"
  shows "iqKey q = '''' \<Longrightarrow> sdIdem db' = sdIdem db"
    and "iqKey q \<noteq> '''' \<Longrightarrow> find (\<lambda>r. idemKey r = requestKey q) (sdIdem db) = None \<and> sdIdem db' = sdIdem db @ [idemRow q p ids]"
  using assms by (auto simp: applied_def dest!: writeAll_idem)

lemma once_applied:
  assumes o: "once db hs" and a: "applied we cx tk stampAt q p db ids db'"
  shows "once db' hs" and "anIds a = ids \<Longrightarrow> once db' (hs @ [(q, a)])"
proof -
  have keep: "recorded db' k js" if "recorded db k js" for k js
    using that applied_idem [OF a] recorded_append recorded_cong by metis
  then show o': "once db' hs" using o unfolding once_def by fastforce
  assume ids: "anIds a = ids"
  have new: "recorded db' (requestKey q) ids" "\<not> recorded db (requestKey q) js" if "keyed q" for js
  proof -
    from that have "iqKey q \<noteq> []" by (simp add: keyed_def)
    note add = applied_idem(2) [OF a this]
    from recorded_new add show "recorded db' (requestKey q) ids" by blast
    from add show "\<not> recorded db (requestKey q) js" by (simp add: recorded_def)
  qed
  have "later_replays x (q, a)" if "x \<in> set hs" for x
    using that o new(2) unfolding once_def later_replays_def by fastforce
  then show "once db' (hs @ [(q, a)])" using o' new(1) ids by (auto simp: once_def sorted_wrt_append)
qed

lemma once_attempt:
  assumes o: "once db hs" and att: "insertAttempt we cx tk stampAt q v = (r, db')" and tx: "ivTx v = db"
    and read: "\<And>a. prepareInsert we (sub tk 0) (ivReads v) q = Inr (Inl a) \<Longrightarrow> ivReads v 2 = db"
  shows "once db' (case r of Done (Inr a) \<Rightarrow> hs @ [(q, a)] | _ \<Rightarrow> hs)"
proof -
  consider e where "prepareInsert we (sub tk 0) (ivReads v) q = Inl e"
    | a where "prepareInsert we (sub tk 0) (ivReads v) q = Inr (Inl a)"
    | p where "prepareInsert we (sub tk 0) (ivReads v) q = Inr (Inr p)" by (metis sum.exhaust)
  then show ?thesis
  proof cases
    case 1
    with att tx o show ?thesis by (auto simp: insertAttempt_def)
  next
    case (2 a)
    then obtain tk' h ids where look: "lookupIdem tk' db (iqTable q) (iqKey q) h (iqDomain q) = Inr (Some ids)" "a = replay ids"
      using read by (auto simp: prepareInsert_def Let_def split: if_splits option.splits)
    from 2 att tx have "r = Done (Inr a)" "db' = db" by (auto simp: insertAttempt_def)
    with look once_lookup [OF o look(1)] show ?thesis by simp
  next
    case (3 p)
    with att tx have "insertTx we cx (sub tk 1) stampAt q p db (ivLate v) = (r, db')" by (simp add: insertAttempt_def)
    then show ?thesis
    proof (cases rule: insertTx_cases)
      case (replayed tk' ids)
      then show ?thesis by (auto intro: once_lookup [OF o])
    next
      case (written ids changes)
      then show ?thesis using once_applied [OF o written(1)] by auto
    qed (use o in auto)
  qed
qed

lemma DropTable_cases:
  assumes "DropTable tk table inc db = (r, db')"
  obtains "db' = db" | "db' = withoutTable table db"
  using assms by (auto simp: DropTable_def split: sum.splits option.splits if_splits)

lemma once_drop:
  assumes "once db hs"
  shows "once (withoutTable table db) (filter (\<lambda>(q, _). iqTable q \<noteq> table) hs)"
proof -
  have "find (\<lambda>r. idemKey r = requestKey q) (filter (\<lambda>r. irTable r \<noteq> table) rows) = find (\<lambda>r. idemKey r = requestKey q) rows"
    if "iqTable q \<noteq> table" for q and rows :: "idem_row list"
    using that by (induction rows) (auto simp: idemKey_def requestKey_def)
  then show ?thesis using assms by (fastforce simp: once_def recorded_def withoutTable_def intro: sorted_wrt_filter)
qed

lemma history_once: "history db hs \<Longrightarrow> once db hs"
proof (induction rule: history.induct)
  case (Attempted db hs we cx tk stampAt q v r db')
  then show ?case by (intro once_attempt)
next
  case (Dropped db hs tk table inc r db')
  from Dropped.hyps(2) show ?case
    by (cases rule: DropTable_cases) (use Dropped.IH once_drop in \<open>auto simp: withoutTable_def\<close>)
next
  case (Changed db hs db')
  then show ?case by (blast intro: once_same)
qed (simp add: once_def)

section \<open>Retries\<close>

lemma spread_length [simp]: "length (spread ts vs) = length ts"
  by (induction ts vs rule: spread.induct) simp_all

lemma coerceRows_length: "coerceRows we flds recs = Inr rows \<Longrightarrow> length rows = length recs"
  by (induction recs arbitrary: rows) auto

lemma defaults_length [simp]: "length (applyInsertDefaults we flds records) = length records"
  by (simp add: applyInsertDefaults_def Let_def)

lemma embedRecords_length:
  "embedRecords we flds m table emb records = Inr (vecs, d) \<Longrightarrow> length vecs = length records"
  by (auto simp: embedRecords_def Let_def split: option.splits if_splits)

lemma loadTable_schema:
  "loadTable tk db table = Inr (sc, m) \<longleftrightarrow>
     tFault (tk []) = None \<and> map_of (schemas (sdLog db)) table = Some (Some sc) \<and> m = metaOf db table"
  by (auto simp: loadTable_def loadSchema_def split: option.splits)

lemma prepareInsert_prepared:
  assumes "prepareInsert we tk dbs q = Inr (Inr p)"
  shows "map_of (schemas (sdLog (dbs 1))) (iqTable q) = Some (Some (ppSchema p))" "ppMeta p = metaOf (dbs 1) (iqTable q)"
    and "ppHash p = payloadHash (weHash we) (TFields (ppSchema p)) (iqRecords q)"
    and "length (ppRows p) = length (iqRecords q)" and "ppGen p = genOf (dbs 0) (iqTable q)"
  using assms
  by (auto simp: prepareInsert_def Let_def loadTable_schema tableGen_genOf dest!: coerceRows_length embedRecords_length split: option.splits)

lemma insertAttempt_changed:
  assumes "insertAttempt we cx tk stampAt q v = (r, db')" and "db' \<noteq> ivTx v"
  obtains p ids changes where "prepareInsert we (sub tk 0) (ivReads v) q = Inr (Inr p)"
    "applied we cx (sub tk 1) stampAt q p (ivTx v) ids db'"
    "(\<exists>e. r = Done (Inl e)) \<or> r = Done (Inr \<lparr>anIds = ids, anChanges = changes, anReplayed = False\<rparr>)"
proof -
  from assms obtain p where p: "prepareInsert we (sub tk 0) (ivReads v) q = Inr (Inr p)"
    and tx: "insertTx we cx (sub tk 1) stampAt q p (ivTx v) (ivLate v) = (r, db')"
    by (auto simp: insertAttempt_def split: sum.splits)
  from tx show thesis by (cases rule: insertTx_cases) (use p assms(2) that in auto)
qed

lemma calm_lookup:
  assumes "\<And>i. tFault (tk i) = None" and none: "find (\<lambda>r. idemKey r = requestKey q) (sdIdem db) = None"
    and "sdIdem db' = sdIdem db @ [idemRow q p ids]"
  shows "lookupIdem tk db' (iqTable q) (iqKey q) (ppHash p) (iqDomain q) = Inr (Some ids)"
proof -
  have "find (idemAt (iqTable q) (idOwner (iqDomain q)) (iqKey q)) (sdIdem db') = Some (idemRow q p ids)"
    using assms(2,3) by (simp add: find_app idemAt_key [abs_def])
  then have "readIdem (sub tk 0) db' (iqTable q) (idOwner (iqDomain q)) (iqKey q) (ppHash p) = Inr (Some ids)"
    using assms(1) by (simp add: readIdem_def istmt_def sub_def Matches_def)
  then show ?thesis by (simp add: lookupIdem_def)
qed

lemma calm_replay:
  assumes calm: "\<And>i. tFault (tk i) = None" and sc: "map_of (schemas (sdLog db)) (iqTable q) = Some (Some sc)"
    and key: "iqKey q \<noteq> ''''"
    and found: "lookupIdem (sub tk 2) db (iqTable q) (iqKey q) (payloadHash (weHash we) (TFields sc) (iqRecords q)) (iqDomain q) = Inr (Some ids)"
  shows "prepareInsert we tk (\<lambda>_. db) q = Inr (Inl (replay ids))"
  using assms by (simp add: prepareInsert_def loadTable_def loadSchema_def tableGen_def stmt_def ofLog_def sub_def)

text \<open>
  C10. An insert with an idempotency key whose effect reached the database, even when the commit was
  reported as failed, wrote one row per record, and sending the same request again writes
  nothing and answers exactly the ids of those rows.
\<close>

theorem insert_retry:
  assumes one: "insertAttempt we cx tk stampAt q \<lparr>ivReads = \<lambda>_. db, ivTx = db, ivLate = late\<rparr> = (r, db')"
    and changed: "db' \<noteq> db" and key: "iqKey q \<noteq> ''''" and calm: "\<And>i. tFault (tk' i) = None"
  shows "\<exists>new. sdRows db' = sdRows db @ new \<and> length new = length (iqRecords q) \<and> (\<forall>x \<in> set new. srTable x = iqTable q)
    \<and> (\<forall>a. r = Done (Inr a) \<longrightarrow> anIds a = map srId new)
    \<and> insertAttempt we cx' tk' stampAt' q \<lparr>ivReads = \<lambda>_. db', ivTx = db', ivLate = late'\<rparr> = (Done (Inr (replay (map srId new))), db')"
proof -
  from one changed obtain p ids changes where p: "prepareInsert we (sub tk 0) (\<lambda>_. db) q = Inr (Inr p)"
    and a: "applied we cx (sub tk 1) stampAt q p db ids db'"
    and r: "(\<exists>e. r = Done (Inl e)) \<or> r = Done (Inr \<lparr>anIds = ids, anChanges = changes, anReplayed = False\<rparr>)"
    by (auto elim: insertAttempt_changed)
  note prep = prepareInsert_prepared [OF p]
  from a key obtain ch db1 where w: "writeAll we (sub (sub tk 1) 4) stampAt q p db = Inr ((ids, ch), db1)"
    and db': "db' = db1\<lparr>sdIdem := sdIdem db1 @ [idemRow q p ids]\<rparr>" by (auto simp: applied_def)
  note eff = writeAll_effect [OF w prep(1)]
  from eff(4) obtain new where new: "sdRows db' = sdRows db @ new" "map srId new = ids" "\<forall>x \<in> set new. srTable x = iqTable q"
    by (auto simp: db')
  have "length new = length (iqRecords q)" using eff(3) prep(4) new(2) by (metis length_map)
  moreover have "prepareInsert we (sub tk' 0) (\<lambda>_. db') q = Inr (Inl (replay ids))"
  proof (rule calm_replay [OF _ _ key])
    show "map_of (schemas (sdLog db')) (iqTable q) = Some (Some (ppSchema p))" using prep(1) eff(2) by (simp add: db')
    show "lookupIdem (sub (sub tk' 0) 2) db' (iqTable q) (iqKey q)
       (payloadHash (weHash we) (TFields (ppSchema p)) (iqRecords q)) (iqDomain q) = Inr (Some ids)"
      using calm_lookup [of "sub (sub tk' 0) 2" q db db' p ids] applied_idem(2) [OF a key] calm prep(3) by (simp add: sub_def)
  qed (simp add: sub_def calm)
  ultimately show ?thesis using new r by (auto simp: insertAttempt_def)
qed

section \<open>Constraints\<close>

text \<open>The namespace as the constraint checks see it, with the rows of some of its tables; each table is stored once.\<close>

definition partOf :: "store_db \<Rightarrow> string set \<Rightarrow> (string \<times> table_schema) list \<Rightarrow> catalog" where
  "partOf db read scs = map (\<lambda>(name, sc). (name, \<lparr>Schema = Some sc, Rows = (if name \<in> read then constraintRows db name sc else [])\<rparr>)) scs"

definition constraints_hold :: "write_env \<Rightarrow> store_db \<Rightarrow> bool" where
  "constraints_hold we db \<longleftrightarrow>
     (\<exists>scs. schemas (sdLog db) = map (\<lambda>(name, sc). (name, Some sc)) scs \<and> distinct (map fst scs)
        \<and> catalog_ok (weValue we) (weLower we) (weTrim we) (partOf db UNIV scs))"

lemma allSchemas_Inr: "allSchemas ss = Inr scs \<Longrightarrow> ss = map (\<lambda>(name, sc). (name, Some sc)) scs"
  by (induction ss arbitrary: scs rule: allSchemas.induct) auto

lemma map_of_Some: "map_of (map (\<lambda>(name, sc). (name, Some sc)) scs) name = map_option Some (map_of scs name)"
  by (induction scs) auto

lemma partOf_map_of: "map_of (partOf db read scs) name =
  map_option (\<lambda>sc. \<lparr>Schema = Some sc, Rows = (if name \<in> read then constraintRows db name sc else [])\<rparr>) (map_of scs name)"
  by (induction scs) (auto simp: partOf_def)

lemma partOf_names [simp]: "map fst (partOf db read scs) = map fst scs"
  by (induction scs) (auto simp: partOf_def)

lemma constraintRows_same [simp]: "constraintRows db name (sc\<lparr>TConstraints := cs\<rparr>) = constraintRows db name sc"
  by (simp add: constraintRows_def constraintRow_def [abs_def])

text \<open>The snapshot is the selection of a catalog that has the rows the selected constraints read.\<close>

lemma snapshot_select:
  assumes "sqliteConstraintSnapshot tk db sc incoming = Inr tables"
    and "schemas (sdLog db) = map (\<lambda>(name, sc). (name, Some sc)) scs" and "map_of scs (TName sc) = Some sc"
  shows "tables = SelectChecks (partOf db (set (neededTables (SelectChecks (schemaCatalog db scs) (TName sc) incoming))) scs) (TName sc) incoming"
proof -
  from assms(1) obtain scs' where all: "allSchemas (schemas (sdLog db)) = Inr scs'"
    and t: "tables = (let tables = SelectChecks (schemaCatalog db (AList.update (TName sc) sc scs')) (TName sc) incoming in
      map (\<lambda>(name, t). (name, if name \<in> set (neededTables tables)
         then t\<lparr>Rows := (case Schema t of None \<Rightarrow> [] | Some sc \<Rightarrow> constraintRows db name sc)\<rparr> else t)) tables)"
    by (auto simp: sqliteConstraintSnapshot_def Let_def)
  have "scs' = scs" using allSchemas_Inr [OF all] assms(2)
    by (auto dest!: map_injective simp: inj_on_def)
  with t assms(3) show ?thesis
    by (auto simp: Let_def SelectChecks_def schemaCatalog_def partOf_def)
qed

lemma selected_own:
  assumes "(name, sc) \<in> set scs"
  shows "(name, \<lparr>Schema = Some sc, Rows = []\<rparr>) \<in> set (SelectChecks (schemaCatalog db scs) name False)"
  using assms by (force simp: SelectChecks_def schemaCatalog_def selected_def)

lemma needed_own:
  assumes "(name, sc) \<in> set scs" "TConstraints sc \<noteq> []"
  shows "name \<in> set (neededTables (SelectChecks (schemaCatalog db scs) name False))"
  unfolding neededTables_def using selected_own [OF assms(1), of db] assms(2) by force

lemma needed_parent:
  assumes "(name, sc) \<in> set scs" "c \<in> set (TConstraints sc)" "Kind c = ConstraintForeignKey" "References c = Some r"
  shows "RefTable r \<in> set (neededTables (SelectChecks (schemaCatalog db scs) name False))"
proof -
  have "RefTable r \<in> set (List.map_filter (\<lambda>c. if Kind c = ConstraintForeignKey then map_option RefTable (References c) else None)
      (TConstraints sc))"
    using assms(2-4) by (force simp: List.map_filter_def)
  with selected_own [OF assms(1), of db] show ?thesis unfolding neededTables_def by force
qed

text \<open>Only the tables the constraint refers to matter.\<close>

lemma partOf_transfer:
  assumes "constraint_ok env lo tr (partOf db read scs) sc rows c"
    and "\<And>r. Kind c = ConstraintForeignKey \<Longrightarrow> References c = Some r \<Longrightarrow> RefTable r \<in> read"
  shows "constraint_ok env lo tr (partOf db UNIV scs) sc rows c"
proof (rule constraint_transfer [OF assms(1)])
  fix target r
  assume c: "Kind c = ConstraintForeignKey" "References c = Some r" "parentTarget (partOf db read scs) c = Inr target"
  have "map_of (partOf db UNIV scs) (RefTable r) = map_of (partOf db read scs) (RefTable r)"
    using assms(2) [OF c(1,2)] by (simp add: partOf_map_of)
  then show "parentTarget (partOf db UNIV scs) c = Inr target
    \<and> (\<forall>i owner. parentOwner (partOf db read scs) (RefTable r) i = Some owner \<longrightarrow> parentOwner (partOf db UNIV scs) (RefTable r) i = Some owner)"
    using c(2,3) by (simp add: parentTarget_def parentOwner_def Let_def)
qed

text \<open>The check covers the constraints of the table written to.\<close>

lemma checked_ok:
  assumes check: "checkSQLiteConstraints we cx tk db sc False = Inr ()"
    and scs: "schemas (sdLog db) = map (\<lambda>(name, sc). (name, Some sc)) scs" "map_of scs (TName sc) = Some sc"
    and c: "c \<in> set (TConstraints sc)"
  shows "constraint_ok (weValue we) (weLower we) (weTrim we) (partOf db UNIV scs) sc (constraintRows db (TName sc) sc) c"
proof -
  let ?read = "set (neededTables (SelectChecks (schemaCatalog db scs) (TName sc) False))"
  have mem: "(TName sc, sc) \<in> set scs" using map_of_SomeD [OF scs(2)] .
  have own: "TName sc \<in> ?read" by (rule needed_own [OF mem]) (use c in auto)
  obtain tables where snap: "sqliteConstraintSnapshot tk db sc False = Inr tables"
    and passed: "(case CheckCatalog (weValue we) (weLower we) (weTrim we) cx tables of
      Inl e \<Rightarrow> Inl (ConstraintFailed e) | Inr _ \<Rightarrow> Inr ()) = Inr ()"
    using check c by (auto simp: checkSQLiteConstraints_def split: if_splits)
  from passed have ok: "CheckCatalog (weValue we) (weLower we) (weTrim we) cx tables = Inr ()"
    by (cases "CheckCatalog (weValue we) (weLower we) (weTrim we) cx tables") auto
  note ok = CheckCatalog_ok [OF ok [unfolded snapshot_select [OF snap scs]]]
  have "(TName sc, \<lparr>Schema = Some sc, Rows = constraintRows db (TName sc) sc\<rparr>) \<in> set (partOf db ?read scs)"
    using mem own by (force simp: partOf_def)
  from SelectChecks_ok [OF ok this] obtain sc' where "Some sc = Some sc'"
    "\<And>c. c \<in> set (TConstraints sc') \<Longrightarrow> selected (TName sc) False (TName sc) c
      \<Longrightarrow> constraint_ok (weValue we) (weLower we) (weTrim we) (partOf db ?read scs) sc' (constraintRows db (TName sc) sc) c" by auto
  then have "constraint_ok (weValue we) (weLower we) (weTrim we) (partOf db ?read scs) sc (constraintRows db (TName sc) sc) c"
    using c by (simp add: selected_def)
  then show ?thesis by (rule partOf_transfer) (use needed_parent [OF mem c] in blast)
qed

text \<open>Appending rows to a table leaves the other tables alone and keeps every parent.\<close>

lemma appended_rows:
  assumes "sdRows db' = sdRows db @ new" and "\<forall>r \<in> set new. srTable r = table"
  shows "same_elsewhere (partOf db UNIV scs) (partOf db' UNIV scs) table"
    and "keeps_parents (partOf db UNIV scs) (partOf db' UNIV scs) table"
proof -
  have rows: "constraintRows db' name sc = constraintRows db name sc
    @ (if name = table then map (constraintRow sc) new else [])" for name sc
    using assms by (auto simp: constraintRows_def filter_empty_conv)
  show "same_elsewhere (partOf db UNIV scs) (partOf db' UNIV scs) table"
    unfolding same_elsewhere_def by (simp add: partOf_map_of rows)
  have "parentOwner (partOf db UNIV scs) table i = Some owner \<Longrightarrow> parentOwner (partOf db' UNIV scs) table i = Some owner" for i owner
    unfolding parentOwner_def by (auto simp: partOf_map_of rows map_add_Some_iff split: option.splits)
  then show "keeps_parents (partOf db UNIV scs) (partOf db' UNIV scs) table"
    unfolding keeps_parents_def by (auto simp: partOf_map_of)
qed

lemma unwritten_ok:
  assumes ok: "catalog_ok env lo tr (partOf db UNIV scs)" and rows: "sdRows db' = sdRows db @ new" "\<forall>r \<in> set new. srTable r = table"
    and mem: "(name, sc) \<in> set scs" "name \<noteq> table" and c: "c \<in> set (TConstraints sc)"
  shows "constraint_ok env lo tr (partOf db' UNIV scs) sc (constraintRows db' name sc) c"
proof -
  have same: "constraintRows db' name sc = constraintRows db name sc"
    using rows mem(2) by (auto simp: constraintRows_def filter_empty_conv)
  have "(name, \<lparr>Schema = Some sc, Rows = constraintRows db name sc\<rparr>) \<in> set (partOf db UNIV scs)"
    using mem(1) by (force simp: partOf_def)
  with ok c have "constraint_ok env lo tr (partOf db UNIV scs) sc (constraintRows db name sc) c"
    unfolding catalog_ok_def by fastforce
  then show ?thesis unfolding same
    by (rule unselected_ok [where changed = table and incoming = False and name = name])
      (use appended_rows [OF rows] mem(2) in \<open>simp_all add: selected_def\<close>)
qed

lemma applied_constraints:
  assumes a: "applied we cx tk stampAt q p db ids db'" and hold: "constraints_hold we db"
    and sc: "map_of (schemas (sdLog db)) (iqTable q) = Some (Some (ppSchema p))" and name: "TName (ppSchema p) = iqTable q"
  shows "constraints_hold we db'"
proof -
  let ?ok = "\<lambda>sc rows. constraint_ok (weValue we) (weLower we) (weTrim we) sc rows"
  from hold obtain scs where scs: "schemas (sdLog db) = map (\<lambda>(name, sc). (name, Some sc)) scs" "distinct (map fst scs)"
    and ok: "catalog_ok (weValue we) (weLower we) (weTrim we) (partOf db UNIV scs)" by (auto simp: constraints_hold_def)
  from a obtain changes db1 where w: "writeAll we (sub tk 4) stampAt q p db = Inr ((ids, changes), db1)"
    and db': "db' = (if iqKey q = '''' then db1 else db1\<lparr>sdIdem := sdIdem db1 @ [idemRow q p ids]\<rparr>)"
    and check: "checkSQLiteConstraints we cx (sub (sub tk 5) 0) db' (ppSchema p) False = Inr ()" by (auto simp: applied_def)
  note eff = writeAll_effect [OF w sc]
  have scs': "schemas (sdLog db') = map (\<lambda>(name, sc). (name, Some sc)) scs" using eff(2) scs by (simp add: db')
  have cur: "map_of scs (TName (ppSchema p)) = Some (ppSchema p)" using sc scs by (simp add: name map_of_Some)
  from eff(4) obtain new where new: "sdRows db' = sdRows db @ new" "\<forall>r \<in> set new. srTable r = iqTable q" by (auto simp: db')
  have "constraint_ok (weValue we) (weLower we) (weTrim we) (partOf db' UNIV scs) sc (constraintRows db' n sc) c"
    if t: "(n, sc) \<in> set scs" "c \<in> set (TConstraints sc)" for n sc c
  proof (cases "n = iqTable q")
    case True
    then have "sc = ppSchema p" using map_of_is_SomeI [OF scs(2) t(1)] cur by (simp add: name)
    with True name t(2) checked_ok [OF check scs' cur] show ?thesis by simp
  next
    case False
    from unwritten_ok [OF ok new t(1) False t(2)] show ?thesis .
  qed
  then show ?thesis unfolding constraints_hold_def catalog_ok_def using scs' scs(2) by (auto simp: partOf_def)
qed

lemma attempt_keeps_constraints:
  assumes hold: "constraints_hold we (ivTx v)"
    and names: "\<And>name sc. map_of (schemas (sdLog (ivTx v))) name = Some (Some sc) \<Longrightarrow> TName sc = name"
    and versions: "genOf (ivTx v) (iqTable q) = genOf (ivReads v 0) (iqTable q)
      \<Longrightarrow> mVersion (metaOf (ivTx v) (iqTable q)) = mVersion (metaOf (ivReads v 1) (iqTable q))
      \<Longrightarrow> map_of (schemas (sdLog (ivTx v))) (iqTable q) = map_of (schemas (sdLog (ivReads v 1))) (iqTable q)"
    and attempt: "insertAttempt we cx tk stampAt q v = (r, db')"
  shows "constraints_hold we db'"
proof (cases "db' = ivTx v")
  case False
  with attempt obtain p ids changes where p: "prepareInsert we (sub tk 0) (ivReads v) q = Inr (Inr p)"
    and a: "applied we cx (sub tk 1) stampAt q p (ivTx v) ids db'" by (auto elim: insertAttempt_changed)
  note prep = prepareInsert_prepared [OF p]
  from a have "mVersion (metaOf (ivTx v) (iqTable q)) = mVersion (ppMeta p)" "genOf (ivTx v) (iqTable q) = ppGen p"
    by (auto simp: applied_def loadTable_schema)
  with versions prep have sc: "map_of (schemas (sdLog (ivTx v))) (iqTable q) = Some (Some (ppSchema p))" by simp
  from applied_constraints [OF a hold sc names [OF sc]] show ?thesis .
qed (use hold in simp)

section \<open>The whole call\<close>

lemma insertAttempt_again:
  assumes "insertAttempt we cx tk stampAt q v = (Again, db')"
  shows "db' = ivTx v"
proof (rule ccontr)
  assume "db' \<noteq> ivTx v"
  with assms show False by (elim insertAttempt_changed) auto
qed

text \<open>The call gives up with the database of its last attempt, or answers like one of at most three attempts.\<close>

lemma insertLoop_attempt:
  assumes "insertLoop we cx tk stampAt q vs i = (r, db')" and "i \<le> 2"
  shows "\<exists>j \<le> 2. (r = Inl SchemaChanging \<and> db' = ivTx (vs j))
    \<or> (\<exists>cx' tk'. insertAttempt we cx' tk' stampAt q (vs j) = (Done r, db'))"
  using assms
proof (induction we cx tk stampAt q vs i rule: insertLoop.induct)
  case (1 we cx tk stampAt q vs i)
  obtain a db1 where a: "insertAttempt we (under cx i) (sub tk i) stampAt q (vs i) = (a, db1)" by fastforce
  note step = 1(2) [unfolded insertLoop.simps [of we cx tk stampAt q vs i] a]
  show ?case
  proof (cases a)
    case (Done r')
    with step a 1(3) show ?thesis by auto
  next
    case Again
    note stay = insertAttempt_again [OF a [unfolded Again]]
    show ?thesis
    proof (cases "i \<ge> 2")
      case True
      with step Again stay 1(3) show ?thesis by auto
    next
      case False
      with step Again 1(1) [OF a [symmetric] Again] show ?thesis by auto
    qed
  qed
qed

lemma Insert_attempt:
  assumes "Insert we cx tk stampAt q inc seen vs = (r, db')"
  obtains (refused) e i where "r = Inl e" "i \<le> 2" "db' = ivTx (vs i)"
  | (attempted) i cx' tk' records where "i \<le> 2" "normalizeRecords (weLower we) 0 (iqRecords q) = Inr records"
      "insertAttempt we cx' tk' stampAt (q\<lparr>iqRecords := records\<rparr>) (vs i) = (Done r, db')"
proof -
  have "(\<exists>e. r = Inl e) \<and> db' = ivTx (vs 0) \<or> (\<exists>cx' tk' records. normalizeRecords (weLower we) 0 (iqRecords q) = Inr records
      \<and> insertLoop we cx' tk' stampAt (q\<lparr>iqRecords := records\<rparr>) vs 0 = (r, db'))"
    using assms by (auto simp: Insert_def storeInsert_def split: sum.splits if_splits)
  then show thesis
  proof
    assume "\<exists>cx' tk' records. normalizeRecords (weLower we) 0 (iqRecords q) = Inr records
      \<and> insertLoop we cx' tk' stampAt (q\<lparr>iqRecords := records\<rparr>) vs 0 = (r, db')"
    then obtain cx' tk' records where n: "normalizeRecords (weLower we) 0 (iqRecords q) = Inr records"
      and l: "insertLoop we cx' tk' stampAt (q\<lparr>iqRecords := records\<rparr>) vs 0 = (r, db')" by blast
    from insertLoop_attempt [OF l] show thesis using n refused attempted by auto
  qed (use refused [of _ 0] in auto)
qed

text \<open>
  C11. A call of \<^verbatim>\<open>Insert\<close> keeps every declared constraint of the namespace: when all tables satisfy
  their constraints before each of its attempts, they all do after it, whatever the records, the
  faults and the outcome, though only the constraints of the table written to are checked and
  only the rows these read are loaded. The reads before a transaction may be of other states of
  the database, as long as a schema read there is the present one unless its version or drop
  counter moved.
\<close>

theorem insert_keeps_constraints:
  assumes hold: "\<And>i. i \<le> 2 \<Longrightarrow> constraints_hold we (ivTx (vs i))"
    and names: "\<And>i name sc. i \<le> 2 \<Longrightarrow> map_of (schemas (sdLog (ivTx (vs i)))) name = Some (Some sc) \<Longrightarrow> TName sc = name"
    and versions: "\<And>i. i \<le> 2 \<Longrightarrow> genOf (ivTx (vs i)) (iqTable q) = genOf (ivReads (vs i) 0) (iqTable q)
      \<Longrightarrow> mVersion (metaOf (ivTx (vs i)) (iqTable q)) = mVersion (metaOf (ivReads (vs i) 1) (iqTable q))
      \<Longrightarrow> map_of (schemas (sdLog (ivTx (vs i)))) (iqTable q) = map_of (schemas (sdLog (ivReads (vs i) 1))) (iqTable q)"
    and call: "Insert we cx tk stampAt q inc seen vs = (r, db')"
  shows "constraints_hold we db'"
  using call
proof (cases rule: Insert_attempt)
  case (refused e i)
  then show ?thesis using hold by simp
next
  case (attempted i cx' tk' records)
  show ?thesis
    by (rule attempt_keeps_constraints [OF hold [OF attempted(1)] _ _ attempted(3)])
      (use names [OF attempted(1)] versions [OF attempted(1)] in simp_all)
qed

section \<open>A namespace of two tables\<close>

definition calmTicks :: ticks where "calmTicks = (\<lambda>_. \<lparr>tFault = None, tDraw = None\<rparr>)"

definition sampleWrite :: write_env where
  "sampleWrite = \<lparr>weValue = sampleEnv,
     weHash = \<lparr>heFinger = None, heRetired = [], heMarshal = (\<lambda>_. Inr ''body''), heHex = id, heUnstorable = (\<lambda>_. ''''), heFiles = (\<lambda>_ rs. rs)\<rparr>,
     weLower = id, weTrim = id, weDefault = (\<lambda>_. VNil), weFile = (\<lambda>_. Inr), weSeal = None, weNow = (\<lambda>_. ''now''), weFinite = (\<lambda>_. True)\<rparr>"

definition sampleSchemas :: "(string \<times> table_schema) list" where
  "sampleSchemas = [(''team'', the (Schema teamTable)), (''member'', the (Schema (memberTable [])))]"

definition memberStored :: "int \<Rightarrow> string \<Rightarrow> stored_row" where
  "memberStored i name = \<lparr>srTable = ''member'', srId = i, srOwner = None, srCols = Values (memberRow name), srVec = None\<rparr>"

definition sampleStore :: store_db where
  "sampleStore = \<lparr>
     sdLog = \<lparr>clog = [], tokens = [], lastSeq = 0, nsgen = ''0123456789abcdef'', dropGens = [], nextCommit = 0,
              schemas = map (\<lambda>(name, sc). (name, Some sc)) sampleSchemas\<rparr>,
     sdMeta = [], sdRows = [\<lparr>srTable = ''team'', srId = 7, srOwner = None, srCols = [], srVec = None\<rparr>,
       memberStored 1 ''ann'', memberStored 2 ''bob''],
     sdNext = [(''team'', 7), (''member'', 2)], sdFts = [], sdIdem = []\<rparr>"

definition addMember :: "string \<Rightarrow> insert_request" where
  "addMember name = \<lparr>iqTable = ''member'', iqRecords = [Values (memberRow name)], iqEmb = \<lparr>Embed = None, EmbedIdentity = ''''\<rparr>,
     iqKey = ''k1'', iqOwner = '''', iqDomain = \<lparr>idOwner = '''', TableWideRead = True\<rparr>\<rparr>"

definition viewOf :: "store_db \<Rightarrow> insert_view" where
  "viewOf db = \<lparr>ivReads = \<lambda>_. db, ivTx = db, ivLate = db\<rparr>"

definition firstInsert :: "attempt \<times> store_db" where
  "firstInsert = insertAttempt sampleWrite (\<lambda>_. None) calmTicks ''t'' (addMember ''eve'') (viewOf sampleStore)"

text \<open>The same request again, whose reads are older than the first one's commit.\<close>

definition secondInsert :: "attempt \<times> store_db" where
  "secondInsert = insertAttempt sampleWrite (\<lambda>_. None) calmTicks ''t'' (addMember ''eve'')
     \<lparr>ivReads = \<lambda>_. sampleStore, ivTx = snd firstInsert, ivLate = sampleStore\<rparr>"

definition sampleAnswers :: "(insert_request \<times> insert_answer) list" where
  "sampleAnswers = [(addMember ''eve'', \<lparr>anIds = [3], anChanges = \<lparr>First = 1, Last = 1, Count = 1\<rparr>, anReplayed = False\<rparr>),
     (addMember ''eve'', replay [3])]"

lemma sample_first: "firstInsert = (Done (Inr (snd (sampleAnswers ! 0))), snd firstInsert)"
  "sdRows (snd firstInsert) = sdRows sampleStore @ [memberStored 3 ''eve'']"
  by code_simp+

lemma sample_second: "secondInsert = (Done (Inr (snd (sampleAnswers ! 1))), snd secondInsert)"
  by code_simp

section \<open>The same request twice\<close>

lemma sample_unread: "\<exists>p. prepareInsert sampleWrite (sub calmTicks 0) (\<lambda>_. sampleStore) (addMember ''eve'') = Inr (Inr p)"
proof -
  have "case prepareInsert sampleWrite (sub calmTicks 0) (\<lambda>_. sampleStore) (addMember ''eve'') of Inr (Inr _) \<Rightarrow> True | _ \<Rightarrow> False"
    by code_simp
  then show ?thesis by (simp split: sum.splits)
qed

lemma sample_history: "history (snd secondInsert) sampleAnswers"
proof -
  have "history sampleStore []" by (rule Opened) (simp add: sampleStore_def)
  from Attempted [OF this sample_first(1) [unfolded firstInsert_def]]
  have one: "history (snd firstInsert) [sampleAnswers ! 0]" by (simp add: viewOf_def firstInsert_def sampleAnswers_def)
  have "history (snd secondInsert) ([sampleAnswers ! 0] @ [(addMember ''eve'', snd (sampleAnswers ! 1))])"
    using Attempted [OF one sample_second [unfolded secondInsert_def]] sample_unread by (fastforce simp: secondInsert_def)
  then show ?thesis by (simp add: sampleAnswers_def)
qed



text \<open>A commit that was applied though it was reported as failed.\<close>

definition lostCommit :: ticks where
  "lostCommit = (\<lambda>a. if a = [1, 5, 1] then \<lparr>tFault = Some ''lost'', tDraw = Some ''''\<rparr> else \<lparr>tFault = None, tDraw = None\<rparr>)"

definition lostInsert :: "attempt \<times> store_db" where
  "lostInsert = insertAttempt sampleWrite (\<lambda>_. None) lostCommit ''t'' (addMember ''eve'')
     \<lparr>ivReads = \<lambda>_. sampleStore, ivTx = sampleStore, ivLate = sampleStore\<rparr>"

lemma sample_lost: "fst lostInsert = Done (Inl (InsSql ''lost''))"
  "length (sdRows (snd lostInsert)) = 4" "length (sdRows sampleStore) = 3"
  by code_simp+

theorem insert_retry_witness:
  "fst lostInsert = Done (Inl (InsSql ''lost'')) \<and> (\<exists>new. sdRows (snd lostInsert) = sdRows sampleStore @ new \<and> length new = 1
    \<and> insertAttempt sampleWrite (\<lambda>_. None) calmTicks ''u'' (addMember ''eve'')
        \<lparr>ivReads = \<lambda>_. snd lostInsert, ivTx = snd lostInsert, ivLate = snd lostInsert\<rparr>
      = (Done (Inr (replay (map srId new))), snd lostInsert))"
proof -
  have "insertAttempt sampleWrite (\<lambda>_. None) lostCommit ''t'' (addMember ''eve'')
     \<lparr>ivReads = \<lambda>_. sampleStore, ivTx = sampleStore, ivLate = sampleStore\<rparr> = (fst lostInsert, snd lostInsert)"
    by (simp add: lostInsert_def)
  from insert_retry [OF this, of calmTicks "\<lambda>_. None" "''u''" "snd lostInsert"]
  show ?thesis using sample_lost by (fastforce simp: calmTicks_def addMember_def)
qed

text \<open>The sample namespace satisfies its constraints.\<close>

lemma sample_constraints: "constraints_hold sampleWrite sampleStore"
proof -
  have "partOf sampleStore UNIV sampleSchemas = sampleCatalog [(1, memberRow ''ann''), (2, memberRow ''bob'')]"
    by code_simp
  with CheckCatalog_ok [OF sample_checks] show ?thesis
    by (auto simp: constraints_hold_def sampleWrite_def sampleStore_def sampleSchemas_def intro!: exI [of _ sampleSchemas])
qed

lemma sample_names: "map_of (schemas (sdLog sampleStore)) name = Some (Some sc) \<Longrightarrow> TName sc = name"
  by (auto simp: sampleStore_def sampleSchemas_def teamTable_def memberTable_def split: if_splits)

definition wholeInsert :: "string \<Rightarrow> (insert_error + insert_answer) \<times> store_db" where
  "wholeInsert name = Insert sampleWrite (\<lambda>_. None) calmTicks ''t'' (addMember name) noIncarnation sampleStore (\<lambda>_. viewOf sampleStore)"

lemma sample_whole: "fst (wholeInsert ''eve'') = Inr (snd (sampleAnswers ! 0))"
  "fst (wholeInsert ''ann'') = Inl (ConstraintFailed (UniqueViolation ''one_name''))"
  by code_simp+

theorem insert_keeps_constraints_witness:
  "fst (wholeInsert ''eve'') = Inr (snd (sampleAnswers ! 0)) \<and> constraints_hold sampleWrite (snd (wholeInsert ''eve''))"
proof -
  have "Insert sampleWrite (\<lambda>_. None) calmTicks ''t'' (addMember ''eve'') noIncarnation sampleStore (\<lambda>_. viewOf sampleStore)
    = (fst (wholeInsert ''eve''), snd (wholeInsert ''eve''))" by (simp add: wholeInsert_def)
  then have "constraints_hold sampleWrite (snd (wholeInsert ''eve''))"
    by (rule insert_keeps_constraints [rotated 3]) (simp_all add: viewOf_def sample_constraints sample_names)
  with sample_whole(1) show ?thesis by blast
qed

end
