(* ===== verification/Store_Vectors.thy ===== *)
theory Store_Vectors
  imports Store_Insert
begin

text \<open>
  Vector search (\<^verbatim>\<open>internal/store/vector.go\<close>) and the cache of decoded vectors it reads
  (\<^verbatim>\<open>vector_cache.go\<close>): one entry per table and column, brought up to date from the change log under
  the lock of the entry, and bounded in size by dropping the entries used longest ago. The
  arithmetic of 64-bit floats is an argument; a multiplication and the addition of its result
  are one operation, as the machine may fuse them.
\<close>

section \<open>Scores\<close>

record 'r scorer =
  scZero :: 'r
  scMulAdd :: "'r \<Rightarrow> float32 \<Rightarrow> float32 \<Rightarrow> 'r"
  scQuot :: "'r \<Rightarrow> 'r \<Rightarrow> 'r \<Rightarrow> 'r"
  scGe :: "'r \<Rightarrow> 'r \<Rightarrow> bool"
  scFinite :: "float32 \<Rightarrow> bool"

fun dotLoop :: "'r scorer \<Rightarrow> 'r \<Rightarrow> float32 list \<Rightarrow> float32 list \<Rightarrow> 'r" where
  "dotLoop sc acc (a # as) (b # bs) = dotLoop sc (scMulAdd sc acc a b) as bs"
| "dotLoop sc acc _ _ = acc"

definition squares :: "'r scorer \<Rightarrow> float32 list \<Rightarrow> 'r" where
  "squares sc v = fold (\<lambda>x acc. scMulAdd sc acc x x) v (scZero sc)"

definition cosineKnown :: "'r scorer \<Rightarrow> float32 list \<Rightarrow> float32 list \<Rightarrow> 'r \<Rightarrow> 'r \<Rightarrow> 'r" where
  "cosineKnown sc a b na nb =
     (let dot = dotLoop sc (scZero sc) a b in
      if na = scZero sc \<or> nb = scZero sc then scZero sc else scQuot sc dot na nb)"

fun cosineLoop :: "'r scorer \<Rightarrow> 'r \<Rightarrow> 'r \<Rightarrow> 'r \<Rightarrow> float32 list \<Rightarrow> float32 list \<Rightarrow> 'r \<times> 'r \<times> 'r" where
  "cosineLoop sc dot na nb (a # as) (b # bs) =
     cosineLoop sc (scMulAdd sc dot a b) (scMulAdd sc na a a) (scMulAdd sc nb b b) as bs"
| "cosineLoop sc dot na nb _ _ = (dot, na, nb)"

definition cosine :: "'r scorer \<Rightarrow> float32 list \<Rightarrow> float32 list \<Rightarrow> 'r" where
  "cosine sc a b =
     (case cosineLoop sc (scZero sc) (scZero sc) (scZero sc) a b of (dot, na, nb) \<Rightarrow>
        if na = scZero sc \<or> nb = scZero sc then scZero sc else scQuot sc dot na nb)"

definition allFinite :: "'r scorer \<Rightarrow> float32 list \<Rightarrow> bool" where
  "allFinite sc v = list_all (scFinite sc) v"

definition decodeStoredVector :: "'r scorer \<Rightarrow> go_value \<Rightarrow> float32 list option" where
  "decodeStoredVector sc raw =
     (case raw of
        VBytes blob \<Rightarrow> (case DecodeVector blob of Inl _ \<Rightarrow> None | Inr v \<Rightarrow> if allFinite sc v then Some v else None)
      | _ \<Rightarrow> None)"

section \<open>The scan\<close>

text \<open>The stored value of a column; the embedding of a row is kept beside its fields.\<close>

definition vectorCell :: "string \<Rightarrow> stored_row \<Rightarrow> go_value" where
  "vectorCell col r =
     (if col = ''_embedding'' then (case srVec r of None \<Rightarrow> VNil | Some b \<Rightarrow> VBytes b) else cell (srCols r) col)"

definition inRows :: "row_scope option \<Rightarrow> stored_row \<Rightarrow> bool" where
  "inRows scope r = (case scope of None \<Rightarrow> True | Some s \<Rightarrow> \<not> ScopeEmpty s \<and> srOwner r = Some (ScopeOwner s))"

text \<open>The rows of the query \<^verbatim>\<open>vectorSource\<close> builds; \<open>flt\<close> is the filter, true of every row when there is none.\<close>

definition vectorSource :: "store_db \<Rightarrow> string \<Rightarrow> string \<Rightarrow> (stored_row \<Rightarrow> bool) \<Rightarrow> row_scope option \<Rightarrow> stored_row list" where
  "vectorSource db table col flt scope =
     filter (\<lambda>r. srTable r = table \<and> inRows scope r \<and> vectorCell col r \<noteq> VNil \<and> flt r) (sdRows db)"

definition candidateIDs ::
    "ticks \<Rightarrow> store_db \<Rightarrow> string \<Rightarrow> string \<Rightarrow> (stored_row \<Rightarrow> bool) \<Rightarrow> row_scope option \<Rightarrow> insert_error + int list" where
  "candidateIDs tk db table col flt scope = istmt tk (Inr (map srId (vectorSource db table col flt scope)))"

type_synonym 'r hits = "(int \<times> 'r) list \<times> nat"

definition addHit :: "(int \<times> 'r) option \<Rightarrow> 'r hits \<Rightarrow> 'r hits" where
  "addHit h r = (case h of None \<Rightarrow> r | Some x \<Rightarrow> (x # fst r, snd r))"

text \<open>The hits and how many rows were skipped.\<close>

fun scanLoop :: "'r scorer \<Rightarrow> string \<Rightarrow> float32 list \<Rightarrow> 'r \<Rightarrow> stored_row list \<Rightarrow> 'r hits" where
  "scanLoop sc col vec threshold [] = ([], 0)"
| "scanLoop sc col vec threshold (r # rs) =
     (case decodeStoredVector sc (vectorCell col r) of
        None \<Rightarrow> (let (hits, skipped) = scanLoop sc col vec threshold rs in (hits, Suc skipped))
      | Some stored \<Rightarrow>
          if length stored \<noteq> length vec then (let (hits, skipped) = scanLoop sc col vec threshold rs in (hits, Suc skipped))
          else
            let score = cosine sc vec stored in
            addHit (if scGe sc score threshold then Some (srId r, score) else None) (scanLoop sc col vec threshold rs))"

definition scanVectors ::
    "'r scorer \<Rightarrow> ticks \<Rightarrow> store_db \<Rightarrow> string \<Rightarrow> string \<Rightarrow> (stored_row \<Rightarrow> bool) \<Rightarrow> row_scope option \<Rightarrow> float32 list \<Rightarrow> 'r
       \<Rightarrow> insert_error + 'r hits" where
  "scanVectors sc tk db table col flt scope vec threshold =
     istmt tk (Inr (scanLoop sc col vec threshold (vectorSource db table col flt scope)))"

section \<open>Entries of the cache\<close>

record vec_fp =
  fpNsGen :: string
  fpDropGen :: int
  fpVersion :: int

text \<open>A vector is \<open>None\<close> when its bytes do not decode; \<open>vePos\<close> finds the place of an id.\<close>

record 'r vec_entry =
  veFp :: vec_fp
  veSeq :: int
  vePos :: "int \<Rightarrow> nat option"
  veIds :: "int list"
  veVecs :: "float32 list option list"
  veSq :: "'r list"
  veOwners :: "string option list"
  veOwned :: bool
  veBytes :: int
  veLastUse :: nat
  veTooBig :: bool

definition newEntry :: "'r vec_entry" where
  "newEntry = \<lparr>veFp = \<lparr>fpNsGen = replicate 16 (CHR 0x00), fpDropGen = 0, fpVersion = 0\<rparr>, veSeq = -1, vePos = Map.empty, veIds = [],
     veVecs = [], veSq = [], veOwners = [], veOwned = False, veBytes = 0, veLastUse = 0, veTooBig = False\<rparr>"

definition vecRowOverhead :: int where "vecRowOverhead = 24 + 8 + 8 + 64 + 24"

definition vecLen :: "float32 list option \<Rightarrow> int" where
  "vecLen v = (case v of None \<Rightarrow> 0 | Some xs \<Rightarrow> int (length xs))"

definition entrySize :: "'r vec_entry \<Rightarrow> int" where
  "entrySize e = sum_list (map (\<lambda>v. vecLen v * 4) (veVecs e)) + int (length (veIds e)) * vecRowOverhead"

definition put :: "'r scorer \<Rightarrow> int \<Rightarrow> go_value \<Rightarrow> string option \<Rightarrow> 'r vec_entry \<Rightarrow> 'r vec_entry" where
  "put sc i raw owner e =
     (let stored = decodeStoredVector sc raw; s = squares sc (case stored of None \<Rightarrow> [] | Some v \<Rightarrow> v) in
      case vePos e i of
        Some k \<Rightarrow> e\<lparr>veVecs := (veVecs e)[k := stored], veSq := (veSq e)[k := s], veOwners := (veOwners e)[k := owner]\<rparr>
      | None \<Rightarrow> e\<lparr>vePos := (vePos e)(i \<mapsto> length (veIds e)), veIds := veIds e @ [i], veVecs := veVecs e @ [stored],
                   veSq := veSq e @ [s], veOwners := veOwners e @ [owner]\<rparr>)"

text \<open>The last element moves into the gap.\<close>

definition moveLast :: "nat \<Rightarrow> 'a list \<Rightarrow> 'a list" where
  "moveLast k xs = (xs[k := last xs])"

definition remove :: "int \<Rightarrow> 'r vec_entry \<Rightarrow> 'r vec_entry" where
  "remove i e =
     (case vePos e i of
        None \<Rightarrow> e
      | Some k \<Rightarrow>
          let ids = moveLast k (veIds e) in
          e\<lparr>veIds := butlast ids, veVecs := butlast (moveLast k (veVecs e)), veSq := butlast (moveLast k (veSq e)),
            veOwners := butlast (moveLast k (veOwners e)), vePos := (vePos e)(ids ! k := Some k, i := None)\<rparr>)"

definition ownerOf :: "bool \<Rightarrow> stored_row \<Rightarrow> string option" where
  "ownerOf owned r = (if owned then srOwner r else None)"

definition putRow :: "'r scorer \<Rightarrow> string \<Rightarrow> stored_row \<Rightarrow> 'r vec_entry \<Rightarrow> 'r vec_entry" where
  "putRow sc col r e = put sc (srId r) (vectorCell col r) (ownerOf (veOwned e) r) e"

fun rebuildLoop :: "'r scorer \<Rightarrow> string \<Rightarrow> int \<Rightarrow> int \<Rightarrow> stored_row list \<Rightarrow> 'r vec_entry \<Rightarrow> bool \<times> 'r vec_entry" where
  "rebuildLoop sc col limit bytes [] e = (True, e)"
| "rebuildLoop sc col limit bytes (r # rs) e =
     (let e = putRow sc col r e; bytes = bytes + vecLen (last (veVecs e)) * 4 + vecRowOverhead in
      if bytes > limit then (False, e) else rebuildLoop sc col limit bytes rs e)"

text \<open>Emptied before the query: an error leaves the entry without rows.\<close>

definition rebuild ::
    "'r scorer \<Rightarrow> ticks \<Rightarrow> store_db \<Rightarrow> string \<Rightarrow> string \<Rightarrow> bool \<Rightarrow> int \<Rightarrow> 'r vec_entry \<Rightarrow> (insert_error + bool) \<times> 'r vec_entry" where
  "rebuild sc tk db table col owned limit e =
     (let e = e\<lparr>vePos := Map.empty, veIds := [], veVecs := [], veSq := [], veOwners := [], veOwned := owned\<rparr> in
      case istmt tk (Inr (sort_key srId (vectorSource db table col (\<lambda>_. True) None))) of
        Inl err \<Rightarrow> (Inl err, e)
      | Inr rows \<Rightarrow> (case rebuildLoop sc col limit 0 rows e of (fit, e) \<Rightarrow> (Inr fit, e)))"

text \<open>The touched rows in runs of 500: each run is taken out and what is left of it put back.\<close>

function catchRows ::
    "'r scorer \<Rightarrow> ticks \<Rightarrow> nat \<Rightarrow> store_db \<Rightarrow> string \<Rightarrow> string \<Rightarrow> int list \<Rightarrow> 'r vec_entry \<Rightarrow> (insert_error + bool) \<times> 'r vec_entry" where
  "catchRows sc tk k db table col touched e =
     (if touched = [] then (Inr True, e)
      else
        let chunk = take 500 touched; e = fold remove chunk e in
        case istmt (sub tk k) (Inr (filter (\<lambda>r. srId r \<in> set chunk) (vectorSource db table col (\<lambda>_. True) None))) of
          Inl err \<Rightarrow> (Inl err, e)
        | Inr rows \<Rightarrow> catchRows sc tk (Suc k) db table col (drop 500 touched) (fold (putRow sc col) rows e))"
  by pat_completeness auto
termination by (relation "measure (\<lambda>(sc, tk, k, db, table, col, touched, e). length touched)") auto

declare catchRows.simps [simp del]

definition touchedRows :: "store_db \<Rightarrow> string \<Rightarrow> int \<Rightarrow> int \<Rightarrow> int list" where
  "touchedRows db table from head =
     remdups (map ctRow (filter (\<lambda>c. ctTable c = table \<and> seq c > from \<and> seq c \<le> head) (clog (sdLog db))))"

definition catchUp ::
    "'r scorer \<Rightarrow> ticks \<Rightarrow> store_db \<Rightarrow> string \<Rightarrow> string \<Rightarrow> int \<Rightarrow> 'r vec_entry \<Rightarrow> (insert_error + bool) \<times> 'r vec_entry" where
  "catchUp sc tk db table col head e =
     (case istmt (sub tk 0) (Inr (minSeq (clog (sdLog db)))) of
        Inl err \<Rightarrow> (Inl err, e)
      | Inr oldest \<Rightarrow>
          if (case oldest of None \<Rightarrow> True | Some s \<Rightarrow> s > veSeq e + 1) then (Inr False, e)
          else
            (case istmt (sub tk 1) (Inr (touchedRows db table (veSeq e) head)) of
               Inl err \<Rightarrow> (Inl err, e)
             | Inr touched \<Rightarrow> catchRows sc (sub tk 2) 0 db table col touched e))"

section \<open>The cache\<close>

type_synonym vec_key = "string \<times> string \<times> string"

text \<open>\<open>vcHeap\<close> holds the entries, \<open>vcEntries\<close> which of them is registered under a key.\<close>

record 'r vec_cache =
  vcMax :: int
  vcUsed :: int
  vcTick :: nat
  vcEntries :: "(vec_key \<times> nat) list"
  vcHeap :: "'r vec_entry list"

definition setBytes :: "nat \<Rightarrow> int \<Rightarrow> 'r vec_cache \<Rightarrow> 'r vec_cache" where
  "setBytes a n c = c\<lparr>vcHeap := (vcHeap c)[a := (vcHeap c ! a)\<lparr>veBytes := n\<rparr>]\<rparr>"

definition bytesAt :: "'r vec_cache \<Rightarrow> nat \<Rightarrow> int" where
  "bytesAt c a = veBytes (vcHeap c ! a)"

definition cacheEntry :: "vec_key \<Rightarrow> 'r vec_cache \<Rightarrow> nat \<times> 'r vec_cache" where
  "cacheEntry k c =
     (let (a, c) = (case map_of (vcEntries c) k of
                      Some a \<Rightarrow> (a, c)
                    | None \<Rightarrow> (length (vcHeap c),
                        c\<lparr>vcHeap := vcHeap c @ [newEntry], vcEntries := AList.update k (length (vcHeap c)) (vcEntries c)\<rparr>));
          c = c\<lparr>vcTick := vcTick c + 1\<rparr> in
      (a, c\<lparr>vcHeap := (vcHeap c)[a := (vcHeap c ! a)\<lparr>veLastUse := vcTick c\<rparr>]\<rparr>))"

definition claim :: "vec_key \<Rightarrow> nat \<Rightarrow> 'r vec_cache \<Rightarrow> 'r vec_cache" where
  "claim k a c =
     (if map_of (vcEntries c) k = Some a then c
      else
        let c = (case map_of (vcEntries c) k of
                   None \<Rightarrow> c
                 | Some b \<Rightarrow> setBytes b 0 (c\<lparr>vcUsed := vcUsed c - bytesAt c b\<rparr>)) in
        c\<lparr>vcEntries := AList.update k a (vcEntries c)\<rparr>)"

text \<open>The registered entry used longest ago, other than \<open>a\<close>.\<close>

definition older :: "nat \<Rightarrow> 'r vec_cache \<Rightarrow> vec_key \<times> nat \<Rightarrow> (vec_key \<times> nat) option \<Rightarrow> (vec_key \<times> nat) option" where
  "older a c cand best =
     (if snd cand = a then best
      else
        (case best of
           None \<Rightarrow> Some cand
         | Some b \<Rightarrow> if veLastUse (vcHeap c ! snd cand) < veLastUse (vcHeap c ! snd b) then Some cand else best))"

definition oldestEntry :: "nat \<Rightarrow> 'r vec_cache \<Rightarrow> (vec_key \<times> nat) option" where
  "oldestEntry a c = fold (older a c) (vcEntries c) None"

lemma older_cases: "older a c cand best = best \<or> older a c cand best = Some cand \<and> snd cand \<noteq> a"
  by (cases best) (simp_all add: older_def)

lemma fold_older: "fold (older a c) xs best = best \<or> (\<exists>x \<in> set xs. fold (older a c) xs best = Some x \<and> snd x \<noteq> a)"
proof (induction xs arbitrary: best)
  case (Cons x xs)
  from Cons.IH [of "older a c x best"] older_cases [of a c x best] show ?case by auto
qed simp

lemma oldestEntry_mem: "oldestEntry a c = Some (k, b) \<Longrightarrow> (k, b) \<in> set (vcEntries c) \<and> b \<noteq> a"
  using fold_older [of a c "vcEntries c" None] by (auto simp: oldestEntry_def)

lemma delete_shorter: "(k, v) \<in> set al \<Longrightarrow> length (AList.delete k al) < length al"
proof (induction al)
  case (Cons x al)
  have "length (AList.delete k al) \<le> length al" by (simp add: AList.delete_eq)
  with Cons show ?case by (cases x) auto
qed simp

definition evict :: "vec_key \<Rightarrow> nat \<Rightarrow> 'r vec_cache \<Rightarrow> 'r vec_cache" where
  "evict k b c =
     (let c = setBytes b 0 (c\<lparr>vcUsed := vcUsed c - bytesAt c b\<rparr>) in c\<lparr>vcEntries := AList.delete k (vcEntries c)\<rparr>)"

lemma evict_entries [simp]: "vcEntries (evict k b c) = AList.delete k (vcEntries c)" "vcMax (evict k b c) = vcMax c"
  by (simp_all add: evict_def setBytes_def Let_def)

function evictLoop :: "nat \<Rightarrow> 'r vec_cache \<Rightarrow> 'r vec_cache" where
  "evictLoop a c =
     (if vcUsed c > vcMax c then
        (case oldestEntry a c of None \<Rightarrow> c | Some (k, b) \<Rightarrow> evictLoop a (evict k b c))
      else c)"
  by pat_completeness auto
termination
  by (relation "measure (\<lambda>(a, c). length (vcEntries c))") (auto dest: oldestEntry_mem intro: delete_shorter)

declare evictLoop.simps [simp del]

text \<open>The entry \<open>a\<close> now has this size; whether it stays.\<close>

definition account :: "vec_key \<Rightarrow> nat \<Rightarrow> int \<Rightarrow> 'r vec_cache \<Rightarrow> bool \<times> 'r vec_cache" where
  "account k a bytes c =
     (let c = claim k a c;
          c = setBytes a bytes (c\<lparr>vcUsed := vcUsed c + bytes - bytesAt c a\<rparr>) in
      if bytes > vcMax c then
        (False, (setBytes a 0 c)\<lparr>vcUsed := vcUsed c - bytes, vcEntries := AList.delete k (vcEntries c)\<rparr>)
      else (True, evictLoop a c))"

definition drop_entry :: "vec_key \<Rightarrow> nat \<Rightarrow> 'r vec_cache \<Rightarrow> 'r vec_cache" where
  "drop_entry k a c = (if map_of (vcEntries c) k = Some a then evict k a c else c)"

section \<open>A search\<close>

definition changeCounter :: "ticks \<Rightarrow> store_db \<Rightarrow> insert_error + int" where
  "changeCounter tk db = istmt tk (Inr (lastSeq (sdLog db)))"

definition vectorFingerprint :: "ticks \<Rightarrow> store_db \<Rightarrow> string \<Rightarrow> insert_error + vec_fp" where
  "vectorFingerprint tk db table =
     bindR (ofLog (readNSGen (sub tk 0) (sdLog db))) (\<lambda>gen.
     bindR (ofLog (tableGen (sub tk 1) (sdLog db) table)) (\<lambda>dropGen.
       istmt (sub tk 2)
        (if map_of (schemas (sdLog db)) table = None then Inl (InsSql ''no rows'')
         else Inr \<lparr>fpNsGen = gen, fpDropGen = dropGen, fpVersion = mVersion (metaOf db table)\<rparr>)))"

definition tooBigRetryChanges :: int where "tooBigRetryChanges = 1000"

text \<open>What bringing an entry up to date comes to; \<open>Fresh\<close> carries whether the rows fit.\<close>

datatype freshness = StillTooBig | Stale | Failed insert_error | Fresh bool

definition refreshEntry ::
    "'r scorer \<Rightarrow> ticks \<Rightarrow> store_db \<Rightarrow> string \<Rightarrow> string \<Rightarrow> bool \<Rightarrow> int \<Rightarrow> int \<Rightarrow> vec_fp \<Rightarrow> 'r vec_entry \<Rightarrow> freshness \<times> 'r vec_entry" where
  "refreshEntry sc tk db table col owned limit head fp e =
     (if veTooBig e \<and> veFp e = fp \<and> head - veSeq e < tooBigRetryChanges then (StillTooBig, e)
      else
        let wasTooBig = veTooBig e; e = e\<lparr>veTooBig := False\<rparr> in
        if wasTooBig \<or> veSeq e < 0 \<or> veFp e \<noteq> fp \<or> veSeq e > head then
          if veFp e = fp \<and> veSeq e > head then (Stale, e)
          else
            (case rebuild sc (sub tk 0) db table col owned limit e of
               (Inl err, e) \<Rightarrow> (Failed err, e)
             | (Inr fit, e) \<Rightarrow> (Fresh fit, e\<lparr>veFp := fp, veSeq := head\<rparr>))
        else if veSeq e < head then
          (case catchUp sc (sub tk 1) db table col head e of
             (Inl err, e) \<Rightarrow> (Failed err, e)
           | (Inr True, e) \<Rightarrow> (Fresh True, e\<lparr>veSeq := head\<rparr>)
           | (Inr False, e) \<Rightarrow>
               (case rebuild sc (sub tk 0) db table col owned limit e of
                  (Inl err, e) \<Rightarrow> (Failed err, e)
                | (Inr fit, e) \<Rightarrow> (Fresh fit, e\<lparr>veSeq := head\<rparr>)))
        else (Fresh True, e))"

text \<open>The part under the lock of the entry: the address of an entry that may be read, or none.\<close>

definition setEntry :: "nat \<Rightarrow> 'r vec_entry \<Rightarrow> 'r vec_cache \<Rightarrow> 'r vec_cache" where
  "setEntry a e c = c\<lparr>vcHeap := (vcHeap c)[a := e]\<rparr>"

definition emptied :: "vec_fp \<Rightarrow> int \<Rightarrow> 'r vec_entry \<Rightarrow> 'r vec_entry" where
  "emptied fp head e =
     e\<lparr>veTooBig := True, veFp := fp, veSeq := head, vePos := Map.empty, veIds := [], veVecs := [], veSq := [], veOwners := []\<rparr>"

definition refresh ::
    "'r scorer \<Rightarrow> ticks \<Rightarrow> store_db \<Rightarrow> vec_key \<Rightarrow> bool \<Rightarrow> int \<Rightarrow> vec_fp \<Rightarrow> nat \<Rightarrow> 'r vec_cache
       \<Rightarrow> (insert_error + nat option) \<times> 'r vec_cache" where
  "refresh sc tk db k owned head fp a c =
     (case k of (ns, table, col) \<Rightarrow>
        (case refreshEntry sc tk db table col owned (vcMax c) head fp (vcHeap c ! a) of
           (StillTooBig, e) \<Rightarrow> (Inr None, setEntry a e c)
         | (Stale, e) \<Rightarrow> (Inr None, setEntry a e c)
         | (Failed err, e) \<Rightarrow> (Inl err, drop_entry k a (setEntry a e c))
         | (Fresh fit, e) \<Rightarrow>
             (case (if fit then account k a (entrySize e) (setEntry a e c) else (False, drop_entry k a (setEntry a e c))) of
                (True, c) \<Rightarrow> (Inr (Some a), c)
              | (False, c) \<Rightarrow> (Inr None, claim k a (setEntry a (emptied fp head (vcHeap c ! a)) c)))))"

section \<open>Reading an entry\<close>

text \<open>The places to read; none when a wanted row is not there, or the entry keeps no owners.\<close>

fun lookups :: "(int \<Rightarrow> nat option) \<Rightarrow> int list \<Rightarrow> nat list option" where
  "lookups pos [] = Some []"
| "lookups pos (i # ids) =
     (case pos i of None \<Rightarrow> None | Some k \<Rightarrow> (case lookups pos ids of None \<Rightarrow> None | Some ks \<Rightarrow> Some (k # ks)))"

definition scoreRows :: "'r vec_entry \<Rightarrow> int list option \<Rightarrow> row_scope option \<Rightarrow> nat list option" where
  "scoreRows e only scope =
     (case only of
        Some ids \<Rightarrow> lookups (vePos e) ids
      | None \<Rightarrow>
          (case scope of
             None \<Rightarrow> Some [0..<length (veVecs e)]
           | Some s \<Rightarrow>
               if \<not> ScopeEmpty s \<and> \<not> veOwned e then None
               else Some (if ScopeEmpty s then []
                          else filter (\<lambda>i. veOwners e ! i = Some (ScopeOwner s)) [0..<length (veOwners e)])))"

fun scoreLoop :: "'r scorer \<Rightarrow> 'r vec_entry \<Rightarrow> float32 list \<Rightarrow> 'r \<Rightarrow> 'r \<Rightarrow> nat list \<Rightarrow> 'r hits" where
  "scoreLoop sc e vec qa threshold [] = ([], 0)"
| "scoreLoop sc e vec qa threshold (i # is) =
     (case veVecs e ! i of
        None \<Rightarrow> (let (hits, skipped) = scoreLoop sc e vec qa threshold is in (hits, Suc skipped))
      | Some stored \<Rightarrow>
          if length stored \<noteq> length vec then (let (hits, skipped) = scoreLoop sc e vec qa threshold is in (hits, Suc skipped))
          else
            let score = cosineKnown sc vec stored qa (veSq e ! i) in
            addHit (if scGe sc score threshold then Some (veIds e ! i, score) else None) (scoreLoop sc e vec qa threshold is))"

definition parallelScoreRows :: nat where "parallelScoreRows = 8192"

definition scoreWorkers :: "nat \<Rightarrow> nat \<Rightarrow> nat" where
  "scoreWorkers procs n = (if n \<ge> parallelScoreRows then min procs (n div (parallelScoreRows div 4)) else 1)"

text \<open>Each worker takes a run of the rows; their parts are joined in order.\<close>

definition scoreParts :: "'r scorer \<Rightarrow> nat \<Rightarrow> 'r vec_entry \<Rightarrow> float32 list \<Rightarrow> 'r \<Rightarrow> nat list \<Rightarrow> 'r hits" where
  "scoreParts sc procs e vec threshold rows =
     (let n = length rows; workers = scoreWorkers procs n; chunk = (n + workers - 1) div workers; qa = squares sc vec;
          parts = map (\<lambda>w. scoreLoop sc e vec qa threshold (drop (w * chunk) (take (min ((w + 1) * chunk) n) rows))) [0..<workers] in
      (concat (map fst parts), sum_list (map snd parts)))"

text \<open>The part after the lock, on the entry as it is found then; \<open>flt\<close> is the filter, if there is one.\<close>

definition scoreRead ::
    "'r scorer \<Rightarrow> nat \<Rightarrow> ticks \<Rightarrow> store_db \<Rightarrow> string \<Rightarrow> string \<Rightarrow> (stored_row \<Rightarrow> bool) option \<Rightarrow> row_scope option \<Rightarrow> float32 list \<Rightarrow> 'r
       \<Rightarrow> int \<Rightarrow> vec_fp \<Rightarrow> 'r vec_entry \<Rightarrow> insert_error + 'r hits option" where
  "scoreRead sc procs tk db table col flt scope vec threshold head fp e =
     bindR (case flt of None \<Rightarrow> Inr None | Some f \<Rightarrow> bindR (candidateIDs tk db table col f scope) (\<lambda>ids. Inr (Some ids))) (\<lambda>only.
       if veSeq e \<noteq> head \<or> veFp e \<noteq> fp then Inr None
       else
         (case scoreRows e only scope of
            None \<Rightarrow> Inr None
          | Some rows \<Rightarrow> Inr (Some (scoreParts sc procs e vec threshold rows))))"

text \<open>What a search that reads the cache starts with: the counter of changes, the fingerprint and the entry.\<close>

definition scoreStart :: "ticks \<Rightarrow> store_db \<Rightarrow> vec_key \<Rightarrow> 'r vec_cache \<Rightarrow> (insert_error + int \<times> vec_fp \<times> nat) \<times> 'r vec_cache" where
  "scoreStart tk db k c =
     (case bindR (changeCounter (sub tk 0) db) (\<lambda>head.
           bindR (vectorFingerprint (sub tk 1) db (fst (snd k))) (\<lambda>fp. Inr (head, fp))) of
        Inl e \<Rightarrow> (Inl e, c)
      | Inr (head, fp) \<Rightarrow> (case cacheEntry k c of (a, c) \<Rightarrow> (Inr (head, fp, a), c)))"

end
