(* ===== verification/Store_Vectors_Props.thy ===== *)
theory Store_Vectors_Props
  imports Store_Vectors "HOL-Library.Multiset"
begin

text \<open>
  What one entry of the vector cache holds: the places, ids and values of an entry agree, so that it
  is a map from row ids; rebuilding and catching up make it the map of a snapshot; and a search
  that reads an entry which holds its snapshot finds what a scan finds.
\<close>

section \<open>Scores\<close>

lemma cosineLoop_parts:
  "length a = length b \<Longrightarrow> cosineLoop sc dot na nb a b
     = (dotLoop sc dot a b, fold (\<lambda>x acc. scMulAdd sc acc x x) a na, fold (\<lambda>x acc. scMulAdd sc acc x x) b nb)"
  by (induction a b arbitrary: dot na nb rule: list_induct2) simp_all

lemma cosine_known: "length a = length b \<Longrightarrow> cosine sc a b = cosineKnown sc a b (squares sc a) (squares sc b)"
  by (simp add: cosine_def cosineKnown_def cosineLoop_parts squares_def Let_def)

section \<open>Entries as maps\<close>

text \<open>What a structure indexed by row ids promises, and what follows for runs of operations.\<close>

locale id_index =
  fixes lookup :: "'e \<Rightarrow> int \<Rightarrow> 'v option" and ins :: "'row \<Rightarrow> 'e \<Rightarrow> 'e" and del :: "int \<Rightarrow> 'e \<Rightarrow> 'e"
    and inv :: "'e \<Rightarrow> bool" and key :: "'row \<Rightarrow> int" and val :: "'row \<Rightarrow> 'v"
  assumes ins: "inv e \<Longrightarrow> inv (ins r e) \<and> lookup (ins r e) = (lookup e)(key r \<mapsto> val r)"
    and del: "inv e \<Longrightarrow> inv (del i e) \<and> lookup (del i e) = (lookup e)(i := None)"
begin

lemma fold_del: "inv e \<Longrightarrow> inv (fold del ids e) \<and> lookup (fold del ids e) = (\<lambda>i. if i \<in> set ids then None else lookup e i)"
proof (induction ids arbitrary: e)
  case (Cons i ids)
  from Cons.IH [of "del i e"] del [OF Cons.prems, of i] show ?case by (auto simp: fun_eq_iff)
qed simp

lemma fold_ins:
  assumes "inv e" "distinct (map key rs)"
  shows "inv (fold ins rs e) \<and> lookup (fold ins rs e)
    = (\<lambda>i. case map_of (map (\<lambda>r. (key r, val r)) rs) i of None \<Rightarrow> lookup e i | Some v \<Rightarrow> Some v)"
  using assms
proof (induction rs arbitrary: e)
  case (Cons r rs)
  have none: "map_of (map (\<lambda>r. (key r, val r)) rs) (key r) = None"
    using Cons.prems(2) by (auto simp: map_of_eq_None_iff)
  from Cons.IH [of "ins r e"] ins [OF Cons.prems(1), of r] Cons.prems(2) none show ?case
    by (auto simp: fun_eq_iff split: option.splits)
qed simp

end

text \<open>The places, ids and values of an entry agree.\<close>

definition entry_wf :: "'r vec_entry \<Rightarrow> bool" where
  "entry_wf e \<longleftrightarrow> length (veVecs e) = length (veIds e) \<and> length (veSq e) = length (veIds e)
     \<and> length (veOwners e) = length (veIds e)
     \<and> (\<forall>i k. vePos e i = Some k \<longleftrightarrow> k < length (veIds e) \<and> veIds e ! k = i)"

definition contents :: "'r vec_entry \<Rightarrow> int \<Rightarrow> (float32 list option \<times> 'r \<times> string option) option" where
  "contents e i = map_option (\<lambda>k. (veVecs e ! k, veSq e ! k, veOwners e ! k)) (vePos e i)"

definition vecSquares :: "'r scorer \<Rightarrow> float32 list option \<Rightarrow> 'r" where
  "vecSquares sc v = squares sc (case v of None \<Rightarrow> [] | Some v \<Rightarrow> v)"

definition rowValue :: "'r scorer \<Rightarrow> string \<Rightarrow> bool \<Rightarrow> stored_row \<Rightarrow> float32 list option \<times> 'r \<times> string option" where
  "rowValue sc col owned r =
     (let v = decodeStoredVector sc (vectorCell col r) in (v, vecSquares sc v, ownerOf owned r))"

lemma wf_distinct: "entry_wf e \<Longrightarrow> distinct (veIds e)"
  unfolding entry_wf_def distinct_conv_nth by (metis option.inject)

lemma put_owned [simp]: "veOwned (put sc i raw owner e) = veOwned e" "veOwned (remove i e) = veOwned e"
  "veOwned (putRow sc col r e) = veOwned e"
  by (simp_all add: put_def remove_def putRow_def Let_def split: option.split)

lemma wf_pos:
  assumes "entry_wf e"
  shows "vePos e i = Some k \<longleftrightarrow> k < length (veIds e) \<and> veIds e ! k = i"
  using assms by (simp add: entry_wf_def)

lemma wf_lengths:
  assumes "entry_wf e"
  shows "length (veVecs e) = length (veIds e)" "length (veSq e) = length (veIds e)" "length (veOwners e) = length (veIds e)"
  using assms by (simp_all add: entry_wf_def)

lemma wf_nth: "entry_wf e \<Longrightarrow> k < length (veIds e) \<Longrightarrow> vePos e (veIds e ! k) = Some k"
  by (simp add: wf_pos)

lemma put_wf:
  assumes wf: "entry_wf e"
  shows "entry_wf (put sc i raw owner e)"
    and "contents (put sc i raw owner e) = (contents e)(i \<mapsto> (let v = decodeStoredVector sc raw in (v, vecSquares sc v, owner)))"
proof -
  note w = wf_pos [OF wf] wf_lengths [OF wf]
  have "entry_wf (put sc i raw owner e) \<and>
    contents (put sc i raw owner e) = (contents e)(i \<mapsto> (let v = decodeStoredVector sc raw in (v, vecSquares sc v, owner)))"
  proof (cases "vePos e i")
    case None
    then have new: "i \<notin> set (veIds e)" by (metis in_set_conv_nth option.distinct(1) w(1))
    have "contents e j = map_option (\<lambda>k. ((veVecs e @ [v]) ! k, (veSq e @ [s]) ! k, (veOwners e @ [ow]) ! k)) (vePos e j)" for j v s ow
    proof (cases "vePos e j")
      case (Some k)
      then have "k < length (veIds e)" using w(1) by simp
      with Some w(2-4) show ?thesis by (simp add: contents_def nth_append)
    qed (simp add: contents_def)
    with None new w show ?thesis
      by (auto simp: put_def Let_def entry_wf_def contents_def fun_eq_iff nth_append less_Suc_eq vecSquares_def in_set_conv_nth)
  next
    case (Some k)
    define v where "v = decodeStoredVector sc raw"
    have e: "put sc i raw owner e = e\<lparr>veVecs := (veVecs e)[k := v], veSq := (veSq e)[k := vecSquares sc v], veOwners := (veOwners e)[k := owner]\<rparr>"
      using Some by (simp add: put_def Let_def v_def vecSquares_def)
    have k: "k < length (veIds e)" using iffD1 [OF w(1) Some] by simp
    have "contents (put sc i raw owner e) j = ((contents e)(i \<mapsto> (v, vecSquares sc v, owner))) j" for j
    proof (cases "vePos e j")
      case (Some n)
      then have "n = k \<longleftrightarrow> j = i"
        using \<open>vePos e i = Some k\<close> nth_eq_iff_index_eq [OF wf_distinct [OF wf]] by (metis w(1))
      with Some k w(2-4) show ?thesis by (auto simp: e contents_def)
    next
      case None
      with \<open>vePos e i = Some k\<close> have "j \<noteq> i" by auto
      with None show ?thesis by (simp add: e contents_def)
    qed
    moreover have "entry_wf (put sc i raw owner e)" using wf by (simp add: e entry_wf_def)
    ultimately show ?thesis by (simp add: fun_eq_iff v_def Let_def)
  qed
  then show "entry_wf (put sc i raw owner e)"
    "contents (put sc i raw owner e) = (contents e)(i \<mapsto> (let v = decodeStoredVector sc raw in (v, vecSquares sc v, owner)))"
    by simp_all
qed

lemma moveLast_nth:
  assumes "k < length xs" "j < length xs - 1"
  shows "butlast (moveLast k xs) ! j = (if j = k then last xs else xs ! j)"
  using assms by (simp add: moveLast_def nth_butlast nth_list_update)

lemma moveLast_length [simp]: "length (moveLast k xs) = length xs"
  by (simp add: moveLast_def)

lemma remove_wf:
  assumes wf: "entry_wf e"
  shows "entry_wf (remove i e)" and "contents (remove i e) = (contents e)(i := None)"
proof -
  note w = wf_pos [OF wf] wf_lengths [OF wf]
  have "entry_wf (remove i e) \<and> contents (remove i e) = (contents e)(i := None)"
  proof (cases "vePos e i")
    case None
    then show ?thesis using wf by (simp add: remove_def contents_def fun_eq_iff)
  next
    case (Some k)
    define m where "m = length (veIds e) - 1"
    have k: "k < length (veIds e)" "veIds e ! k = i" using Some w by auto
    then have m: "length (veIds e) = Suc m" by (simp add: m_def)
    have at_last: "last (veIds e) = veIds e ! m" "last (veVecs e) = veVecs e ! m" "last (veSq e) = veSq e ! m"
      "last (veOwners e) = veOwners e ! m" using m w(2-4) by (subst last_conv_nth; force)+
    let ?e = "remove i e"
    have ids: "moveLast k (veIds e) ! k = veIds e ! m" using k at_last by (simp add: moveLast_def)
    have e: "vePos ?e = (vePos e)(veIds e ! m := Some k, i := None)" "veIds ?e = butlast (moveLast k (veIds e))"
      "veVecs ?e = butlast (moveLast k (veVecs e))" "veSq ?e = butlast (moveLast k (veSq e))"
      "veOwners ?e = butlast (moveLast k (veOwners e))"
      using Some ids by (simp_all add: remove_def Let_def)
    have inj: "veIds e ! a = veIds e ! b \<longleftrightarrow> a = b" if "a < Suc m" "b < Suc m" for a b
      using wf_distinct [OF wf] that m by (simp add: nth_eq_iff_index_eq)
    have vals: "veIds ?e ! j = veIds e ! (if j = k then m else j)" "veVecs ?e ! j = veVecs e ! (if j = k then m else j)"
      "veSq ?e ! j = veSq e ! (if j = k then m else j)" "veOwners ?e ! j = veOwners e ! (if j = k then m else j)" if "j < m" for j
      using that k m w(2-4) at_last by (simp_all add: e moveLast_nth)
    have pos: "vePos ?e j = Some n \<longleftrightarrow> n < m \<and> veIds ?e ! n = j" for j n
      using k m w(1) inj vals(1) by (auto simp: e(1) less_Suc_eq)
    have "entry_wf ?e" using pos m w(2-4) by (simp add: entry_wf_def e(2-5))
    moreover have "contents ?e j = ((contents e)(i := None)) j" for j
    proof (cases "vePos ?e j")
      case None
      then have "j = i \<or> vePos e j = None" unfolding e(1) by (simp split: if_splits)
      with None show ?thesis by (auto simp: contents_def)
    next
      case (Some n)
      then have n: "n < m" "veIds e ! (if n = k then m else n) = j" using iffD1 [OF pos Some] vals(1) [of n] by simp_all
      then have "vePos e j = Some (if n = k then m else n)" using m by (subst w(1)) simp
      moreover have "j \<noteq> i"
      proof -
        have "(if n = k then m else n) \<noteq> k" "(if n = k then m else n) < Suc m" using n(1) by auto
        with inj [of "if n = k then m else n" k] k m n(2) show ?thesis by simp
      qed
      ultimately show ?thesis using Some vals n(1) by (simp add: contents_def)
    qed
    ultimately show ?thesis by (simp add: fun_eq_iff)
  qed
  then show "entry_wf (remove i e)" "contents (remove i e) = (contents e)(i := None)" by simp_all
qed

interpretation vec: id_index contents "putRow sc col" remove "\<lambda>e. entry_wf e \<and> veOwned e = owned" srId "rowValue sc col owned"
  for sc :: "'r scorer" and col :: string and owned :: bool
  by unfold_locales (simp_all add: put_wf remove_wf putRow_def rowValue_def Let_def)

section \<open>Coherent entries\<close>

text \<open>The rows of a column by id, and what an entry that knows them all holds.\<close>

definition vecSource :: "store_db \<Rightarrow> string \<Rightarrow> string \<Rightarrow> stored_row list" where
  "vecSource db table col = vectorSource db table col (\<lambda>_. True) None"

lemma map_of_filter_ids:
  "map_of (map (\<lambda>r. (k r, v r)) (filter (\<lambda>r. k r \<in> S) rs)) i = (if i \<in> S then map_of (map (\<lambda>r. (k r, v r)) rs) i else None)"
  by (induction rs) auto

definition vecRows :: "'r scorer \<Rightarrow> store_db \<Rightarrow> string \<Rightarrow> string \<Rightarrow> bool \<Rightarrow> int \<Rightarrow> (float32 list option \<times> 'r \<times> string option) option" where
  "vecRows sc db table col owned = map_of (map (\<lambda>r. (srId r, rowValue sc col owned r)) (vecSource db table col))"

definition rawRows :: "store_db \<Rightarrow> string \<Rightarrow> string \<Rightarrow> int \<Rightarrow> (go_value \<times> string option) option" where
  "rawRows db table col = map_of (map (\<lambda>r. (srId r, (vectorCell col r, srOwner r))) (vecSource db table col))"

definition rawValue :: "'r scorer \<Rightarrow> bool \<Rightarrow> go_value \<times> string option \<Rightarrow> float32 list option \<times> 'r \<times> string option" where
  "rawValue sc owned x =
     (let v = decodeStoredVector sc (fst x) in (v, vecSquares sc v, if owned then snd x else None))"

lemma map_of_map_snd: "map_of (map (\<lambda>r. (f r, g (h r))) xs) i = map_option g (map_of (map (\<lambda>r. (f r, h r)) xs) i)"
  by (induction xs) auto

lemma vecRows_raw: "vecRows sc db table col owned i = map_option (rawValue sc owned) (rawRows db table col i)"
proof -
  have "rowValue sc col owned r = rawValue sc owned (vectorCell col r, srOwner r)" for r
    by (simp add: rowValue_def rawValue_def ownerOf_def Let_def)
  then show ?thesis 
    by (simp add: vecRows_def rawRows_def
        map_of_map_snd [where g = "rawValue sc owned" and h = "\<lambda>r. (vectorCell col r, srOwner r)"])
qed

definition ids_distinct :: "store_db \<Rightarrow> string \<Rightarrow> bool" where
  "ids_distinct db table \<longleftrightarrow> distinct (map srId (filter (\<lambda>r. srTable r = table) (sdRows db)))"

lemma vectorSource_distinct:
  assumes "ids_distinct db table"
  shows "distinct (map srId (vectorSource db table col flt scope))"
proof -
  have "vectorSource db table col flt scope
    = filter (\<lambda>r. inRows scope r \<and> vectorCell col r \<noteq> VNil \<and> flt r) (filter (\<lambda>r. srTable r = table) (sdRows db))"
    by (simp add: vectorSource_def)
  with assms show ?thesis by (simp only: ids_distinct_def distinct_map_filter)
qed

lemma vecSource_distinct: "ids_distinct db table \<Longrightarrow> distinct (map srId (vecSource db table col))"
  unfolding vecSource_def by (rule vectorSource_distinct)

definition coherent :: "'r scorer \<Rightarrow> store_db \<Rightarrow> string \<Rightarrow> string \<Rightarrow> bool \<Rightarrow> 'r vec_entry \<Rightarrow> bool" where
  "coherent sc db table col owned e \<longleftrightarrow> entry_wf e \<and> veOwned e = owned \<and> contents e = vecRows sc db table col owned"

text \<open>The memory the rows of a snapshot take.\<close>

definition rowSize :: "'r scorer \<Rightarrow> string \<Rightarrow> stored_row \<Rightarrow> int" where
  "rowSize sc col r = vecLen (decodeStoredVector sc (vectorCell col r)) * 4 + vecRowOverhead"

definition snapSize :: "'r scorer \<Rightarrow> store_db \<Rightarrow> string \<Rightarrow> string \<Rightarrow> int" where
  "snapSize sc db table col = sum_list (map (rowSize sc col) (vecSource db table col))"

lemma rebuildLoop_fold:
  "rebuildLoop sc col limit bytes rs e = (True, e') \<Longrightarrow> e' = fold (putRow sc col) rs e"
  by (induction rs arbitrary: bytes e) (auto simp: Let_def split: if_splits)

lemma putRow_last:
  assumes "entry_wf e" "contents e (srId r) = None"
  shows "last (veVecs (putRow sc col r e)) = decodeStoredVector sc (vectorCell col r)"
  using assms by (auto simp: putRow_def put_def Let_def contents_def split: option.splits)

lemma rowSize_pos: "rowSize sc col r > 0"
  by (cases "decodeStoredVector sc (vectorCell col r)") (simp_all add: rowSize_def vecLen_def vecRowOverhead_def)

lemma rowSizes_pos: "sum_list (map (rowSize sc col) rs) \<ge> 0"
  using rowSize_pos [of sc col] by (intro sum_list_nonneg) (auto intro: less_imp_le)

lemma rebuildLoop_size:
  assumes "rebuildLoop sc col limit bytes rs e = (False, e')" "entry_wf e"
    and "distinct (map srId rs)" "\<And>r. r \<in> set rs \<Longrightarrow> contents e (srId r) = None"
  shows "bytes + sum_list (map (rowSize sc col) rs) > limit"
  using assms
proof (induction rs arbitrary: bytes e)
  case (Cons r rs)
  have step: "entry_wf (putRow sc col r e)" "contents (putRow sc col r e) = (contents e)(srId r \<mapsto> rowValue sc col (veOwned e) r)"
    using vec.ins [of e "veOwned e" sc col r] Cons.prems(2) by simp_all
  have size: "vecLen (last (veVecs (putRow sc col r e))) * 4 + vecRowOverhead = rowSize sc col r"
    using putRow_last [OF Cons.prems(2) Cons.prems(4), of r sc col] by (simp add: rowSize_def)
  let ?b = "bytes + rowSize sc col r"
  show ?case
  proof (cases "?b > limit")
    case True
    with rowSizes_pos [of sc col rs] show ?thesis by simp
  next
    case False
    with Cons.prems(1) size have "rebuildLoop sc col limit ?b rs (putRow sc col r e) = (False, e')"
      by (simp add: Let_def add.assoc)
    moreover have "contents (putRow sc col r e) (srId r') = None" if "r' \<in> set rs" for r'
    proof -
      from imageI [OF that, of srId] Cons.prems(3) have "srId r' \<noteq> srId r" by auto
      with Cons.prems(4) [of r'] that show ?thesis by (simp add: step(2))
    qed
    ultimately have "?b + sum_list (map (rowSize sc col) rs) > limit"
      using Cons.IH step(1) Cons.prems(3) by simp
    then show ?thesis by simp
  qed
qed simp

lemma sort_key_sum: "sum_list (map f (sort_key k xs)) = (sum_list (map f xs) :: int)"
  by (metis mset_map mset_sort sum_mset_sum_list)

lemma map_of_perm: "mset xs = mset ys \<Longrightarrow> distinct (map fst xs) \<Longrightarrow> map_of xs = map_of ys"
  by (metis distinct_map map_of_inject_set mset_eq_imp_distinct_iff mset_eq_setD mset_map)

lemma rebuild_coherent:
  assumes r: "rebuild sc tk db table col owned limit e = (Inr fit, e')" and d: "ids_distinct db table"
  shows "fit \<Longrightarrow> coherent sc db table col owned e'" and "\<not> fit \<Longrightarrow> snapSize sc db table col > limit"
proof -
  define e0 where "e0 = e\<lparr>vePos := Map.empty, veIds := [], veVecs := [], veSq := [], veOwners := [], veOwned := owned\<rparr>"
  define rows where "rows = sort_key srId (vecSource db table col)"
  have loop: "rebuildLoop sc col limit 0 rows e0 = (fit, e')"
    using r by (auto simp: rebuild_def Let_def e0_def rows_def vecSource_def istmt_def split: option.splits prod.splits)
  have e0: "entry_wf e0" "veOwned e0 = owned" "contents e0 i = None" for i
    by (simp_all add: e0_def entry_wf_def contents_def)
  have dr: "distinct (map srId rows)" unfolding rows_def
    by (metis vecSource_distinct [OF d] distinct_map mset_eq_imp_distinct_iff mset_eq_setD mset_sort)
  show "coherent sc db table col owned e'" if fit
  proof -
    have e': "e' = fold (putRow sc col) rows e0" using rebuildLoop_fold loop that by simp
    have "map_of (map (\<lambda>r. (srId r, rowValue sc col owned r)) rows) = vecRows sc db table col owned"
      unfolding vecRows_def
      by (rule map_of_perm) (simp_all add: rows_def dr [unfolded rows_def] comp_def)
    with vec.fold_ins [of e0 owned rows sc col] e0 dr show ?thesis
      by (auto simp: coherent_def e' fun_eq_iff split: option.splits)
  qed
  show "snapSize sc db table col > limit" if "\<not> fit"
  proof -
    from loop that have "rebuildLoop sc col limit 0 rows e0 = (False, e')" by simp
    from rebuildLoop_size [OF this e0(1) dr e0(3)] show ?thesis by (simp add: snapSize_def rows_def sort_key_sum)
  qed
qed

text \<open>Catching up replaces the touched rows by those of the snapshot.\<close>

lemma catchRows_contents:
  assumes "catchRows sc tk k db table col touched e = (Inr fit, e')" and "ids_distinct db table"
    and "entry_wf e" "veOwned e = owned"
  shows "fit \<and> entry_wf e' \<and> veOwned e' = owned
    \<and> contents e' = (\<lambda>i. if i \<in> set touched then vecRows sc db table col owned i else contents e i)"
  using assms
proof (induction sc tk k db table col touched e rule: catchRows.induct)
  case (1 sc tk k db table col touched e)
  show ?case
  proof (cases "touched = []")
    case True
    with 1(2,4,5) show ?thesis by (simp add: catchRows.simps)
  next
    case False
    define chunk where "chunk = take 500 touched"
    define rows where "rows = filter (\<lambda>r. srId r \<in> set chunk) (vecSource db table col)"
    define e1 where "e1 = fold remove chunk e"
    define e2 where "e2 = fold (putRow sc col) rows e1"
    from 1(2) False have ok: "istmt (sub tk k) (Inr (filter (\<lambda>r. srId r \<in> set chunk) (vectorSource db table col (\<lambda>_. True) None))) = Inr rows"
      and rest: "catchRows sc tk (Suc k) db table col (drop 500 touched) e2 = (Inr fit, e')"
      unfolding catchRows.simps [of sc tk k db table col touched e]
      by (auto simp: Let_def rows_def chunk_def e1_def e2_def vecSource_def istmt_def split: option.splits)
    have dr: "distinct (map srId rows)"
      using vecSource_distinct [OF 1(3), of col] unfolding rows_def by (simp add: distinct_map_filter)
    have e1: "entry_wf e1 \<and> veOwned e1 = owned" "contents e1 = (\<lambda>i. if i \<in> set chunk then None else contents e i)"
      using vec.fold_del [of e owned chunk] 1(4,5) unfolding e1_def by simp_all
    have rows: "map_of (map (\<lambda>r. (srId r, rowValue sc col owned r)) rows) i = (if i \<in> set chunk then vecRows sc db table col owned i else None)" for i
      unfolding rows_def vecRows_def by (rule map_of_filter_ids)
    have e2: "entry_wf e2" "veOwned e2 = owned"
      "contents e2 = (\<lambda>i. if i \<in> set chunk then vecRows sc db table col owned i else contents e i)"
      using vec.fold_ins [OF e1(1) dr, of sc col] unfolding e2_def by (auto simp: rows e1(2) fun_eq_iff split: option.splits)
    note IH = 1(1) [OF False chunk_def e1_def ok rest [unfolded e2_def] 1(3) e2(1,2) [unfolded e2_def], folded e2_def]
    have "set touched = set chunk \<union> set (drop 500 touched)"
      unfolding chunk_def by (metis append_take_drop_id set_append)
    with IH e2(3) show ?thesis by auto
  qed
qed

section \<open>Reading a coherent entry is a scan\<close>

text \<open>What a row adds to the hits, and whether it is skipped.\<close>

definition hitVal :: "'r scorer \<Rightarrow> float32 list \<Rightarrow> 'r \<Rightarrow> int \<Rightarrow> float32 list option \<Rightarrow> (int \<times> 'r) list" where
  "hitVal sc vec threshold i v =
     (case v of None \<Rightarrow> []
      | Some s \<Rightarrow> if length s = length vec \<and> scGe sc (cosine sc vec s) threshold then [(i, cosine sc vec s)] else [])"

definition unusable :: "float32 list \<Rightarrow> float32 list option \<Rightarrow> bool" where
  "unusable vec v \<longleftrightarrow> (case v of None \<Rightarrow> True | Some s \<Rightarrow> length s \<noteq> length vec)"

definition hitsOf :: "'r scorer \<Rightarrow> float32 list \<Rightarrow> 'r \<Rightarrow> (int \<Rightarrow> float32 list option) \<Rightarrow> int list \<Rightarrow> 'r hits" where
  "hitsOf sc vec threshold v ids =
     (concat (map (\<lambda>i. hitVal sc vec threshold i (v i)) ids), length (filter (\<lambda>i. unusable vec (v i)) ids))"

definition valueAt :: "'r scorer \<Rightarrow> store_db \<Rightarrow> string \<Rightarrow> string \<Rightarrow> int \<Rightarrow> float32 list option" where
  "valueAt sc db table col i = Option.bind (rawRows db table col i) (\<lambda>x. decodeStoredVector sc (fst x))"

lemma hitsOf_Cons: "hitsOf sc vec threshold v (i # is) =
  (hitVal sc vec threshold i (v i) @ fst (hitsOf sc vec threshold v is),
   (if unusable vec (v i) then Suc else id) (snd (hitsOf sc vec threshold v is)))"
  by (simp add: hitsOf_def)

lemma scanLoop_hits:
  assumes "\<And>r. r \<in> set rs \<Longrightarrow> v (srId r) = decodeStoredVector sc (vectorCell col r)"
  shows "scanLoop sc col vec threshold rs = hitsOf sc vec threshold v (map srId rs)"
  using assms
proof (induction rs)
  case (Cons r rs)
  from Cons.prems [of r] Cons.IH Cons.prems show ?case
    by (cases "hitsOf sc vec threshold v (map srId rs)")
      (simp add: hitsOf_Cons hitVal_def unusable_def addHit_def Let_def split: option.split)
qed (simp add: hitsOf_def)

lemma scoreLoop_hits:
  assumes "\<And>k. k \<in> set ks \<Longrightarrow> veVecs e ! k = v (veIds e ! k) \<and> veSq e ! k = vecSquares sc (v (veIds e ! k))"
  shows "scoreLoop sc e vec (squares sc vec) threshold ks = hitsOf sc vec threshold v (map (\<lambda>k. veIds e ! k) ks)"
  using assms
proof (induction ks)
  case (Cons k ks)
  from Cons.prems [of k] Cons.IH Cons.prems show ?case
    by (cases "hitsOf sc vec threshold v (map (\<lambda>k. veIds e ! k) ks)")
      (simp add: hitsOf_Cons hitVal_def unusable_def addHit_def Let_def cosine_known vecSquares_def split: option.split)
qed (simp add: hitsOf_def)

text \<open>The runs of the workers make up the whole.\<close>

lemma slices:
  "concat (map (\<lambda>w. drop (w * c) (take (min ((w + 1) * c) (length xs)) xs)) [0..<m]) = take (m * c) xs"
proof (induction m)
  case (Suc m)
  have "drop (m * c) (take (min ((m + 1) * c) (length xs)) xs) = take c (drop (m * c) xs)"
    by (simp add: min_def drop_take)
  with Suc show ?case by (simp add: take_add [symmetric] add.commute)
qed simp

lemma chunks_enough: "0 < w \<Longrightarrow> n \<le> w * ((n + w - 1) div w)" for n w :: nat
proof -
  assume w: "0 < w"
  have "n + w - 1 = w * ((n + w - 1) div w) + (n + w - 1) mod w" by simp
  moreover have "(n + w - 1) mod w < w" using w by simp
  ultimately show ?thesis using w by linarith
qed

lemma workers_pos: "0 < procs \<Longrightarrow> 0 < scoreWorkers procs n"
  by (auto simp: scoreWorkers_def parallelScoreRows_def div_greater_zero_iff)

lemma hitsOf_concat:
  "(concat (map (\<lambda>xs. fst (hitsOf sc vec threshold v xs)) xss), sum_list (map (\<lambda>xs. snd (hitsOf sc vec threshold v xs)) xss))
     = hitsOf sc vec threshold v (concat xss)"
  by (induction xss) (auto simp: hitsOf_def)

lemma scoreParts_hits:
  assumes "0 < procs"
    and "\<And>k. k \<in> set ks \<Longrightarrow> veVecs e ! k = v (veIds e ! k) \<and> veSq e ! k = vecSquares sc (v (veIds e ! k))"
  shows "scoreParts sc procs e vec threshold ks = hitsOf sc vec threshold v (map (\<lambda>k. veIds e ! k) ks)"
proof -
  define w where "w = scoreWorkers procs (length ks)"
  define c where "c = (length ks + w - 1) div w"
  define part where "part = (\<lambda>i. drop (i * c) (take (min ((i + 1) * c) (length ks)) ks))"
  have part: "set (part i) \<subseteq> set ks" for i unfolding part_def by (meson set_drop_subset set_take_subset subset_trans)
  have "scoreLoop sc e vec (squares sc vec) threshold (part i) = hitsOf sc vec threshold v (map (\<lambda>k. veIds e ! k) (part i))" for i
    by (rule scoreLoop_hits) (use assms(2) part in blast)
  then have "scoreParts sc procs e vec threshold ks
    = hitsOf sc vec threshold v (concat (map (\<lambda>i. map (\<lambda>k. veIds e ! k) (part i)) [0..<w]))"
    unfolding hitsOf_concat [symmetric] by (simp add: scoreParts_def Let_def w_def c_def part_def comp_def)
  also have "concat (map (\<lambda>i. map (\<lambda>k. veIds e ! k) (part i)) [0..<w]) = map (\<lambda>k. veIds e ! k) (concat (map part [0..<w]))"
    by (simp add: map_concat comp_def)
  also have "concat (map part [0..<w]) = ks"
    unfolding part_def slices using chunks_enough [OF workers_pos [OF assms(1)], of "length ks" "length ks"]
    by (simp add: w_def c_def)
  finally show ?thesis .
qed

lemma concat_mset: "mset (concat (map f xs)) = (\<Sum>x\<in>#mset xs. mset (f x))"
  by (induction xs) simp_all

lemma hitsOf_mset:
  assumes "mset is = mset js"
  shows "mset (fst (hitsOf sc vec threshold v is)) = mset (fst (hitsOf sc vec threshold v js))"
    and "snd (hitsOf sc vec threshold v is) = snd (hitsOf sc vec threshold v js)"
proof -
  show "mset (fst (hitsOf sc vec threshold v is)) = mset (fst (hitsOf sc vec threshold v js))"
    unfolding hitsOf_def fst_conv concat_mset assms ..
  have "length (filter P is) = length (filter P js)" for P
    using arg_cong [OF assms, of "\<lambda>m. size (filter_mset P m)"] by (simp flip: mset_filter)
  then show "snd (hitsOf sc vec threshold v is) = snd (hitsOf sc vec threshold v js)" by (simp add: hitsOf_def)
qed

lemma wf_contents:
  assumes "entry_wf e"
  shows "contents e i = None \<longleftrightarrow> i \<notin> set (veIds e)"
    and "k < length (veIds e) \<Longrightarrow> contents e (veIds e ! k) = Some (veVecs e ! k, veSq e ! k, veOwners e ! k)"
proof -
  have none: "vePos e i = None \<longleftrightarrow> (\<forall>k. vePos e i \<noteq> Some k)" by (cases "vePos e i") auto
  show "contents e i = None \<longleftrightarrow> i \<notin> set (veIds e)"
    unfolding contents_def option.map_disc_iff none wf_pos [OF assms] in_set_conv_nth by blast
qed (simp add: contents_def wf_nth [OF assms])

text \<open>A coherent entry holds the ids of the rows, and beside each its value.\<close>

lemma coherent_ids:
  assumes "coherent sc db table col owned e" "ids_distinct db table"
  shows "mset (veIds e) = mset (map srId (vecSource db table col))"
proof (rule iffD1 [OF set_eq_iff_mset_eq_distinct])
  have "i \<in> set (veIds e) \<longleftrightarrow> vecRows sc db table col owned i \<noteq> None" for i
    using assms(1) wf_contents(1) [of e i] by (auto simp: coherent_def)
  then show "set (veIds e) = set (map srId (vecSource db table col))"
    by (auto simp: vecRows_def map_of_eq_None_iff image_image)
qed (use assms wf_distinct vecSource_distinct in \<open>auto simp: coherent_def\<close>)

lemma coherent_values:
  assumes "coherent sc db table col owned e" "k < length (veIds e)"
  shows "veVecs e ! k = valueAt sc db table col (veIds e ! k)"
    and "veSq e ! k = vecSquares sc (valueAt sc db table col (veIds e ! k))"
    and "owned \<Longrightarrow> Some (veOwners e ! k) = map_option snd (rawRows db table col (veIds e ! k))"
proof -
  have "contents e (veIds e ! k) = Some (veVecs e ! k, veSq e ! k, veOwners e ! k)"
    by (rule wf_contents(2)) (use assms in \<open>simp_all add: coherent_def\<close>)
  then have "map_option (rawValue sc owned) (rawRows db table col (veIds e ! k)) = Some (veVecs e ! k, veSq e ! k, veOwners e ! k)"
    using assms(1) by (simp add: coherent_def vecRows_raw [symmetric])
  then show "veVecs e ! k = valueAt sc db table col (veIds e ! k)"
    "veSq e ! k = vecSquares sc (valueAt sc db table col (veIds e ! k))"
    "owned \<Longrightarrow> Some (veOwners e ! k) = map_option snd (rawRows db table col (veIds e ! k))"
    by (auto simp: rawValue_def valueAt_def Let_def)
qed

lemma rawRows_mem:
  assumes "ids_distinct db table" "r \<in> set (vecSource db table col)"
  shows "rawRows db table col (srId r) = Some (vectorCell col r, srOwner r)"
  unfolding rawRows_def using assms(2) vecSource_distinct [OF assms(1), of col]
  by (intro map_of_is_SomeI) (auto simp: comp_def)

lemma lookups_ids:
  assumes "lookups (vePos e) ids = Some ks" "entry_wf e"
  shows "map (\<lambda>k. veIds e ! k) ks = ids" "k \<in> set ks \<Longrightarrow> k < length (veIds e)"
  using assms(1)
  by (induction ids arbitrary: ks) (auto simp: wf_pos [OF assms(2)] split: option.splits)

text \<open>The ids a search reads from the cache are those of the rows a scan reads.\<close>

lemma scoreRows_ids:
  assumes co: "coherent sc db table col owned e" and d: "ids_distinct db table"
    and only: "only = map_option (\<lambda>f. map srId (vectorSource db table col f scope)) flt"
    and ks: "scoreRows e only scope = Some ks"
  shows "mset (map (\<lambda>k. veIds e ! k) ks)
      = mset (map srId (vectorSource db table col (case flt of None \<Rightarrow> (\<lambda>_. True) | Some f \<Rightarrow> f) scope))
    \<and> (\<forall>k \<in> set ks. k < length (veIds e))"
proof -
  have wf: "entry_wf e" "veOwned e = owned" using co by (simp_all add: coherent_def)
  note len = wf_lengths [OF wf(1)]
  consider f where "flt = Some f" | "flt = None" "scope = None" | s where "flt = None" "scope = Some s" "ScopeEmpty s"
    | s where "flt = None" "scope = Some s" "\<not> ScopeEmpty s" by (cases flt; cases scope) auto
  then show ?thesis
  proof cases
    case 1
    with only ks lookups_ids [OF _ wf(1)] show ?thesis by (auto simp: scoreRows_def)
  next
    case 2
    with only ks len have "ks = [0..<length (veIds e)]" by (simp add: scoreRows_def)
    then have "map (\<lambda>k. veIds e ! k) ks = veIds e" "\<forall>k \<in> set ks. k < length (veIds e)" by (simp_all add: map_nth)
    with 2 coherent_ids [OF co d] show ?thesis by (simp add: vecSource_def del: mset_map)
  next
    case 3
    with only ks show ?thesis by (auto simp: scoreRows_def vectorSource_def inRows_def)
  next
    case (4 s)
    let ?mine = "\<lambda>k. veOwners e ! k = Some (ScopeOwner s)"
    from 4 only ks len have owned: owned and k: "ks = filter ?mine [0..<length (veIds e)]"
      by (auto simp: scoreRows_def wf(2) split: if_splits)
    have src: "vectorSource db table col (\<lambda>_. True) scope = filter (\<lambda>r. srOwner r = Some (ScopeOwner s)) (vecSource db table col)"
      using 4 by (auto simp: vectorSource_def vecSource_def inRows_def intro: filter_cong)
    have row: "\<exists>r \<in> set (vecSource db table col). srId r = veIds e ! k" if "k < length (veIds e)" for k
      using that mset_eq_setD [OF coherent_ids [OF co d]] nth_mem [OF that] by auto
    have mine: "?mine k \<longleftrightarrow> srOwner r = Some (ScopeOwner s)"
      if "k < length (veIds e)" "r \<in> set (vecSource db table col)" "srId r = veIds e ! k" for k r
      using coherent_values(3) [OF co that(1) owned] rawRows_mem [OF d that(2)] that(3) by auto
    have "mset (map (\<lambda>k. veIds e ! k) ks) = mset (map srId (vectorSource db table col (\<lambda>_. True) scope))"
    proof (rule iffD1 [OF set_eq_iff_mset_eq_distinct])
      show "distinct (map (\<lambda>k. veIds e ! k) ks)"
        unfolding k using wf_distinct [OF wf(1)] by (auto simp: distinct_map inj_on_def nth_eq_iff_index_eq)
      show "distinct (map srId (vectorSource db table col (\<lambda>_. True) scope))" by (rule vectorSource_distinct [OF d])
      show "set (map (\<lambda>k. veIds e ! k) ks) = set (map srId (vectorSource db table col (\<lambda>_. True) scope))"
      proof (intro equalityI subsetI)
        fix i assume "i \<in> set (map (\<lambda>k. veIds e ! k) ks)"
        then obtain k where k': "k < length (veIds e)" "?mine k" "i = veIds e ! k" by (auto simp: k)
        with row mine show "i \<in> set (map srId (vectorSource db table col (\<lambda>_. True) scope))" by (force simp: src)
      next
        fix i assume "i \<in> set (map srId (vectorSource db table col (\<lambda>_. True) scope))"
        then obtain r where r: "r \<in> set (vecSource db table col)" "srOwner r = Some (ScopeOwner s)" "i = srId r" by (auto simp: src)
        then have "i \<in> set (veIds e)" using mset_eq_setD [OF coherent_ids [OF co d]] by auto
        then obtain k where "k < length (veIds e)" "veIds e ! k = i" by (auto simp: in_set_conv_nth)
        with r mine show "i \<in> set (map (\<lambda>k. veIds e ! k) ks)" by (force simp: k)
      qed
    qed
    with 4 k show ?thesis by simp
  qed
qed

lemma case_rows: "(case x of None \<Rightarrow> Inr None | Some ks \<Rightarrow> Inr (Some (f ks))) = Inr (Some h) \<longleftrightarrow> (\<exists>ks. x = Some ks \<and> h = f ks)"
  by (cases x) auto

lemma scoreRead_rows:
  assumes "scoreRead sc procs tk db table col flt scope vec threshold head fp e = Inr (Some h)"
  shows "\<exists>ks. scoreRows e (map_option (\<lambda>f. map srId (vectorSource db table col f scope)) flt) scope = Some ks
    \<and> h = scoreParts sc procs e vec threshold ks"
  using assms by (cases flt) (auto simp: scoreRead_def candidateIDs_def case_rows split: if_splits)

lemma scoreRead_coherent:
  assumes co: "coherent sc db table col owned e" and d: "ids_distinct db table" and procs: "0 < procs"
    and read: "scoreRead sc procs tk db table col flt scope vec threshold head fp e = Inr (Some (hits, skipped))"
  shows "\<exists>hits'. scanLoop sc col vec threshold
      (vectorSource db table col (case flt of None \<Rightarrow> (\<lambda>_. True) | Some f \<Rightarrow> f) scope) = (hits', skipped) \<and> mset hits = mset hits'"
proof -
  define rows where "rows = vectorSource db table col (case flt of None \<Rightarrow> (\<lambda>_. True) | Some f \<Rightarrow> f) scope"
  define only where "only = map_option (\<lambda>f. map srId (vectorSource db table col f scope)) flt"
  let ?v = "valueAt sc db table col"
  obtain ks where ks: "scoreRows e only scope = Some ks" and hits: "(hits, skipped) = scoreParts sc procs e vec threshold ks"
    using scoreRead_rows [OF read] unfolding only_def by blast
  note ids = scoreRows_ids [OF co d only_def ks, folded rows_def]
  have "scoreParts sc procs e vec threshold ks = hitsOf sc vec threshold ?v (map (\<lambda>k. veIds e ! k) ks)"
    by (rule scoreParts_hits [OF procs]) (use ids coherent_values [OF co] in blast)
  moreover have "scanLoop sc col vec threshold rows = hitsOf sc vec threshold ?v (map srId rows)"
  proof (rule scanLoop_hits)
    fix r assume "r \<in> set rows"
    then have "r \<in> set (vecSource db table col)" by (auto simp: rows_def vecSource_def vectorSource_def inRows_def)
    from rawRows_mem [OF d this] show "?v (srId r) = decodeStoredVector sc (vectorCell col r)" by (simp add: valueAt_def)
  qed
  ultimately show ?thesis
    using hits hitsOf_mset [OF conjunct1 [OF ids], of sc vec threshold ?v] by (metis prod.collapse fst_conv snd_conv rows_def)
qed

end
