(* ===== verification/Store_Vector_Runs.thy ===== *)
theory Store_Vector_Runs
  imports Store_Vectors_Props
begin

text \<open>
  The two sides of a step of the vector cache: an entry that stands for one snapshot of its table
  stands for another one once it was brought up to date, by way of the log of changes between
  them; and claiming, accounting, evicting and dropping keep the bytes on record right.
\<close>

section \<open>Snapshots\<close>

definition carries :: "store_db \<Rightarrow> string \<Rightarrow> vec_fp \<Rightarrow> bool" where
  "carries db table fp \<longleftrightarrow> (\<exists>tk. vectorFingerprint tk db table = Inr fp)"

definition ownedOf :: "store_db \<Rightarrow> string \<Rightarrow> bool" where
  "ownedOf db table \<longleftrightarrow> (\<exists>sc. map_of (schemas (sdLog db)) table = Some (Some sc) \<and> HasOwner sc)"

definition pruned :: "store_db \<Rightarrow> int \<Rightarrow> bool" where
  "pruned db s \<longleftrightarrow> (case minSeq (clog (sdLog db)) of None \<Rightarrow> True | Some m \<Rightarrow> m > s + 1)"

text \<open>Rows that differ between two snapshots have a change between them, unless the log was pruned that far.\<close>

definition logged :: "store_db \<Rightarrow> store_db \<Rightarrow> string \<Rightarrow> bool" where
  "logged d1 d2 table \<longleftrightarrow> (\<forall>col i. rawRows d1 table col i \<noteq> rawRows d2 table col i \<longrightarrow>
     lastSeq (sdLog d1) < lastSeq (sdLog d2)
     \<and> (pruned d2 (lastSeq (sdLog d1)) \<or> i \<in> set (touchedRows d2 table (lastSeq (sdLog d1)) (lastSeq (sdLog d2)))))"

text \<open>The snapshots searches of a namespace may see.\<close>

definition timeline :: "(string \<Rightarrow> store_db \<Rightarrow> bool) \<Rightarrow> bool" where
  "timeline snaps \<longleftrightarrow>
     (\<forall>ns db table. snaps ns db \<longrightarrow> ids_distinct db table \<and> lastSeq (sdLog db) \<ge> 0)
     \<and> (\<forall>ns d1 d2 table fp. snaps ns d1 \<and> snaps ns d2 \<and> carries d1 table fp \<and> carries d2 table fp
          \<and> lastSeq (sdLog d1) \<le> lastSeq (sdLog d2) \<longrightarrow> ownedOf d1 table = ownedOf d2 table \<and> logged d1 d2 table)"

lemma timelineD:
  assumes "timeline snaps" "snaps ns d1" "snaps ns d2" "carries d1 table fp" "carries d2 table fp" "lastSeq (sdLog d1) \<le> lastSeq (sdLog d2)"
  shows "ownedOf d1 table = ownedOf d2 table" "logged d1 d2 table"
  using assms unfolding timeline_def by blast+

lemma timeline_ids: "timeline snaps \<Longrightarrow> snaps ns db \<Longrightarrow> ids_distinct db table"
  unfolding timeline_def by blast

lemma logged_same:
  assumes "logged d1 d2 table" "lastSeq (sdLog d1) = lastSeq (sdLog d2)"
  shows "rawRows d1 table col = rawRows d2 table col"
  using assms unfolding logged_def by (auto simp: fun_eq_iff)

lemma vecRows_same: "rawRows d1 table col = rawRows d2 table col \<Longrightarrow> vecRows sc d1 table col owned = vecRows sc d2 table col owned"
  by (simp add: fun_eq_iff vecRows_raw)

lemma coherent_same:
  "rawRows d1 table col = rawRows d2 table col \<Longrightarrow> coherent sc d1 table col owned e = coherent sc d2 table col owned e"
  by (simp add: coherent_def vecRows_same [of d1 table col d2])

section \<open>Sizes\<close>

definition valueSize :: "float32 list option \<Rightarrow> int" where
  "valueSize v = vecLen v * 4 + vecRowOverhead"

lemma snapSize_ids:
  assumes "ids_distinct db table"
  shows "snapSize sc db table col = sum_list (map (\<lambda>i. valueSize (valueAt sc db table col i)) (map srId (vecSource db table col)))"
proof -
  have "rowSize sc col r = valueSize (valueAt sc db table col (srId r))" if "r \<in> set (vecSource db table col)" for r
    using rawRows_mem [OF assms that] by (simp add: rowSize_def valueSize_def valueAt_def)
  then show ?thesis by (simp add: snapSize_def comp_def cong: map_cong)
qed

lemma sum_list_perm: "mset xs = mset ys \<Longrightarrow> sum_list (map f xs) = (sum_list (map f ys) :: int)"
  by (metis mset_map sum_mset_sum_list)

lemma entrySize_coherent:
  assumes "coherent sc db table col owned e" "ids_distinct db table"
  shows "entrySize e = snapSize sc db table col"
proof -
  have wf: "entry_wf e" using assms(1) by (simp add: coherent_def)
  have vecs: "veVecs e = map (valueAt sc db table col) (veIds e)"
    by (rule nth_equalityI) (simp_all add: wf_lengths [OF wf] coherent_values [OF assms(1)])
  have "entrySize e = sum_list (map (\<lambda>i. valueSize (valueAt sc db table col i)) (veIds e))"
    unfolding entrySize_def vecs by (simp add: valueSize_def comp_def sum_list_addf sum_list_triv)
  then show ?thesis
    using sum_list_perm [OF coherent_ids [OF assms]] snapSize_ids [OF assms(2), of sc col] by simp
qed

lemma rawRows_ids:
  assumes "rawRows d1 table col = rawRows d2 table col" "ids_distinct d1 table" "ids_distinct d2 table"
  shows "mset (map srId (vecSource d1 table col)) = mset (map srId (vecSource d2 table col))"
proof (rule iffD1 [OF set_eq_iff_mset_eq_distinct])
  have "set (map srId (vecSource d table col)) = dom (rawRows d table col)" for d
    by (auto simp: rawRows_def dom_map_of_conv_image_fst image_image)
  then show "set (map srId (vecSource d1 table col)) = set (map srId (vecSource d2 table col))" using assms(1) by simp
qed (rule vecSource_distinct assms)+

lemma snapSize_same:
  assumes "rawRows d1 table col = rawRows d2 table col" "ids_distinct d1 table" "ids_distinct d2 table"
  shows "snapSize sc d1 table col = snapSize sc d2 table col"
  unfolding snapSize_ids [OF assms(2)] snapSize_ids [OF assms(3)] sum_list_perm [OF rawRows_ids [OF assms]]
  by (simp add: valueAt_def assms(1) cong: map_cong)

section \<open>Bringing an entry up to date\<close>

text \<open>
  An entry is new, or it holds the rows of a snapshot with its fingerprint at its change, or the
  rows of such a snapshot were too big.
\<close>

definition valid :: "'r scorer \<Rightarrow> (string \<Rightarrow> store_db \<Rightarrow> bool) \<Rightarrow> int \<Rightarrow> vec_key \<Rightarrow> 'r vec_entry \<Rightarrow> bool" where
  "valid sc snaps limit k e \<longleftrightarrow> veSeq e < 0 \<and> \<not> veTooBig e
     \<or> (case k of (ns, table, col) \<Rightarrow> \<exists>d. snaps ns d \<and> carries d table (veFp e) \<and> lastSeq (sdLog d) = veSeq e
          \<and> (if veTooBig e then snapSize sc d table col > limit else coherent sc d table col (ownedOf d table) e))"

lemma catchUp_coherent:
  assumes c: "catchUp sc tk db table col (lastSeq (sdLog db)) e = (Inr True, e')"
    and co: "coherent sc d table col owned e" and seq: "veSeq e = lastSeq (sdLog d)"
    and log: "logged d db table" and ids: "ids_distinct db table"
  shows "coherent sc db table col owned e'"
proof -
  have wf: "entry_wf e" "veOwned e = owned" using co by (simp_all add: coherent_def)
  from c have fresh: "\<not> pruned db (veSeq e)"
    and rows: "catchRows sc (sub tk 2) 0 db table col (touchedRows db table (veSeq e) (lastSeq (sdLog db))) e = (Inr True, e')"
    by (auto simp: catchUp_def pruned_def istmt_def split: option.splits if_splits)
  note e' = catchRows_contents [OF rows ids wf]
  have "vecRows sc d table col owned i = vecRows sc db table col owned i"
    if "i \<notin> set (touchedRows db table (veSeq e) (lastSeq (sdLog db)))" for i
    using log that fresh unfolding logged_def vecRows_raw seq by metis
  with e' co show ?thesis by (auto simp: coherent_def fun_eq_iff)
qed

lemma coherent_fields [simp]:
  "coherent sc db table col owned (e\<lparr>veTooBig := b\<rparr>) = coherent sc db table col owned e"
  "coherent sc db table col owned (e\<lparr>veSeq := s\<rparr>) = coherent sc db table col owned e"
  "coherent sc db table col owned (e\<lparr>veFp := fp\<rparr>) = coherent sc db table col owned e"
  "coherent sc db table col owned (e\<lparr>veBytes := n\<rparr>) = coherent sc db table col owned e"
  "coherent sc db table col owned (e\<lparr>veLastUse := u\<rparr>) = coherent sc db table col owned e"
  by (simp_all add: coherent_def entry_wf_def contents_def [abs_def])

text \<open>Rows change, the rest of the entry does not.\<close>

definition keeps :: "'r vec_entry \<Rightarrow> 'r vec_entry \<Rightarrow> bool" where
  "keeps e e' \<longleftrightarrow> veSeq e' = veSeq e \<and> veFp e' = veFp e \<and> veTooBig e' = veTooBig e \<and> veBytes e' = veBytes e \<and> veLastUse e' = veLastUse e"

lemma keeps_put: "keeps e (putRow sc col r e)" "keeps e (remove i e)"
  by (simp_all add: keeps_def putRow_def put_def remove_def Let_def split: option.split)

lemma keeps_fold:
  assumes "\<And>x e. keeps e (f x e)"
  shows "keeps e (fold f xs e)"
proof (induction xs arbitrary: e)
  case (Cons x xs)
  from Cons.IH [of "f x e"] assms [of e x] show ?case by (simp add: keeps_def)
qed (simp add: keeps_def)

lemma rebuildLoop_keeps: "rebuildLoop sc col limit bytes rs e = (r, e') \<Longrightarrow> keeps e e'"
proof (induction rs arbitrary: bytes e)
  case (Cons x rs)
  have "keeps (putRow sc col x e) e'" if "rebuildLoop sc col limit b rs (putRow sc col x e) = (r, e')" for b
    using Cons.IH that .
  with Cons.prems keeps_put(1) [of e sc col x] show ?case
    by (auto simp: Let_def keeps_def split: if_splits)
qed (simp add: keeps_def)

lemma rebuild_keeps: "rebuild sc tk db table col owned limit e = (r, e') \<Longrightarrow> keeps e e'"
  by (auto simp: rebuild_def Let_def keeps_def split: sum.splits prod.splits dest!: rebuildLoop_keeps)

lemma catchRows_keeps: "catchRows sc tk k db table col touched e = (r, e') \<Longrightarrow> keeps e e'"
proof (induction sc tk k db table col touched e rule: catchRows.induct)
  case (1 sc tk k db table col touched e)
  show ?case
  proof (cases "touched = []")
    case False
    define e1 where "e1 = fold remove (take 500 touched) e"
    have e1: "keeps e e1" unfolding e1_def by (rule keeps_fold) (rule keeps_put)
    have rows: "keeps e1 (fold (putRow sc col) rows e1)" for rows by (rule keeps_fold) (rule keeps_put)
    show ?thesis
    proof (cases "istmt (sub tk k) (Inr (filter (\<lambda>r. srId r \<in> set (take 500 touched)) (vectorSource db table col (\<lambda>_. True) None)))")
      case (Inl err)
      with 1(2) False e1 show ?thesis by (simp add: catchRows.simps [of sc tk k] Let_def e1_def)
    next
      case (Inr rs)
      with 1(2) False have "catchRows sc tk (Suc k) db table col (drop 500 touched) (fold (putRow sc col) rs e1) = (r, e')"
        by (simp add: catchRows.simps [of sc tk k] Let_def e1_def)
      from 1(1) [OF False refl refl Inr this [unfolded e1_def]] e1 rows [of rs] show ?thesis
        by (simp add: keeps_def e1_def)
    qed
  qed (use 1(2) in \<open>simp add: catchRows.simps keeps_def\<close>)
qed

lemma catchUp_keeps: "catchUp sc tk db table col head e = (r, e') \<Longrightarrow> keeps e e'"
  by (auto simp: catchUp_def split: sum.splits if_splits dest: catchRows_keeps) (simp_all add: keeps_def)

lemma untoobig [simp]: "\<not> veTooBig e \<Longrightarrow> e\<lparr>veTooBig := False\<rparr> = e"
  by (cases e) simp

lemma catchUp_failed: "catchUp sc tk db table col head e = (Inr False, e') \<Longrightarrow> e' = e \<or> \<not> ids_distinct db table \<or> \<not> entry_wf e"
  by (auto simp: catchUp_def split: sum.splits if_splits dest!: catchRows_contents [OF _ _ _ refl])

text \<open>What comes of bringing a valid entry up to date with a snapshot.\<close>

definition freshened ::
    "'r scorer \<Rightarrow> (string \<Rightarrow> store_db \<Rightarrow> bool) \<Rightarrow> int \<Rightarrow> vec_key \<Rightarrow> store_db \<Rightarrow> vec_fp \<Rightarrow> freshness \<Rightarrow> 'r vec_entry \<Rightarrow> 'r vec_entry \<Rightarrow> bool" where
  "freshened sc snaps limit k db fp r e e' \<longleftrightarrow> veBytes e' = veBytes e \<and> veLastUse e' = veLastUse e
     \<and> (case r of
          StillTooBig \<Rightarrow> e' = e
        | Stale \<Rightarrow> e' = e
        | Failed err \<Rightarrow> True
        | Fresh fit \<Rightarrow>
            if fit then coherent sc db (fst (snd k)) (snd (snd k)) (ownedOf db (fst (snd k))) e'
              \<and> veSeq e' = lastSeq (sdLog db) \<and> veFp e' = fp \<and> \<not> veTooBig e'
            else snapSize sc db (fst (snd k)) (snd (snd k)) > limit)"

lemma rebuild_freshened:
  assumes r: "rebuild sc tk db table col (ownedOf db table) limit e0 = (res, e1)" and ids: "ids_distinct db table"
    and e0: "\<not> veTooBig e0" "veBytes e0 = veBytes e" "veLastUse e0 = veLastUse e"
  shows "res = Inr fit \<Longrightarrow> freshened sc snaps limit (ns, table, col) db fp (Fresh fit) e (e1\<lparr>veFp := fp, veSeq := lastSeq (sdLog db)\<rparr>)"
    and "res = Inl err \<Longrightarrow> freshened sc snaps limit (ns, table, col) db fp (Failed err) e e1"
  using rebuild_keeps [OF r] rebuild_coherent [of sc tk db table col "ownedOf db table" limit e0 fit e1] r ids e0
  by (auto simp: freshened_def keeps_def)

text \<open>An entry that is up to a snapshot, or behind it, stands for an earlier snapshot.\<close>

lemma valid_earlier:
  assumes t: "timeline snaps" and db: "snaps ns db" "carries db table (veFp e)" and v: "valid sc snaps limit (ns, table, col) e"
    and old: "\<not> veTooBig e" "\<not> veSeq e < 0" "veSeq e \<le> lastSeq (sdLog db)"
  obtains d where "coherent sc d table col (ownedOf db table) e" "veSeq e = lastSeq (sdLog d)" "logged d db table"
proof -
  from v old obtain d where d: "snaps ns d" "carries d table (veFp e)" "lastSeq (sdLog d) = veSeq e"
    "coherent sc d table col (ownedOf d table) e" by (auto simp: valid_def)
  with timelineD [OF t d(1) db(1) d(2) db(2)] old(3) show thesis by (intro that [of d]) auto
qed

lemma refreshEntry_freshened:
  assumes t: "timeline snaps" and db: "snaps ns db" "carries db table fp" and v: "valid sc snaps limit (ns, table, col) e"
    and ref: "refreshEntry sc tk db table col (ownedOf db table) limit (lastSeq (sdLog db)) fp e = (r, e')"
  shows "freshened sc snaps limit (ns, table, col) db fp r e e'"
proof -
  let ?head = "lastSeq (sdLog db)" and ?e0 = "e\<lparr>veTooBig := False\<rparr>"
  note ids = timeline_ids [OF t db(1)]
  consider (big) "veTooBig e" "veFp e = fp" "?head - veSeq e < tooBigRetryChanges"
    | (stale) "\<not> veTooBig e" "veFp e = fp" "veSeq e > ?head"
    | (build) "\<not> (veTooBig e \<and> veFp e = fp \<and> ?head - veSeq e < tooBigRetryChanges)" "\<not> (veFp e = fp \<and> veSeq e > ?head)"
        "veTooBig e \<or> veSeq e < 0 \<or> veFp e \<noteq> fp \<or> veSeq e > ?head"
    | (behind) "\<not> veTooBig e" "\<not> veSeq e < 0" "veFp e = fp" "veSeq e < ?head"
    | (hit) "\<not> veTooBig e" "\<not> veSeq e < 0" "veFp e = fp" "veSeq e = ?head"
    unfolding tooBigRetryChanges_def by linarith
  then show ?thesis
  proof cases
    case big
    with ref show ?thesis by (simp add: refreshEntry_def freshened_def)
  next
    case stale
    with ref show ?thesis by (auto simp: refreshEntry_def freshened_def Let_def)
  next
    case build
    obtain res e1 where b: "rebuild sc (sub tk 0) db table col (ownedOf db table) limit ?e0 = (res, e1)" by fastforce
    have e0: "\<not> veTooBig ?e0" "veBytes ?e0 = veBytes e" "veLastUse ?e0 = veLastUse e" by simp_all
    have "refreshEntry sc tk db table col (ownedOf db table) limit ?head fp e
      = (case res of Inl err \<Rightarrow> (Failed err, e1) | Inr fit \<Rightarrow> (Fresh fit, e1\<lparr>veFp := fp, veSeq := ?head\<rparr>))"
      using build b by (auto simp: refreshEntry_def Let_def split: sum.split)
    with ref rebuild_freshened [OF b ids e0, of _ snaps ns fp] show ?thesis by (cases res) auto
  next
    case hit
    from valid_earlier [OF t db(1) db(2) [folded hit(3)] v hit(1,2)] hit(4) obtain d where
      "coherent sc d table col (ownedOf db table) e" "veSeq e = lastSeq (sdLog d)" "logged d db table" by auto
    with hit coherent_same [OF logged_same] have "coherent sc db table col (ownedOf db table) e" by metis
    with hit ref show ?thesis by (auto simp: refreshEntry_def freshened_def Let_def)
  next
    case behind
    from valid_earlier [OF t db(1) db(2) [folded behind(3)] v behind(1,2)] behind(4) obtain d where
      d: "coherent sc d table col (ownedOf db table) e" "veSeq e = lastSeq (sdLog d)" "logged d db table" by auto
    obtain res e1 where c: "catchUp sc (sub tk 1) db table col ?head e = (res, e1)" by fastforce
    note k = catchUp_keeps [OF c]
    obtain res2 e2 where b: "rebuild sc (sub tk 0) db table col (ownedOf db table) limit e1 = (res2, e2)" by fastforce
    note k2 = rebuild_keeps [OF b]
    have ref': "refreshEntry sc tk db table col (ownedOf db table) limit ?head fp e
      = (case res of Inl err \<Rightarrow> (Failed err, e1) | Inr True \<Rightarrow> (Fresh True, e1\<lparr>veSeq := ?head\<rparr>)
         | Inr False \<Rightarrow> (case res2 of Inl err \<Rightarrow> (Failed err, e2) | Inr fit \<Rightarrow> (Fresh fit, e2\<lparr>veSeq := ?head\<rparr>)))"
      using behind c b by (simp add: refreshEntry_def Let_def split: sum.split bool.split)
    have e1: "\<not> veTooBig e1" "veBytes e1 = veBytes e" "veLastUse e1 = veLastUse e" using k behind(1) by (simp_all add: keeps_def)
    have fp: "e2\<lparr>veFp := fp, veSeq := ?head\<rparr> = e2\<lparr>veSeq := ?head\<rparr>" "veFp e1 = fp"
      using k k2 behind(3) by (cases e2; simp add: keeps_def)+
    consider err where "res = Inl err" | "res = Inr True" | "res = Inr False" by (metis (full_types) sum.exhaust)
    then show ?thesis
    proof cases
      case 1
      with ref ref' e1 show ?thesis by (auto simp: freshened_def)
    next
      case 2
      with catchUp_coherent [of sc "sub tk 1" db table col e e1, OF _ d ids] c e1 fp ref ref' show ?thesis
        by (auto simp: freshened_def)
    next
      case 3
      with ref ref' rebuild_freshened [OF b ids e1, of _ snaps ns fp] fp(1) show ?thesis by (cases res2) auto
    qed
  qed
qed

section \<open>Accounting\<close>

definition registered :: "'r vec_cache \<Rightarrow> nat set" where
  "registered c = snd ` set (vcEntries c)"

text \<open>The keys and the registered entries match one to one, and the bytes used are theirs.\<close>

definition acct :: "'r vec_cache \<Rightarrow> bool" where
  "acct c \<longleftrightarrow> distinct (map fst (vcEntries c)) \<and> distinct (map snd (vcEntries c))
     \<and> (\<forall>a \<in> registered c. a < length (vcHeap c))
     \<and> (\<forall>a < length (vcHeap c). bytesAt c a \<ge> 0 \<and> (a \<notin> registered c \<longrightarrow> bytesAt c a = 0))
     \<and> vcUsed c = (\<Sum>a \<in> registered c. bytesAt c a)"

text \<open>Only sizes on record differ.\<close>

definition same_rows :: "'r vec_cache \<Rightarrow> 'r vec_cache \<Rightarrow> bool" where
  "same_rows c c' \<longleftrightarrow> vcMax c' = vcMax c \<and> map (veBytes_update (\<lambda>_. 0)) (vcHeap c') = map (veBytes_update (\<lambda>_. 0)) (vcHeap c)"

lemma same_rows_refl [simp]: "same_rows c c"
  by (simp add: same_rows_def)

lemma same_rows_trans: "same_rows c c' \<Longrightarrow> same_rows c' c'' \<Longrightarrow> same_rows c c''"
  by (simp add: same_rows_def)

lemma same_rows_length: "same_rows c c' \<Longrightarrow> length (vcHeap c') = length (vcHeap c)"
  unfolding same_rows_def by (metis length_map)

lemma same_rows_nth:
  assumes "same_rows c c'" "a < length (vcHeap c)"
  shows "(vcHeap c' ! a)\<lparr>veBytes := 0\<rparr> = (vcHeap c ! a)\<lparr>veBytes := 0\<rparr>"
  using assms same_rows_length [OF assms(1)] unfolding same_rows_def by (metis nth_map)

lemma setBytes_simps [simp]:
  "vcEntries (setBytes a n c) = vcEntries c" "vcMax (setBytes a n c) = vcMax c" "vcUsed (setBytes a n c) = vcUsed c"
  "length (vcHeap (setBytes a n c)) = length (vcHeap c)" "registered (setBytes a n c) = registered c"
  by (simp_all add: setBytes_def registered_def)

lemma setBytes_same: "same_rows c (setBytes a n c)"
proof (cases "a < length (vcHeap c)")
  case True
  then show ?thesis by (simp add: same_rows_def setBytes_def map_update list_update_same_conv)
qed (simp add: setBytes_def same_rows_def list_update_beyond)

lemma bytesAt_set: "a < length (vcHeap c) \<Longrightarrow> bytesAt (setBytes a n c) b = (if b = a then n else bytesAt c b)"
  by (simp add: bytesAt_def setBytes_def nth_list_update)

lemma bytesAt_cong: "vcHeap c' = vcHeap c \<Longrightarrow> bytesAt c' a = bytesAt c a"
  by (simp add: bytesAt_def)

lemma delete_registered:
  assumes vals: "distinct (map snd al)" and keys: "distinct (map fst al)" and k: "(k, b) \<in> set al"
  shows "snd ` set (AList.delete k al) = snd ` set al - {b}"
    and "distinct (map snd (AList.delete k al))"
proof -
  have "snd x = b \<longleftrightarrow> fst x = k" if "x \<in> set al" for x
  proof
    assume "snd x = b"
    then show "fst x = k" using inj_onD [of snd "set al" x "(k, b)"] vals that k by (simp add: distinct_map)
  next
    assume "fst x = k"
    then show "snd x = b" using inj_onD [of fst "set al" x "(k, b)"] keys that k by (simp add: distinct_map)
  qed
  then have "AList.delete k al = filter (\<lambda>x. snd x \<noteq> b) al"
    unfolding AList.delete_eq by (intro filter_cong) auto
  then show "snd ` set (AList.delete k al) = snd ` set al - {b}" "distinct (map snd (AList.delete k al))"
    using vals by (auto simp: distinct_map_filter)
qed

lemma evict_acct:
  assumes c: "acct c" and k: "(k, b) \<in> set (vcEntries c)"
  shows "acct (evict k b c)" "registered (evict k b c) = registered c - {b}" "same_rows c (evict k b c)"
    and "\<And>a. a \<noteq> b \<Longrightarrow> bytesAt (evict k b c) a = bytesAt c a" and "vcUsed (evict k b c) \<le> vcUsed c"
    and "set (vcEntries (evict k b c)) \<subseteq> set (vcEntries c)"
proof -
  have b: "b \<in> registered c" using imageI [OF k, of snd] by (simp add: registered_def)
  then have "b < length (vcHeap c)" using c by (simp add: acct_def)
  note b = b this
  show reg: "registered (evict k b c) = registered c - {b}"
    using delete_registered(1) [OF _ _ k] c by (simp add: registered_def acct_def)
  have heap: "vcHeap (evict k b c) = vcHeap (setBytes b 0 c)" by (simp add: evict_def Let_def setBytes_def)
  show bytes: "bytesAt (evict k b c) a = bytesAt c a" if "a \<noteq> b" for a
    using that bytesAt_set [OF b(2), of 0 a] by (simp add: bytesAt_def heap)
  have zero: "bytesAt (evict k b c) b = 0" using bytesAt_set [OF b(2), of 0 b] by (simp add: bytesAt_def heap)
  have used: "vcUsed (evict k b c) = vcUsed c - bytesAt c b" by (simp add: evict_def Let_def)
  have "(\<Sum>a \<in> registered c. bytesAt c a) = bytesAt c b + (\<Sum>a \<in> registered c - {b}. bytesAt c a)"
    using b(1) by (simp add: sum.remove registered_def)
  moreover have "(\<Sum>a \<in> registered c - {b}. bytesAt (evict k b c) a) = (\<Sum>a \<in> registered c - {b}. bytesAt c a)"
    by (rule sum.cong) (simp_all add: bytes)
  ultimately have sum: "vcUsed (evict k b c) = (\<Sum>a \<in> registered (evict k b c). bytesAt (evict k b c) a)"
    using c by (simp add: used reg acct_def)
  have len: "length (vcHeap (evict k b c)) = length (vcHeap c)" by (simp add: heap)
  show "acct (evict k b c)"
    unfolding acct_def
  proof (intro conjI)
    show "distinct (map fst (vcEntries (evict k b c)))" using c by (simp add: acct_def AList.delete_eq distinct_map_filter)
    show "distinct (map snd (vcEntries (evict k b c)))" using delete_registered(2) [OF _ _ k] c by (simp add: acct_def)
    show "\<forall>a < length (vcHeap (evict k b c)). bytesAt (evict k b c) a \<ge> 0 \<and> (a \<notin> registered (evict k b c) \<longrightarrow> bytesAt (evict k b c) a = 0)"
    proof (intro allI impI)
      fix a assume "a < length (vcHeap (evict k b c))"
      then show "bytesAt (evict k b c) a \<ge> 0 \<and> (a \<notin> registered (evict k b c) \<longrightarrow> bytesAt (evict k b c) a = 0)"
        using c by (cases "a = b") (simp_all add: zero bytes reg len acct_def)
    qed
  qed (use c sum reg len in \<open>auto simp: acct_def\<close>)
  show "same_rows c (evict k b c)" using setBytes_same [of c b 0] by (simp add: same_rows_def heap)
  show "vcUsed (evict k b c) \<le> vcUsed c" using c b(2) by (simp add: used acct_def)
  show "set (vcEntries (evict k b c)) \<subseteq> set (vcEntries c)" by (auto simp: AList.delete_eq)
qed

lemma oldestEntry_none: "oldestEntry a c = None \<Longrightarrow> registered c \<subseteq> {a}"
proof -
  have "fold (older a c) xs best = None \<Longrightarrow> best = None \<and> (\<forall>x \<in> set xs. snd x = a)" for xs best
  proof (induction xs arbitrary: best)
    case (Cons x xs)
    from Cons.IH [of "older a c x best"] Cons.prems have "older a c x best = None" "\<forall>x \<in> set xs. snd x = a" by simp_all
    then show ?case by (cases best) (simp_all add: older_def split: if_splits)
  qed simp
  then show "oldestEntry a c = None \<Longrightarrow> ?thesis" unfolding oldestEntry_def registered_def by blast
qed

text \<open>Dropping the oldest entries until the bound holds.\<close>

lemma evictLoop_acct:
  assumes "acct c"
  shows "acct (evictLoop a c) \<and> same_rows c (evictLoop a c)
    \<and> (\<forall>b \<in> registered (evictLoop a c). bytesAt (evictLoop a c) b = bytesAt c b)
    \<and> (a \<in> registered c \<longrightarrow> a \<in> registered (evictLoop a c) \<and> (bytesAt c a \<le> vcMax c \<longrightarrow> vcUsed (evictLoop a c) \<le> vcMax c))
    \<and> set (vcEntries (evictLoop a c)) \<subseteq> set (vcEntries c)"
  using assms
proof (induction a c rule: evictLoop.induct)
  case (1 a c)
  show ?case
  proof (cases "vcUsed c > vcMax c")
    case True
    show ?thesis
    proof (cases "oldestEntry a c")
      case None
      then have stay: "evictLoop a c = c" using True by (simp add: evictLoop.simps [of a c])
      have "vcUsed c = bytesAt c a" if "a \<in> registered c"
      proof -
        from that oldestEntry_none [OF None] have "registered c = {a}" by blast
        with 1(2) show ?thesis by (simp add: acct_def)
      qed
      with 1(2) show ?thesis by (simp add: stay)
    next
      case (Some kb)
      obtain k b where kb: "kb = (k, b)" by fastforce
      note mem = oldestEntry_mem [OF Some [unfolded kb]]
      note ev = evict_acct [OF 1(2) conjunct1 [OF mem]]
      have loop: "evictLoop a c = evictLoop a (evict k b c)" using True Some kb by (simp add: evictLoop.simps [of a c])
      note IH = 1(1) [OF True Some kb [symmetric] ev(1)]
      have "bytesAt (evictLoop a c) b' = bytesAt c b'" if "b' \<in> registered (evictLoop a c)" for b'
      proof -
        have "b' \<in> registered (evict k b c)" using that IH unfolding loop registered_def by (meson image_mono subsetD)
        then have "b' \<noteq> b" by (simp add: ev(2))
        with IH that ev(4) show ?thesis unfolding loop by simp
      qed
      moreover have "a \<in> registered (evict k b c)" "bytesAt (evict k b c) a = bytesAt c a" if "a \<in> registered c"
        using that mem by (simp_all add: ev(2,4))
      ultimately show ?thesis using IH ev(3,6) same_rows_trans unfolding loop by (fastforce simp: same_rows_def)
    qed
  qed (use 1(2) in \<open>simp add: evictLoop.simps [of a c]\<close>)
qed

lemma update_vals:
  assumes "distinct (map fst al)" "distinct (map snd al)" "a \<notin> snd ` set al"
  shows "distinct (map snd (AList.update k a al)) \<and> set (AList.update k a al) = insert (k, a) {x \<in> set al. fst x \<noteq> k}"
  using assms
proof (induction al)
  case (Cons x al)
  then have IH: "distinct (map snd (AList.update k a al))" "set (AList.update k a al) = insert (k, a) {x \<in> set al. fst x \<noteq> k}" by simp_all
  obtain k' v where x: "x = (k', v)" by fastforce
  show ?case
  proof (cases "k' = k")
    case True
    then have "{y \<in> set al. fst y \<noteq> k} = set al" using Cons.prems(1) by (force simp: x)
    with True Cons.prems show ?thesis by (auto simp: x)
  next
    case False
    have "v \<notin> snd ` set (AList.update k a al)" using Cons.prems(2,3) unfolding IH(2) by (force simp: x)
    with False IH show ?thesis by (auto simp: x)
  qed
qed simp

lemma key_value:
  "distinct (map fst al) \<Longrightarrow> map_of al k = Some b \<Longrightarrow> x \<in> set al \<Longrightarrow> fst x = k \<longleftrightarrow> x = (k, b)"
  by (metis eq_key_imp_eq_value fst_conv map_of_SomeD prod.collapse)

text \<open>The entry that loses its key when another claims it.\<close>

definition held :: "vec_key \<Rightarrow> 'r vec_cache \<Rightarrow> nat set" where
  "held k c = (case map_of (vcEntries c) k of None \<Rightarrow> {} | Some b \<Rightarrow> {b})"

lemma held_registered: "held k c \<subseteq> registered c"
  unfolding held_def registered_def by (auto split: option.splits dest: map_of_SomeD intro: rev_image_eqI)

lemma acct_registered:
  assumes "acct c" "b \<in> registered c"
  shows "b < length (vcHeap c)" "bytesAt c b \<ge> 0"
  using assms by (simp_all add: acct_def)

lemma claim_entries:
  assumes c: "acct c" and new: "a \<notin> registered c"
  shows "vcEntries (claim k a c) = AList.update k a (vcEntries c)"
    and "set (vcEntries (claim k a c)) = insert (k, a) {x \<in> set (vcEntries c). fst x \<noteq> k}"
    and "distinct (map snd (vcEntries (claim k a c)))" and "registered (claim k a c) = insert a (registered c - held k c)"
proof -
  have keys: "distinct (map fst (vcEntries c))" and inj: "inj_on snd (set (vcEntries c))"
    using c by (simp_all add: acct_def distinct_map)
  have "map_of (vcEntries c) k \<noteq> Some a" using new by (force simp: registered_def dest: map_of_SomeD)
  then show ents: "vcEntries (claim k a c) = AList.update k a (vcEntries c)"
    by (simp add: claim_def Let_def split: option.split)
  show set': "set (vcEntries (claim k a c)) = insert (k, a) {x \<in> set (vcEntries c). fst x \<noteq> k}"
    and "distinct (map snd (vcEntries (claim k a c)))"
    using update_vals [of "vcEntries c" a k] new c unfolding ents by (simp_all add: acct_def registered_def)
  have "snd x \<in> held k c \<longleftrightarrow> fst x = k" if "x \<in> set (vcEntries c)" for x
  proof (cases "map_of (vcEntries c) k")
    case None
    with that have "fst x \<noteq> k" by (metis imageI map_of_eq_None_iff)
    with None show ?thesis by (simp add: held_def)
  next
    case (Some b)
    have "snd x = b \<longleftrightarrow> x = (k, b)" using inj_onD [OF inj _ that map_of_SomeD [OF Some]] by (metis snd_conv)
    with key_value [OF keys Some that] show ?thesis by (simp add: held_def Some)
  qed
  then show "registered (claim k a c) = insert a (registered c - held k c)" unfolding registered_def set' by force
qed

lemma claim_bytes:
  assumes c: "acct c" and new: "a \<notin> registered c"
  shows "b < length (vcHeap c) \<Longrightarrow> bytesAt (claim k a c) b = (if b \<in> held k c then 0 else bytesAt c b)"
    and "vcUsed (claim k a c) = vcUsed c - (\<Sum>b \<in> held k c. bytesAt c b)" and "same_rows c (claim k a c)"
proof -
  have no: "map_of (vcEntries c) k \<noteq> Some a" using new by (force simp: registered_def dest: map_of_SomeD)
  then show "vcUsed (claim k a c) = vcUsed c - (\<Sum>b \<in> held k c. bytesAt c b)"
    by (auto simp: claim_def Let_def held_def bytesAt_def split: option.split)
  have "(b < length (vcHeap c) \<longrightarrow> bytesAt (claim k a c) b = (if b \<in> held k c then 0 else bytesAt c b)) \<and> same_rows c (claim k a c)"
  proof (cases "map_of (vcEntries c) k")
    case None
    then show ?thesis by (simp add: claim_def held_def bytesAt_def same_rows_def)
  next
    case (Some b')
    have "b' < length (vcHeap c)" using held_registered [of k c] Some acct_registered(1) [OF c, of b'] by (simp add: held_def)
    note set = bytesAt_set [OF this, of 0 b] setBytes_same [of c b' 0]
    have "vcHeap (claim k a c) = vcHeap (setBytes b' 0 c)" "vcMax (claim k a c) = vcMax c"
      using no Some by (simp_all add: claim_def Let_def setBytes_def bytesAt_def)
    with set Some show ?thesis by (simp add: same_rows_def held_def bytesAt_def)
  qed
  then show "b < length (vcHeap c) \<Longrightarrow> bytesAt (claim k a c) b = (if b \<in> held k c then 0 else bytesAt c b)"
    "same_rows c (claim k a c)" by blast+
qed

lemma claim_sum:
  assumes c: "acct c" and a: "a < length (vcHeap c)" and new: "a \<notin> registered c"
  shows "vcUsed (claim k a c) = (\<Sum>b \<in> registered (claim k a c). bytesAt (claim k a c) b)"
proof -
  note reg = claim_entries(4) [OF c new, of k] and fin = finite_imageI [OF finite_set, of snd "vcEntries c", folded registered_def]
  have zero: "bytesAt c a = 0" "a \<notin> held k c" using c a new held_registered [of k c] by (auto simp: acct_def)
  have "(\<Sum>b \<in> registered (claim k a c). bytesAt (claim k a c) b) = (\<Sum>b \<in> insert a (registered c - held k c). bytesAt c b)"
    unfolding reg by (rule sum.cong) (use claim_bytes(1) [OF c new, of _ k] acct_registered(1) [OF c] a zero in auto)
  also have "\<dots> = (\<Sum>b \<in> registered c - held k c. bytesAt c b)" using fin new zero by simp
  also have "\<dots> = vcUsed (claim k a c)"
    using c held_registered [of k c] fin by (simp add: claim_bytes(2) [OF c new] acct_def sum_diff)
  finally show ?thesis ..
qed

lemma claim_new:
  assumes c: "acct c" and a: "a < length (vcHeap c)" and new: "a \<notin> registered c"
  shows "acct (claim k a c)" "vcUsed (claim k a c) \<le> vcUsed c"
proof -
  note ents = claim_entries [OF c new, of k] and bytes = claim_bytes [OF c new]
  note len = same_rows_length [OF bytes(3), of k]
  show "acct (claim k a c)"
    unfolding acct_def len
  proof (intro conjI)
    show "distinct (map fst (vcEntries (claim k a c)))" using c unfolding ents(1) acct_def by (simp add: distinct_update)
    show "\<forall>b \<in> registered (claim k a c). b < length (vcHeap c)" using a acct_registered(1) [OF c] by (auto simp: ents(4))
    show "\<forall>b < length (vcHeap c). bytesAt (claim k a c) b \<ge> 0 \<and> (b \<notin> registered (claim k a c) \<longrightarrow> bytesAt (claim k a c) b = 0)"
      using c bytes(1) [of _ k] unfolding ents(4) acct_def by auto
  qed (use ents(3) claim_sum [OF c a new] in simp_all)
  show "vcUsed (claim k a c) \<le> vcUsed c"
    unfolding bytes(2) using acct_registered(2) [OF c] held_registered [of k c] by (simp add: sum_nonneg subset_iff)
qed

lemma claim_acct:
  assumes c: "acct c" and a: "a < length (vcHeap c)" and own: "a \<in> registered c \<Longrightarrow> map_of (vcEntries c) k = Some a"
  shows "acct (claim k a c) \<and> same_rows c (claim k a c) \<and> (k, a) \<in> set (vcEntries (claim k a c))
    \<and> set (vcEntries (claim k a c)) \<subseteq> insert (k, a) (set (vcEntries c)) \<and> vcUsed (claim k a c) \<le> vcUsed c
    \<and> (\<forall>b \<in> registered (claim k a c). bytesAt (claim k a c) b = bytesAt c b)"
proof (cases "a \<in> registered c")
  case True
  from own [OF True] have "claim k a c = c" by (simp add: claim_def)
  with c map_of_SomeD [OF own [OF True]] show ?thesis by auto
next
  case False
  have "bytesAt (claim k a c) b = bytesAt c b" if "b \<in> registered (claim k a c)" for b
    using that claim_bytes(1) [OF c False, of _ k] a acct_registered(1) [OF c] held_registered [of k c] False
    by (auto simp: claim_entries(4) [OF c False])
  with claim_new [OF c a False] claim_bytes(3) [OF c False] claim_entries(2) [OF c False] show ?thesis by auto
qed

lemma setBytes_acct:
  assumes c: "acct c" and a: "a \<in> registered c" and n: "n \<ge> 0"
  shows "acct (setBytes a n (c\<lparr>vcUsed := vcUsed c + n - bytesAt c a\<rparr>))"
proof -
  define d where "d = setBytes a n (c\<lparr>vcUsed := vcUsed c + n - bytesAt c a\<rparr>)"
  have al: "a < length (vcHeap c)" by (rule acct_registered(1) [OF c a])
  have bytes: "bytesAt d b = (if b = a then n else bytesAt c b)" for b
    using bytesAt_set [of a "c\<lparr>vcUsed := vcUsed c + n - bytesAt c a\<rparr>" n b] al by (simp add: d_def bytesAt_def)
  have reg: "registered d = registered c" and ents: "vcEntries d = vcEntries c" and len: "length (vcHeap d) = length (vcHeap c)"
    and used: "vcUsed d = vcUsed c + n - bytesAt c a" by (simp_all add: d_def registered_def)
  have fin: "finite (registered c)" by (simp add: registered_def)
  have "(\<Sum>b \<in> registered c. bytesAt d b) = n + (\<Sum>b \<in> registered c - {a}. bytesAt d b)"
    using a fin by (simp add: sum.remove bytes)
  also have "(\<Sum>b \<in> registered c - {a}. bytesAt d b) = (\<Sum>b \<in> registered c - {a}. bytesAt c b)"
    by (rule sum.cong) (auto simp: bytes)
  also have "\<dots> = vcUsed c - bytesAt c a" using c a fin by (simp add: acct_def sum_diff1)
  finally have "vcUsed d = (\<Sum>b \<in> registered d. bytesAt d b)" by (simp add: reg used)
  moreover have "\<forall>b < length (vcHeap d). bytesAt d b \<ge> 0 \<and> (b \<notin> registered d \<longrightarrow> bytesAt d b = 0)"
    using c n a by (simp add: bytes reg len acct_def)
  ultimately show ?thesis using c unfolding d_def [symmetric] acct_def by (simp add: reg ents len)
qed

text \<open>After accounting an entry is registered within the bound, or it is gone.\<close>

lemma account_acct:
  assumes c: "acct c" and a: "a < length (vcHeap c)" and own: "a \<in> registered c \<Longrightarrow> map_of (vcEntries c) k = Some a"
    and n: "n \<ge> 0" and acc: "account k a n c = (kept, c')"
  shows "acct c' \<and> same_rows c c' \<and> set (vcEntries c') \<subseteq> insert (k, a) (set (vcEntries c))
    \<and> (\<forall>b \<in> registered c'. b \<noteq> a \<longrightarrow> bytesAt c' b = bytesAt c b)
    \<and> (if kept then n \<le> vcMax c \<and> a \<in> registered c' \<and> bytesAt c' a = n \<and> vcUsed c' \<le> vcMax c
       else n > vcMax c \<and> a \<notin> registered c' \<and> vcUsed c' \<le> vcUsed c)"
proof -
  define c1 where "c1 = claim k a c"
  define c2 where "c2 = setBytes a n (c1\<lparr>vcUsed := vcUsed c1 + n - bytesAt c1 a\<rparr>)"
  note cl = claim_acct [OF c a own, folded c1_def]
  then have a1: "a \<in> registered c1" by (force simp: registered_def)
  have al: "a < length (vcHeap c1)" using cl a1 acct_registered(1) by blast
  have c2: "acct c2" unfolding c2_def by (rule setBytes_acct) (use cl a1 n in simp_all)
  have same: "same_rows c c2" using cl setBytes_same [of "c1\<lparr>vcUsed := vcUsed c1 + n - bytesAt c1 a\<rparr>" a n]
    by (simp add: c2_def same_rows_def)
  have bytes: "bytesAt c2 b = (if b = a then n else bytesAt c1 b)" for b
    using bytesAt_set [of a "c1\<lparr>vcUsed := vcUsed c1 + n - bytesAt c1 a\<rparr>" n b] al by (simp add: c2_def bytesAt_def)
  have ents: "vcEntries c2 = vcEntries c1" "registered c2 = registered c1" "vcMax c2 = vcMax c" "(k, a) \<in> set (vcEntries c2)"
    using cl by (simp_all add: c2_def registered_def same_rows_def)
  have res: "account k a n c = (if n > vcMax c2 then (False, (setBytes a 0 c2)\<lparr>vcUsed := vcUsed c2 - n, vcEntries := AList.delete k (vcEntries c2)\<rparr>)
    else (True, evictLoop a c2))"
    by (simp only: account_def Let_def c1_def c2_def)
  show ?thesis
  proof (cases "n > vcMax c")
    case True
    note ev = evict_acct [OF c2 ents(4)]
    have "account k a n c = (False, evict k a c2)"
      using True ents(3) bytes [of a] by (simp add: res evict_def Let_def setBytes_def)
    moreover have "vcUsed (evict k a c2) \<le> vcUsed c"
      using cl bytes [of a] acct_registered(2) [of c1 a] a1 by (simp add: evict_def Let_def c2_def)
    ultimately show ?thesis
      using acc True ev ents cl same_rows_trans [OF same ev(3)] bytes by auto
  next
    case False
    have "account k a n c = (True, evictLoop a c2)"
      using False ents(3) by (simp add: res)
    moreover note ev = evictLoop_acct [OF c2, of a]
    moreover have "registered (evictLoop a c2) \<subseteq> registered c1"
      unfolding registered_def by (rule image_mono) (use ev ents(1) in simp)
    ultimately show ?thesis
      using acc False ents a1 cl same_rows_trans [OF same, of "evictLoop a c2"] bytes by auto
  qed
qed

lemma drop_acct:
  assumes c: "acct c" and own: "a \<in> registered c \<Longrightarrow> map_of (vcEntries c) k = Some a"
  shows "acct (drop_entry k a c) \<and> same_rows c (drop_entry k a c) \<and> a \<notin> registered (drop_entry k a c)
    \<and> set (vcEntries (drop_entry k a c)) \<subseteq> set (vcEntries c) \<and> vcUsed (drop_entry k a c) \<le> vcUsed c
    \<and> (\<forall>b. b \<noteq> a \<longrightarrow> bytesAt (drop_entry k a c) b = bytesAt c b)"
proof (cases "map_of (vcEntries c) k = Some a")
  case True
  with evict_acct [OF c map_of_SomeD [OF True]] show ?thesis by (simp add: drop_entry_def)
next
  case False
  with own c show ?thesis by (auto simp: drop_entry_def)
qed

end
