(* ===== verification/Store_Vector_Cache.thy ===== *)
theory Store_Vector_Cache
  imports Store_Vector_Runs
begin

text \<open>
  The runs of the vector cache: searches enter, taking the entry of their key, and bring it up to
  date with their own snapshot, in any order. In every run the entries handed out stand for
  snapshots and the registered ones fit the bound, so a search answers like a scan; a search that
  fails takes its entry out, and the last sections show what one that waited for it then finds.
\<close>

section \<open>Runs\<close>

text \<open>\<open>g\<close> is which entries have been handed out under which key and were not taken out again.\<close>

inductive cache_run ::
    "'r scorer \<Rightarrow> (string \<Rightarrow> store_db \<Rightarrow> bool) \<Rightarrow> int \<Rightarrow> 'r vec_cache \<Rightarrow> (nat \<times> vec_key) set \<Rightarrow> bool"
  for sc :: "'r scorer" and snaps :: "string \<Rightarrow> store_db \<Rightarrow> bool" and limit :: int where
  Opened: "0 < limit \<Longrightarrow> cache_run sc snaps limit \<lparr>vcMax = limit, vcUsed = 0, vcTick = 0, vcEntries = [], vcHeap = []\<rparr> {}"
| Entered: "cache_run sc snaps limit c g \<Longrightarrow> scoreStart tk db k c = (Inr (head, fp, a), c')
    \<Longrightarrow> cache_run sc snaps limit c' (insert (a, k) g)"
| Refreshed: "cache_run sc snaps limit c g \<Longrightarrow> (a, ns, table, col) \<in> g \<Longrightarrow> snaps ns db \<Longrightarrow> carries db table fp
    \<Longrightarrow> refresh sc tk db (ns, table, col) (ownedOf db table) (lastSeq (sdLog db)) fp a c = (Inr res, c')
    \<Longrightarrow> cache_run sc snaps limit c' g"
| Lost: "cache_run sc snaps limit c g \<Longrightarrow> (a, ns, table, col) \<in> g \<Longrightarrow> snaps ns db \<Longrightarrow> carries db table fp
    \<Longrightarrow> refresh sc tk db (ns, table, col) (ownedOf db table) (lastSeq (sdLog db)) fp a c = (Inl err, c')
    \<Longrightarrow> cache_run sc snaps limit c' (g - {(a, ns, table, col)})"

text \<open>What holds in every run, but for the entries of \<open>A\<close>.\<close>

definition cache_inv ::
    "'r scorer \<Rightarrow> (string \<Rightarrow> store_db \<Rightarrow> bool) \<Rightarrow> int \<Rightarrow> nat set \<Rightarrow> 'r vec_cache \<Rightarrow> (nat \<times> vec_key) set \<Rightarrow> bool" where
  "cache_inv sc snaps limit A c g \<longleftrightarrow> vcMax c = limit \<and> acct c \<and> vcUsed c \<le> limit
     \<and> (\<forall>(k, a) \<in> set (vcEntries c). (a, k) \<in> g)
     \<and> (\<forall>(a, k) \<in> g. a < length (vcHeap c) \<and> (a \<notin> A \<longrightarrow> valid sc snaps limit k (vcHeap c ! a)))
     \<and> (\<forall>a k k'. (a, k) \<in> g \<longrightarrow> (a, k') \<in> g \<longrightarrow> k = k')
     \<and> (\<forall>a \<in> registered c - A. bytesAt c a = entrySize (vcHeap c ! a))"

lemma valid_fields [simp]:
  "valid sc snaps limit k (e\<lparr>veBytes := n\<rparr>) = valid sc snaps limit k e"
  "valid sc snaps limit k (e\<lparr>veLastUse := u\<rparr>) = valid sc snaps limit k e"
  by (simp_all add: valid_def)

lemma entrySize_fields [simp]:
  "entrySize (e\<lparr>veBytes := n\<rparr>) = entrySize e" "entrySize (e\<lparr>veLastUse := u\<rparr>) = entrySize e"
  by (simp_all add: entrySize_def)

lemma same_rows_entry:
  assumes "same_rows c c'" "a < length (vcHeap c)"
  shows "valid sc snaps limit k (vcHeap c' ! a) = valid sc snaps limit k (vcHeap c ! a)"
    and "entrySize (vcHeap c' ! a) = entrySize (vcHeap c ! a)"
  using same_rows_nth [OF assms] valid_fields(1) entrySize_fields(1) by metis+

lemma inv_own:
  assumes "cache_inv sc snaps limit A c g" "(a, k) \<in> g" "a \<in> registered c"
  shows "map_of (vcEntries c) k = Some a"
proof -
  from assms(3) obtain k' where k': "(k', a) \<in> set (vcEntries c)" by (auto simp: registered_def)
  with assms(1) have "(a, k') \<in> g" by (auto simp: cache_inv_def)
  with assms(1,2) have "k' = k" unfolding cache_inv_def by blast
  with k' assms(1) show ?thesis by (simp add: cache_inv_def acct_def)
qed

text \<open>A change to what is registered keeps the invariant.\<close>

lemma inv_registered:
  assumes inv: "cache_inv sc snaps limit A c g" and same: "same_rows c c'" and c': "acct c'" "vcUsed c' \<le> limit"
    and ents: "\<And>k a. (k, a) \<in> set (vcEntries c') \<Longrightarrow> (k, a) \<in> set (vcEntries c) \<or> (a, k) \<in> g"
    and bytes: "\<And>a. a \<in> registered c' \<Longrightarrow> a \<notin> A \<Longrightarrow> a \<in> registered c \<and> bytesAt c' a = bytesAt c a"
  shows "cache_inv sc snaps limit A c' g"
proof -
  note len = same_rows_length [OF same]
  have "(a, k) \<in> g" if "(k, a) \<in> set (vcEntries c')" for a k
    using ents [OF that] inv unfolding cache_inv_def by blast
  moreover have "a < length (vcHeap c')" "a \<notin> A \<Longrightarrow> valid sc snaps limit k (vcHeap c' ! a)" if "(a, k) \<in> g" for a k
    using that inv same_rows_entry(1) [OF same] unfolding cache_inv_def len by blast+
  moreover have "bytesAt c' a = entrySize (vcHeap c' ! a)" if "a \<in> registered c'" "a \<notin> A" for a
  proof -
    note b = bytes [OF that]
    from inv b have "a < length (vcHeap c)" by (simp add: cache_inv_def acct_def)
    from inv that(2) b same_rows_entry(2) [OF same this] show ?thesis unfolding cache_inv_def by auto
  qed
  moreover have "vcMax c' = limit" using inv same by (simp add: cache_inv_def same_rows_def)
  ultimately show ?thesis using inv c' unfolding cache_inv_def by auto
qed

lemma setEntry_simps [simp]:
  "vcEntries (setEntry a e c) = vcEntries c" "vcUsed (setEntry a e c) = vcUsed c" "vcMax (setEntry a e c) = vcMax c"
  "length (vcHeap (setEntry a e c)) = length (vcHeap c)" "registered (setEntry a e c) = registered c"
  by (simp_all add: setEntry_def registered_def)

text \<open>Replacing the rows of an entry, its size on record left alone.\<close>

lemma setEntry_inv:
  assumes inv: "cache_inv sc snaps limit A c g" and bytes: "veBytes e = bytesAt c a"
  shows "cache_inv sc snaps limit (insert a A) (setEntry a e c) g" "acct (setEntry a e c)"
proof -
  have same: "bytesAt (setEntry a e c) b = bytesAt c b" for b
    using bytes by (cases "a < length (vcHeap c)") (auto simp: setEntry_def bytesAt_def nth_list_update list_update_beyond)
  have other: "vcHeap (setEntry a e c) ! b = vcHeap c ! b" if "b \<noteq> a" for b using that by (simp add: setEntry_def)
  show acct: "acct (setEntry a e c)" using inv by (simp add: cache_inv_def acct_def same cong: sum.cong)
  show "cache_inv sc snaps limit (insert a A) (setEntry a e c) g"
    using inv acct other same unfolding cache_inv_def by auto
qed

section \<open>The invariant\<close>

lemma invD:
  assumes "cache_inv sc snaps limit A c g"
  shows "acct c" "vcMax c = limit" "vcUsed c \<le> limit"
    and "(k, a) \<in> set (vcEntries c) \<Longrightarrow> (a, k) \<in> g" and "(a, k) \<in> g \<Longrightarrow> a < length (vcHeap c)"
    and "(a, k) \<in> g \<Longrightarrow> a \<notin> A \<Longrightarrow> valid sc snaps limit k (vcHeap c ! a)"
    and "a \<in> registered c \<Longrightarrow> a \<notin> A \<Longrightarrow> bytesAt c a = entrySize (vcHeap c ! a)"
  using assms unfolding cache_inv_def by blast+

text \<open>A use of an entry changes only when it was last used.\<close>

definition touch :: "nat \<Rightarrow> 'r vec_cache \<Rightarrow> 'r vec_cache" where
  "touch a c = c\<lparr>vcTick := vcTick c + 1, vcHeap := (vcHeap c)[a := (vcHeap c ! a)\<lparr>veLastUse := vcTick c + 1\<rparr>]\<rparr>"

lemma cacheEntry_touch:
  "cacheEntry k c = (case map_of (vcEntries c) k of
     Some a \<Rightarrow> (a, touch a c)
   | None \<Rightarrow> (length (vcHeap c), touch (length (vcHeap c))
       (claim k (length (vcHeap c)) (c\<lparr>vcHeap := vcHeap c @ [newEntry]\<rparr>))))"
  by (simp add: cacheEntry_def touch_def claim_def Let_def split: option.split)

lemma touch_fields:
  "vcEntries (touch a c) = vcEntries c" "vcUsed (touch a c) = vcUsed c" "vcMax (touch a c) = vcMax c"
  "length (vcHeap (touch a c)) = length (vcHeap c)" "registered (touch a c) = registered c" "bytesAt (touch a c) b = bytesAt c b"
  "valid sc snaps limit k (vcHeap (touch a c) ! b) = valid sc snaps limit k (vcHeap c ! b)"
  "entrySize (vcHeap (touch a c) ! b) = entrySize (vcHeap c ! b)"
  by (cases "a < length (vcHeap c)"; simp add: touch_def registered_def bytesAt_def nth_list_update list_update_beyond)+

lemma touch_inv: "cache_inv sc snaps limit A c g \<Longrightarrow> cache_inv sc snaps limit A (touch a c) g"
  by (simp add: cache_inv_def acct_def touch_fields)

text \<open>A new entry takes no memory and stands for nothing yet.\<close>

lemma append_inv:
  assumes inv: "cache_inv sc snaps limit {} c g"
  shows "cache_inv sc snaps limit {} (c\<lparr>vcHeap := vcHeap c @ [newEntry]\<rparr>) (insert (length (vcHeap c), k) g)"
proof -
  let ?c = "c\<lparr>vcHeap := vcHeap c @ [newEntry]\<rparr>"
  have bytes: "b < length (vcHeap c) \<Longrightarrow> bytesAt ?c b = bytesAt c b" "bytesAt ?c (length (vcHeap c)) = 0" for b
    by (simp_all add: bytesAt_def nth_append newEntry_def)
  have reg: "registered ?c = registered c" by (simp add: registered_def)
  have below: "b < length (vcHeap c)" if "b \<in> registered c" for b using invD(1) [OF inv] that by (simp add: acct_def)
  have "(\<Sum>b \<in> registered c. bytesAt ?c b) = (\<Sum>b \<in> registered c. bytesAt c b)"
    by (rule sum.cong) (simp_all add: bytes below)
  then have "acct ?c" using invD(1) [OF inv] below bytes unfolding acct_def reg by (auto simp: less_Suc_eq)
  moreover have "valid sc snaps limit k newEntry" by (simp add: valid_def newEntry_def)
  ultimately show ?thesis
    using inv bytes below unfolding cache_inv_def reg by (auto simp: nth_append dest: order.strict_implies_not_eq)
qed

text \<open>Registering an entry that was handed out under the key, its size being right.\<close>

lemma claim_inv:
  assumes inv: "cache_inv sc snaps limit A c g" and mine: "(a, k) \<in> g"
    and size: "a \<notin> registered c \<Longrightarrow> a \<notin> A \<Longrightarrow> entrySize (vcHeap c ! a) = 0"
  shows "cache_inv sc snaps limit A (claim k a c) g"
proof -
  note cl = claim_acct [OF invD(1) [OF inv] invD(5) [OF inv mine] inv_own [OF inv mine]]
  then have c': "acct (claim k a c)" "same_rows c (claim k a c)" "vcUsed (claim k a c) \<le> limit"
    and ents: "set (vcEntries (claim k a c)) \<subseteq> insert (k, a) (set (vcEntries c))"
    and bytes: "\<And>b. b \<in> registered (claim k a c) \<Longrightarrow> bytesAt (claim k a c) b = bytesAt c b"
    using invD(3) [OF inv] by auto
  note al = invD(5) [OF inv mine]
  have "bytesAt (claim k a c) b = entrySize (vcHeap (claim k a c) ! b)" if b: "b \<in> registered (claim k a c)" "b \<notin> A" for b
  proof (cases "b \<in> registered c")
    case True
    then have "b < length (vcHeap c)" by (rule acct_registered(1) [OF invD(1) [OF inv]])
    with True b bytes invD(7) [OF inv] same_rows_entry(2) [OF c'(2)] show ?thesis by simp
  next
    case False
    with b(1) ents have "b = a" by (force simp: registered_def)
    with False b al bytes size invD(1) [OF inv] same_rows_entry(2) [OF c'(2) al] show ?thesis by (simp add: acct_def)
  qed
  moreover have "(b, j) \<in> g" if "(j, b) \<in> set (vcEntries (claim k a c))" for b j
    using that ents mine invD(4) [OF inv] by blast
  moreover have "b < length (vcHeap (claim k a c))" "b \<notin> A \<Longrightarrow> valid sc snaps limit j (vcHeap (claim k a c) ! b)" if "(b, j) \<in> g" for b j
    using that invD(5,6) [OF inv] same_rows_entry(1) [OF c'(2)] same_rows_length [OF c'(2)] by auto
  moreover have "vcMax (claim k a c) = limit" using invD(2) [OF inv] c'(2) by (simp add: same_rows_def)
  ultimately show ?thesis using inv c' unfolding cache_inv_def by auto
qed

lemma cacheEntry_inv:
  assumes inv: "cache_inv sc snaps limit {} c g" and enter: "cacheEntry k c = (a, c')"
  shows "cache_inv sc snaps limit {} c' (insert (a, k) g)"
proof (cases "map_of (vcEntries c) k")
  case (Some b)
  then have "(b, k) \<in> g" using invD(4) [OF inv] map_of_SomeD by fast
  with Some enter touch_inv [OF inv, of b] show ?thesis by (auto simp: cacheEntry_touch insert_absorb)
next
  case None
  let ?a = "length (vcHeap c)" and ?c = "c\<lparr>vcHeap := vcHeap c @ [newEntry]\<rparr>"
  have "entrySize (vcHeap ?c ! ?a) = 0" by (simp add: entrySize_def newEntry_def)
  with claim_inv [OF append_inv [OF inv, of k], of ?a k]
  have "cache_inv sc snaps limit {} (touch ?a (claim k ?a ?c)) (insert (?a, k) g)" by (simp add: touch_inv)
  with enter None show ?thesis by (auto simp: cacheEntry_touch)
qed

lemma scoreStart_inv:
  assumes inv: "cache_inv sc snaps limit {} c g" and start: "scoreStart tk db k c = (Inr (head, fp, a), c')"
  shows "cache_inv sc snaps limit {} c' (insert (a, k) g)"
proof -
  from start have "cacheEntry k c = (a, c')" by (auto simp: scoreStart_def split: sum.splits prod.splits)
  with inv show ?thesis by (rule cacheEntry_inv)
qed

text \<open>An entry leaves the exceptions when it is valid and its size on record is right.\<close>

lemma inv_settled:
  assumes inv: "cache_inv sc snaps limit {a} c g"
    and v: "\<And>k. (a, k) \<in> g \<Longrightarrow> valid sc snaps limit k (vcHeap c ! a)"
    and b: "a \<in> registered c \<Longrightarrow> bytesAt c a = entrySize (vcHeap c ! a)"
  shows "cache_inv sc snaps limit {} c g"
proof -
  have "valid sc snaps limit k (vcHeap c ! b)" if "(b, k) \<in> g" for b k
    using invD(6) [OF inv that] v that by (cases "b = a") auto
  moreover have "bytesAt c b = entrySize (vcHeap c ! b)" if "b \<in> registered c" for b
    using invD(7) [OF inv that] b that by (cases "b = a") auto
  ultimately show ?thesis using inv unfolding cache_inv_def by auto
qed

lemma drop_inv:
  assumes inv: "cache_inv sc snaps limit {a} c g" and mine: "(a, k) \<in> g"
  shows "cache_inv sc snaps limit {a} (drop_entry k a c) g" "a \<notin> registered (drop_entry k a c)"
proof -
  note d = drop_acct [OF invD(1) [OF inv] inv_own [OF inv mine]]
  then have sub: "registered (drop_entry k a c) \<subseteq> registered c" unfolding registered_def by blast
  show "cache_inv sc snaps limit {a} (drop_entry k a c) g"
    by (rule inv_registered [OF inv]) (use d sub invD(3) [OF inv] in auto)
  show "a \<notin> registered (drop_entry k a c)" using d by simp
qed

lemma entrySize_nonneg: "entrySize e \<ge> 0"
proof -
  have "0 \<le> sum_list (map (\<lambda>v. vecLen v * 4) (veVecs e))"
    by (rule sum_list_nonneg) (auto simp: vecLen_def split: option.splits)
  then show ?thesis by (simp add: entrySize_def vecRowOverhead_def)
qed

lemma inv_key: "cache_inv sc snaps limit A c g \<Longrightarrow> (a, k) \<in> g \<Longrightarrow> (a, k') \<in> g \<Longrightarrow> k' = k"
  unfolding cache_inv_def by blast

lemma setEntry_nth: "a < length (vcHeap c) \<Longrightarrow> vcHeap (setEntry a e c) ! a = e"
  by (simp add: setEntry_def)

text \<open>An entry whose rows are too many is emptied and remembered as such.\<close>

lemma giveUp_inv:
  assumes inv: "cache_inv sc snaps limit {a} c g" and mine: "(a, ns, table, col) \<in> g" and out: "a \<notin> registered c"
    and db: "snaps ns db" "carries db table fp" and big: "snapSize sc db table col > limit"
  shows "cache_inv sc snaps limit {} (claim (ns, table, col) a (setEntry a (emptied fp (lastSeq (sdLog db)) (vcHeap c ! a)) c)) g"
proof -
  define e where "e = emptied fp (lastSeq (sdLog db)) (vcHeap c ! a)"
  note al = invD(5) [OF inv mine]
  have "veBytes e = bytesAt c a" by (simp add: e_def emptied_def bytesAt_def)
  note set = setEntry_inv(1) [OF inv this, simplified]
  have v: "valid sc snaps limit (ns, table, col) e" using db big by (auto simp: valid_def e_def emptied_def)
  have "cache_inv sc snaps limit {} (setEntry a e c) g"
    by (rule inv_settled [OF set]) (use inv_key [OF inv mine] v out setEntry_nth [OF al] in auto)
  then have "cache_inv sc snaps limit {} (claim (ns, table, col) a (setEntry a e c)) g"
    by (rule claim_inv [OF _ mine]) (simp add: setEntry_nth [OF al] e_def emptied_def entrySize_def)
  then show ?thesis by (simp add: e_def)
qed

text \<open>An entry that holds the rows of the snapshot is accounted for, and stays or is given up.\<close>

lemma account_inv:
  assumes inv: "cache_inv sc snaps limit {a} c g" and mine: "(a, ns, table, col) \<in> g"
    and acc: "account (ns, table, col) a (entrySize (vcHeap c ! a)) c = (kept, c')"
    and v: "valid sc snaps limit (ns, table, col) (vcHeap c ! a)"
  shows "cache_inv sc snaps limit {a} c' g"
    and "kept \<Longrightarrow> cache_inv sc snaps limit {} c' g \<and> entrySize (vcHeap c ! a) \<le> limit"
    and "\<not> kept \<Longrightarrow> a \<notin> registered c' \<and> entrySize (vcHeap c ! a) > limit"
proof -
  note al = invD(5) [OF inv mine]
  note ac = account_acct [OF invD(1) [OF inv] al inv_own [OF inv mine] entrySize_nonneg acc]
  then have same: "same_rows c c'" and c': "acct c'" and ents: "set (vcEntries c') \<subseteq> insert ((ns, table, col), a) (set (vcEntries c))" by blast+
  have used: "vcUsed c' \<le> limit" using ac invD(2,3) [OF inv] by (cases kept) auto
  show inv': "cache_inv sc snaps limit {a} c' g"
  proof (rule inv_registered [OF inv same c' used])
    show "(k, b) \<in> set (vcEntries c) \<or> (b, k) \<in> g" if "(k, b) \<in> set (vcEntries c')" for k b using that ents mine by blast
    show "b \<in> registered c \<and> bytesAt c' b = bytesAt c b" if "b \<in> registered c'" "b \<notin> {a}" for b
      using that ac ents by (auto simp: registered_def)
  qed
  show "cache_inv sc snaps limit {} c' g \<and> entrySize (vcHeap c ! a) \<le> limit" if kept
  proof
    show "cache_inv sc snaps limit {} c' g"
      by (rule inv_settled [OF inv'])
        (use that ac same_rows_entry [OF same al] v inv_key [OF inv mine] in auto)
    show "entrySize (vcHeap c ! a) \<le> limit" using that ac invD(2) [OF inv] by simp
  qed
  show "a \<notin> registered c' \<and> entrySize (vcHeap c ! a) > limit" if "\<not> kept" using that ac invD(2) [OF inv] by simp
qed

lemma cache_invI:
  assumes "vcMax c = limit" "acct c" "vcUsed c \<le> limit" "\<And>k a. (k, a) \<in> set (vcEntries c) \<Longrightarrow> (a, k) \<in> g"
    and "\<And>a k. (a, k) \<in> g \<Longrightarrow> a < length (vcHeap c) \<and> (a \<notin> A \<longrightarrow> valid sc snaps limit k (vcHeap c ! a))"
    and "\<And>a k k'. (a, k) \<in> g \<Longrightarrow> (a, k') \<in> g \<Longrightarrow> k = k'"
    and "\<And>a. a \<in> registered c \<Longrightarrow> a \<notin> A \<Longrightarrow> bytesAt c a = entrySize (vcHeap c ! a)"
  shows "cache_inv sc snaps limit A c g"
  unfolding cache_inv_def using assms by blast

lemma forget_inv:
  assumes inv: "cache_inv sc snaps limit {a} c g" and mine: "(a, k) \<in> g" and out: "a \<notin> registered c"
  shows "cache_inv sc snaps limit {} c (g - {(a, k)})"
proof (rule cache_invI)
  have other: "b \<noteq> a" if "(b, j) \<in> g - {(a, k)}" for b j using that inv_key [OF inv mine, of j] by blast
  show "(b, j) \<in> g - {(a, k)}" if "(j, b) \<in> set (vcEntries c)" for b j
  proof -
    have "b \<in> registered c" using that by (force simp: registered_def)
    with out invD(4) [OF inv that] show ?thesis by auto
  qed
  show "b < length (vcHeap c) \<and> (b \<notin> {} \<longrightarrow> valid sc snaps limit j (vcHeap c ! b))" if "(b, j) \<in> g - {(a, k)}" for b j
    using that invD(5,6) [OF inv] other [OF that] by blast
  show "bytesAt c b = entrySize (vcHeap c ! b)" if "b \<in> registered c" for b
    using that invD(7) [OF inv] out by auto
  show "j = j'" if "(b, j) \<in> g - {(a, k)}" "(b, j') \<in> g - {(a, k)}" for b j j'
    using that inv_key [OF inv] by blast
qed (use invD(1-3) [OF inv] in simp_all)

text \<open>A step under the lock of an entry: the rows it read, or why not.\<close>

definition refreshed ::
    "'r scorer \<Rightarrow> (string \<Rightarrow> store_db \<Rightarrow> bool) \<Rightarrow> int \<Rightarrow> 'r vec_cache \<Rightarrow> (nat \<times> vec_key) set \<Rightarrow> nat \<Rightarrow> vec_key \<Rightarrow> store_db
       \<Rightarrow> insert_error + nat option \<Rightarrow> bool" where
  "refreshed sc snaps limit c g a k db res \<longleftrightarrow>
     (case res of
        Inl err \<Rightarrow> cache_inv sc snaps limit {} c (g - {(a, k)})
      | Inr None \<Rightarrow> cache_inv sc snaps limit {} c g
      | Inr (Some b) \<Rightarrow> cache_inv sc snaps limit {} c g \<and> snapSize sc db (fst (snd k)) (snd (snd k)) \<le> limit)"

lemma refreshed_simps [simp]:
  "refreshed sc snaps limit c g a k db (Inl err) = cache_inv sc snaps limit {} c (g - {(a, k)})"
  "refreshed sc snaps limit c g a k db (Inr None) = cache_inv sc snaps limit {} c g"
  "refreshed sc snaps limit c g a k db (Inr (Some b)) =
     (cache_inv sc snaps limit {} c g \<and> snapSize sc db (fst (snd k)) (snd (snd k)) \<le> limit)"
  by (simp_all add: refreshed_def)

lemma refresh_inv:
  assumes t: "timeline snaps" and inv: "cache_inv sc snaps limit {} c g" and mine: "(a, ns, table, col) \<in> g"
    and db: "snaps ns db" "carries db table fp"
    and ref: "refresh sc tk db (ns, table, col) (ownedOf db table) (lastSeq (sdLog db)) fp a c = (res, c')"
  shows "refreshed sc snaps limit c' g a (ns, table, col) db res"
proof -
  let ?k = "(ns, table, col)" and ?head = "lastSeq (sdLog db)"
  obtain r e where r: "refreshEntry sc tk db table col (ownedOf db table) (vcMax c) ?head fp (vcHeap c ! a) = (r, e)" by fastforce
  note al = invD(5) [OF inv mine]
  note ids = timeline_ids [OF t db(1)]
  have v: "valid sc snaps limit ?k (vcHeap c ! a)" using invD(6) [OF inv mine] by simp
  note f = refreshEntry_freshened [OF t db v r [unfolded invD(2) [OF inv]]]
  then have bytes: "veBytes e = bytesAt c a" by (simp add: freshened_def bytesAt_def)
  define c1 where "c1 = setEntry a e c"
  have c1: "cache_inv sc snaps limit {a} c1 g" and e: "vcHeap c1 ! a = e"
    using setEntry_inv(1) [OF inv bytes] setEntry_nth [OF al] by (simp_all add: c1_def)
  note gone = drop_inv [OF c1 mine]
  have up: "cache_inv sc snaps limit {} (claim ?k a (setEntry a (emptied fp ?head (vcHeap c2 ! a)) c2)) g"
    if "cache_inv sc snaps limit {a} c2 g" "a \<notin> registered c2" "snapSize sc db table col > limit" for c2
    using giveUp_inv [OF that(1) mine that(2) db that(3)] .
  have res: "(res, c') = (case (r, e) of
      (StillTooBig, e) \<Rightarrow> (Inr None, c1) | (Stale, e) \<Rightarrow> (Inr None, c1) | (Failed err, e) \<Rightarrow> (Inl err, drop_entry ?k a c1)
    | (Fresh fit, e) \<Rightarrow> (case (if fit then account ?k a (entrySize e) c1 else (False, drop_entry ?k a c1)) of
          (True, c) \<Rightarrow> (Inr (Some a), c) | (False, c) \<Rightarrow> (Inr None, claim ?k a (setEntry a (emptied fp ?head (vcHeap c ! a)) c))))"
    using ref unfolding c1_def by (simp add: refresh_def r)
  have stay: "cache_inv sc snaps limit {} c1 g" if "e = vcHeap c ! a"
    using inv that by (simp add: c1_def setEntry_def)
  show ?thesis
  proof (cases r)
    case (Fresh fit)
    show ?thesis
    proof (cases fit)
      case True
      have co: "coherent sc db table col (ownedOf db table) e" "veSeq e = ?head" "veFp e = fp" "\<not> veTooBig e"
        using f by (simp_all add: Fresh True freshened_def)
      note size = entrySize_coherent [OF co(1) ids]
      have v': "valid sc snaps limit ?k (vcHeap c1 ! a)" using co db by (auto simp: valid_def e)
      obtain kept c2 where acc: "account ?k a (entrySize e) c1 = (kept, c2)" by fastforce
      note ac = account_inv [OF c1 mine acc [folded e] v', unfolded e size]
      with up [OF ac(1)] res show ?thesis by (cases kept) (simp_all add: Fresh True acc)
    next
      case False
      then have "snapSize sc db table col > limit" using f by (simp add: Fresh freshened_def)
      from up [OF gone this] res show ?thesis by (simp add: Fresh False)
    qed
  next
    case (Failed err)
    with res forget_inv [OF gone(1) mine gone(2)] show ?thesis by simp
  qed (use res f stay in \<open>simp_all add: freshened_def\<close>)
qed

lemma cache_run_inv:
  assumes "cache_run sc snaps limit c g" "timeline snaps"
  shows "cache_inv sc snaps limit {} c g"
  using assms
proof (induction rule: cache_run.induct)
  case Opened
  then show ?case by (simp add: cache_inv_def acct_def registered_def)
next
  case Entered
  then show ?case using scoreStart_inv by blast
next
  case (Refreshed c g a ns table col db fp tk res c')
  from refresh_inv [OF this(7) this(6) [OF this(7)] this(2-5)] show ?case by (cases res) simp_all
next
  case (Lost c g a ns table col db fp tk err c')
  from refresh_inv [OF this(7) this(6) [OF this(7)] this(2-5)] show ?case by simp
qed

section \<open>What a search reads\<close>

lemma carries_seq: "timeline snaps \<Longrightarrow> snaps ns db \<Longrightarrow> lastSeq (sdLog db) \<ge> 0"
  unfolding timeline_def by blast

text \<open>An entry that stands for the change and the fingerprint of a snapshot holds its rows, if they fit.\<close>

lemma valid_current:
  assumes t: "timeline snaps" and v: "valid sc snaps limit (ns, table, col) e"
    and db: "snaps ns db" "carries db table (veFp e)" and seq: "veSeq e = lastSeq (sdLog db)"
    and small: "snapSize sc db table col \<le> limit"
  shows "coherent sc db table col (ownedOf db table) e"
proof -
  from v carries_seq [OF t db(1)] seq obtain d where d: "snaps ns d" "carries d table (veFp e)" "lastSeq (sdLog d) = lastSeq (sdLog db)"
    "if veTooBig e then snapSize sc d table col > limit else coherent sc d table col (ownedOf d table) e"
    by (auto simp: valid_def)
  note raw = logged_same [OF timelineD(2) [OF t d(1) db(1) d(2) db(2)] d(3)]
    and owned = timelineD(1) [OF t d(1) db(1) d(2) db(2)]
  have "snapSize sc d table col = snapSize sc db table col"
    by (rule snapSize_same) (use raw d(3) timeline_ids [OF t d(1)] timeline_ids [OF t db(1)] in simp_all)
  with d(4) small have "coherent sc d table col (ownedOf d table) e" by (simp split: if_splits)
  then show ?thesis using coherent_same [OF raw, where sc = sc] owned d(3) by simp
qed

lemma scanVectors_Inr:
  "scanVectors sc tk db table col flt scope vec threshold = Inr h
     \<longleftrightarrow> tFault (tk []) = None \<and> scanLoop sc col vec threshold (vectorSource db table col flt scope) = h"
  by (simp add: scanVectors_def)

lemma scoreRead_current:
  "scoreRead sc procs tk db table col flt scope vec threshold head fp e = Inr (Some h) \<Longrightarrow> veSeq e = head \<and> veFp e = fp"
  by (cases flt) (auto simp: scoreRead_def split: if_splits)

text \<open>
  A vector search that reads the cache answers what the scan of its own snapshot answers: the
  same hits with the same scores, and as many rows skipped. The run is any mix of searches entering,
  taking an entry and bringing it up to date with older or newer snapshots, with evictions, rebuilds
  and entries given up as too big, before and after the search had its own turn with the entry; \<open>c\<close> is
  the cache as it is when the search reads. A search that failed takes its entry out of the run.
\<close>

lemma cached_search_exact:
  assumes "timeline snaps" and "snaps ns db" and "carries db table fp" and "0 < procs"
    and "cache_run sc snaps limit c0 g0" and "(a, ns, table, col) \<in> g0"
    and "refresh sc tk db (ns, table, col) (ownedOf db table) (lastSeq (sdLog db)) fp a c0 = (Inr (Some b), c1)"
    and "cache_run sc snaps limit c g" and "(a, ns, table, col) \<in> g"
    and "scoreRead sc procs tk' db table col flt scope vec threshold (lastSeq (sdLog db)) fp (vcHeap c ! a) = Inr (Some (hits, skipped))"
    and "scanVectors sc tk'' db table col (case flt of None \<Rightarrow> (\<lambda>_. True) | Some f \<Rightarrow> f) scope vec threshold = Inr (hits', skipped')"
  shows "mset hits = mset hits' \<and> skipped = skipped'"
proof -
  note t = assms(1) and db = assms(2,3)
  note cur = scoreRead_current [OF assms(10)]
  have "snapSize sc db table col \<le> limit"
    using refresh_inv [OF t cache_run_inv [OF assms(5) t] assms(6) db assms(7)] by simp
  then have "coherent sc db table col (ownedOf db table) (vcHeap c ! a)"
    using valid_current [OF t invD(6) [OF cache_run_inv [OF assms(8) t] assms(9)] db(1)] db(2) cur by simp
  from scoreRead_coherent [OF this timeline_ids [OF t db(1)] assms(4) assms(10)] assms(11) show ?thesis
    by (auto simp: scanVectors_Inr)
qed

text \<open>
  C15. In every run the registered entries, one per table and column, have their sizes on record, the bytes
  used are the sum of those, and the sum is within the bound.
\<close>

theorem cache_bounded:
  assumes "cache_run sc snaps limit c g" and "timeline snaps"
  shows "vcUsed c = (\<Sum>(k, a) \<leftarrow> vcEntries c. entrySize (vcHeap c ! a)) \<and> vcUsed c \<le> limit
    \<and> distinct (map fst (vcEntries c)) \<and> distinct (map snd (vcEntries c))"
proof -
  note inv = cache_run_inv [OF assms]
  note acct = invD(1) [OF inv]
  have "vcUsed c = (\<Sum>a \<in> set (map snd (vcEntries c)). bytesAt c a)" using acct by (simp add: acct_def registered_def)
  also have "\<dots> = (\<Sum>a \<leftarrow> map snd (vcEntries c). bytesAt c a)"
    by (rule sum_list_distinct_conv_sum_set [symmetric]) (use acct in \<open>simp add: acct_def\<close>)
  also have "\<dots> = (\<Sum>(k, a) \<leftarrow> vcEntries c. entrySize (vcHeap c ! a))"
    using invD(7) [OF inv]
    by (force simp: comp_def case_prod_beta registered_def intro!: arg_cong [where f = sum_list] map_cong [OF refl])
  finally show ?thesis using acct invD(3) [OF inv] by (simp add: acct_def)
qed

section \<open>After a rebuild that failed\<close>


section \<open>An example\<close>

definition steady :: ticks where "steady = (\<lambda>_. \<lparr>tFault = None, tDraw = None\<rparr>)"

definition wholeScorer :: "int scorer" where
  "wholeScorer = \<lparr>scZero = 0, scMulAdd = \<lambda>acc a b. acc + uint a * uint b, scQuot = \<lambda>d a b. d, scGe = \<lambda>a b. b \<le> a, scFinite = \<lambda>_. True\<rparr>"

definition docRow :: "int \<Rightarrow> char \<Rightarrow> stored_row" where
  "docRow i x = \<lparr>srTable = ''doc'', srId = i, srOwner = None, srCols = [(''v'', VBytes [x, CHR 0x00, CHR 0x00, CHR 0x00])], srVec = None\<rparr>"

definition docChange :: "int \<Rightarrow> int \<Rightarrow> change_row" where
  "docChange s i = \<lparr>seq = s, ctTable = ''doc'', ctRow = i, ctKind = ''insert'', ctOwner = None, ctNsgen = ''0123456789abcdef'', ctDropGen = 0,
     ctCommit = None, ctAt = ''''\<rparr>"

definition docField :: field where
  "docField = \<lparr>Name = ''v'', Type = ''vector'', Fulltext = False, Vectorize = False, Dim = 1, Required = False, Enum = None, Shape = '''',
     Default = None, MaxBytes = 0, MediaTypes = None\<rparr>"

definition docStore :: "int \<Rightarrow> change_row list \<Rightarrow> stored_row list \<Rightarrow> store_db" where
  "docStore head changes rows = \<lparr>
     sdLog = \<lparr>clog = changes, tokens = [], lastSeq = head, nsgen = ''0123456789abcdef'', dropGens = [], nextCommit = 0,
              schemas = [(''doc'', Some \<lparr>TName = ''doc'', TFields = [docField], RowAccess = '''', HasOwner = False, TConstraints = [],
                                        AcceptReferences = True, TRelation = None\<rparr>)]\<rparr>,
     sdMeta = [(''doc'', \<lparr>mVersion = 1, mSpace = '''', mDim = 0\<rparr>)], sdRows = rows, sdNext = [], sdFts = [], sdIdem = []\<rparr>"

definition docFp :: vec_fp where "docFp = \<lparr>fpNsGen = ''0123456789abcdef'', fpDropGen = 0, fpVersion = 1\<rparr>"

definition docKey :: vec_key where "docKey = (''n'', ''doc'', ''v'')"

text \<open>Two rows, and then the first one changed.\<close>

definition docOne :: store_db where
  "docOne = docStore 2 [docChange 1 1, docChange 2 2] [docRow 1 (CHR 0x03), docRow 2 (CHR 0x05)]"

definition docTwo :: store_db where
  "docTwo = docStore 3 [docChange 1 1, docChange 2 2, docChange 3 1] [docRow 1 (CHR 0x07), docRow 2 (CHR 0x05)]"

definition docSnaps :: "string \<Rightarrow> store_db \<Rightarrow> bool" where
  "docSnaps ns db \<longleftrightarrow> db = docOne \<or> db = docTwo"

definition docCache :: "int vec_cache" where
  "docCache = \<lparr>vcMax = 10000, vcUsed = 0, vcTick = 0, vcEntries = [], vcHeap = []\<rparr>"

definition docEntered :: "(insert_error + int \<times> vec_fp \<times> nat) \<times> int vec_cache" where
  "docEntered = scoreStart steady docOne docKey docCache"

definition docBuilt :: "(insert_error + nat option) \<times> int vec_cache" where
  "docBuilt = refresh wholeScorer steady docOne docKey False 2 docFp 0 (snd docEntered)"

definition docCaught :: "(insert_error + nat option) \<times> int vec_cache" where
  "docCaught = refresh wholeScorer steady docTwo docKey False 3 docFp 0 (snd docBuilt)"

lemma doc_steps: "fst docEntered = Inr (2, docFp, 0)" "fst docBuilt = Inr (Some 0)" "fst docCaught = Inr (Some 0)"
  by code_simp+

lemma doc_carries: "carries docOne ''doc'' docFp" "carries docTwo ''doc'' docFp"
  unfolding carries_def
  subgoal by (rule exI [of _ steady]) code_simp
  subgoal by (rule exI [of _ steady]) code_simp
  done

lemma doc_owned: "ownedOf docOne table = False" "ownedOf docTwo table = False"
  by (simp_all add: ownedOf_def docOne_def docTwo_def docStore_def)

lemma doc_raw:
  "rawRows docOne table col i = (if table = ''doc'' \<and> col = ''v'' \<and> (i = 1 \<or> i = 2) then rawRows docOne ''doc'' ''v'' i else None)"
  "rawRows docTwo table col i = (if table = ''doc'' \<and> col = ''v'' \<and> (i = 1 \<or> i = 2) then rawRows docTwo ''doc'' ''v'' i else None)"
  by (auto simp: rawRows_def vecSource_def vectorSource_def docOne_def docTwo_def docStore_def docRow_def vectorCell_def cell_def inRows_def
      split: if_splits)

lemma doc_logged: "logged docOne docTwo table"
proof -
  have same: "rawRows docOne ''doc'' ''v'' 2 = rawRows docTwo ''doc'' ''v'' 2" by code_simp
  have "table = ''doc'' \<and> i = 1" if "rawRows docOne table col i \<noteq> rawRows docTwo table col i" for col i
    using that same by (auto simp: doc_raw [of table col i] split: if_splits)
  moreover have "1 \<in> set (touchedRows docTwo ''doc'' (lastSeq (sdLog docOne)) (lastSeq (sdLog docTwo)))" by code_simp
  moreover have "lastSeq (sdLog docOne) < lastSeq (sdLog docTwo)" by code_simp
  ultimately show ?thesis unfolding logged_def by metis
qed

lemma doc_timeline: "timeline docSnaps"
proof -
  have "lastSeq (sdLog docOne) = 2" "lastSeq (sdLog docTwo) = 3" by code_simp+
  moreover have "ids_distinct docOne table" "ids_distinct docTwo table" for table
    by (simp_all add: ids_distinct_def docOne_def docTwo_def docStore_def docRow_def)
  moreover have "logged d d table" for d table by (simp add: logged_def)
  ultimately show ?thesis using doc_logged doc_owned unfolding timeline_def docSnaps_def by auto
qed

lemma doc_run: "cache_run wholeScorer docSnaps 10000 (snd docBuilt) {(0, docKey)}" "cache_run wholeScorer docSnaps 10000 (snd docCaught) {(0, docKey)}"
proof -
  have "cache_run wholeScorer docSnaps 10000 docCache {}" unfolding docCache_def by (rule Opened) simp
  then have one: "cache_run wholeScorer docSnaps 10000 (snd docEntered) {(0, docKey)}"
    by (rule Entered [where tk = steady and db = docOne and head = 2 and fp = docFp]) (use doc_steps(1) in \<open>auto simp: docEntered_def [symmetric] prod_eq_iff\<close>)
  have seq: "lastSeq (sdLog docOne) = 2" "lastSeq (sdLog docTwo) = 3" by code_simp+
  note step = Refreshed [of wholeScorer docSnaps 10000 _ _ 0 "''n''" "''doc''" "''v''" _ docFp steady "Some 0", folded docKey_def]
  show two: "cache_run wholeScorer docSnaps 10000 (snd docBuilt) {(0, docKey)}"
    by (rule step [OF one, of docOne])
      (use doc_steps(2) in \<open>simp_all add: doc_owned doc_carries docSnaps_def seq docBuilt_def [symmetric] prod_eq_iff\<close>)
  show "cache_run wholeScorer docSnaps 10000 (snd docCaught) {(0, docKey)}"
    by (rule step [OF two, of docTwo])
      (use doc_steps(3) in \<open>simp_all add: doc_owned doc_carries docSnaps_def seq docCaught_def [symmetric] prod_eq_iff\<close>)
qed

theorem cache_bounded_witness:
  "vcUsed (snd docCaught) = 264
   \<and> vcUsed (snd docCaught) = (\<Sum>(k, a) \<leftarrow> vcEntries (snd docCaught). entrySize (vcHeap (snd docCaught) ! a))"
proof -
  have "vcUsed (snd docCaught) = 264" by code_simp
  with cache_bounded [OF doc_run(2) doc_timeline] show ?thesis by simp
qed

text \<open>
  The entry was too big a thousand changes ago. The search that finds it rebuilds it and fails; the one
  that waited answers with the row that changed since, and without the other.
\<close>

definition broken :: ticks where "broken = (\<lambda>_. \<lparr>tFault = Some ''context canceled'', tDraw = None\<rparr>)"

definition docLater :: store_db where
  "docLater = docStore 1001 [docChange 1 1, docChange 1001 2] [docRow 1 (CHR 0x03), docRow 2 (CHR 0x05)]"

definition docBig :: "int vec_entry" where "docBig = emptied docFp 1 newEntry"

definition docFailed :: "freshness \<times> int vec_entry" where
  "docFailed = refreshEntry wholeScorer broken docLater ''doc'' ''v'' False 10000 1001 docFp docBig"

definition docWaiting :: "freshness \<times> int vec_entry" where
  "docWaiting = refreshEntry wholeScorer steady docLater ''doc'' ''v'' False 10000 1001 docFp (snd docFailed)"


end
