(* ===== verification/Store_Vector_Inserts.thy ===== *)
theory Store_Vector_Inserts
  imports Store_Vector_Cache Store_Insert_Props
begin

text \<open>
  What the vector cache relies on, that a row never changes without a change in the log, holds for the
  databases that calls of \<^verbatim>\<open>Insert\<close> leave behind, whatever fails in them. So the searches that run
  between inserts answer like scans.
\<close>

section \<open>Rows with their changes\<close>

lemma insertChanges_log:
  assumes "insertChanges tk at' table kind gen dropGen commit k first final xs db = Inr (r, db')"
  shows "\<exists>new. clog db' = clog db @ new \<and> ctRow ` set new = fst ` set xs
    \<and> (\<forall>c \<in> set new. ctTable c = table \<and> lastSeq db < seq c \<and> seq c \<le> lastSeq db') \<and> lastSeq db \<le> lastSeq db'"
  using assms
proof (induction xs arbitrary: k first final db)
  case (Cons x xs)
  obtain i owner where x: "x = (i, owner)" by fastforce
  from Cons.prems obtain s db1 where one: "insertChange (sub tk k) at' table kind gen dropGen commit i owner db = Inr (s, db1)"
    and rest: "insertChanges tk at' table kind gen dropGen commit (Suc k) (if k = 0 then s else first) s xs db1 = Inr (r, db')"
    unfolding x by auto
  from one obtain c where c: "clog db1 = clog db @ [c]" "lastSeq db1 = lastSeq db + 1" "ctTable c = table" "ctRow c = i" "seq c = lastSeq db + 1"
    by (auto simp: insertChange_def Let_def split: if_splits)
  from Cons.IH [OF rest] obtain new where new: "clog db' = clog db1 @ new" "ctRow ` set new = fst ` set xs"
    "\<forall>c \<in> set new. ctTable c = table \<and> lastSeq db1 < seq c \<and> seq c \<le> lastSeq db'" "lastSeq db1 \<le> lastSeq db'" by blast
  have "clog db' = clog db @ (c # new)" using c(1) new(1) by simp
  moreover have "ctRow ` set (c # new) = fst ` set (x # xs)" using c(4) new(2) by (simp add: x)
  moreover have "\<forall>c' \<in> set (c # new). ctTable c' = table \<and> lastSeq db < seq c' \<and> seq c' \<le> lastSeq db'" using c new(3,4) by auto
  ultimately show ?case using c(2) new(4) by (intro exI [of _ "c # new"]) simp
qed simp

lemma ownerLabels_ids: "(case owners of None \<Rightarrow> True | Some os \<Rightarrow> length os = length ids) \<Longrightarrow> map fst (ownerLabels ids owners) = ids"
  by (auto simp: ownerLabels_def comp_def split: option.splits)

lemma mintChanges_log:
  assumes "mintChanges tk at' w table kind ids owners db = Inr (r, db')"
  shows "\<exists>new. clog db' = clog db @ new \<and> ctRow ` set new = set ids
    \<and> (\<forall>c \<in> set new. ctTable c = table \<and> lastSeq db < seq c \<and> seq c \<le> lastSeq db') \<and> lastSeq db \<le> lastSeq db'"
proof (cases "ids = []")
  case True
  with assms show ?thesis by (auto simp: mintChanges_def)
next
  case False
  with assms have lens: "case owners of None \<Rightarrow> True | Some os \<Rightarrow> length os = length ids"
    by (auto simp: mintChanges_def split: option.splits if_splits)
  from assms False obtain commit db1 dropGen gen rr where c: "changeCommit (sub tk 0) w db = Inr (commit, db1)"
    and i: "insertChanges (sub tk 3) at' table kind gen dropGen commit 0 0 0 (ownerLabels ids owners) db1 = Inr (rr, db')"
    by (fastforce simp: mintChanges_def split: if_splits)
  from c have "clog db1 = clog db" "lastSeq db1 = lastSeq db" by (auto simp: changeCommit_def split: if_splits)
  moreover have "fst ` set (ownerLabels ids owners) = set ids" by (metis ownerLabels_ids [OF lens] set_map)
  ultimately show ?thesis using insertChanges_log [OF i] by metis
qed

section \<open>Extensions\<close>

text \<open>A later database has more rows and a change for each of them.\<close>

definition enlarges :: "store_db \<Rightarrow> store_db \<Rightarrow> bool" where
  "enlarges d1 d2 \<longleftrightarrow> lastSeq (sdLog d1) \<le> lastSeq (sdLog d2) \<and> schemas (sdLog d2) = schemas (sdLog d1)
     \<and> (\<exists>rows changes. sdRows d2 = sdRows d1 @ rows \<and> clog (sdLog d2) = clog (sdLog d1) @ changes
          \<and> (\<forall>r \<in> set rows. \<exists>c \<in> set changes. ctTable c = srTable r \<and> ctRow c = srId r
               \<and> lastSeq (sdLog d1) < seq c \<and> seq c \<le> lastSeq (sdLog d2)))"

lemma enlarges_refl: "enlarges d d"
  by (simp add: enlarges_def)

lemma enlarges_trans:
  assumes "enlarges d1 d2" "enlarges d2 d3"
  shows "enlarges d1 d3"
proof -
  from assms(1) obtain rows changes where one: "sdRows d2 = sdRows d1 @ rows" "clog (sdLog d2) = clog (sdLog d1) @ changes"
    "\<forall>r \<in> set rows. \<exists>c \<in> set changes. ctTable c = srTable r \<and> ctRow c = srId r \<and> lastSeq (sdLog d1) < seq c \<and> seq c \<le> lastSeq (sdLog d2)"
    "lastSeq (sdLog d1) \<le> lastSeq (sdLog d2)" "schemas (sdLog d2) = schemas (sdLog d1)" unfolding enlarges_def by blast
  from assms(2) obtain rows' changes' where two: "sdRows d3 = sdRows d2 @ rows'" "clog (sdLog d3) = clog (sdLog d2) @ changes'"
    "\<forall>r \<in> set rows'. \<exists>c \<in> set changes'. ctTable c = srTable r \<and> ctRow c = srId r \<and> lastSeq (sdLog d2) < seq c \<and> seq c \<le> lastSeq (sdLog d3)"
    "lastSeq (sdLog d2) \<le> lastSeq (sdLog d3)" "schemas (sdLog d3) = schemas (sdLog d2)" unfolding enlarges_def by blast
  have "\<exists>c \<in> set (changes @ changes'). ctTable c = srTable r \<and> ctRow c = srId r \<and> lastSeq (sdLog d1) < seq c \<and> seq c \<le> lastSeq (sdLog d3)"
    if "r \<in> set (rows @ rows')" for r
    using that one(3,4) two(3,4) by force
  with one two show ?thesis unfolding enlarges_def by (intro conjI exI [of _ "rows @ rows'"] exI [of _ "changes @ changes'"]) simp_all
qed

lemma rawRows_append:
  assumes "sdRows d2 = sdRows d1 @ rows" "\<forall>r \<in> set rows. \<not> (srTable r = table \<and> srId r = i)"
  shows "rawRows d2 table col i = rawRows d1 table col i"
proof -
  have "map_of (map (\<lambda>r. (srId r, (vectorCell col r, srOwner r)))
      (filter (\<lambda>r. srTable r = table \<and> inRows None r \<and> vectorCell col r \<noteq> VNil \<and> True) rows)) i = None"
    using assms(2) by (auto simp: map_of_eq_None_iff)
  then show ?thesis
    by (simp add: rawRows_def vecSource_def vectorSource_def assms(1) map_add_def split: option.split)
qed

lemma enlarges_logged:
  assumes "enlarges d1 d2"
  shows "logged d1 d2 table"
  unfolding logged_def
proof (intro allI impI)
  fix col i assume differ: "rawRows d1 table col i \<noteq> rawRows d2 table col i"
  from assms obtain rows changes where e: "sdRows d2 = sdRows d1 @ rows" "clog (sdLog d2) = clog (sdLog d1) @ changes"
    "\<forall>r \<in> set rows. \<exists>c \<in> set changes. ctTable c = srTable r \<and> ctRow c = srId r \<and> lastSeq (sdLog d1) < seq c \<and> seq c \<le> lastSeq (sdLog d2)"
    unfolding enlarges_def by blast
  from rawRows_append [OF e(1), of table i col] differ obtain r where "r \<in> set rows" "srTable r = table" "srId r = i" by metis
  with e(3) obtain c where c: "c \<in> set changes" "ctTable c = table" "ctRow c = i" "lastSeq (sdLog d1) < seq c" "seq c \<le> lastSeq (sdLog d2)"
    by blast
  then have "i \<in> set (touchedRows d2 table (lastSeq (sdLog d1)) (lastSeq (sdLog d2)))" by (force simp: touchedRows_def e(2))
  with c show "lastSeq (sdLog d1) < lastSeq (sdLog d2)
     \<and> (pruned d2 (lastSeq (sdLog d1)) \<or> i \<in> set (touchedRows d2 table (lastSeq (sdLog d1)) (lastSeq (sdLog d2))))" by simp
qed

lemma enlarges_same_seq:
  assumes "enlarges d1 d2" "lastSeq (sdLog d2) \<le> lastSeq (sdLog d1)"
  shows "logged d2 d1 table"
proof -
  from assms have "sdRows d2 = sdRows d1" unfolding enlarges_def by (metis append_Nil2 ex_in_conv leD order.strict_trans2 set_empty)
  then show ?thesis by (simp add: logged_def rawRows_def vecSource_def vectorSource_def)
qed

section \<open>Numbers of rows\<close>

text \<open>No row has a number its table has not given out, and no two of a table have the same.\<close>

definition numbered :: "store_db \<Rightarrow> bool" where
  "numbered db \<longleftrightarrow> (\<forall>r \<in> set (sdRows db). srId r \<le> (case map_of (sdNext db) (srTable r) of None \<Rightarrow> 0 | Some n \<Rightarrow> n))
     \<and> (\<forall>table. ids_distinct db table)"

lemma numbered_cong: "sdRows db' = sdRows db \<Longrightarrow> sdNext db' = sdNext db \<Longrightarrow> numbered db' = numbered db"
  by (simp add: numbered_def ids_distinct_def)

lemma execInsertWithFTS_numbered:
  assumes "execInsertWithFTS tk table fts rec cols vec owner db = Inr (i, db')" "numbered db"
  shows "numbered db'"
proof -
  have i: "i = (case map_of (sdNext db) table of None \<Rightarrow> 1 | Some n \<Rightarrow> n + 1)" and next': "sdNext db' = AList.update table i (sdNext db)"
    using assms(1) by (auto simp: execInsertWithFTS_def Let_def split: if_splits)
  from execInsertWithFTS_effect(4) [OF assms(1)] obtain r where r: "sdRows db' = sdRows db @ [r]" "srTable r = table" "srId r = i"
    by blast
  note r = r next'
  have below: "srId x < i" if "x \<in> set (sdRows db)" "srTable x = table" for x
    using assms(2) that unfolding numbered_def i by (fastforce split: option.splits)
  have "srId x \<le> (case map_of (sdNext db') (srTable x) of None \<Rightarrow> 0 | Some n \<Rightarrow> n)" if "x \<in> set (sdRows db')" for x
  proof (cases "srTable x = table")
    case True
    have "srId x \<le> i" using that below [of x] True r(1,3) by auto
    then show ?thesis by (simp add: r(4) update_conv' True)
  next
    case False
    then have "x \<in> set (sdRows db)" using that r(1,2) by auto
    with False assms(2) show ?thesis by (simp add: r(4) update_conv' numbered_def)
  qed
  moreover have "ids_distinct db' t" for t
    using assms(2) below by (auto simp: numbered_def ids_distinct_def r)
  ultimately show ?thesis by (simp add: numbered_def)
qed

lemma insertRows_numbered:
  assumes "insertRows we tk table fts owner k rows db = Inr (ids, db')" "numbered db"
  shows "numbered db'"
  using assms
proof (induction rows arbitrary: k db ids db')
  case (Cons row rows)
  obtain rec cols vec where row: "row = ((rec, cols), vec)" by (cases row) auto
  from Cons.prems(1) obtain i db1 ids1 where
    one: "execInsertWithFTS (sub tk k) table fts rec (map (\<lambda>(n, v). (n, stampNow (weNow we k) v)) cols) vec owner db = Inr (i, db1)"
    and rest: "insertRows we tk table fts owner (Suc k) rows db1 = Inr (ids1, db')"
    unfolding row by auto
  show ?case by (rule Cons.IH [OF rest execInsertWithFTS_numbered [OF one Cons.prems(2)]])
qed simp

text \<open>A committed write enlarges the database.\<close>

lemma writeAll_enlarges:
  assumes w: "writeAll we tk stampAt q p db = Inr ((ids, changes), db')"
    and sc: "map_of (schemas (sdLog db)) (iqTable q) = Some (Some (ppSchema p))"
  shows "enlarges db db'" "numbered db \<Longrightarrow> numbered db'"
proof -
  let ?owner = "stampOwner (ppSchema p) (iqOwner q)"
  from w obtain db1 db2 lg rr where
    ins: "insertRows we (sub tk 0) (iqTable q) (FTSFields (TFields (ppSchema p))) ?owner 0 (ppRows p) db = Inr (ids, db1)"
    and meta: "db2 = db1 \<or> saveMeta (sub tk 1) (iqTable q) (ppSchema p) (metaAfter q p) db1 = Inr db2"
    and mint: "mintChanges (sub tk 2) stampAt 0 (iqTable q) ''insert'' ids (sameOwner ?owner (length ids)) (sdLog db2) = Inr (rr, lg)"
    and db': "db' = db2\<lparr>sdLog := lg\<rparr>"
    by (auto simp: writeAll_def Let_def split: if_splits) blast+
  note eff = insertRows_effect [OF ins]
  have db2: "sdRows db2 = sdRows db1" "sdNext db2 = sdNext db1" "clog (sdLog db2) = clog (sdLog db1)" "lastSeq (sdLog db2) = lastSeq (sdLog db1)"
    using meta by (auto simp: saveMeta_def)
  from eff obtain new where new: "sdRows db' = sdRows db @ new" "map srId new = ids" "\<forall>r \<in> set new. srTable r = iqTable q"
    by (auto simp: db' db2)
  from mintChanges_log [OF mint] eff db2 obtain cs where cs: "clog lg = clog (sdLog db) @ cs" "ctRow ` set cs = set ids"
    "\<forall>c \<in> set cs. ctTable c = iqTable q \<and> lastSeq (sdLog db) < seq c \<and> seq c \<le> lastSeq lg" "lastSeq (sdLog db) \<le> lastSeq lg" by auto
  have "\<exists>c \<in> set cs. ctTable c = srTable r \<and> ctRow c = srId r \<and> lastSeq (sdLog db) < seq c \<and> seq c \<le> lastSeq lg"
    if r: "r \<in> set new" for r
  proof -
    have "srId r \<in> ctRow ` set cs" using r new(2) cs(2) by force
    with r new(3) cs(3) show ?thesis by force
  qed
  with new(1) cs(1,4) writeAll_effect(2) [OF w sc] show "enlarges db db'" unfolding enlarges_def db' by auto
  show "numbered db'" if "numbered db"
    using insertRows_numbered [OF ins that] numbered_cong [of db' db1] by (simp add: db' db2)
qed

lemma applied_enlarges:
  assumes a: "applied we cx tk stampAt q p db ids db'" and sc: "map_of (schemas (sdLog db)) (iqTable q) = Some (Some (ppSchema p))"
  shows "enlarges db db'" "numbered db \<Longrightarrow> numbered db'"
proof -
  from a obtain changes db1 where w: "writeAll we (sub tk 4) stampAt q p db = Inr ((ids, changes), db1)"
    and db': "db' = (if iqKey q = '''' then db1 else db1\<lparr>sdIdem := sdIdem db1 @ [idemRow q p ids]\<rparr>)"
    unfolding applied_def by blast
  have same: "sdRows db' = sdRows db1" "sdNext db' = sdNext db1" "sdLog db' = sdLog db1" by (simp_all add: db')
  note e = writeAll_enlarges [OF w sc]
  from e(1) show "enlarges db db'" by (simp add: enlarges_def same)
  show "numbered db'" if "numbered db" using e(2) [OF that] numbered_cong [OF same(1,2)] by simp
qed

section \<open>Chains of inserts\<close>

text \<open>
  The databases of a namespace, the latest first, as attempts of any inserts commit one after the other.
  The transaction of an attempt sees the latest, the reads before it may have seen any of them.
\<close>

inductive insert_chain :: "store_db list \<Rightarrow> bool" where
  Started: "numbered db \<Longrightarrow> lastSeq (sdLog db) \<ge> 0 \<Longrightarrow> insert_chain [db]"
| Written: "insert_chain (db # dbs) \<Longrightarrow> insertAttempt we cx tk stampAt q v = (r, db') \<Longrightarrow> ivTx v = db
    \<Longrightarrow> (\<And>i. ivReads v i \<in> set (db # dbs)) \<Longrightarrow> insert_chain (db' # db # dbs)"

inductive_cases insert_chain_nil [elim!]: "insert_chain []"

lemma attempt_enlarges:
  assumes a: "insertAttempt we cx tk stampAt q v = (r, db')" and reads: "\<And>i. enlarges (ivReads v i) (ivTx v)"
  shows "enlarges (ivTx v) db' \<and> (numbered (ivTx v) \<longrightarrow> numbered db')"
proof (cases "db' = ivTx v")
  case False
  from a False obtain p ids changes where p: "prepareInsert we (sub tk 0) (ivReads v) q = Inr (Inr p)"
    and ap: "applied we cx (sub tk 1) stampAt q p (ivTx v) ids db'" by (rule insertAttempt_changed)
  have "map_of (schemas (sdLog (ivTx v))) (iqTable q) = Some (Some (ppSchema p))"
    using prepareInsert_prepared(1) [OF p] reads [of 1] by (simp add: enlarges_def)
  with applied_enlarges [OF ap] show ?thesis by blast
qed (simp add: enlarges_refl)

lemma insert_chain_enlarges:
  assumes "insert_chain dbs"
  shows "(\<forall>d \<in> set dbs. numbered d \<and> lastSeq (sdLog d) \<ge> 0 \<and> enlarges d (hd dbs))
    \<and> (\<forall>d1 \<in> set dbs. \<forall>d2 \<in> set dbs. enlarges d1 d2 \<or> enlarges d2 d1)"
  using assms
proof (induction rule: insert_chain.induct)
  case (Started db)
  then show ?case by (simp add: enlarges_refl)
next
  case (Written db dbs we cx tk stampAt q v r db')
  have "enlarges (ivReads v i) (ivTx v)" for i using Written(3,5) Written(4) [of i] by auto
  note step = attempt_enlarges [OF Written(2) this, unfolded Written(3)]
  have latest: "enlarges d db" if "d \<in> set (db # dbs)" for d using Written(5) that by auto
  have more: "enlarges d db'" if "d \<in> set (db # dbs)" for d
    by (rule enlarges_trans [OF latest [OF that]]) (use step in simp)
  have "lastSeq (sdLog db') \<ge> 0" "numbered db'" using step Written(5) by (simp_all add: enlarges_def)
  then have all: "numbered d \<and> lastSeq (sdLog d) \<ge> 0 \<and> enlarges d db'" if "d \<in> set (db' # db # dbs)" for d
    using that more [of d] enlarges_refl Written(5) by (cases "d = db'") auto
  have "enlarges d1 d2 \<or> enlarges d2 d1" if "d1 \<in> set (db' # db # dbs)" "d2 \<in> set (db' # db # dbs)" for d1 d2
    using that all [of d1] all [of d2] Written(5) by (cases "d1 = db' \<or> d2 = db'") auto
  with all show ?case by (metis list.sel(1))
qed

text \<open>
  C14. The databases that attempts of inserts leave behind, whatever their requests, their faults and what
  their earlier reads saw, are what the vector cache needs of its snapshots: the rows of a table are
  numbered apart, its schema stays, and a row that is not the same in two of them has a change between
  them in the log of the later.
\<close>

theorem inserts_timeline:
  assumes "insert_chain dbs"
  shows "timeline (\<lambda>ns db. db \<in> set dbs)"
proof -
  note c = insert_chain_enlarges [OF assms]
  have "ownedOf d1 table = ownedOf d2 table \<and> logged d1 d2 table"
    if "d1 \<in> set dbs" "d2 \<in> set dbs" "lastSeq (sdLog d1) \<le> lastSeq (sdLog d2)" for d1 d2 table
  proof -
    from c that(1,2) consider "enlarges d1 d2" | "enlarges d2 d1" by blast
    then show ?thesis
    proof cases
      case 1
      with enlarges_logged show ?thesis by (simp add: ownedOf_def enlarges_def)
    next
      case 2
      with enlarges_same_seq [OF 2 that(3)] show ?thesis by (simp add: ownedOf_def enlarges_def)
    qed
  qed
  moreover have "ids_distinct d table \<and> lastSeq (sdLog d) \<ge> 0" if "d \<in> set dbs" for d table
    using c that by (simp add: numbered_def)
  ultimately show ?thesis unfolding timeline_def by blast
qed

theorem inserts_timeline_witness:
  "snd firstInsert \<noteq> sampleStore \<and> timeline (\<lambda>ns db. db \<in> set [snd firstInsert, sampleStore])"
proof -
  have "numbered sampleStore" by (auto simp: numbered_def ids_distinct_def sampleStore_def memberStored_def)
  moreover have "lastSeq (sdLog sampleStore) \<ge> 0" by code_simp
  ultimately have "insert_chain [sampleStore]" by (rule Started)
  then have "insert_chain [snd firstInsert, sampleStore]"
    unfolding firstInsert_def by (rule Written [OF _ sample_first(1) [unfolded firstInsert_def]]) (simp_all add: viewOf_def)
  moreover have "length (sdRows (snd firstInsert)) \<noteq> length (sdRows sampleStore)" by code_simp
  ultimately show ?thesis using inserts_timeline by metis
qed

end
