(* ===== verification/Store_Top_Hits.thy ===== *)
theory Store_Top_Hits
  imports Go_Prelude "HOL-Library.Multiset"
begin

text \<open>
  The ranking of search hits in \<^verbatim>\<open>internal/store/vector.go\<close>: the best \<open>k\<close> of them are kept in a heap of
  the standard library with the worst on top, sorted, and cut into pages. Scores are never
  not-a-number, so they are of an ordered type.
\<close>

section \<open>Heaps of the standard library\<close>

text \<open>\<^verbatim>\<open>container/heap\<close> over a slice, \<open>lt\<close> its order.\<close>

definition swap :: "nat \<Rightarrow> nat \<Rightarrow> 'a list \<Rightarrow> 'a list" where
  "swap i j h = h[i := h ! j, j := h ! i]"

lemma swap_length [simp]: "length (swap i j h) = length h"
  by (simp add: swap_def)

function heapUp :: "('a \<Rightarrow> 'a \<Rightarrow> bool) \<Rightarrow> nat \<Rightarrow> 'a list \<Rightarrow> 'a list" where
  "heapUp lt j h =
     (let i = (j - 1) div 2 in
      if i = j \<or> \<not> lt (h ! j) (h ! i) then h else heapUp lt i (swap i j h))"
  by pat_completeness auto
termination by (relation "measure (\<lambda>(lt, j, h). j)") auto

declare heapUp.simps [simp del]

text \<open>The child that belongs higher.\<close>

definition lowerChild :: "('a \<Rightarrow> 'a \<Rightarrow> bool) \<Rightarrow> nat \<Rightarrow> 'a list \<Rightarrow> nat" where
  "lowerChild lt i h =
     (let j1 = 2 * i + 1; j2 = j1 + 1 in if j2 < length h \<and> lt (h ! j2) (h ! j1) then j2 else j1)"

lemma lowerChild_parent: "(lowerChild lt i h - 1) div 2 = i" "i < lowerChild lt i h" "0 < lowerChild lt i h"
  "2 * i + 1 < length h \<Longrightarrow> lowerChild lt i h < length h"
  by (auto simp: lowerChild_def Let_def)

text \<open>Whether anything moved, and the heap.\<close>

function heapDown :: "('a \<Rightarrow> 'a \<Rightarrow> bool) \<Rightarrow> nat \<Rightarrow> 'a list \<Rightarrow> bool \<times> 'a list" where
  "heapDown lt i h =
     (if 2 * i + 1 \<ge> length h then (False, h)
      else
        let j = lowerChild lt i h in
        if \<not> lt (h ! j) (h ! i) then (False, h)
        else (True, snd (heapDown lt j (swap i j h))))"
  by pat_completeness auto
termination by (relation "measure (\<lambda>(lt, i, h). length h - i)") (auto simp: lowerChild_parent(2) diff_less_mono2)

declare heapDown.simps [simp del]

definition heapPush :: "('a \<Rightarrow> 'a \<Rightarrow> bool) \<Rightarrow> 'a \<Rightarrow> 'a list \<Rightarrow> 'a list" where
  "heapPush lt x h = heapUp lt (length h) (h @ [x])"

definition heapFix :: "('a \<Rightarrow> 'a \<Rightarrow> bool) \<Rightarrow> nat \<Rightarrow> 'a list \<Rightarrow> 'a list" where
  "heapFix lt i h = (case heapDown lt i h of (moved, h') \<Rightarrow> if moved then h' else heapUp lt i h')"

section \<open>The best hits\<close>

type_synonym 'r vec_hit = "int \<times> 'r"

definition ranksBefore :: "('r :: linorder) vec_hit \<Rightarrow> 'r vec_hit \<Rightarrow> bool" where
  "ranksBefore a b = (if snd a = snd b then fst a < fst b else snd a > snd b)"

text \<open>The order of \<^verbatim>\<open>worstFirst\<close>.\<close>

definition worse :: "('a \<Rightarrow> 'a \<Rightarrow> bool) \<Rightarrow> 'a \<Rightarrow> 'a \<Rightarrow> bool" where
  "worse prec a b = prec b a"

text \<open>\<^verbatim>\<open>sort.Slice\<close>; in which way it sorts does not matter when the order is total.\<close>

fun insertSorted :: "('a \<Rightarrow> 'a \<Rightarrow> bool) \<Rightarrow> 'a \<Rightarrow> 'a list \<Rightarrow> 'a list" where
  "insertSorted prec x [] = [x]"
| "insertSorted prec x (y # ys) = (if prec x y then x # y # ys else y # insertSorted prec x ys)"

definition sortSlice :: "('a \<Rightarrow> 'a \<Rightarrow> bool) \<Rightarrow> 'a list \<Rightarrow> 'a list" where
  "sortSlice prec xs = foldr (insertSorted prec) xs []"

definition keepBest :: "('a \<Rightarrow> 'a \<Rightarrow> bool) \<Rightarrow> nat \<Rightarrow> 'a \<Rightarrow> 'a list \<Rightarrow> 'a list" where
  "keepBest prec k x h =
     (if length h < k then heapPush (worse prec) x h
      else if prec x (h ! 0) then heapFix (worse prec) 0 (h[0 := x])
      else h)"

definition topHits :: "('a \<Rightarrow> 'a \<Rightarrow> bool) \<Rightarrow> 'a list \<Rightarrow> nat \<Rightarrow> 'a list" where
  "topHits prec hits k =
     (if k = 0 then []
      else sortSlice prec (if k < length hits div 4 then fold (keepBest prec k) hits [] else hits))"

text \<open>The page, and whether there is more.\<close>

definition pageHits :: "('a \<Rightarrow> 'a \<Rightarrow> bool) \<Rightarrow> nat \<Rightarrow> nat \<Rightarrow> 'a list \<Rightarrow> 'a list \<times> bool" where
  "pageHits prec offset limit hits =
     (let k = offset + limit + 1;
          k = (if offset \<ge> length hits \<or> k > length hits then length hits else k);
          hits = topHits prec hits k;
          offset = min offset (length hits);
          paged = take (min (offset + limit + 1) (length hits) - offset) (drop offset hits);
          more = length paged > limit in
      (if more then take limit paged else paged, more))"

section \<open>Rankings\<close>

text \<open>What the order of the hits promises, and what the heap makes of it.\<close>

definition heapOf :: "('a \<Rightarrow> 'a \<Rightarrow> bool) \<Rightarrow> 'a list \<Rightarrow> bool" where
  "heapOf lt h \<longleftrightarrow> (\<forall>m < length h. 0 < m \<longrightarrow> \<not> lt (h ! m) (h ! ((m - 1) div 2)))"

text \<open>A heap but for the place \<open>j\<close>, whose element may belong higher, or lower.\<close>

definition mayRise :: "('a \<Rightarrow> 'a \<Rightarrow> bool) \<Rightarrow> nat \<Rightarrow> 'a list \<Rightarrow> bool" where
  "mayRise lt j h \<longleftrightarrow> (\<forall>m < length h. 0 < m \<longrightarrow>
     (m \<noteq> j \<longrightarrow> \<not> lt (h ! m) (h ! ((m - 1) div 2)))
     \<and> ((m - 1) div 2 = j \<longrightarrow> 0 < j \<longrightarrow> \<not> lt (h ! m) (h ! ((j - 1) div 2))))"

definition maySink :: "('a \<Rightarrow> 'a \<Rightarrow> bool) \<Rightarrow> nat \<Rightarrow> 'a list \<Rightarrow> bool" where
  "maySink lt j h \<longleftrightarrow> (\<forall>m < length h. 0 < m \<longrightarrow>
     ((m - 1) div 2 \<noteq> j \<longrightarrow> \<not> lt (h ! m) (h ! ((m - 1) div 2)))
     \<and> ((m - 1) div 2 = j \<longrightarrow> 0 < j \<longrightarrow> \<not> lt (h ! m) (h ! ((j - 1) div 2))))"

lemma swap_nth:
  "i < length h \<Longrightarrow> j < length h \<Longrightarrow> swap i j h ! m = (if m = j then h ! i else if m = i then h ! j else h ! m)"
  by (simp add: swap_def nth_list_update)

lemma swap_mset: "i < length h \<Longrightarrow> j < length h \<Longrightarrow> mset (swap i j h) = mset h"
  using mset_swap [of j h i] by (simp add: swap_def list_update_swap mset_swap)

lemma heapUp_mset: "j < length h \<Longrightarrow> mset (heapUp lt j h) = mset h \<and> length (heapUp lt j h) = length h"
proof (induction lt j h rule: heapUp.induct)
  case (1 lt j h)
  show ?case
  proof (cases "(j - 1) div 2 = j \<or> \<not> lt (h ! j) (h ! ((j - 1) div 2))")
    case False
    have i: "(j - 1) div 2 < length h" using 1(2) by linarith
    with 1(1) [OF refl False] 1(2) False swap_mset [OF i 1(2)] show ?thesis by (simp add: heapUp.simps [of lt j] Let_def)
  qed (auto simp: heapUp.simps [of lt j] Let_def)
qed

lemma heapDown_mset: "i < length h \<Longrightarrow> mset (snd (heapDown lt i h)) = mset h \<and> length (snd (heapDown lt i h)) = length h"
proof (induction lt i h rule: heapDown.induct)
  case (1 lt i h)
  let ?j = "lowerChild lt i h"
  show ?case
  proof (cases "2 * i + 1 \<ge> length h \<or> \<not> lt (h ! ?j) (h ! i)")
    case False
    then have j: "?j < length h" by (simp add: lowerChild_parent(4))
    have "snd (heapDown lt i h) = snd (heapDown lt ?j (swap i ?j h))"
      using False by (simp add: heapDown.simps [of lt i h] Let_def)
    with 1(1) [OF _ refl] False j swap_mset [OF 1(2) j] show ?thesis by simp
  qed (auto simp: heapDown.simps [of lt i h] Let_def)
qed

locale ranking =
  fixes prec :: "'a \<Rightarrow> 'a \<Rightarrow> bool"
  assumes irrefl: "\<not> prec a a" and trans: "prec a b \<Longrightarrow> prec b c \<Longrightarrow> prec a c" and total: "prec a b \<or> a = b \<or> prec b a"
begin

definition le :: "'a \<Rightarrow> 'a \<Rightarrow> bool" where
  "le a b \<longleftrightarrow> a = b \<or> prec a b"

lemma not_worse: "\<not> worse prec a b \<longleftrightarrow> le a b"
  using irrefl trans total unfolding worse_def le_def by blast

lemma le_trans: "le a b \<Longrightarrow> le b c \<Longrightarrow> le a c"
  using trans unfolding le_def by blast

lemma worse_le: "worse prec a b \<Longrightarrow> le b a"
  by (simp add: worse_def le_def)

lemma up_step:
  assumes rise: "mayRise (worse prec) j h" and i: "i = (j - 1) div 2" "i < j" "j < length h" and w: "worse prec (h ! j) (h ! i)"
  shows "mayRise (worse prec) i (swap i j h)"
proof -
  have il: "i < length h" using i by simp
  note sw = swap_nth [OF il i(3)]
  have up: "le (h ! i) (h ! j)" by (rule worse_le [OF w])
  have ok: "le (h ! m) (h ! ((m - 1) div 2))" if "m < length h" "0 < m" "m \<noteq> j" for m
    using rise that by (simp add: mayRise_def not_worse)
  have over: "le (h ! m) (h ! i)" if "m < length h" "0 < m" "(m - 1) div 2 = j" for m
    using rise that i by (simp add: mayRise_def not_worse)
  have first: "le (swap i j h ! m) (swap i j h ! ((m - 1) div 2))" if m: "m < length h" "0 < m" "m \<noteq> i" for m
  proof -
    have "(m - 1) div 2 < m" using m(2) by linarith
    consider "m = j" | "m \<noteq> j" "(m - 1) div 2 = i" | "m \<noteq> j" "(m - 1) div 2 = j" | "m \<noteq> j" "(m - 1) div 2 \<noteq> i" "(m - 1) div 2 \<noteq> j" by blast
    then show ?thesis
    proof cases
      case 1
      with up i(1) [symmetric] i(2) show ?thesis by (simp add: sw)
    next
      case 2
      with ok [OF m(1,2)] m(3) i(2) le_trans [OF _ up] show ?thesis by (simp add: sw)
    next
      case 3
      with over [OF m(1,2)] m(3) show ?thesis by (simp add: sw)
    next
      case 4
      with ok [OF m(1,2)] m(3) show ?thesis by (simp add: sw)
    qed
  qed
  have second: "le (swap i j h ! m) (swap i j h ! ((i - 1) div 2))" if m: "m < length h" "0 < m" "(m - 1) div 2 = i" "0 < i" for m
  proof -
    have "(i - 1) div 2 < i" "i < m" using m by linarith+
    then have away: "swap i j h ! ((i - 1) div 2) = h ! ((i - 1) div 2)" "m \<noteq> i" using i(2) by (simp_all add: sw)
    have top: "le (h ! i) (h ! ((i - 1) div 2))" using ok [OF il m(4)] i(2) by simp
    show ?thesis
    proof (cases "m = j")
      case True
      with top away i(2) show ?thesis by (simp add: sw)
    next
      case False
      with ok [OF m(1,2) False] m(3) le_trans [OF _ top] away show ?thesis by (simp add: sw)
    qed
  qed
  show ?thesis using first second by (simp add: mayRise_def not_worse)
qed

lemma up_heap: "j < length h \<Longrightarrow> mayRise (worse prec) j h \<Longrightarrow> heapOf (worse prec) (heapUp (worse prec) j h)"
proof (induction "worse prec" j h rule: heapUp.induct)
  case (1 j h)
  let ?i = "(j - 1) div 2"
  show ?case
  proof (cases "?i = j \<or> \<not> worse prec (h ! j) (h ! ?i)")
    case True
    with 1(3) show ?thesis by (auto simp: heapUp.simps [of _ j] Let_def heapOf_def mayRise_def)
  next
    case False
    have i: "?i < j" "?i < length h" using 1(2) False by auto
    from up_step [OF 1(3) refl i(1) 1(2)] 1(1) [OF refl False] 1(2) i False show ?thesis
      by (simp add: heapUp.simps [of _ j] Let_def)
  qed
qed

lemma down_step:
  assumes sink: "maySink (worse prec) i h" and j: "2 * i + 1 < length h" "j = lowerChild (worse prec) i h" and w: "worse prec (h ! j) (h ! i)"
  shows "maySink (worse prec) j (swap i j h)"
proof -
  note ch = lowerChild_parent [where lt = "worse prec" and i = i and h = h, folded j(2)]
  have jl: "j < length h" and il: "i < length h" using ch(4) j(1) by auto
  note sw = swap_nth [OF il jl]
  have up: "le (h ! i) (h ! j)" by (rule worse_le [OF w])
  have ok: "le (h ! m) (h ! ((m - 1) div 2))" if "m < length h" "0 < m" "(m - 1) div 2 \<noteq> i" for m
    using sink that by (simp add: maySink_def not_worse)
  have over: "le (h ! m) (h ! ((i - 1) div 2))" if "m < length h" "0 < m" "(m - 1) div 2 = i" "0 < i" for m
    using sink that by (simp add: maySink_def not_worse)
  have sibling: "le (h ! m) (h ! j)" if "m < length h" "0 < m" "(m - 1) div 2 = i" for m
  proof -
    have "m = 2 * i + 1 \<or> m = 2 * i + 2" using that(2,3) by linarith
    then show ?thesis using that(1) not_worse worse_le le_def
      unfolding j(2) lowerChild_def Let_def by (auto split: if_splits)
  qed
  have first: "le (swap i j h ! m) (swap i j h ! ((m - 1) div 2))" if m: "m < length h" "0 < m" "(m - 1) div 2 \<noteq> j" for m
  proof -
    consider "m = j" | "m = i" | "m \<noteq> j" "m \<noteq> i" "(m - 1) div 2 = i" | "m \<noteq> j" "m \<noteq> i" "(m - 1) div 2 \<noteq> i" by blast
    then show ?thesis
    proof cases
      case 1
      with up ch show ?thesis by (simp add: sw)
    next
      case 2
      then have "(i - 1) div 2 \<noteq> i" using m(2) by linarith
      with 2 over [OF jl ch(3) ch(1)] m ch(2) show ?thesis by (simp add: sw)
    next
      case 3
      with sibling [OF m(1,2)] ch(2) show ?thesis by (simp add: sw)
    next
      case 4
      with ok [OF m(1,2)] m(3) show ?thesis by (simp add: sw)
    qed
  qed
  have second: "le (swap i j h ! m) (swap i j h ! ((j - 1) div 2))" if m: "m < length h" "0 < m" "(m - 1) div 2 = j" for m
  proof -
    have "j < m" using m by linarith
    with ok [OF m(1,2)] m(3) ch show ?thesis by (simp add: sw)
  qed
  show ?thesis using first second by (simp add: maySink_def not_worse)
qed

lemma down_heap: "i < length h \<Longrightarrow> maySink (worse prec) i h \<Longrightarrow> heapOf (worse prec) (snd (heapDown (worse prec) i h))"
proof (induction "worse prec" i h rule: heapDown.induct)
  case (1 i h)
  let ?j = "lowerChild (worse prec) i h"
  note ch = lowerChild_parent [where lt = "worse prec" and i = i and h = h]
  have ok: "le (h ! m) (h ! ((m - 1) div 2))" if "m < length h" "0 < m" "(m - 1) div 2 \<noteq> i" for m
    using 1(3) that by (simp add: maySink_def not_worse)
  consider "2 * i + 1 \<ge> length h" | "2 * i + 1 < length h" "\<not> worse prec (h ! ?j) (h ! i)" | "2 * i + 1 < length h" "worse prec (h ! ?j) (h ! i)"
    by linarith
  then show ?case
  proof cases
    case 1
    have "le (h ! m) (h ! ((m - 1) div 2))" if "m < length h" "0 < m" for m
      using ok [OF that] that 1 by linarith
    with 1 show ?thesis by (simp add: heapDown.simps [of _ i h] heapOf_def not_worse)
  next
    case 2
    have "le (h ! m) (h ! ((m - 1) div 2))" if m: "m < length h" "0 < m" for m
    proof (cases "(m - 1) div 2 = i")
      case True
      then have "m = 2 * i + 1 \<or> m = 2 * i + 2" using m(2) by linarith
      with m(1) have "le (h ! m) (h ! ?j)" using not_worse worse_le le_def
        unfolding lowerChild_def Let_def by (auto split: if_splits)
      with 2(2) True show ?thesis unfolding not_worse by (auto intro: le_trans)
    qed (rule ok [OF m])
    with 2 show ?thesis by (simp add: heapDown.simps [of _ i h] heapOf_def not_worse Let_def)
  next
    case 3
    from 1(1) [OF _ refl] down_step [OF 1(3) 3(1) refl 3(2)] 3 ch(4) show ?thesis
      by (simp add: heapDown.simps [of _ i h] Let_def)
  qed
qed

lemma heap_root: "heapOf (worse prec) h \<Longrightarrow> m < length h \<Longrightarrow> le (h ! m) (h ! 0)"
proof (induction m rule: less_induct)
  case (less m)
  show ?case
  proof (cases "m = 0")
    case False
    then have up: "(m - 1) div 2 < m" "(m - 1) div 2 < length h" using less.prems(2) by linarith+
    have "le (h ! m) (h ! ((m - 1) div 2))" using less.prems False by (simp add: heapOf_def not_worse)
    with less.IH [OF up(1) less.prems(1) up(2)] show ?thesis by (rule le_trans [rotated])
  qed (simp add: le_def)
qed

lemma push_heap:
  assumes h: "heapOf (worse prec) h"
  shows "heapOf (worse prec) (heapPush (worse prec) x h)" "mset (heapPush (worse prec) x h) = add_mset x (mset h)"
proof -
  have "mayRise (worse prec) (length h) (h @ [x])"
    unfolding mayRise_def
  proof (intro allI impI)
    fix m assume m: "m < length (h @ [x])" "0 < m"
    have "(m - 1) div 2 < m" using m(2) by linarith
    with m h show "(m \<noteq> length h \<longrightarrow> \<not> worse prec ((h @ [x]) ! m) ((h @ [x]) ! ((m - 1) div 2)))
      \<and> ((m - 1) div 2 = length h \<longrightarrow> 0 < length h \<longrightarrow> \<not> worse prec ((h @ [x]) ! m) ((h @ [x]) ! ((length h - 1) div 2)))"
      by (auto simp: heapOf_def nth_append)
  qed
  then show "heapOf (worse prec) (heapPush (worse prec) x h)" unfolding heapPush_def by (intro up_heap) simp_all
  show "mset (heapPush (worse prec) x h) = add_mset x (mset h)"
    using heapUp_mset [of "length h" "h @ [x]"] by (simp add: heapPush_def)
qed

lemma heapFix_root: "heapFix lt 0 h = snd (heapDown lt 0 h)"
  by (simp add: heapFix_def heapUp.simps [of lt 0] split: prod.split)

lemma fix_heap:
  assumes h: "heapOf (worse prec) h" "h \<noteq> []"
  shows "heapOf (worse prec) (heapFix (worse prec) 0 (h[0 := x]))"
    and "add_mset (h ! 0) (mset (heapFix (worse prec) 0 (h[0 := x]))) = add_mset x (mset h)"
proof -
  have "maySink (worse prec) 0 (h[0 := x])" using h(1) by (simp add: maySink_def heapOf_def)
  with h(2) show "heapOf (worse prec) (heapFix (worse prec) 0 (h[0 := x]))"
    unfolding heapFix_root by (intro down_heap) simp_all
  have "mset (heapFix (worse prec) 0 (h[0 := x])) = mset (h[0 := x])"
    using heapDown_mset [of 0 "h[0 := x]" "worse prec"] h(2) by (simp add: heapFix_root)
  with h(2) show "add_mset (h ! 0) (mset (heapFix (worse prec) 0 (h[0 := x]))) = add_mset x (mset h)"
    by (simp add: mset_update)
qed

text \<open>The heap holds the best of what was seen.\<close>

definition kept :: "nat \<Rightarrow> 'a list \<Rightarrow> 'a list \<Rightarrow> bool" where
  "kept k seen h \<longleftrightarrow> heapOf (worse prec) h \<and> length h = min k (length seen)
     \<and> (\<exists>rest. mset seen = mset h + mset rest \<and> (\<forall>x \<in> set rest. \<forall>y \<in> set h. le y x))"

lemma keepBest_kept:
  assumes kept: "kept k seen h" and k: "0 < k"
  shows "kept k (seen @ [x]) (keepBest prec k x h)"
proof -
  from kept obtain rest where h: "heapOf (worse prec) h" "length h = min k (length seen)"
    and rest: "mset seen = mset h + mset rest" "\<forall>x \<in> set rest. \<forall>y \<in> set h. le y x" unfolding kept_def by blast
  show ?thesis
  proof (cases "length h < k")
    case True
    then have "length h = length seen" using h(2) by simp
    with arg_cong [OF rest(1), of size] have none: "rest = []" by simp
    note push = push_heap [OF h(1), of x]
    have "length (heapPush (worse prec) x h) = Suc (length h)" using arg_cong [OF push(2), of size] by simp
    with True push rest(1) none h(2) show ?thesis by (auto simp: kept_def keepBest_def intro!: exI [of _ "[]"])
  next
    case False
    then have full: "length h = k" "h \<noteq> []" "k \<le> length seen" using h(2) k by auto
    have root: "le y (h ! 0)" if "y \<in> set h" for y using that heap_root [OF h(1)] by (auto simp: in_set_conv_nth)
    have member: "h ! 0 \<in> set h" using full(2) by simp
    show ?thesis
    proof (cases "prec x (h ! 0)")
      case True
      let ?h = "heapFix (worse prec) 0 (h[0 := x])"
      note fx = fix_heap [OF h(1) full(2), of x]
      have len: "length ?h = length h" using arg_cong [OF fx(2), of size] by simp
      have "mset (seen @ [x]) = mset ?h + mset (h ! 0 # rest)" using fx(2) rest(1) by simp
      moreover have "le y z" if "z \<in> set (h ! 0 # rest)" "y \<in> set ?h" for y z
      proof -
        have "y \<in> set (x # h)" using that(2) fx(2) by (metis insert_iff set_mset_add_mset_insert set_mset_mset list.set(2))
        then have "le y (h ! 0)" using root True by (auto simp: le_def)
        with that(1) rest(2) member le_trans show ?thesis by auto
      qed
      ultimately show ?thesis using fx(1) len full True h(2) by (auto simp: kept_def keepBest_def intro!: exI [of _ "h ! 0 # rest"])
    next
      case False
      then have "le (h ! 0) x" using total by (auto simp: le_def)
      then have "le y x" if "y \<in> set h" for y using le_trans [OF root [OF that]] by blast
      with rest full False h show ?thesis
        by (auto simp: kept_def keepBest_def intro!: exI [of _ "x # rest"])
    qed
  qed
qed

lemma fold_kept: "kept k seen h \<Longrightarrow> 0 < k \<Longrightarrow> kept k (seen @ xs) (fold (keepBest prec k) xs h)"
proof (induction xs arbitrary: seen h)
  case (Cons x xs)
  from Cons.IH [OF keepBest_kept [OF Cons.prems] Cons.prems(2)] show ?case by simp
qed simp

section \<open>Sorting\<close>

lemma insertSorted_mset: "mset (insertSorted prec x ys) = add_mset x (mset ys)"
  by (induction ys) auto

lemma insertSorted_sorted: "sorted_wrt le ys \<Longrightarrow> sorted_wrt le (insertSorted prec x ys)"
proof (induction ys)
  case (Cons y ys)
  have "set (insertSorted prec x ys) = insert x (set ys)"
    using arg_cong [OF insertSorted_mset [of x ys], of set_mset] by simp
  moreover have "le x y" if "prec x y" using that by (simp add: le_def)
  moreover have "le y x" if "\<not> prec x y" using that total by (auto simp: le_def)
  ultimately show ?case using Cons le_trans by auto
qed simp

lemma sortSlice_sorted: "mset (sortSlice prec xs) = mset xs" "sorted_wrt le (sortSlice prec xs)"
  by (induction xs) (simp_all add: sortSlice_def insertSorted_mset insertSorted_sorted)

lemma le_antisym: "le a b \<Longrightarrow> le b a \<Longrightarrow> a = b"
  using irrefl trans unfolding le_def by blast

lemma sorted_unique: "mset xs = mset ys \<Longrightarrow> sorted_wrt le xs \<Longrightarrow> sorted_wrt le ys \<Longrightarrow> xs = ys"
proof (induction xs arbitrary: ys)
  case (Cons x xs)
  then obtain y ys' where ys: "ys = y # ys'" by (cases ys) auto
  have sets: "set (x # xs) = set (y # ys')" using Cons.prems(1) mset_eq_setD unfolding ys by blast
  then have "le x y" "le y x" using Cons.prems(2,3) unfolding ys by (auto simp: le_def)
  then have "x = y" by (rule le_antisym)
  with Cons show ?case by (simp add: ys)
qed simp

lemma sortSlice_unique: "mset xs = mset ys \<Longrightarrow> sortSlice prec xs = sortSlice prec ys"
  by (rule sorted_unique) (simp_all add: sortSlice_sorted)

lemma best_first:
  assumes "kept k seen h"
  shows "sortSlice prec h = take (length h) (sortSlice prec seen)"
proof -
  from assms obtain rest where rest: "mset seen = mset h + mset rest" "\<forall>x \<in> set rest. \<forall>y \<in> set h. le y x"
    unfolding kept_def by blast
  have sets: "set (sortSlice prec xs) = set xs" for xs
    using mset_eq_setD [OF sortSlice_sorted(1)] .
  have "sortSlice prec seen = sortSlice prec h @ sortSlice prec rest"
  proof (rule sorted_unique)
    show "sorted_wrt le (sortSlice prec h @ sortSlice prec rest)"
      using rest(2) by (simp add: sorted_wrt_append sortSlice_sorted sets)
  qed (simp_all add: sortSlice_sorted rest(1))
  moreover have "length (sortSlice prec h) = length h" using mset_eq_length [OF sortSlice_sorted(1)] .
  ultimately show ?thesis by simp
qed

lemma topHits_sorted:
  "topHits prec hits k = (if k = 0 then [] else if k < length hits div 4 then take k (sortSlice prec hits) else sortSlice prec hits)"
proof (cases "k < length hits div 4 \<and> k \<noteq> 0")
  case True
  have "kept k [] []" by (simp add: kept_def heapOf_def)
  from fold_kept [OF this, of hits] True have kept: "kept k hits (fold (keepBest prec k) hits [])" by simp
  then have "length (fold (keepBest prec k) hits []) = k" using True by (auto simp: kept_def)
  with best_first [OF kept] True show ?thesis by (simp add: topHits_def)
qed (auto simp: topHits_def)

lemma pageHits_sorted:
  "pageHits prec offset limit hits = (take limit (drop offset (sortSlice prec hits)), offset + limit < length hits)"
proof -
  define s where "s = sortSlice prec hits"
  have len: "length s = length hits" using mset_eq_length [OF sortSlice_sorted(1)] by (simp add: s_def)
  define k where "k = (if offset \<ge> length hits \<or> offset + limit + 1 > length hits then length hits else offset + limit + 1)"
  have t: "topHits prec hits k = (if k = 0 then [] else if k < length hits div 4 then take k s else s)"
    unfolding topHits_sorted s_def ..
  have page: "pageHits prec offset limit hits
    = (let hits = topHits prec hits k; offset = min offset (length hits);
           paged = take (min (offset + limit + 1) (length hits) - offset) (drop offset hits); more = length paged > limit in
       (if more then take limit paged else paged, more))"
    by (simp only: pageHits_def Let_def k_def)
  consider "length hits = 0" | "0 < length hits" "offset + limit + 1 > length hits" | "offset + limit + 1 \<le> length hits" by linarith
  then show ?thesis
  proof cases
    case 2
    then have "k = length hits" "\<not> k < length hits div 4" by (auto simp: k_def)
    with 2 t len page show ?thesis by (auto simp: Let_def s_def min_def)
  next
    case 3
    then have k: "k = offset + limit + 1" by (simp add: k_def)
    define d where "d = topHits prec hits k"
    have d: "take (limit + 1) (drop offset d) = take (limit + 1) (drop offset s)" "length (drop offset d) > limit" "offset \<le> length d"
      using 3 t len k by (auto simp: d_def drop_take split: if_splits)
    have "min offset (length d) = offset" "min (offset + limit + 1) (length d) - offset = limit + 1" using d(2,3) by auto
    then have "pageHits prec offset limit hits = (let paged = take (limit + 1) (drop offset s); more = length paged > limit in
        (if more then take limit paged else paged, more))"
      unfolding page d_def [symmetric] by (simp only: Let_def d(1))
    with 3 len show ?thesis by (simp add: Let_def s_def min_def)
  qed (use t len page in \<open>simp add: Let_def k_def s_def\<close>)
qed

end

interpretation hits: ranking "ranksBefore :: ('r :: linorder) vec_hit \<Rightarrow> 'r vec_hit \<Rightarrow> bool"
  by unfold_locales (auto simp: ranksBefore_def prod_eq_iff split: if_splits)

end
