(* ===== verification/Store_Vector_Search.thy ===== *)
theory Store_Vector_Search
  imports Store_Vector_Inserts Store_Top_Hits
begin

text \<open>
  The call of a vector search (\<^verbatim>\<open>SearchVector\<close> in \<^verbatim>\<open>internal/store/vector.go\<close>) up to the page of hits: the
  column it searches, the checks of the request, the answer of the cache or else the scan, and the
  ranking. The rows of the page are fetched by their ids afterwards, in the same snapshot.
\<close>

section \<open>The column\<close>

datatype vector_error =
    VectorStore insert_error
  | VectorScope changes_error
  | NoVectorizeField string
  | NoVectorData
  | NoEmbeddingSpace string
  | EmbeddingModelChanged string string
  | TextAtVectorColumn string bool
  | NotVectorColumn string
  | QueryDimension nat string int
  | NonFiniteQuery
  | NegativeOffset
  | ManyStatements
  | TooManyArguments

definition liftV :: "insert_error + 'a \<Rightarrow> vector_error + 'a" where
  "liftV r = (case r of Inl e \<Rightarrow> Inl (VectorStore e) | Inr x \<Rightarrow> Inr x)"

fun commaJoin :: "string list \<Rightarrow> string" where
  "commaJoin [] = ''''"
| "commaJoin [s] = s"
| "commaJoin (s # t # ss) = s @ '', '' @ commaJoin (t # ss)"

definition vectorColumnNames :: "field list \<Rightarrow> string" where
  "vectorColumnNames fs = commaJoin (map Name (VectorFields fs))"

text \<open>The empty list of names stands for the message that names none.\<close>

definition resolveVectorColumn :: "field list \<Rightarrow> table_meta \<Rightarrow> string \<Rightarrow> bool \<Rightarrow> string \<Rightarrow> vector_error + string \<times> int" where
  "resolveVectorColumn fs m col textQuery model =
     (let col = (if col = '''' \<and> VectorizeField fs \<noteq> None then ''_embedding''
                 else if col = '''' \<and> \<not> textQuery then (case VectorFields fs of [] \<Rightarrow> col | f # _ \<Rightarrow> Name f)
                 else col) in
      if col = '''' then (if textQuery then Inl (NoVectorizeField (vectorColumnNames fs)) else Inl NoVectorData)
      else if col = ''_embedding'' then
        if VectorizeField fs = None then Inl (NoEmbeddingSpace (vectorColumnNames fs))
        else if mSpace m \<noteq> '''' \<and> model \<noteq> '''' \<and> mSpace m \<noteq> model then Inl (EmbeddingModelChanged (mSpace m) model)
        else Inr (col, int (mDim m))
      else
        (case schemaField fs col of
           Some f \<Rightarrow>
             if Type f = ''vector'' then
               if textQuery then Inl (TextAtVectorColumn col (VectorizeField fs \<noteq> None)) else Inr (col, Dim f)
             else Inl (NotVectorColumn col)
         | None \<Rightarrow> Inl (NotVectorColumn col)))"

section \<open>The call\<close>

record 'r vector_query =
  vqColumn :: string
  vqVec :: "float32 list"
  vqModel :: string
  vqFilter :: string
  vqArgs :: "go_value list"
  vqMinScore :: "'r option"

definition DefaultSearchLimit :: int where "DefaultSearchLimit = 10"

definition MaxSearchLimit :: int where "MaxSearchLimit = 200"

definition searchLimit :: "int \<Rightarrow> int" where
  "searchLimit n = (if n \<le> 0 then DefaultSearchLimit else if n > MaxSearchLimit then MaxSearchLimit else n)"

record 'r vector_page =
  vpHits :: "'r vec_hit list"
  vpMore :: bool
  vpSkipped :: nat

text \<open>
  \<open>low\<close> is the least score; \<open>flt\<close> reads a filter with its arguments over a row; \<open>score\<close> is what the cache
  answers for a column, a filter and a threshold.
\<close>

definition SearchVector ::
    "('r :: linorder) scorer \<Rightarrow> 'r \<Rightarrow> (string \<Rightarrow> string) \<Rightarrow> (string \<Rightarrow> go_value list \<Rightarrow> stored_row \<Rightarrow> bool) \<Rightarrow> ticks \<Rightarrow> store_db \<Rightarrow> string
       \<Rightarrow> 'r vector_query \<Rightarrow> row_scope option \<Rightarrow> incarnation \<Rightarrow> int \<Rightarrow> int
       \<Rightarrow> (string \<Rightarrow> (stored_row \<Rightarrow> bool) option \<Rightarrow> 'r \<Rightarrow> insert_error + 'r hits option) option \<Rightarrow> vector_error + 'r vector_page" where
  "SearchVector sc low trim flt tk db table vq scope inc offset lmt score =
     bindR (liftV (istmt (sub tk 0) (istmt (sub tk 1) (Inr ())))) (\<lambda>_.
     bindR (liftV (loadTable (sub tk 2) db table)) (\<lambda>(ts, m).
     bindR (resolveVectorColumn (TFields ts) m (vqColumn vq) (vqModel vq \<noteq> '''') (vqModel vq)) (\<lambda>(col, dim').
     if dim' > 0 \<and> int (length (vqVec vq)) \<noteq> dim' then Inl (QueryDimension (length (vqVec vq)) col dim')
     else if \<not> allFinite sc (vqVec vq) then Inl NonFiniteQuery
     else if offset < 0 then Inl NegativeOffset
     else
       let filt = trim (vqFilter vq) in
       if filt \<noteq> '''' \<and> containsStr filt '';'' then Inl ManyStatements
       else if filt \<noteq> '''' \<and> length (vqArgs vq) > 100 then Inl TooManyArguments
       else
         bindR (liftV (checkScopeIncarnation (sub tk 3) db table inc)) (\<lambda>_.
         bindR (case scopeUsable scope (Some ts) of Inl e \<Rightarrow> Inl (VectorScope e) | Inr _ \<Rightarrow> Inr ()) (\<lambda>_.
         let threshold = (case vqMinScore vq of None \<Rightarrow> low | Some s \<Rightarrow> s);
             candidates = (if filt = '''' then None else Some (flt filt (vqArgs vq))) in
         bindR (liftV (case score of None \<Rightarrow> Inr None | Some s \<Rightarrow> s col candidates threshold)) (\<lambda>cached.
         bindR (liftV (case cached of
                         Some h \<Rightarrow> Inr h
                       | None \<Rightarrow> scanVectors sc (sub tk 4) db table col (case candidates of None \<Rightarrow> (\<lambda>_. True) | Some f \<Rightarrow> f) scope
                                   (vqVec vq) threshold)) (\<lambda>(hits, skipped).
         case pageHits ranksBefore (nat offset) (nat (searchLimit lmt)) hits of
           (paged, hasMore) \<Rightarrow> Inr \<lparr>vpHits = paged, vpMore = hasMore, vpSkipped = skipped\<rparr>)))))))"

section \<open>The answer\<close>

lemma liftV_Inr [simp]: "liftV r = Inr x \<longleftrightarrow> r = Inr x"
  by (simp add: liftV_def split: sum.splits)

text \<open>
  C13. The page of a search is the next \<open>limit\<close> hits after \<open>offset\<close> in the order by score, the best first,
  and by id among equals, and it says that there is more exactly when there is; so pages neither overlap
  nor leave a hit out, whether the hits were all sorted or the best were picked out with a heap, and
  whatever order they were found in.
\<close>

theorem pages_in_order:
  fixes hits :: "(int \<times> ('r :: linorder)) list"
  shows "\<exists>ranked. mset ranked = mset hits \<and> sorted_wrt (\<lambda>a b. a = b \<or> snd a > snd b \<or> snd a = snd b \<and> fst a < fst b) ranked
    \<and> (\<forall>offset limit. pageHits ranksBefore offset limit hits = (take limit (drop offset ranked), offset + limit < length hits))"
proof -
  have "sorted_wrt (\<lambda>a b. a = b \<or> snd a > snd b \<or> snd a = snd b \<and> fst a < fst b) (sortSlice ranksBefore hits)"
    by (rule sorted_wrt_mono_rel [OF _ hits.sortSlice_sorted(2)]) (auto simp: hits.le_def ranksBefore_def split: if_splits)
  then show ?thesis using hits.sortSlice_sorted(1) [of hits] hits.pageHits_sorted [of _ _ hits] by blast
qed

lemma pageHits_same: "mset hits = mset hits' \<Longrightarrow> pageHits ranksBefore offset limit hits = pageHits ranksBefore offset limit hits'"
  unfolding hits.pageHits_sorted using hits.sortSlice_unique [of hits hits'] mset_eq_length [of hits hits'] by simp

text \<open>
  What the cache answered a search of \<open>db\<close> with: the search brought its entry up to date, and read it when
  the cache had come to \<open>c\<close>.
\<close>

definition cache_answer ::
    "'r scorer \<Rightarrow> (string \<Rightarrow> store_db \<Rightarrow> bool) \<Rightarrow> int \<Rightarrow> store_db \<Rightarrow> string \<Rightarrow> string \<Rightarrow> row_scope option \<Rightarrow> float32 list
       \<Rightarrow> string \<Rightarrow> (stored_row \<Rightarrow> bool) option \<Rightarrow> 'r \<Rightarrow> 'r hits \<Rightarrow> bool" where
  "cache_answer sc snaps limit db ns table scope vec col flt threshold h \<longleftrightarrow>
     (\<exists>procs tk tk' fp a b c0 g0 c1 c g. 0 < procs \<and> carries db table fp \<and> cache_run sc snaps limit c0 g0 \<and> (a, ns, table, col) \<in> g0
        \<and> refresh sc tk db (ns, table, col) (ownedOf db table) (lastSeq (sdLog db)) fp a c0 = (Inr (Some b), c1)
        \<and> cache_run sc snaps limit c g \<and> (a, ns, table, col) \<in> g
        \<and> scoreRead sc procs tk' db table col flt scope vec threshold (lastSeq (sdLog db)) fp (vcHeap c ! a) = Inr (Some h))"

text \<open>
  C12. A search that the cache answers gives the same page, with the same scores, the same word on whether
  there is more and the same count of skipped rows, as the search of the same snapshot without a cache.
  The cache may have been in any run: searches entering, taking an entry and bringing it up to date with
  older or newer snapshots, evictions, rebuilds and entries given up as too big, before and after the
  search had its own turn with the entry. A search that failed takes its entry out of the run.
\<close>

theorem vector_search_exact:
  assumes "timeline snaps" and "snaps ns db"
    and "\<And>col f thr h. score col f thr = Inr (Some h) \<Longrightarrow> cache_answer sc snaps limit db ns table scope (vqVec vq) col f thr h"
    and "SearchVector sc low trim flt tk db table vq scope inc offset lmt (Some score) = Inr page"
    and "SearchVector sc low trim flt tk db table vq scope inc offset lmt None = Inr page'"
  shows "page = page'"
proof -
  have same: "pageHits ranksBefore (nat offset) (nat (searchLimit lmt)) hits = pageHits ranksBefore (nat offset) (nat (searchLimit lmt)) hits'
      \<and> skipped = skipped'"
    if "score col f thr = Inr (Some (hits, skipped))"
      "scanVectors sc tk'' db table col (case f of None \<Rightarrow> (\<lambda>_. True) | Some f \<Rightarrow> f) scope (vqVec vq) thr = Inr (hits', skipped')"
    for col f thr hits skipped hits' skipped' tk''
  proof -
    from assms(3) [OF that(1), unfolded cache_answer_def] obtain procs tk0 tk' fp a b c0 g0 c1 c g where
      a: "0 < procs" "carries db table fp" "cache_run sc snaps limit c0 g0" "(a, ns, table, col) \<in> g0"
        "refresh sc tk0 db (ns, table, col) (ownedOf db table) (lastSeq (sdLog db)) fp a c0 = (Inr (Some b), c1)"
        "cache_run sc snaps limit c g" "(a, ns, table, col) \<in> g"
        "scoreRead sc procs tk' db table col f scope (vqVec vq) thr (lastSeq (sdLog db)) fp (vcHeap c ! a) = Inr (Some (hits, skipped))"
      by blast
    from cached_search_exact [OF assms(1,2) a(2,1,3-8) that(2)] pageHits_same show ?thesis by blast
  qed
  show ?thesis
    using assms(4,5) same
    by (auto simp: SearchVector_def Let_def split: if_splits prod.splits option.splits)
qed

section \<open>The example\<close>

definition docQuery :: "int vector_query" where
  "docQuery = \<lparr>vqColumn = '''', vqVec = [2], vqModel = '''', vqFilter = '''', vqArgs = [], vqMinScore = None\<rparr>"

definition docScore :: "string \<Rightarrow> (stored_row \<Rightarrow> bool) option \<Rightarrow> int \<Rightarrow> insert_error + int hits option" where
  "docScore col f thr =
     (if col = ''v'' then scoreRead wholeScorer 4 steady docTwo ''doc'' ''v'' f None [2] thr 3 docFp (vcHeap (snd docCaught) ! 0)
      else Inr None)"

definition docPage :: "int vector_page" where
  "docPage = \<lparr>vpHits = [(1, 14)], vpMore = True, vpSkipped = 0\<rparr>"

lemma doc_score: "docScore col f thr = Inr (Some h) \<Longrightarrow> cache_answer wholeScorer docSnaps 10000 docTwo ''n'' ''doc'' None (vqVec docQuery) col f thr h"
proof -
  assume score: "docScore col f thr = Inr (Some h)"
  have seq: "lastSeq (sdLog docTwo) = 3" by code_simp
  have step: "refresh wholeScorer steady docTwo (''n'', ''doc'', ''v'') (ownedOf docTwo ''doc'') (lastSeq (sdLog docTwo)) docFp 0 (snd docBuilt)
    = (Inr (Some 0), snd docCaught)"
    using doc_steps(3) by (simp add: seq doc_owned docCaught_def docKey_def prod_eq_iff)
  have mine: "(0, ''n'', ''doc'', ''v'') \<in> {(0, docKey)}" by (simp add: docKey_def)
  from score have "col = ''v''"
    "scoreRead wholeScorer 4 steady docTwo ''doc'' ''v'' f None (vqVec docQuery) thr (lastSeq (sdLog docTwo)) docFp (vcHeap (snd docCaught) ! 0) = Inr (Some h)"
    by (simp_all add: docScore_def docQuery_def seq split: if_splits)
  with doc_run mine step doc_carries(2) show ?thesis unfolding cache_answer_def
    by (intro exI [of _ 4] exI [of _ steady] exI [of _ docFp] exI [of _ 0] exI [of _ "snd docBuilt"] exI [of _ "{(0, docKey)}"] exI [of _ "snd docCaught"]) simp
qed

theorem vector_search_exact_witness:
  "SearchVector wholeScorer 0 id (\<lambda>_ _ _. True) steady docTwo ''doc'' docQuery None noIncarnation 0 1 (Some docScore) = Inr docPage
   \<and> SearchVector wholeScorer 0 id (\<lambda>_ _ _. True) steady docTwo ''doc'' docQuery None noIncarnation 0 1 None = Inr docPage"
proof -
  have cached: "SearchVector wholeScorer 0 id (\<lambda>_ _ _. True) steady docTwo ''doc'' docQuery None noIncarnation 0 1 (Some docScore) = Inr docPage"
    by code_simp
  have "isOk (SearchVector wholeScorer 0 id (\<lambda>_ _ _. True) steady docTwo ''doc'' docQuery None noIncarnation 0 1 None)" by code_simp
  then obtain page where scanned: "SearchVector wholeScorer 0 id (\<lambda>_ _ _. True) steady docTwo ''doc'' docQuery None noIncarnation 0 1 None = Inr page"
    by (auto simp: isOk_iff)
  have "docSnaps ''n'' docTwo" by (simp add: docSnaps_def)
  from vector_search_exact [OF doc_timeline this doc_score cached scanned] cached scanned show ?thesis by simp
qed

end
