(* ===== verification/Spec2Isabelle.thy ===== *)
theory Spec2Isabelle
  imports Filter_Sound Schema_Infer Graph_Traverse Constraint_Catalog Api_Authz_Props Auth_Sources Store_Feed Query_Refuse
    Pg_Sql_Lex Pg_Fts_Props Store_Insert_Props Store_Vector_Search
begin

text \<open>
  A verification of the core of dolmen, a multi-tenant table store served over HTTP and MCP.

  \<^bold>\<open>The program.\<close> A request is authenticated (\<^verbatim>\<open>internal/auth\<close>), authorized against the grants of
  its caller (\<^verbatim>\<open>internal/api/authz*.go\<close>), decoded, and run by a storage engine
  (\<^verbatim>\<open>internal/store\<close>, \<^verbatim>\<open>internal/postgres\<close>, \<^verbatim>\<open>internal/lakehouse\<close>). On the way, filter expressions
  are parsed and checked (\<^verbatim>\<open>internal/filter\<close>), table declarations and values are validated
  (\<^verbatim>\<open>internal/schema\<close>, \<^verbatim>\<open>internal/value\<close>), declared constraints are checked against the rows
  (\<^verbatim>\<open>internal/constraints\<close>), and relation tables are walked as graphs (\<^verbatim>\<open>internal/graph\<close>). The
  development models these parts; the engines themselves run SQL and are outside it.

  \<^bold>\<open>Shared ground.\<close> \<open>Go_Prelude\<close>: results as sums (\<open>bindR\<close>), Go's string functions on byte
  strings, UTF-8 as the decoder reads it, and the list and word lemmas the components share.

  \<^bold>\<open>Authorisation.\<close> \<open>Auth_Verbs\<close> (\<^verbatim>\<open>verb.go\<close>): verb sets as eight-bit words. \<open>Auth_Registry\<close>
  (\<^verbatim>\<open>grants.go\<close>, \<^verbatim>\<open>keys.go\<close>, \<^verbatim>\<open>reach.go\<close>): the grant and key tables as lists of rows, one
  definition per method, with a fault at every database call. \<open>Auth_Registry_Props\<close>: the
  tables refine an access matrix; the locale \<open>permission_store\<close> states what a store of
  permissions promises and is interpreted on the registry. \<open>Auth_Root_Admin\<close>: guarded
  operations never lose the last usable root administrator. \<open>Auth_Sources\<close> (\<^verbatim>\<open>auth.go\<close>,
  \<^verbatim>\<open>header.go\<close>, \<^verbatim>\<open>token.go\<close>, \<^verbatim>\<open>authenticator.go\<close>, \<^verbatim>\<open>oidc_pending.go\<close>): who a request is, the startup
  check, the refreshed key ring and the table of sign-ins as a transition system. \<open>Api_Authz\<close>
  (\<^verbatim>\<open>authz.go\<close>, \<^verbatim>\<open>authz_constraints.go\<close>, \<^verbatim>\<open>authz_guards.go\<close>, \<^verbatim>\<open>scope.go\<close>, \<^verbatim>\<open>batch.go\<close>): the rules of the
  operations and every check made from them. \<open>Api_Authz_Props\<close>: the checks decide the matrix
  of operations over stored grants, batches and reveals are guarded, row scopes are sound.

  \<^bold>\<open>Filters.\<close> \<open>Filter_Lex\<close> (\<^verbatim>\<open>lex.go\<close>) and \<open>Filter_Parse\<close> (\<^verbatim>\<open>parse.go\<close>, \<^verbatim>\<open>ast.go\<close>, \<^verbatim>\<open>filter.go\<close>): the
  scanner and the operator-precedence parser with its value stack. \<open>Filter_Sound\<close>: what an
  accepted filter can contain, and that \<^verbatim>\<open>Parse\<close> always answers; the locale \<open>expr_parser\<close> is the
  contract its mutually recursive methods rely on, interpreted on the parser at every fuel.

  \<^bold>\<open>Schemas and values.\<close> \<open>Schema_Names\<close>, \<open>Schema_Fields\<close>, \<open>Schema_Values\<close>, \<open>Schema_Infer\<close>
  (\<^verbatim>\<open>schema.go\<close>, \<^verbatim>\<open>keywords.go\<close>, \<^verbatim>\<open>engine_keywords.go\<close>, \<^verbatim>\<open>filename.go\<close>, \<^verbatim>\<open>shape.go\<close>): names, validation,
  vectors, shapes and inference. \<open>Value_Coerce\<close> (\<^verbatim>\<open>internal/value\<close>): the stored form of values,
  reading it back, and size estimates.

  \<^bold>\<open>Constraints.\<close> \<open>Schema_Constraints\<close> (\<^verbatim>\<open>constraints.go\<close>, \<^verbatim>\<open>relations.go\<close>): declarations and their
  validation. \<open>Constraint_Eval\<close> (\<^verbatim>\<open>values.go\<close>, \<^verbatim>\<open>predicate.go\<close>, \<^verbatim>\<open>evaluate.go\<close>): scalars, keys, compiled
  clauses. \<open>Constraint_Key\<close>: keys are equal exactly for equal values. \<open>Constraint_Where\<close>: compiled
  clauses have their SQL meaning. \<open>Constraint_Check\<close> (\<^verbatim>\<open>check.go\<close>, \<^verbatim>\<open>catalog.go\<close>) and
  \<open>Constraint_Catalog\<close>: a catalog that passes satisfies its constraints, and the selected checks
  are enough after a change.

  \<^bold>\<open>Graphs.\<close> \<open>Graph_Read\<close> (\<^verbatim>\<open>neighbors.go\<close>, \<^verbatim>\<open>traversal.go\<close>), \<open>Graph_Props\<close>, \<open>Graph_Traverse\<close>: bounded
  reading of edges and breadth-first search; what is shown is visible and within the
  limits, paths are real and shortest, and an untruncated answer is complete.

  \<^bold>\<open>Change feeds.\<close> \<open>Store_Changes\<close> (\<^verbatim>\<open>changelog.go\<close>, with \<^verbatim>\<open>scope.go\<close>, \<^verbatim>\<open>nsgen.go\<close>, \<^verbatim>\<open>lifecycle.go\<close> and
  \<^verbatim>\<open>listen_page.go\<close>): the log, cursor tokens and their chains, pages and pruning, with the rows of
  the SQLite tables as lists. \<open>Store_Feed\<close>: a consumer following its cursors through any
  interleaving of writes, reads and pruning misses nothing and sees nothing twice, a gap is
  refused, and a live cursor makes progress.

  \<^bold>\<open>Queries.\<close> \<open>Query_Lex\<close> (\<^verbatim>\<open>query.go\<close>, \<^verbatim>\<open>query_tables.go\<close>): the shape check and the lexer of a read-only
  query. \<open>Query_Scan\<close> (\<^verbatim>\<open>query_tables.go\<close>): the recursive descent that refuses reserved tables and
  records references, and the masking of tables with secret fields. \<open>Query_Total\<close>: the scanner
  always answers, its references are apart and inside the text, and masking replaces them; the
  locale \<open>nested_statements\<close> is what a level of the parser relies on of the statements inside its
  parentheses, interpreted on \<open>parseStatement\<close> at every depth. \<open>Query_Refuse\<close>: reserved tables are
  refused, and the text after an unmatched parenthesis is not read.

  \<^bold>\<open>PostgreSQL.\<close> \<open>Pg_Names\<close> (\<^verbatim>\<open>names.go\<close>, \<^verbatim>\<open>sql_lex.go\<close>): physical names of columns and short names of a
  query. \<open>Pg_Names_Props\<close>: columns stay apart through every migration, and short names lead back.
  \<open>Pg_Sql_Lex\<close> (\<^verbatim>\<open>sql_lex.go\<close>): how a query is rewritten, and that nothing but placeholders and long
  names changes. \<open>Pg_Fts\<close> (\<^verbatim>\<open>fts_query.go\<close>): the search query language and its compilation.
  \<open>Pg_Fts_Props\<close>: the parser reads exactly its grammar, and texts are only bound. The locale
  \<open>operator_chain\<close> is shared by the three loops of that parser; \<open>group_parsing\<close> is what one level
  of parentheses relies on, interpreted at every depth.

  \<^bold>\<open>Inserts.\<close> \<open>Store_Insert\<close> (\<^verbatim>\<open>insert.go\<close>, \<^verbatim>\<open>idempotency.go\<close>, \<^verbatim>\<open>secret.go\<close>, \<^verbatim>\<open>constraint_snapshot.go\<close>,
  \<^verbatim>\<open>lifecycle.go\<close> of \<^verbatim>\<open>internal/store\<close>): the call from its guard to the commit, over the schemas and the
  change log of \<open>Store_Changes\<close> and the checks of \<open>Constraint_Check\<close>, and the drop of a table.
  \<open>Store_Insert_Props\<close>: the step relation \<open>history\<close> of overlapping attempts and drops, in which a key
  is applied at most once; a retry answers the rows that were written; and an insert keeps the
  constraints of every table.

  \<^bold>\<open>Vectors.\<close> \<open>Store_Vectors\<close> (\<^verbatim>\<open>vector.go\<close>, \<^verbatim>\<open>vector_cache.go\<close>): the scan of the vectors of a table, and
  the cache of decoded vectors that answers in its place, over the rows of \<open>Store_Insert\<close> and the change
  log; the entries live in a heap of their own, because a search may hold one that is no longer
  registered. \<open>Store_Vectors_Props\<close>: an entry as a map from row ids, by the locale \<open>id_index\<close>.
  \<open>Store_Vector_Runs\<close>: bringing an entry up to date, and the accounting. \<open>Store_Vector_Cache\<close>: the step
  relation \<open>cache_run\<close> of overlapping searches, in which a search answers like a scan of its snapshot
  and the cache keeps its bound; what a search does under the lock of an entry is one step.
  \<open>Store_Vector_Inserts\<close>: the databases inserts leave behind satisfy what \<open>timeline\<close> asks of snapshots.
  \<open>Store_Top_Hits\<close>: the ranking with the heap of the standard library, under the locale \<open>ranking\<close>.
  \<open>Store_Vector_Search\<close>: the whole call up to its page of hits, which is the same with and without the
  cache.

  \<^bold>\<open>How code is modelled.\<close> Errors are values: each refusal of the source is a constructor.
  Anything that can fail or change between two steps of a request is read at an address of
  the call tree: a context poll (\<open>ctx\<close>), a database fault (\<open>faults\<close>), the registry and the
  tables (\<open>world\<close>). A theorem that holds for every such function covers every cancellation,
  every fault and every interleaving between the reads. Go maps are association lists or
  functions, their iteration order made explicit where the code sorts the keys. Floats are
  exact rationals with the special values apart, because the modelled code only compares,
  narrows and passes them on.

  \<^bold>\<open>Fuel.\<close> The expression parser and the traversal take fuel: one more than the length of the
  text, and a bound computed from the limits of the query. \<open>Parse_answers\<close> and
  \<open>Traverse_returns\<close> prove that it never runs out. The query scanner recurses on what is left of the
  statement depth, and its loops take fuel from what is left to read, a character counting
  two; \<open>scanQueryTables_answers\<close> proves that this is enough. Every other loop is structural or
  has a measure.

  \<^bold>\<open>Arguments of the model.\<close> Unicode case and space tables beyond ASCII, time parsing, JSON
  decoding and encoding, floating-point conversion, SHA-256, Ed25519, base64, address
  parsing, SQL \<^verbatim>\<open>LIKE\<close> and the storage engines. Hypotheses on them are named (\<open>like_spec\<close>,
  \<open>noSlash\<close>) and hold of the documented behaviour; the witnesses instantiate them.

  \<^bold>\<open>Not modelled.\<close> The engines (SQLite, PostgreSQL, DuckDB and object storage), because their
  work happens in SQL run elsewhere; HTTP, MCP and command-line plumbing; body decoding;
  embedding models; file storage; encryption and randomness; telemetry; test harnesses.
  Within the engines, the filter renderer of \<^verbatim>\<open>internal/postgres\<close> and the shared transaction of
  batches and imports in \<^verbatim>\<open>internal/store\<close> are left out.
\<close>

end
